(* ===== verification/Otela_Prelude.thy ===== *)
theory Otela_Prelude
  imports Main "HOL-Library.Word"
begin

text \<open>
  The library shared by the component theories: Go's 64-bit integer arithmetic, the textual
  integers of \<^verbatim>\<open>strconv\<close>, a result type for fallible code, and SQL tables as lists of rows.

  Go's \<^verbatim>\<open>int64\<close> and \<^verbatim>\<open>int\<close> (64 bits on every platform the server is built for) are HOL integers
  with the wrap-around written out by \<open>wrap64\<close>; lemma \<open>wrap64_word\<close> ties it to the
  two's complement reading of a \<^typ>\<open>64 word\<close>. Division truncates towards zero (\<open>go_quot\<close>).
  A \<^verbatim>\<open>time.Time\<close> is an integer instant, \<open>zero_time\<close> the zero value that \<^verbatim>\<open>IsZero\<close> tests for.

  A table is the list of its rows in insertion order. \<open>find_row\<close> is a SELECT by primary key,
  \<open>update_row\<close> an UPDATE by primary key, \<open>sum_rows\<close> is \<^verbatim>\<open>COALESCE(SUM(..), 0) .. WHERE ..\<close>.
\<close>

named_theorems res_simps \<open>unfolding the result monad\<close>
named_theorems row_simps \<open>tables as lists of rows\<close>

section \<open>Machine integers\<close>

type_synonym int64 = int
type_synonym instant = int

abbreviation max_int64 :: int64 where
  "max_int64 \<equiv> 9223372036854775807"

abbreviation min_int64 :: int64 where
  "min_int64 \<equiv> -9223372036854775808"

definition in_int64 :: "int \<Rightarrow> bool" where
  "in_int64 x \<longleftrightarrow> min_int64 \<le> x \<and> x \<le> max_int64"

definition wrap64 :: "int \<Rightarrow> int64" where
  "wrap64 x = (x + 9223372036854775808) mod 18446744073709551616 - 9223372036854775808"

definition go_quot :: "int64 \<Rightarrow> int64 \<Rightarrow> int64" where
  "go_quot a b = sgn a * sgn b * (\<bar>a\<bar> div \<bar>b\<bar>)"

definition zero_time :: instant where
  "zero_time = 0"

text \<open>The idiom \<^verbatim>\<open>if now.IsZero() { now = time.Now().UTC() }\<close>; \<open>clock\<close> is the wall clock.\<close>

definition time_or_now :: "instant \<Rightarrow> instant \<Rightarrow> instant" where
  "time_or_now clock now = (if now = zero_time then clock else now)"

section \<open>Decimal integers\<close>

definition digit_char :: "nat \<Rightarrow> char" where
  "digit_char d = char_of (48 + d)"

fun nat_digits :: "nat \<Rightarrow> string" where
  "nat_digits n = (if n < 10 then [digit_char n]
                   else nat_digits (n div 10) @ [digit_char (n mod 10)])"

definition itoa :: "int \<Rightarrow> string" where
  "itoa i = (if i < 0 then CHR ''-'' # nat_digits (nat (- i)) else nat_digits (nat i))"

definition digits_val :: "string \<Rightarrow> nat" where
  "digits_val cs = foldl (\<lambda>v c. 10 * v + (of_char c - 48)) 0 cs"

text \<open>\<^verbatim>\<open>strconv.ParseInt(s, 10, 64)\<close>: an optional sign and at least one digit, within the int64 range.\<close>

definition is_digit :: "char \<Rightarrow> bool" where
  "is_digit c \<longleftrightarrow> 48 \<le> (of_char c :: nat) \<and> (of_char c :: nat) < 58"

definition parse_digits :: "string \<Rightarrow> nat option" where
  "parse_digits cs = (if cs \<noteq> [] \<and> list_all is_digit cs then Some (digits_val cs) else None)"

definition ParseInt :: "string \<Rightarrow> int64 option" where
  "ParseInt s =
     (let (neg, cs) = (case s of [] \<Rightarrow> (False, []) | c # rest \<Rightarrow>
            if c = CHR ''-'' then (True, rest) else if c = CHR ''+'' then (False, rest) else (False, s))
      in case parse_digits cs of
           None \<Rightarrow> None
         | Some n \<Rightarrow> let v = (if neg then - int n else int n) in if in_int64 v then Some v else None)"

section \<open>Fallible code\<close>

fun rbind :: "'e + 'a \<Rightarrow> ('a \<Rightarrow> 'e + 'b) \<Rightarrow> 'e + 'b" where
  "rbind (Inl e) f = Inl e"
| "rbind (Inr v) f = f v"

section \<open>Tables\<close>

definition find_row :: "('r \<Rightarrow> 'k) \<Rightarrow> 'k \<Rightarrow> 'r list \<Rightarrow> 'r option" where
  "find_row key k rows = List.find (\<lambda>r. key r = k) rows"

definition has_row :: "('r \<Rightarrow> 'k) \<Rightarrow> 'k \<Rightarrow> 'r list \<Rightarrow> bool" where
  "has_row key k rows \<longleftrightarrow> List.list_ex (\<lambda>r. key r = k) rows"

definition update_row :: "('r \<Rightarrow> 'k) \<Rightarrow> 'k \<Rightarrow> ('r \<Rightarrow> 'r) \<Rightarrow> 'r list \<Rightarrow> 'r list" where
  "update_row key k f rows = map (\<lambda>r. if key r = k then f r else r) rows"

definition sum_rows :: "('r \<Rightarrow> bool) \<Rightarrow> ('r \<Rightarrow> int) \<Rightarrow> 'r list \<Rightarrow> int" where
  "sum_rows P g rows = sum_list (map g (filter P rows))"

definition keys_distinct :: "('r \<Rightarrow> 'k) \<Rightarrow> 'r list \<Rightarrow> bool" where
  "keys_distinct key rows \<longleftrightarrow> distinct (map key rows)"

section \<open>JSON\<close>

text \<open>A decoded JSON value; a number is an integer literal, or the text of any other literal. The last of several equal keys of an object wins.\<close>

datatype json =
    JNull
  | JBool bool
  | JNum int
  | JFloat string
  | JStr string
  | JArr "json list"
  | JObj "(string \<times> json) list"

definition member :: "string \<Rightarrow> (string \<times> json) list \<Rightarrow> json" where
  "member k fs = (case find_row fst k (rev fs) of None \<Rightarrow> JNull | Some (_, v) \<Rightarrow> v)"

text \<open>An assignment to a key of a decoded object.\<close>

definition set_member :: "string \<Rightarrow> json \<Rightarrow> (string \<times> json) list \<Rightarrow> (string \<times> json) list" where
  "set_member k v fs = filter (\<lambda>(k', _). k' \<noteq> k) fs @ [(k, v)]"

section \<open>Runs\<close>

text \<open>A sequence of transactions: one that fails leaves the state as it was.\<close>

fun run_ops :: "('op \<Rightarrow> 's \<Rightarrow> 'e + ('s \<times> 'r)) \<Rightarrow> 'op list \<Rightarrow> 's \<Rightarrow> 's" where
  "run_ops exec [] s = s"
| "run_ops exec (op # ops) s = run_ops exec ops (case exec op s of Inl _ \<Rightarrow> s | Inr (s', _) \<Rightarrow> s')"

text \<open>One transaction with its error, and what a step is that makes at most one transaction, of a permitted kind.\<close>

definition apply_tx :: "('op \<Rightarrow> 's \<Rightarrow> 'e + ('s \<times> 'r)) \<Rightarrow> 'op \<Rightarrow> 's \<Rightarrow> 's \<times> 'e option" where
  "apply_tx exec op s = (case exec op s of Inl e \<Rightarrow> (s, Some e) | Inr (s', _) \<Rightarrow> (s', None))"

definition one_tx :: "('op \<Rightarrow> 's \<Rightarrow> 'e + ('s \<times> 'r)) \<Rightarrow> ('op \<Rightarrow> bool) \<Rightarrow> 's \<Rightarrow> 's \<Rightarrow> bool" where
  "one_tx exec P s r \<longleftrightarrow> r = s \<or> (\<exists>op. P op \<and> r = run_ops exec [op] s)"

text \<open>
  A worker's pass over the rows a sweep returned: it stops where the context is cancelled (\<open>alive\<close>), and adds up what the
  step of each row reports.
\<close>

fun pass_loop :: "('r \<Rightarrow> bool) \<Rightarrow> ('r \<Rightarrow> 's \<Rightarrow> 's \<times> nat) \<Rightarrow> 'r list \<Rightarrow> 's \<Rightarrow> nat \<Rightarrow> 's \<times> nat" where
  "pass_loop alive step [] s n = (s, n)"
| "pass_loop alive step (r # rs) s n =
     (if \<not> alive r then (s, n) else case step r s of (s', k) \<Rightarrow> pass_loop alive step rs s' (n + k))"

section \<open>Lemmas on machine integers\<close>

lemma wrap64_id: "in_int64 x \<Longrightarrow> wrap64 x = x"
  by (simp add: in_int64_def wrap64_def)

lemma wrap64_range: "in_int64 (wrap64 x)"
proof -
  have "0 \<le> (x + 9223372036854775808) mod 18446744073709551616"
    and "(x + 9223372036854775808) mod 18446744073709551616 < 18446744073709551616"
    by simp_all
  then show ?thesis unfolding in_int64_def wrap64_def by linarith
qed

lemma wrap64_cong: "\<exists>k. wrap64 x = x - k * 18446744073709551616"
proof -
  define q where "q = (x + 9223372036854775808) div 18446744073709551616"
  have "(x + 9223372036854775808) mod 18446744073709551616 =
      (x + 9223372036854775808) - q * 18446744073709551616"
    unfolding q_def by (simp add: minus_div_mult_eq_mod)
  then have "wrap64 x = x - q * 18446744073709551616"
    unfolding wrap64_def by linarith
  then show ?thesis by blast
qed

lemma wrap64_word: "wrap64 x = sint (word_of_int x :: 64 word)"
  by (simp add: wrap64_def signed_take_bit_eq_take_bit_shift take_bit_eq_mod sint_sbintrunc')

lemma in_int64_between: "0 \<le> x \<Longrightarrow> x \<le> y \<Longrightarrow> in_int64 y \<Longrightarrow> in_int64 x"
  by (simp add: in_int64_def)

lemma go_quot_nonneg: "0 \<le> a \<Longrightarrow> 0 < b \<Longrightarrow> go_quot a b = a div b"
  by (simp add: go_quot_def sgn_if)

lemma go_quot_neg: "a < 0 \<Longrightarrow> 0 < b \<Longrightarrow> go_quot a b \<le> 0"
  by (simp add: go_quot_def pos_imp_zdiv_nonneg_iff)

section \<open>Lemmas on decimal integers\<close>

declare nat_digits.simps [simp del]

lemma of_char_digit: "d < 10 \<Longrightarrow> (of_char (digit_char d) :: nat) = 48 + d"
  by (simp add: digit_char_def)

lemma digits_val_snoc: "digits_val (cs @ [c]) = 10 * digits_val cs + (of_char c - 48)"
  by (simp add: digits_val_def)

lemma digits_val_nat_digits: "digits_val (nat_digits n) = n"
proof (induction n rule: nat_digits.induct)
  case (1 n)
  show ?case
  proof (cases "n < 10")
    case True
    then show ?thesis
      by (simp add: nat_digits.simps [of n] digits_val_def of_char_digit)
  next
    case False
    with "1.IH" have "digits_val (nat_digits (n div 10)) = n div 10" by simp
    with False show ?thesis
      by (simp add: nat_digits.simps [of n] digits_val_snoc of_char_digit)
  qed
qed

lemma nat_digits_inject: "nat_digits m = nat_digits n \<Longrightarrow> m = n"
  by (metis digits_val_nat_digits)

lemma nat_digits_digits:
  "c \<in> set (nat_digits n) \<Longrightarrow> 48 \<le> (of_char c :: nat) \<and> (of_char c :: nat) < 58"
proof (induction n arbitrary: c rule: nat_digits.induct)
  case (1 n)
  show ?case
  proof (cases "n < 10")
    case True
    with "1.prems" show ?thesis
      by (simp add: nat_digits.simps [of n] of_char_digit)
  next
    case False
    from "1.prems" False consider "c \<in> set (nat_digits (n div 10))" | "c = digit_char (n mod 10)"
      by (auto simp: nat_digits.simps [of n])
    then show ?thesis
    proof cases
      case 1
      with "1.IH" False show ?thesis by blast
    next
      case 2
      then show ?thesis by (simp add: of_char_digit)
    qed
  qed
qed

lemma nat_digits_no_minus: "CHR ''-'' \<notin> set (nat_digits n)"
  using nat_digits_digits [of "CHR ''-''" n] by auto

lemma nat_digits_no_colon: "CHR '':'' \<notin> set (nat_digits n)"
  using nat_digits_digits [of "CHR '':''" n] by auto

lemma nat_digits_nonempty: "nat_digits n \<noteq> []"
  by (simp add: nat_digits.simps [of n])

lemma itoa_no_colon: "CHR '':'' \<notin> set (itoa i)"
  by (simp add: itoa_def nat_digits_no_colon)

lemma nat_digits_not_minus: "nat_digits m \<noteq> CHR ''-'' # cs"
  using nat_digits_no_minus [of m] by auto

lemma itoa_inject: "itoa i = itoa j \<Longrightarrow> i = j"
  by (auto simp: itoa_def nat_digits_not_minus nat_digits_not_minus [symmetric]
      dest: nat_digits_inject split: if_splits)

text \<open>Printing and parsing a decimal integer is a round trip.\<close>

lemma parse_nat_digits: "parse_digits (nat_digits n) = Some n"
  using nat_digits_digits nat_digits_nonempty
  by (auto simp: parse_digits_def digits_val_nat_digits list_all_iff is_digit_def)

lemma nat_digits_head:
  assumes "nat_digits n = c # cs"
  shows "c \<noteq> CHR ''-''" "c \<noteq> CHR ''+''"
  using nat_digits_digits [of c n] assms by auto

lemma ParseInt_itoa: "in_int64 i \<Longrightarrow> ParseInt (itoa i) = Some i"
proof (cases "i < 0")
  case True
  then show "in_int64 i \<Longrightarrow> ?thesis" by (simp add: ParseInt_def itoa_def parse_nat_digits)
next
  case False
  obtain c cs where c: "nat_digits (nat i) = c # cs" using nat_digits_nonempty by (cases "nat_digits (nat i)") auto
  from nat_digits_head [OF c] False c parse_nat_digits [of "nat i"] show "in_int64 i \<Longrightarrow> ?thesis"
    by (simp add: ParseInt_def itoa_def)
qed

text \<open>Splitting at the first or at the last occurrence of a separator is unambiguous.\<close>

lemma append_sep_inject_first:
  "xs @ c # ys = xs' @ c # ys' \<Longrightarrow> c \<notin> set xs \<Longrightarrow> c \<notin> set xs' \<Longrightarrow> xs = xs' \<and> ys = ys'"
proof (induction xs arbitrary: xs')
  case Nil
  then show ?case by (cases xs') auto
next
  case (Cons x xs)
  then show ?case by (cases xs') auto
qed

lemma append_sep_inject:
  assumes "xs @ c # ys = xs' @ c # ys'" and "c \<notin> set ys" and "c \<notin> set ys'"
  shows "xs = xs' \<and> ys = ys'"
proof -
  from assms(1) have "rev (xs @ c # ys) = rev (xs' @ c # ys')" by simp
  then have "rev ys @ c # rev xs = rev ys' @ c # rev xs'" by simp
  from append_sep_inject_first [OF this] assms(2,3) show ?thesis by simp
qed

section \<open>Lemmas on fallible code\<close>

lemma rbind_Inr_iff [res_simps]: "rbind m f = Inr v \<longleftrightarrow> (\<exists>u. m = Inr u \<and> f u = Inr v)"
  by (cases m) auto

lemma rbind_Inl_iff: "rbind m f = Inl e \<longleftrightarrow> m = Inl e \<or> (\<exists>u. m = Inr u \<and> f u = Inl e)"
  by (cases m) auto

lemma rbind_InrE:
  assumes "rbind m f = Inr v"
  obtains u where "m = Inr u" and "f u = Inr v"
  using assms by (auto simp: res_simps)

section \<open>Lemmas on tables\<close>

lemma find_row_Nil [row_simps]: "find_row key k [] = None"
  by (simp add: find_row_def)

lemma find_row_Cons [row_simps]:
  "find_row key k (r # rows) = (if key r = k then Some r else find_row key k rows)"
  by (simp add: find_row_def)

lemma find_row_append [row_simps]:
  "find_row key k (rows @ rows') =
     (case find_row key k rows of None \<Rightarrow> find_row key k rows' | Some r \<Rightarrow> Some r)"
  by (induction rows) (simp_all add: row_simps)

lemma find_row_removed:
  "find_row fst k (filter (\<lambda>(a, _). a \<noteq> k') fs) = (if k = k' then None else find_row fst k fs)"
  by (induction fs) (auto simp: find_row_def split_beta)

lemma member_set_member: "member k (set_member k' v fs) = (if k = k' then v else member k fs)"
proof -
  have "find_row fst k (rev (filter (\<lambda>(a, _). a \<noteq> k') fs)) = (if k = k' then None else find_row fst k (rev fs))"
    by (simp add: rev_filter find_row_removed)
  then show ?thesis by (simp add: member_def set_member_def find_row_def)
qed

lemma find_row_key: "find_row key k rows = Some r \<Longrightarrow> key r = k"
  by (induction rows) (auto simp: row_simps split: if_splits)

lemma find_row_mem: "find_row key k rows = Some r \<Longrightarrow> r \<in> set rows"
  by (induction rows) (auto simp: row_simps split: if_splits)

lemma find_row_None_iff: "find_row key k rows = None \<longleftrightarrow> k \<notin> key ` set rows"
  by (induction rows) (auto simp: row_simps)

lemma has_row_iff [row_simps]: "has_row key k rows \<longleftrightarrow> k \<in> key ` set rows"
  by (auto simp: has_row_def list_ex_iff)

lemma has_row_find: "has_row key k rows \<longleftrightarrow> find_row key k rows \<noteq> None"
  by (simp add: row_simps find_row_None_iff)

lemma find_row_distinct:
  assumes "keys_distinct key rows" and "r \<in> set rows"
  shows "find_row key (key r) rows = Some r"
  using assms by (induction rows) (auto simp: row_simps keys_distinct_def image_iff)

lemma keys_distinct_Nil [row_simps]: "keys_distinct key []"
  by (simp add: keys_distinct_def)

lemma keys_distinct_snoc [row_simps]:
  "keys_distinct key (rows @ [r]) \<longleftrightarrow> keys_distinct key rows \<and> key r \<notin> key ` set rows"
  by (auto simp: keys_distinct_def)

lemma keys_distinct_Cons [row_simps]:
  "keys_distinct key (r # rows) \<longleftrightarrow> keys_distinct key rows \<and> key r \<notin> key ` set rows"
  by (auto simp: keys_distinct_def)

lemma keys_distinct_update:
  assumes "\<And>r. key r = k \<Longrightarrow> key (f r) = k"
  shows "keys_distinct key (update_row key k f rows) \<longleftrightarrow> keys_distinct key rows"
proof -
  have "map key (update_row key k f rows) = map key rows"
    using assms by (auto simp: update_row_def)
  then show ?thesis by (simp add: keys_distinct_def)
qed

lemma image_key_update:
  assumes "\<And>r. key r = k \<Longrightarrow> key (f r) = k"
  shows "key ` set (update_row key k f rows) = key ` set rows"
proof -
  have "map key (update_row key k f rows) = map key rows"
    using assms by (auto simp: update_row_def)
  then show ?thesis by (metis list.set_map)
qed

lemma update_row_Nil [row_simps]: "update_row key k f [] = []"
  by (simp add: update_row_def)

lemma update_row_Cons [row_simps]:
  "update_row key k f (r # rows) = (if key r = k then f r else r) # update_row key k f rows"
  by (simp add: update_row_def)

lemma update_row_absent [row_simps]: "k \<notin> key ` set rows \<Longrightarrow> update_row key k f rows = rows"
  by (induction rows) (auto simp: row_simps)

lemma find_row_update:
  assumes "\<And>r. key r = k \<Longrightarrow> key (f r) = k"
  shows "find_row key j (update_row key k f rows) =
    (if j = k then map_option f (find_row key k rows) else find_row key j rows)"
  using assms by (induction rows) (auto simp: row_simps)

lemma set_update_row:
  "r \<in> set (update_row key k f rows) \<Longrightarrow>
     (\<exists>r0 \<in> set rows. key r0 = k \<and> r = f r0) \<or> (r \<in> set rows \<and> key r \<noteq> k)"
  by (auto simp: update_row_def)

lemma sum_rows_Nil [row_simps]: "sum_rows P g [] = 0"
  by (simp add: sum_rows_def)

lemma sum_rows_Cons [row_simps]:
  "sum_rows P g (r # rows) = (if P r then g r else 0) + sum_rows P g rows"
  by (simp add: sum_rows_def)

lemma sum_rows_append [row_simps]:
  "sum_rows P g (rows @ rows') = sum_rows P g rows + sum_rows P g rows'"
  by (simp add: sum_rows_def)

lemma sum_rows_nonneg: "(\<And>r. r \<in> set rows \<Longrightarrow> P r \<Longrightarrow> 0 \<le> g r) \<Longrightarrow> 0 \<le> sum_rows P g rows"
  by (induction rows) (auto simp: row_simps)

lemma sum_rows_cong:
  "(\<And>r. r \<in> set rows \<Longrightarrow> P r = P' r) \<Longrightarrow> (\<And>r. r \<in> set rows \<Longrightarrow> P r \<Longrightarrow> g r = g' r) \<Longrightarrow>
     sum_rows P g rows = sum_rows P' g' rows"
  by (induction rows) (auto simp: row_simps)

lemma sum_rows_update:
  assumes "keys_distinct key rows" and "find_row key k rows = Some r"
  shows "sum_rows P g (update_row key k f rows) =
    sum_rows P g rows - (if P r then g r else 0) + (if P (f r) then g (f r) else 0)"
  using assms
proof (induction rows)
  case Nil
  then show ?case by (simp add: row_simps)
next
  case (Cons x rows)
  show ?case
  proof (cases "key x = k")
    case True
    with Cons.prems have "r = x" and "k \<notin> key ` set rows" by (auto simp: row_simps)
    with True show ?thesis by (simp add: row_simps)
  next
    case False
    with Cons show ?thesis by (simp add: row_simps)
  qed
qed

lemma sum_rows_update_same:
  assumes "\<And>r. key r = k \<Longrightarrow> P (f r) = P r" and "\<And>r. key r = k \<Longrightarrow> g (f r) = g r"
  shows "sum_rows P g (update_row key k f rows) = sum_rows P g rows"
  using assms by (induction rows) (auto simp: row_simps)

lemma sum_rows_member_le:
  assumes "\<And>r. r \<in> set rows \<Longrightarrow> P r \<Longrightarrow> 0 \<le> g r" and "r \<in> set rows" and "P r"
  shows "g r \<le> sum_rows P g rows"
  using assms
proof (induction rows)
  case (Cons x rows)
  have nn: "0 \<le> sum_rows P g rows"
    using Cons.prems(1) by (intro sum_rows_nonneg) auto
  show ?case
  proof (cases "r = x")
    case True
    with nn Cons.prems(3) show ?thesis by (simp add: row_simps)
  next
    case False
    with Cons.prems have "g r \<le> sum_rows P g rows" by (intro Cons.IH) auto
    with Cons.prems(1) [of x] show ?thesis by (auto simp: row_simps)
  qed
qed simp

lemma sum_rows_zero: "(\<And>r. r \<in> set rows \<Longrightarrow> \<not> P r) \<Longrightarrow> sum_rows P g rows = 0"
  by (induction rows) (auto simp: row_simps)

section \<open>Guarded state machines\<close>

text \<open>
  A durable record whose state only moves up: the withdrawals and the delegation settlements. A history is the list
  of states read from the record over time; consecutive reads are equal or one step apart.
\<close>

locale ranked_machine =
  fixes step :: "'s \<Rightarrow> 's \<Rightarrow> bool" and rank :: "'s \<Rightarrow> nat" and top :: nat
  assumes step_up: "step s t \<Longrightarrow> rank s < rank t" and rank_top: "rank s \<le> top"
begin

lemma final: "rank s = top \<Longrightarrow> \<not> step s t"
  using step_up rank_top by (metis leD)

lemma steps_up: "step\<^sup>+\<^sup>+ s t \<Longrightarrow> rank s < rank t"
  by (induction rule: tranclp_induct) (auto dest: step_up)

lemma no_return: "step\<^sup>+\<^sup>+ s t \<Longrightarrow> \<not> step\<^sup>*\<^sup>* t s"
  using steps_up by (metis less_asym less_irrefl rtranclpD)

lemma history_rank:
  assumes "successively (\<lambda>a b. a = b \<or> step a b) (s # h)"
  shows "rank s \<le> rank (last (s # h))"
  using assms
proof (induction h arbitrary: s)
  case (Cons t h)
  then have "rank s \<le> rank t" by (auto dest: step_up)
  also have "\<dots> \<le> rank (last (t # h))" using Cons by simp
  finally show ?case by simp
qed simp

text \<open>A record changes its state at most \<open>top\<close> times, whatever is tried on it.\<close>

lemma history_bound:
  assumes "successively (\<lambda>a b. a = b \<or> step a b) (s # h)"
  shows "length (remdups_adj (s # h)) + rank s \<le> Suc top"
  using assms
proof (induction h arbitrary: s)
  case Nil
  then show ?case using rank_top by simp
next
  case (Cons t h)
  then have IH: "length (remdups_adj (t # h)) + rank t \<le> Suc top" by simp
  show ?case
  proof (cases "s = t")
    case True
    with IH show ?thesis by simp
  next
    case False
    with Cons.prems have "rank s < rank t" by (auto dest: step_up)
    with IH False show ?thesis by simp
  qed
qed

end

section \<open>Transactional stores\<close>

lemma run_ops_append: "run_ops exec (xs @ ys) s = run_ops exec ys (run_ops exec xs s)"
  by (induction xs arbitrary: s) (simp_all split: sum.splits prod.splits)

text \<open>
  What a store promises: every transaction that commits keeps the invariant and relates the states before and after by a
  preorder. The client's part is that every run does.
\<close>

locale tx_store =
  fixes exec :: "'op \<Rightarrow> 's \<Rightarrow> 'e + ('s \<times> 'r)" and inv :: "'s \<Rightarrow> bool" and rel :: "'s \<Rightarrow> 's \<Rightarrow> bool"
  assumes exec_inv: "inv s \<Longrightarrow> exec op s = Inr (s', r) \<Longrightarrow> inv s'"
    and exec_rel: "inv s \<Longrightarrow> exec op s = Inr (s', r) \<Longrightarrow> rel s s'"
    and rel_refl: "rel s s" and rel_trans: "rel s t \<Longrightarrow> rel t u \<Longrightarrow> rel s u"
begin

lemma run_keeps: "inv s \<Longrightarrow> inv (run_ops exec ops s) \<and> rel s (run_ops exec ops s)"
proof (induction ops arbitrary: s)
  case Nil
  then show ?case by (simp add: rel_refl)
next
  case (Cons op ops)
  show ?case
  proof (cases "exec op s")
    case (Inl e)
    with Cons show ?thesis by simp
  next
    case (Inr p)
    obtain s' r where p: "p = (s', r)" by (cases p)
    have "inv s'" "rel s s'" using exec_inv exec_rel Cons.prems Inr p by blast+
    with Cons.IH [of s'] Inr p show ?thesis by (auto intro: rel_trans)
  qed
qed

end

section \<open>Workers\<close>

lemma apply_tx_run: "fst (apply_tx exec op s) = run_ops exec [op] s"
  by (simp add: apply_tx_def split: sum.splits prod.splits)

lemma one_tx_same: "one_tx exec P s s"
  by (simp add: one_tx_def)

lemma one_tx_apply: "P op \<Longrightarrow> one_tx exec P s (fst (apply_tx exec op s))"
  unfolding one_tx_def apply_tx_run by blast

lemma one_tx_ops: "one_tx exec P s r \<Longrightarrow> \<exists>ops. r = run_ops exec ops s \<and> length ops \<le> 1"
  unfolding one_tx_def by (metis One_nat_def length_Cons le_SucI list.size(3) order_refl run_ops.simps(1))

text \<open>
  What a worker promises: the step of a row is at most one transaction of the store. A pass is then a run of the store with at most one
  transaction per row, so that everything the store promises of runs holds of passes.
\<close>

locale pass_worker =
  fixes exec :: "'op \<Rightarrow> 's \<Rightarrow> 'e + ('s \<times> 'a)" and step :: "'r \<Rightarrow> 's \<Rightarrow> 's \<times> nat"
  assumes step_run: "\<exists>ops. fst (step r s) = run_ops exec ops s \<and> length ops \<le> 1"
begin

lemma pass_run: "\<exists>ops. fst (pass_loop alive step rs s n) = run_ops exec ops s \<and> length ops \<le> length rs"
proof (induction rs arbitrary: s n)
  case Nil
  show ?case by simp
next
  case (Cons r rs)
  obtain s1 k where st: "step r s = (s1, k)" by (cases "step r s")
  obtain ops1 where 1: "s1 = run_ops exec ops1 s" "length ops1 \<le> 1" using step_run [of r s] st by auto
  obtain ops2 where 2: "fst (pass_loop alive step rs s1 (n + k)) = run_ops exec ops2 s1" "length ops2 \<le> length rs"
    using Cons.IH by blast
  have "fst (pass_loop alive step (r # rs) s n) = run_ops exec (if alive r then ops1 @ ops2 else []) s"
    using st 1(1) 2(1) by (simp add: run_ops_append)
  moreover have "length (if alive r then ops1 @ ops2 else []) \<le> length (r # rs)" using 1(2) 2(2) by simp
  ultimately show ?case by blast
qed

end

end
