(* ===== verification/Billing_Core.thy ===== *)
theory Billing_Core
  imports Otela_Prelude
begin

text \<open>
  Package \<^verbatim>\<open>internal/billing\<close> (file \<^verbatim>\<open>billing.go\<close>): the data of the market and of settlement, the
  buyer caps, and the exact integer cost arithmetic. Every checked operation of the source keeps
  its int64 wrap-around (\<open>wrap64\<close>) and its truncating division (\<open>go_quot\<close>), so the overflow
  tests of the source (a quotient compared with an operand, a sum compared with a summand) are
  the tests of the model. The section on correctness shows that the checked arithmetic computes
  the exact value over the unbounded integers whenever it answers, and fails exactly when that
  value does not fit.
\<close>

section \<open>Errors\<close>

text \<open>The sentinel errors callers test with \<^verbatim>\<open>errors.Is\<close>; a wrapped sentinel is the sentinel. An
  error with no sentinel is \<open>ErrMsg\<close>, an error the database raises is \<open>ErrPg\<close>.\<close>

datatype pg_error = UniqueViolation | CheckViolation | NumericOutOfRange | InFailedTransaction

datatype billing_error =
    ErrInsufficientCredit
  | ErrPriceAboveMax
  | ErrBillingAccountRequired
  | ErrBillingUnsupportedRoute
  | ErrBillingUnavailable
  | ErrNotFound
  | ErrConflict
  | ErrInvalid
  | ErrOverflow
  | ErrMsg string
  | ErrPg pg_error

type_synonym 'a res = "billing_error + 'a"

section \<open>Data\<close>

definition Million :: int64 where
  "Million = 1000000"

definition MaxBaseRate :: int64 where
  "MaxBaseRate = 1000000000000"

record Ask =
  ask_peer_id :: string
  ask_service :: string
  ask_model :: string
  ask_in :: int64
  ask_cached :: int64
  ask_out :: int64
  ask_revision :: int64
  ask_expires_at :: instant
  ask_updated_at :: instant

record Caps =
  cap_in :: "int64 option"
  cap_cached :: "int64 option"
  cap_out :: "int64 option"

record ModelCaps =
  mc_service :: string
  mc_model :: string
  mc_in :: "int64 option"
  mc_cached :: "int64 option"
  mc_out :: "int64 option"

record AccountCredit =
  ac_account :: string
  ac_credit :: int64
  ac_reserved :: int64
  ac_max_in :: "int64 option"
  ac_max_cached :: "int64 option"
  ac_max_out :: "int64 option"
  ac_updated_at :: instant

record Allowance =
  al_account :: string
  al_delegate :: string
  al_raw :: int64
  al_approved_at :: instant
  al_revoked_at :: "instant option"

record AllowanceChange =
  ch_account :: string
  ch_delegate :: string
  ch_raw :: int64
  ch_observed_at :: instant
  ch_ref :: string

record AllowanceChangeResult =
  cr_prev :: int64
  cr_applied :: int64
  cr_shortfall :: int64

record EligiblePeerQuote =
  q_peer_id :: string
  q_seller :: string
  q_wallet :: string
  q_revision :: int64
  q_in :: int64
  q_cached :: int64
  q_out :: int64

record Usage =
  u_in :: int64
  u_cached :: int64
  u_out :: int64

record Reservation =
  rv_request_id :: string
  rv_buyer :: string
  rv_service :: string
  rv_model :: string
  rv_caps :: Caps
  rv_quotes :: "EligiblePeerQuote list"
  rv_input_ceil :: int64
  rv_output_ceil :: int64
  rv_reserved_at :: instant

datatype RequestState = StateReserved | StateSettled | StateReleased

record Request =
  r_request_id :: string
  r_buyer :: string
  r_service :: string
  r_model :: string
  r_quotes :: "EligiblePeerQuote list"
  r_caps :: Caps
  r_reserved_raw :: int64
  r_state :: RequestState
  r_served_peer :: string
  r_served_seller :: string
  r_served_revision :: int64
  r_served_in :: int64
  r_served_cached :: int64
  r_served_out :: int64
  r_tok_in :: int64
  r_tok_cached :: int64
  r_tok_out :: int64
  r_cost_raw :: int64
  r_fee_raw :: int64
  r_seller_raw :: int64
  r_reserved_at :: instant
  r_settled_at :: "instant option"
  r_released_at :: "instant option"
  r_release_reason :: string

record LedgerEntry =
  l_id :: int64
  l_account :: string
  l_delta :: int64
  l_source :: string
  l_leg :: string
  l_counterparty :: string
  l_ref :: string
  l_model :: string
  l_rates :: "(int64 \<times> int64 \<times> int64) option"
  l_tokens :: "(int64 \<times> int64 \<times> int64) option"
  l_created_at :: instant

record DepositEvent =
  d_signature :: string
  d_index :: int64
  d_slot :: int64
  d_from_wallet :: string
  d_amount :: int64
  d_account :: "string option"
  d_state :: string
  d_credited_at :: "instant option"
  d_seen_at :: instant

datatype WithdrawalState =
    WithdrawalReserved
  | WithdrawalSigned
  | WithdrawalBroadcast
  | WithdrawalFinalized
  | WithdrawalFailed
  | WithdrawalRestored

record WithdrawalRequest =
  wr_account :: string
  wr_key :: string
  wr_destination :: string
  wr_amount :: int64

record Withdrawal =
  w_id :: int64
  w_account :: string
  w_key :: string
  w_destination :: string
  w_amount :: int64
  w_state :: WithdrawalState
  w_signed_wire :: string
  w_signature :: string
  w_blockhash :: string
  w_last_valid :: "int64 option"
  w_expires_at :: "instant option"
  w_error :: string
  w_reserved_at :: instant
  w_signed_at :: "instant option"
  w_broadcast_at :: "instant option"
  w_finalized_at :: "instant option"

record Reconciliation =
  rc_account :: string
  rc_credit :: int64
  rc_reserved :: int64
  rc_expected_credit :: int64
  rc_expected_reserved :: int64
  rc_ledger_rows :: int64
  rc_open_reservations :: int64
  rc_drift_credit :: int64
  rc_drift_reserved :: int64
  rc_invariant_held :: bool

definition TreasuryAccountID :: string where
  "TreasuryAccountID = ''treasury''"

section \<open>Caps and allowances\<close>

definition Caps_empty :: "Caps \<Rightarrow> bool" where
  "Caps_empty c \<longleftrightarrow> cap_in c = None \<and> cap_cached c = None \<and> cap_out c = None"

definition BillableProvider :: "string \<Rightarrow> string \<Rightarrow> bool" where
  "BillableProvider sellerAccountID ownerWallet \<longleftrightarrow> sellerAccountID \<noteq> [] \<and> ownerWallet \<noteq> []"

fun exceeds :: "int64 \<Rightarrow> int64 option \<Rightarrow> bool" where
  "exceeds rate None = False"
| "exceeds rate (Some c) = (rate > c)"

definition Affordable :: "EligiblePeerQuote \<Rightarrow> Caps \<Rightarrow> bool" where
  "Affordable q caps =
     (if exceeds (q_in q) (cap_in caps) then False
      else if exceeds (q_cached q) (cap_cached caps) then False
      else if exceeds (q_out q) (cap_out caps) then False
      else True)"

fun override :: "int64 option \<Rightarrow> int64 option \<Rightarrow> int64 option" where
  "override base None = base"
| "override base (Some v) = Some v"

fun Effective :: "Caps \<Rightarrow> ModelCaps list \<Rightarrow> string \<Rightarrow> string \<Rightarrow> Caps" where
  "Effective flat [] service model = flat"
| "Effective flat (r # rows) service model =
     (if mc_service r \<noteq> service \<or> mc_model r \<noteq> model then Effective flat rows service model
      else \<lparr>cap_in = override (cap_in flat) (mc_in r),
            cap_cached = override (cap_cached flat) (mc_cached r),
            cap_out = override (cap_out flat) (mc_out r)\<rparr>)"

fun tighterCap :: "int64 option \<Rightarrow> int64 option \<Rightarrow> int64 option" where
  "tighterCap None request = request"
| "tighterCap (Some a) None = Some a"
| "tighterCap (Some a) (Some r) = (if r < a then Some r else Some a)"

definition MergeCaps :: "Caps \<Rightarrow> Caps \<Rightarrow> Caps" where
  "MergeCaps account request =
     \<lparr>cap_in = tighterCap (cap_in account) (cap_in request),
      cap_cached = tighterCap (cap_cached account) (cap_cached request),
      cap_out = tighterCap (cap_out account) (cap_out request)\<rparr>"

definition Available :: "AccountCredit \<Rightarrow> int64" where
  "Available c = wrap64 (ac_credit c - ac_reserved c)"

definition Allowance_Active :: "Allowance \<Rightarrow> bool" where
  "Allowance_Active a \<longleftrightarrow> al_revoked_at a = None \<and> al_raw a > 0"

fun sum_active :: "int64 \<Rightarrow> Allowance list \<Rightarrow> int64" where
  "sum_active s [] = s"
| "sum_active s (a # as) = sum_active (if Allowance_Active a then wrap64 (s + al_raw a) else s) as"

definition DelegationAvailable :: "AccountCredit \<Rightarrow> Allowance list \<Rightarrow> int64" where
  "DelegationAvailable credit allowances =
     (let s = sum_active 0 allowances; avail = Available credit
      in if avail < 0 then 0
         else if s > 0 \<and> s < avail then s
         else avail)"

section \<open>Ledger references\<close>

definition WithdrawalRef :: "int64 \<Rightarrow> string" where
  "WithdrawalRef i = ''withdrawal:'' @ itoa i"

definition DelegationSettlementRef :: "int64 \<Rightarrow> string" where
  "DelegationSettlementRef i = ''delegation-settlement:'' @ itoa i"

section \<open>Checked arithmetic\<close>

definition checkedMul :: "int64 \<Rightarrow> int64 \<Rightarrow> int64 res" where
  "checkedMul a b =
     (if a < 0 \<or> b < 0 then Inl ErrOverflow
      else if a = 0 \<or> b = 0 then Inr 0
      else let r = wrap64 (a * b)
           in if go_quot r a \<noteq> b then Inl ErrOverflow else Inr r)"

definition checkedAdd :: "int64 \<Rightarrow> int64 \<Rightarrow> int64 res" where
  "checkedAdd a b =
     (if a < 0 \<or> b < 0 then Inl ErrOverflow
      else let r = wrap64 (a + b)
           in if r < a then Inl ErrOverflow else Inr r)"

definition checkedSub :: "int64 \<Rightarrow> int64 \<Rightarrow> int64 res" where
  "checkedSub a b =
     (if a < 0 \<or> b < 0 then Inl ErrOverflow
      else if a < b then Inl ErrOverflow
      else Inr (wrap64 (a - b)))"

definition ceilDiv :: "int64 \<Rightarrow> int64 \<Rightarrow> int64 res" where
  "ceilDiv num den =
     (if den \<le> 0 then Inl (ErrMsg ''billing: non-positive divisor'')
      else if num < 0 then Inl ErrOverflow
      else rbind (checkedAdd num (wrap64 (den - 1))) (\<lambda>rounded. Inr (go_quot rounded den)))"

definition Cost :: "int64 \<Rightarrow> int64 \<Rightarrow> int64 \<Rightarrow> int64 \<Rightarrow> int64 \<Rightarrow> int64 \<Rightarrow> int64 res" where
  "Cost regularInput cachedInput output inRate cachedRate outRate =
     (if regularInput < 0 \<or> cachedInput < 0 \<or> output < 0
      then Inl (ErrMsg ''billing: negative tokens'')
      else if inRate < 0 \<or> cachedRate < 0 \<or> outRate < 0
      then Inl (ErrMsg ''billing: negative rate'')
      else rbind (checkedMul inRate regularInput) (\<lambda>pIn.
           rbind (checkedMul cachedRate cachedInput) (\<lambda>pCached.
           rbind (checkedMul outRate output) (\<lambda>pOut.
           rbind (checkedAdd pIn pCached) (\<lambda>sum1.
           rbind (checkedAdd sum1 pOut) (\<lambda>sum.
             if sum = 0 then Inr 0 else ceilDiv sum Million))))))"

definition Fee :: "int64 \<Rightarrow> int64 \<Rightarrow> (int64 \<times> int64) res" where
  "Fee costRaw feeBps0 =
     (if costRaw < 0 then Inl ErrOverflow
      else let feeBps1 = (if feeBps0 < 0 then 0 else feeBps0);
               feeBps = (if feeBps1 > 10000 then 10000 else feeBps1)
           in if feeBps = 0 \<or> costRaw = 0 then Inr (0, costRaw)
              else rbind (checkedMul costRaw feeBps) (\<lambda>num.
                   let feeRaw = go_quot num 10000
                   in rbind (checkedSub costRaw feeRaw) (\<lambda>sellerRaw. Inr (feeRaw, sellerRaw))))"

definition worstCaseCost :: "EligiblePeerQuote \<Rightarrow> int64 \<Rightarrow> int64 \<Rightarrow> int64 res" where
  "worstCaseCost q inputCeil outputCeil =
     (if inputCeil < 0 \<or> outputCeil < 0 then Inl (ErrMsg ''billing: negative ceiling'')
      else let inRate = (if q_cached q > q_in q then q_cached q else q_in q)
           in rbind (checkedMul inRate inputCeil) (\<lambda>pIn.
              rbind (checkedMul (q_out q) outputCeil) (\<lambda>pOut.
              rbind (checkedAdd pIn pOut) (\<lambda>sum.
                if sum = 0 then Inr 0 else ceilDiv sum Million))))"

fun reserve_loop :: "int64 \<Rightarrow> EligiblePeerQuote list \<Rightarrow> int64 \<Rightarrow> int64 \<Rightarrow> int64 res" where
  "reserve_loop mx [] inputCeil outputCeil = Inr mx"
| "reserve_loop mx (q # qs) inputCeil outputCeil =
     rbind (worstCaseCost q inputCeil outputCeil) (\<lambda>c.
       reserve_loop (if c > mx then c else mx) qs inputCeil outputCeil)"

definition ReserveAmount :: "EligiblePeerQuote list \<Rightarrow> int64 \<Rightarrow> int64 \<Rightarrow> int64 res" where
  "ReserveAmount quotes inputCeil outputCeil = reserve_loop 0 quotes inputCeil outputCeil"

text \<open>The rates of a quote that \<^verbatim>\<open>ReserveBilling\<close> accepts: int64 values, none negative.\<close>

definition rates_ok :: "EligiblePeerQuote \<Rightarrow> bool" where
  "rates_ok q \<longleftrightarrow> 0 \<le> q_in q \<and> 0 \<le> q_cached q \<and> 0 \<le> q_out q \<and>
     in_int64 (q_in q) \<and> in_int64 (q_cached q) \<and> in_int64 (q_out q)"

section \<open>Correctness of the checked arithmetic\<close>

text \<open>A wrapped product never passes the quotient test, a wrapped sum never passes the comparison.\<close>

lemma wrap64_overflow_less:
  assumes "0 \<le> x" and "\<not> in_int64 x"
  shows "wrap64 x \<le> x - 18446744073709551616"
proof -
  obtain k where k: "wrap64 x = x - k * 18446744073709551616"
    using wrap64_cong by blast
  have "wrap64 x \<le> max_int64" using wrap64_range by (simp add: in_int64_def)
  with k assms have "k \<ge> 1" by (simp add: in_int64_def)
  with k show ?thesis by simp
qed

lemma int_div_less:
  fixes w a b :: int
  assumes "w < a * b" and "0 < a"
  shows "w div a < b"
proof (rule ccontr)
  assume "\<not> w div a < b"
  then have "a * b \<le> a * (w div a)" using assms(2) by simp
  also have "\<dots> = w - w mod a" by (simp add: minus_mod_eq_mult_div)
  also have "\<dots> \<le> w" using assms(2) by simp
  finally show False using assms(1) by simp
qed

lemma checkedMul_exact:
  assumes "0 \<le> a" and "0 \<le> b" and "in_int64 a" and "in_int64 b"
  shows "checkedMul a b = (if a * b \<le> max_int64 then Inr (a * b) else Inl ErrOverflow)"
proof (cases "a = 0 \<or> b = 0")
  case True
  with assms show ?thesis by (auto simp: checkedMul_def)
next
  case False
  with assms have pos: "0 < a" "0 < b" by simp_all
  then have p: "0 < a * b" by simp
  show ?thesis
  proof (cases "a * b \<le> max_int64")
    case True
    with p have "wrap64 (a * b) = a * b" by (intro wrap64_id) (simp add: in_int64_def)
    moreover have "go_quot (a * b) a = b" using pos p by (simp add: go_quot_nonneg)
    ultimately show ?thesis using pos True by (simp add: checkedMul_def Let_def)
  next
    case over: False
    with p have "\<not> in_int64 (a * b)" by (simp add: in_int64_def)
    with p have w: "wrap64 (a * b) < a * b" using wrap64_overflow_less [of "a * b"] by simp
    have "go_quot (wrap64 (a * b)) a \<noteq> b"
    proof (cases "0 \<le> wrap64 (a * b)")
      case True
      then have "go_quot (wrap64 (a * b)) a = wrap64 (a * b) div a"
        using pos by (simp add: go_quot_nonneg)
      moreover have "wrap64 (a * b) div a < b"
        using w pos(1) by (rule int_div_less)
      ultimately show ?thesis by simp
    next
      case False
      then show ?thesis using go_quot_neg [of "wrap64 (a * b)" a] pos by simp
    qed
    with pos over show ?thesis by (simp add: checkedMul_def Let_def)
  qed
qed

lemma checkedAdd_exact:
  assumes "0 \<le> a" and "0 \<le> b" and "in_int64 a" and "in_int64 b"
  shows "checkedAdd a b = (if a + b \<le> max_int64 then Inr (a + b) else Inl ErrOverflow)"
proof (cases "a + b \<le> max_int64")
  case True
  with assms have "wrap64 (a + b) = a + b" by (intro wrap64_id) (simp add: in_int64_def)
  with assms True show ?thesis by (simp add: checkedAdd_def)
next
  case False
  with assms have "wrap64 (a + b) \<le> a + b - 18446744073709551616"
    by (intro wrap64_overflow_less) (simp_all add: in_int64_def)
  with assms False show ?thesis by (simp add: checkedAdd_def in_int64_def)
qed

lemma checkedSub_exact:
  assumes "in_int64 a" and "0 \<le> b" and "b \<le> a"
  shows "checkedSub a b = Inr (a - b)"
  using assms by (simp add: checkedSub_def wrap64_id in_int64_def)

lemma ceilDiv_Million:
  assumes "0 \<le> n" and "in_int64 n"
  shows "ceilDiv n Million =
    (if n + 999999 \<le> max_int64 then Inr ((n + 999999) div 1000000) else Inl ErrOverflow)"
proof -
  have "checkedAdd n (wrap64 (Million - 1)) =
      (if n + 999999 \<le> max_int64 then Inr (n + 999999) else Inl ErrOverflow)"
    using assms checkedAdd_exact [of n 999999] by (simp add: Million_def wrap64_def in_int64_def)
  with assms show ?thesis by (simp add: ceilDiv_def Million_def go_quot_nonneg)
qed


text \<open>The last step of both cost functions: an empty charge stays empty, any other is rounded up.\<close>

lemma round_up_total:
  assumes "0 \<le> t" and "in_int64 t"
  shows "(if t = 0 then Inr 0 else ceilDiv t Million) =
    (if t + 999999 \<le> max_int64 then Inr ((t + 999999) div 1000000) else Inl ErrOverflow)"
  using assms by (simp add: ceilDiv_Million)

lemma checkedAdd_fits:
  "0 \<le> a \<Longrightarrow> 0 \<le> b \<Longrightarrow> a + b \<le> max_int64 \<Longrightarrow> checkedAdd a b = Inr (a + b)"
  by (simp add: checkedAdd_exact in_int64_def)

lemma checkedAdd_over:
  "0 \<le> a \<Longrightarrow> 0 \<le> b \<Longrightarrow> in_int64 a \<Longrightarrow> in_int64 b \<Longrightarrow> max_int64 < a + b \<Longrightarrow>
     checkedAdd a b = Inl ErrOverflow"
  by (simp add: checkedAdd_exact)

lemma checkedMul_fits:
  "0 \<le> a \<Longrightarrow> 0 \<le> b \<Longrightarrow> in_int64 a \<Longrightarrow> in_int64 b \<Longrightarrow> a * b \<le> max_int64 \<Longrightarrow>
     checkedMul a b = Inr (a * b)"
  by (simp add: checkedMul_exact)

text \<open>
  C6 (Cost is exact). For token counts and rates in the int64 range, none of them negative, the checked
  wrap-around arithmetic of \<^verbatim>\<open>Cost\<close> returns the ceiling of the exact charge divided by a million, and
  it fails, with ErrOverflow, exactly when the exact charge plus the rounding term leaves the
  int64 range.
\<close>

theorem Cost_exact:
  assumes "0 \<le> i" "0 \<le> c" "0 \<le> out" "0 \<le> ri" "0 \<le> rc" "0 \<le> ro"
    and "in_int64 i" "in_int64 c" "in_int64 out" "in_int64 ri" "in_int64 rc" "in_int64 ro"
  shows "Cost i c out ri rc ro =
    (if ri * i + rc * c + ro * out + 999999 \<le> max_int64
     then Inr ((ri * i + rc * c + ro * out + 999999) div 1000000)
     else Inl ErrOverflow)"
proof -
  have nn: "0 \<le> ri * i" "0 \<le> rc * c" "0 \<le> ro * out" using assms(1-6) by simp_all
  have muls: "checkedMul ri i = (if ri * i \<le> max_int64 then Inr (ri * i) else Inl ErrOverflow)"
    "checkedMul rc c = (if rc * c \<le> max_int64 then Inr (rc * c) else Inl ErrOverflow)"
    "checkedMul ro out = (if ro * out \<le> max_int64 then Inr (ro * out) else Inl ErrOverflow)"
    using assms by (simp_all add: checkedMul_exact)
  define t where "t = ri * i + rc * c + ro * out"
  show ?thesis
  proof (cases "t \<le> max_int64")
    case True
    with nn have fits: "ri * i \<le> max_int64" "rc * c \<le> max_int64" "ro * out \<le> max_int64"
      "ri * i + rc * c \<le> max_int64" "t \<le> max_int64" by (simp_all add: t_def)
    then have "checkedAdd (ri * i) (rc * c) = Inr (ri * i + rc * c)"
      and "checkedAdd (ri * i + rc * c) (ro * out) = Inr t"
      using nn by (simp_all add: checkedAdd_fits t_def)
    moreover have "0 \<le> t" "in_int64 t" using nn True by (simp_all add: t_def in_int64_def)
    ultimately have "Cost i c out ri rc ro =
        (if t + 999999 \<le> max_int64 then Inr ((t + 999999) div 1000000) else Inl ErrOverflow)"
      using assms(1-6) fits(1-3) unfolding round_up_total [OF \<open>0 \<le> t\<close> \<open>in_int64 t\<close>, symmetric]
      by (simp add: Cost_def muls)
    then show ?thesis by (simp add: t_def)
  next
    case False
    have "Cost i c out ri rc ro = Inl ErrOverflow"
    proof (cases "ri * i \<le> max_int64 \<and> rc * c \<le> max_int64 \<and> ro * out \<le> max_int64")
      case True
      with nn False show ?thesis using assms(1-6)
        by (cases "ri * i + rc * c \<le> max_int64")
           (simp_all add: Cost_def muls checkedAdd_fits checkedAdd_over in_int64_def t_def)
    next
      case False
      with assms(1-6) show ?thesis by (auto simp: Cost_def muls)
    qed
    with False show ?thesis by (simp add: t_def)
  qed
qed

theorem Cost_exact_witness:
  "Cost 1500 500 200 3000000 1000000 9000000 = Inr 6800"
  using Cost_exact [of 1500 500 200 3000000 1000000 9000000]
  by (simp add: in_int64_def)

text \<open>A successful charge is small enough for every fee computation that follows it.\<close>

lemma ceilDiv_bounds:
  assumes "ceilDiv n Million = Inr k"
  shows "0 \<le> k \<and> k \<le> 9223372036855"
proof -
  obtain r where r: "checkedAdd n (wrap64 (Million - 1)) = Inr r" "k = go_quot r Million" "0 \<le> n"
    using assms by (auto simp: ceilDiv_def res_simps Million_def split: if_splits)
  then have "0 \<le> r" and "r \<le> max_int64"
    using wrap64_range by (auto simp: checkedAdd_def Let_def in_int64_def split: if_splits)
  moreover from this r(2) have "k = r div 1000000" by (simp add: go_quot_nonneg Million_def)
  moreover from calculation have "r div 1000000 \<le> max_int64 div 1000000" by (simp add: zdiv_mono1)
  ultimately show ?thesis by (simp add: pos_imp_zdiv_nonneg_iff)
qed

lemma Cost_bounds: "Cost i c out ri rc ro = Inr k \<Longrightarrow> 0 \<le> k \<and> k \<le> 9223372036855"
  by (auto simp: Cost_def res_simps dest: ceilDiv_bounds split: if_splits)

lemma Fee_exact:
  assumes "0 \<le> cost" and "cost \<le> 9223372036855"
  shows "Fee cost bps =
    Inr (cost * max 0 (min bps 10000) div 10000, cost - cost * max 0 (min bps 10000) div 10000)"
proof -
  define b where "b = max 0 (min bps 10000)"
  have b: "0 \<le> b" "b \<le> 10000" by (simp_all add: b_def)
  have clamp: "(let b1 = (if bps < 0 then 0 else bps) in if b1 > 10000 then 10000 else b1) = b"
    by (simp add: b_def)
  have le: "cost * b \<le> cost * 10000" using assms(1) b by (simp add: mult_left_mono)
  then have fits: "cost * b \<le> max_int64" using assms(2) by linarith
  have fee: "0 \<le> cost * b div 10000" "cost * b div 10000 \<le> cost"
    using le assms(1) b by (simp_all add: pos_imp_zdiv_nonneg_iff)
  have mul: "checkedMul cost b = Inr (cost * b)"
    using assms b fits by (simp add: checkedMul_fits in_int64_def)
  show ?thesis
    using clamp assms b fee mul
    by (auto simp: Fee_def Let_def go_quot_nonneg checkedSub_exact in_int64_def simp flip: b_def)
qed

lemma fee_share_bounds:
  fixes cost bps :: int
  assumes "0 \<le> cost"
  shows "0 \<le> cost * max 0 (min bps 10000) div 10000" "cost * max 0 (min bps 10000) div 10000 \<le> cost"
proof -
  have "cost * max 0 (min bps 10000) \<le> cost * 10000" using assms by (simp add: mult_left_mono)
  then show "cost * max 0 (min bps 10000) div 10000 \<le> cost" by linarith
  show "0 \<le> cost * max 0 (min bps 10000) div 10000" using assms by (simp add: pos_imp_zdiv_nonneg_iff)
qed

text \<open>
  Fees split the charge. Whatever usage was charged, computing the fee of that charge never fails:
  the fee is the floor of the charge times the clamped basis points over 10000, and fee and
  seller share are non-negative and add up to the charge, so no unit is created or lost.
\<close>

theorem Fee_of_Cost:
  assumes "Cost i c out ri rc ro = Inr k"
  shows "\<exists>fee seller. Fee k bps = Inr (fee, seller) \<and> fee + seller = k \<and> 0 \<le> fee \<and> 0 \<le> seller \<and>
    fee = k * max 0 (min bps 10000) div 10000"
  using Fee_exact [of k bps] fee_share_bounds [of k bps] Cost_bounds [OF assms] by simp

theorem Fee_of_Cost_witness:
  "Cost 1500 500 200 3000000 1000000 9000000 = Inr 6800 \<and>
   (\<exists>fee seller. Fee 6800 250 = Inr (fee, seller) \<and> fee + seller = 6800 \<and> 0 \<le> fee \<and> 0 \<le> seller \<and>
    fee = 6800 * max 0 (min 250 10000) div 10000)"
proof -
  have c: "Cost 1500 500 200 3000000 1000000 9000000 = Inr 6800" by code_simp
  show ?thesis using c Fee_of_Cost [OF c, of 250] by simp
qed

lemma worstCaseCost_exact:
  assumes "0 \<le> ic" "0 \<le> oc" "0 \<le> q_in q" "0 \<le> q_cached q" "0 \<le> q_out q"
    and "in_int64 ic" "in_int64 oc" "in_int64 (q_in q)" "in_int64 (q_cached q)" "in_int64 (q_out q)"
    and "worstCaseCost q ic oc = Inr w"
  shows "max (q_in q) (q_cached q) * ic + q_out q * oc + 999999 \<le> max_int64 \<and>
    w = (max (q_in q) (q_cached q) * ic + q_out q * oc + 999999) div 1000000"
proof -
  define m where "m = max (q_in q) (q_cached q)"
  have m: "(if q_cached q > q_in q then q_cached q else q_in q) = m" "0 \<le> m" "in_int64 m"
    using assms(3,4,8,9) by (auto simp: m_def max_def)
  have nn: "0 \<le> m * ic" "0 \<le> q_out q * oc" using assms(1,2,5) m(2) by simp_all
  from assms(11) m assms(1,2) have w: "rbind (checkedMul m ic) (\<lambda>pIn. rbind (checkedMul (q_out q) oc)
      (\<lambda>pOut. rbind (checkedAdd pIn pOut) (\<lambda>sum. if sum = 0 then Inr 0 else ceilDiv sum Million))) = Inr w"
    by (simp add: worstCaseCost_def Let_def)
  then have fits: "m * ic \<le> max_int64" "q_out q * oc \<le> max_int64"
    using assms m by (auto simp: res_simps checkedMul_exact split: if_splits)
  with w have s: "rbind (checkedAdd (m * ic) (q_out q * oc))
      (\<lambda>sum. if sum = 0 then Inr 0 else ceilDiv sum Million) = Inr w"
    using assms m by (simp add: checkedMul_exact)
  then have t: "m * ic + q_out q * oc \<le> max_int64"
    using nn fits by (auto simp: res_simps checkedAdd_exact in_int64_def split: if_splits)
  have "(if m * ic + q_out q * oc = 0 then Inr 0 else ceilDiv (m * ic + q_out q * oc) Million) = Inr w"
    using s t nn by (simp add: checkedAdd_fits)
  then show ?thesis
    using round_up_total [of "m * ic + q_out q * oc"] nn t
    by (auto simp: in_int64_def m_def split: if_splits)
qed

lemma reserve_loop_ge: "reserve_loop mx qs ic oc = Inr m \<Longrightarrow> mx \<le> m"
  by (induction qs arbitrary: mx) (auto simp: res_simps split: if_splits, fastforce+)

lemma reserve_loop_covers:
  "reserve_loop mx qs ic oc = Inr m \<Longrightarrow> q \<in> set qs \<Longrightarrow> \<exists>w. worstCaseCost q ic oc = Inr w \<and> w \<le> m"
proof (induction qs arbitrary: mx)
  case (Cons x qs)
  from Cons.prems(1) obtain w where w: "worstCaseCost x ic oc = Inr w"
    and rest: "reserve_loop (if w > mx then w else mx) qs ic oc = Inr m"
    by (auto simp: res_simps)
  show ?case
  proof (cases "q = x")
    case True
    from reserve_loop_ge [OF rest] have "w \<le> m" by (simp split: if_splits)
    with True w show ?thesis by simp
  next
    case False
    with Cons.prems(2) Cons.IH [OF rest] show ?thesis by simp
  qed
qed simp

lemma ReserveAmount_bound:
  assumes "ReserveAmount quotes ic oc = Inr m" and "q \<in> set quotes" and "rates_ok q"
    and "0 \<le> i" "0 \<le> c" "0 \<le> out" and "i + c \<le> ic" "out \<le> oc" and "in_int64 ic" "in_int64 oc"
  shows "\<exists>k. Cost i c out (q_in q) (q_cached q) (q_out q) = Inr k \<and> 0 \<le> k \<and> k \<le> m"
proof -
  let ?mx = "max (q_in q) (q_cached q)"
  let ?t = "q_in q * i + q_cached q * c + q_out q * out"
  let ?w = "?mx * ic + q_out q * oc"
  obtain w where w: "worstCaseCost q ic oc = Inr w" "w \<le> m"
    using reserve_loop_covers assms(1,2) by (metis ReserveAmount_def)
  have r: "0 \<le> q_in q" "0 \<le> q_cached q" "0 \<le> q_out q"
    "in_int64 (q_in q)" "in_int64 (q_cached q)" "in_int64 (q_out q)"
    using assms(3) by (simp_all add: rates_ok_def)
  have wx: "?w + 999999 \<le> max_int64" "w = (?w + 999999) div 1000000"
    using worstCaseCost_exact [OF _ _ r(1-3) assms(9,10) r(4-6) w(1)] assms(4-8) by simp_all
  have "q_in q * i \<le> ?mx * i" "q_cached q * c \<le> ?mx * c" "q_out q * out \<le> q_out q * oc"
    using assms(4-8) r by (simp_all add: mult_right_mono mult_left_mono)
  moreover have "?mx * (i + c) \<le> ?mx * ic" using assms(7) r by (simp add: mult_left_mono)
  ultimately have tw: "?t \<le> ?w" by (simp add: distrib_left)
  have tok: "in_int64 i" "in_int64 c" "in_int64 out" using assms(4-10) by (auto simp: in_int64_def)
  have "Cost i c out (q_in q) (q_cached q) (q_out q) = Inr ((?t + 999999) div 1000000)"
    using Cost_exact [OF assms(4-6) r(1-3) tok r(4-6)] tw wx(1) by simp
  moreover have "0 \<le> ?t" using r assms(4-6) by simp
  moreover have "(?t + 999999) div 1000000 \<le> (?w + 999999) div 1000000" using tw by (simp add: zdiv_mono1)
  ultimately show ?thesis using wx(2) w(2) by (auto simp: pos_imp_zdiv_nonneg_iff)
qed

text \<open>
  C5 (the reservation covers every charge). When \<^verbatim>\<open>ReserveAmount\<close> sizes a reservation from the quote
  snapshot and the token ceilings, then whichever quoted peer serves the request and however the
  input splits into regular and cached tokens, a usage within the ceilings has a charge (its
  computation does not overflow), and that charge is at most the reservation.
\<close>

theorem ReserveAmount_covers:
  assumes "ReserveAmount quotes ic oc = Inr m" and "q \<in> set quotes" and "rates_ok q"
    and "0 \<le> i" "0 \<le> c" "0 \<le> out" and "i + c \<le> ic" "out \<le> oc" and "in_int64 ic" "in_int64 oc"
  shows "\<exists>k. Cost i c out (q_in q) (q_cached q) (q_out q) = Inr k \<and> 0 \<le> k \<and> k \<le> m"
  using assms by (rule ReserveAmount_bound)

theorem ReserveAmount_covers_witness:
  "\<exists>k. Cost 40 20 10 3000000 1000000 9000000 = Inr k \<and> 0 \<le> k \<and> k \<le> 390"
proof -
  let ?q = "\<lparr>q_peer_id = ''p1'', q_seller = ''s1'', q_wallet = ''w1'', q_revision = 1,
    q_in = 3000000, q_cached = 1000000, q_out = 9000000\<rparr>"
  have r: "ReserveAmount [?q] 100 10 = Inr 390" by code_simp
  show ?thesis
    using ReserveAmount_covers [OF r, of ?q 40 20 10] by (simp add: rates_ok_def in_int64_def)
qed

section \<open>Correctness of caps, allowances and references\<close>

lemma exceeds_tighter: "exceeds r (tighterCap a b) \<longleftrightarrow> exceeds r a \<or> exceeds r b"
  by (cases a; cases b) auto

text \<open>
  Request caps only tighten. A quote is affordable under the merged caps exactly when it is
  affordable under the account's caps and under the request's caps: a per-request header can
  restrict the account's limits and can never lift them.
\<close>

theorem MergeCaps_affordable: "Affordable q (MergeCaps a r) \<longleftrightarrow> Affordable q a \<and> Affordable q r"
  by (simp add: Affordable_def MergeCaps_def exceeds_tighter)

lemma Effective_find:
  "Effective flat rows service model =
     (case List.find (\<lambda>r. mc_service r = service \<and> mc_model r = model) rows of
        None \<Rightarrow> flat
      | Some r \<Rightarrow> \<lparr>cap_in = override (cap_in flat) (mc_in r),
                   cap_cached = override (cap_cached flat) (mc_cached r),
                   cap_out = override (cap_out flat) (mc_out r)\<rparr>)"
  by (induction rows) auto

lemma sum_active_exact:
  assumes "0 \<le> s" and "s + sum_rows Allowance_Active al_raw as \<le> max_int64"
  shows "sum_active s as = s + sum_rows Allowance_Active al_raw as"
  using assms
proof (induction as arbitrary: s)
  case Nil
  then show ?case by (simp add: row_simps)
next
  case (Cons a as)
  have nn: "0 \<le> sum_rows Allowance_Active al_raw as"
    by (intro sum_rows_nonneg) (simp add: Allowance_Active_def)
  show ?case
  proof (cases "Allowance_Active a")
    case True
    then have a: "0 < al_raw a" by (simp add: Allowance_Active_def)
    with Cons.prems nn True have "wrap64 (s + al_raw a) = s + al_raw a"
      by (intro wrap64_id) (simp add: in_int64_def row_simps)
    with Cons.IH [of "s + al_raw a"] Cons.prems True a show ?thesis by (simp add: row_simps)
  next
    case False
    with Cons show ?thesis by (simp add: row_simps)
  qed
qed

lemma DelegationAvailable_min:
  assumes "0 \<le> ac_reserved c" and "ac_reserved c \<le> ac_credit c" and "ac_credit c \<le> max_int64"
    and "sum_rows Allowance_Active al_raw as \<le> max_int64"
  shows "DelegationAvailable c as =
    (if \<exists>a \<in> set as. Allowance_Active a
     then min (ac_credit c - ac_reserved c) (sum_rows Allowance_Active al_raw as)
     else ac_credit c - ac_reserved c)"
proof -
  have av: "Available c = ac_credit c - ac_reserved c"
    unfolding Available_def using assms(1-3) by (intro wrap64_id) (simp add: in_int64_def)
  have sm: "sum_active 0 as = sum_rows Allowance_Active al_raw as"
    using sum_active_exact [of 0 as] assms(4) by simp
  show ?thesis
  proof (cases "\<exists>a \<in> set as. Allowance_Active a")
    case True
    then obtain a where a: "a \<in> set as" "Allowance_Active a" by blast
    then have "al_raw a \<le> sum_rows Allowance_Active al_raw as"
      by (intro sum_rows_member_le) (auto simp: Allowance_Active_def)
    with a(2) have "0 < sum_rows Allowance_Active al_raw as" by (simp add: Allowance_Active_def)
    with True assms(2) show ?thesis by (simp add: DelegationAvailable_def Let_def av sm)
  next
    case False
    then have "sum_rows Allowance_Active al_raw as = 0" by (intro sum_rows_zero) auto
    with False assms(2) show ?thesis by (simp add: DelegationAvailable_def Let_def av sm)
  qed
qed

lemma WithdrawalRef_inject: "WithdrawalRef i = WithdrawalRef j \<longleftrightarrow> i = j"
  by (auto simp: WithdrawalRef_def dest: itoa_inject)

end
