(* ===== verification/Merkle.thy ===== *)
theory Merkle
  imports Billing_Core
begin

text \<open>
  Package \<^verbatim>\<open>internal/billing\<close> (file \<^verbatim>\<open>merkle.go\<close>) and the proof assembly of
  \<^verbatim>\<open>internal/store/reconciliation.go\<close>: the Merkle commitment over an account's ledger rows. The hash
  function (SHA-256 in the code) is the argument \<open>H\<close> of every definition, and the text of a
  timestamp (\<^verbatim>\<open>Time.MarshalText\<close>) the argument \<open>ft\<close>: the theorems hold for every hash with 32-byte
  digests and every injective timestamp format, the ones of the code among them.

  A byte is an \<^typ>\<open>8 word\<close>, a Go string is its bytes. The inclusion proof is shown complete (a
  path the server builds verifies) and sound (a path that verifies for a ledger row proves that
  row at that position, unless two of the finitely many strings hashed on the way collide).
\<close>

unbundle bit_operations_syntax

type_synonym byte = "8 word"
type_synonym bytes = "byte list"
type_synonym hash = "bytes \<Rightarrow> bytes"

section \<open>Serialisation of ledger rows\<close>

definition str_bytes :: "string \<Rightarrow> bytes" where
  "str_bytes s = map of_char s"

text \<open>\<^verbatim>\<open>binary.LittleEndian.PutUint\<close> with \<open>n\<close> bytes.\<close>

fun put_uint :: "nat \<Rightarrow> int \<Rightarrow> bytes" where
  "put_uint 0 v = []"
| "put_uint (Suc n) v = word_of_int v # put_uint n (v div 256)"

record LedgerLeafInput =
  li_id :: int64
  li_delta :: int64
  li_source :: string
  li_leg :: string
  li_counterparty :: string
  li_ref :: string
  li_created_at :: instant

definition domainLedgerLeaf :: bytes where
  "domainLedgerLeaf = str_bytes ''otela-ledger-leaf:v1''"

definition domainMerkleNode :: bytes where
  "domainMerkleNode = str_bytes ''otela-merkle-node:v1''"

definition domainMerklePad :: bytes where
  "domainMerklePad = str_bytes ''otela-merkle-pad:v1''"

definition putI64 :: "int64 \<Rightarrow> bytes" where
  "putI64 v = put_uint 8 (v mod 18446744073709551616)"

definition putStr :: "string \<Rightarrow> bytes" where
  "putStr s = put_uint 4 (int (length s) mod 4294967296) @ str_bytes s"

text \<open>What \<^verbatim>\<open>LedgerLeaf\<close> writes into the hash, in order.\<close>

definition leaf_input :: "(instant \<Rightarrow> string) \<Rightarrow> LedgerLeafInput \<Rightarrow> bytes" where
  "leaf_input ft row =
     domainLedgerLeaf @ putI64 (li_id row) @ putI64 (li_delta row) @ putStr (li_source row) @
     putStr (li_leg row) @ putStr (li_counterparty row) @ putStr (li_ref row) @
     putStr (ft (li_created_at row))"

definition LedgerLeaf :: "hash \<Rightarrow> (instant \<Rightarrow> string) \<Rightarrow> LedgerLeafInput \<Rightarrow> bytes" where
  "LedgerLeaf H ft row = H (leaf_input ft row)"

section \<open>The tree\<close>

definition node_input :: "bytes \<Rightarrow> bytes \<Rightarrow> bytes" where
  "node_input left right = domainMerkleNode @ left @ right"

definition merkleNode :: "hash \<Rightarrow> bytes \<Rightarrow> bytes \<Rightarrow> bytes" where
  "merkleNode H left right = H (node_input left right)"

definition merklePadHash :: "hash \<Rightarrow> bytes" where
  "merklePadHash H = H domainMerklePad"

text \<open>One turn of the loop: pad an odd level, then hash neighbours.\<close>

definition pad_level :: "hash \<Rightarrow> bytes list \<Rightarrow> bytes list" where
  "pad_level H level = (if length level mod 2 = 1 then level @ [merklePadHash H] else level)"

definition next_level :: "hash \<Rightarrow> bytes list \<Rightarrow> bytes list" where
  "next_level H level =
     map (\<lambda>i. merkleNode H (level ! (2 * i)) (level ! (2 * i + 1))) [0..<length level div 2]"

definition parents :: "hash \<Rightarrow> bytes list \<Rightarrow> bytes list" where
  "parents H level = next_level H (pad_level H level)"

lemma length_parents [simp]: "length (parents H level) = (length level + 1) div 2"
  by (auto simp: parents_def next_level_def pad_level_def)

function merkle_up :: "hash \<Rightarrow> bytes list \<Rightarrow> bytes list" where
  "merkle_up H level = (if length level > 1 then merkle_up H (parents H level) else level)"
  by pat_completeness auto
termination
  by (relation "measure (\<lambda>(H, level). length level)") (auto simp: div_less_iff_less_mult)

definition MerkleRoot :: "hash \<Rightarrow> bytes list \<Rightarrow> bytes" where
  "MerkleRoot H leaves = (if leaves = [] then merklePadHash H else merkle_up H leaves ! 0)"

function path_loop :: "hash \<Rightarrow> bytes list \<Rightarrow> nat \<Rightarrow> bytes list" where
  "path_loop H level index =
     (if length level > 1
      then pad_level H level ! (index XOR 1) # path_loop H (parents H level) (index div 2)
      else [])"
  by pat_completeness auto
termination
  by (relation "measure (\<lambda>(H, level, index). length level)") (auto simp: div_less_iff_less_mult)

definition MerklePath :: "hash \<Rightarrow> bytes list \<Rightarrow> int64 \<Rightarrow> bytes list res" where
  "MerklePath H leaves index =
     (if index < 0 \<or> index \<ge> int (length leaves) then Inl (ErrMsg ''merkle: index out of range'')
      else Inr (path_loop H leaves (nat index)))"

fun sizeAtLevel :: "nat \<Rightarrow> nat \<Rightarrow> nat" where
  "sizeAtLevel leaves 0 = leaves"
| "sizeAtLevel leaves (Suc level) = (sizeAtLevel leaves level + 1) div 2"

fun verify_loop :: "hash \<Rightarrow> bytes \<Rightarrow> bytes list \<Rightarrow> nat \<Rightarrow> nat \<Rightarrow> nat \<Rightarrow> bytes" where
  "verify_loop H cur [] idx leafCount level = cur"
| "verify_loop H cur (p # path) idx leafCount level =
     (let sib = (if idx XOR 1 \<ge> sizeAtLevel leafCount level then merklePadHash H else p);
          cur' = (if idx mod 2 = 0 then merkleNode H cur sib else merkleNode H sib cur)
      in verify_loop H cur' path (idx div 2) leafCount (Suc level))"

definition VerifyMerklePath :: "hash \<Rightarrow> bytes \<Rightarrow> bytes list \<Rightarrow> int64 \<Rightarrow> int64 \<Rightarrow> bytes \<Rightarrow> bool" where
  "VerifyMerklePath H leaf path index leafCount root =
     (if leafCount \<le> 0 \<or> index < 0 \<or> index \<ge> leafCount then False
      else verify_loop H leaf path (nat index) (nat leafCount) 0 = root)"

section \<open>The strings that are hashed\<close>

text \<open>What the verifier hashes along a path, and what building the tree hashes.\<close>

fun verify_inputs :: "hash \<Rightarrow> bytes \<Rightarrow> bytes list \<Rightarrow> nat \<Rightarrow> nat \<Rightarrow> nat \<Rightarrow> bytes list" where
  "verify_inputs H cur [] idx leafCount level = []"
| "verify_inputs H cur (p # path) idx leafCount level =
     (let sib = (if idx XOR 1 \<ge> sizeAtLevel leafCount level then merklePadHash H else p);
          inp = (if idx mod 2 = 0 then node_input cur sib else node_input sib cur)
      in inp # verify_inputs H (H inp) path (idx div 2) leafCount (Suc level))"

function tree_inputs :: "hash \<Rightarrow> bytes list \<Rightarrow> bytes list" where
  "tree_inputs H level =
     (if length level > 1
      then map (\<lambda>i. node_input (pad_level H level ! (2 * i)) (pad_level H level ! (2 * i + 1)))
             [0..<(length level + 1) div 2] @ tree_inputs H (parents H level)
      else [])"
  by pat_completeness auto
termination
  by (relation "measure (\<lambda>(H, level). length level)") (auto simp: div_less_iff_less_mult)

text \<open>A ledger row whose fields fit the widths the serialisation gives them.\<close>

definition row_ok :: "(instant \<Rightarrow> string) \<Rightarrow> LedgerLeafInput \<Rightarrow> bool" where
  "row_ok ft r \<longleftrightarrow> in_int64 (li_id r) \<and> in_int64 (li_delta r) \<and>
     length (li_source r) < 4294967296 \<and> length (li_leg r) < 4294967296 \<and>
     length (li_counterparty r) < 4294967296 \<and> length (li_ref r) < 4294967296 \<and>
     length (ft (li_created_at r)) < 4294967296"

text \<open>Every string hashed when \<open>row\<close> is checked with \<open>path\<close> at position \<open>i\<close> of the ledger \<open>rows\<close>.\<close>

definition hashed_strings ::
  "hash \<Rightarrow> (instant \<Rightarrow> string) \<Rightarrow> LedgerLeafInput list \<Rightarrow> LedgerLeafInput \<Rightarrow> bytes list \<Rightarrow> nat \<Rightarrow> bytes list"
where
  "hashed_strings H ft rows row path i =
     domainMerklePad # leaf_input ft row # map (leaf_input ft) rows @
     tree_inputs H (map (LedgerLeaf H ft) rows) @
     verify_inputs H (LedgerLeaf H ft row) path i (length rows) 0"

text \<open>The hypotheses hold together: a digest that copies its input, on a ledger of two rows.\<close>

definition copy_digest :: hash where
  "copy_digest x = (let n = length x; t = take 30 (drop 20 x) in
     (of_nat (n mod 256) # of_nat (sum_list (map unat x) mod 256) # t) @ replicate (30 - length t) 0)"

definition wit_row :: "int64 \<Rightarrow> LedgerLeafInput" where
  "wit_row k = \<lparr>li_id = k, li_delta = 5, li_source = ''deposit'', li_leg = ''deposit'',
     li_counterparty = [], li_ref = [], li_created_at = 7\<rparr>"

definition wit_time :: "instant \<Rightarrow> string" where
  "wit_time t = itoa t"

declare merkle_up.simps [simp del] path_loop.simps [simp del] tree_inputs.simps [simp del]

section \<open>Neighbours and levels\<close>

lemma xor_one_nat: "i XOR Suc 0 = (if even i then Suc i else i - 1)"
  by (simp add: xor_Suc_0_eq odd_iff_mod_2_eq_one)

lemma length_pad_level: "length (pad_level H level) = 2 * ((length level + 1) div 2)"
  by (auto simp: pad_level_def) presburger+

lemma nth_pad_level:
  "i < length (pad_level H level) \<Longrightarrow>
     pad_level H level ! i = (if i < length level then level ! i else merklePadHash H)"
  by (auto simp: pad_level_def nth_append split: if_splits)

lemma nth_parents:
  "i < (length level + 1) div 2 \<Longrightarrow>
     parents H level ! i = merkleNode H (pad_level H level ! (2 * i)) (pad_level H level ! (2 * i + 1))"
  by (simp add: parents_def next_level_def length_pad_level)

lemma xor_one_bound: "i < length level \<Longrightarrow> i XOR 1 < length (pad_level H level)"
  by (simp add: length_pad_level xor_one_nat) presburger

text \<open>The parent of a node is the hash of the node and its sibling, in index order.\<close>

lemma parent_of:
  assumes "i < length level"
  shows "parents H level ! (i div 2) =
    (if i mod 2 = 0 then merkleNode H (level ! i) (pad_level H level ! (i XOR 1))
     else merkleNode H (pad_level H level ! (i XOR 1)) (level ! i))"
proof -
  have b: "i div 2 < (length level + 1) div 2" using assms by presburger
  have i: "pad_level H level ! i = level ! i"
    using assms by (simp add: nth_pad_level length_pad_level)
  show ?thesis
  proof (cases "even i")
    case True
    then have "2 * (i div 2) = i" by simp
    with True b i show ?thesis by (simp add: nth_parents xor_one_nat even_iff_mod_2_eq_zero)
  next
    case False
    then have "2 * (i div 2) + 1 = i" and "2 * (i div 2) = i - 1" by presburger+
    with False b i show ?thesis by (simp add: nth_parents xor_one_nat even_iff_mod_2_eq_zero)
  qed
qed

text \<open>The sibling the verifier uses is the sibling of the padded level.\<close>

lemma sibling_of:
  assumes "i < length level" and "p = pad_level H level ! (i XOR 1)"
  shows "(if i XOR 1 \<ge> length level then merklePadHash H else p) = pad_level H level ! (i XOR 1)"
  using assms xor_one_bound [OF assms(1)] by (simp add: nth_pad_level)

section \<open>Completeness\<close>

lemma verify_path_loop:
  assumes "i < length level" and "length level = sizeAtLevel n l"
  shows "verify_loop H (level ! i) (path_loop H level i) i n l = merkle_up H level ! 0"
  using assms
proof (induction H level i arbitrary: l rule: path_loop.induct)
  case (1 H level i)
  show ?case
  proof (cases "length level > 1")
    case True
    have i2: "i div 2 < length (parents H level)" using "1.prems"(1) by simp
    have sz: "length (parents H level) = sizeAtLevel n (Suc l)" using "1.prems"(2) by simp
    note ih = "1.IH" [OF True i2 sz]
    have "verify_loop H (level ! i) (path_loop H level i) i n l =
        verify_loop H (parents H level ! (i div 2)) (path_loop H (parents H level) (i div 2)) (i div 2) n (Suc l)"
      using True "1.prems" sibling_of [OF "1.prems"(1) refl]
      by (simp add: path_loop.simps [of H level] parent_of Let_def del: One_nat_def)
    with ih True show ?thesis by (simp add: merkle_up.simps [of H level])
  next
    case False
    with "1.prems"(1) have "i = 0" by simp
    with False show ?thesis
      by (simp add: path_loop.simps [of H level] merkle_up.simps [of H level])
  qed
qed

text \<open>
  Inclusion proofs verify. For every position of a non-empty ledger, the audit path that
  \<^verbatim>\<open>MerklePath\<close> builds exists and is accepted by \<^verbatim>\<open>VerifyMerklePath\<close> against the root that
  \<^verbatim>\<open>MerkleRoot\<close> reports, whatever the number of leaves and however many pads the tree needs.
\<close>

theorem MerklePath_verifies:
  assumes "0 \<le> i" and "i < int (length leaves)"
  shows "\<exists>path. MerklePath H leaves i = Inr path \<and>
    VerifyMerklePath H (leaves ! nat i) path i (int (length leaves)) (MerkleRoot H leaves)"
proof -
  have "nat i < length leaves" using assms by linarith
  then have "verify_loop H (leaves ! nat i) (path_loop H leaves (nat i)) (nat i) (length leaves) 0 =
      merkle_up H leaves ! 0"
    by (rule verify_path_loop) simp
  with assms show ?thesis
    by (auto simp: MerklePath_def VerifyMerklePath_def MerkleRoot_def)
qed

theorem MerklePath_verifies_witness:
  "\<exists>path. MerklePath (take 1) [[1], [2], [3]] 2 = Inr path \<and>
    VerifyMerklePath (take 1) ([[1], [2], [3]] ! nat 2) path 2 (int (length [[1], [2], [3 :: byte]]))
      (MerkleRoot (take 1) [[1], [2], [3]])"
  using MerklePath_verifies [of 2 "[[1], [2], [3 :: byte]]" "take 1"] by simp

section \<open>Injectivity of the serialisation\<close>

lemma of_char_byte_inject: "(of_char c :: byte) = of_char d \<Longrightarrow> c = d"
proof -
  have u: "unat (of_char x :: byte) = of_char x" for x :: char
  proof -
    have "(of_char x :: byte) = word_of_nat (of_char x)" by (simp only: of_nat_of_char)
    moreover have "(of_char x :: nat) < 256" by simp
    ultimately show ?thesis by (simp add: unat_of_nat take_bit_eq_mod)
  qed
  assume "(of_char c :: byte) = of_char d"
  then have "(of_char c :: nat) = of_char d" by (metis u)
  then show "c = d" by simp
qed

lemma str_bytes_inject: "str_bytes s = str_bytes t \<longleftrightarrow> s = t"
  by (auto simp: str_bytes_def intro: map_injective inj_onI dest: of_char_byte_inject)

lemma length_put_uint [simp]: "length (put_uint n v) = n"
  by (induction n arbitrary: v) auto

lemma put_uint_inject:
  "0 \<le> v \<Longrightarrow> 0 \<le> w \<Longrightarrow> v < 256 ^ n \<Longrightarrow> w < 256 ^ n \<Longrightarrow> put_uint n v = put_uint n w \<Longrightarrow> v = w"
proof (induction n arbitrary: v w)
  case (Suc n)
  then have "(word_of_int v :: byte) = word_of_int w" and r: "put_uint n (v div 256) = put_uint n (w div 256)"
    by simp_all
  then have "v mod 256 = w mod 256" by (simp add: word_of_int_eq_iff take_bit_eq_mod)
  moreover have "v div 256 = w div 256"
    using Suc.prems(1-4) r by (intro Suc.IH) (simp_all add: pos_imp_zdiv_nonneg_iff div_less_iff_less_mult mult.commute)
  ultimately show ?case by (metis div_mult_mod_eq)
qed simp

lemma putI64_inject: "in_int64 v \<Longrightarrow> in_int64 w \<Longrightarrow> putI64 v = putI64 w \<Longrightarrow> v = w"
proof -
  assume r: "in_int64 v" "in_int64 w" and "putI64 v = putI64 w"
  then have "v mod 18446744073709551616 = w mod 18446744073709551616"
    unfolding putI64_def by (intro put_uint_inject [of _ _ 8]) simp_all
  from mod_add_cong [OF this refl, of 9223372036854775808]
  have "wrap64 v = wrap64 w" unfolding wrap64_def by (rule arg_cong)
  with r show "v = w" by (simp add: wrap64_id)
qed

lemma length_putI64 [simp]: "length (putI64 v) = 8"
  by (simp add: putI64_def)

lemma putStr_inject:
  assumes "putStr s @ xs = putStr t @ ys" and "length s < 4294967296" and "length t < 4294967296"
  shows "s = t \<and> xs = ys"
proof -
  from assms(1) have "put_uint 4 (int (length s) mod 4294967296) = put_uint 4 (int (length t) mod 4294967296)"
    and rest: "str_bytes s @ xs = str_bytes t @ ys" by (simp_all add: putStr_def)
  then have "int (length s) mod 4294967296 = int (length t) mod 4294967296"
    by (intro put_uint_inject [of _ _ 4]) simp_all
  with assms(2,3) have "length (str_bytes s) = length (str_bytes t)" by (simp add: str_bytes_def)
  with rest show ?thesis by (simp add: str_bytes_inject)
qed

lemma leaf_input_inject:
  assumes "leaf_input ft r = leaf_input ft r'" and "row_ok ft r" and "row_ok ft r'" and "inj ft"
  shows "r = r'"
proof -
  from assms(1) have ids: "putI64 (li_id r) = putI64 (li_id r')" "putI64 (li_delta r) = putI64 (li_delta r')"
    and rest: "putStr (li_source r) @ putStr (li_leg r) @ putStr (li_counterparty r) @ putStr (li_ref r) @
      putStr (ft (li_created_at r)) @ [] = putStr (li_source r') @ putStr (li_leg r') @ putStr (li_counterparty r') @
      putStr (li_ref r') @ putStr (ft (li_created_at r')) @ []"
    by (simp_all add: leaf_input_def)
  from ids assms(2,3) have "li_id r = li_id r'" "li_delta r = li_delta r'"
    by (auto simp: row_ok_def dest: putI64_inject)
  moreover from rest assms(2,3) have "li_source r = li_source r'" and r1: "putStr (li_leg r) @ putStr (li_counterparty r) @
      putStr (li_ref r) @ putStr (ft (li_created_at r)) @ [] = putStr (li_leg r') @ putStr (li_counterparty r') @
      putStr (li_ref r') @ putStr (ft (li_created_at r')) @ []"
    using putStr_inject unfolding row_ok_def by blast+
  moreover from r1 assms(2,3) have "li_leg r = li_leg r'" and r2: "putStr (li_counterparty r) @ putStr (li_ref r) @
      putStr (ft (li_created_at r)) @ [] = putStr (li_counterparty r') @ putStr (li_ref r') @
      putStr (ft (li_created_at r')) @ []"
    using putStr_inject unfolding row_ok_def by blast+
  moreover from r2 assms(2,3) have "li_counterparty r = li_counterparty r'" and r3: "putStr (li_ref r) @
      putStr (ft (li_created_at r)) @ [] = putStr (li_ref r') @ putStr (ft (li_created_at r')) @ []"
    using putStr_inject unfolding row_ok_def by blast+
  moreover from r3 assms(2,3) have "li_ref r = li_ref r'" and r4: "putStr (ft (li_created_at r)) @ [] =
      putStr (ft (li_created_at r')) @ []"
    using putStr_inject unfolding row_ok_def by blast+
  moreover from r4 assms(2,3) have "ft (li_created_at r) = ft (li_created_at r')"
    using putStr_inject unfolding row_ok_def by blast
  with assms(4) have "li_created_at r = li_created_at r'" by (simp add: inj_eq)
  ultimately show ?thesis by simp
qed

text \<open>The three kinds of hashed strings are told apart by their prefixes.\<close>

lemma domain_separation:
  "leaf_input ft r \<noteq> node_input a b" "leaf_input ft r \<noteq> domainMerklePad" "node_input a b \<noteq> domainMerklePad"
  by (simp_all add: leaf_input_def node_input_def domainLedgerLeaf_def domainMerkleNode_def
      domainMerklePad_def str_bytes_def)

section \<open>Soundness\<close>

lemma node_input_inject_left:
  "node_input a b = node_input c d \<Longrightarrow> length a = length c \<Longrightarrow> a = c \<and> b = d"
  by (simp add: node_input_def)

lemma node_input_inject_right:
  "node_input a b = node_input c d \<Longrightarrow> length b = length d \<Longrightarrow> a = c \<and> b = d"
  by (simp add: node_input_def)

lemma set_pad_level: "set (pad_level H level) \<subseteq> set level \<union> {merklePadHash H}"
  by (auto simp: pad_level_def)

lemma parents_are_hashes:
  "length level > 1 \<Longrightarrow> set (parents H level) \<subseteq> H ` set (tree_inputs H level)"
  by (auto simp: tree_inputs.simps [of H level] parents_def next_level_def length_pad_level merkleNode_def)

lemma tree_inputs_parents:
  "length level > 1 \<Longrightarrow> set (tree_inputs H (parents H level)) \<subseteq> set (tree_inputs H level)"
  by (simp add: tree_inputs.simps [of H level])

lemma parent_inputs:
  assumes "v \<in> set (parents H level)"
  obtains a b where "v = H (node_input a b)" and "{a, b} \<subseteq> set level \<union> {merklePadHash H}"
    and "length level > 1 \<Longrightarrow> node_input a b \<in> set (tree_inputs H level)"
proof -
  from assms obtain i where i: "i < (length level + 1) div 2" and v: "v = parents H level ! i"
    by (auto simp: in_set_conv_nth)
  let ?a = "pad_level H level ! (2 * i)" and ?b = "pad_level H level ! (2 * i + 1)"
  have b: "2 * i < length (pad_level H level)" "2 * i + 1 < length (pad_level H level)"
    using i by (simp_all add: length_pad_level)
  have "{?a, ?b} \<subseteq> set level \<union> {merklePadHash H}"
    using nth_mem [OF b(1)] nth_mem [OF b(2)] set_pad_level [of H level] by blast
  moreover have "v = H (node_input ?a ?b)" using i by (simp add: v nth_parents merkleNode_def)
  moreover have "length level > 1 \<Longrightarrow> node_input ?a ?b \<in> set (tree_inputs H level)"
    using i by (auto simp: tree_inputs.simps [of H level])
  ultimately show thesis by (intro that) simp_all
qed

lemma tree_input_children:
  "x \<in> set (tree_inputs H level) \<Longrightarrow>
     \<exists>a b. x = node_input a b \<and> {a, b} \<subseteq> set level \<union> {merklePadHash H} \<union> H ` set (tree_inputs H level)"
proof (induction H level rule: tree_inputs.induct)
  case (1 H level)
  then have l: "length level > 1" by (auto simp: tree_inputs.simps [of H level] split: if_splits)
  from "1.prems" l consider
      (here) i where "i < (length level + 1) div 2"
        and "x = node_input (pad_level H level ! (2 * i)) (pad_level H level ! (2 * i + 1))"
    | (up) "x \<in> set (tree_inputs H (parents H level))"
    by (auto simp: tree_inputs.simps [of H level])
  then show ?case
  proof cases
    case here
    then have "2 * i < length (pad_level H level)" "2 * i + 1 < length (pad_level H level)"
      by (simp_all add: length_pad_level)
    then have "pad_level H level ! (2 * i) \<in> set (pad_level H level)"
      and "pad_level H level ! (2 * i + 1) \<in> set (pad_level H level)" by (auto intro: nth_mem)
    with set_pad_level [of H level]
    have "{pad_level H level ! (2 * i), pad_level H level ! (2 * i + 1)} \<subseteq> set level \<union> {merklePadHash H}"
      by (simp add: subset_iff)
    then show ?thesis unfolding here(2) by (intro exI conjI) (rule refl, blast)
  next
    case up
    from "1.IH" [OF l up] obtain a b where ab: "x = node_input a b"
      "{a, b} \<subseteq> set (parents H level) \<union> {merklePadHash H} \<union> H ` set (tree_inputs H (parents H level))"
      by (elim exE conjE)
    have "set (parents H level) \<union> {merklePadHash H} \<union> H ` set (tree_inputs H (parents H level)) \<subseteq>
        set level \<union> {merklePadHash H} \<union> H ` set (tree_inputs H level)"
      using parents_are_hashes [OF l, of H] image_mono [OF tree_inputs_parents [OF l, of H], of H] by auto
    with ab show ?thesis by (intro exI conjI) (assumption, rule subset_trans)
  qed
qed

lemma root_is_hash: "length level > 1 \<Longrightarrow> merkle_up H level ! 0 \<in> H ` set (tree_inputs H level)"
proof (induction H level rule: merkle_up.induct)
  case (1 H level)
  show ?case
  proof (cases "length (parents H level) > 1")
    case True
    from "1.IH" [OF "1.prems" True] tree_inputs_parents [OF "1.prems", of H] show ?thesis
      using "1.prems" by (auto simp: merkle_up.simps [of H level])
  next
    case False
    then have "merkle_up H level ! 0 = parents H level ! 0"
      using "1.prems" by (simp add: merkle_up.simps [of H level] merkle_up.simps [of H "parents H level"])
    moreover have "parents H level ! 0 \<in> set (parents H level)"
      using "1.prems" by (intro nth_mem) simp
    ultimately show ?thesis using parents_are_hashes [OF "1.prems", of H] by auto
  qed
qed

lemma verify_input_children:
  "y \<in> set (verify_inputs H cur path idx n l) \<Longrightarrow>
     \<exists>u w. (y = node_input u w \<or> y = node_input w u) \<and>
       (u = cur \<or> u \<in> H ` set (verify_inputs H cur path idx n l))"
proof (induction path arbitrary: cur idx l)
  case (Cons p path)
  define sib where "sib = (if idx XOR 1 \<ge> sizeAtLevel n l then merklePadHash H else p)"
  define inp where "inp = (if idx mod 2 = 0 then node_input cur sib else node_input sib cur)"
  have eq: "verify_inputs H cur (p # path) idx n l = inp # verify_inputs H (H inp) path (idx div 2) n (Suc l)"
    by (simp only: verify_inputs.simps Let_def sib_def inp_def)
  show ?case
  proof (cases "y = inp")
    case True
    then show ?thesis unfolding inp_def by (cases "idx mod 2 = 0") auto
  next
    case False
    with Cons.prems eq have "y \<in> set (verify_inputs H (H inp) path (idx div 2) n (Suc l))" by simp
    from Cons.IH [OF this] show ?thesis unfolding eq by auto
  qed
qed simp

lemma verify_result_is_hash:
  "path \<noteq> [] \<Longrightarrow> verify_loop H cur path idx n l \<in> H ` set (verify_inputs H cur path idx n l)"
proof (induction path arbitrary: cur idx l)
  case (Cons p path)
  then show ?case
    by (cases "path = []") (auto simp: Let_def merkleNode_def)
qed simp

text \<open>The string the tree hashes above position \<open>idx\<close>, and the string the verifier hashes there.\<close>

lemma tree_input_at:
  assumes "idx < length level" and "length level > 1"
  shows "\<exists>w. parents H level ! (idx div 2) =
      H (if idx mod 2 = 0 then node_input (level ! idx) w else node_input w (level ! idx)) \<and>
    (if idx mod 2 = 0 then node_input (level ! idx) w else node_input w (level ! idx)) \<in> set (tree_inputs H level)"
proof -
  let ?k = "idx div 2" and ?pl = "pad_level H level"
  have k: "?k < (length level + 1) div 2" using assms(1) by presburger
  have t: "node_input (?pl ! (2 * ?k)) (?pl ! (2 * ?k + 1)) \<in> set (tree_inputs H level)"
    using k assms(2) by (auto simp: tree_inputs.simps [of H level])
  have i: "?pl ! idx = level ! idx" using assms(1) by (simp add: nth_pad_level length_pad_level)
  show ?thesis
  proof (cases "idx mod 2 = 0")
    case True
    then have "2 * ?k = idx" by presburger
    with True t k i show ?thesis by (auto simp: nth_parents merkleNode_def)
  next
    case False
    then have "2 * ?k + 1 = idx" by presburger
    with False t k i show ?thesis by (auto simp: nth_parents merkleNode_def)
  qed
qed

lemma verify_sound_node:
  assumes "inp = (if idx mod 2 = 0 then node_input cur sib else node_input sib cur)"
    and "H inp = parents H level ! (idx div 2)" and "inj_on H (insert inp (set (tree_inputs H level)))"
    and "idx < length level" and "length level > 1" and "length cur = length (level ! idx)"
  shows "cur = level ! idx"
proof -
  obtain w where w: "parents H level ! (idx div 2) =
      H (if idx mod 2 = 0 then node_input (level ! idx) w else node_input w (level ! idx))"
    "(if idx mod 2 = 0 then node_input (level ! idx) w else node_input w (level ! idx)) \<in> set (tree_inputs H level)"
    using tree_input_at [OF assms(4,5)] by blast
  have "inp = (if idx mod 2 = 0 then node_input (level ! idx) w else node_input w (level ! idx))"
    using assms(2,3) w by (auto dest: inj_onD)
  with assms(1,6) show ?thesis
    by (auto dest: node_input_inject_left node_input_inject_right split: if_splits)
qed

lemma verify_sound_low:
  assumes "\<And>x. length (H x) = 32" and "inp = node_input cur sib \<or> inp = node_input sib cur"
    and "H inp \<in> insert (merklePadHash H) (H ` set (tree_inputs H (parents H level)))"
    and "inj_on H (insert domainMerklePad (insert inp (set (tree_inputs H level))))"
    and "length level > 1" and "length cur = 32"
  shows "cur \<in> insert (merklePadHash H) (H ` set (tree_inputs H level))"
proof -
  note sub = tree_inputs_parents [OF assms(5), of H] parents_are_hashes [OF assms(5), of H]
  have "inp \<noteq> domainMerklePad" using assms(2) by (auto simp: domain_separation [symmetric])
  with assms(4) have "H inp \<noteq> merklePadHash H"
    unfolding merklePadHash_def by (metis inj_onD insertI1 insertI2)
  with assms(3) obtain x where x: "x \<in> set (tree_inputs H (parents H level))" "H inp = H x" by auto
  from subsetD [OF sub(1) x(1)] inj_onD [OF assms(4) x(2)] have "inp = x" by simp
  with tree_input_children [OF x(1)] obtain a b where ab: "inp = node_input a b"
    "{a, b} \<subseteq> set (parents H level) \<union> {merklePadHash H} \<union> H ` set (tree_inputs H (parents H level))" by blast
  moreover have "set (parents H level) \<union> {merklePadHash H} \<union> H ` set (tree_inputs H (parents H level)) \<subseteq>
      insert (merklePadHash H) (H ` set (tree_inputs H level))"
    using sub(2) image_mono [OF sub(1), of H] by auto
  ultimately have c: "{a, b} \<subseteq> insert (merklePadHash H) (H ` set (tree_inputs H level))"
    by (blast intro: subset_trans)
  then have "length a = 32" "length b = 32" using assms(1) by (auto simp: merklePadHash_def)
  with ab(1) assms(2,6) have "cur = a \<or> cur = b"
    by (metis node_input_inject_left node_input_inject_right)
  with c show ?thesis by blast
qed

lemma verify_sound_high:
  assumes "\<And>x. length (H x) = 32"
    and "v \<in> insert (merklePadHash H) (set (parents H level))" and "v \<in> H ` set (verify_inputs H (H inp) path i n l)"
    and "inj_on H (insert inp (set (verify_inputs H (H inp) path i n l)) \<union> set (tree_inputs H level))"
    and "length level > 1" and "\<And>v. v \<in> set level \<Longrightarrow> length v = 32"
  shows "\<exists>v \<in> insert (merklePadHash H) (set level). v \<in> H ` insert inp (set (verify_inputs H (H inp) path i n l))"
proof (cases "v = merklePadHash H")
  case True
  with assms(3) show ?thesis by blast
next
  case False
  with assms(2) have "v \<in> set (parents H level)" by simp
  then obtain a b where ab: "v = H (node_input a b)" "{a, b} \<subseteq> set level \<union> {merklePadHash H}"
    "node_input a b \<in> set (tree_inputs H level)"
    by (rule parent_inputs) (use assms(5) in blast)
  from assms(3) obtain y where y: "y \<in> set (verify_inputs H (H inp) path i n l)" "v = H y" by blast
  with ab assms(4) have "node_input a b = y" by (auto dest: inj_onD)
  with verify_input_children [OF y(1)] obtain u w where
    u: "node_input a b = node_input u w \<or> node_input a b = node_input w u"
      "u \<in> H ` insert inp (set (verify_inputs H (H inp) path i n l))" by blast
  from ab(2) assms(1,6) have "length a = 32" "length b = 32" by (auto simp: merklePadHash_def)
  moreover have "length u = 32" using u(2) assms(1) by auto
  ultimately have "u = a \<or> u = b" using u(1) by (metis node_input_inject_left node_input_inject_right)
  with u(2) ab(2) show ?thesis by blast
qed

text \<open>
  The step of the soundness argument: walking the path and the tree together, either the current
  node is the tree's node at that position, or a node of one walk is a hash taken in the other
  at a different height.
\<close>

lemma verify_sound_step:
  assumes dig: "\<And>x. length (H x) = 32"
    and inj: "inj_on H (insert domainMerklePad
      (set (verify_inputs H cur path idx n l) \<union> set (tree_inputs H level)))"
    and "length cur = 32" and "\<And>v. v \<in> set level \<Longrightarrow> length v = 32"
    and "idx < length level" and "length level = sizeAtLevel n l"
    and "verify_loop H cur path idx n l = merkle_up H level ! 0"
  shows "cur = level ! idx \<or> cur \<in> insert (merklePadHash H) (H ` set (tree_inputs H level)) \<or>
    (\<exists>v \<in> insert (merklePadHash H) (set level). v \<in> H ` set (verify_inputs H cur path idx n l))"
  using inj assms(3-7)
proof (induction path arbitrary: cur idx l level)
  case Nil
  show ?case
  proof (cases "length level > 1")
    case True
    with Nil.prems(6) root_is_hash [OF True, of H] show ?thesis by simp
  next
    case False
    with Nil.prems(4) have "idx = 0" by simp
    with False Nil.prems(6) show ?thesis by (simp add: merkle_up.simps [of H level])
  qed
next
  case (Cons p path)
  define sib where "sib = (if idx XOR 1 \<ge> sizeAtLevel n l then merklePadHash H else p)"
  define inp where "inp = (if idx mod 2 = 0 then node_input cur sib else node_input sib cur)"
  let ?up = "verify_inputs H (H inp) path (idx div 2) n (Suc l)"
  have vi: "verify_inputs H cur (p # path) idx n l = inp # ?up"
    by (simp only: verify_inputs.simps Let_def sib_def inp_def)
  have vl: "verify_loop H cur (p # path) idx n l = verify_loop H (H inp) path (idx div 2) n (Suc l)"
    by (simp add: Let_def sib_def inp_def merkleNode_def)
  show ?case
  proof (cases "length level > 1")
    case False
    with Cons.prems have "level ! 0 \<in> H ` set (verify_inputs H cur (p # path) idx n l)"
      using verify_result_is_hash [of "p # path" H cur idx n l] by (simp add: merkle_up.simps [of H level])
    moreover have "level ! 0 \<in> set level" using Cons.prems(4) by (intro nth_mem) linarith
    ultimately show ?thesis by blast
  next
    case l: True
    let ?pl = "pad_level H level" and ?lev = "parents H level"
    have lens: "length v = 32" if "v \<in> insert (merklePadHash H) (set level)" for v
      using that Cons.prems(3) dig by (auto simp: merklePadHash_def)
    have sub: "set (tree_inputs H ?lev) \<subseteq> set (tree_inputs H level)" by (rule tree_inputs_parents [OF l])
    have injU: "inj_on H (insert domainMerklePad (set (inp # ?up) \<union> set (tree_inputs H level)))"
      using Cons.prems(1) by (simp only: vi)
    then have inj': "inj_on H (insert domainMerklePad (set ?up \<union> set (tree_inputs H ?lev)))"
      by (rule inj_on_subset) (use sub in auto)
    have injN: "inj_on H (insert inp (set (tree_inputs H level)))"
      and injL: "inj_on H (insert domainMerklePad (insert inp (set (tree_inputs H level))))"
      and injH: "inj_on H (insert inp (set ?up) \<union> set (tree_inputs H level))"
      by (rule inj_on_subset [OF injU], force)+
    have len': "length v = 32" if "v \<in> set ?lev" for v
      using that parents_are_hashes [OF l, of H] dig by auto
    have i2: "idx div 2 < length ?lev" using Cons.prems(4) by simp
    have sz: "length ?lev = sizeAtLevel n (Suc l)" using Cons.prems(5) by simp
    have root: "verify_loop H (H inp) path (idx div 2) n (Suc l) = merkle_up H ?lev ! 0"
      using Cons.prems(6) l vl by (simp add: merkle_up.simps [of H level])
    consider (node) "H inp = ?lev ! (idx div 2)"
      | (low) "H inp \<in> insert (merklePadHash H) (H ` set (tree_inputs H ?lev))"
      | (high) v where "v \<in> insert (merklePadHash H) (set ?lev)" "v \<in> H ` set ?up"
      using Cons.IH [OF inj' _ len' i2 sz root] dig by blast
    then show ?thesis
    proof cases
      case node
      have "length cur = length (level ! idx)" using Cons.prems(2-4) by simp
      with verify_sound_node [OF inp_def node injN Cons.prems(4) l] show ?thesis by simp
    next
      case low
      have "inp = node_input cur sib \<or> inp = node_input sib cur" by (simp add: inp_def)
      with verify_sound_low [OF dig _ low injL l Cons.prems(2)] show ?thesis by blast
    next
      case high
      from verify_sound_high [OF dig high injH l Cons.prems(3)] show ?thesis unfolding vi by simp
    qed
  qed
qed

text \<open>Without collisions, leaf, node and pad hashes are told apart.\<close>

lemma leaf_hash_fresh:
  assumes "inj_on H S" and "leaf_input ft row \<in> S" and "domainMerklePad \<in> S"
    and "set (tree_inputs H level) \<subseteq> S"
  shows "LedgerLeaf H ft row \<notin> insert (merklePadHash H) (H ` set (tree_inputs H level))"
proof -
  have "leaf_input ft row \<noteq> x" if "x \<in> insert domainMerklePad (set (tree_inputs H level))" for x
    using that tree_input_children [of x H level] by (auto simp: domain_separation)
  with assms have "H (leaf_input ft row) \<noteq> H x" if "x \<in> insert domainMerklePad (set (tree_inputs H level))" for x
    using that by (metis inj_onD insert_iff subsetD)
  then show ?thesis unfolding LedgerLeaf_def merklePadHash_def by auto
qed

lemma leaves_fresh:
  assumes "inj_on H S" and "leaf_input ft ` set rows \<subseteq> S" and "domainMerklePad \<in> S"
    and "set (verify_inputs H cur path i n l) \<subseteq> S"
  shows "\<not> (\<exists>v \<in> insert (merklePadHash H) (set (map (LedgerLeaf H ft) rows)).
    v \<in> H ` set (verify_inputs H cur path i n l))"
proof -
  have "x \<noteq> y" if "x \<in> insert domainMerklePad (leaf_input ft ` set rows)"
    and "y \<in> set (verify_inputs H cur path i n l)" for x y
    using that verify_input_children [OF that(2)]
    by (auto simp: domain_separation domain_separation [symmetric])
  with assms have "H x \<noteq> H y" if "x \<in> insert domainMerklePad (leaf_input ft ` set rows)"
    and "y \<in> set (verify_inputs H cur path i n l)" for x y
    using that by (metis inj_onD insert_iff subsetD)
  then show ?thesis unfolding LedgerLeaf_def merklePadHash_def by auto
qed

text \<open>
  C34 (inclusion proofs are sound). Suppose a hash with 32-byte digests is free of collisions on the
  finitely many strings that are hashed when the root over the ledger \<open>rows\<close> is built and when
  \<open>row\<close> is checked with \<open>path\<close>. If \<^verbatim>\<open>VerifyMerklePath\<close> then accepts the leaf of \<open>row\<close> at
  position \<open>i\<close> against the root, \<open>row\<close> is the \<open>i\<close>-th ledger row: no other movement can be
  presented as part of the ledger, whatever path is supplied, of whatever length.
\<close>

theorem VerifyMerklePath_sound:
  assumes dig: "\<forall>x. length (H x) = 32"
    and inj: "inj_on H (set (hashed_strings H ft rows row path (nat i)))"
    and ft: "inj ft" and ok: "row_ok ft row" "\<forall>r \<in> set rows. row_ok ft r"
    and acc: "VerifyMerklePath H (LedgerLeaf H ft row) path i (int (length rows))
      (MerkleRoot H (map (LedgerLeaf H ft) rows))"
  shows "0 \<le> i \<and> i < int (length rows) \<and> row = rows ! nat i"
proof -
  let ?leaves = "map (LedgerLeaf H ft) rows" and ?cur = "LedgerLeaf H ft row"
  let ?vi = "verify_inputs H ?cur path (nat i) (length rows) 0"
  from acc have i: "0 \<le> i" "i < int (length rows)"
    and v: "verify_loop H ?cur path (nat i) (length rows) 0 = merkle_up H ?leaves ! 0"
    by (auto simp: VerifyMerklePath_def MerkleRoot_def split: if_splits)
  have ni: "nat i < length ?leaves" using i by simp
  have S: "inj_on H (insert domainMerklePad (set ?vi \<union> set (tree_inputs H ?leaves)))"
    using inj by (rule inj_on_subset) (auto simp: hashed_strings_def)
  have leafin: "leaf_input ft row \<in> set (hashed_strings H ft rows row path (nat i))"
    "leaf_input ft ` set rows \<subseteq> set (hashed_strings H ft rows row path (nat i))"
    by (auto simp: hashed_strings_def)
  have other: "domainMerklePad \<in> set (hashed_strings H ft rows row path (nat i))"
    "set ?vi \<subseteq> set (hashed_strings H ft rows row path (nat i))"
    "set (tree_inputs H ?leaves) \<subseteq> set (hashed_strings H ft rows row path (nat i))"
    by (auto simp: hashed_strings_def)
  have "?cur \<notin> insert (merklePadHash H) (H ` set (tree_inputs H ?leaves))"
    using inj leafin(1) other(1,3) by (rule leaf_hash_fresh)
  moreover have "\<not> (\<exists>v \<in> insert (merklePadHash H) (set ?leaves). v \<in> H ` set ?vi)"
    using inj leafin(2) other(1,2) by (rule leaves_fresh)
  ultimately have "?cur = ?leaves ! nat i"
    using verify_sound_step [OF _ S _ _ ni _ v] dig by (auto simp: LedgerLeaf_def)
  then have "H (leaf_input ft row) = H (leaf_input ft (rows ! nat i))" using ni by (simp add: LedgerLeaf_def)
  moreover have mem: "rows ! nat i \<in> set rows" using ni by simp
  ultimately have "leaf_input ft row = leaf_input ft (rows ! nat i)"
    using inj leafin by (auto dest: inj_onD)
  with ft ok mem i show ?thesis by (auto intro: leaf_input_inject)
qed

lemma inj_on_set_remdups: "distinct (map f (remdups xs)) \<Longrightarrow> inj_on f (set xs)"
  by (metis distinct_map set_remdups)

theorem VerifyMerklePath_sound_witness:
  "wit_row 2 = [wit_row 1, wit_row 2] ! nat 1"
proof -
  let ?path = "[LedgerLeaf copy_digest wit_time (wit_row 1)]"
  have dig: "\<forall>x. length (copy_digest x) = 32" by (simp add: copy_digest_def Let_def)
  have inj: "inj_on copy_digest (set (hashed_strings copy_digest wit_time [wit_row 1, wit_row 2] (wit_row 2) ?path (nat 1)))"
    by (rule inj_on_set_remdups) code_simp
  have ft: "inj wit_time" unfolding wit_time_def by (rule injI) (rule itoa_inject)
  have ok: "row_ok wit_time (wit_row k)" if "k = 1 \<or> k = 2" for k
    using that by (auto simp: row_ok_def wit_row_def wit_time_def itoa_def nat_digits.simps in_int64_def)
  have acc: "VerifyMerklePath copy_digest (LedgerLeaf copy_digest wit_time (wit_row 2)) ?path 1
      (int (length [wit_row 1, wit_row 2])) (MerkleRoot copy_digest (map (LedgerLeaf copy_digest wit_time) [wit_row 1, wit_row 2]))"
    by code_simp
  show ?thesis
    using VerifyMerklePath_sound [OF dig inj ft ok _ acc] ok by simp
qed

end
