(* ===== verification/Credit_Store.thy ===== *)
theory Credit_Store
  imports Billing_Core
begin

text \<open>
  The database of \<^verbatim>\<open>internal/store\<close> and its credit projection: the tables as a record, the SQL
  statements the operations share, and the account operations of \<^verbatim>\<open>internal/store/billing.go\<close>
  (\<^verbatim>\<open>EnsureAccountCredit\<close>, \<^verbatim>\<open>AccountCredit\<close>, \<^verbatim>\<open>SetAccountCaps\<close>, \<^verbatim>\<open>applyDelta\<close>).

  An operation runs in one transaction: it returns the new database and its result, or an error,
  and an error rolls everything back (no database is returned). A statement fails as PostgreSQL
  does: a CHECK constraint of the migrations, a UNIQUE constraint, or a value outside BIGINT. A
  nullable column that the Go code reads as the zero value holds the zero value here.
\<close>

section \<open>The database\<close>

datatype SettlementState =
    SettlementPending
  | SettlementSigned
  | SettlementBroadcast
  | SettlementFinalized
  | SettlementRestored
  | SettlementFailed

record DelegationSettlement =
  s_id :: int64
  s_batch_ref :: string
  s_buyer :: string
  s_delegate :: string
  s_source_ata :: string
  s_dest_wallet :: string
  s_dest_ata :: string
  s_amount :: int64
  s_state :: SettlementState
  s_signed_wire :: string
  s_signature :: string
  s_blockhash :: string
  s_last_valid :: "int64 option"
  s_expires_at :: "instant option"
  s_error :: string
  s_created_at :: instant

record WalletInfo =
  uw_id :: int64
  uw_account :: string
  uw_wallet :: string
  uw_primary :: bool
  uw_created_at :: instant

record db =
  accounts :: "AccountCredit list"
  requests :: "Request list"
  ledger :: "LedgerEntry list"
  allowances :: "Allowance list"
  deposits :: "DepositEvent list"
  deposit_cursors :: "(string \<times> string) list"
  withdrawals :: "Withdrawal list"
  settlements :: "DelegationSettlement list"
  settlement_legs :: "(int64 \<times> int64) list"
  settlement_cursors :: "(string \<times> int64) list"
  user_wallets :: "WalletInfo list"
  next_ledger_id :: int64
  next_withdrawal_id :: int64
  next_settlement_id :: int64

definition empty_db :: db where
  "empty_db = \<lparr>accounts = [], requests = [], ledger = [], allowances = [], deposits = [],
     deposit_cursors = [], withdrawals = [], settlements = [],
     settlement_legs = [], settlement_cursors = [], user_wallets = [],
     next_ledger_id = 1, next_withdrawal_id = 1, next_settlement_id = 1\<rparr>"

section \<open>Statements on account credits\<close>

text \<open>\<^verbatim>\<open>INSERT INTO account_credits (account_id, updated_at) .. ON CONFLICT DO NOTHING\<close>\<close>

definition new_account :: "string \<Rightarrow> instant \<Rightarrow> AccountCredit" where
  "new_account a now = \<lparr>ac_account = a, ac_credit = 0, ac_reserved = 0, ac_max_in = None,
     ac_max_cached = None, ac_max_out = None, ac_updated_at = now\<rparr>"

definition ensure_account :: "db \<Rightarrow> string \<Rightarrow> instant \<Rightarrow> db" where
  "ensure_account db a now =
     (if has_row ac_account a (accounts db) then db
      else db\<lparr>accounts := accounts db @ [new_account a now]\<rparr>)"

text \<open>The CHECK constraints of table \<^verbatim>\<open>account_credits\<close>.\<close>

fun cap_nonneg :: "int64 option \<Rightarrow> bool" where
  "cap_nonneg None = True"
| "cap_nonneg (Some c) = (c \<ge> 0)"

definition account_check :: "AccountCredit \<Rightarrow> bool" where
  "account_check r \<longleftrightarrow> ac_credit r \<ge> 0 \<and> ac_reserved r \<ge> 0 \<and> ac_reserved r \<le> ac_credit r \<and>
     cap_nonneg (ac_max_in r) \<and> cap_nonneg (ac_max_cached r) \<and> cap_nonneg (ac_max_out r)"

text \<open>\<^verbatim>\<open>UPDATE account_credits SET .. WHERE account_id = ..\<close>; no row means no rows affected.\<close>

definition update_account :: "db \<Rightarrow> string \<Rightarrow> (AccountCredit \<Rightarrow> AccountCredit) \<Rightarrow> db res" where
  "update_account db a f =
     (case find_row ac_account a (accounts db) of
        None \<Rightarrow> Inr db
      | Some r \<Rightarrow>
          if \<not> in_int64 (ac_credit (f r)) \<or> \<not> in_int64 (ac_reserved (f r))
          then Inl (ErrPg NumericOutOfRange)
          else if \<not> account_check (f r) then Inl (ErrPg CheckViolation)
          else Inr (db\<lparr>accounts := update_row ac_account a f (accounts db)\<rparr>))"

definition add_delta :: "int64 \<Rightarrow> int64 \<Rightarrow> instant \<Rightarrow> AccountCredit \<Rightarrow> AccountCredit" where
  "add_delta creditDelta reservedDelta now r =
     r\<lparr>ac_credit := ac_credit r + creditDelta, ac_reserved := ac_reserved r + reservedDelta,
       ac_updated_at := now\<rparr>"

definition applyDelta ::
  "db \<Rightarrow> string \<Rightarrow> int64 \<Rightarrow> int64 \<Rightarrow> instant \<Rightarrow> (db \<times> int64 \<times> int64) res"
where
  "applyDelta db a creditDelta reservedDelta now =
     (let db1 = ensure_account db a now
      in case find_row ac_account a (accounts db1) of
           None \<Rightarrow> Inl ErrNotFound
         | Some r \<Rightarrow>
             rbind (update_account db1 a (add_delta creditDelta reservedDelta now)) (\<lambda>db2.
               Inr (db2, wrap64 (ac_credit r + creditDelta), wrap64 (ac_reserved r + reservedDelta))))"

section \<open>Statements on the ledger\<close>

definition ledger_key :: "LedgerEntry \<Rightarrow> string \<times> string" where
  "ledger_key e = (l_ref e, l_leg e)"

text \<open>\<^verbatim>\<open>INSERT INTO credit_ledger ..\<close> under \<^verbatim>\<open>UNIQUE (ref, leg)\<close>; the id is the sequence's next value.\<close>

definition insert_ledger :: "db \<Rightarrow> LedgerEntry \<Rightarrow> db res" where
  "insert_ledger db e =
     (if has_row ledger_key (ledger_key e) (ledger db) then Inl (ErrPg UniqueViolation)
      else Inr (db\<lparr>ledger := ledger db @ [e\<lparr>l_id := next_ledger_id db\<rparr>],
                   next_ledger_id := next_ledger_id db + 1\<rparr>))"

text \<open>
  A path that swallows the unique violation of a ledger insert and goes on: PostgreSQL has aborted
  the transaction by then, so the next statement fails with in-failed-transaction.
\<close>

fun unique_aborts :: "'a res \<Rightarrow> 'a res" where
  "unique_aborts (Inl (ErrPg UniqueViolation)) = Inl (ErrPg InFailedTransaction)"
| "unique_aborts x = x"

text \<open>A ledger row without prices or tokens, as every path but a settlement writes it.\<close>

definition plain_leg ::
  "string \<Rightarrow> int64 \<Rightarrow> string \<Rightarrow> string \<Rightarrow> string \<Rightarrow> string \<Rightarrow> instant \<Rightarrow> LedgerEntry"
where
  "plain_leg a delta source leg counterparty ref now =
     \<lparr>l_id = 0, l_account = a, l_delta = delta, l_source = source, l_leg = leg,
      l_counterparty = counterparty, l_ref = ref, l_model = [], l_rates = None, l_tokens = None,
      l_created_at = now\<rparr>"

section \<open>Account operations\<close>

definition EnsureAccountCredit :: "db \<Rightarrow> string \<Rightarrow> instant \<Rightarrow> (db \<times> unit) res" where
  "EnsureAccountCredit db a clock =
     (if a = [] then Inl ErrConflict else Inr (ensure_account db a clock, ()))"

definition AccountCredit_get :: "db \<Rightarrow> string \<Rightarrow> AccountCredit res" where
  "AccountCredit_get db a =
     (case find_row ac_account a (accounts db) of None \<Rightarrow> Inl ErrNotFound | Some r \<Rightarrow> Inr r)"

definition set_caps :: "Caps \<Rightarrow> instant \<Rightarrow> AccountCredit \<Rightarrow> AccountCredit" where
  "set_caps caps now r = r\<lparr>ac_max_in := cap_in caps, ac_max_cached := cap_cached caps,
     ac_max_out := cap_out caps, ac_updated_at := now\<rparr>"

definition SetAccountCaps :: "db \<Rightarrow> string \<Rightarrow> Caps \<Rightarrow> instant \<Rightarrow> (db \<times> AccountCredit) res" where
  "SetAccountCaps db a caps clock =
     (if a = [] then Inl ErrConflict
      else let db1 = ensure_account db a clock
           in rbind (update_account db1 a (set_caps caps clock)) (\<lambda>db2.
              rbind (AccountCredit_get db2 a) (\<lambda>c. Inr (db2, c))))"

section \<open>What the projection promises\<close>

text \<open>The balances of an account; an account without a row has none.\<close>

definition credit_of :: "db \<Rightarrow> string \<Rightarrow> int64" where
  "credit_of db a =
     (case find_row ac_account a (accounts db) of None \<Rightarrow> 0 | Some r \<Rightarrow> ac_credit r)"

definition reserved_of :: "db \<Rightarrow> string \<Rightarrow> int64" where
  "reserved_of db a =
     (case find_row ac_account a (accounts db) of None \<Rightarrow> 0 | Some r \<Rightarrow> ac_reserved r)"

definition ledger_sum :: "db \<Rightarrow> string \<Rightarrow> int" where
  "ledger_sum db a = sum_rows (\<lambda>e. l_account e = a) l_delta (ledger db)"

text \<open>Credit that no ledger movement accounts for.\<close>

definition drift :: "db \<Rightarrow> string \<Rightarrow> int" where
  "drift db a = credit_of db a - ledger_sum db a"

text \<open>All credit the accounts hold together.\<close>

definition total_credit :: "db \<Rightarrow> int" where
  "total_credit db = sum_rows (\<lambda>_. True) ac_credit (accounts db)"

definition open_reserved :: "db \<Rightarrow> string \<Rightarrow> int" where
  "open_reserved db a =
     sum_rows (\<lambda>r. r_buyer r = a \<and> r_state r = StateReserved) r_reserved_raw (requests db)"

text \<open>The ledger is append-only: a transaction adds rows, and each kind of operation its own legs.\<close>

definition ledger_ext :: "string set \<Rightarrow> db \<Rightarrow> db \<Rightarrow> bool" where
  "ledger_ext L db db' \<longleftrightarrow> (\<exists>new. ledger db' = ledger db @ new \<and> (\<forall>e \<in> set new. l_leg e \<in> L))"

text \<open>The tables the credit books do not include.\<close>

definition other_tables where
  "other_tables db = (allowances db, deposits db, deposit_cursors db, withdrawals db, settlements db,
     settlement_legs db, settlement_cursors db, user_wallets db, next_withdrawal_id db, next_settlement_id db)"

definition account_row_ok :: "AccountCredit \<Rightarrow> bool" where
  "account_row_ok r \<longleftrightarrow> account_check r \<and> ac_credit r \<le> max_int64"

definition accounts_ok :: "db \<Rightarrow> bool" where
  "accounts_ok db \<longleftrightarrow> keys_distinct ac_account (accounts db) \<and> list_all account_row_ok (accounts db)"

definition ledger_ok :: "db \<Rightarrow> bool" where
  "ledger_ok db \<longleftrightarrow> keys_distinct ledger_key (ledger db) \<and> sorted_wrt (<) (map l_id (ledger db)) \<and>
     (\<forall>e \<in> set (ledger db). l_id e < next_ledger_id db)"

section \<open>Lemmas on accounts\<close>

named_theorems credit_simps \<open>how the statements change the balances\<close>

lemma accounts_ok_bounds:
  assumes "accounts_ok db"
  shows "0 \<le> reserved_of db a" "reserved_of db a \<le> credit_of db a" "credit_of db a \<le> max_int64"
  using assms find_row_mem [of ac_account a "accounts db"]
  by (auto simp: accounts_ok_def list_all_iff account_row_ok_def account_check_def
      reserved_of_def credit_of_def split: option.splits)

lemma ensure_account_other [credit_simps]:
  "requests (ensure_account db a now) = requests db" "ledger (ensure_account db a now) = ledger db"
  "allowances (ensure_account db a now) = allowances db" "deposits (ensure_account db a now) = deposits db"
  "deposit_cursors (ensure_account db a now) = deposit_cursors db" "withdrawals (ensure_account db a now) = withdrawals db"
  "settlements (ensure_account db a now) = settlements db"
  "settlement_legs (ensure_account db a now) = settlement_legs db" "settlement_cursors (ensure_account db a now) = settlement_cursors db"
  "user_wallets (ensure_account db a now) = user_wallets db" "next_ledger_id (ensure_account db a now) = next_ledger_id db"
  "next_withdrawal_id (ensure_account db a now) = next_withdrawal_id db" "next_settlement_id (ensure_account db a now) = next_settlement_id db"
  by (simp_all add: ensure_account_def)

lemma ensure_account_find:
  "find_row ac_account b (accounts (ensure_account db a now)) =
     (case find_row ac_account b (accounts db) of
        Some r \<Rightarrow> Some r | None \<Rightarrow> if b = a then Some (new_account a now) else None)"
  by (auto simp: ensure_account_def has_row_find row_simps new_account_def split: option.splits)

lemma ensure_account_balances [credit_simps]:
  "credit_of (ensure_account db a now) b = credit_of db b"
  "reserved_of (ensure_account db a now) b = reserved_of db b"
  by (auto simp: credit_of_def reserved_of_def ensure_account_find new_account_def split: option.splits)

lemma ensure_account_ok: "accounts_ok db \<Longrightarrow> accounts_ok (ensure_account db a now)"
  by (auto simp: ensure_account_def accounts_ok_def row_simps list_all_iff new_account_def
      account_row_ok_def account_check_def)

lemma update_account_frame: "update_account db a f = Inr db' \<Longrightarrow> db' = db\<lparr>accounts := accounts db'\<rparr>"
  by (auto simp: update_account_def split: option.splits if_splits)

lemma update_account_other [credit_simps]:
  assumes "update_account db a f = Inr db'"
  shows "requests db' = requests db" "ledger db' = ledger db" "allowances db' = allowances db"
    "deposits db' = deposits db" "deposit_cursors db' = deposit_cursors db" "withdrawals db' = withdrawals db"
    "settlements db' = settlements db" "settlement_legs db' = settlement_legs db"
    "settlement_cursors db' = settlement_cursors db" "user_wallets db' = user_wallets db" "next_ledger_id db' = next_ledger_id db"
    "next_withdrawal_id db' = next_withdrawal_id db" "next_settlement_id db' = next_settlement_id db"
  using update_account_frame [OF assms] by (metis db.ext_inject db.surjective db.update_convs(1))+

lemma update_account_ok:
  assumes "update_account db a f = Inr db'" and "accounts_ok db" and "\<And>r. ac_account (f r) = ac_account r"
  shows "accounts_ok db'"
proof (cases "find_row ac_account a (accounts db)")
  case None
  with assms show ?thesis by (simp add: update_account_def)
next
  case (Some r)
  with assms(1) have db': "db' = db\<lparr>accounts := update_row ac_account a f (accounts db)\<rparr>"
    and chk: "account_check (f r)" "in_int64 (ac_credit (f r))"
    by (auto simp: update_account_def split: if_splits)
  have dist: "keys_distinct ac_account (accounts db)" using assms(2) by (simp add: accounts_ok_def)
  have one: "x = r" if "x \<in> set (accounts db)" "ac_account x = a" for x
    using find_row_distinct [OF dist that(1)] that(2) Some by simp
  have "keys_distinct ac_account (accounts db')"
    using dist assms(3) by (simp add: db' keys_distinct_update)
  moreover have "account_row_ok x" if "x \<in> set (accounts db')" for x
    using set_update_row [of x ac_account a f "accounts db"] that assms(2) chk one
    by (auto simp: db' accounts_ok_def list_all_iff account_row_ok_def in_int64_def)
  ultimately show ?thesis by (simp add: accounts_ok_def list_all_iff)
qed

lemma update_account_find:
  assumes "update_account db a f = Inr db'" and "\<And>r. ac_account (f r) = ac_account r"
  shows "find_row ac_account b (accounts db') =
    (if b = a then map_option f (find_row ac_account a (accounts db)) else find_row ac_account b (accounts db))"
  using assms by (auto simp: update_account_def find_row_update split: option.splits if_splits)

lemma add_delta_account [simp]: "ac_account (add_delta c d now r) = ac_account r"
  by (simp add: add_delta_def)

lemma set_caps_account [simp]: "ac_account (set_caps caps now r) = ac_account r"
  by (simp add: set_caps_def)

text \<open>The contract of \<open>applyDelta\<close>: it moves one account by the deltas and touches nothing else.\<close>

lemma applyDeltaE:
  assumes "applyDelta db a cd rd now = Inr (db', c, r)"
  obtains x where "find_row ac_account a (accounts (ensure_account db a now)) = Some x"
    and "update_account (ensure_account db a now) a (add_delta cd rd now) = Inr db'"
    and "c = wrap64 (ac_credit x + cd)" and "r = wrap64 (ac_reserved x + rd)"
  using assms by (auto simp: applyDelta_def Let_def res_simps split: option.splits)

lemma applyDelta_credit:
  assumes "applyDelta db a cd rd now = Inr (db', c, r)"
  shows "credit_of db' b = credit_of db b + (if b = a then cd else 0)"
    and "reserved_of db' b = reserved_of db b + (if b = a then rd else 0)"
proof -
  from assms obtain x where x: "find_row ac_account a (accounts (ensure_account db a now)) = Some x"
    and up: "update_account (ensure_account db a now) a (add_delta cd rd now) = Inr db'"
    by (rule applyDeltaE)
  have "credit_of db' b = credit_of (ensure_account db a now) b + (if b = a then cd else 0)"
    and "reserved_of db' b = reserved_of (ensure_account db a now) b + (if b = a then rd else 0)"
    using x by (simp_all add: credit_of_def reserved_of_def update_account_find [OF up] add_delta_def)
  then show "credit_of db' b = credit_of db b + (if b = a then cd else 0)"
    and "reserved_of db' b = reserved_of db b + (if b = a then rd else 0)"
    by (simp_all add: credit_simps)
qed

lemma applyDelta_other [credit_simps]:
  assumes "applyDelta db a cd rd now = Inr (db', c, r)"
  shows "requests db' = requests db" "ledger db' = ledger db" "allowances db' = allowances db"
    "deposits db' = deposits db" "deposit_cursors db' = deposit_cursors db" "withdrawals db' = withdrawals db"
    "settlements db' = settlements db" "settlement_legs db' = settlement_legs db"
    "settlement_cursors db' = settlement_cursors db" "user_wallets db' = user_wallets db" "next_ledger_id db' = next_ledger_id db"
    "next_withdrawal_id db' = next_withdrawal_id db" "next_settlement_id db' = next_settlement_id db"
  by (rule applyDeltaE [OF assms], simp add: credit_simps)+

lemma applyDelta_ok:
  assumes "applyDelta db a cd rd now = Inr (db', c, r)" and "accounts_ok db"
  shows "accounts_ok db'"
  using assms(1) by (rule applyDeltaE)
    (erule update_account_ok, simp_all add: ensure_account_ok [OF assms(2)])

lemma applyDelta_result:
  assumes "applyDelta db a cd rd now = Inr (db', c, r)"
  shows "c = credit_of db' a" "r = reserved_of db' a"
proof -
  from assms obtain x where x: "find_row ac_account a (accounts (ensure_account db a now)) = Some x"
    and up: "update_account (ensure_account db a now) a (add_delta cd rd now) = Inr db'"
    and c: "c = wrap64 (ac_credit x + cd)" "r = wrap64 (ac_reserved x + rd)"
    by (rule applyDeltaE)
  from up x have "in_int64 (ac_credit x + cd)" "in_int64 (ac_reserved x + rd)"
    by (auto simp: update_account_def add_delta_def split: if_splits)
  with c show "c = credit_of db' a" "r = reserved_of db' a"
    using update_account_find [OF up, of a] x
    by (simp_all add: wrap64_id credit_of_def reserved_of_def add_delta_def)
qed

lemma ensure_account_total [credit_simps]: "total_credit (ensure_account db a now) = total_credit db"
  by (simp add: total_credit_def ensure_account_def row_simps new_account_def)

lemma update_delta_total:
  assumes "update_account db a (add_delta cd rd now) = Inr db'" and "accounts_ok db"
    and "find_row ac_account a (accounts db) = Some x"
  shows "total_credit db' = total_credit db + cd"
  using assms by (auto simp: update_account_def total_credit_def accounts_ok_def sum_rows_update add_delta_def
      split: if_splits)

lemma applyDelta_total:
  assumes "applyDelta db a cd rd now = Inr (db', c, r)" and "accounts_ok db"
  shows "total_credit db' = total_credit db + cd"
  by (rule applyDeltaE [OF assms(1)], drule (1) update_delta_total [OF _ ensure_account_ok [OF assms(2)]])
    (simp add: credit_simps)

text \<open>It succeeds exactly when the new balances satisfy the constraints.\<close>

lemma applyDelta_succeeds:
  assumes "accounts_ok db" and "0 \<le> reserved_of db a + rd"
    and "reserved_of db a + rd \<le> credit_of db a + cd" and "credit_of db a + cd \<le> max_int64"
  shows "\<exists>db'. applyDelta db a cd rd now =
    Inr (db', credit_of db a + cd, reserved_of db a + rd)"
proof -
  obtain x where x: "find_row ac_account a (accounts (ensure_account db a now)) = Some x"
    by (cases "find_row ac_account a (accounts db)") (auto simp: ensure_account_find)
  have ok: "account_row_ok x"
    using ensure_account_ok [OF assms(1), of a now] find_row_mem [OF x]
    by (simp add: accounts_ok_def list_all_iff)
  have bal: "credit_of db a = ac_credit x" "reserved_of db a = ac_reserved x"
    using x ensure_account_balances [of db a now a] by (simp_all add: credit_of_def reserved_of_def)
  have rng: "in_int64 (ac_credit x + cd)" "in_int64 (ac_reserved x + rd)"
    using assms(2-4) bal by (simp_all add: in_int64_def)
  have "account_check (add_delta cd rd now x)"
    using assms(2,3) ok bal by (simp add: account_check_def account_row_ok_def add_delta_def)
  with x rng show ?thesis
    by (simp add: applyDelta_def Let_def update_account_def add_delta_def bal wrap64_id)
qed

text \<open>The same for the plain UPDATE that moves an existing row by deltas.\<close>

lemma update_delta_balances:
  assumes "update_account db a (add_delta cd rd now) = Inr db'"
    and "find_row ac_account a (accounts db) = Some x"
  shows "credit_of db' b = credit_of db b + (if b = a then cd else 0)"
    and "reserved_of db' b = reserved_of db b + (if b = a then rd else 0)"
  using assms(2) by (simp_all add: credit_of_def reserved_of_def update_account_find [OF assms(1)] add_delta_def)

lemma update_delta_succeeds:
  assumes "accounts_ok db" and "0 \<le> reserved_of db a + rd"
    and "reserved_of db a + rd \<le> credit_of db a + cd" and "credit_of db a + cd \<le> max_int64"
  shows "\<exists>db'. update_account db a (add_delta cd rd now) = Inr db'"
proof (cases "find_row ac_account a (accounts db)")
  case None
  then show ?thesis by (simp add: update_account_def)
next
  case (Some x)
  have "account_row_ok x"
    using assms(1) find_row_mem [OF Some] by (simp add: accounts_ok_def list_all_iff)
  with Some assms(2-4) show ?thesis
    by (simp add: update_account_def add_delta_def credit_of_def reserved_of_def in_int64_def
        account_check_def account_row_ok_def)
qed

lemma has_account_reserved: "reserved_of db a \<noteq> 0 \<Longrightarrow> \<exists>x. find_row ac_account a (accounts db) = Some x"
  by (auto simp: reserved_of_def split: option.splits)

section \<open>Lemmas on the ledger\<close>

lemma insert_ledger_other [credit_simps]:
  assumes "insert_ledger db e = Inr db'"
  shows "accounts db' = accounts db" "requests db' = requests db" "allowances db' = allowances db" "deposits db' = deposits db"
    "deposit_cursors db' = deposit_cursors db" "withdrawals db' = withdrawals db"
    "settlements db' = settlements db" "settlement_legs db' = settlement_legs db" "settlement_cursors db' = settlement_cursors db"
    "user_wallets db' = user_wallets db" "next_withdrawal_id db' = next_withdrawal_id db" "next_settlement_id db' = next_settlement_id db"
    "credit_of db' b = credit_of db b" "reserved_of db' b = reserved_of db b"
  using assms by (auto simp: insert_ledger_def credit_of_def reserved_of_def split: if_splits)

lemma insert_ledger_rows:
  assumes "insert_ledger db e = Inr db'"
  shows "ledger db' = ledger db @ [e\<lparr>l_id := next_ledger_id db\<rparr>]"
    and "next_ledger_id db' = next_ledger_id db + 1"
  using assms by (auto simp: insert_ledger_def split: if_splits)

lemma insert_ledger_sum:
  assumes "insert_ledger db e = Inr db'"
  shows "ledger_sum db' a = ledger_sum db a + (if l_account e = a then l_delta e else 0)"
  by (simp add: ledger_sum_def insert_ledger_rows [OF assms] row_simps)

lemma insert_ledger_ok:
  assumes "insert_ledger db e = Inr db'" and "ledger_ok db"
  shows "ledger_ok db'"
proof -
  have k: "ledger_key (e\<lparr>l_id := i\<rparr>) = ledger_key e" for i by (simp add: ledger_key_def)
  from assms(1) have fresh: "ledger_key e \<notin> ledger_key ` set (ledger db)"
    by (simp add: insert_ledger_def row_simps split: if_splits)
  show ?thesis
    using assms(2) fresh
    by (auto simp: ledger_ok_def insert_ledger_rows [OF assms(1)] row_simps k sorted_wrt_append
        less_imp_le intro: less_trans)
qed

lemma insert_ledger_succeeds:
  "ledger_key e \<notin> ledger_key ` set (ledger db) \<Longrightarrow> \<exists>db'. insert_ledger db e = Inr db'"
  by (simp add: insert_ledger_def row_simps)

lemma accounts_ok_cong: "accounts db' = accounts db \<Longrightarrow> accounts_ok db' = accounts_ok db"
  by (simp add: accounts_ok_def)

lemma ledger_ok_cong:
  "ledger db' = ledger db \<Longrightarrow> next_ledger_id db' = next_ledger_id db \<Longrightarrow> ledger_ok db' = ledger_ok db"
  by (simp add: ledger_ok_def)

lemma unique_aborts_Inr [res_simps]: "unique_aborts x = Inr v \<longleftrightarrow> x = Inr v"
  by (cases x rule: unique_aborts.cases) simp_all

section \<open>Frames\<close>

lemma ledger_ext_refl [intro]: "ledger db' = ledger db \<Longrightarrow> ledger_ext L db db'"
  by (simp add: ledger_ext_def)

lemma ledger_ext_trans: "ledger_ext L db db1 \<Longrightarrow> ledger_ext L db1 db2 \<Longrightarrow> ledger_ext L db db2"
  by (fastforce simp: ledger_ext_def)

lemma insert_ledger_ext: "insert_ledger db e = Inr db' \<Longrightarrow> l_leg e \<in> L \<Longrightarrow> ledger_ext L db db'"
  by (simp add: ledger_ext_def insert_ledger_rows)

lemma ledger_ext_mem:
  "ledger_ext L db db' \<Longrightarrow> e \<in> set (ledger db') \<Longrightarrow> l_leg e \<notin> L \<Longrightarrow> e \<in> set (ledger db)"
  by (auto simp: ledger_ext_def)

lemma ledger_ext_old: "ledger_ext L db db' \<Longrightarrow> e \<in> set (ledger db) \<Longrightarrow> e \<in> set (ledger db')"
  by (auto simp: ledger_ext_def)

lemma ledger_ext_sum:
  assumes "ledger_ext L db db'" and "\<And>e. P e \<Longrightarrow> l_leg e \<notin> L"
  shows "sum_rows P g (ledger db') = sum_rows P g (ledger db)"
proof -
  from assms(1) obtain new where new: "ledger db' = ledger db @ new" "\<forall>e \<in> set new. l_leg e \<in> L"
    by (auto simp: ledger_ext_def)
  have "sum_rows P g new = 0" using new(2) assms(2) by (intro sum_rows_zero) blast
  with new(1) show ?thesis by (simp add: row_simps)
qed

lemmas applyDelta_facts = applyDelta_credit applyDelta_other applyDelta_ok applyDelta_total

lemmas insert_ledger_facts = insert_ledger_other insert_ledger_rows insert_ledger_sum insert_ledger_ok

text \<open>One ledgered movement: a balance change and the row that records it.\<close>

lemma ledgered_move:
  assumes "applyDelta db a d 0 now = Inr (db1, c, r)" and "insert_ledger db1 e = Inr db2"
    and "l_account e = a" "l_delta e = d"
  shows "credit_of db2 b = credit_of db b + (if b = a then d else 0)"
    and "reserved_of db2 b = reserved_of db b"
    and "drift db2 b = drift db b"
    and "accounts_ok db \<Longrightarrow> accounts_ok db2" and "ledger_ok db \<Longrightarrow> ledger_ok db2"
    and "accounts_ok db \<Longrightarrow> total_credit db2 = total_credit db + d"
    and "ledger_ext {l_leg e} db db2"
proof -
  note x = applyDelta_other [OF assms(1)] and y = insert_ledger_other [OF assms(2)]
  show c: "credit_of db2 b = credit_of db b + (if b = a then d else 0)"
    and "reserved_of db2 b = reserved_of db b"
    using applyDelta_credit [OF assms(1), of b] y(13,14) by simp_all
  have "ledger_sum db2 b = ledger_sum db b + (if b = a then d else 0)"
    using insert_ledger_sum [OF assms(2), of b] x(2) assms(3,4) by (auto simp: ledger_sum_def)
  with c show "drift db2 b = drift db b" by (simp add: drift_def)
  show "accounts_ok db2" if "accounts_ok db"
    using applyDelta_ok [OF assms(1) that] y(1) by (simp add: accounts_ok_def)
  show "ledger_ok db2" if "ledger_ok db"
    using insert_ledger_ok [OF assms(2)] ledger_ok_cong [OF x(2,11)] that by simp
  show "total_credit db2 = total_credit db + d" if "accounts_ok db"
    using applyDelta_total [OF assms(1) that] y(1) by (simp add: total_credit_def)
  show "ledger_ext {l_leg e} db db2"
    using x(2) insert_ledger_ext [OF assms(2), of "{l_leg e}"] by (simp add: ledger_ext_def)
qed

lemma leg_fields [simp]:
  "l_account (plain_leg a d src leg cp ref now) = a" "l_delta (plain_leg a d src leg cp ref now) = d"
  "l_leg (plain_leg a d src leg cp ref now) = leg" "l_ref (plain_leg a d src leg cp ref now) = ref"
  by (simp_all add: plain_leg_def)

lemma other_tables_simps [credit_simps]:
  "other_tables (ensure_account db a now) = other_tables db"
  "update_account db a f = Inr db' \<Longrightarrow> other_tables db' = other_tables db"
  "applyDelta db a cd rd now = Inr (db', c, r) \<Longrightarrow> other_tables db' = other_tables db"
  "insert_ledger db e = Inr db' \<Longrightarrow> other_tables db' = other_tables db"
  by (simp_all add: other_tables_def credit_simps)

end
