(* ===== verification/Billing_Requests.thy ===== *)
theory Billing_Requests
  imports Credit_Store
begin

text \<open>
  The reservation and settlement operations of \<^verbatim>\<open>internal/store/billing.go\<close> with the allowance sum
  they read (\<^verbatim>\<open>internal/store/allowance.go\<close>): a request is reserved, then settled against the peer
  that served it or released, each in one transaction.

  \<^verbatim>\<open>SettleBilling\<close> and \<^verbatim>\<open>ReleaseBilling\<close> first read the request row and then work on that copy. The
  model keeps the two halves apart (\<open>settle_tx\<close> and \<open>release_tx\<close> take the copy), so that runs in
  which two transactions overlap can be stated as well as serial ones.
\<close>

section \<open>Reservation\<close>

fun check_quotes :: "EligiblePeerQuote list \<Rightarrow> unit res" where
  "check_quotes [] = Inr ()"
| "check_quotes (q # qs) =
     (if q_peer_id q = [] \<or> q_seller q = [] then Inl ErrConflict
      else if q_in q < 0 \<or> q_cached q < 0 \<or> q_out q < 0 then Inl ErrConflict
      else check_quotes qs)"

definition sumActiveAllowances :: "db \<Rightarrow> string \<Rightarrow> int64 res" where
  "sumActiveAllowances db a =
     (let s = sum_rows (\<lambda>x. al_account x = a \<and> al_revoked_at x = None \<and> al_raw x > 0) al_raw (allowances db)
      in if s > max_int64 then Inl (ErrPg NumericOutOfRange) else Inr s)"

definition new_request :: "Reservation \<Rightarrow> int64 \<Rightarrow> instant \<Rightarrow> Request" where
  "new_request req reserve now =
     \<lparr>r_request_id = rv_request_id req, r_buyer = rv_buyer req, r_service = rv_service req,
      r_model = rv_model req, r_quotes = rv_quotes req, r_caps = rv_caps req,
      r_reserved_raw = reserve, r_state = StateReserved, r_served_peer = [], r_served_seller = [],
      r_served_revision = 0, r_served_in = 0, r_served_cached = 0, r_served_out = 0,
      r_tok_in = 0, r_tok_cached = 0, r_tok_out = 0, r_cost_raw = 0, r_fee_raw = 0,
      r_seller_raw = 0, r_reserved_at = now, r_settled_at = None, r_released_at = None,
      r_release_reason = []\<rparr>"

text \<open>\<^verbatim>\<open>INSERT INTO billing_requests ..\<close>, whose unique violation is reported as ErrConflict.\<close>

definition insert_request :: "db \<Rightarrow> Request \<Rightarrow> db res" where
  "insert_request db r =
     (if has_row r_request_id (r_request_id r) (requests db) then Inl ErrConflict
      else if r_reserved_raw r < 0 then Inl (ErrPg CheckViolation)
      else Inr (db\<lparr>requests := requests db @ [r]\<rparr>))"

definition reserve_available :: "int64 \<Rightarrow> int64 \<Rightarrow> int64 \<Rightarrow> int64" where
  "reserve_available creditRaw reservedRaw allowSum =
     (let available = wrap64 (creditRaw - reservedRaw)
      in if allowSum > 0 \<and> allowSum < available then allowSum else available)"

definition ReserveBilling :: "db \<Rightarrow> Reservation \<Rightarrow> instant \<Rightarrow> (db \<times> AccountCredit) res" where
  "ReserveBilling db req clock =
     (if rv_request_id req = [] \<or> rv_buyer req = [] then Inl ErrConflict
      else if rv_quotes req = [] then Inl ErrConflict
      else rbind (check_quotes (rv_quotes req)) (\<lambda>_.
           rbind (ReserveAmount (rv_quotes req) (rv_input_ceil req) (rv_output_ceil req)) (\<lambda>reserve.
             let now = time_or_now clock (rv_reserved_at req);
                 db1 = ensure_account db (rv_buyer req) now
             in rbind (AccountCredit_get db1 (rv_buyer req)) (\<lambda>row.
                rbind (sumActiveAllowances db1 (rv_buyer req)) (\<lambda>allowSum.
                  if reserve_available (ac_credit row) (ac_reserved row) allowSum < reserve
                  then Inl ErrInsufficientCredit
                  else rbind (insert_request db1 (new_request req reserve now)) (\<lambda>db2.
                       rbind (if reserve > 0 then update_account db2 (rv_buyer req) (add_delta 0 reserve now)
                              else Inr db2) (\<lambda>db3.
                         Inr (db3, (new_account (rv_buyer req) now)
                           \<lparr>ac_credit := ac_credit row,
                            ac_reserved := wrap64 (ac_reserved row + reserve)\<rparr>))))))))"

section \<open>Release\<close>

definition scanBillingRequest :: "db \<Rightarrow> string \<Rightarrow> Request res" where
  "scanBillingRequest db rid =
     (case find_row r_request_id rid (requests db) of None \<Rightarrow> Inl ErrNotFound | Some r \<Rightarrow> Inr r)"

definition release_mark :: "string \<Rightarrow> instant \<Rightarrow> Request \<Rightarrow> Request" where
  "release_mark reason now r =
     r\<lparr>r_state := StateReleased, r_released_at := Some now, r_release_reason := reason\<rparr>"

definition update_request :: "db \<Rightarrow> string \<Rightarrow> (Request \<Rightarrow> Request) \<Rightarrow> db" where
  "update_request db rid f = db\<lparr>requests := update_row r_request_id rid f (requests db)\<rparr>"

definition releaseLocked :: "db \<Rightarrow> Request \<Rightarrow> string \<Rightarrow> instant \<Rightarrow> (db \<times> Request) res" where
  "releaseLocked db r reason now =
     rbind (if r_reserved_raw r > 0 then update_account db (r_buyer r) (add_delta 0 (- r_reserved_raw r) now)
            else Inr db) (\<lambda>db1.
       Inr (update_request db1 (r_request_id r) (release_mark reason now), release_mark reason now r))"

definition release_tx :: "db \<Rightarrow> Request \<Rightarrow> string \<Rightarrow> instant \<Rightarrow> (db \<times> Request) res" where
  "release_tx db r reason now =
     (if r_state r \<noteq> StateReserved then Inr (db, r) else releaseLocked db r reason now)"

definition ReleaseBilling :: "db \<Rightarrow> string \<Rightarrow> string \<Rightarrow> instant \<Rightarrow> instant \<Rightarrow> (db \<times> Request) res" where
  "ReleaseBilling db rid reason now clock =
     rbind (scanBillingRequest db rid) (\<lambda>r. release_tx db r reason (time_or_now clock now))"

section \<open>Settlement\<close>

fun findQuote :: "EligiblePeerQuote list \<Rightarrow> string \<Rightarrow> EligiblePeerQuote option" where
  "findQuote [] peerID = None"
| "findQuote (q # qs) peerID = (if q_peer_id q = peerID then Some q else findQuote qs peerID)"

text \<open>\<^verbatim>\<open>isUniqueViolation\<close> after a ledger insert of a settlement becomes ErrConflict.\<close>

fun unique_is_conflict :: "'a res \<Rightarrow> 'a res" where
  "unique_is_conflict (Inl (ErrPg UniqueViolation)) = Inl ErrConflict"
| "unique_is_conflict x = x"

definition usage_leg ::
  "string \<Rightarrow> int64 \<Rightarrow> string \<Rightarrow> string \<Rightarrow> string \<Rightarrow> Request \<Rightarrow> EligiblePeerQuote \<Rightarrow> Usage \<Rightarrow> instant \<Rightarrow> LedgerEntry"
where
  "usage_leg a delta source leg counterparty r q usage now =
     (plain_leg a delta source leg counterparty (r_request_id r) now)
       \<lparr>l_model := r_model r, l_rates := Some (q_in q, q_cached q, q_out q),
        l_tokens := Some (u_in usage, u_cached usage, u_out usage)\<rparr>"

text \<open>The token columns are INT; a larger count makes the statement fail.\<close>

definition tokens_fit :: "Usage \<Rightarrow> bool" where
  "tokens_fit u \<longleftrightarrow> u_in u \<le> 2147483647 \<and> u_cached u \<le> 2147483647 \<and> u_out u \<le> 2147483647"

definition settle_mark ::
  "EligiblePeerQuote \<Rightarrow> Usage \<Rightarrow> int64 \<Rightarrow> int64 \<Rightarrow> int64 \<Rightarrow> instant \<Rightarrow> Request \<Rightarrow> Request"
where
  "settle_mark q usage cost fee seller now r =
     r\<lparr>r_state := StateSettled, r_served_peer := q_peer_id q, r_served_seller := q_seller q,
       r_served_revision := q_revision q, r_served_in := q_in q, r_served_cached := q_cached q,
       r_served_out := q_out q, r_tok_in := u_in usage, r_tok_cached := u_cached usage,
       r_tok_out := u_out usage, r_cost_raw := cost, r_fee_raw := fee, r_seller_raw := seller,
       r_settled_at := Some now\<rparr>"

text \<open>The three balance moves, then the ledger legs.\<close>

definition settle_balances ::
  "db \<Rightarrow> Request \<Rightarrow> EligiblePeerQuote \<Rightarrow> int64 \<Rightarrow> int64 \<Rightarrow> int64 \<Rightarrow> instant \<Rightarrow> db res"
where
  "settle_balances db r q cost fee seller now =
     rbind (applyDelta db (r_buyer r) (- cost) (- r_reserved_raw r) now) (\<lambda>(db1, _, _).
     rbind (applyDelta db1 (q_seller q) seller 0 now) (\<lambda>(db2, _, _).
       if fee > 0 then rbind (applyDelta db2 TreasuryAccountID fee 0 now) (\<lambda>(db3, _, _). Inr db3)
       else Inr db2))"

definition settle_legs ::
  "db \<Rightarrow> Request \<Rightarrow> EligiblePeerQuote \<Rightarrow> Usage \<Rightarrow> int64 \<Rightarrow> int64 \<Rightarrow> int64 \<Rightarrow> instant \<Rightarrow> db res"
where
  "settle_legs db r q usage cost fee seller now =
     (if \<not> tokens_fit usage then Inl (ErrPg NumericOutOfRange)
      else rbind (unique_is_conflict (insert_ledger db
             (usage_leg (r_buyer r) (- cost) ''usage'' ''buyer'' (q_peer_id q) r q usage now))) (\<lambda>db1.
           rbind (unique_is_conflict (insert_ledger db1
             (usage_leg (q_seller q) seller ''earn'' ''seller'' (r_buyer r) r q usage now))) (\<lambda>db2.
             if fee > 0 then unique_is_conflict (insert_ledger db2
               (plain_leg TreasuryAccountID fee ''fee'' ''fee'' (r_buyer r) (r_request_id r) now))
             else Inr db2)))"

definition settle_tx ::
  "db \<Rightarrow> Request \<Rightarrow> string \<Rightarrow> Usage \<Rightarrow> int64 \<Rightarrow> instant \<Rightarrow> (db \<times> Request) res"
where
  "settle_tx db r peer usage feeBps now =
     (if r_state r \<noteq> StateReserved then Inr (db, r)
      else case findQuote (r_quotes r) peer of
        None \<Rightarrow> releaseLocked db r ''unknown_peer'' now
      | Some q \<Rightarrow>
          rbind (Cost (u_in usage) (u_cached usage) (u_out usage) (q_in q) (q_cached q) (q_out q)) (\<lambda>cost.
            if cost = 0 then releaseLocked db r ''zero_price'' now
            else rbind (Fee cost feeBps) (\<lambda>(fee, seller).
                 rbind (settle_balances db r q cost fee seller now) (\<lambda>db1.
                 rbind (settle_legs db1 r q usage cost fee seller now) (\<lambda>db2.
                   Inr (update_request db2 (r_request_id r) (settle_mark q usage cost fee seller now),
                        settle_mark q usage cost fee seller now r))))))"

definition SettleBilling ::
  "db \<Rightarrow> string \<Rightarrow> string \<Rightarrow> Usage \<Rightarrow> int64 \<Rightarrow> instant \<Rightarrow> instant \<Rightarrow> (db \<times> Request) res"
where
  "SettleBilling db rid peer usage feeBps now clock =
     rbind (scanBillingRequest db rid) (\<lambda>r. settle_tx db r peer usage feeBps (time_or_now clock now))"

section \<open>Recovery and reconciliation\<close>

fun sweep_loop :: "db \<Rightarrow> Request list \<Rightarrow> instant \<Rightarrow> (db \<times> string list) res" where
  "sweep_loop db [] now = Inr (db, [])"
| "sweep_loop db (p # batch) now =
     rbind (releaseLocked db p ''swept_stale'' now) (\<lambda>(db1, _).
     rbind (sweep_loop db1 batch now) (\<lambda>(db2, released). Inr (db2, r_request_id p # released)))"

text \<open>\<open>locked\<close> marks the rows other transactions hold, which SKIP LOCKED leaves out.\<close>

definition SweepStaleReservations ::
  "db \<Rightarrow> (string \<Rightarrow> bool) \<Rightarrow> instant \<Rightarrow> int64 \<Rightarrow> instant \<Rightarrow> (db \<times> string list) res"
where
  "SweepStaleReservations db locked before limit clock =
     (if before = zero_time then Inl ErrConflict
      else let lim = (if limit \<le> 0 \<or> limit > 1000 then 100 else limit);
               batch = take (nat lim) (sort_key r_reserved_at
                 (filter (\<lambda>r. r_state r = StateReserved \<and> r_reserved_at r < before \<and> \<not> locked (r_request_id r))
                   (requests db)))
           in sweep_loop db batch clock)"

definition ReconcileAccount :: "db \<Rightarrow> string \<Rightarrow> Reconciliation res" where
  "ReconcileAccount db a =
     (case find_row ac_account a (accounts db) of
        None \<Rightarrow> Inr \<lparr>rc_account = a, rc_credit = 0, rc_reserved = 0, rc_expected_credit = 0,
          rc_expected_reserved = 0, rc_ledger_rows = 0, rc_open_reservations = 0,
          rc_drift_credit = 0, rc_drift_reserved = 0, rc_invariant_held = True\<rparr>
      | Some row \<Rightarrow>
          let expectedCredit = ledger_sum db a;
              ledgerRows = int (length (filter (\<lambda>e. l_account e = a) (ledger db)));
              expectedReserved = open_reserved db a;
              openRes = int (length (filter (\<lambda>r. r_buyer r = a \<and> r_state r = StateReserved) (requests db)))
          in if \<not> in_int64 expectedCredit \<or> \<not> in_int64 expectedReserved then Inl (ErrPg NumericOutOfRange)
             else Inr \<lparr>rc_account = a, rc_credit = ac_credit row, rc_reserved = ac_reserved row,
               rc_expected_credit = expectedCredit, rc_expected_reserved = expectedReserved,
               rc_ledger_rows = ledgerRows, rc_open_reservations = openRes,
               rc_drift_credit = wrap64 (ac_credit row - expectedCredit),
               rc_drift_reserved = wrap64 (ac_reserved row - expectedReserved),
               rc_invariant_held = (ac_credit row \<ge> 0 \<and> ac_reserved row \<ge> 0 \<and> ac_reserved row \<le> ac_credit row)\<rparr>)"

section \<open>Invariant\<close>

definition requests_ok :: "db \<Rightarrow> bool" where
  "requests_ok db \<longleftrightarrow> keys_distinct r_request_id (requests db) \<and>
     list_all (\<lambda>r. 0 \<le> r_reserved_raw r) (requests db)"

definition is_settle_leg :: "LedgerEntry \<Rightarrow> bool" where
  "is_settle_leg e \<longleftrightarrow> l_leg e = ''buyer'' \<or> l_leg e = ''seller'' \<or> l_leg e = ''fee''"

definition settle_leg_names :: "string set" where
  "settle_leg_names = {''buyer'', ''seller'', ''fee''}"

text \<open>Settlement legs exist only for settled requests.\<close>

definition settle_legs_ok :: "db \<Rightarrow> bool" where
  "settle_legs_ok db \<longleftrightarrow> (\<forall>e \<in> set (ledger db). is_settle_leg e \<longrightarrow>
     (case find_row r_request_id (l_ref e) (requests db) of
        None \<Rightarrow> False | Some r \<Rightarrow> r_state r = StateSettled))"

text \<open>The reserved balance of every account is the sum of its open reservations.\<close>

definition reserved_backed :: "db \<Rightarrow> bool" where
  "reserved_backed db \<longleftrightarrow> (\<forall>a. reserved_of db a = open_reserved db a)"

definition billing_inv :: "db \<Rightarrow> bool" where
  "billing_inv db \<longleftrightarrow> accounts_ok db \<and> ledger_ok db \<and> requests_ok db \<and> settle_legs_ok db \<and> reserved_backed db"

text \<open>The billing operations stay within the credit books and append settlement legs only.\<close>

definition books_step :: "db \<Rightarrow> db \<Rightarrow> bool" where
  "books_step db db' \<longleftrightarrow> other_tables db' = other_tables db \<and> ledger_ext settle_leg_names db db'"

text \<open>A copy of an open reservation as it stands in the table.\<close>

definition open_row :: "db \<Rightarrow> Request \<Rightarrow> bool" where
  "open_row db r \<longleftrightarrow> find_row r_request_id (r_request_id r) (requests db) = Some r \<and> r_state r = StateReserved"

text \<open>The change of an account's credit by a settlement.\<close>

definition settle_move :: "Request \<Rightarrow> EligiblePeerQuote \<Rightarrow> int64 \<Rightarrow> int64 \<Rightarrow> int64 \<Rightarrow> string \<Rightarrow> int" where
  "settle_move r q cost fee seller a =
     (if a = r_buyer r then - cost else 0) + (if a = q_seller q then seller else 0) +
     (if a = TreasuryAccountID then fee else 0)"

text \<open>A buyer with 1000 units of which 390 are reserved for one open request.\<close>

definition demo_quote :: EligiblePeerQuote where
  "demo_quote = \<lparr>q_peer_id = ''p1'', q_seller = ''s1'', q_wallet = ''w1'', q_revision = 1,
     q_in = 3000000, q_cached = 1000000, q_out = 9000000\<rparr>"

definition demo_reservation :: Reservation where
  "demo_reservation = \<lparr>rv_request_id = ''r1'', rv_buyer = ''b1'', rv_service = ''llm'', rv_model = ''m'',
     rv_caps = \<lparr>cap_in = None, cap_cached = None, cap_out = None\<rparr>, rv_quotes = [demo_quote],
     rv_input_ceil = 100, rv_output_ceil = 10, rv_reserved_at = 5\<rparr>"

definition demo_funded :: db where
  "demo_funded = empty_db
     \<lparr>accounts := [(new_account ''b1'' 1)\<lparr>ac_credit := 1000\<rparr>],
      ledger := [(plain_leg ''b1'' 1000 ''deposit'' ''deposit'' [] ''sig'' 1)\<lparr>l_id := 1\<rparr>],
      next_ledger_id := 2\<rparr>"

definition demo_request :: Request where
  "demo_request = new_request demo_reservation 390 5"

definition demo_reserved :: db where
  "demo_reserved = demo_funded
     \<lparr>accounts := [(new_account ''b1'' 1)\<lparr>ac_credit := 1000, ac_reserved := 390, ac_updated_at := 5\<rparr>],
      requests := [demo_request]\<rparr>"

text \<open>The part of a reservation that runs once the free credit is known to suffice.\<close>

definition reserve_commit :: "db \<Rightarrow> Reservation \<Rightarrow> int64 \<Rightarrow> instant \<Rightarrow> AccountCredit \<Rightarrow> (db \<times> AccountCredit) res" where
  "reserve_commit db req m t row =
     rbind (insert_request db (new_request req m t)) (\<lambda>db2.
     rbind (if m > 0 then update_account db2 (rv_buyer req) (add_delta 0 m t) else Inr db2) (\<lambda>db3.
       Inr (db3, (new_account (rv_buyer req) t)
         \<lparr>ac_credit := ac_credit row, ac_reserved := wrap64 (ac_reserved row + m)\<rparr>)))"

section \<open>Lemmas on requests\<close>

lemma scan_open: "scanBillingRequest db rid = Inr r \<Longrightarrow> r_state r = StateReserved \<Longrightarrow> open_row db r \<and> r_request_id r = rid"
  by (auto simp: scanBillingRequest_def open_row_def dest: find_row_key split: option.splits)

lemma mark_ids [simp]:
  "r_request_id (release_mark reason now r) = r_request_id r"
  "r_request_id (settle_mark q u c f s now r) = r_request_id r"
  "r_state (release_mark reason now r) = StateReleased"
  "r_state (settle_mark q u c f s now r) = StateSettled"
  "r_buyer (release_mark reason now r) = r_buyer r"
  "r_buyer (settle_mark q u c f s now r) = r_buyer r"
  "r_reserved_raw (release_mark reason now r) = r_reserved_raw r"
  "r_reserved_raw (settle_mark q u c f s now r) = r_reserved_raw r"
  by (simp_all add: release_mark_def settle_mark_def)

lemma update_request_other [credit_simps]:
  "accounts (update_request db rid f) = accounts db" "ledger (update_request db rid f) = ledger db"
  "next_ledger_id (update_request db rid f) = next_ledger_id db"
  "allowances (update_request db rid f) = allowances db" "deposits (update_request db rid f) = deposits db"
  "deposit_cursors (update_request db rid f) = deposit_cursors db" "withdrawals (update_request db rid f) = withdrawals db"
  "settlements (update_request db rid f) = settlements db"
  "settlement_legs (update_request db rid f) = settlement_legs db" "settlement_cursors (update_request db rid f) = settlement_cursors db"
  "user_wallets (update_request db rid f) = user_wallets db"
  "next_withdrawal_id (update_request db rid f) = next_withdrawal_id db" "next_settlement_id (update_request db rid f) = next_settlement_id db"
  "credit_of (update_request db rid f) a = credit_of db a" "reserved_of (update_request db rid f) a = reserved_of db a"
  "ledger_sum (update_request db rid f) a = ledger_sum db a"
  by (simp_all add: update_request_def credit_of_def reserved_of_def ledger_sum_def)

lemma update_request_find:
  assumes "\<And>r. r_request_id (f r) = r_request_id r"
  shows "find_row r_request_id k (requests (update_request db rid f)) =
    (if k = rid then map_option f (find_row r_request_id rid (requests db)) else find_row r_request_id k (requests db))"
  using assms by (simp add: update_request_def find_row_update)

lemma update_request_ok:
  assumes "requests_ok db" and "\<And>r. r_request_id (f r) = r_request_id r" and "\<And>r. r_reserved_raw (f r) = r_reserved_raw r"
  shows "requests_ok (update_request db rid f)"
  using assms by (auto simp: requests_ok_def update_request_def keys_distinct_update list_all_iff
      dest!: set_update_row)

lemma close_open_reserved:
  assumes "requests_ok db" and "open_row db r" and "r_state (f r) \<noteq> StateReserved"
  shows "open_reserved (update_request db (r_request_id r) f) a =
    open_reserved db a - (if a = r_buyer r then r_reserved_raw r else 0)"
  using assms
  by (auto simp: open_reserved_def update_request_def requests_ok_def open_row_def sum_rows_update)

lemma open_row_le:
  assumes "requests_ok db" and "open_row db r"
  shows "0 \<le> r_reserved_raw r" and "r_reserved_raw r \<le> open_reserved db (r_buyer r)"
proof -
  have mem: "r \<in> set (requests db)" using assms(2) by (auto simp: open_row_def dest: find_row_mem)
  with assms(1) show "0 \<le> r_reserved_raw r" by (simp add: requests_ok_def list_all_iff)
  show "r_reserved_raw r \<le> open_reserved db (r_buyer r)"
    unfolding open_reserved_def using assms mem
    by (intro sum_rows_member_le) (auto simp: requests_ok_def list_all_iff open_row_def)
qed

lemma settle_legs_ok_mono:
  assumes "settle_legs_ok db"
    and "\<And>e. e \<in> set (ledger db') \<Longrightarrow> is_settle_leg e \<Longrightarrow> e \<in> set (ledger db) \<or> 
          (\<exists>r. find_row r_request_id (l_ref e) (requests db') = Some r \<and> r_state r = StateSettled)"
    and "\<And>k r. find_row r_request_id k (requests db) = Some r \<Longrightarrow> r_state r = StateSettled \<Longrightarrow>
          \<exists>r'. find_row r_request_id k (requests db') = Some r' \<and> r_state r' = StateSettled"
  shows "settle_legs_ok db'"
  unfolding settle_legs_ok_def
proof (intro ballI impI)
  fix e assume e: "e \<in> set (ledger db')" "is_settle_leg e"
  from assms(2) [OF e] show "case find_row r_request_id (l_ref e) (requests db') of
      None \<Rightarrow> False | Some r \<Rightarrow> r_state r = StateSettled"
  proof
    assume "e \<in> set (ledger db)"
    with assms(1) e(2) obtain r where "find_row r_request_id (l_ref e) (requests db) = Some r" "r_state r = StateSettled"
      by (force simp: settle_legs_ok_def split: option.splits)
    from assms(3) [OF this] show ?thesis by auto
  qed auto
qed

section \<open>Release keeps the books\<close>

text \<open>An open reservation can always be released; it returns the buyer's reserved amount and moves no credit.\<close>

lemma releaseLocked_open:
  assumes "billing_inv db" and "open_row db r"
  shows "\<exists>db'. releaseLocked db r reason now = Inr (db', release_mark reason now r)"
proof -
  have ok: "accounts_ok db" "requests_ok db" "reserved_of db (r_buyer r) = open_reserved db (r_buyer r)"
    using assms(1) by (auto simp: billing_inv_def reserved_backed_def)
  have "\<exists>db1. update_account db (r_buyer r) (add_delta 0 (- r_reserved_raw r) now) = Inr db1"
    using open_row_le [OF ok(2) assms(2)] accounts_ok_bounds [OF ok(1), of "r_buyer r"] ok(3)
    by (intro update_delta_succeeds [OF ok(1)]) simp_all
  then show ?thesis by (auto simp: releaseLocked_def)
qed

lemma releaseLocked_effect:
  assumes "billing_inv db" and "open_row db r" and "releaseLocked db r reason now = Inr (db', r')"
  shows "credit_of db' a = credit_of db a"
    and "reserved_of db' a = reserved_of db a - (if a = r_buyer r then r_reserved_raw r else 0)"
    and "ledger db' = ledger db" and "next_ledger_id db' = next_ledger_id db"
    and "requests db' = update_row r_request_id (r_request_id r) (release_mark reason now) (requests db)"
    and "accounts_ok db'"
proof -
  have ok: "accounts_ok db" "requests_ok db" "reserved_of db (r_buyer r) = open_reserved db (r_buyer r)"
    using assms(1) by (auto simp: billing_inv_def reserved_backed_def)
  note le = open_row_le [OF ok(2) assms(2)]
  from assms(3) obtain db1 where db': "db' = update_request db1 (r_request_id r) (release_mark reason now)"
    and db1: "if r_reserved_raw r > 0 then update_account db (r_buyer r) (add_delta 0 (- r_reserved_raw r) now) = Inr db1
              else db1 = db"
    by (auto simp: releaseLocked_def res_simps split: if_splits)
  have "credit_of db1 a = credit_of db a \<and>
    reserved_of db1 a = reserved_of db a - (if a = r_buyer r then r_reserved_raw r else 0) \<and>
    ledger db1 = ledger db \<and> next_ledger_id db1 = next_ledger_id db \<and> requests db1 = requests db \<and> accounts_ok db1"
  proof (cases "r_reserved_raw r > 0")
    case True
    with db1 have up: "update_account db (r_buyer r) (add_delta 0 (- r_reserved_raw r) now) = Inr db1" by simp
    obtain x where "find_row ac_account (r_buyer r) (accounts db) = Some x"
      using has_account_reserved [of db "r_buyer r"] True le ok(3) by auto
    from update_delta_balances [OF up this] update_account_other [OF up] update_account_ok [OF up ok(1)]
    show ?thesis by simp
  next
    case False
    with db1 le ok show ?thesis by simp
  qed
  then show "credit_of db' a = credit_of db a"
    and "reserved_of db' a = reserved_of db a - (if a = r_buyer r then r_reserved_raw r else 0)"
    and "ledger db' = ledger db" and "next_ledger_id db' = next_ledger_id db"
    and "requests db' = update_row r_request_id (r_request_id r) (release_mark reason now) (requests db)"
    and "accounts_ok db'"
    by (simp_all add: db' credit_simps accounts_ok_def) (simp add: update_request_def)
qed

text \<open>Closing an open row, one way or the other, keeps the invariant.\<close>

lemma close_keeps_inv:
  assumes inv: "billing_inv db" and op: "open_row db r"
    and f: "\<And>x. r_request_id (f x) = r_request_id x" "\<And>x. r_reserved_raw (f x) = r_reserved_raw x"
      "r_state (f r) \<noteq> StateReserved"
    and req: "requests db' = update_row r_request_id (r_request_id r) f (requests db)"
    and acc: "accounts_ok db'" and led: "ledger_ok db'"
    and res: "\<And>a. reserved_of db' a = reserved_of db a - (if a = r_buyer r then r_reserved_raw r else 0)"
    and legs: "\<And>e. e \<in> set (ledger db') \<Longrightarrow> is_settle_leg e \<Longrightarrow>
          e \<in> set (ledger db) \<or> l_ref e = r_request_id r \<and> r_state (f r) = StateSettled"
  shows "billing_inv db'"
proof -
  have req': "requests db' = requests (update_request db (r_request_id r) f)"
    using req by (simp add: update_request_def)
  have rok: "requests_ok db" and bk: "reserved_backed db" and sl: "settle_legs_ok db"
    using inv by (simp_all add: billing_inv_def)
  have row: "find_row r_request_id (r_request_id r) (requests db) = Some r" "r_state r = StateReserved"
    using op by (simp_all add: open_row_def)
  have fr: "find_row r_request_id k (requests db') =
      (if k = r_request_id r then Some (f r) else find_row r_request_id k (requests db))" for k
    using update_request_find [of f k db "r_request_id r"] f(1) row(1) req' by simp
  have "requests_ok db'"
    using update_request_ok [OF rok, of f "r_request_id r"] f(1,2) req' by (simp add: requests_ok_def)
  moreover have "reserved_backed db'"
    using close_open_reserved [OF rok op, of f] f(3) bk req' res by (simp add: reserved_backed_def open_reserved_def)
  moreover have "settle_legs_ok db'"
    using sl
  proof (rule settle_legs_ok_mono)
    fix e assume "e \<in> set (ledger db')" "is_settle_leg e"
    from legs [OF this] show "e \<in> set (ledger db) \<or>
        (\<exists>r. find_row r_request_id (l_ref e) (requests db') = Some r \<and> r_state r = StateSettled)"
      by (auto simp: fr)
  next
    fix k x assume "find_row r_request_id k (requests db) = Some x" "r_state x = StateSettled"
    with row show "\<exists>r'. find_row r_request_id k (requests db') = Some r' \<and> r_state r' = StateSettled"
      by (auto simp: fr)
  qed
  ultimately show ?thesis using acc led by (simp add: billing_inv_def)
qed

lemma releaseLocked_inv:
  assumes "billing_inv db" and "open_row db r" and "releaseLocked db r reason now = Inr (db', r')"
  shows "billing_inv db'"
proof (rule close_keeps_inv [OF assms(1,2), where f = "release_mark reason now"])
  note eff = releaseLocked_effect [OF assms]
  show "requests db' = update_row r_request_id (r_request_id r) (release_mark reason now) (requests db)"
    "accounts_ok db'" by (rule eff)+
  show "ledger_ok db'" using ledger_ok_cong [OF eff(3,4)] assms(1) by (simp add: billing_inv_def)
  show "reserved_of db' a = reserved_of db a - (if a = r_buyer r then r_reserved_raw r else 0)" for a
    by (rule eff)
  show "e \<in> set (ledger db) \<or> l_ref e = r_request_id r \<and> r_state (release_mark reason now r) = StateSettled"
    if "e \<in> set (ledger db')" for e using that eff(3) by simp
qed simp_all

section \<open>Settlement keeps the books\<close>

lemma settle_balancesE:
  assumes "settle_balances db r q cost fee seller now = Inr db'"
  obtains db1 db2 c1 c2 c3 c4 where
    "applyDelta db (r_buyer r) (- cost) (- r_reserved_raw r) now = Inr (db1, c1, c2)"
    and "applyDelta db1 (q_seller q) seller 0 now = Inr (db2, c3, c4)"
    and "if fee > 0 then \<exists>c5 c6. applyDelta db2 TreasuryAccountID fee 0 now = Inr (db', c5, c6) else db' = db2"
  using assms by (fastforce simp: settle_balances_def res_simps split: if_splits)

lemma settle_balances_effect:
  assumes "settle_balances db r q cost fee seller now = Inr db'" and "0 \<le> fee"
  shows "credit_of db' a = credit_of db a + settle_move r q cost fee seller a"
    and "reserved_of db' a = reserved_of db a - (if a = r_buyer r then r_reserved_raw r else 0)"
    and "ledger db' = ledger db" "next_ledger_id db' = next_ledger_id db" "requests db' = requests db"
    and "accounts_ok db \<Longrightarrow> accounts_ok db'"
proof -
  from assms(1) obtain db1 db2 c1 c2 c3 c4 where
    b: "applyDelta db (r_buyer r) (- cost) (- r_reserved_raw r) now = Inr (db1, c1, c2)"
    and s: "applyDelta db1 (q_seller q) seller 0 now = Inr (db2, c3, c4)"
    and t: "if fee > 0 then \<exists>c5 c6. applyDelta db2 TreasuryAccountID fee 0 now = Inr (db', c5, c6) else db' = db2"
    by (rule settle_balancesE)
  have "credit_of db2 a = credit_of db a + (if a = r_buyer r then - cost else 0) + (if a = q_seller q then seller else 0)"
    "reserved_of db2 a = reserved_of db a - (if a = r_buyer r then r_reserved_raw r else 0)"
    using applyDelta_credit [OF b, of a] applyDelta_credit [OF s, of a] by auto
  moreover have "ledger db2 = ledger db" "next_ledger_id db2 = next_ledger_id db" "requests db2 = requests db"
    using applyDelta_other [OF b] applyDelta_other [OF s] by simp_all
  moreover have "accounts_ok db \<Longrightarrow> accounts_ok db2"
    using applyDelta_ok [OF b] applyDelta_ok [OF s] by blast
  moreover have "credit_of db' a = credit_of db2 a + (if a = TreasuryAccountID then fee else 0) \<and>
      reserved_of db' a = reserved_of db2 a \<and> ledger db' = ledger db2 \<and>
      next_ledger_id db' = next_ledger_id db2 \<and> requests db' = requests db2 \<and> (accounts_ok db2 \<longrightarrow> accounts_ok db')"
  proof (cases "fee > 0")
    case True
    with t obtain c5 c6 where t': "applyDelta db2 TreasuryAccountID fee 0 now = Inr (db', c5, c6)" by auto
    show ?thesis using applyDelta_credit [OF t', of a] applyDelta_other [OF t'] applyDelta_ok [OF t'] by simp
  next
    case False
    with t assms(2) show ?thesis by simp
  qed
  ultimately show "credit_of db' a = credit_of db a + settle_move r q cost fee seller a"
    and "reserved_of db' a = reserved_of db a - (if a = r_buyer r then r_reserved_raw r else 0)"
    and "ledger db' = ledger db" "next_ledger_id db' = next_ledger_id db" "requests db' = requests db"
    and "accounts_ok db \<Longrightarrow> accounts_ok db'"
    by (simp_all add: settle_move_def)
qed

lemma unique_is_conflict_Inr [res_simps]: "unique_is_conflict x = Inr v \<longleftrightarrow> x = Inr v"
  by (cases x rule: unique_is_conflict.cases) simp_all

lemma usage_leg_fields [simp]:
  "l_account (usage_leg a d src leg cp r q u now) = a" "l_delta (usage_leg a d src leg cp r q u now) = d"
  "l_leg (usage_leg a d src leg cp r q u now) = leg" "l_ref (usage_leg a d src leg cp r q u now) = r_request_id r"
  by (simp_all add: usage_leg_def)

lemma settle_legsE:
  assumes "settle_legs db r q usage cost fee seller now = Inr db'"
  obtains db1 db2 where
    "insert_ledger db (usage_leg (r_buyer r) (- cost) ''usage'' ''buyer'' (q_peer_id q) r q usage now) = Inr db1"
    and "insert_ledger db1 (usage_leg (q_seller q) seller ''earn'' ''seller'' (r_buyer r) r q usage now) = Inr db2"
    and "if fee > 0 then insert_ledger db2
        (plain_leg TreasuryAccountID fee ''fee'' ''fee'' (r_buyer r) (r_request_id r) now) = Inr db' else db' = db2"
  using assms by (fastforce simp: settle_legs_def res_simps split: if_splits)

lemma settle_legs_effect:
  assumes "settle_legs db r q usage cost fee seller now = Inr db'" and "0 \<le> fee"
  shows "credit_of db' a = credit_of db a" "reserved_of db' a = reserved_of db a"
    and "accounts db' = accounts db" "requests db' = requests db"
    and "ledger_sum db' a = ledger_sum db a + settle_move r q cost fee seller a"
    and "ledger_ok db \<Longrightarrow> ledger_ok db'"
    and "e \<in> set (ledger db') \<Longrightarrow> e \<in> set (ledger db) \<or> l_ref e = r_request_id r"
proof -
  from assms(1) obtain db1 db2 where
    b: "insert_ledger db (usage_leg (r_buyer r) (- cost) ''usage'' ''buyer'' (q_peer_id q) r q usage now) = Inr db1"
    and s: "insert_ledger db1 (usage_leg (q_seller q) seller ''earn'' ''seller'' (r_buyer r) r q usage now) = Inr db2"
    and t: "if fee > 0 then insert_ledger db2
        (plain_leg TreasuryAccountID fee ''fee'' ''fee'' (r_buyer r) (r_request_id r) now) = Inr db' else db' = db2"
    by (rule settle_legsE)
  have two: "accounts db2 = accounts db" "requests db2 = requests db"
    "ledger_sum db2 a = ledger_sum db a + (if a = r_buyer r then - cost else 0) + (if a = q_seller q then seller else 0)"
    "ledger_ok db \<Longrightarrow> ledger_ok db2"
    "e \<in> set (ledger db2) \<Longrightarrow> e \<in> set (ledger db) \<or> l_ref e = r_request_id r"
    using insert_ledger_other [OF b] insert_ledger_other [OF s] insert_ledger_sum [OF b, of a] insert_ledger_sum [OF s, of a]
      insert_ledger_ok [OF b] insert_ledger_ok [OF s] insert_ledger_rows [OF b] insert_ledger_rows [OF s]
    by (auto simp: usage_leg_def)
  have "accounts db' = accounts db2 \<and> requests db' = requests db2 \<and>
    ledger_sum db' a = ledger_sum db2 a + (if a = TreasuryAccountID then fee else 0) \<and>
    (ledger_ok db2 \<longrightarrow> ledger_ok db') \<and> (e \<in> set (ledger db') \<longrightarrow> e \<in> set (ledger db2) \<or> l_ref e = r_request_id r)"
  proof (cases "fee > 0")
    case True
    with t have t': "insert_ledger db2 (plain_leg TreasuryAccountID fee ''fee'' ''fee'' (r_buyer r) (r_request_id r) now) = Inr db'"
      by simp
    show ?thesis
      using insert_ledger_other [OF t'] insert_ledger_sum [OF t', of a] insert_ledger_ok [OF t'] insert_ledger_rows [OF t']
      by (auto simp: plain_leg_def)
  next
    case False
    with t assms(2) show ?thesis by simp
  qed
  with two show "accounts db' = accounts db" "requests db' = requests db"
    and "ledger_sum db' a = ledger_sum db a + settle_move r q cost fee seller a"
    and "ledger_ok db \<Longrightarrow> ledger_ok db'"
    and "e \<in> set (ledger db') \<Longrightarrow> e \<in> set (ledger db) \<or> l_ref e = r_request_id r"
    by (auto simp: settle_move_def)
  then show "credit_of db' a = credit_of db a" "reserved_of db' a = reserved_of db a"
    by (simp_all add: credit_of_def reserved_of_def)
qed

lemma settle_balances_total:
  assumes "settle_balances db r q cost fee seller now = Inr db'" and "0 \<le> fee" and "accounts_ok db"
  shows "total_credit db' = total_credit db - cost + seller + fee"
proof -
  from assms(1) obtain db1 db2 c1 c2 c3 c4 where
    b: "applyDelta db (r_buyer r) (- cost) (- r_reserved_raw r) now = Inr (db1, c1, c2)"
    and s: "applyDelta db1 (q_seller q) seller 0 now = Inr (db2, c3, c4)"
    and t: "if fee > 0 then \<exists>c5 c6. applyDelta db2 TreasuryAccountID fee 0 now = Inr (db', c5, c6) else db' = db2"
    by (rule settle_balancesE)
  note ok1 = applyDelta_ok [OF b assms(3)]
  note ok2 = applyDelta_ok [OF s ok1]
  have "total_credit db2 = total_credit db - cost + seller"
    using applyDelta_total [OF b assms(3)] applyDelta_total [OF s ok1] by simp
  with t assms(2) show ?thesis
    by (cases "fee > 0") (auto dest: applyDelta_total [OF _ ok2])
qed

text \<open>The four ways a settlement of an open row can return.\<close>

lemma settle_tx_cases:
  assumes "settle_tx db r peer usage feeBps now = Inr (db', r')" and "r_state r = StateReserved"
  obtains (unknown) "findQuote (r_quotes r) peer = None" "releaseLocked db r ''unknown_peer'' now = Inr (db', r')"
  | (free) q where "findQuote (r_quotes r) peer = Some q"
      "Cost (u_in usage) (u_cached usage) (u_out usage) (q_in q) (q_cached q) (q_out q) = Inr 0"
      "releaseLocked db r ''zero_price'' now = Inr (db', r')"
  | (charge) q cost fee seller db1 db2 where "findQuote (r_quotes r) peer = Some q"
      "Cost (u_in usage) (u_cached usage) (u_out usage) (q_in q) (q_cached q) (q_out q) = Inr cost" "0 < cost"
      "Fee cost feeBps = Inr (fee, seller)" "0 \<le> fee" "0 \<le> seller" "fee + seller = cost"
      "settle_balances db r q cost fee seller now = Inr db1"
      "settle_legs db1 r q usage cost fee seller now = Inr db2"
      "db' = update_request db2 (r_request_id r) (settle_mark q usage cost fee seller now)"
      "r' = settle_mark q usage cost fee seller now r"
proof (cases "findQuote (r_quotes r) peer")
  case None
  with assms unknown show ?thesis by (simp add: settle_tx_def)
next
  case (Some q)
  with assms obtain cost where c: "Cost (u_in usage) (u_cached usage) (u_out usage) (q_in q) (q_cached q) (q_out q) = Inr cost"
    by (auto simp: settle_tx_def res_simps)
  show ?thesis
  proof (cases "cost = 0")
    case True
    with assms Some c free show ?thesis by (simp add: settle_tx_def)
  next
    case False
    obtain fee seller where fs: "Fee cost feeBps = Inr (fee, seller)" "fee + seller = cost" "0 \<le> fee" "0 \<le> seller"
      using Fee_exact [of cost feeBps] Cost_bounds [OF c] fee_share_bounds [of cost feeBps] by auto
    from False Cost_bounds [OF c] have "0 < cost" by simp
    with assms Some c fs False obtain db1 db2 where "settle_balances db r q cost fee seller now = Inr db1"
      "settle_legs db1 r q usage cost fee seller now = Inr db2"
      "db' = update_request db2 (r_request_id r) (settle_mark q usage cost fee seller now)"
      "r' = settle_mark q usage cost fee seller now r"
      by (auto simp: settle_tx_def res_simps)
    with charge Some c \<open>0 < cost\<close> fs show ?thesis by blast
  qed
qed

lemma releaseLocked_total:
  assumes "billing_inv db" and "open_row db r" and "releaseLocked db r reason now = Inr (db', r')"
  shows "total_credit db' = total_credit db"
proof (cases "r_reserved_raw r > 0")
  case True
  with assms(3) obtain db1 where db': "db' = update_request db1 (r_request_id r) (release_mark reason now)"
    and up: "update_account db (r_buyer r) (add_delta 0 (- r_reserved_raw r) now) = Inr db1"
    by (auto simp: releaseLocked_def res_simps)
  have ok: "accounts_ok db" "requests_ok db" "reserved_of db (r_buyer r) = open_reserved db (r_buyer r)"
    using assms(1) by (auto simp: billing_inv_def reserved_backed_def)
  obtain x where "find_row ac_account (r_buyer r) (accounts db) = Some x"
    using has_account_reserved [of db "r_buyer r"] True open_row_le [OF ok(2) assms(2)] ok(3) by auto
  from update_delta_total [OF up ok(1) this] show ?thesis
    by (simp add: db' total_credit_def credit_simps)
next
  case False
  with assms(3) show ?thesis by (auto simp: releaseLocked_def total_credit_def credit_simps)
qed

lemma releaseLocked_drift:
  assumes "billing_inv db" and "open_row db r" and "releaseLocked db r reason now = Inr (db', r')"
  shows "drift db' a = drift db a"
  using releaseLocked_effect(1,3) [OF assms] by (simp add: drift_def ledger_sum_def)

lemma charge_effect:
  assumes "billing_inv db" and "open_row db r" and "0 \<le> fee"
    and "settle_balances db r q cost fee seller now = Inr db1"
    and "settle_legs db1 r q usage cost fee seller now = Inr db2"
    and "db' = update_request db2 (r_request_id r) (settle_mark q usage cost fee seller now)"
  shows "billing_inv db'"
    and "credit_of db' a = credit_of db a + settle_move r q cost fee seller a"
    and "reserved_of db' a = reserved_of db a - (if a = r_buyer r then r_reserved_raw r else 0)"
    and "ledger_sum db' a = ledger_sum db a + settle_move r q cost fee seller a"
    and "total_credit db' = total_credit db - cost + seller + fee"
proof -
  note b = settle_balances_effect [OF assms(4,3)]
  note l = settle_legs_effect [OF assms(5,3)]
  have ok: "accounts_ok db" "ledger_ok db" using assms(1) by (simp_all add: billing_inv_def)
  show c: "credit_of db' a = credit_of db a + settle_move r q cost fee seller a" for a
    using b(1) l(1) by (simp add: assms(6) credit_simps)
  show rs: "reserved_of db' a = reserved_of db a - (if a = r_buyer r then r_reserved_raw r else 0)" for a
    using b(2) l(2) by (simp add: assms(6) credit_simps)
  show "ledger_sum db' a = ledger_sum db a + settle_move r q cost fee seller a"
    using l(5) b(3) by (simp add: assms(6) credit_simps ledger_sum_def [of db] ledger_sum_def [of db1])
  show "total_credit db' = total_credit db - cost + seller + fee"
    using settle_balances_total [OF assms(4,3) ok(1)] l(3) by (simp add: assms(6) total_credit_def credit_simps)
  show "billing_inv db'"
  proof (rule close_keeps_inv [OF assms(1,2), where f = "settle_mark q usage cost fee seller now"])
    show "requests db' = update_row r_request_id (r_request_id r) (settle_mark q usage cost fee seller now) (requests db)"
      using b(5) l(4) by (simp add: assms(6) update_request_def)
    show "accounts_ok db'" using b(6) [OF ok(1)] l(3) by (simp add: assms(6) accounts_ok_def credit_simps)
    show "ledger_ok db'"
      using l(6) ledger_ok_cong [OF b(3,4)] ok(2) by (simp add: assms(6) ledger_ok_def credit_simps)
    show "e \<in> set (ledger db) \<or> l_ref e = r_request_id r \<and>
        r_state (settle_mark q usage cost fee seller now r) = StateSettled"
      if "e \<in> set (ledger db')" for e using that l(7) b(3) by (simp add: assms(6) credit_simps)
  qed (simp_all add: rs)
qed

lemma settle_tx_sound:
  assumes "billing_inv db" and "open_row db r" and "settle_tx db r peer usage feeBps now = Inr (db', r')"
  shows "billing_inv db' \<and> total_credit db' = total_credit db \<and> (\<forall>a. drift db' a = drift db a)"
proof -
  have "r_state r = StateReserved" using assms(2) by (simp add: open_row_def)
  with assms(3) show ?thesis
  proof (cases rule: settle_tx_cases)
    case unknown
    then show ?thesis using releaseLocked_inv releaseLocked_total releaseLocked_drift assms(1,2) by blast
  next
    case (free q)
    then show ?thesis using releaseLocked_inv releaseLocked_total releaseLocked_drift assms(1,2) by blast
  next
    case (charge q cost fee seller db1 db2)
    note eff = charge_effect [OF assms(1,2) charge(5,8,9,10)]
    show ?thesis using eff charge(7) by (simp add: drift_def)
  qed
qed

lemma SettleBilling_inv:
  assumes "SettleBilling db rid peer u bps now clock = Inr (db', r')" and "billing_inv db"
  shows "billing_inv db' \<and> total_credit db' = total_credit db \<and> (\<forall>a. drift db' a = drift db a)"
proof -
  from assms(1) obtain r where r: "scanBillingRequest db rid = Inr r"
    and tx: "settle_tx db r peer u bps (time_or_now clock now) = Inr (db', r')"
    by (auto simp: SettleBilling_def res_simps)
  show ?thesis
  proof (cases "r_state r = StateReserved")
    case True
    with scan_open [OF r] settle_tx_sound [OF assms(2) _ tx] show ?thesis by blast
  next
    case False
    with tx assms(2) show ?thesis by (simp add: settle_tx_def)
  qed
qed

text \<open>
  C3 (a settlement keeps the books). Whatever branch it takes, a settlement that commits keeps the
  invariant of the billing tables, creates and destroys no credit, and leaves every account's
  credit exactly as far from the sum of its ledger movements as before.
\<close>

theorem SettleBilling_sound:
  assumes "billing_inv db" and "SettleBilling db rid peer usage feeBps now clock = Inr (db', r')"
  shows "billing_inv db' \<and> total_credit db' = total_credit db \<and> (\<forall>a. drift db' a = drift db a)"
  using SettleBilling_inv [OF assms(2,1)] .

lemma ReleaseBilling_sound:
  assumes "billing_inv db" and "ReleaseBilling db rid reason now clock = Inr (db', r')"
  shows "billing_inv db' \<and> total_credit db' = total_credit db \<and> (\<forall>a. drift db' a = drift db a)"
proof -
  from assms(2) obtain r where r: "scanBillingRequest db rid = Inr r"
    and tx: "release_tx db r reason (time_or_now clock now) = Inr (db', r')"
    by (auto simp: ReleaseBilling_def res_simps)
  show ?thesis
  proof (cases "r_state r = StateReserved")
    case True
    with scan_open [OF r] tx show ?thesis
      using releaseLocked_inv releaseLocked_total releaseLocked_drift assms(1) by (auto simp: release_tx_def)
  next
    case False
    with tx assms(1) show ?thesis by (simp add: release_tx_def)
  qed
qed

section \<open>A covered settlement succeeds\<close>

lemma findQuote_mem: "findQuote qs p = Some q \<Longrightarrow> q \<in> set qs"
  by (induction qs) (auto split: if_splits)

lemma settle_balances_succeeds:
  assumes "accounts_ok db" and "0 \<le> cost" and "cost \<le> r_reserved_raw r" and "r_reserved_raw r \<le> reserved_of db (r_buyer r)"
    and "0 \<le> fee" "0 \<le> seller" "fee + seller = cost"
    and "credit_of db (q_seller q) + cost \<le> max_int64" and "credit_of db TreasuryAccountID + cost \<le> max_int64"
  shows "\<exists>db'. settle_balances db r q cost fee seller now = Inr db'"
proof -
  note bb = accounts_ok_bounds [OF assms(1), of "r_buyer r"]
  obtain db1 x y where b: "applyDelta db (r_buyer r) (- cost) (- r_reserved_raw r) now = Inr (db1, x, y)"
    using applyDelta_succeeds [OF assms(1), of "r_buyer r" "- r_reserved_raw r" "- cost" now] bb assms(2-4) by auto
  note ok1 = applyDelta_ok [OF b assms(1)] and c1 = applyDelta_credit [OF b]
  obtain db2 x' y' where s: "applyDelta db1 (q_seller q) seller 0 now = Inr (db2, x', y')"
    using applyDelta_succeeds [OF ok1, of "q_seller q" 0 seller now] accounts_ok_bounds [OF ok1, of "q_seller q"]
      c1 [of "q_seller q"] assms(2,5-8) by (auto split: if_splits)
  note ok2 = applyDelta_ok [OF s ok1] and c2 = applyDelta_credit [OF s]
  have "\<exists>db3 x'' y''. applyDelta db2 TreasuryAccountID fee 0 now = Inr (db3, x'', y'')"
    using applyDelta_succeeds [OF ok2, of TreasuryAccountID 0 fee now] accounts_ok_bounds [OF ok2, of TreasuryAccountID]
      c1 [of TreasuryAccountID] c2 [of TreasuryAccountID] assms(2,5-9) by (auto split: if_splits)
  with b s show ?thesis by (auto simp: settle_balances_def)
qed

lemma settle_legs_fresh:
  assumes "settle_legs_ok db" and "open_row db r" and "e \<in> set (ledger db)" and "is_settle_leg e"
  shows "l_ref e \<noteq> r_request_id r"
  using assms by (force simp: settle_legs_ok_def open_row_def)

lemma settle_legs_succeeds:
  assumes "settle_legs_ok db" and "open_row db r" and "tokens_fit usage"
  shows "\<exists>db'. settle_legs db r q usage cost fee seller now = Inr db'"
proof -
  have fresh: "(r_request_id r, leg) \<notin> ledger_key ` set (ledger db)"
    if "leg = ''buyer'' \<or> leg = ''seller'' \<or> leg = ''fee''" for leg
    using settle_legs_fresh [OF assms(1,2)] that by (force simp: ledger_key_def is_settle_leg_def)
  show ?thesis using assms(3) fresh
    by (auto simp: settle_legs_def insert_ledger_def row_simps ledger_key_def usage_leg_def plain_leg_def)
qed

lemma settle_covered:
  assumes "billing_inv db" and "scanBillingRequest db rid = Inr r" and "r_state r = StateReserved"
    and "findQuote (r_quotes r) peer = Some q" and "tokens_fit u"
    and c: "Cost (u_in u) (u_cached u) (u_out u) (q_in q) (q_cached q) (q_out q) = Inr cost"
      "0 \<le> cost" "cost \<le> r_reserved_raw r"
    and f: "Fee cost feeBps = Inr (fee, seller)" "fee + seller = cost" "0 \<le> fee" "0 \<le> seller"
    and "credit_of db (q_seller q) + r_reserved_raw r \<le> max_int64"
    and "credit_of db TreasuryAccountID + r_reserved_raw r \<le> max_int64"
  shows "\<exists>db' r'. SettleBilling db rid peer u feeBps now clock = Inr (db', r') \<and> scanBillingRequest db' rid = Inr r' \<and>
    r_state r' = (if cost = 0 then StateReleased else StateSettled) \<and>
    (\<forall>a. credit_of db' a = credit_of db a + settle_move r q cost fee seller a \<and>
         reserved_of db' a = reserved_of db a - (if a = r_buyer r then r_reserved_raw r else 0))"
proof -
  define t where "t = time_or_now clock now"
  have op: "open_row db r" "r_request_id r = rid" using scan_open assms(2,3) by blast+
  have inv: "accounts_ok db" "requests_ok db" "settle_legs_ok db" "reserved_of db (r_buyer r) = open_reserved db (r_buyer r)"
    using assms(1) by (auto simp: billing_inv_def reserved_backed_def)
  show ?thesis
  proof (cases "cost = 0")
    case True
    from releaseLocked_open [OF assms(1) op(1), of "''zero_price''" t] obtain db'
      where rl: "releaseLocked db r ''zero_price'' t = Inr (db', release_mark ''zero_price'' t r)" by blast
    note eff = releaseLocked_effect [OF assms(1) op(1) rl]
    have "SettleBilling db rid peer u feeBps now clock = Inr (db', release_mark ''zero_price'' t r)"
      using assms(2,3,4) c(1) True rl by (simp add: SettleBilling_def settle_tx_def t_def)
    moreover have "scanBillingRequest db' rid = Inr (release_mark ''zero_price'' t r)"
      using op eff(5) by (simp add: scanBillingRequest_def find_row_update open_row_def)
    moreover have "settle_move r q cost fee seller a = 0" for a using True f by (auto simp: settle_move_def)
    ultimately show ?thesis using True eff(1,2) by simp
  next
    case False
    obtain db1 where b: "settle_balances db r q cost fee seller t = Inr db1"
      using settle_balances_succeeds [OF inv(1) c(2,3) _ f(3,4,2), of q t] open_row_le [OF inv(2) op(1)] inv(4)
        c(2,3) assms(13,14) by auto
    note be = settle_balances_effect [OF b f(3)]
    have "settle_legs_ok db1" "open_row db1 r"
      using inv(3) op(1) be(3,5) by (simp_all add: settle_legs_ok_def open_row_def)
    from settle_legs_succeeds [OF this assms(5)] obtain db2
      where l: "settle_legs db1 r q u cost fee seller t = Inr db2" by blast
    define db' where "db' = update_request db2 rid (settle_mark q u cost fee seller t)"
    note eff = charge_effect [OF assms(1) op(1) f(3) b l db'_def [folded op(2)]]
    have "SettleBilling db rid peer u feeBps now clock = Inr (db', settle_mark q u cost fee seller t r)"
      using assms(2,3,4) c(1) False f(1) b l op(2) by (simp add: SettleBilling_def settle_tx_def t_def db'_def)
    moreover have "scanBillingRequest db' rid = Inr (settle_mark q u cost fee seller t r)"
      using op be(5) settle_legs_effect(4) [OF l f(3)]
      by (simp add: scanBillingRequest_def db'_def update_request_find open_row_def)
    ultimately show ?thesis using False eff(2,3) by simp
  qed
qed

text \<open>
  C2 (a covered settlement charges exactly the cost). Take an open reservation whose amount was sized by
  \<^verbatim>\<open>ReserveAmount\<close> for the given ceilings, a served peer of its snapshot and a usage within the
  ceilings. Settling it commits: the charge is the exact cost and at most the reservation; when it
  is positive the buyer pays it, the seller and the treasury receive their shares of it, the whole
  reservation is freed, and every other account is untouched; when it is zero the reservation is
  released. The only assumptions on the other accounts are that the sum fits BIGINT.
\<close>

theorem SettleBilling_charges:
  assumes "billing_inv db" and "scanBillingRequest db rid = Inr r" and "r_state r = StateReserved"
    and "findQuote (r_quotes r) peer = Some q" and "rates_ok q"
    and "ReserveAmount (r_quotes r) ic oc = Inr (r_reserved_raw r)" and "in_int64 ic" "in_int64 oc"
    and "0 \<le> u_in u" "0 \<le> u_cached u" "0 \<le> u_out u" "u_in u + u_cached u \<le> ic" "u_out u \<le> oc" and "tokens_fit u"
    and "credit_of db (q_seller q) + r_reserved_raw r \<le> max_int64"
    and "credit_of db TreasuryAccountID + r_reserved_raw r \<le> max_int64"
  shows "\<exists>cost fee seller db' r'. Cost (u_in u) (u_cached u) (u_out u) (q_in q) (q_cached q) (q_out q) = Inr cost \<and>
    0 \<le> cost \<and> cost \<le> r_reserved_raw r \<and> Fee cost feeBps = Inr (fee, seller) \<and> fee + seller = cost \<and>
    SettleBilling db rid peer u feeBps now clock = Inr (db', r') \<and>
    scanBillingRequest db' rid = Inr r' \<and>
    r_state r' = (if cost = 0 then StateReleased else StateSettled) \<and>
    (\<forall>a. credit_of db' a = credit_of db a + settle_move r q cost fee seller a \<and>
         reserved_of db' a = reserved_of db a - (if a = r_buyer r then r_reserved_raw r else 0))"
proof -
  have "q \<in> set (r_quotes r)" using assms(4) by (rule findQuote_mem)
  then obtain cost where c: "Cost (u_in u) (u_cached u) (u_out u) (q_in q) (q_cached q) (q_out q) = Inr cost"
      "0 \<le> cost" "cost \<le> r_reserved_raw r"
    using ReserveAmount_bound [OF assms(6) _ assms(5)] assms(7-13) by blast
  obtain fee seller where f: "Fee cost feeBps = Inr (fee, seller)" "fee + seller = cost" "0 \<le> fee" "0 \<le> seller"
    using Fee_exact [of cost feeBps] Cost_bounds [OF c(1)] fee_share_bounds [of cost feeBps] by auto
  from settle_covered [OF assms(1-4,14) c f assms(15,16), of now clock] c f(1,2) show ?thesis by blast
qed

lemma reserved_backed_demo: "reserved_backed demo_reserved" "reserved_backed demo_funded"
  by (simp_all add: reserved_backed_def demo_reserved_def demo_funded_def demo_request_def new_request_def
      demo_reservation_def reserved_of_def open_reserved_def row_simps new_account_def empty_db_def)

lemma demo_inv: "billing_inv demo_reserved" "billing_inv demo_funded"
proof -
  have "accounts_ok demo_reserved \<and> ledger_ok demo_reserved \<and> requests_ok demo_reserved \<and> settle_legs_ok demo_reserved"
    by code_simp
  then show "billing_inv demo_reserved" by (simp add: billing_inv_def reserved_backed_demo)
  have "accounts_ok demo_funded \<and> ledger_ok demo_funded \<and> requests_ok demo_funded \<and> settle_legs_ok demo_funded"
    by code_simp
  then show "billing_inv demo_funded" by (simp add: billing_inv_def reserved_backed_demo)
qed

theorem SettleBilling_sound_witness:
  "\<exists>db' r'. SettleBilling demo_reserved ''r1'' ''p1'' \<lparr>u_in = 40, u_cached = 20, u_out = 10\<rparr> 250 7 9 = Inr (db', r') \<and>
     r_state r' = StateSettled \<and> billing_inv db' \<and> total_credit db' = 1000 \<and> (\<forall>a. drift db' a = drift demo_reserved a)"
proof -
  have run: "case SettleBilling demo_reserved ''r1'' ''p1'' \<lparr>u_in = 40, u_cached = 20, u_out = 10\<rparr> 250 7 9 of
      Inr (db', r') \<Rightarrow> r_state r' = StateSettled | Inl _ \<Rightarrow> False" by code_simp
  moreover have "total_credit demo_reserved = 1000" by code_simp
  ultimately show ?thesis
    using SettleBilling_sound [OF demo_inv(1), of "''r1''" "''p1''" "\<lparr>u_in = 40, u_cached = 20, u_out = 10\<rparr>" 250 7 9]
    by (auto split: sum.splits)
qed

theorem SettleBilling_charges_witness:
  "\<exists>cost fee seller db' r'. Cost 40 20 10 3000000 1000000 9000000 = Inr cost \<and>
    0 \<le> cost \<and> cost \<le> 390 \<and> Fee cost 250 = Inr (fee, seller) \<and> fee + seller = cost \<and>
    SettleBilling demo_reserved ''r1'' ''p1'' \<lparr>u_in = 40, u_cached = 20, u_out = 10\<rparr> 250 7 9 = Inr (db', r') \<and>
    scanBillingRequest db' ''r1'' = Inr r' \<and>
    r_state r' = (if cost = 0 then StateReleased else StateSettled) \<and>
    (\<forall>a. credit_of db' a = credit_of demo_reserved a + settle_move demo_request demo_quote cost fee seller a \<and>
         reserved_of db' a = reserved_of demo_reserved a - (if a = ''b1'' then 390 else 0))"
proof -
  have f: "scanBillingRequest demo_reserved ''r1'' = Inr demo_request" "r_state demo_request = StateReserved"
    "findQuote (r_quotes demo_request) ''p1'' = Some demo_quote" "rates_ok demo_quote"
    "ReserveAmount (r_quotes demo_request) 100 10 = Inr (r_reserved_raw demo_request)"
    "tokens_fit \<lparr>u_in = 40, u_cached = 20, u_out = 10\<rparr>"
    "credit_of demo_reserved (q_seller demo_quote) + r_reserved_raw demo_request \<le> max_int64"
    "credit_of demo_reserved TreasuryAccountID + r_reserved_raw demo_request \<le> max_int64"
    "r_reserved_raw demo_request = 390" "r_buyer demo_request = ''b1''"
    "q_in demo_quote = 3000000" "q_cached demo_quote = 1000000" "q_out demo_quote = 9000000"
    by code_simp+
  show ?thesis
    using SettleBilling_charges [OF demo_inv(1) f(1-5) _ _ _ _ _ _ _ f(6-8), of 250 7 9]
    by (simp add: in_int64_def f(9-) cong: if_cong split del: if_split)
qed

section \<open>Reservation and recovery\<close>

lemma ReserveAmount_nonneg: "ReserveAmount qs ic oc = Inr m \<Longrightarrow> 0 \<le> m"
  by (auto simp: ReserveAmount_def dest: reserve_loop_ge)

lemma ensure_account_row:
  obtains row where "find_row ac_account a (accounts (ensure_account db a now)) = Some row"
    and "ac_credit row = credit_of db a" and "ac_reserved row = reserved_of db a"
proof (cases "find_row ac_account a (accounts db)")
  case None
  then show ?thesis
    using that [of "new_account a now"]
    by (simp add: ensure_account_find credit_of_def reserved_of_def new_account_def)
next
  case (Some row)
  then show ?thesis using that [of row] by (simp add: ensure_account_find credit_of_def reserved_of_def)
qed

text \<open>What the reservation check compares the reserve with.\<close>

lemma reserve_available_exact:
  assumes "accounts_ok db"
  shows "reserve_available (credit_of db a) (reserved_of db a) s =
    (if 0 < s then min s (credit_of db a - reserved_of db a) else credit_of db a - reserved_of db a)"
proof -
  have "wrap64 (credit_of db a - reserved_of db a) = credit_of db a - reserved_of db a"
    using accounts_ok_bounds [OF assms, of a] by (intro wrap64_id) (simp add: in_int64_def)
  then show ?thesis by (simp add: reserve_available_def Let_def)
qed

text \<open>Opening a row and bumping the buyer's reserved balance keeps the invariant.\<close>

lemma open_keeps_inv:
  assumes "billing_inv db" and "r_request_id r \<notin> r_request_id ` set (requests db)"
    and "r_state r = StateReserved" and "0 \<le> r_reserved_raw r"
    and "requests db' = requests db @ [r]" and "ledger db' = ledger db" "next_ledger_id db' = next_ledger_id db"
    and "accounts_ok db'"
    and "\<And>a. reserved_of db' a = reserved_of db a + (if a = r_buyer r then r_reserved_raw r else 0)"
  shows "billing_inv db'"
proof -
  have "requests_ok db'" using assms(1,2,4,5) by (simp add: billing_inv_def requests_ok_def row_simps)
  moreover have "reserved_backed db'"
    using assms(1,3,5,9) by (auto simp: billing_inv_def reserved_backed_def open_reserved_def row_simps)
  moreover have "settle_legs_ok db'"
    using assms(1,5,6) by (auto simp: billing_inv_def settle_legs_ok_def row_simps split: option.splits)
  moreover have "ledger_ok db'" using assms(1) ledger_ok_cong [OF assms(6,7)] by (simp add: billing_inv_def)
  ultimately show ?thesis using assms(8) by (simp add: billing_inv_def)
qed

lemma bump_reserved:
  assumes "accounts_ok db" and "find_row ac_account a (accounts db) = Some row" and "0 \<le> m"
    and "reserved_of db a + m \<le> credit_of db a"
  shows "\<exists>db'. (if m > 0 then update_account db a (add_delta 0 m now) else Inr db) = Inr db' \<and>
    accounts_ok db' \<and> requests db' = requests db \<and> ledger db' = ledger db \<and>
    next_ledger_id db' = next_ledger_id db \<and>
    (\<forall>b. credit_of db' b = credit_of db b \<and> reserved_of db' b = reserved_of db b + (if b = a then m else 0))"
proof (cases "m > 0")
  case True
  obtain db' where up: "update_account db a (add_delta 0 m now) = Inr db'"
    using update_delta_succeeds [OF assms(1), of a m 0 now] accounts_ok_bounds [OF assms(1), of a] assms(3,4) by auto
  show ?thesis
    using update_delta_balances [OF up assms(2)] update_account_other [OF up] update_account_ok [OF up assms(1)] up True
    by simp
next
  case False
  with assms show ?thesis by simp
qed

lemma ReserveBilling_unfold:
  assumes "rv_request_id req \<noteq> []" "rv_buyer req \<noteq> []" "rv_quotes req \<noteq> []"
    and "check_quotes (rv_quotes req) = Inr ()"
    and "ReserveAmount (rv_quotes req) (rv_input_ceil req) (rv_output_ceil req) = Inr m"
    and "sumActiveAllowances db (rv_buyer req) = Inr s"
  obtains row t where "t = time_or_now clock (rv_reserved_at req)"
    and "find_row ac_account (rv_buyer req) (accounts (ensure_account db (rv_buyer req) t)) = Some row"
    and "ReserveBilling db req clock =
      (if reserve_available (credit_of db (rv_buyer req)) (reserved_of db (rv_buyer req)) s < m
       then Inl ErrInsufficientCredit
       else reserve_commit (ensure_account db (rv_buyer req) t) req m t row)"
proof -
  define t where "t = time_or_now clock (rv_reserved_at req)"
  obtain row where row: "find_row ac_account (rv_buyer req) (accounts (ensure_account db (rv_buyer req) t)) = Some row"
      "ac_credit row = credit_of db (rv_buyer req)" "ac_reserved row = reserved_of db (rv_buyer req)"
    using ensure_account_row by metis
  have "sumActiveAllowances (ensure_account db (rv_buyer req) t) (rv_buyer req) = Inr s"
    using assms(6) by (simp add: sumActiveAllowances_def credit_simps)
  with assms(1-5) row have "ReserveBilling db req clock =
      (if reserve_available (credit_of db (rv_buyer req)) (reserved_of db (rv_buyer req)) s < m
       then Inl ErrInsufficientCredit
       else reserve_commit (ensure_account db (rv_buyer req) t) req m t row)"
    by (simp add: ReserveBilling_def AccountCredit_get_def reserve_commit_def Let_def t_def cong: if_cong)
  with row(1) t_def that show ?thesis by blast
qed

lemma reserve_commit_fresh:
  assumes "billing_inv db" and "rv_request_id req \<notin> r_request_id ` set (requests db)" and "0 \<le> m"
    and "reserved_of db (rv_buyer req) + m \<le> credit_of db (rv_buyer req)"
    and "find_row ac_account (rv_buyer req) (accounts (ensure_account db (rv_buyer req) t)) = Some row"
  shows "\<exists>db' c. reserve_commit (ensure_account db (rv_buyer req) t) req m t row = Inr (db', c) \<and> billing_inv db' \<and>
    requests db' = requests db @ [new_request req m t] \<and>
    (\<forall>a. credit_of db' a = credit_of db a \<and> ledger_sum db' a = ledger_sum db a \<and>
         reserved_of db' a = reserved_of db a + (if a = rv_buyer req then m else 0))"
proof -
  define db1 where "db1 = ensure_account db (rv_buyer req) t"
  define r where "r = new_request req m t"
  define db2 where "db2 = db1\<lparr>requests := requests db1 @ [r]\<rparr>"
  have aok: "accounts_ok db" using assms(1) by (simp add: billing_inv_def)
  have ins: "insert_request db1 r = Inr db2"
    using assms(2,3) by (simp add: insert_request_def r_def new_request_def db1_def db2_def credit_simps row_simps)
  have bal: "credit_of db2 a = credit_of db a" "reserved_of db2 a = reserved_of db a" for a
    using ensure_account_balances [of db "rv_buyer req" t a]
    by (simp_all add: db2_def db1_def credit_of_def reserved_of_def)
  have ok2: "accounts_ok db2" using ensure_account_ok [OF aok] by (simp add: db2_def db1_def accounts_ok_def)
  have row2: "find_row ac_account (rv_buyer req) (accounts db2) = Some row"
    using assms(5) by (simp add: db2_def db1_def)
  from bump_reserved [OF ok2 row2 assms(3), of t] assms(4) obtain db3 where
    up: "(if m > 0 then update_account db2 (rv_buyer req) (add_delta 0 m t) else Inr db2) = Inr db3"
    and db3: "accounts_ok db3" "requests db3 = requests db @ [r]" "ledger db3 = ledger db"
      "next_ledger_id db3 = next_ledger_id db" "\<And>a. credit_of db3 a = credit_of db a"
      "\<And>a. reserved_of db3 a = reserved_of db a + (if a = rv_buyer req then m else 0)"
    using bal by (auto simp: db2_def db1_def credit_simps)
  have "billing_inv db3"
    using assms(1,2,3) db3 by (intro open_keeps_inv [of db r db3]) (simp_all add: r_def new_request_def)
  with ins up db3 show ?thesis
    by (simp add: reserve_commit_def ledger_sum_def flip: r_def db1_def)
qed

text \<open>
  C4 (a reservation holds credit or is refused). For a well-formed payload whose reserve was computed,
  \<^verbatim>\<open>ReserveBilling\<close> refuses with ErrInsufficientCredit exactly when the free credit (or the
  active delegations, when there are any and they are smaller) is below the reserve, refuses a
  known request id with ErrConflict, and otherwise commits: the buyer's reserved balance grows by the
  reserve, no credit moves, the open row holds the quote snapshot, and the invariant is kept.
\<close>

theorem ReserveBilling_correct:
  assumes "billing_inv db" and "rv_request_id req \<noteq> []" "rv_buyer req \<noteq> []" "rv_quotes req \<noteq> []"
    and "check_quotes (rv_quotes req) = Inr ()"
    and "ReserveAmount (rv_quotes req) (rv_input_ceil req) (rv_output_ceil req) = Inr m"
    and "sumActiveAllowances db (rv_buyer req) = Inr s"
  shows "if (if 0 < s then min s (credit_of db (rv_buyer req) - reserved_of db (rv_buyer req))
             else credit_of db (rv_buyer req) - reserved_of db (rv_buyer req)) < m
         then ReserveBilling db req clock = Inl ErrInsufficientCredit
         else if has_row r_request_id (rv_request_id req) (requests db)
         then ReserveBilling db req clock = Inl ErrConflict
         else \<exists>db' c. ReserveBilling db req clock = Inr (db', c) \<and> billing_inv db' \<and>
           requests db' = requests db @ [new_request req m (time_or_now clock (rv_reserved_at req))] \<and>
           (\<forall>a. credit_of db' a = credit_of db a \<and> ledger_sum db' a = ledger_sum db a \<and>
                reserved_of db' a = reserved_of db a + (if a = rv_buyer req then m else 0))"
proof -
  from ReserveBilling_unfold [OF assms(2-7), of clock] obtain row t where t: "t = time_or_now clock (rv_reserved_at req)"
    and row: "find_row ac_account (rv_buyer req) (accounts (ensure_account db (rv_buyer req) t)) = Some row"
    and unf: "ReserveBilling db req clock =
      (if reserve_available (credit_of db (rv_buyer req)) (reserved_of db (rv_buyer req)) s < m
       then Inl ErrInsufficientCredit else reserve_commit (ensure_account db (rv_buyer req) t) req m t row)"
    by metis
  have m: "0 \<le> m" using assms(6) by (rule ReserveAmount_nonneg)
  have av: "reserve_available (credit_of db (rv_buyer req)) (reserved_of db (rv_buyer req)) s =
      (if 0 < s then min s (credit_of db (rv_buyer req) - reserved_of db (rv_buyer req))
       else credit_of db (rv_buyer req) - reserved_of db (rv_buyer req))"
    using assms(1) by (intro reserve_available_exact) (simp add: billing_inv_def)
  show ?thesis
  proof (cases "has_row r_request_id (rv_request_id req) (requests db)")
    case True
    then have "reserve_commit (ensure_account db (rv_buyer req) t) req m t row = Inl ErrConflict"
      by (simp add: reserve_commit_def insert_request_def new_request_def credit_simps)
    with unf True show ?thesis unfolding av [symmetric] by simp
  next
    case False
    then have fresh: "rv_request_id req \<notin> r_request_id ` set (requests db)" by (simp add: row_simps)
    show ?thesis
    proof (cases "reserve_available (credit_of db (rv_buyer req)) (reserved_of db (rv_buyer req)) s < m")
      case True
      with unf show ?thesis unfolding av [symmetric] by simp
    next
      case enough: False
      with av have "reserved_of db (rv_buyer req) + m \<le> credit_of db (rv_buyer req)" by (simp split: if_splits)
      from reserve_commit_fresh [OF assms(1) fresh m this row] unf enough False show ?thesis
        unfolding av [symmetric] by (simp add: t)
    qed
  qed
qed

theorem ReserveBilling_correct_witness:
  "\<exists>db' c. ReserveBilling demo_funded demo_reservation 9 = Inr (db', c) \<and> billing_inv db' \<and>
     requests db' = [demo_request] \<and> reserved_of db' ''b1'' = 390"
proof -
  have f: "rv_request_id demo_reservation \<noteq> []" "rv_buyer demo_reservation \<noteq> []" "rv_quotes demo_reservation \<noteq> []"
    "check_quotes (rv_quotes demo_reservation) = Inr ()"
    "ReserveAmount (rv_quotes demo_reservation) (rv_input_ceil demo_reservation) (rv_output_ceil demo_reservation) = Inr 390"
    "sumActiveAllowances demo_funded (rv_buyer demo_reservation) = Inr 0"
    by code_simp+
  have g: "rv_buyer demo_reservation = ''b1''" "credit_of demo_funded ''b1'' = 1000" "reserved_of demo_funded ''b1'' = 0"
    "\<not> has_row r_request_id (rv_request_id demo_reservation) (requests demo_funded)" "requests demo_funded = []"
    "new_request demo_reservation 390 (time_or_now 9 (rv_reserved_at demo_reservation)) = demo_request"
    by code_simp+
  show ?thesis using ReserveBilling_correct [OF demo_inv(2) f, of 9] by (auto simp: g row_simps cong: if_cong)
qed

lemma sweep_loop_correct:
  "billing_inv db \<Longrightarrow> distinct (map r_request_id batch) \<Longrightarrow> \<forall>p \<in> set batch. open_row db p \<Longrightarrow>
   \<exists>db'. sweep_loop db batch now = Inr (db', map r_request_id batch) \<and> billing_inv db' \<and> ledger db' = ledger db \<and>
     (\<forall>a. credit_of db' a = credit_of db a) \<and>
     (\<forall>k. find_row r_request_id k (requests db') =
        (if k \<in> r_request_id ` set batch then map_option (release_mark ''swept_stale'' now) (find_row r_request_id k (requests db))
         else find_row r_request_id k (requests db)))"
proof (induction batch arbitrary: db)
  case Nil
  then show ?case by simp
next
  case (Cons p batch)
  have op: "open_row db p" using Cons.prems(3) by simp
  obtain db1 where rl: "releaseLocked db p ''swept_stale'' now = Inr (db1, release_mark ''swept_stale'' now p)"
    using releaseLocked_open [OF Cons.prems(1) op] by blast
  note eff = releaseLocked_effect [OF Cons.prems(1) op rl]
  have fr: "find_row r_request_id k (requests db1) =
      (if k = r_request_id p then map_option (release_mark ''swept_stale'' now) (find_row r_request_id k (requests db))
       else find_row r_request_id k (requests db))" for k
    by (simp add: eff(5) find_row_update)
  have "\<forall>x \<in> set batch. open_row db1 x"
  proof
    fix x assume x: "x \<in> set batch"
    with Cons.prems(2) have "r_request_id x \<noteq> r_request_id p" by (force simp: image_iff)
    with x Cons.prems(3) show "open_row db1 x" by (simp add: open_row_def fr)
  qed
  with Cons.IH [OF releaseLocked_inv [OF Cons.prems(1) op rl]] Cons.prems(2) obtain db' where
    "sweep_loop db1 batch now = Inr (db', map r_request_id batch)" "billing_inv db'" "ledger db' = ledger db1"
    "\<And>a. credit_of db' a = credit_of db1 a"
    "\<And>k. find_row r_request_id k (requests db') =
        (if k \<in> r_request_id ` set batch then map_option (release_mark ''swept_stale'' now) (find_row r_request_id k (requests db1))
         else find_row r_request_id k (requests db1))"
    by auto
  with rl eff(1,3) fr Cons.prems(2) show ?case by simp
qed

text \<open>The batch a sweep selects.\<close>

lemma sweep_batch:
  fixes before :: instant and locked :: "string \<Rightarrow> bool"
  assumes "requests_ok db"
  defines "stale \<equiv> filter (\<lambda>r. r_state r = StateReserved \<and> r_reserved_at r < before \<and> \<not> locked (r_request_id r)) (requests db)"
  shows "distinct (map r_request_id (take n (sort_key r_reserved_at stale)))"
    and "\<forall>p \<in> set (take n (sort_key r_reserved_at stale)). open_row db p"
proof -
  have "distinct (map r_request_id stale)"
    using assms(1) by (simp add: stale_def requests_ok_def keys_distinct_def distinct_map_filter)
  then have "distinct (map r_request_id (sort_key r_reserved_at stale))"
    by (simp add: distinct_map)
  then show "distinct (map r_request_id (take n (sort_key r_reserved_at stale)))"
    by (simp add: take_map [symmetric])
  show "\<forall>p \<in> set (take n (sort_key r_reserved_at stale)). open_row db p"
    using assms(1) by (auto simp: stale_def open_row_def requests_ok_def dest!: in_set_takeD intro: find_row_distinct)
qed

text \<open>
  C35 (a sweep frees exactly the stale reservations). The recovery job never fails on consistent tables: it
  releases the oldest open requests reserved before the cutoff that no other transaction holds, up
  to its limit, returns their ids, leaves every other request as it was, moves no credit, writes no
  ledger row, and keeps the invariant.
\<close>

theorem SweepStaleReservations_correct:
  assumes "billing_inv db" and "before \<noteq> zero_time" and "0 < limit" "limit \<le> 1000"
  shows "\<exists>db' batch. SweepStaleReservations db locked before limit clock = Inr (db', map r_request_id batch) \<and>
    batch = take (nat limit) (sort_key r_reserved_at
      (filter (\<lambda>r. r_state r = StateReserved \<and> r_reserved_at r < before \<and> \<not> locked (r_request_id r)) (requests db))) \<and>
    billing_inv db' \<and> ledger db' = ledger db \<and> (\<forall>a. credit_of db' a = credit_of db a) \<and>
    (\<forall>k. find_row r_request_id k (requests db') =
       (if k \<in> r_request_id ` set batch then map_option (release_mark ''swept_stale'' clock) (find_row r_request_id k (requests db))
        else find_row r_request_id k (requests db)))"
proof -
  define batch where "batch = take (nat limit) (sort_key r_reserved_at
      (filter (\<lambda>r. r_state r = StateReserved \<and> r_reserved_at r < before \<and> \<not> locked (r_request_id r)) (requests db)))"
  have "requests_ok db" using assms(1) by (simp add: billing_inv_def)
  from sweep_loop_correct [OF assms(1) sweep_batch [OF this, where locked = locked and before = before and n = "nat limit"], of clock]
  show ?thesis using assms(2-4) by (simp add: SweepStaleReservations_def Let_def)
qed

theorem SweepStaleReservations_correct_witness:
  "\<exists>db'. SweepStaleReservations demo_reserved (\<lambda>_. False) 6 100 9 = Inr (db', [''r1'']) \<and> billing_inv db' \<and>
     find_row r_request_id ''r1'' (requests db') = Some (release_mark ''swept_stale'' 9 demo_request)"
proof -
  have "take (nat 100) (sort_key r_reserved_at
      (filter (\<lambda>r. r_state r = StateReserved \<and> r_reserved_at r < 6 \<and> \<not> False) (requests demo_reserved))) = [demo_request]"
    "r_request_id demo_request = ''r1''" "find_row r_request_id ''r1'' (requests demo_reserved) = Some demo_request"
    by code_simp+
  then show ?thesis
    using SweepStaleReservations_correct [OF demo_inv(1), of 6 100 "\<lambda>_. False" 9] by (auto simp: zero_time_def)
qed

section \<open>Finality and reconciliation\<close>

lemma releaseLocked_final:
  assumes "releaseLocked db r reason now = Inr (db', r')"
    and "find_row r_request_id (r_request_id r) (requests db) = Some r"
  shows "scanBillingRequest db' (r_request_id r) = Inr r' \<and> r_state r' \<noteq> StateReserved"
  using assms update_account_other(1) [of db "r_buyer r" "add_delta 0 (- r_reserved_raw r) now"]
  by (auto simp: releaseLocked_def res_simps scanBillingRequest_def update_request_find split: if_splits)

lemma settle_tx_final:
  assumes "settle_tx db r peer u bps now = Inr (db', r')" and "scanBillingRequest db rid = Inr r"
  shows "scanBillingRequest db' rid = Inr r' \<and> r_state r' \<noteq> StateReserved"
proof (cases "r_state r = StateReserved")
  case True
  have row: "find_row r_request_id rid (requests db) = Some r" "r_request_id r = rid"
    using assms(2) True scan_open [OF assms(2)] by (auto simp: open_row_def)
  from assms(1) True show ?thesis
  proof (cases rule: settle_tx_cases)
    case unknown
    then show ?thesis using releaseLocked_final row by blast
  next
    case (free q)
    then show ?thesis using releaseLocked_final row by blast
  next
    case (charge q cost fee seller db1 db2)
    have "requests db2 = requests db"
      using settle_balances_effect(5) [OF charge(8,5)] settle_legs_effect(4) [OF charge(9,5)] by simp
    with charge(10,11) row show ?thesis by (simp add: scanBillingRequest_def update_request_find)
  qed
next
  case False
  with assms show ?thesis by (simp add: settle_tx_def)
qed

text \<open>
  C15 (settlement is final and idempotent). Once a settlement of a request has committed, every later
  settlement or release of that request, with whatever peer, usage, fee, reason or clock, changes
  nothing and returns the same row: a retried callback cannot charge or unreserve twice.
\<close>

theorem SettleBilling_final:
  assumes "SettleBilling db rid peer u bps now clock = Inr (db', r')"
  shows "SettleBilling db' rid peer2 u2 bps2 now2 clock2 = Inr (db', r') \<and>
    ReleaseBilling db' rid reason now2 clock2 = Inr (db', r')"
proof -
  from assms obtain r where "scanBillingRequest db rid = Inr r"
    and "settle_tx db r peer u bps (time_or_now clock now) = Inr (db', r')"
    by (auto simp: SettleBilling_def res_simps)
  from settle_tx_final [OF this(2,1)] show ?thesis
    by (simp add: SettleBilling_def ReleaseBilling_def settle_tx_def release_tx_def)
qed

theorem SettleBilling_final_witness:
  "\<exists>db' r'. SettleBilling demo_reserved ''r1'' ''p1'' \<lparr>u_in = 40, u_cached = 20, u_out = 10\<rparr> 250 7 9 = Inr (db', r') \<and>
     SettleBilling db' ''r1'' ''p2'' \<lparr>u_in = 1, u_cached = 0, u_out = 0\<rparr> 0 8 9 = Inr (db', r') \<and>
     ReleaseBilling db' ''r1'' ''retry'' 8 9 = Inr (db', r')"
proof -
  have "case SettleBilling demo_reserved ''r1'' ''p1'' \<lparr>u_in = 40, u_cached = 20, u_out = 10\<rparr> 250 7 9 of
      Inr _ \<Rightarrow> True | Inl _ \<Rightarrow> False" by code_simp
  then obtain db' r' where "SettleBilling demo_reserved ''r1'' ''p1'' \<lparr>u_in = 40, u_cached = 20, u_out = 10\<rparr> 250 7 9 = Inr (db', r')"
    by (auto split: sum.splits)
  from this SettleBilling_final [OF this] show ?thesis by blast
qed

lemma ledger_sum_bound: "drift db a = 0 \<Longrightarrow> accounts_ok db \<Longrightarrow> in_int64 (ledger_sum db a)"
  using accounts_ok_bounds [of db a] by (simp add: drift_def in_int64_def)

text \<open>
  Reconciliation reports what the books say. On consistent tables the reconciliation of an account
  whose ledger sum fits BIGINT returns; it finds the projection invariant held and no reserved
  drift, and its credit drift is the wrapped difference of the balance and the ledger sum, which is
  zero for an account moved only by ledgered operations.
\<close>

theorem ReconcileAccount_reports:
  assumes "billing_inv db" and "in_int64 (ledger_sum db a)"
  shows "\<exists>rec. ReconcileAccount db a = Inr rec \<and> rc_invariant_held rec \<and> rc_drift_reserved rec = 0 \<and>
    rc_credit rec = credit_of db a \<and> rc_reserved rec = reserved_of db a \<and>
    (has_row ac_account a (accounts db) \<longrightarrow> rc_drift_credit rec = wrap64 (drift db a))"
proof -
  have ok: "accounts_ok db" "reserved_of db a = open_reserved db a"
    using assms(1) by (simp_all add: billing_inv_def reserved_backed_def)
  have zero: "wrap64 0 = 0" by (simp add: wrap64_def)
  show ?thesis
    using accounts_ok_bounds [OF ok(1), of a] ok(2) assms(2)
    by (cases "find_row ac_account a (accounts db)")
       (auto simp: ReconcileAccount_def Let_def credit_of_def reserved_of_def drift_def in_int64_def zero has_row_find)
qed

theorem ReconcileAccount_reports_witness:
  "\<exists>rec. ReconcileAccount demo_reserved ''b1'' = Inr rec \<and> rc_invariant_held rec \<and> rc_drift_reserved rec = 0 \<and>
    rc_drift_credit rec = 0"
proof -
  have "in_int64 (ledger_sum demo_reserved ''b1'')" "has_row ac_account ''b1'' (accounts demo_reserved)"
    "wrap64 (drift demo_reserved ''b1'') = 0" by code_simp+
  then show ?thesis using ReconcileAccount_reports [OF demo_inv(1), of "''b1''"] by auto
qed

section \<open>Frames\<close>

text \<open>What the other components must keep for the billing invariant to survive their transactions.\<close>

lemma billing_inv_frame:
  assumes "billing_inv db" and "requests db' = requests db" and "accounts_ok db'" "ledger_ok db'"
    and "\<And>a. reserved_of db' a = reserved_of db a"
    and "ledger_ext L db db'" and "''buyer'' \<notin> L" "''seller'' \<notin> L" "''fee'' \<notin> L"
  shows "billing_inv db'"
proof -
  have "settle_legs_ok db'"
    using assms(1,2,6-9) ledger_ext_mem [OF assms(6)]
    unfolding billing_inv_def settle_legs_ok_def is_settle_leg_def by metis
  then show ?thesis
    using assms(1-5) by (simp add: billing_inv_def requests_ok_def reserved_backed_def open_reserved_def)
qed

lemma settle_legs_ext:
  assumes "settle_legs db r q usage cost fee seller now = Inr db'"
  shows "ledger_ext settle_leg_names db db'"
  using assms
proof (rule settle_legsE)
  fix db1 db2
  assume 1: "insert_ledger db (usage_leg (r_buyer r) (- cost) ''usage'' ''buyer'' (q_peer_id q) r q usage now) = Inr db1"
    and 2: "insert_ledger db1 (usage_leg (q_seller q) seller ''earn'' ''seller'' (r_buyer r) r q usage now) = Inr db2"
    and 3: "if fee > 0 then insert_ledger db2
        (plain_leg TreasuryAccountID fee ''fee'' ''fee'' (r_buyer r) (r_request_id r) now) = Inr db' else db' = db2"
  have "ledger_ext settle_leg_names db db1" "ledger_ext settle_leg_names db1 db2"
    using insert_ledger_ext [OF 1] insert_ledger_ext [OF 2] by (simp_all add: settle_leg_names_def)
  moreover have "ledger_ext settle_leg_names db2 db'"
    using 3 insert_ledger_ext [of db2 _ db'] by (auto simp: settle_leg_names_def split: if_splits)
  ultimately show ?thesis by (blast intro: ledger_ext_trans)
qed

lemma books_step_refl [simp]: "books_step db db"
  by (simp add: books_step_def ledger_ext_refl)

lemma releaseLocked_step:
  assumes "releaseLocked db r reason now = Inr (db', r')"
  shows "books_step db db'"
  using assms update_account_other(2) [of db "r_buyer r" "add_delta 0 (- r_reserved_raw r) now"]
    other_tables_simps(2) [of db "r_buyer r" "add_delta 0 (- r_reserved_raw r) now"]
  by (auto simp: releaseLocked_def res_simps books_step_def other_tables_def credit_simps split: if_splits
      intro!: ledger_ext_refl)

lemma settle_balances_tables:
  assumes "settle_balances db r q cost fee seller now = Inr db'"
  shows "other_tables db' = other_tables db"
  using assms by (rule settle_balancesE) (auto simp: credit_simps split: if_splits)

lemma settle_legs_tables:
  assumes "settle_legs db r q usage cost fee seller now = Inr db'"
  shows "other_tables db' = other_tables db"
  using assms by (rule settle_legsE) (auto simp: credit_simps split: if_splits)

lemma settle_tx_step:
  assumes "settle_tx db r peer u bps now = Inr (db', r')"
  shows "books_step db db'"
proof (cases "r_state r = StateReserved")
  case True
  with assms show ?thesis
  proof (cases rule: settle_tx_cases)
    case (charge q cost fee seller db1 db2)
    have "other_tables db' = other_tables db"
      using settle_balances_tables [OF charge(8)] settle_legs_tables [OF charge(9)]
      by (simp add: charge(10) other_tables_def credit_simps)
    moreover have "ledger_ext settle_leg_names db db'"
      using settle_legs_ext [OF charge(9)] settle_balances_effect(3) [OF charge(8,5)]
      by (simp add: ledger_ext_def charge(10) credit_simps)
    ultimately show ?thesis by (simp add: books_step_def)
  qed (blast intro: releaseLocked_step)+
next
  case False
  with assms show ?thesis by (simp add: settle_tx_def)
qed

lemma SettleBilling_step: "SettleBilling db rid peer u bps now clock = Inr (db', r') \<Longrightarrow> books_step db db'"
  by (auto simp: SettleBilling_def res_simps intro: settle_tx_step)

lemma ReleaseBilling_step: "ReleaseBilling db rid reason now clock = Inr (db', r') \<Longrightarrow> books_step db db'"
  by (auto simp: ReleaseBilling_def release_tx_def res_simps intro: releaseLocked_step split: if_splits)

lemma books_step_trans: "books_step db db1 \<Longrightarrow> books_step db1 db2 \<Longrightarrow> books_step db db2"
  by (auto simp: books_step_def intro: ledger_ext_trans)

lemma sweep_loop_step: "sweep_loop db batch now = Inr (db', ids) \<Longrightarrow> books_step db db'"
proof (induction batch arbitrary: db ids)
  case (Cons p batch)
  then obtain db1 r ids' where "releaseLocked db p ''swept_stale'' now = Inr (db1, r)"
    and "sweep_loop db1 batch now = Inr (db', ids')" by (auto simp: res_simps)
  with Cons.IH releaseLocked_step show ?case by (blast intro: books_step_trans)
qed simp

lemma SweepStaleReservations_step:
  "SweepStaleReservations db locked before limit clock = Inr (db', ids) \<Longrightarrow> books_step db db'"
  by (auto simp: SweepStaleReservations_def Let_def intro: sweep_loop_step split: if_splits)

lemma ReserveBilling_step:
  assumes "ReserveBilling db req clock = Inr (db', c)"
  shows "books_step db db'"
  using assms
  by (auto simp: ReserveBilling_def res_simps Let_def insert_request_def books_step_def credit_simps
      other_tables_def intro!: ledger_ext_refl split: if_splits)

section \<open>Every operation keeps the invariant\<close>

lemma ensure_account_inv: "billing_inv db \<Longrightarrow> billing_inv (ensure_account db a now)"
  by (rule billing_inv_frame [where L = "{}"])
    (auto simp: credit_simps ensure_account_ok billing_inv_def ledger_ok_def intro!: ledger_ext_refl)

lemma SetAccountCaps_inv:
  assumes "SetAccountCaps db a caps clock = Inr (db', c)" and "billing_inv db"
  shows "billing_inv db'"
proof -
  from assms(1) have up: "update_account (ensure_account db a clock) a (set_caps caps clock) = Inr db'"
    by (auto simp: SetAccountCaps_def res_simps Let_def split: if_splits)
  have inv: "billing_inv (ensure_account db a clock)" using assms(2) by (rule ensure_account_inv)
  show ?thesis
  proof (rule billing_inv_frame [OF inv, where L = "{}"])
    show "accounts_ok db'" using inv update_account_ok [OF up] by (simp add: billing_inv_def)
    show "ledger_ok db'"
      using inv ledger_ok_cong [OF update_account_other(2,11) [OF up]] by (simp add: billing_inv_def)
    show "reserved_of db' b = reserved_of (ensure_account db a clock) b" for b
      by (simp add: reserved_of_def update_account_find [OF up] set_caps_def split: option.splits)
  qed (use update_account_other [OF up] in auto)
qed

text \<open>What a reservation that commits has checked and done.\<close>

lemma ReserveBilling_effect:
  assumes "ReserveBilling db req clock = Inr (db', c)" and "billing_inv db"
  obtains m where "rv_request_id req \<noteq> []" "rv_request_id req \<notin> r_request_id ` set (requests db)"
    and "ReserveAmount (rv_quotes req) (rv_input_ceil req) (rv_output_ceil req) = Inr m"
    and "billing_inv db'" "requests db' = requests db @ [new_request req m (time_or_now clock (rv_reserved_at req))]"
    and "\<forall>a. credit_of db' a = credit_of db a \<and> reserved_of db' a = reserved_of db a + (if a = rv_buyer req then m else 0)"
proof -
  let ?t = "time_or_now clock (rv_reserved_at req)"
  let ?b = "rv_buyer req"
  obtain m s where ok: "rv_request_id req \<noteq> []" "?b \<noteq> []" "rv_quotes req \<noteq> []"
      "check_quotes (rv_quotes req) = Inr ()"
      "ReserveAmount (rv_quotes req) (rv_input_ceil req) (rv_output_ceil req) = Inr m"
      "sumActiveAllowances db ?b = Inr s"
    using assms(1) by (auto simp: ReserveBilling_def res_simps Let_def sumActiveAllowances_def credit_simps split: if_splits)
  from ReserveBilling_unfold [OF ok, of clock] obtain row where
    row: "find_row ac_account ?b (accounts (ensure_account db ?b ?t)) = Some row"
    and unf: "ReserveBilling db req clock = (if reserve_available (credit_of db ?b) (reserved_of db ?b) s < m
       then Inl ErrInsufficientCredit else reserve_commit (ensure_account db ?b ?t) req m ?t row)"
    by metis
  from unf assms(1) have enough: "\<not> reserve_available (credit_of db ?b) (reserved_of db ?b) s < m"
    and cm: "reserve_commit (ensure_account db ?b ?t) req m ?t row = Inr (db', c)" by (auto split: if_splits)
  from cm have fresh: "rv_request_id req \<notin> r_request_id ` set (requests db)"
    by (auto simp: reserve_commit_def res_simps insert_request_def new_request_def credit_simps row_simps split: if_splits)
  have "accounts_ok db" using assms(2) by (simp add: billing_inv_def)
  from reserve_available_exact [OF this, of ?b s] enough have "reserved_of db ?b + m \<le> credit_of db ?b"
    by (simp split: if_splits)
  from reserve_commit_fresh [OF assms(2) fresh ReserveAmount_nonneg [OF ok(5)] this row] cm show ?thesis
    using that [OF ok(1) fresh ok(5)] by auto
qed

lemma ReserveBilling_inv:
  assumes "ReserveBilling db req clock = Inr (db', c)" and "billing_inv db"
  shows "billing_inv db'"
  using ReserveBilling_effect [OF assms] by metis

lemma SweepStaleReservations_inv:
  assumes "SweepStaleReservations db locked before limit clock = Inr (db', ids)" and "billing_inv db"
  shows "billing_inv db' \<and> ledger db' = ledger db \<and> (\<forall>a. credit_of db' a = credit_of db a)"
proof -
  have ok: "requests_ok db" using assms(2) by (simp add: billing_inv_def)
  from assms(1) obtain n where "sweep_loop db (take n (sort_key r_reserved_at
      (filter (\<lambda>r. r_state r = StateReserved \<and> r_reserved_at r < before \<and> \<not> locked (r_request_id r))
        (requests db)))) clock = Inr (db', ids)"
    by (auto simp: SweepStaleReservations_def Let_def split: if_splits)
  with sweep_loop_correct [OF assms(2) sweep_batch [OF ok, where locked = locked and before = before and n = n], of clock]
  show ?thesis by auto
qed

end
