(* ===== verification/Billing_Overlap.thy ===== *)
theory Billing_Overlap
  imports Billing_Requests
begin

text \<open>
  Settlements and releases that overlap in time. \<^verbatim>\<open>SettleBilling\<close> and \<^verbatim>\<open>ReleaseBilling\<close> read the request
  with a plain SELECT (\<^verbatim>\<open>scanBillingRequest\<close> has no FOR UPDATE) and decide on that copy; their writes
  take the account's row lock, so under READ COMMITTED the writes of two transactions follow one another but the
  second still acts on the copy it read. A transaction is therefore two steps: a read, and later the
  writes with the commit, or an abort.

  \<open>as_written\<close> is the relation of the source, \<open>row_locked\<close> the one in which the read waits for every
  transaction that holds a copy of the same row, as the comment on \<^verbatim>\<open>releaseLocked\<close> requires of its callers.
\<close>

section \<open>Transactions in two steps\<close>

datatype tx_call =
    CallRelease string string instant
  | CallSettle string string Usage int64 instant

fun call_request :: "tx_call \<Rightarrow> string" where
  "call_request (CallRelease rid reason now) = rid"
| "call_request (CallSettle rid peer usage feeBps now) = rid"

fun finish_tx :: "db \<Rightarrow> tx_call \<Rightarrow> Request \<Rightarrow> (db \<times> Request) res" where
  "finish_tx db (CallRelease rid reason now) r = release_tx db r reason now"
| "finish_tx db (CallSettle rid peer usage feeBps now) r = settle_tx db r peer usage feeBps now"

type_synonym sys = "db \<times> (tx_call \<times> Request) list"

inductive as_written :: "sys \<Rightarrow> sys \<Rightarrow> bool" where
  written_read: "scanBillingRequest db (call_request c) = Inr r \<Longrightarrow> as_written (db, ps) (db, ps @ [(c, r)])"
| written_commit: "finish_tx db c r = Inr (db', r') \<Longrightarrow> as_written (db, qs @ (c, r) # rs) (db', qs @ rs)"
| written_abort: "as_written (db, qs @ p # rs) (db, qs @ rs)"

inductive row_locked :: "sys \<Rightarrow> sys \<Rightarrow> bool" where
  locked_read: "scanBillingRequest db (call_request c) = Inr r \<Longrightarrow> call_request c \<notin> (call_request \<circ> fst) ` set ps \<Longrightarrow>
     row_locked (db, ps) (db, ps @ [(c, r)])"
| locked_commit: "finish_tx db c r = Inr (db', r') \<Longrightarrow> row_locked (db, qs @ (c, r) # rs) (db', qs @ rs)"
| locked_abort: "row_locked (db, qs @ p # rs) (db, qs @ rs)"

inductive_cases row_lockedE: "row_locked (db, ps) s"



text \<open>A buyer with 1000 units and two open requests of 390 each.\<close>

definition second_request :: Request where
  "second_request = new_request (demo_reservation\<lparr>rv_request_id := ''r2''\<rparr>) 390 5"

definition two_open :: db where
  "two_open = demo_funded
     \<lparr>accounts := [(new_account ''b1'' 1)\<lparr>ac_credit := 1000, ac_reserved := 780, ac_updated_at := 5\<rparr>],
      requests := [demo_request, second_request]\<rparr>"

definition release_call :: tx_call where
  "release_call = CallRelease ''r1'' ''upstream_error'' 7"

definition released_once :: db where
  "released_once = two_open
     \<lparr>accounts := [(new_account ''b1'' 1)\<lparr>ac_credit := 1000, ac_reserved := 390, ac_updated_at := 7\<rparr>],
      requests := [release_mark ''upstream_error'' 7 demo_request, second_request]\<rparr>"

definition released_twice :: db where
  "released_twice = released_once
     \<lparr>accounts := [(new_account ''b1'' 1)\<lparr>ac_credit := 1000, ac_reserved := 0, ac_updated_at := 7\<rparr>]\<rparr>"

section \<open>With the row locked\<close>








section \<open>As written\<close>

lemma two_open_inv: "billing_inv two_open"
proof -
  have "accounts_ok two_open \<and> ledger_ok two_open \<and> requests_ok two_open \<and> settle_legs_ok two_open" by code_simp
  moreover have "reserved_backed two_open"
    by (simp add: reserved_backed_def two_open_def second_request_def demo_funded_def demo_request_def new_request_def
        demo_reservation_def reserved_of_def open_reserved_def row_simps new_account_def empty_db_def)
  ultimately show ?thesis by (simp add: billing_inv_def)
qed


text \<open>
  Overlapping releases free the same reservation twice. As the code is written, two releases of one request that
  both read it before either commits subtract its reservation twice: the buyer's second open request
  loses its backing, the invariant is broken, and when that request is served its settlement, within its own
  reservation, is refused by the database, so the seller is not paid. A single release can be repeated harmlessly; it takes
  an overlap, and a second open request of the same buyer, to get here.
\<close>

theorem overlapping_release_breaks_backing:
  "as_written\<^sup>*\<^sup>* (two_open, []) (released_twice, []) \<and> billing_inv two_open \<and> \<not> billing_inv released_twice \<and>
   reserved_of released_twice ''b1'' = 0 \<and> open_reserved released_twice ''b1'' = 390 \<and>
   SettleBilling released_twice ''r2'' ''p1'' \<lparr>u_in = 40, u_cached = 20, u_out = 10\<rparr> 250 8 9 = Inl (ErrPg CheckViolation)"
proof -
  let ?r = "demo_request" and ?c = release_call
  have scan: "scanBillingRequest two_open (call_request ?c) = Inr ?r" by code_simp
  have "as_written (two_open, []) (two_open, [(?c, ?r)])"
    using written_read [OF scan, of "[]"] by simp
  moreover have "as_written (two_open, [(?c, ?r)]) (two_open, [(?c, ?r), (?c, ?r)])"
    using written_read [OF scan, of "[(?c, ?r)]"] by simp
  moreover have "finish_tx two_open ?c ?r = Inr (released_once, release_mark ''upstream_error'' 7 ?r)" by code_simp
  then have "as_written (two_open, [(?c, ?r), (?c, ?r)]) (released_once, [(?c, ?r)])"
    using written_commit [of two_open ?c ?r released_once _ "[]" "[(?c, ?r)]"] by simp
  moreover have "finish_tx released_once ?c ?r = Inr (released_twice, release_mark ''upstream_error'' 7 ?r)" by code_simp
  then have "as_written (released_once, [(?c, ?r)]) (released_twice, [])"
    using written_commit [of released_once ?c ?r released_twice _ "[]" "[]"] by simp
  ultimately have run: "as_written\<^sup>*\<^sup>* (two_open, []) (released_twice, [])" by (meson r_into_rtranclp rtranclp_trans)
  have res: "reserved_of released_twice ''b1'' = 0" "open_reserved released_twice ''b1'' = 390" by code_simp+
  then have "\<not> billing_inv released_twice" by (auto simp: billing_inv_def reserved_backed_def intro!: exI [of _ "''b1''"])
  moreover have "SettleBilling released_twice ''r2'' ''p1'' \<lparr>u_in = 40, u_cached = 20, u_out = 10\<rparr> 250 8 9 = Inl (ErrPg CheckViolation)"
    by code_simp
  ultimately show ?thesis using run res two_open_inv by blast
qed

end
