(* ===== verification/Deposits.thy ===== *)
theory Deposits
  imports Billing_Requests "HOL-Library.Char_ord" "HOL-Library.List_Lexorder" "HOL-Library.Product_Lexorder"
begin

text \<open>
  Deposits, \<^verbatim>\<open>internal/store/deposit.go\<close>: a transfer into the treasury is persisted before it is
  credited, credited to an account at most once, and the watcher's cursor moves by
  compare-and-set. Text columns are compared by code point. The column
  \<^verbatim>\<open>deposit_events.instruction_index\<close> is INT, 32 bits wide, while the Go field is a 64-bit int: a
  statement with a larger value fails.
\<close>

section \<open>Operations\<close>

definition depositRef :: "string \<Rightarrow> int64 \<Rightarrow> string" where
  "depositRef signature instructionIndex = ''sol:'' @ signature @ '':'' @ itoa instructionIndex"

definition d_key :: "DepositEvent \<Rightarrow> string \<times> int64" where
  "d_key ev = (d_signature ev, d_index ev)"

definition fits_int4 :: "int64 \<Rightarrow> bool" where
  "fits_int4 i \<longleftrightarrow> -2147483648 \<le> i \<and> i \<le> 2147483647"

definition InsertDepositEvent :: "db \<Rightarrow> DepositEvent \<Rightarrow> instant \<Rightarrow> (db \<times> bool) res" where
  "InsertDepositEvent db ev clock =
     (if d_signature ev = [] then Inl ErrInvalid
      else if d_amount ev \<le> 0 then Inl ErrInvalid
      else if d_from_wallet ev = [] then Inl ErrInvalid
      else if \<not> fits_int4 (d_index ev) then Inl (ErrPg NumericOutOfRange)
      else if has_row d_key (d_key ev) (deposits db) then Inr (db, False)
      else Inr (db\<lparr>deposits := deposits db @
             [ev\<lparr>d_state := ''unassigned'', d_account := None, d_credited_at := None,
                 d_seen_at := time_or_now clock (d_seen_at ev)\<rparr>]\<rparr>, True))"

definition DepositCursor :: "db \<Rightarrow> string \<Rightarrow> string res" where
  "DepositCursor db ata =
     (if ata = [] then Inl ErrInvalid
      else case find_row fst ata (deposit_cursors db) of None \<Rightarrow> Inr [] | Some (_, s) \<Rightarrow> Inr s)"

definition AdvanceDepositCursor :: "db \<Rightarrow> string \<Rightarrow> string \<Rightarrow> string \<Rightarrow> (db \<times> bool) res" where
  "AdvanceDepositCursor db ata fromSignature toSignature =
     (if ata = [] \<or> toSignature = [] then Inl ErrInvalid
      else if fromSignature = toSignature then Inr (db, True)
      else if fromSignature = [] then
        (if has_row fst ata (deposit_cursors db) then Inr (db, False)
         else Inr (db\<lparr>deposit_cursors := deposit_cursors db @ [(ata, toSignature)]\<rparr>, True))
      else case find_row fst ata (deposit_cursors db) of
             Some (_, s) \<Rightarrow>
               if s = fromSignature
               then Inr (db\<lparr>deposit_cursors := update_row fst ata (\<lambda>_. (ata, toSignature)) (deposit_cursors db)\<rparr>, True)
               else Inr (db, False)
           | None \<Rightarrow> Inr (db, False))"

definition lockDepositEvent :: "db \<Rightarrow> string \<Rightarrow> int64 \<Rightarrow> DepositEvent res" where
  "lockDepositEvent db signature instructionIndex =
     (if \<not> fits_int4 instructionIndex then Inl (ErrPg NumericOutOfRange)
      else case find_row d_key (signature, instructionIndex) (deposits db) of
        None \<Rightarrow> Inl ErrNotFound | Some ev \<Rightarrow> Inr ev)"

definition credit_mark :: "string \<Rightarrow> instant \<Rightarrow> DepositEvent \<Rightarrow> DepositEvent" where
  "credit_mark a now ev = ev\<lparr>d_state := ''assigned'', d_account := Some a, d_credited_at := Some now\<rparr>"

definition creditDepositLocked :: "db \<Rightarrow> DepositEvent \<Rightarrow> string \<Rightarrow> instant \<Rightarrow> (db \<times> DepositEvent) res" where
  "creditDepositLocked db ev a now =
     rbind (applyDelta db a (d_amount ev) 0 now) (\<lambda>(db1, _, _).
     rbind (unique_aborts (insert_ledger db1 (plain_leg a (d_amount ev) ''deposit'' ''deposit'' (d_from_wallet ev)
              (depositRef (d_signature ev) (d_index ev)) now))) (\<lambda>db2.
       Inr (db2\<lparr>deposits := update_row d_key (d_key ev) (credit_mark a now) (deposits db2)\<rparr>,
            credit_mark a now ev)))"

definition ApplyDeposit ::
  "db \<Rightarrow> string \<Rightarrow> int64 \<Rightarrow> string \<Rightarrow> instant \<Rightarrow> instant \<Rightarrow> (db \<times> DepositEvent) res"
where
  "ApplyDeposit db signature instructionIndex a now clock =
     (if a = [] then Inl ErrInvalid
      else rbind (lockDepositEvent db signature instructionIndex) (\<lambda>ev.
        if d_state ev = ''assigned'' then
          (if d_account ev \<noteq> Some a then Inl ErrConflict else Inr (db, ev))
        else if d_state ev = ''skipped'' then Inr (db, ev)
        else if d_state ev = ''unassigned'' then creditDepositLocked db ev a (time_or_now clock now)
        else Inl ErrInvalid))"

fun credit_loop :: "db \<Rightarrow> DepositEvent list \<Rightarrow> string \<Rightarrow> instant \<Rightarrow> db res" where
  "credit_loop db [] a now = Inr db"
| "credit_loop db (ev # evs) a now =
     rbind (creditDepositLocked db ev a now) (\<lambda>(db1, _). credit_loop db1 evs a now)"

definition deposit_order :: "DepositEvent \<Rightarrow> instant \<times> string \<times> int64" where
  "deposit_order ev = (d_seen_at ev, d_signature ev, d_index ev)"

definition open_deposits :: "db \<Rightarrow> string \<Rightarrow> DepositEvent list" where
  "open_deposits db wallet = sort_key deposit_order
     (filter (\<lambda>ev. d_from_wallet ev = wallet \<and> d_state ev = ''unassigned'' \<and> d_credited_at ev = None) (deposits db))"

definition ReconcileDepositsForWallet ::
  "db \<Rightarrow> string \<Rightarrow> string \<Rightarrow> instant \<Rightarrow> instant \<Rightarrow> (db \<times> int64) res"
where
  "ReconcileDepositsForWallet db wallet a now clock =
     (if wallet = [] \<or> a = [] then Inl ErrInvalid
      else let t = time_or_now clock now; events = open_deposits db wallet
           in rbind (if events \<noteq> [] then rbind (applyDelta db a 0 0 t) (\<lambda>(db1, _, _). Inr db1) else Inr db) (\<lambda>db1.
              rbind (credit_loop db1 events a t) (\<lambda>db2. Inr (db2, int (length events)))))"

section \<open>Invariant\<close>

definition deposit_row_ok :: "DepositEvent \<Rightarrow> bool" where
  "deposit_row_ok ev \<longleftrightarrow> 0 < d_amount ev \<and>
     (d_state ev = ''unassigned'' \<and> d_credited_at ev = None \<or>
      d_state ev = ''skipped'' \<or> d_state ev = ''assigned'' \<and> d_account ev \<noteq> None)"

text \<open>A deposit leg exists only for an assigned event, under that event's reference.\<close>

definition deposit_legs_ok :: "db \<Rightarrow> bool" where
  "deposit_legs_ok db \<longleftrightarrow> (\<forall>e \<in> set (ledger db). l_leg e = ''deposit'' \<longrightarrow>
     (\<exists>ev \<in> set (deposits db). d_state ev = ''assigned'' \<and> l_ref e = depositRef (d_signature ev) (d_index ev)))"

definition deposited :: "db \<Rightarrow> string \<Rightarrow> int" where
  "deposited db a = sum_rows (\<lambda>e. l_leg e = ''deposit'' \<and> l_account e = a) l_delta (ledger db)"

definition assigned_sum :: "db \<Rightarrow> string \<Rightarrow> int" where
  "assigned_sum db a = sum_rows (\<lambda>ev. d_state ev = ''assigned'' \<and> d_account ev = Some a) d_amount (deposits db)"

definition deposit_inv :: "db \<Rightarrow> bool" where
  "deposit_inv db \<longleftrightarrow> keys_distinct d_key (deposits db) \<and> list_all deposit_row_ok (deposits db) \<and>
     deposit_legs_ok db \<and> (\<forall>a. deposited db a = assigned_sum db a)"

text \<open>An event as it stands in the table, still to be credited.\<close>

definition open_event :: "db \<Rightarrow> DepositEvent \<Rightarrow> bool" where
  "open_event db ev \<longleftrightarrow> ev \<in> set (deposits db) \<and> d_state ev = ''unassigned''"

definition cursors_ok :: "db \<Rightarrow> bool" where
  "cursors_ok db \<longleftrightarrow> list_all (\<lambda>(_, s). s \<noteq> []) (deposit_cursors db)"

text \<open>Two transfers of a wallet, one credited and one still open.\<close>

definition demo_event :: "string \<Rightarrow> DepositEvent" where
  "demo_event sig = \<lparr>d_signature = sig, d_index = 0, d_slot = 7, d_from_wallet = ''w'', d_amount = 500,
     d_account = None, d_state = ''unassigned'', d_credited_at = None, d_seen_at = 3\<rparr>"

definition demo_deposits :: db where
  "demo_deposits = empty_db
     \<lparr>accounts := [(new_account ''b1'' 1)\<lparr>ac_credit := 500\<rparr>],
      ledger := [(plain_leg ''b1'' 500 ''deposit'' ''deposit'' ''w'' (depositRef ''s1'' 0) 1)\<lparr>l_id := 1\<rparr>],
      deposits := [credit_mark ''b1'' 1 (demo_event ''s1''), demo_event ''s2''],
      next_ledger_id := 2\<rparr>"

section \<open>References are unambiguous\<close>

lemma depositRef_inject: "depositRef s i = depositRef s' i' \<Longrightarrow> s = s' \<and> i = i'"
  using append_sep_inject [of s "CHR '':''" "itoa i" s' "itoa i'"]
  by (auto simp: depositRef_def itoa_no_colon dest: itoa_inject)

section \<open>Crediting one event\<close>

lemma credit_mark_fields [simp]:
  "d_signature (credit_mark a now ev) = d_signature ev" "d_index (credit_mark a now ev) = d_index ev"
  "d_key (credit_mark a now ev) = d_key ev" "d_amount (credit_mark a now ev) = d_amount ev"
  "d_state (credit_mark a now ev) = ''assigned''" "d_account (credit_mark a now ev) = Some a"
  by (simp_all add: credit_mark_def d_key_def)

lemma creditDepositLockedE:
  assumes "creditDepositLocked db ev a now = Inr (db', ev')"
  obtains db1 c r db2 where "applyDelta db a (d_amount ev) 0 now = Inr (db1, c, r)"
    and "insert_ledger db1 (plain_leg a (d_amount ev) ''deposit'' ''deposit'' (d_from_wallet ev)
          (depositRef (d_signature ev) (d_index ev)) now) = Inr db2"
    and "db' = db2\<lparr>deposits := update_row d_key (d_key ev) (credit_mark a now) (deposits db)\<rparr>"
    and "ev' = credit_mark a now ev"
  using assms by (auto simp: creditDepositLocked_def res_simps credit_simps)

lemma creditDepositLocked_books:
  assumes "creditDepositLocked db ev a now = Inr (db', ev')"
  shows "credit_of db' b = credit_of db b + (if b = a then d_amount ev else 0)"
    and "drift db' b = drift db b"
    and "billing_inv db \<Longrightarrow> billing_inv db'"
    and "accounts_ok db \<Longrightarrow> total_credit db' = total_credit db + d_amount ev"
    and "ledger_ext {''deposit''} db db'"
    and "deposits db' = update_row d_key (d_key ev) (credit_mark a now) (deposits db)"
    and "other_tables db' = other_tables (db\<lparr>deposits := deposits db'\<rparr>)"
proof -
  from assms obtain db1 c r db2 where ap: "applyDelta db a (d_amount ev) 0 now = Inr (db1, c, r)"
    and il: "insert_ledger db1 (plain_leg a (d_amount ev) ''deposit'' ''deposit'' (d_from_wallet ev)
          (depositRef (d_signature ev) (d_index ev)) now) = Inr db2"
    and db': "db' = db2\<lparr>deposits := update_row d_key (d_key ev) (credit_mark a now) (deposits db)\<rparr>"
    by (rule creditDepositLockedE)
  note mv = ledgered_move [OF ap il leg_fields(1,2)]
  have same: "credit_of db' b = credit_of db2 b" "reserved_of db' b = reserved_of db2 b"
    "ledger_sum db' b = ledger_sum db2 b" "accounts db' = accounts db2" "ledger db' = ledger db2"
    "next_ledger_id db' = next_ledger_id db2" "requests db' = requests db" for b
    by (simp_all add: db' credit_of_def reserved_of_def ledger_sum_def insert_ledger_other [OF il] applyDelta_other [OF ap])
  show "credit_of db' b = credit_of db b + (if b = a then d_amount ev else 0)"
    and "drift db' b = drift db b"
    using mv(1,3) by (simp_all add: same drift_def)
  show ext: "ledger_ext {''deposit''} db db'" using mv(7) by (simp add: ledger_ext_def same)
  show "total_credit db' = total_credit db + d_amount ev" if "accounts_ok db"
    using mv(6) [OF that] by (simp add: total_credit_def same)
  show "billing_inv db'" if inv: "billing_inv db"
  proof (rule billing_inv_frame [OF inv same(7) _ _ _ ext])
    show "accounts_ok db'" using mv(4) inv by (simp add: accounts_ok_def same billing_inv_def)
    show "ledger_ok db'" using mv(5) inv by (simp add: ledger_ok_def same billing_inv_def)
  qed (simp_all add: same mv(2))
  show "deposits db' = update_row d_key (d_key ev) (credit_mark a now) (deposits db)" by (simp add: db')
  have "other_tables db2 = other_tables db" using ap il by (simp add: credit_simps)
  then show "other_tables db' = other_tables (db\<lparr>deposits := deposits db'\<rparr>)"
    by (simp add: db' other_tables_def)
qed

lemma open_event_find:
  assumes "deposit_inv db" and "open_event db ev"
  shows "find_row d_key (d_key ev) (deposits db) = Some ev"
  using assms find_row_distinct [of d_key "deposits db" ev] by (simp add: deposit_inv_def open_event_def)

lemma deposit_leg_fresh:
  assumes "deposit_inv db" and "open_event db ev"
  shows "(depositRef (d_signature ev) (d_index ev), ''deposit'') \<notin> ledger_key ` set (ledger db)"
proof
  assume "(depositRef (d_signature ev) (d_index ev), ''deposit'') \<in> ledger_key ` set (ledger db)"
  then obtain e where e: "e \<in> set (ledger db)" "l_leg e = ''deposit''" "l_ref e = depositRef (d_signature ev) (d_index ev)"
    by (auto simp: ledger_key_def)
  have "\<forall>e \<in> set (ledger db). l_leg e = ''deposit'' \<longrightarrow>
      (\<exists>ev \<in> set (deposits db). d_state ev = ''assigned'' \<and> l_ref e = depositRef (d_signature ev) (d_index ev))"
    using assms(1) by (simp add: deposit_inv_def deposit_legs_ok_def)
  with e(1,2) obtain ev2 where ev2: "ev2 \<in> set (deposits db)" "d_state ev2 = ''assigned''"
      "l_ref e = depositRef (d_signature ev2) (d_index ev2)" by blast
  have k: "d_key ev2 = d_key ev" using depositRef_inject [OF ev2(3) [unfolded e(3)]] by (simp add: d_key_def)
  have "find_row d_key (d_key ev2) (deposits db) = Some ev2"
    using assms(1) find_row_distinct [of d_key, OF _ ev2(1)] by (simp add: deposit_inv_def)
  from this [unfolded k] open_event_find [OF assms] have "ev2 = ev" by (metis option.inject)
  with ev2(2) assms(2) show False by (simp add: open_event_def)
qed

text \<open>Crediting an open event records the leg and the assignment together.\<close>

lemma creditDepositLocked_inv:
  assumes "deposit_inv db" and "open_event db ev" and "creditDepositLocked db ev a now = Inr (db', ev')"
  shows "deposit_inv db'"
proof -
  from assms(3) obtain db1 c r db2 where ap: "applyDelta db a (d_amount ev) 0 now = Inr (db1, c, r)"
    and il: "insert_ledger db1 (plain_leg a (d_amount ev) ''deposit'' ''deposit'' (d_from_wallet ev)
          (depositRef (d_signature ev) (d_index ev)) now) = Inr db2"
    and db': "db' = db2\<lparr>deposits := update_row d_key (d_key ev) (credit_mark a now) (deposits db)\<rparr>"
    by (rule creditDepositLockedE)
  have dist: "keys_distinct d_key (deposits db)" and rows: "\<And>x. x \<in> set (deposits db) \<Longrightarrow> deposit_row_ok x"
    and legs: "deposit_legs_ok db" and sums: "\<And>b. deposited db b = assigned_sum db b"
    using assms(1) by (auto simp: deposit_inv_def list_all_iff)
  note fnd = open_event_find [OF assms(1,2)]
  have led: "ledger db' = ledger db @ [(plain_leg a (d_amount ev) ''deposit'' ''deposit'' (d_from_wallet ev)
      (depositRef (d_signature ev) (d_index ev)) now)\<lparr>l_id := next_ledger_id db1\<rparr>]"
    using insert_ledger_rows(1) [OF il] applyDelta_other(2) [OF ap] by (simp add: db')
  have dep: "deposits db' = update_row d_key (d_key ev) (credit_mark a now) (deposits db)" by (simp add: db')
  have mem: "credit_mark a now ev \<in> set (deposits db')"
    using find_row_mem [of d_key "d_key ev" "deposits db'"] fnd by (simp add: dep find_row_update)
  have "deposit_legs_ok db'"
    unfolding deposit_legs_ok_def
  proof (intro ballI impI)
    fix e assume e: "e \<in> set (ledger db')" "l_leg e = ''deposit''"
    show "\<exists>x \<in> set (deposits db'). d_state x = ''assigned'' \<and> l_ref e = depositRef (d_signature x) (d_index x)"
    proof (cases "e \<in> set (ledger db)")
      case True
      with legs e(2) obtain x where x: "x \<in> set (deposits db)" "d_state x = ''assigned''"
          "l_ref e = depositRef (d_signature x) (d_index x)"
        unfolding deposit_legs_ok_def by blast
      have "x \<noteq> ev" using x(2) assms(2) by (auto simp: open_event_def)
      then have "d_key x \<noteq> d_key ev" using find_row_distinct [OF dist x(1)] fnd by auto
      with x(1) have "x \<in> set (deposits db')" by (force simp: dep update_row_def)
      with x show ?thesis by blast
    next
      case False
      with e led mem show ?thesis by (auto simp: plain_leg_def intro!: bexI [OF _ mem])
    qed
  qed
  moreover have "deposited db' b = assigned_sum db' b" for b
    using sums [of b] sum_rows_update [OF dist fnd, of "\<lambda>x. d_state x = ''assigned'' \<and> d_account x = Some b" d_amount "credit_mark a now"]
      assms(2)
    by (auto simp: deposited_def assigned_sum_def led dep row_simps plain_leg_def open_event_def)
  moreover have "deposit_row_ok x" if "x \<in> set (deposits db')" for x
    using set_update_row [OF that [unfolded dep]] rows by (fastforce simp: deposit_row_ok_def)
  ultimately show ?thesis
    using dist by (simp add: deposit_inv_def list_all_iff dep keys_distinct_update)
qed

lemma creditDepositLocked_succeeds:
  assumes "accounts_ok db" and "deposit_inv db" and "open_event db ev" and "credit_of db a + d_amount ev \<le> max_int64"
  shows "\<exists>db'. creditDepositLocked db ev a now = Inr (db', credit_mark a now ev)"
proof -
  have "0 < d_amount ev" using assms(2,3) by (auto simp: deposit_inv_def list_all_iff open_event_def deposit_row_ok_def)
  then obtain db1 c r where ap: "applyDelta db a (d_amount ev) 0 now = Inr (db1, c, r)"
    using applyDelta_succeeds [OF assms(1), of a 0 "d_amount ev" now] accounts_ok_bounds [OF assms(1), of a] assms(4) by auto
  have "ledger_key (plain_leg a (d_amount ev) ''deposit'' ''deposit'' (d_from_wallet ev)
      (depositRef (d_signature ev) (d_index ev)) now) \<notin> ledger_key ` set (ledger db1)"
    using deposit_leg_fresh [OF assms(2,3)] applyDelta_other(2) [OF ap] by (simp add: ledger_key_def [of "plain_leg _ _ _ _ _ _ _"])
  from insert_ledger_succeeds [OF this] ap show ?thesis by (auto simp: creditDepositLocked_def)
qed

section \<open>Deposits are credited exactly once\<close>

lemma lock_event: "lockDepositEvent db sig i = Inr ev \<Longrightarrow> ev \<in> set (deposits db) \<and> d_signature ev = sig \<and> d_index ev = i"
  by (auto simp: lockDepositEvent_def d_key_def dest: find_row_mem find_row_key split: option.splits if_splits)

lemma ApplyDeposit_cases:
  assumes "ApplyDeposit db sig i a now clock = Inr (db', ev')"
  obtains (same) "lockDepositEvent db sig i = Inr ev'" "db' = db" "a \<noteq> []"
      "d_state ev' = ''assigned'' \<and> d_account ev' = Some a \<or> d_state ev' = ''skipped''"
  | (credit) ev where "lockDepositEvent db sig i = Inr ev" "open_event db ev" "a \<noteq> []"
      "creditDepositLocked db ev a (time_or_now clock now) = Inr (db', ev')"
proof -
  from assms obtain ev where l: "lockDepositEvent db sig i = Inr ev" and a: "a \<noteq> []"
    by (auto simp: ApplyDeposit_def res_simps split: if_splits)
  show ?thesis
  proof (cases "d_state ev = ''unassigned''")
    case True
    with assms l a have "creditDepositLocked db ev a (time_or_now clock now) = Inr (db', ev')"
      by (simp add: ApplyDeposit_def)
    with True l a lock_event [OF l] credit show ?thesis by (simp add: open_event_def)
  next
    case False
    with assms l a have "ev' = ev" "db' = db" "d_state ev = ''assigned'' \<and> d_account ev = Some a \<or> d_state ev = ''skipped''"
      by (auto simp: ApplyDeposit_def split: if_splits)
    with l a same show ?thesis by simp
  qed
qed

lemma ApplyDeposit_effect:
  assumes "billing_inv db" and "deposit_inv db" and "ApplyDeposit db sig i a now clock = Inr (db', ev')"
  shows "billing_inv db' \<and> deposit_inv db' \<and> (\<forall>b. drift db' b = drift db b) \<and>
    lockDepositEvent db' sig i = Inr ev' \<and> a \<noteq> [] \<and>
    (d_state ev' = ''assigned'' \<and> d_account ev' = Some a \<or> d_state ev' = ''skipped'') \<and>
    (\<forall>b. credit_of db' b = credit_of db b + (if b = a \<and> lockDepositEvent db sig i \<noteq> Inr ev' then d_amount ev' else 0))"
  using assms(3)
proof (cases rule: ApplyDeposit_cases)
  case same
  with assms(1,2) show ?thesis by simp
next
  case (credit ev)
  note bk = creditDepositLocked_books [OF credit(4)]
  from credit(4) have ev': "ev' = credit_mark a (time_or_now clock now) ev" by (rule creditDepositLockedE)
  have "find_row d_key (sig, i) (deposits db) = Some ev"
    and "fits_int4 i"
    using credit(1) by (auto simp: lockDepositEvent_def split: option.splits if_splits)
  then have "lockDepositEvent db' sig i = Inr ev'"
    using find_row_key [of d_key "(sig, i)" "deposits db" ev] by (simp add: lockDepositEvent_def bk(6) find_row_update ev')
  moreover have "d_state ev \<noteq> d_state ev'" using credit(2) ev' by (simp add: open_event_def)
  then have "ev \<noteq> ev'" by blast
  ultimately show ?thesis
    using bk(1-3) credit creditDepositLocked_inv [OF assms(2) credit(2,4)] assms(1) ev' by simp
qed

text \<open>
  C7 (a deposit is credited exactly once). A committed application of a persisted deposit credits the
  account by the event's amount if the event was still open and by nothing otherwise, keeps every
  account's credit equal to its ledger up to the same drift, keeps both invariants (in particular
  that the deposit legs of an account sum up to the events assigned to it), and repeating it, at any
  later time, changes nothing; applying it to a different account is refused or changes nothing.
\<close>

theorem ApplyDeposit_exactly_once:
  assumes "billing_inv db" and "deposit_inv db" and "ApplyDeposit db sig i a now clock = Inr (db', ev')"
  shows "billing_inv db' \<and> deposit_inv db' \<and> (\<forall>b. drift db' b = drift db b) \<and>
    (\<forall>b. credit_of db' b = credit_of db b + (if b = a \<and> lockDepositEvent db sig i \<noteq> Inr ev' then d_amount ev' else 0)) \<and>
    ApplyDeposit db' sig i a now2 clock2 = Inr (db', ev') \<and>
    (\<forall>b db'' ev''. ApplyDeposit db' sig i b now2 clock2 = Inr (db'', ev'') \<longrightarrow> db'' = db')"
  using ApplyDeposit_effect [OF assms] by (auto simp: ApplyDeposit_def res_simps split: if_splits)

lemma credit_loop_correct:
  "billing_inv db \<Longrightarrow> deposit_inv db \<Longrightarrow> distinct (map d_key evs) \<Longrightarrow> \<forall>ev \<in> set evs. open_event db ev \<Longrightarrow>
   credit_of db a + sum_list (map d_amount evs) \<le> max_int64 \<Longrightarrow>
   \<exists>db'. credit_loop db evs a now = Inr db' \<and> billing_inv db' \<and> deposit_inv db' \<and>
     (\<forall>b. drift db' b = drift db b \<and> credit_of db' b = credit_of db b + (if b = a then sum_list (map d_amount evs) else 0)) \<and>
     (\<forall>k. find_row d_key k (deposits db') = (if k \<in> d_key ` set evs then map_option (credit_mark a now) (find_row d_key k (deposits db))
        else find_row d_key k (deposits db)))"
proof (induction evs arbitrary: db)
  case Nil
  then show ?case by simp
next
  case (Cons ev evs)
  have op: "open_event db ev" using Cons.prems(4) by simp
  have nn: "0 \<le> sum_list (map d_amount evs)"
    using Cons.prems(2,4)
    by (intro sum_list_nonneg) (auto simp: deposit_inv_def list_all_iff open_event_def deposit_row_ok_def less_imp_le)
  have "accounts_ok db" using Cons.prems(1) by (simp add: billing_inv_def)
  from creditDepositLocked_succeeds [OF this Cons.prems(2) op, of a now] obtain db1
    where cr: "creditDepositLocked db ev a now = Inr (db1, credit_mark a now ev)"
    using Cons.prems(5) nn by auto
  note bk = creditDepositLocked_books [OF cr]
  have fr: "find_row d_key k (deposits db1) =
      (if k = d_key ev then map_option (credit_mark a now) (find_row d_key k (deposits db)) else find_row d_key k (deposits db))" for k
    by (simp add: bk(6) find_row_update)
  have "\<forall>x \<in> set evs. open_event db1 x"
  proof
    fix x assume x: "x \<in> set evs"
    then have "d_key x \<noteq> d_key ev" using Cons.prems(3) by (force simp: image_iff)
    moreover have "find_row d_key (d_key x) (deposits db) = Some x"
      using open_event_find [OF Cons.prems(2), of x] Cons.prems(4) x by simp
    ultimately have "find_row d_key (d_key x) (deposits db1) = Some x" by (simp add: fr)
    with x Cons.prems(4) show "open_event db1 x" by (auto simp: open_event_def dest: find_row_mem)
  qed
  with Cons.IH [of db1] bk(1,3) Cons.prems creditDepositLocked_inv [OF Cons.prems(2) op cr] obtain db' where
    "credit_loop db1 evs a now = Inr db'" "billing_inv db'" "deposit_inv db'"
    "\<And>b. drift db' b = drift db1 b \<and> credit_of db' b = credit_of db1 b + (if b = a then sum_list (map d_amount evs) else 0)"
    "\<And>k. find_row d_key k (deposits db') = (if k \<in> d_key ` set evs then map_option (credit_mark a now) (find_row d_key k (deposits db1))
        else find_row d_key k (deposits db1))"
    by auto
  with cr bk(1,2) fr Cons.prems(3) show ?case by simp
qed

lemma open_deposits_open:
  "ev \<in> set (open_deposits db wallet) \<longleftrightarrow>
     open_event db ev \<and> d_from_wallet ev = wallet \<and> d_credited_at ev = None"
  by (auto simp: open_deposits_def open_event_def)

lemma open_deposits_distinct: "deposit_inv db \<Longrightarrow> distinct (map d_key (open_deposits db wallet))"
proof -
  assume "deposit_inv db"
  then have "distinct (map d_key (filter (\<lambda>ev. d_from_wallet ev = wallet \<and> d_state ev = ''unassigned'' \<and>
      d_credited_at ev = None) (deposits db)))"
    by (simp add: deposit_inv_def keys_distinct_def distinct_map_filter)
  then show ?thesis by (simp add: open_deposits_def distinct_map)
qed

text \<open>Touching the account without moving it.\<close>

lemma touch_account:
  assumes "billing_inv db" and "deposit_inv db"
  shows "\<exists>db1 c r. applyDelta db a 0 0 now = Inr (db1, c, r) \<and> billing_inv db1 \<and> deposit_inv db1 \<and>
    deposits db1 = deposits db \<and> (\<forall>b. drift db1 b = drift db b \<and> credit_of db1 b = credit_of db b)"
proof -
  have ok: "accounts_ok db" using assms(1) by (simp add: billing_inv_def)
  obtain db1 c r where ap: "applyDelta db a 0 0 now = Inr (db1, c, r)"
    using applyDelta_succeeds [OF ok, of a 0 0 now] accounts_ok_bounds [OF ok, of a] by auto
  note o = applyDelta_other [OF ap]
  have "billing_inv db1"
    using applyDelta_credit(2) [OF ap] applyDelta_ok [OF ap ok] assms(1) o ledger_ok_cong [OF o(2,11)]
    by (intro billing_inv_frame [OF assms(1), where L = "{}"]) (auto simp: billing_inv_def)
  moreover have "deposit_inv db1"
    using assms(2) o by (simp add: deposit_inv_def deposit_legs_ok_def deposited_def assigned_sum_def)
  ultimately show ?thesis
    using ap o applyDelta_credit(1) [OF ap] by (auto simp: drift_def ledger_sum_def)
qed

lemma none_open_after:
  assumes "deposit_inv db" and "deposit_inv db'"
    and "\<And>k. find_row d_key k (deposits db') = (if k \<in> d_key ` set (open_deposits db wallet)
       then map_option (credit_mark a now) (find_row d_key k (deposits db)) else find_row d_key k (deposits db))"
  shows "open_deposits db' wallet = []"
proof (rule ccontr)
  assume "open_deposits db' wallet \<noteq> []"
  then obtain x where x: "x \<in> set (open_deposits db' wallet)" by (cases "open_deposits db' wallet") auto
  then have op: "open_event db' x" "d_from_wallet x = wallet" "d_credited_at x = None" by (simp_all add: open_deposits_open)
  note f = open_event_find [OF assms(2) op(1)]
  show False
  proof (cases "d_key x \<in> d_key ` set (open_deposits db wallet)")
    case True
    with f assms(3) [of "d_key x"] have "d_state x = ''assigned''" by auto
    with op(1) show False by (simp add: open_event_def)
  next
    case False
    with f assms(3) [of "d_key x"] have "x \<in> set (deposits db)" by (auto dest: find_row_mem)
    with op have "x \<in> set (open_deposits db wallet)" by (simp add: open_deposits_open open_event_def)
    with False show False by blast
  qed
qed

text \<open>
  C8 (late links lose no deposit). When a wallet is linked, reconciliation credits every open deposit of
  that wallet, no matter how many there are: it commits (the sum must fit BIGINT), reports their
  number, raises the account's credit by exactly their sum and no other account's, keeps both
  invariants and every drift, and leaves no open deposit of the wallet, so running it again
  credits nothing.
\<close>

theorem ReconcileDepositsForWallet_complete:
  assumes "billing_inv db" and "deposit_inv db" and "wallet \<noteq> []" "a \<noteq> []"
    and "credit_of db a + sum_list (map d_amount (open_deposits db wallet)) \<le> max_int64"
  shows "\<exists>db'. ReconcileDepositsForWallet db wallet a now clock = Inr (db', int (length (open_deposits db wallet))) \<and>
    billing_inv db' \<and> deposit_inv db' \<and>
    (\<forall>b. drift db' b = drift db b \<and> credit_of db' b = credit_of db b +
       (if b = a then sum_list (map d_amount (open_deposits db wallet)) else 0)) \<and>
    open_deposits db' wallet = [] \<and>
    ReconcileDepositsForWallet db' wallet a now2 clock2 = Inr (db', 0)"
proof -
  define t where "t = time_or_now clock now"
  obtain db1 where pre: "(if open_deposits db wallet \<noteq> [] then rbind (applyDelta db a 0 0 t) (\<lambda>(db1, _, _). Inr db1) else Inr db) = Inr db1"
      and db1: "billing_inv db1" "deposit_inv db1" "deposits db1 = deposits db"
        "\<And>b. drift db1 b = drift db b \<and> credit_of db1 b = credit_of db b"
    using touch_account [OF assms(1,2), of a t] assms(1,2) by (cases "open_deposits db wallet = []") auto
  have "\<forall>ev \<in> set (open_deposits db wallet). open_event db1 ev"
    by (simp add: open_deposits_open open_event_def db1(3))
  from credit_loop_correct [OF db1(1,2) open_deposits_distinct [OF assms(2)] this, of a t] db1(4) assms(5) obtain db' where
    lp: "credit_loop db1 (open_deposits db wallet) a t = Inr db'" "billing_inv db'" "deposit_inv db'"
    and ef: "\<And>b. drift db' b = drift db b \<and> credit_of db' b = credit_of db b + (if b = a then sum_list (map d_amount (open_deposits db wallet)) else 0)"
    and fr: "\<And>k. find_row d_key k (deposits db') = (if k \<in> d_key ` set (open_deposits db wallet)
       then map_option (credit_mark a t) (find_row d_key k (deposits db)) else find_row d_key k (deposits db))"
    using db1(3) by auto
  have none: "open_deposits db' wallet = []" using assms(2) lp(3) fr by (rule none_open_after)
  have "ReconcileDepositsForWallet db wallet a now clock = Inr (db', int (length (open_deposits db wallet)))"
    using assms(3,4) pre lp(1) by (simp add: ReconcileDepositsForWallet_def Let_def flip: t_def)
  moreover have "ReconcileDepositsForWallet db' wallet a now2 clock2 = Inr (db', 0)"
    using assms(3,4) none by (simp add: ReconcileDepositsForWallet_def Let_def)
  ultimately show ?thesis using lp(2,3) ef none by blast
qed

lemma demo_deposits_inv: "billing_inv demo_deposits" "deposit_inv demo_deposits"
proof -
  have 1: "accounts_ok demo_deposits \<and> ledger_ok demo_deposits \<and> requests_ok demo_deposits \<and> settle_legs_ok demo_deposits \<and>
      keys_distinct d_key (deposits demo_deposits) \<and> list_all deposit_row_ok (deposits demo_deposits) \<and>
      deposit_legs_ok demo_deposits"
    by code_simp
  have "reserved_backed demo_deposits"
    by (simp add: reserved_backed_def demo_deposits_def reserved_of_def open_reserved_def row_simps
        new_account_def empty_db_def)
  with 1 show "billing_inv demo_deposits" by (simp add: billing_inv_def)
  have "deposited demo_deposits a = assigned_sum demo_deposits a" for a
    by (simp add: deposited_def assigned_sum_def demo_deposits_def row_simps credit_mark_def demo_event_def
        plain_leg_def empty_db_def)
  with 1 show "deposit_inv demo_deposits" by (simp add: deposit_inv_def)
qed

theorem ApplyDeposit_exactly_once_witness:
  "\<exists>db' ev'. ApplyDeposit demo_deposits ''s2'' 0 ''b1'' 5 6 = Inr (db', ev') \<and> deposit_inv db' \<and>
     credit_of db' ''b1'' = 1000 \<and> ApplyDeposit db' ''s2'' 0 ''b1'' 8 9 = Inr (db', ev')"
proof -
  have "case ApplyDeposit demo_deposits ''s2'' 0 ''b1'' 5 6 of
      Inr (db', ev') \<Rightarrow> d_amount ev' = 500 \<and> d_state ev' = ''assigned'' | Inl _ \<Rightarrow> False" by code_simp
  then obtain db' ev' where run: "ApplyDeposit demo_deposits ''s2'' 0 ''b1'' 5 6 = Inr (db', ev')"
    and ev': "d_amount ev' = 500" "d_state ev' = ''assigned''" by (auto split: sum.splits)
  have "lockDepositEvent demo_deposits ''s2'' 0 = Inr (demo_event ''s2'')" "credit_of demo_deposits ''b1'' = 500" by code_simp+
  moreover have "demo_event ''s2'' \<noteq> ev'" using ev'(2) by (auto simp: demo_event_def)
  ultimately show ?thesis
    using ApplyDeposit_exactly_once [OF demo_deposits_inv run, of 8 9] run ev'(1) by auto
qed

theorem ReconcileDepositsForWallet_complete_witness:
  "\<exists>db'. ReconcileDepositsForWallet demo_deposits ''w'' ''b1'' 5 6 = Inr (db', 1) \<and> deposit_inv db' \<and>
     credit_of db' ''b1'' = 1000 \<and> open_deposits db' ''w'' = []"
proof -
  have o: "open_deposits demo_deposits ''w'' = [demo_event ''s2'']" "credit_of demo_deposits ''b1'' = 500"
    "d_amount (demo_event ''s2'') = 500" by code_simp+
  show ?thesis
    using ReconcileDepositsForWallet_complete [OF demo_deposits_inv, of "''w''" "''b1''" 5 6 8 9] by (auto simp: o cong: if_cong)
qed

section \<open>Cursor and frames\<close>

text \<open>
  The cursor moves by compare-and-set. An advance from one signature to a different one succeeds
  exactly when the stored cursor is the expected one, and then the stored cursor is the new one;
  when it fails nothing changes. Two watchers advancing from the same cursor cannot both win.
\<close>

theorem AdvanceDepositCursor_cas:
  assumes "cursors_ok db" and "DepositCursor db ata = Inr c" and "fromSig \<noteq> toSig"
    and "AdvanceDepositCursor db ata fromSig toSig = Inr (db', won)"
  shows "(won \<longleftrightarrow> c = fromSig) \<and> DepositCursor db' ata = Inr (if won then toSig else c) \<and>
    (\<not> won \<longrightarrow> db' = db) \<and> cursors_ok db'"
proof -
  have ata: "ata \<noteq> []" and to: "toSig \<noteq> []"
    using assms(2,4) by (auto simp: DepositCursor_def AdvanceDepositCursor_def split: if_splits)
  have upd: "list_all (\<lambda>(_, s). s \<noteq> []) (update_row fst ata (\<lambda>_. (ata, toSig)) (deposit_cursors db))"
    using assms(1) to by (auto simp: cursors_ok_def list_all_iff dest!: set_update_row)
  show ?thesis
  proof (cases "find_row fst ata (deposit_cursors db)")
    case None
    with assms ata to show ?thesis
      by (auto simp: DepositCursor_def AdvanceDepositCursor_def has_row_find row_simps cursors_ok_def split: if_splits)
  next
    case (Some p)
    have "snd p \<noteq> []" using find_row_mem [OF Some] assms(1) by (auto simp: cursors_ok_def list_all_iff)
    with Some assms ata to upd show ?thesis
      by (cases p)
         (auto simp: DepositCursor_def AdvanceDepositCursor_def has_row_find find_row_update cursors_ok_def split: if_splits)
  qed
qed

theorem AdvanceDepositCursor_cas_witness:
  "\<exists>db'. AdvanceDepositCursor (empty_db\<lparr>deposit_cursors := [(''ata'', ''s1'')]\<rparr>) ''ata'' ''s1'' ''s2'' = Inr (db', True) \<and>
     DepositCursor db' ''ata'' = Inr ''s2''"
proof -
  let ?db = "empty_db\<lparr>deposit_cursors := [(''ata'', ''s1'')]\<rparr>"
  have f: "cursors_ok ?db" "DepositCursor ?db ''ata'' = Inr ''s1''" "''s1'' \<noteq> ''s2''" by code_simp+
  have "case AdvanceDepositCursor ?db ''ata'' ''s1'' ''s2'' of Inr (_, won) \<Rightarrow> won | Inl _ \<Rightarrow> False" by code_simp
  then obtain db' where "AdvanceDepositCursor ?db ''ata'' ''s1'' ''s2'' = Inr (db', True)" by (auto split: sum.splits)
  from this AdvanceDepositCursor_cas [OF f this] show ?thesis by auto
qed

lemma deposit_inv_frame:
  assumes "deposit_inv db" and "deposits db' = deposits db" and "ledger_ext L db db'" and "''deposit'' \<notin> L"
  shows "deposit_inv db'"
proof -
  have "deposit_legs_ok db'"
    using assms ledger_ext_mem [OF assms(3)] unfolding deposit_inv_def deposit_legs_ok_def by metis
  moreover have "deposited db' a = deposited db a" for a
    unfolding deposited_def using assms(4) by (intro ledger_ext_sum [OF assms(3)]) auto
  ultimately show ?thesis using assms(1,2) by (simp add: deposit_inv_def assigned_sum_def)
qed

lemma InsertDepositEvent_inv:
  assumes "InsertDepositEvent db ev clock = Inr (db', ins)" and "deposit_inv db"
  shows "deposit_inv db'"
  using assms
  by (auto simp: InsertDepositEvent_def deposit_inv_def row_simps d_key_def deposit_row_ok_def deposit_legs_ok_def
      deposited_def assigned_sum_def split: if_splits)

lemma InsertDepositEvent_books:
  assumes "InsertDepositEvent db ev clock = Inr (db', ins)"
  shows "accounts db' = accounts db" "requests db' = requests db" "ledger db' = ledger db" "next_ledger_id db' = next_ledger_id db"
    and "other_tables db' = other_tables (db\<lparr>deposits := deposits db'\<rparr>)"
  using assms by (auto simp: InsertDepositEvent_def other_tables_def split: if_splits)

lemma books_cong:
  assumes "accounts db' = accounts db" "requests db' = requests db" "ledger db' = ledger db" "next_ledger_id db' = next_ledger_id db"
  shows "billing_inv db' = billing_inv db" "drift db' a = drift db a" "credit_of db' a = credit_of db a"
    "total_credit db' = total_credit db"
  using assms
  by (simp_all add: billing_inv_def accounts_ok_def ledger_ok_def requests_ok_def settle_legs_ok_def reserved_backed_def
      reserved_of_def open_reserved_def drift_def credit_of_def ledger_sum_def total_credit_def)

end
