(* ===== verification/Deposit_Watcher.thy ===== *)
theory Deposit_Watcher
  imports Deposits
begin

unbundle bit_operations_syntax

text \<open>
  The deposit watcher, \<^verbatim>\<open>internal/deposits/deposits.go\<close>, with the transaction reading of
  \<^verbatim>\<open>internal/solana/rpc.go\<close> (\<^verbatim>\<open>TokenTransfers\<close>, \<^verbatim>\<open>appendTransfers\<close>, \<^verbatim>\<open>SenderWallet\<close>,
  \<^verbatim>\<open>fullAccountKeys\<close>) and the wallet lookup of \<^verbatim>\<open>internal/store/acl.go\<close>.

  The RPC node is a parameter: \<open>page before\<close> is the answer of \<^verbatim>\<open>getSignaturesForAddress\<close> and \<open>get_tx\<close>
  that of \<^verbatim>\<open>getTransaction\<close>. A transaction is the decoded JSON: a payload that does not decode as a
  transfer is \<open>None\<close>. A panic (a nil dereference) is the error \<open>panic\<close>, which ends the pass.
\<close>

section \<open>Transactions\<close>

record SignatureInfo =
  sg_signature :: string
  sg_slot :: int64
  sg_failed :: bool

record tokenTransferInfo =
  ti_source :: string
  ti_destination :: string
  ti_authority :: string
  ti_amount :: string

record ParsedInfo =
  pi_type :: string
  pi_transfer :: "tokenTransferInfo option"
  pi_mint :: string

record ParsedIx =
  ix_program :: string
  ix_parsed :: "ParsedInfo option"

record TokenBalance =
  tb_index :: int64
  tb_owner :: string

record ParsedMeta =
  pm_balances :: "TokenBalance list"
  pm_writable :: "string list"
  pm_readonly :: "string list"
  pm_inner :: "(int64 \<times> ParsedIx list) list"

record ConfirmedTransaction =
  ct_keys :: "string list"
  ct_instructions :: "ParsedIx list"
  ct_meta :: "ParsedMeta option"

record TokenTransfer =
  tt_index :: int64
  tt_source :: string
  tt_destination :: string
  tt_authority :: string
  tt_amount :: int64

definition transfer_index :: "nat \<Rightarrow> nat \<Rightarrow> int64" where
  "transfer_index outerIdx innerIdx = wrap64 (push_bit 32 (int outerIdx) OR int innerIdx)"

definition appendTransfers ::
  "TokenTransfer list \<Rightarrow> nat \<Rightarrow> nat \<Rightarrow> ParsedIx \<Rightarrow> string \<Rightarrow> string \<Rightarrow> TokenTransfer list"
where
  "appendTransfers out outerIdx innerIdx ix mint tokenProgram =
     (case ix_parsed ix of
        None \<Rightarrow> out
      | Some p \<Rightarrow>
          if tokenProgram \<noteq> [] \<and> ix_program ix \<noteq> tokenProgram then out
          else if pi_type p \<noteq> ''transfer'' \<and> pi_type p \<noteq> ''transferChecked'' then out
          else case pi_transfer p of
                 None \<Rightarrow> out
               | Some info \<Rightarrow>
                   if pi_type p = ''transferChecked'' \<and> mint \<noteq> [] \<and> pi_mint p \<noteq> mint then out
                   else if ti_source info = [] \<or> ti_destination info = [] then out
                   else case ParseInt (ti_amount info) of
                          None \<Rightarrow> out
                        | Some amount \<Rightarrow>
                            if amount \<le> 0 then out
                            else out @ [\<lparr>tt_index = transfer_index outerIdx innerIdx, tt_source = ti_source info,
                                   tt_destination = ti_destination info, tt_authority = ti_authority info,
                                   tt_amount = amount\<rparr>])"

fun append_inner ::
  "TokenTransfer list \<Rightarrow> nat \<Rightarrow> nat \<Rightarrow> ParsedIx list \<Rightarrow> string \<Rightarrow> string \<Rightarrow> TokenTransfer list"
where
  "append_inner out i j [] mint tokenProgram = out"
| "append_inner out i j (inner # rest) mint tokenProgram =
     append_inner (appendTransfers out i (j + 1) inner mint tokenProgram) i (j + 1) rest mint tokenProgram"

fun append_groups ::
  "TokenTransfer list \<Rightarrow> nat \<Rightarrow> (int64 \<times> ParsedIx list) list \<Rightarrow> string \<Rightarrow> string \<Rightarrow> TokenTransfer list"
where
  "append_groups out i [] mint tokenProgram = out"
| "append_groups out i ((g, ixs) # groups) mint tokenProgram =
     append_groups (if g \<noteq> int i then out else append_inner out i 0 ixs mint tokenProgram) i groups mint tokenProgram"

fun transfers_loop ::
  "TokenTransfer list \<Rightarrow> nat \<Rightarrow> ParsedIx list \<Rightarrow> ParsedMeta option \<Rightarrow> string \<Rightarrow> string \<Rightarrow> TokenTransfer list"
where
  "transfers_loop out i [] meta mint tokenProgram = out"
| "transfers_loop out i (ix # ixs) meta mint tokenProgram =
     (let out1 = appendTransfers out i 0 ix mint tokenProgram
      in transfers_loop (case meta of None \<Rightarrow> out1 | Some m \<Rightarrow> append_groups out1 i (pm_inner m) mint tokenProgram)
           (i + 1) ixs meta mint tokenProgram)"

definition TokenTransfers :: "ConfirmedTransaction \<Rightarrow> string \<Rightarrow> string \<Rightarrow> TokenTransfer list" where
  "TokenTransfers t mint tokenProgram = transfers_loop [] 0 (ct_instructions t) (ct_meta t) mint tokenProgram"

definition panic :: billing_error where
  "panic = ErrMsg ''panic''"

text \<open>The capacity of the slice is computed from \<^verbatim>\<open>t.Meta\<close> before \<^verbatim>\<open>t.Meta\<close> is tested for nil.\<close>

definition fullAccountKeys :: "ConfirmedTransaction \<Rightarrow> string list res" where
  "fullAccountKeys t =
     (case ct_meta t of
        None \<Rightarrow> Inl panic
      | Some m \<Rightarrow> Inr (ct_keys t @ pm_writable m @ pm_readonly m))"

fun index_of :: "string \<Rightarrow> string list \<Rightarrow> int64 \<Rightarrow> int64" where
  "index_of k [] i = -1"
| "index_of k (x # xs) i = (if x = k then i else index_of k xs (i + 1))"

fun owner_at :: "int64 \<Rightarrow> TokenBalance list \<Rightarrow> string option" where
  "owner_at idx [] = None"
| "owner_at idx (b # bs) = (if tb_index b = idx \<and> tb_owner b \<noteq> [] then Some (tb_owner b) else owner_at idx bs)"

definition SenderWallet :: "ConfirmedTransaction \<Rightarrow> string \<Rightarrow> string \<Rightarrow> string res" where
  "SenderWallet t sourceATA fallbackAuthority =
     rbind (fullAccountKeys t) (\<lambda>keys.
       let idx = index_of sourceATA keys 0
       in case ct_meta t of
            Some m \<Rightarrow> (if idx \<ge> 0 then (case owner_at idx (pm_balances m) of Some w \<Rightarrow> Inr w | None \<Rightarrow> Inr fallbackAuthority)
                       else Inr fallbackAuthority)
          | None \<Rightarrow> Inr fallbackAuthority)"

section \<open>The watcher\<close>

definition AccountForWallet :: "db \<Rightarrow> string \<Rightarrow> string option" where
  "AccountForWallet db wallet =
     (if wallet = [] then None else map_option uw_account (find_row uw_wallet wallet (user_wallets db)))"

record Service =
  sv_treasury_ata :: string
  sv_mint :: string
  sv_token_program :: string
  sv_poll_limit :: nat

definition transfer_event :: "SignatureInfo \<Rightarrow> TokenTransfer \<Rightarrow> string \<Rightarrow> DepositEvent" where
  "transfer_event sig tr fromWallet =
     \<lparr>d_signature = sg_signature sig, d_index = tt_index tr, d_slot = sg_slot sig, d_from_wallet = fromWallet,
      d_amount = tt_amount tr, d_account = None, d_state = [], d_credited_at = None, d_seen_at = zero_time\<rparr>"

text \<open>
  Each statement of the loop is a transaction of its own: an error ends the loop but keeps what the
  earlier statements committed, so the loop returns the database and the error, if any.
\<close>

fun process_transfers ::
  "Service \<Rightarrow> instant \<Rightarrow> db \<Rightarrow> SignatureInfo \<Rightarrow> ConfirmedTransaction \<Rightarrow> TokenTransfer list \<Rightarrow> db \<times> billing_error option"
where
  "process_transfers s clock db sig tx [] = (db, None)"
| "process_transfers s clock db sig tx (tr # trs) =
     (if tt_destination tr \<noteq> sv_treasury_ata s then process_transfers s clock db sig tx trs
      else case SenderWallet tx (tt_source tr) (tt_authority tr) of
        Inl e \<Rightarrow> (db, Some e)
      | Inr fromWallet \<Rightarrow>
          (case InsertDepositEvent db (transfer_event sig tr fromWallet) clock of
             Inl e \<Rightarrow> (db, Some e)
           | Inr (db1, _) \<Rightarrow>
               (case AccountForWallet db1 fromWallet of
                  None \<Rightarrow> process_transfers s clock db1 sig tx trs
                | Some a \<Rightarrow>
                    (case ApplyDeposit db1 (sg_signature sig) (tt_index tr) a clock clock of
                       Inl e \<Rightarrow> (db1, Some e)
                     | Inr (db2, _) \<Rightarrow> process_transfers s clock db2 sig tx trs))))"

definition processSignature ::
  "Service \<Rightarrow> (string \<Rightarrow> ConfirmedTransaction option res) \<Rightarrow> instant \<Rightarrow> db \<Rightarrow> SignatureInfo \<Rightarrow> db \<times> billing_error option"
where
  "processSignature s get_tx clock db sig =
     (if sg_failed sig then (db, None)
      else case get_tx (sg_signature sig) of
        Inl e \<Rightarrow> (db, Some e)
      | Inr None \<Rightarrow> (db, Some (ErrMsg ''get transaction: missing finalized transaction''))
      | Inr (Some tx) \<Rightarrow>
          process_transfers s clock db sig tx (TokenTransfers tx (sv_mint s) (sv_token_program s)))"

text \<open>One page: the signatures before the high-water mark, and whether the mark was met.\<close>

fun scan_page :: "string \<Rightarrow> SignatureInfo list \<Rightarrow> SignatureInfo list \<times> bool" where
  "scan_page lastSig [] = ([], False)"
| "scan_page lastSig (sg # sgs) =
     (if sg_signature sg = lastSig then ([], True)
      else let (taken, stop) = scan_page lastSig sgs in (sg # taken, stop))"

datatype 'a collected = CollectErr billing_error | EmptyPage nat | Pending 'a | OutOfFuel

text \<open>The paging loop has no bound of its own; \<open>fuel\<close> bounds the number of pages.\<close>

fun collect ::
  "nat \<Rightarrow> (string \<Rightarrow> SignatureInfo list res) \<Rightarrow> nat \<Rightarrow> string \<Rightarrow> string \<Rightarrow> SignatureInfo list \<Rightarrow> SignatureInfo list collected"
where
  "collect 0 page limit lastSig before pending = OutOfFuel"
| "collect (Suc fuel) page limit lastSig before pending =
     (case page before of
        Inl e \<Rightarrow> CollectErr e
      | Inr sigs \<Rightarrow>
          if sigs = [] then EmptyPage (length pending)
          else let (taken, stop) = scan_page lastSig sigs; pending1 = pending @ taken
               in if stop \<or> length sigs < limit \<or> lastSig = [] then Pending pending1
                  else collect fuel page limit lastSig (sg_signature (last sigs)) pending1)"

fun process_loop ::
  "Service \<Rightarrow> (string \<Rightarrow> ConfirmedTransaction option res) \<Rightarrow> instant \<Rightarrow> db \<Rightarrow> string \<Rightarrow> bool \<Rightarrow> SignatureInfo list \<Rightarrow>
   db \<times> billing_error option"
where
  "process_loop s get_tx clock db cursor blocked [] = (db, None)"
| "process_loop s get_tx clock db cursor blocked (sig # sigs) =
     (let (db1, err) = processSignature s get_tx clock db sig
      in if err = Some panic then (db1, err)
         else if err \<noteq> None then process_loop s get_tx clock db1 cursor True sigs
         else if blocked then process_loop s get_tx clock db1 cursor blocked sigs
         else case AdvanceDepositCursor db1 (sv_treasury_ata s) cursor (sg_signature sig) of
                Inl e \<Rightarrow> (db1, Some e)
              | Inr (db2, False) \<Rightarrow> (db2, None)
              | Inr (db2, True) \<Rightarrow> process_loop s get_tx clock db2 (sg_signature sig) blocked sigs)"




text \<open>
  The documented answer of \<^verbatim>\<open>getSignaturesForAddress\<close> on a history, newest first: the signatures older
  than \<open>before\<close>.
\<close>

definition older :: "SignatureInfo list \<Rightarrow> string \<Rightarrow> SignatureInfo list" where
  "older hist before = (if before = [] then hist else tl (dropWhile (\<lambda>g. sg_signature g \<noteq> before) hist))"

definition history_ok :: "SignatureInfo list \<Rightarrow> bool" where
  "history_ok hist \<longleftrightarrow> distinct (map sg_signature hist) \<and> [] \<notin> sg_signature ` set hist"

definition all_below :: "int \<Rightarrow> TokenTransfer list \<Rightarrow> bool" where
  "all_below b out \<longleftrightarrow> distinct (map tt_index out) \<and> (\<forall>tr \<in> set out. tt_index tr < b)"

definition inner_ok :: "ParsedMeta option \<Rightarrow> bool" where
  "inner_ok meta \<longleftrightarrow> (case meta of None \<Rightarrow> True
     | Some m \<Rightarrow> distinct (map fst (pm_inner m)) \<and> (\<forall>(g, ixs) \<in> set (pm_inner m). length ixs < 4294967296 - 1))"

definition demo_service :: Service where
  "demo_service = \<lparr>sv_treasury_ata = ''ata'', sv_mint = ''mint'', sv_token_program = ''token'', sv_poll_limit = 2\<rparr>"

definition demo_sig :: "string \<Rightarrow> SignatureInfo" where
  "demo_sig x = \<lparr>sg_signature = x, sg_slot = 1, sg_failed = False\<rparr>"

definition demo_transfer_ix :: ParsedIx where
  "demo_transfer_ix = \<lparr>ix_program = ''token'', ix_parsed = Some \<lparr>pi_type = ''transfer'',
     pi_transfer = Some \<lparr>ti_source = ''src'', ti_destination = ''ata'', ti_authority = ''w'', ti_amount = ''500''\<rparr>,
     pi_mint = []\<rparr>\<rparr>"

definition demo_budget_ix :: ParsedIx where
  "demo_budget_ix = \<lparr>ix_program = ''ComputeBudget111111111111111111111111111111'', ix_parsed = None\<rparr>"

definition demo_tx :: "ParsedIx list \<Rightarrow> ConfirmedTransaction" where
  "demo_tx ixs = \<lparr>ct_keys = [''w'', ''src'', ''ata''], ct_instructions = ixs,
     ct_meta = Some \<lparr>pm_balances = [\<lparr>tb_index = 1, tb_owner = ''w''\<rparr>], pm_writable = [], pm_readonly = [], pm_inner = []\<rparr>\<rparr>"

definition demo_wallet :: WalletInfo where
  "demo_wallet = \<lparr>uw_id = 1, uw_account = ''b1'', uw_wallet = ''w'', uw_primary = True, uw_created_at = 1\<rparr>"

definition demo_linked :: db where
  "demo_linked = empty_db\<lparr>user_wallets := [demo_wallet], deposit_cursors := [(''ata'', ''s0'')]\<rparr>"

section \<open>Instruction indices\<close>

lemma or_disjoint:
  assumes "j < 2 ^ 32"
  shows "push_bit 32 (int i) OR int j = int i * 4294967296 + int j"
proof -
  have "push_bit 32 (int i) AND int j = 0"
  proof (rule bit_eqI)
    fix n
    show "bit (push_bit 32 (int i) AND int j) n = bit (0 :: int) n"
    proof (cases "n < 32")
      case True
      then show ?thesis by (simp add: bit_simps)
    next
      case False
      have "int j < 2 ^ 32" using assms by (metis of_nat_less_iff of_nat_numeral of_nat_power)
      then have "take_bit 32 (int j) = int j" by (simp add: take_bit_int_eq_self)
      then have "\<not> bit (int j) n" using False by (metis bit_take_bit_iff)
      then show ?thesis by (simp add: bit_simps)
    qed
  qed
  then show ?thesis
    using plus_and_or [of "push_bit 32 (int i)" "int j"] by (simp add: push_bit_eq_mult)
qed

lemma transfer_index_exact:
  assumes "i < 2 ^ 31" and "j < 2 ^ 32"
  shows "transfer_index i j = int i * 4294967296 + int j"
proof -
  have "in_int64 (int i * 4294967296 + int j)" using assms by (simp add: in_int64_def)
  then show ?thesis by (simp add: transfer_index_def or_disjoint [OF assms(2)] wrap64_id)
qed

lemma transfer_index_inject:
  assumes "transfer_index i j = transfer_index i' j'" and "i < 2 ^ 31" "j < 2 ^ 32" "i' < 2 ^ 31" "j' < 2 ^ 32"
  shows "i = i' \<and> j = j'"
proof -
  have eq: "int i * 4294967296 + int j = int i' * 4294967296 + int j'"
    using assms by (simp only: transfer_index_exact)
  have "int j < 4294967296" "int j' < 4294967296" using assms(3,5) by simp_all
  with eq have "i = i'" by (cases i i' rule: linorder_cases) linarith+
  with eq show ?thesis by simp
qed

section \<open>What the watcher keeps\<close>













section \<open>A pass sees every new signature\<close>

lemma scan_page_found:
  "\<forall>x \<in> set xs. sg_signature x \<noteq> sg_signature g \<Longrightarrow> scan_page (sg_signature g) (xs @ g # ys) = (xs, True)"
  by (induction xs) auto

lemma scan_page_all: "\<forall>x \<in> set xs. sg_signature x \<noteq> l \<Longrightarrow> scan_page l xs = (xs, False)"
  by (induction xs) auto

lemma history_nonempty: "history_ok hist \<Longrightarrow> m < length hist \<Longrightarrow> sg_signature (hist ! m) \<noteq> []"
  using nth_mem [of m hist] by (metis history_ok_def imageI)

lemma older_nth:
  assumes "history_ok hist" and "m < length hist"
  shows "older hist (sg_signature (hist ! m)) = drop (Suc m) hist"
proof -
  have ne: "sg_signature (hist ! m) \<noteq> []" using assms by (rule history_nonempty)
  have "sg_signature x \<noteq> sg_signature (hist ! m)" if "x \<in> set (take m hist)" for x
    using that assms by (force simp: history_ok_def in_set_conv_nth nth_eq_iff_index_eq distinct_conv_nth)
  then have "dropWhile (\<lambda>g. sg_signature g \<noteq> sg_signature (hist ! m)) (take m hist @ drop m hist) =
      dropWhile (\<lambda>g. sg_signature g \<noteq> sg_signature (hist ! m)) (drop m hist)"
    by (intro dropWhile_append2) auto
  also have "\<dots> = drop m hist" using assms(2) by (simp add: Cons_nth_drop_Suc [symmetric])
  finally show ?thesis using ne by (simp add: older_def drop_Suc tl_drop)
qed

lemma history_distinct:
  assumes "history_ok hist" and "k < length hist" and "x \<in> set (take k hist)"
  shows "sg_signature x \<noteq> sg_signature (hist ! k)"
  using assms by (force simp: history_ok_def in_set_conv_nth distinct_conv_nth)

lemma in_set_take_drop:
  assumes "x \<in> set (take n (drop m xs))" and "m + n \<le> k"
  shows "x \<in> set (take k xs)"
proof -
  have "x \<in> set (take (m + n) xs)" using assms(1) by (simp add: take_add)
  with set_take_subset_set_take [OF assms(2), of xs] show ?thesis by blast
qed

lemma collect_from:
  assumes "history_ok hist" and "0 < limit" and "k < length hist" and "m \<le> k"
    and "older hist before = drop m hist" and "(k - m) div limit < fuel"
  shows "collect fuel (\<lambda>b. Inr (take limit (older hist b))) limit (sg_signature (hist ! k)) before (take m hist) =
    Pending (take k hist)"
  using assms(4-6)
proof (induction fuel arbitrary: m before)
  case (Suc fuel)
  let ?page = "take limit (drop m hist)" and ?last = "sg_signature (hist ! k)"
  have ne: "?page \<noteq> []" using assms(2,3) Suc.prems(1) by simp
  show ?case
  proof (cases "k < m + limit")
    case True
    define n where "n = limit - Suc (k - m)"
    have "?page = take (k - m) (drop m hist) @ hist ! k # take n (drop (Suc k) hist)"
    proof -
      have "?page = take ((k - m) + Suc n) (drop m hist)" using True Suc.prems(1) by (simp add: n_def)
      also have "\<dots> = take (k - m) (drop m hist) @ take (Suc n) (drop (k - m) (drop m hist))" by (rule take_add)
      also have "drop (k - m) (drop m hist) = hist ! k # drop (Suc k) hist"
        using Suc.prems(1) assms(3) by (simp add: Cons_nth_drop_Suc)
      finally show ?thesis by simp
    qed
    moreover have "sg_signature x \<noteq> ?last" if "x \<in> set (take (k - m) (drop m hist))" for x
      using that history_distinct [OF assms(1,3)] in_set_take_drop [OF that, of k] Suc.prems(1) by simp
    ultimately have "scan_page ?last ?page = (take (k - m) (drop m hist), True)"
      using scan_page_found by metis
    moreover have "take m hist @ take (k - m) (drop m hist) = take k hist"
      using Suc.prems(1) by (metis le_add_diff_inverse take_add)
    ultimately show ?thesis using ne by (simp add: Suc.prems(2))
  next
    case False
    have full: "length ?page = limit" using False assms(3) by simp
    have "sg_signature x \<noteq> ?last" if "x \<in> set ?page" for x
      using history_distinct [OF assms(1,3)] in_set_take_drop [OF that, of k] False by simp
    then have sp: "scan_page ?last ?page = (?page, False)" by (simp add: scan_page_all)
    have "last ?page = hist ! (m + limit - 1)"
      using full ne assms(2,3) False by (simp add: last_conv_nth)
    then have old: "older hist (sg_signature (last ?page)) = drop (m + limit) hist"
      using older_nth [OF assms(1), of "m + limit - 1"] assms(2,3) False by simp
    have lne: "?last \<noteq> []" using assms(1,3) by (rule history_nonempty)
    have "(k - (m + limit)) div limit < fuel"
    proof -
      have "(k - m) div limit = Suc ((k - (m + limit)) div limit)"
        using False assms(2) by (simp add: le_div_geq)
      with Suc.prems(3) show ?thesis by simp
    qed
    from Suc.IH [OF _ old this] False have
      "collect fuel (\<lambda>b. Inr (take limit (older hist b))) limit ?last (sg_signature (last ?page)) (take (m + limit) hist) =
        Pending (take k hist)" by simp
    then show ?thesis using ne sp full lne by (simp add: Suc.prems(2) take_add)
  qed
qed simp

text \<open>
  C33 (paging reaches the cursor). Against an RPC node that answers \<^verbatim>\<open>getSignaturesForAddress\<close> as documented
  and whose history holds the stored cursor, the paging loop ends after at most \<open>k div limit + 1\<close> pages with
  exactly the \<open>k\<close> signatures newer than the cursor, in order: no new signature is skipped, none is seen twice.
\<close>

theorem collect_complete:
  assumes "history_ok hist" and "0 < limit" and "k < length hist" and "k div limit < fuel"
  shows "collect fuel (\<lambda>b. Inr (take limit (older hist b))) limit (sg_signature (hist ! k)) [] [] = Pending (take k hist)"
  using collect_from [OF assms(1-3), of 0 "[]" fuel] assms(4) by (simp add: older_def)

theorem collect_complete_witness:
  "collect 2 (\<lambda>b. Inr (take 2 (older [demo_sig ''s4'', demo_sig ''s3'', demo_sig ''s2'', demo_sig ''s1'', demo_sig ''s0''] b)))
     2 ''s1'' [] [] = Pending [demo_sig ''s4'', demo_sig ''s3'', demo_sig ''s2'']"
proof -
  let ?h = "[demo_sig ''s4'', demo_sig ''s3'', demo_sig ''s2'', demo_sig ''s1'', demo_sig ''s0'']"
  have "history_ok ?h" "sg_signature (?h ! 3) = ''s1''" "take 3 ?h = [demo_sig ''s4'', demo_sig ''s3'', demo_sig ''s2'']"
    by code_simp+
  with collect_complete [of ?h 2 3 2] show ?thesis by simp
qed

section \<open>Transfers after the first instruction\<close>

lemma transfer_index_wide:
  assumes "1 \<le> i" "i < 2 ^ 31" "j < 2 ^ 32"
  shows "\<not> fits_int4 (transfer_index i j)"
  using assms by (simp add: transfer_index_exact fits_int4_def)

text \<open>
  A transfer after the first instruction is never credited. The synthetic index of a transfer under a
  top-level instruction other than the first is at least \<open>2 ^ 32\<close>, and the column it is stored in is a
  32-bit INT. So a finalized transfer into the treasury that follows, say, a compute-budget instruction is refused
  by the database on every pass: nothing is persisted, and since the signature failed the cursor does
  not move past it.
\<close>

theorem later_instruction_not_credited:
  assumes "\<not> sg_failed sig" and "get_tx (sg_signature sig) = Inr (Some tx)"
    and "TokenTransfers tx (sv_mint s) (sv_token_program s) = tr # trs"
    and "tt_destination tr = sv_treasury_ata s" and "tt_index tr = transfer_index i j"
    and "1 \<le> i" "i < 2 ^ 31" "j < 2 ^ 32" and "0 < tt_amount tr" and "sg_signature sig \<noteq> []"
    and "SenderWallet tx (tt_source tr) (tt_authority tr) = Inr w" and "w \<noteq> []"
  shows "processSignature s get_tx clock db sig = (db, Some (ErrPg NumericOutOfRange)) \<and>
    process_loop s get_tx clock db cursor blocked [sig] = (db, None)"
proof -
  have "InsertDepositEvent db (transfer_event sig tr w) clock = Inl (ErrPg NumericOutOfRange)"
    using assms transfer_index_wide [OF assms(6-8)] by (simp add: InsertDepositEvent_def transfer_event_def)
  then have "processSignature s get_tx clock db sig = (db, Some (ErrPg NumericOutOfRange))"
    using assms by (simp add: processSignature_def)
  then show ?thesis by (simp add: panic_def)
qed

theorem later_instruction_not_credited_witness:
  "processSignature demo_service (\<lambda>_. Inr (Some (demo_tx [demo_budget_ix, demo_transfer_ix]))) 9 demo_linked (demo_sig ''s1'') =
     (demo_linked, Some (ErrPg NumericOutOfRange)) \<and>
   process_loop demo_service (\<lambda>_. Inr (Some (demo_tx [demo_budget_ix, demo_transfer_ix]))) 9 demo_linked ''s0'' False [demo_sig ''s1''] =
     (demo_linked, None)"
proof -
  let ?tx = "demo_tx [demo_budget_ix, demo_transfer_ix]"
  let ?tr = "\<lparr>tt_index = transfer_index 1 0, tt_source = ''src'', tt_destination = ''ata'', tt_authority = ''w'', tt_amount = 500\<rparr>"
  have f: "\<not> sg_failed (demo_sig ''s1'')"
    "TokenTransfers ?tx (sv_mint demo_service) (sv_token_program demo_service) = [?tr]"
    "tt_destination ?tr = sv_treasury_ata demo_service" "0 < tt_amount ?tr" "sg_signature (demo_sig ''s1'') \<noteq> []"
    "SenderWallet ?tx (tt_source ?tr) (tt_authority ?tr) = Inr ''w''" by code_simp+
  show ?thesis
    using later_instruction_not_credited [of "demo_sig ''s1''" "\<lambda>_. Inr (Some ?tx)" ?tx demo_service ?tr "[]" 1 0 "''w''"] f
    by (simp add: panic_def)
qed

section \<open>Distinct indices\<close>

lemma appendTransfers_cases:
  "appendTransfers out i j ix mint prog = out \<or>
   (\<exists>tr. appendTransfers out i j ix mint prog = out @ [tr] \<and> tt_index tr = transfer_index i j)"
  by (auto simp: appendTransfers_def split: option.splits)

lemma all_below_append:
  assumes "all_below b out" and "b \<le> int i * 4294967296 + int j" and "i < 2 ^ 31" "j < 2 ^ 32"
  shows "all_below (int i * 4294967296 + int j + 1) (appendTransfers out i j ix mint prog)"
proof -
  have "tt_index tr < int i * 4294967296 + int j" if "tr \<in> set out" for tr
    using assms(1,2) that by (fastforce simp: all_below_def)
  then show ?thesis
    using appendTransfers_cases [of out i j ix mint prog] assms
    by (fastforce simp: all_below_def transfer_index_exact)
qed

lemma all_below_inner:
  "all_below (int i * 4294967296 + int j + 1) out \<Longrightarrow> i < 2 ^ 31 \<Longrightarrow> j + length ixs < 2 ^ 32 \<Longrightarrow>
   all_below (int i * 4294967296 + int (j + length ixs) + 1) (append_inner out i j ixs mint prog)"
proof (induction ixs arbitrary: out j)
  case (Cons ix ixs)
  have "all_below (int i * 4294967296 + int (j + 1) + 1) (appendTransfers out i (j + 1) ix mint prog)"
    using Cons.prems by (intro all_below_append [OF Cons.prems(1)]) simp_all
  from Cons.IH [OF this] Cons.prems show ?case by (simp add: ac_simps)
qed simp

lemma append_groups_none: "int i \<notin> fst ` set groups \<Longrightarrow> append_groups out i groups mint prog = out"
  by (induction groups arbitrary: out) auto

lemma all_below_mono: "all_below b out \<Longrightarrow> b \<le> b' \<Longrightarrow> all_below b' out"
  by (auto simp: all_below_def)

lemma all_below_groups:
  "all_below (int i * 4294967296 + 1) out \<Longrightarrow> i < 2 ^ 31 \<Longrightarrow> distinct (map fst groups) \<Longrightarrow>
   \<forall>(g, ixs) \<in> set groups. length ixs < 4294967296 - 1 \<Longrightarrow>
   all_below ((int i + 1) * 4294967296) (append_groups out i groups mint prog)"
proof (induction groups arbitrary: out)
  case Nil
  then show ?case by (auto elim: all_below_mono)
next
  case (Cons gr groups)
  obtain g ixs where gr: "gr = (g, ixs)" by fastforce
  show ?case
  proof (cases "g = int i")
    case True
    have "all_below (int i * 4294967296 + int (0 + length ixs) + 1) (append_inner out i 0 ixs mint prog)"
      using Cons.prems gr by (intro all_below_inner) auto
    moreover have "int i \<notin> fst ` set groups" using True Cons.prems(3) gr by simp
    moreover have "int i * 4294967296 + int (0 + length ixs) + 1 \<le> (int i + 1) * 4294967296"
      using Cons.prems(4) gr by auto
    ultimately show ?thesis using True gr by (auto simp: append_groups_none elim: all_below_mono)
  next
    case False
    with Cons gr show ?thesis by simp
  qed
qed

lemma all_below_loop:
  "all_below (int i * 4294967296) out \<Longrightarrow> i + length ixs \<le> 2 ^ 31 \<Longrightarrow> inner_ok meta \<Longrightarrow>
   distinct (map tt_index (transfers_loop out i ixs meta mint prog))"
proof (induction ixs arbitrary: out i)
  case Nil
  then show ?case by (simp add: all_below_def)
next
  case (Cons ix ixs)
  define out1 where "out1 = appendTransfers out i 0 ix mint prog"
  define out2 where "out2 = (case meta of None \<Rightarrow> out1 | Some m \<Rightarrow> append_groups out1 i (pm_inner m) mint prog)"
  have b1: "all_below (int i * 4294967296 + 1) out1"
    using all_below_append [OF Cons.prems(1), of i 0] Cons.prems(2) by (simp add: out1_def)
  have "all_below ((int i + 1) * 4294967296) out2"
    using all_below_groups [OF b1] all_below_mono [OF b1] Cons.prems(2,3)
    by (auto simp: out2_def inner_ok_def split: option.splits)
  then have "all_below (int (i + 1) * 4294967296) out2" by (simp add: ac_simps)
  from Cons.IH [OF this] Cons.prems(2,3) show ?case by (simp add: Let_def flip: out1_def out2_def)
qed

text \<open>
  The transfers of a transaction have distinct indices. Outer instructions and their inner calls get pairwise
  different indices, as long as the node lists each instruction's inner calls once, so that every inbound transfer
  of a transaction is a deposit event of its own.
\<close>

theorem TokenTransfers_distinct:
  assumes "length (ct_instructions tx) \<le> 2 ^ 31" and "inner_ok (ct_meta tx)"
  shows "distinct (map tt_index (TokenTransfers tx mint prog))"
  using all_below_loop [of 0 "[]" "ct_instructions tx" "ct_meta tx"] assms
  by (simp add: TokenTransfers_def all_below_def)

theorem TokenTransfers_distinct_witness:
  "distinct (map tt_index (TokenTransfers (demo_tx [demo_transfer_ix, demo_transfer_ix]) ''mint'' ''token''))"
proof -
  have "inner_ok (ct_meta (demo_tx [demo_transfer_ix, demo_transfer_ix]))"
    "length (ct_instructions (demo_tx [demo_transfer_ix, demo_transfer_ix])) = 2"
    by (simp_all add: inner_ok_def demo_tx_def)
  then show ?thesis by (intro TokenTransfers_distinct) simp_all
qed

end
