(* ===== verification/Withdrawals.thy ===== *)
theory Withdrawals
  imports Deposits
begin

text \<open>
  Withdrawals, \<^verbatim>\<open>internal/store/withdrawal.go\<close>: the amount leaves the credit projection when the
  withdrawal is reserved, and a guarded state machine (reserved, signed, broadcast, then finalized, restored or
  failed) decides whether it comes back. Every transition locks the row first (FOR UPDATE), so the
  transactions of the model are serial. An id is drawn from the table's sequence; the gaps that rolled back inserts leave are
  not modelled.
\<close>

section \<open>Rows\<close>

text \<open>Reading a row: a negative block height (a uint64 beyond int64 when it was written) reads as absent.\<close>

definition scanWithdrawal :: "Withdrawal \<Rightarrow> Withdrawal" where
  "scanWithdrawal w = w\<lparr>w_last_valid := (case w_last_valid w of None \<Rightarrow> None | Some v \<Rightarrow> if v \<ge> 0 then Some v else None)\<rparr>"

definition lockWithdrawal :: "db \<Rightarrow> int64 \<Rightarrow> Withdrawal res" where
  "lockWithdrawal db i =
     (case find_row w_id i (withdrawals db) of None \<Rightarrow> Inl ErrNotFound | Some w \<Rightarrow> Inr (scanWithdrawal w))"

definition requeryWithdrawal :: "db \<Rightarrow> int64 \<Rightarrow> Withdrawal res" where
  "requeryWithdrawal db i =
     (case find_row w_id i (withdrawals db) of None \<Rightarrow> Inl ErrNotFound | Some w \<Rightarrow> Inr (scanWithdrawal w))"

definition update_withdrawal :: "db \<Rightarrow> int64 \<Rightarrow> (Withdrawal \<Rightarrow> Withdrawal) \<Rightarrow> db" where
  "update_withdrawal db i f = db\<lparr>withdrawals := update_row w_id i f (withdrawals db)\<rparr>"

section \<open>Reservation\<close>

definition new_withdrawal :: "int64 \<Rightarrow> WithdrawalRequest \<Rightarrow> instant \<Rightarrow> Withdrawal" where
  "new_withdrawal i req now =
     \<lparr>w_id = i, w_account = wr_account req, w_key = wr_key req, w_destination = wr_destination req,
      w_amount = wr_amount req, w_state = WithdrawalReserved, w_signed_wire = [], w_signature = [],
      w_blockhash = [], w_last_valid = None, w_expires_at = None, w_error = [], w_reserved_at = now,
      w_signed_at = None, w_broadcast_at = None, w_finalized_at = None\<rparr>"

definition ReserveWithdrawal :: "db \<Rightarrow> WithdrawalRequest \<Rightarrow> instant \<Rightarrow> instant \<Rightarrow> (db \<times> Withdrawal) res" where
  "ReserveWithdrawal db req now0 clock =
     (if wr_account req = [] then Inl ErrInvalid
      else if wr_key req = [] then Inl ErrInvalid
      else if wr_destination req = [] then Inl ErrInvalid
      else if wr_amount req \<le> 0 then Inl ErrInvalid
      else let now = time_or_now clock now0
           in case find_row w_key (wr_key req) (withdrawals db) of
                Some w \<Rightarrow> (if w_account w \<noteq> wr_account req then Inl ErrConflict else Inr (db, scanWithdrawal w))
              | None \<Rightarrow>
                  let i = next_withdrawal_id db;
                      db1 = db\<lparr>withdrawals := withdrawals db @ [new_withdrawal i req now], next_withdrawal_id := i + 1\<rparr>
                  in case applyDelta db1 (wr_account req) (- wr_amount req) 0 now of
                       Inl _ \<Rightarrow> Inl ErrInsufficientCredit
                     | Inr (db2, creditRaw, reservedRaw) \<Rightarrow>
                         if creditRaw < 0 \<or> reservedRaw > creditRaw then Inl ErrInsufficientCredit
                         else rbind (unique_is_conflict (insert_ledger db2
                                (plain_leg (wr_account req) (- wr_amount req) ''withdraw'' ''withdraw'' (wr_destination req)
                                  (WithdrawalRef i) now))) (\<lambda>db3.
                              Inr (db3, new_withdrawal i req now)))"

definition Withdrawal_get :: "db \<Rightarrow> string \<Rightarrow> int64 \<Rightarrow> Withdrawal res" where
  "Withdrawal_get db a i =
     (if a = [] \<or> i \<le> 0 then Inl ErrNotFound
      else case find_row w_id i (withdrawals db) of
             None \<Rightarrow> Inl ErrNotFound
           | Some w \<Rightarrow> (if w_account w \<noteq> a then Inl ErrNotFound else Inr (scanWithdrawal w)))"

section \<open>Transitions\<close>

definition sign_mark :: "string \<Rightarrow> string \<Rightarrow> string \<Rightarrow> nat \<Rightarrow> instant \<Rightarrow> instant \<Rightarrow> Withdrawal \<Rightarrow> Withdrawal" where
  "sign_mark signedWire signature blockhash lastValidBlockHeight blockhashExpiresAt now r =
     r\<lparr>w_state := WithdrawalSigned, w_signed_wire := signedWire, w_signature := signature, w_blockhash := blockhash,
       w_last_valid := Some (wrap64 (int lastValidBlockHeight)),
       w_expires_at := (if blockhashExpiresAt = zero_time then None else Some blockhashExpiresAt),
       w_signed_at := Some now\<rparr>"

definition broadcast_mark :: "instant \<Rightarrow> Withdrawal \<Rightarrow> Withdrawal" where
  "broadcast_mark now r = r\<lparr>w_state := WithdrawalBroadcast, w_broadcast_at := Some now\<rparr>"

definition finalize_mark :: "instant \<Rightarrow> Withdrawal \<Rightarrow> Withdrawal" where
  "finalize_mark now r = r\<lparr>w_state := WithdrawalFinalized, w_finalized_at := Some now\<rparr>"

definition fail_mark :: "string \<Rightarrow> Withdrawal \<Rightarrow> Withdrawal" where
  "fail_mark reason r = r\<lparr>w_state := WithdrawalFailed, w_error := reason\<rparr>"

definition MarkWithdrawalSigned ::
  "db \<Rightarrow> int64 \<Rightarrow> string \<Rightarrow> string \<Rightarrow> string \<Rightarrow> nat \<Rightarrow> instant \<Rightarrow> instant \<Rightarrow> instant \<Rightarrow> (db \<times> Withdrawal) res"
where
  "MarkWithdrawalSigned db i signedWire signature blockhash lastValidBlockHeight blockhashExpiresAt now clock =
     (if signedWire = [] \<or> signature = [] \<or> blockhash = [] then Inl ErrInvalid
      else rbind (lockWithdrawal db i) (\<lambda>w.
        if w_state w \<noteq> WithdrawalReserved then Inr (db, w)
        else let db1 = update_withdrawal db i
                   (sign_mark signedWire signature blockhash lastValidBlockHeight blockhashExpiresAt (time_or_now clock now))
             in rbind (requeryWithdrawal db1 i) (\<lambda>w1. Inr (db1, w1))))"

definition MarkWithdrawalBroadcast :: "db \<Rightarrow> int64 \<Rightarrow> instant \<Rightarrow> instant \<Rightarrow> (db \<times> Withdrawal) res" where
  "MarkWithdrawalBroadcast db i now clock =
     rbind (lockWithdrawal db i) (\<lambda>w.
       if w_state w \<noteq> WithdrawalSigned then Inr (db, w)
       else let db1 = update_withdrawal db i (broadcast_mark (time_or_now clock now))
            in rbind (requeryWithdrawal db1 i) (\<lambda>w1. Inr (db1, w1)))"

definition FinalizeWithdrawal :: "db \<Rightarrow> int64 \<Rightarrow> instant \<Rightarrow> instant \<Rightarrow> (db \<times> Withdrawal) res" where
  "FinalizeWithdrawal db i now clock =
     rbind (lockWithdrawal db i) (\<lambda>w.
       if w_state w \<noteq> WithdrawalSigned \<and> w_state w \<noteq> WithdrawalBroadcast then Inr (db, w)
       else let db1 = update_withdrawal db i (finalize_mark (time_or_now clock now))
            in rbind (requeryWithdrawal db1 i) (\<lambda>w1. Inr (db1, w1)))"

definition open_state :: "WithdrawalState \<Rightarrow> bool" where
  "open_state st \<longleftrightarrow> st = WithdrawalReserved \<or> st = WithdrawalSigned \<or> st = WithdrawalBroadcast"

definition restore_mark :: "string \<Rightarrow> Withdrawal \<Rightarrow> Withdrawal" where
  "restore_mark reason r = r\<lparr>w_state := WithdrawalRestored, w_error := reason\<rparr>"

definition RestoreWithdrawal :: "db \<Rightarrow> int64 \<Rightarrow> string \<Rightarrow> instant \<Rightarrow> instant \<Rightarrow> (db \<times> Withdrawal) res" where
  "RestoreWithdrawal db i reason now0 clock =
     rbind (lockWithdrawal db i) (\<lambda>w.
       if w_state w \<noteq> WithdrawalReserved \<and> w_state w \<noteq> WithdrawalSigned \<and> w_state w \<noteq> WithdrawalBroadcast then Inr (db, w)
       else let now = time_or_now clock now0
            in rbind (applyDelta db (w_account w) (w_amount w) 0 now) (\<lambda>(db1, _, _).
               rbind (unique_aborts (insert_ledger db1 (plain_leg (w_account w) (w_amount w) ''withdraw'' ''restore''
                        (w_destination w) (WithdrawalRef i) now))) (\<lambda>db2.
                 let db3 = update_withdrawal db2 i (restore_mark reason)
                 in rbind (requeryWithdrawal db3 i) (\<lambda>w1. Inr (db3, w1)))))"

definition FailWithdrawal :: "db \<Rightarrow> int64 \<Rightarrow> string \<Rightarrow> instant \<Rightarrow> (db \<times> Withdrawal) res" where
  "FailWithdrawal db i reason now =
     rbind (lockWithdrawal db i) (\<lambda>w.
       if w_state w \<noteq> WithdrawalReserved \<and> w_state w \<noteq> WithdrawalSigned \<and> w_state w \<noteq> WithdrawalBroadcast then Inr (db, w)
       else let db1 = update_withdrawal db i (fail_mark reason)
            in rbind (requeryWithdrawal db1 i) (\<lambda>w1. Inr (db1, w1)))"

text \<open>\<open>locked\<close> marks the rows another transaction holds at that moment (SKIP LOCKED).\<close>

definition SweepWithdrawalsDue :: "db \<Rightarrow> (int64 \<Rightarrow> bool) \<Rightarrow> int64 \<Rightarrow> Withdrawal list" where
  "SweepWithdrawalsDue db locked limit =
     (let lim = (if limit \<le> 0 \<or> limit > 100 then 20 else limit)
      in map scanWithdrawal (take (nat lim) (sort_key w_reserved_at
           (filter (\<lambda>w. open_state (w_state w) \<and> \<not> locked (w_id w)) (withdrawals db)))))"

section \<open>Invariant\<close>

text \<open>Credit an account has sent out: withdrawals that were not restored.\<close>

definition withdrawn :: "db \<Rightarrow> string \<Rightarrow> int" where
  "withdrawn db a = sum_rows (\<lambda>w. w_account w = a \<and> w_state w \<noteq> WithdrawalRestored) w_amount (withdrawals db)"

definition is_withdraw_leg :: "LedgerEntry \<Rightarrow> bool" where
  "is_withdraw_leg e \<longleftrightarrow> l_leg e = ''withdraw'' \<or> l_leg e = ''restore''"

definition withdraw_leg_names :: "string set" where
  "withdraw_leg_names = {''withdraw'', ''restore''}"

definition withdraw_legs :: "db \<Rightarrow> string \<Rightarrow> int" where
  "withdraw_legs db a = sum_rows (\<lambda>e. is_withdraw_leg e \<and> l_account e = a) l_delta (ledger db)"

definition withdrawal_rows_ok :: "db \<Rightarrow> bool" where
  "withdrawal_rows_ok db \<longleftrightarrow> keys_distinct w_id (withdrawals db) \<and> keys_distinct w_key (withdrawals db) \<and>
     list_all (\<lambda>w. 0 < w_amount w \<and> w_id w < next_withdrawal_id db) (withdrawals db)"

definition withdrawal_legs_ok :: "db \<Rightarrow> bool" where
  "withdrawal_legs_ok db \<longleftrightarrow> (\<forall>e \<in> set (ledger db).
     (l_leg e = ''withdraw'' \<longrightarrow> (\<exists>w \<in> set (withdrawals db). l_ref e = WithdrawalRef (w_id w))) \<and>
     (l_leg e = ''restore'' \<longrightarrow> (\<exists>w \<in> set (withdrawals db). l_ref e = WithdrawalRef (w_id w) \<and> w_state w = WithdrawalRestored)))"

definition withdrawal_inv :: "db \<Rightarrow> bool" where
  "withdrawal_inv db \<longleftrightarrow> withdrawal_rows_ok db \<and> withdrawal_legs_ok db \<and> (\<forall>a. withdraw_legs db a = - withdrawn db a)"

section \<open>The state machine\<close>

inductive wd_step :: "WithdrawalState \<Rightarrow> WithdrawalState \<Rightarrow> bool" where
  wd_sign: "wd_step WithdrawalReserved WithdrawalSigned"
| wd_broadcast: "wd_step WithdrawalSigned WithdrawalBroadcast"
| wd_finalize: "st = WithdrawalSigned \<or> st = WithdrawalBroadcast \<Longrightarrow> wd_step st WithdrawalFinalized"
| wd_restore: "open_state st \<Longrightarrow> wd_step st WithdrawalRestored"
| wd_fail: "open_state st \<Longrightarrow> wd_step st WithdrawalFailed"

inductive_simps wd_step_simps: "wd_step st st'"

fun wd_rank :: "WithdrawalState \<Rightarrow> nat" where
  "wd_rank WithdrawalReserved = 0"
| "wd_rank WithdrawalSigned = 1"
| "wd_rank WithdrawalBroadcast = 2"
| "wd_rank WithdrawalFinalized = 3"
| "wd_rank WithdrawalFailed = 3"
| "wd_rank WithdrawalRestored = 3"

text \<open>The operations that change withdrawals, as one type.\<close>

datatype withdrawal_op =
    WdReserve WithdrawalRequest instant instant
  | WdSigned int64 string string string nat instant instant instant
  | WdBroadcast int64 instant instant
  | WdFinalize int64 instant instant
  | WdRestore int64 string instant instant
  | WdFail int64 string instant

fun exec_withdrawal :: "withdrawal_op \<Rightarrow> db \<Rightarrow> (db \<times> Withdrawal) res" where
  "exec_withdrawal (WdReserve req now clock) db = ReserveWithdrawal db req now clock"
| "exec_withdrawal (WdSigned i wire sig bh lv ex now clock) db = MarkWithdrawalSigned db i wire sig bh lv ex now clock"
| "exec_withdrawal (WdBroadcast i now clock) db = MarkWithdrawalBroadcast db i now clock"
| "exec_withdrawal (WdFinalize i now clock) db = FinalizeWithdrawal db i now clock"
| "exec_withdrawal (WdRestore i reason now clock) db = RestoreWithdrawal db i reason now clock"
| "exec_withdrawal (WdFail i reason now) db = FailWithdrawal db i reason now"

text \<open>A change of a row that keeps what the ledger speaks about.\<close>

definition keeps_identity :: "(Withdrawal \<Rightarrow> Withdrawal) \<Rightarrow> bool" where
  "keeps_identity f \<longleftrightarrow> (\<forall>w. w_id (f w) = w_id w \<and> w_key (f w) = w_key w \<and> w_account (f w) = w_account w \<and> w_amount (f w) = w_amount w)"

text \<open>How the rows may change over time: none disappears, its identity and amount stay, its state moves up the machine.\<close>

definition rows_evolve :: "db \<Rightarrow> db \<Rightarrow> bool" where
  "rows_evolve db db' \<longleftrightarrow> (\<forall>i w. find_row w_id i (withdrawals db) = Some w \<longrightarrow>
     (\<exists>w'. find_row w_id i (withdrawals db') = Some w' \<and> w_account w' = w_account w \<and> w_amount w' = w_amount w \<and>
       wd_step\<^sup>*\<^sup>* (w_state w) (w_state w')))"

definition withdrawal_rel :: "db \<Rightarrow> db \<Rightarrow> bool" where
  "withdrawal_rel db db' \<longleftrightarrow> (\<forall>a. drift db' a = drift db a) \<and> rows_evolve db db'"

definition demo_wd_request :: WithdrawalRequest where
  "demo_wd_request = \<lparr>wr_account = ''b1'', wr_key = ''k1'', wr_destination = ''w'', wr_amount = 300\<rparr>"

interpretation wd: ranked_machine wd_step wd_rank 3
proof
  show "wd_step s t \<Longrightarrow> wd_rank s < wd_rank t" for s t
    by (induction rule: wd_step.induct) (auto simp: open_state_def)
  show "wd_rank s \<le> 3" for s by (cases s) simp_all
qed

section \<open>Transitions keep the books\<close>

lemma scan_fields [simp]:
  "w_id (scanWithdrawal w) = w_id w" "w_account (scanWithdrawal w) = w_account w" "w_key (scanWithdrawal w) = w_key w"
  "w_amount (scanWithdrawal w) = w_amount w" "w_state (scanWithdrawal w) = w_state w" "w_destination (scanWithdrawal w) = w_destination w"
  "w_signed_wire (scanWithdrawal w) = w_signed_wire w" "w_signature (scanWithdrawal w) = w_signature w"
  by (simp_all add: scanWithdrawal_def)

lemma scan_scan [simp]: "scanWithdrawal (scanWithdrawal w) = scanWithdrawal w"
  by (simp add: scanWithdrawal_def split: option.splits)

lemma update_withdrawal_find:
  assumes "keeps_identity f"
  shows "find_row w_id k (withdrawals (update_withdrawal db i f)) =
    (if k = i then map_option f (find_row w_id i (withdrawals db)) else find_row w_id k (withdrawals db))"
  using assms by (simp add: update_withdrawal_def find_row_update keeps_identity_def)

lemma update_withdrawal_key:
  assumes "keeps_identity f"
  shows "map w_key (withdrawals (update_withdrawal db i f)) = map w_key (withdrawals db)"
  using assms by (simp add: update_withdrawal_def update_row_def keeps_identity_def)

lemma update_withdrawal_rows:
  assumes "keeps_identity f" and "withdrawal_rows_ok db"
  shows "withdrawal_rows_ok (update_withdrawal db i f)"
proof -
  have "keys_distinct w_key (withdrawals (update_withdrawal db i f))"
    using assms by (simp add: keys_distinct_def update_withdrawal_key withdrawal_rows_ok_def)
  moreover have "keys_distinct w_id (withdrawals (update_withdrawal db i f))"
    using assms by (simp add: withdrawal_rows_ok_def update_withdrawal_def keys_distinct_update keeps_identity_def)
  ultimately show ?thesis
    using assms by (auto simp: withdrawal_rows_ok_def update_withdrawal_def list_all_iff keeps_identity_def dest!: set_update_row)
qed

lemma update_withdrawal_sum:
  assumes "keeps_identity f" and "withdrawal_rows_ok db" and "find_row w_id i (withdrawals db) = Some w"
    and "w_state w \<noteq> WithdrawalRestored"
  shows "withdrawn (update_withdrawal db i f) a =
    withdrawn db a - (if w_state (f w) = WithdrawalRestored \<and> a = w_account w then w_amount w else 0)"
proof -
  have dist: "keys_distinct w_id (withdrawals db)" using assms(2) by (simp add: withdrawal_rows_ok_def)
  show ?thesis
    using sum_rows_update [OF dist assms(3), of "\<lambda>w. w_account w = a \<and> w_state w \<noteq> WithdrawalRestored" w_amount f] assms(1,4)
    by (auto simp: withdrawn_def update_withdrawal_def keeps_identity_def)
qed

lemma update_withdrawal_legs:
  assumes "keeps_identity f" and "withdrawal_rows_ok db" and "withdrawal_legs_ok db" and "find_row w_id i (withdrawals db) = Some w"
    and "w_state w \<noteq> WithdrawalRestored"
  shows "withdrawal_legs_ok (update_withdrawal db i f)"
proof -
  have keep: "x \<in> set (withdrawals db) \<Longrightarrow> \<exists>y \<in> set (withdrawals (update_withdrawal db i f)). w_id y = w_id x \<and>
      (w_state x = WithdrawalRestored \<longrightarrow> w_state y = WithdrawalRestored)" for x
  proof (cases "w_id x = i")
    case True
    assume x: "x \<in> set (withdrawals db)"
    have "x = w" using find_row_distinct [of w_id "withdrawals db" x] x True assms(2,4) by (simp add: withdrawal_rows_ok_def)
    moreover have "f x \<in> set (withdrawals (update_withdrawal db i f))"
      using x True by (force simp: update_withdrawal_def update_row_def)
    ultimately show ?thesis using assms(1,5) by (auto simp: keeps_identity_def)
  next
    case False
    assume "x \<in> set (withdrawals db)"
    with False have "x \<in> set (withdrawals (update_withdrawal db i f))" by (force simp: update_withdrawal_def update_row_def)
    then show ?thesis by blast
  qed
  have led: "ledger (update_withdrawal db i f) = ledger db" by (simp add: update_withdrawal_def)
  show ?thesis
    unfolding withdrawal_legs_ok_def led
  proof (intro ballI conjI impI)
    fix e assume e: "e \<in> set (ledger db)" "l_leg e = ''withdraw''"
    with assms(3) obtain x where "x \<in> set (withdrawals db)" "l_ref e = WithdrawalRef (w_id x)"
      by (auto simp: withdrawal_legs_ok_def)
    with keep [of x] show "\<exists>w \<in> set (withdrawals (update_withdrawal db i f)). l_ref e = WithdrawalRef (w_id w)" by metis
  next
    fix e assume e: "e \<in> set (ledger db)" "l_leg e = ''restore''"
    with assms(3) obtain x where "x \<in> set (withdrawals db)" "l_ref e = WithdrawalRef (w_id x)" "w_state x = WithdrawalRestored"
      by (auto simp: withdrawal_legs_ok_def)
    with keep [of x] show "\<exists>w \<in> set (withdrawals (update_withdrawal db i f)). l_ref e = WithdrawalRef (w_id w) \<and>
        w_state w = WithdrawalRestored" by metis
  qed
qed

text \<open>A transition other than a restore.\<close>

lemma transition_inv:
  assumes "keeps_identity f" and "withdrawal_inv db" and "find_row w_id i (withdrawals db) = Some w"
    and "w_state w \<noteq> WithdrawalRestored" and "w_state (f w) \<noteq> WithdrawalRestored"
  shows "withdrawal_inv (update_withdrawal db i f)"
proof -
  have ok: "withdrawal_rows_ok db" "withdrawal_legs_ok db" "\<And>a. withdraw_legs db a = - withdrawn db a"
    using assms(2) by (simp_all add: withdrawal_inv_def)
  have "withdraw_legs (update_withdrawal db i f) a = withdraw_legs db a" for a
    by (simp add: withdraw_legs_def update_withdrawal_def)
  then show ?thesis
    using update_withdrawal_rows [OF assms(1) ok(1)] update_withdrawal_legs [OF assms(1) ok(1,2) assms(3,4)]
      update_withdrawal_sum [OF assms(1) ok(1) assms(3,4)] ok(3) assms(5) by (simp add: withdrawal_inv_def)
qed

lemma lockE:
  assumes "lockWithdrawal db i = Inr w"
  obtains x where "find_row w_id i (withdrawals db) = Some x" "w = scanWithdrawal x" "w_state x = w_state w" "w_id x = i"
  using assms by (auto simp: lockWithdrawal_def dest: find_row_key split: option.splits)

lemma withdrawal_inv_cong:
  assumes "withdrawals db' = withdrawals db" "next_withdrawal_id db' = next_withdrawal_id db" "ledger db' = ledger db"
  shows "withdrawal_inv db' = withdrawal_inv db"
  using assms by (simp add: withdrawal_inv_def withdrawal_rows_ok_def withdrawal_legs_ok_def withdrawn_def withdraw_legs_def)

lemma update_withdrawal_books:
  "billing_inv (update_withdrawal db i f) = billing_inv db" "drift (update_withdrawal db i f) a = drift db a"
  "credit_of (update_withdrawal db i f) a = credit_of db a" "ledger (update_withdrawal db i f) = ledger db"
  "deposits (update_withdrawal db i f) = deposits db"
  using books_cong [of "update_withdrawal db i f" db] by (simp_all add: update_withdrawal_def)

text \<open>The ledgered part of a restore: credit back, and the leg that says so.\<close>

lemma restore_leg_fresh:
  assumes "withdrawal_inv db" and "find_row w_id i (withdrawals db) = Some w" and "w_state w \<noteq> WithdrawalRestored"
  shows "(WithdrawalRef i, ''restore'') \<notin> ledger_key ` set (ledger db)"
proof
  assume "(WithdrawalRef i, ''restore'') \<in> ledger_key ` set (ledger db)"
  then obtain e where "e \<in> set (ledger db)" "l_leg e = ''restore''" "l_ref e = WithdrawalRef i" by (auto simp: ledger_key_def)
  with assms(1) obtain x where x: "x \<in> set (withdrawals db)" "w_id x = i" "w_state x = WithdrawalRestored"
    by (force simp: withdrawal_inv_def withdrawal_legs_ok_def WithdrawalRef_inject)
  then have "x = w"
    using find_row_distinct [of w_id "withdrawals db" x] assms(1,2) by (simp add: withdrawal_inv_def withdrawal_rows_ok_def)
  with x assms(3) show False by simp
qed

lemma RestoreWithdrawalE:
  assumes "RestoreWithdrawal db i reason now clock = Inr (db', w')"
    and "find_row w_id i (withdrawals db) = Some w" and "open_state (w_state w)"
  obtains db1 c r db2 t where "applyDelta db (w_account w) (w_amount w) 0 t = Inr (db1, c, r)"
    and "insert_ledger db1 (plain_leg (w_account w) (w_amount w) ''withdraw'' ''restore'' (w_destination w) (WithdrawalRef i) t) = Inr db2"
    and "db' = update_withdrawal db2 i (restore_mark reason)" and "w' = scanWithdrawal (restore_mark reason w)"
    and "find_row w_id i (withdrawals db') = Some (restore_mark reason w)"
    and "withdrawals db2 = withdrawals db" "requests db2 = requests db" "deposits db2 = deposits db"
      "next_withdrawal_id db2 = next_withdrawal_id db" "ledger db1 = ledger db"
proof -
  have id: "keeps_identity (restore_mark reason)" by (simp add: keeps_identity_def restore_mark_def)
  have lk: "lockWithdrawal db i = Inr (scanWithdrawal w)" using assms(2) by (simp add: lockWithdrawal_def)
  from assms(1,3) lk obtain db1 c r db2 where
    ap: "applyDelta db (w_account w) (w_amount w) 0 (time_or_now clock now) = Inr (db1, c, r)"
    and il: "insert_ledger db1 (plain_leg (w_account w) (w_amount w) ''withdraw'' ''restore'' (w_destination w) (WithdrawalRef i)
        (time_or_now clock now)) = Inr db2"
    and db': "db' = update_withdrawal db2 i (restore_mark reason)" and rq: "requeryWithdrawal db' i = Inr w'"
    by (auto simp: RestoreWithdrawal_def res_simps Let_def open_state_def split: if_splits)
  have same: "withdrawals db2 = withdrawals db" "requests db2 = requests db" "deposits db2 = deposits db"
      "next_withdrawal_id db2 = next_withdrawal_id db" "ledger db1 = ledger db"
    using applyDelta_other [OF ap] insert_ledger_other [OF il] by simp_all
  have fr: "find_row w_id i (withdrawals db') = Some (restore_mark reason w)"
    using assms(2) by (simp add: db' update_withdrawal_find [OF id] same)
  moreover from rq fr have "w' = scanWithdrawal (restore_mark reason w)" by (simp add: requeryWithdrawal_def)
  ultimately show ?thesis using that ap il db' same by blast
qed

lemma restore_books:
  assumes "RestoreWithdrawal db i reason now clock = Inr (db', w')"
    and "find_row w_id i (withdrawals db) = Some w" and "open_state (w_state w)"
  shows "billing_inv db \<Longrightarrow> billing_inv db'" "drift db' a = drift db a"
    "credit_of db' a = credit_of db a + (if a = w_account w then w_amount w else 0)"
    "ledger_ext withdraw_leg_names db db'" "deposits db' = deposits db"
    "find_row w_id k (withdrawals db') = (if k = i then Some (restore_mark reason w) else find_row w_id k (withdrawals db))"
proof -
  from assms obtain db1 c r db2 t where ap: "applyDelta db (w_account w) (w_amount w) 0 t = Inr (db1, c, r)"
    and il: "insert_ledger db1 (plain_leg (w_account w) (w_amount w) ''withdraw'' ''restore'' (w_destination w) (WithdrawalRef i) t) = Inr db2"
    and db': "db' = update_withdrawal db2 i (restore_mark reason)"
    and fr: "find_row w_id i (withdrawals db') = Some (restore_mark reason w)"
    and same: "withdrawals db2 = withdrawals db" "requests db2 = requests db" "deposits db2 = deposits db"
    by (rule RestoreWithdrawalE)
  note mv = ledgered_move [OF ap il leg_fields(1,2)]
  have id: "keeps_identity (restore_mark reason)" by (simp add: keeps_identity_def restore_mark_def)
  show ext: "ledger_ext withdraw_leg_names db db'"
    using mv(7) by (auto simp: db' update_withdrawal_def ledger_ext_def withdraw_leg_names_def)
  show "deposits db' = deposits db" by (simp add: db' update_withdrawal_books same)
  show "drift db' a = drift db a" "credit_of db' a = credit_of db a + (if a = w_account w then w_amount w else 0)"
    using mv(1,3) by (simp_all add: db' update_withdrawal_books)
  show "find_row w_id k (withdrawals db') = (if k = i then Some (restore_mark reason w) else find_row w_id k (withdrawals db))"
    using fr by (simp add: db' update_withdrawal_find [OF id] same)
  show "billing_inv db'" if inv: "billing_inv db"
  proof (rule billing_inv_frame [OF inv _ _ _ _ ext])
    show "accounts_ok db'" "ledger_ok db'" "requests db' = requests db"
      using mv(4,5) inv same by (simp_all add: db' billing_inv_def update_withdrawal_def accounts_ok_def ledger_ok_def)
    show "reserved_of db' a = reserved_of db a" for a
      using mv(2) by (simp add: db' update_withdrawal_def reserved_of_def)
  qed (simp_all add: withdraw_leg_names_def)
qed

lemma restore_inv:
  assumes "withdrawal_inv db" and "RestoreWithdrawal db i reason now clock = Inr (db', w')"
    and row: "find_row w_id i (withdrawals db) = Some w" and opn: "open_state (w_state w)"
  shows "withdrawal_inv db'"
proof -
  from assms(2) row opn obtain db1 c r db2 t where ap: "applyDelta db (w_account w) (w_amount w) 0 t = Inr (db1, c, r)"
    and il: "insert_ledger db1 (plain_leg (w_account w) (w_amount w) ''withdraw'' ''restore'' (w_destination w) (WithdrawalRef i) t) = Inr db2"
    and db': "db' = update_withdrawal db2 i (restore_mark reason)"
    and fr: "find_row w_id i (withdrawals db') = Some (restore_mark reason w)"
    and same: "withdrawals db2 = withdrawals db" "next_withdrawal_id db2 = next_withdrawal_id db" "ledger db1 = ledger db"
    by (rule RestoreWithdrawalE)
  let ?e = "plain_leg (w_account w) (w_amount w) ''withdraw'' ''restore'' (w_destination w) (WithdrawalRef i) t"
  have id: "keeps_identity (restore_mark reason)" by (simp add: keeps_identity_def restore_mark_def)
  have nr: "w_state w \<noteq> WithdrawalRestored" and ww: "w_state (restore_mark reason w) = WithdrawalRestored"
    and wid: "w_id (restore_mark reason w) = i"
    using opn find_row_key [OF row] by (auto simp: open_state_def restore_mark_def)
  have ok: "withdrawal_rows_ok db" "withdrawal_legs_ok db" "\<And>a. withdraw_legs db a = - withdrawn db a"
    using assms(1) by (simp_all add: withdrawal_inv_def)
  have wd': "withdrawals db' = withdrawals (update_withdrawal db i (restore_mark reason))"
    by (simp add: db' update_withdrawal_def same)
  have led': "ledger db' = ledger db @ [?e\<lparr>l_id := next_ledger_id db1\<rparr>]"
    using insert_ledger_rows(1) [OF il] same by (simp add: db' update_withdrawal_books)
  note mem = find_row_mem [OF fr]
  have "withdrawal_legs_ok (update_withdrawal db i (restore_mark reason))"
    by (rule update_withdrawal_legs [OF id ok(1,2) row nr])
  then have "withdrawal_legs_ok db'"
    using wid ww unfolding withdrawal_legs_ok_def led' wd' [symmetric] update_withdrawal_books
    by (auto simp: plain_leg_def intro!: bexI [OF _ mem])
  moreover have "withdraw_legs db' a = withdraw_legs db a + (if a = w_account w then w_amount w else 0)" for a
    by (simp add: withdraw_legs_def led' row_simps is_withdraw_leg_def plain_leg_def)
  moreover have "withdrawn db' a = withdrawn db a - (if a = w_account w then w_amount w else 0)" for a
    using update_withdrawal_sum [OF id ok(1) row nr, of a] ww by (simp add: withdrawn_def wd')
  moreover have "withdrawal_rows_ok db'"
    using update_withdrawal_rows [OF id ok(1), of i] same by (simp add: withdrawal_rows_ok_def wd' db' update_withdrawal_def)
  ultimately show ?thesis using ok(3) by (simp add: withdrawal_inv_def)
qed

section \<open>Reservation debits once\<close>

lemma withdraw_leg_fresh:
  assumes "withdrawal_inv db"
  shows "(WithdrawalRef (next_withdrawal_id db), ''withdraw'') \<notin> ledger_key ` set (ledger db)"
proof
  assume "(WithdrawalRef (next_withdrawal_id db), ''withdraw'') \<in> ledger_key ` set (ledger db)"
  then obtain e where "e \<in> set (ledger db)" "l_leg e = ''withdraw''" "l_ref e = WithdrawalRef (next_withdrawal_id db)"
    by (auto simp: ledger_key_def)
  with assms obtain x where "x \<in> set (withdrawals db)" "w_id x = next_withdrawal_id db"
    by (auto simp: withdrawal_inv_def withdrawal_legs_ok_def WithdrawalRef_inject)
  with assms show False by (auto simp: withdrawal_inv_def withdrawal_rows_ok_def list_all_iff)
qed

text \<open>The part of a reservation that runs for a new idempotency key.\<close>

lemma ReserveWithdrawal_new:
  assumes "find_row w_key (wr_key req) (withdrawals db) = None"
    and "wr_account req \<noteq> []" "wr_key req \<noteq> []" "wr_destination req \<noteq> []" "0 < wr_amount req"
    and "t = time_or_now clock now"
    and "db1 = db\<lparr>withdrawals := withdrawals db @ [new_withdrawal (next_withdrawal_id db) req t], next_withdrawal_id := next_withdrawal_id db + 1\<rparr>"
  shows "ReserveWithdrawal db req now clock = (case applyDelta db1 (wr_account req) (- wr_amount req) 0 t of
      Inl _ \<Rightarrow> Inl ErrInsufficientCredit
    | Inr (db2, creditRaw, reservedRaw) \<Rightarrow> if creditRaw < 0 \<or> reservedRaw > creditRaw then Inl ErrInsufficientCredit
       else rbind (unique_is_conflict (insert_ledger db2 (plain_leg (wr_account req) (- wr_amount req) ''withdraw'' ''withdraw'' (wr_destination req)
           (WithdrawalRef (next_withdrawal_id db)) t))) (\<lambda>db3. Inr (db3, new_withdrawal (next_withdrawal_id db) req t)))"
  using assms(1-5) unfolding assms(6,7) by (simp add: ReserveWithdrawal_def Let_def)

lemma ReserveWithdrawal_valid:
  assumes "ReserveWithdrawal db req now clock = Inr (db', w)"
  shows "wr_account req \<noteq> []" "wr_key req \<noteq> []" "wr_destination req \<noteq> []" "0 < wr_amount req"
  using assms by (simp_all add: ReserveWithdrawal_def split: if_split_asm)

lemma ReserveWithdrawal_newE:
  assumes "ReserveWithdrawal db req now clock = Inr (db', w)" and "find_row w_key (wr_key req) (withdrawals db) = None"
  obtains t db1 db2 c r where "t = time_or_now clock now" "0 < wr_amount req"
    and "db1 = db\<lparr>withdrawals := withdrawals db @ [new_withdrawal (next_withdrawal_id db) req t], next_withdrawal_id := next_withdrawal_id db + 1\<rparr>"
    and "applyDelta db1 (wr_account req) (- wr_amount req) 0 t = Inr (db2, c, r)"
    and "insert_ledger db2 (plain_leg (wr_account req) (- wr_amount req) ''withdraw'' ''withdraw'' (wr_destination req)
          (WithdrawalRef (next_withdrawal_id db)) t) = Inr db'"
    and "w = new_withdrawal (next_withdrawal_id db) req t"
proof -
  define t where "t = time_or_now clock now"
  define db1 where "db1 = db\<lparr>withdrawals := withdrawals db @ [new_withdrawal (next_withdrawal_id db) req t], next_withdrawal_id := next_withdrawal_id db + 1\<rparr>"
  note unf = ReserveWithdrawal_new [OF assms(2) ReserveWithdrawal_valid [OF assms(1)] t_def db1_def]
  from unf assms(1) obtain p where p: "applyDelta db1 (wr_account req) (- wr_amount req) 0 t = Inr p"
    by (cases "applyDelta db1 (wr_account req) (- wr_amount req) 0 t") simp_all
  obtain db2 c r where pp: "p = (db2, c, r)" by (cases p)
  from assms(1) [unfolded unf] p pp have "insert_ledger db2 (plain_leg (wr_account req) (- wr_amount req) ''withdraw'' ''withdraw''
      (wr_destination req) (WithdrawalRef (next_withdrawal_id db)) t) = Inr db' \<and> w = new_withdrawal (next_withdrawal_id db) req t"
    by (auto simp: res_simps split: if_splits)
  with that t_def db1_def p pp ReserveWithdrawal_valid(4) [OF assms(1)] show ?thesis by blast
qed

lemma new_withdrawal_fields [simp]:
  "w_id (new_withdrawal i req now) = i" "w_key (new_withdrawal i req now) = wr_key req"
  "w_account (new_withdrawal i req now) = wr_account req" "w_amount (new_withdrawal i req now) = wr_amount req"
  "w_state (new_withdrawal i req now) = WithdrawalReserved" "scanWithdrawal (new_withdrawal i req now) = new_withdrawal i req now"
  by (simp_all add: new_withdrawal_def scanWithdrawal_def)

lemma reserve_new_effect:
  assumes "billing_inv db" "withdrawal_inv db" and "find_row w_key (wr_key req) (withdrawals db) = None"
    and "ReserveWithdrawal db req now clock = Inr (db', w)"
  shows "billing_inv db'" "withdrawal_inv db'" "drift db' a = drift db a"
    "credit_of db' a = credit_of db a - (if a = wr_account req then wr_amount req else 0)"
    "ledger_ext withdraw_leg_names db db'" "deposits db' = deposits db" "withdrawals db' = withdrawals db @ [w]"
    "w = new_withdrawal (next_withdrawal_id db) req (time_or_now clock now)"
proof -
  from assms(4,3) obtain t db1 db2 c r where t: "t = time_or_now clock now" "0 < wr_amount req"
    and db1: "db1 = db\<lparr>withdrawals := withdrawals db @ [new_withdrawal (next_withdrawal_id db) req t], next_withdrawal_id := next_withdrawal_id db + 1\<rparr>"
    and ap: "applyDelta db1 (wr_account req) (- wr_amount req) 0 t = Inr (db2, c, r)"
    and il: "insert_ledger db2 (plain_leg (wr_account req) (- wr_amount req) ''withdraw'' ''withdraw'' (wr_destination req)
          (WithdrawalRef (next_withdrawal_id db)) t) = Inr db'"
    and w: "w = new_withdrawal (next_withdrawal_id db) req t"
    by (rule ReserveWithdrawal_newE)
  note mv = ledgered_move [OF ap il leg_fields(1,2)] and o1 = applyDelta_other [OF ap] and o2 = insert_ledger_other [OF il]
  note bk = books_cong [of db1 db]
  have b1: "billing_inv db1" "\<And>a. drift db1 a = drift db a" "\<And>a. credit_of db1 a = credit_of db a"
    using bk assms(1) by (simp_all add: db1)
  show "drift db' a = drift db a" "credit_of db' a = credit_of db a - (if a = wr_account req then wr_amount req else 0)"
    using mv(1,3) b1(2,3) by simp_all
  show wd: "withdrawals db' = withdrawals db @ [w]" using o1 o2 by (simp add: db1 w)
  show "deposits db' = deposits db" using o1 o2 by (simp add: db1)
  show "w = new_withdrawal (next_withdrawal_id db) req (time_or_now clock now)" using w t by simp
  have ext: "ledger_ext {''withdraw''} db db'" using mv(7) by (simp add: ledger_ext_def db1)
  show ext': "ledger_ext withdraw_leg_names db db'" using ext by (auto simp: ledger_ext_def withdraw_leg_names_def)
  show "billing_inv db'"
  proof (rule billing_inv_frame [OF assms(1) _ _ _ _ ext'])
    show "requests db' = requests db" using o1 o2 by (simp add: db1)
    show "accounts_ok db'" "ledger_ok db'" using mv(4,5) b1(1) by (simp_all add: billing_inv_def)
    show "reserved_of db' a = reserved_of db a" for a using mv(2) by (simp add: db1 reserved_of_def)
  qed (simp_all add: withdraw_leg_names_def)
  have led: "ledger db' = ledger db @ [(plain_leg (wr_account req) (- wr_amount req) ''withdraw'' ''withdraw'' (wr_destination req)
      (WithdrawalRef (next_withdrawal_id db)) t)\<lparr>l_id := next_ledger_id db2\<rparr>]"
    using insert_ledger_rows(1) [OF il] o1 by (simp add: db1)
  have ok: "withdrawal_rows_ok db" "withdrawal_legs_ok db" "\<And>a. withdraw_legs db a = - withdrawn db a"
    using assms(2) by (simp_all add: withdrawal_inv_def)
  have "wr_key req \<notin> w_key ` set (withdrawals db)" using assms(3) by (simp add: find_row_None_iff)
  moreover have "next_withdrawal_id db' = next_withdrawal_id db + 1" using o1 o2 by (simp add: db1)
  ultimately have "withdrawal_rows_ok db'"
    using ok(1) t(2) by (auto simp: withdrawal_rows_ok_def wd w row_simps list_all_iff)
  moreover have "withdrawal_legs_ok db'"
    using ok(2) unfolding withdrawal_legs_ok_def led wd by (auto simp: plain_leg_def w)
  moreover have "withdraw_legs db' a = - withdrawn db' a" for a
    using ok(3) [of a] by (simp add: withdraw_legs_def led row_simps is_withdraw_leg_def plain_leg_def withdrawn_def wd w)
  ultimately show "withdrawal_inv db'" by (simp add: withdrawal_inv_def)
qed

lemma reserve_new_outcome:
  assumes "billing_inv db" "withdrawal_inv db" and "find_row w_key (wr_key req) (withdrawals db) = None"
    and "wr_account req \<noteq> []" "wr_key req \<noteq> []" "wr_destination req \<noteq> []" "0 < wr_amount req"
  shows "if credit_of db (wr_account req) - reserved_of db (wr_account req) < wr_amount req
    then ReserveWithdrawal db req now clock = Inl ErrInsufficientCredit
    else \<exists>db' w. ReserveWithdrawal db req now clock = Inr (db', w)"
proof -
  define t where "t = time_or_now clock now"
  define db1 where "db1 = db\<lparr>withdrawals := withdrawals db @ [new_withdrawal (next_withdrawal_id db) req t], next_withdrawal_id := next_withdrawal_id db + 1\<rparr>"
  let ?a = "wr_account req" and ?x = "wr_amount req"
  have ok: "accounts_ok db1" using assms(1) by (simp add: db1_def billing_inv_def accounts_ok_def)
  have bal: "credit_of db1 ?a = credit_of db ?a" "reserved_of db1 ?a = reserved_of db ?a"
    by (simp_all add: db1_def credit_of_def reserved_of_def)
  note bd = accounts_ok_bounds [OF ok, of ?a, unfolded bal]
  note unf = ReserveWithdrawal_new [OF assms(3-7) t_def db1_def]
  show ?thesis
  proof (cases "credit_of db ?a - reserved_of db ?a < ?x")
    case True
    have "applyDelta db1 ?a (- ?x) 0 t \<noteq> Inr (db2, c, r)" for db2 c r
    proof
      assume ap: "applyDelta db1 ?a (- ?x) 0 t = Inr (db2, c, r)"
      from applyDelta_credit [OF ap, of ?a] accounts_ok_bounds [OF applyDelta_ok [OF ap ok], of ?a] bal True
      show False by simp
    qed
    then show ?thesis using unf True by (auto split: sum.splits)
  next
    case False
    obtain db2 where ap: "applyDelta db1 ?a (- ?x) 0 t = Inr (db2, credit_of db ?a - ?x, reserved_of db ?a)"
      using applyDelta_succeeds [OF ok, of ?a 0 "- ?x" t] bal bd False assms(7) by auto
    have "ledger db2 = ledger db" using applyDelta_other(2) [OF ap] by (simp add: db1_def)
    then have "ledger_key (plain_leg ?a (- ?x) ''withdraw'' ''withdraw'' (wr_destination req)
        (WithdrawalRef (next_withdrawal_id db)) t) \<notin> ledger_key ` set (ledger db2)"
      using withdraw_leg_fresh [OF assms(2)] by (simp add: ledger_key_def [of "plain_leg _ _ _ _ _ _ _"])
    from insert_ledger_succeeds [OF this] obtain db3 where "insert_ledger db2 (plain_leg ?a (- ?x) ''withdraw'' ''withdraw''
        (wr_destination req) (WithdrawalRef (next_withdrawal_id db)) t) = Inr db3" by blast
    then show ?thesis using unf ap False bd by simp
  qed
qed

text \<open>
  C28 (a withdrawal is debited once, and only from free credit). For a valid request under a new idempotency key the reservation
  fails with ErrInsufficientCredit exactly when the account's unreserved credit is below the amount;
  otherwise it debits the amount from that account alone together with its ledger leg, keeps all invariants, and a replay of
  the same key by the same account returns the same row and changes nothing. Another account using the key is
  refused.
\<close>

theorem ReserveWithdrawal_correct:
  assumes "billing_inv db" "withdrawal_inv db" and "find_row w_key (wr_key req) (withdrawals db) = None"
    and "wr_account req \<noteq> []" "wr_key req \<noteq> []" "wr_destination req \<noteq> []" "0 < wr_amount req"
  shows "if credit_of db (wr_account req) - reserved_of db (wr_account req) < wr_amount req
    then ReserveWithdrawal db req now clock = Inl ErrInsufficientCredit
    else \<exists>db' w. ReserveWithdrawal db req now clock = Inr (db', w) \<and> w_state w = WithdrawalReserved \<and>
      billing_inv db' \<and> withdrawal_inv db' \<and>
      (\<forall>a. drift db' a = drift db a \<and> credit_of db' a = credit_of db a - (if a = wr_account req then wr_amount req else 0)) \<and>
      ReserveWithdrawal db' req now2 clock2 = Inr (db', w) \<and>
      (\<forall>b. b \<noteq> wr_account req \<longrightarrow> b \<noteq> [] \<longrightarrow> ReserveWithdrawal db' (req\<lparr>wr_account := b\<rparr>) now2 clock2 = Inl ErrConflict)"
proof (cases "credit_of db (wr_account req) - reserved_of db (wr_account req) < wr_amount req")
  case True
  then show ?thesis using reserve_new_outcome [OF assms, of now clock] by simp
next
  case False
  then obtain db' w where run: "ReserveWithdrawal db req now clock = Inr (db', w)"
    using reserve_new_outcome [OF assms, of now clock] by auto
  note eff = reserve_new_effect [OF assms(1-3) run]
  have fnd: "find_row w_key (wr_key req) (withdrawals db') = Some w" "w_account w = wr_account req" "scanWithdrawal w = w"
    "w_state w = WithdrawalReserved"
    using assms(3) by (simp_all add: eff(7) row_simps eff(8))
  then have "ReserveWithdrawal db' req now2 clock2 = Inr (db', w)"
    and "\<forall>b. b \<noteq> wr_account req \<longrightarrow> b \<noteq> [] \<longrightarrow> ReserveWithdrawal db' (req\<lparr>wr_account := b\<rparr>) now2 clock2 = Inl ErrConflict"
    using assms(4-7) by (simp_all add: ReserveWithdrawal_def)
  with False run eff(1-4) fnd(4) show ?thesis by simp
qed

section \<open>Every operation\<close>

lemma marks_identity:
  "keeps_identity (sign_mark wire sig bh lv ex now)" "keeps_identity (broadcast_mark now)"
  "keeps_identity (finalize_mark now)" "keeps_identity (fail_mark reason)"
  by (simp_all add: keeps_identity_def sign_mark_def broadcast_mark_def finalize_mark_def fail_mark_def)

lemma mark_states:
  "w_state (sign_mark wire sig bh lv ex now w) = WithdrawalSigned" "w_state (broadcast_mark now w) = WithdrawalBroadcast"
  "w_state (finalize_mark now w) = WithdrawalFinalized" "w_state (fail_mark reason w) = WithdrawalFailed"
  by (simp_all add: sign_mark_def broadcast_mark_def finalize_mark_def fail_mark_def)

lemma guardedE:
  assumes "rbind (lockWithdrawal db i) (\<lambda>w. if \<not> G (w_state w) then Inr (db, w)
      else let db1 = update_withdrawal db i f in rbind (requeryWithdrawal db1 i) (\<lambda>w1. Inr (db1, w1))) = Inr (db', w')"
    and "keeps_identity f"
  obtains (skip) w where "find_row w_id i (withdrawals db) = Some w" "\<not> G (w_state w)" "db' = db" "w' = scanWithdrawal w"
  | (move) w where "find_row w_id i (withdrawals db) = Some w" "G (w_state w)" "db' = update_withdrawal db i f" "w' = scanWithdrawal (f w)"
  using assms by (auto simp: res_simps Let_def lockWithdrawal_def requeryWithdrawal_def update_withdrawal_find
      split: option.splits if_splits)

text \<open>Each operation leaves a row alone, moves one row by a step of the machine, restores one row, or adds one.\<close>

lemma exec_withdrawal_cases:
  assumes "exec_withdrawal op db = Inr (db', w')"
  obtains (same) "db' = db"
  | (move) i w f where "find_row w_id i (withdrawals db) = Some w" "open_state (w_state w)" "wd_step (w_state w) (w_state (f w))"
      "w_state (f w) \<noteq> WithdrawalRestored" "keeps_identity f" "db' = update_withdrawal db i f"
  | (restore) i w reason now clock where "find_row w_id i (withdrawals db) = Some w" "open_state (w_state w)"
      "RestoreWithdrawal db i reason now clock = Inr (db', w')"
  | (reserve) req now clock where "find_row w_key (wr_key req) (withdrawals db) = None" "ReserveWithdrawal db req now clock = Inr (db', w')"
proof (cases op)
  case (WdReserve req now clock)
  show ?thesis
  proof (cases "find_row w_key (wr_key req) (withdrawals db)")
    case None
    with assms WdReserve reserve show ?thesis by simp
  next
    case (Some w)
    with assms WdReserve have "db' = db"
      by (auto simp: ReserveWithdrawal_def Let_def split: if_splits)
    then show ?thesis by (rule same)
  qed
next
  case (WdSigned i wire sig bh lv ex now clock)
  from assms WdSigned have "rbind (lockWithdrawal db i) (\<lambda>w. if \<not> (w_state w = WithdrawalReserved) then Inr (db, w)
      else let db1 = update_withdrawal db i (sign_mark wire sig bh lv ex (time_or_now clock now)) in rbind (requeryWithdrawal db1 i) (\<lambda>w1. Inr (db1, w1))) = Inr (db', w')"
    by (simp add: MarkWithdrawalSigned_def split: if_splits)
  from this marks_identity(1) show ?thesis
    by (cases rule: guardedE [where G = "\<lambda>s. s = WithdrawalReserved"])
       (auto intro: same move [of i _ "sign_mark wire sig bh lv ex (time_or_now clock now)"] simp: marks_identity open_state_def mark_states wd_step_simps)
next
  case (WdBroadcast i now clock)
  from assms WdBroadcast have "rbind (lockWithdrawal db i) (\<lambda>w. if \<not> (w_state w = WithdrawalSigned) then Inr (db, w)
      else let db1 = update_withdrawal db i (broadcast_mark (time_or_now clock now)) in rbind (requeryWithdrawal db1 i) (\<lambda>w1. Inr (db1, w1))) = Inr (db', w')"
    by (simp add: MarkWithdrawalBroadcast_def)
  from this marks_identity(2) show ?thesis
    by (cases rule: guardedE [where G = "\<lambda>s. s = WithdrawalSigned"])
       (auto intro: same move [of i _ "broadcast_mark (time_or_now clock now)"] simp: marks_identity open_state_def mark_states wd_step_simps)
next
  case (WdFinalize i now clock)
  from assms WdFinalize have "rbind (lockWithdrawal db i) (\<lambda>w. if \<not> (w_state w = WithdrawalSigned \<or> w_state w = WithdrawalBroadcast) then Inr (db, w)
      else let db1 = update_withdrawal db i (finalize_mark (time_or_now clock now)) in rbind (requeryWithdrawal db1 i) (\<lambda>w1. Inr (db1, w1))) = Inr (db', w')"
    by (simp add: FinalizeWithdrawal_def)
  from this marks_identity(3) show ?thesis
    by (cases rule: guardedE [where G = "\<lambda>s. s = WithdrawalSigned \<or> s = WithdrawalBroadcast"])
       (auto intro: same move [of i _ "finalize_mark (time_or_now clock now)"] simp: marks_identity open_state_def mark_states wd_step_simps)
next
  case (WdRestore i reason now clock)
  with assms obtain w where w: "find_row w_id i (withdrawals db) = Some w"
    by (auto simp: RestoreWithdrawal_def res_simps lockWithdrawal_def split: option.splits)
  show ?thesis
  proof (cases "open_state (w_state w)")
    case True
    with assms WdRestore w restore show ?thesis by simp
  next
    case False
    with assms WdRestore w have "db' = db" by (simp add: RestoreWithdrawal_def lockWithdrawal_def open_state_def)
    then show ?thesis by (rule same)
  qed
next
  case (WdFail i reason now)
  from assms WdFail have "rbind (lockWithdrawal db i) (\<lambda>w. if \<not> open_state (w_state w) then Inr (db, w)
      else let db1 = update_withdrawal db i (fail_mark reason) in rbind (requeryWithdrawal db1 i) (\<lambda>w1. Inr (db1, w1))) = Inr (db', w')"
    by (simp add: FailWithdrawal_def open_state_def)
  from this marks_identity(4) show ?thesis
    by (cases rule: guardedE [where G = "open_state"])
       (auto intro: same move [of i _ "fail_mark reason"] simp: marks_identity open_state_def mark_states wd_step_simps)
qed

lemma rows_evolve_refl: "rows_evolve db db"
  by (auto simp: rows_evolve_def)

lemma rows_evolveD:
  assumes "rows_evolve db db'" and "find_row w_id i (withdrawals db) = Some w"
  obtains w' where "find_row w_id i (withdrawals db') = Some w'" "w_account w' = w_account w" "w_amount w' = w_amount w"
    "wd_step\<^sup>*\<^sup>* (w_state w) (w_state w')"
  using assms unfolding rows_evolve_def by blast

lemma rows_evolve_trans:
  assumes "rows_evolve db db1" and "rows_evolve db1 db2"
  shows "rows_evolve db db2"
  unfolding rows_evolve_def
proof (intro allI impI)
  fix i w assume "find_row w_id i (withdrawals db) = Some w"
  with assms(1) obtain w1 where 1: "find_row w_id i (withdrawals db1) = Some w1" "w_account w1 = w_account w"
      "w_amount w1 = w_amount w" "wd_step\<^sup>*\<^sup>* (w_state w) (w_state w1)" by (rule rows_evolveD)
  from assms(2) 1(1) obtain w2 where "find_row w_id i (withdrawals db2) = Some w2" "w_account w2 = w_account w1"
      "w_amount w2 = w_amount w1" "wd_step\<^sup>*\<^sup>* (w_state w1) (w_state w2)" by (rule rows_evolveD)
  with 1 show "\<exists>w'. find_row w_id i (withdrawals db2) = Some w' \<and> w_account w' = w_account w \<and> w_amount w' = w_amount w \<and>
      wd_step\<^sup>*\<^sup>* (w_state w) (w_state w')" by (auto intro: rtranclp_trans)
qed

lemma rows_evolve_update:
  assumes "keeps_identity f" and "find_row w_id i (withdrawals db) = Some w" and "wd_step (w_state w) (w_state (f w))"
    and "\<And>k. find_row w_id k (withdrawals db') = (if k = i then Some (f w) else find_row w_id k (withdrawals db))"
  shows "rows_evolve db db'"
  using assms by (auto simp: rows_evolve_def keeps_identity_def)

lemma exec_withdrawal_sound:
  assumes "exec_withdrawal op db = Inr (db', w')" and "billing_inv db" "withdrawal_inv db"
  shows "billing_inv db' \<and> withdrawal_inv db' \<and> withdrawal_rel db db' \<and>
    deposits db' = deposits db \<and> ledger_ext withdraw_leg_names db db'"
  using assms(1)
proof (cases rule: exec_withdrawal_cases)
  case same
  with assms(2,3) show ?thesis by (auto simp: withdrawal_rel_def rows_evolve_refl)
next
  case (move i w f)
  have "w_state w \<noteq> WithdrawalRestored" using move(2) by (auto simp: open_state_def)
  from transition_inv [OF move(5) assms(3) move(1) this move(4)] move(1,3,5,6) assms(2) show ?thesis
    by (auto simp: update_withdrawal_books withdrawal_rel_def update_withdrawal_find
        intro!: rows_evolve_update [OF move(5,1,3)] ledger_ext_refl)
next
  case (restore i w reason now clock)
  note bk = restore_books [OF restore(3,1,2)]
  have id: "keeps_identity (restore_mark reason)" and st: "wd_step (w_state w) (w_state (restore_mark reason w))"
    using restore(2) by (auto simp: keeps_identity_def restore_mark_def wd_step_simps)
  have "rows_evolve db db'" by (rule rows_evolve_update [OF id restore(1) st bk(6)])
  with bk(1-5) assms(2) restore_inv [OF assms(3) restore(3,1,2)] show ?thesis by (simp add: withdrawal_rel_def)
next
  case (reserve req now clock)
  note eff = reserve_new_effect [OF assms(2,3) reserve]
  have "rows_evolve db db'" by (auto simp: rows_evolve_def eff(7) row_simps)
  with eff(1-6) show ?thesis by (simp add: withdrawal_rel_def)
qed

interpretation wd_store: tx_store exec_withdrawal "\<lambda>db. billing_inv db \<and> withdrawal_inv db" withdrawal_rel
proof
  show "exec_withdrawal op s = Inr (s', r) \<Longrightarrow> billing_inv s' \<and> withdrawal_inv s'"
    and "exec_withdrawal op s = Inr (s', r) \<Longrightarrow> withdrawal_rel s s'"
    if "billing_inv s \<and> withdrawal_inv s" for s op s' r
    using that exec_withdrawal_sound by blast+
  show "withdrawal_rel s s" for s by (simp add: withdrawal_rel_def rows_evolve_refl)
  show "withdrawal_rel s u" if "withdrawal_rel s t" "withdrawal_rel t u" for s t u
    using that by (auto simp: withdrawal_rel_def intro: rows_evolve_trans)
qed

text \<open>
  Withdrawals keep the books over every run. Whatever sequence of reservations, signings, broadcasts, finalizations, restores
  and failures is attempted, in any order and with any of them failing, the credit sent out of every account equals
  the withdrawals not restored, no account moves away from its ledger, and every row keeps its account and
  amount while its state only moves along the machine.
\<close>

theorem withdrawal_runs_keep_books:
  assumes "billing_inv db" and "withdrawal_inv db"
  shows "billing_inv (run_ops exec_withdrawal ops db) \<and> withdrawal_inv (run_ops exec_withdrawal ops db) \<and>
    (\<forall>a. drift (run_ops exec_withdrawal ops db) a = drift db a) \<and> rows_evolve db (run_ops exec_withdrawal ops db)"
  using wd_store.run_keeps [of db ops] assms by (simp add: withdrawal_rel_def)

lemma demo_funded_wd_inv: "withdrawal_inv demo_funded"
  by (simp add: withdrawal_inv_def withdrawal_rows_ok_def withdrawal_legs_ok_def withdraw_legs_def withdrawn_def
      demo_funded_def empty_db_def row_simps is_withdraw_leg_def plain_leg_def)

theorem withdrawal_runs_keep_books_witness:
  "withdrawal_inv (run_ops exec_withdrawal [WdReserve demo_wd_request 3 3, WdSigned 1 ''wire'' ''sig'' ''bh'' 10 20 4 4,
     WdRestore 1 ''expired'' 30 30, WdFinalize 1 31 31] demo_funded) \<and>
   credit_of (run_ops exec_withdrawal [WdReserve demo_wd_request 3 3, WdSigned 1 ''wire'' ''sig'' ''bh'' 10 20 4 4,
     WdRestore 1 ''expired'' 30 30, WdFinalize 1 31 31] demo_funded) ''b1'' = 1000"
proof
  show "withdrawal_inv (run_ops exec_withdrawal [WdReserve demo_wd_request 3 3, WdSigned 1 ''wire'' ''sig'' ''bh'' 10 20 4 4,
     WdRestore 1 ''expired'' 30 30, WdFinalize 1 31 31] demo_funded)"
    using withdrawal_runs_keep_books [OF demo_inv(2) demo_funded_wd_inv] by blast
  show "credit_of (run_ops exec_withdrawal [WdReserve demo_wd_request 3 3, WdSigned 1 ''wire'' ''sig'' ''bh'' 10 20 4 4,
     WdRestore 1 ''expired'' 30 30, WdFinalize 1 31 31] demo_funded) ''b1'' = 1000"
    by code_simp
qed

theorem ReserveWithdrawal_correct_witness:
  "\<exists>db' w. ReserveWithdrawal demo_funded demo_wd_request 3 3 = Inr (db', w) \<and> withdrawal_inv db' \<and>
     credit_of db' ''b1'' = 700 \<and> ReserveWithdrawal db' demo_wd_request 8 8 = Inr (db', w)"
proof -
  have f: "find_row w_key (wr_key demo_wd_request) (withdrawals demo_funded) = None" "wr_account demo_wd_request \<noteq> []"
    "wr_key demo_wd_request \<noteq> []" "wr_destination demo_wd_request \<noteq> []" "0 < wr_amount demo_wd_request" by code_simp+
  have g: "credit_of demo_funded ''b1'' = 1000" "reserved_of demo_funded ''b1'' = 0" "wr_account demo_wd_request = ''b1''"
    "wr_amount demo_wd_request = 300" by code_simp+
  show ?thesis
    using ReserveWithdrawal_correct [OF demo_inv(2) demo_funded_wd_inv f, of 3 3 8 8] by (auto simp: g)
qed

text \<open>
  A failed withdrawal never returns its credit. Once a withdrawal is marked failed, no sequence of store operations, an
  operator's restore included, changes its state or returns its amount: it stays counted as withdrawn for good, although the
  documentation of \<^verbatim>\<open>FailWithdrawal\<close> leaves the restoration to the expiry timer or to an operator.
\<close>

theorem failed_withdrawal_is_final:
  assumes "billing_inv db" and "withdrawal_inv db"
    and "find_row w_id i (withdrawals db) = Some w" and "w_state w = WithdrawalFailed"
  shows "\<exists>w'. find_row w_id i (withdrawals (run_ops exec_withdrawal ops db)) = Some w' \<and> w_state w' = WithdrawalFailed \<and>
    RestoreWithdrawal (run_ops exec_withdrawal ops db) i reason now clock = Inr (run_ops exec_withdrawal ops db, scanWithdrawal w')"
proof -
  have "rows_evolve db (run_ops exec_withdrawal ops db)"
    using wd_store.run_keeps [of db ops] assms(1,2) by (simp add: withdrawal_rel_def)
  then obtain w' where w': "find_row w_id i (withdrawals (run_ops exec_withdrawal ops db)) = Some w'"
    and st: "wd_step\<^sup>*\<^sup>* WithdrawalFailed (w_state w')"
    using assms(3) unfolding assms(4) [symmetric] by (rule rows_evolveD)
  from st have "w_state w' = WithdrawalFailed"
    using wd.final [of WithdrawalFailed] by (auto elim: converse_rtranclpE)
  with w' show ?thesis by (simp add: RestoreWithdrawal_def lockWithdrawal_def)
qed

theorem failed_withdrawal_is_final_witness:
  "\<exists>w'. find_row w_id 1 (withdrawals (run_ops exec_withdrawal [WdRestore 1 ''operator'' 9 9]
      (run_ops exec_withdrawal [WdReserve demo_wd_request 3 3, WdFail 1 ''rpc'' 4] demo_funded))) = Some w' \<and> w_state w' = WithdrawalFailed"
proof -
  let ?db = "run_ops exec_withdrawal [WdReserve demo_wd_request 3 3, WdFail 1 ''rpc'' 4] demo_funded"
  have inv: "billing_inv ?db" "withdrawal_inv ?db"
    using wd_store.run_keeps [of demo_funded] demo_inv(2) demo_funded_wd_inv by blast+
  have "case find_row w_id 1 (withdrawals ?db) of Some w \<Rightarrow> w_state w = WithdrawalFailed | None \<Rightarrow> False" by code_simp
  then obtain w where "find_row w_id 1 (withdrawals ?db) = Some w" "w_state w = WithdrawalFailed" by (auto split: option.splits)
  from failed_withdrawal_is_final [OF inv this, of "[WdRestore 1 ''operator'' 9 9]" "[]" 0 0] show ?thesis by blast
qed

end
