(* ===== verification/Allowances.thy ===== *)
theory Allowances
  imports Withdrawals "HOL-Library.List_Lexorder" "HOL-Library.Char_ord"
begin

text \<open>
  The allowance registry, \<^verbatim>\<open>internal/store/allowance.go\<close>: one row per account and delegate with the absolute amount an
  on-chain delegation grants. \<^verbatim>\<open>UpsertAllowance\<close> writes an observed amount and mirrors the difference into the
  credit projection with a grant or revoke leg, clamped so that open reservations keep their backing.

  The credit row is locked while the difference is computed, as is the registry row, so the transactions of the model are serial.
\<close>

section \<open>The registry\<close>

definition allowance_key :: "Allowance \<Rightarrow> string \<times> string" where
  "allowance_key al = (al_account al, al_delegate al)"

definition find_allowance :: "db \<Rightarrow> string \<Rightarrow> string \<Rightarrow> Allowance option" where
  "find_allowance db a d = find_row allowance_key (a, d) (allowances db)"

text \<open>\<^verbatim>\<open>INSERT INTO account_allowances .. ON CONFLICT (account_id, delegate) DO UPDATE ..\<close>\<close>

definition upsert_row :: "db \<Rightarrow> Allowance \<Rightarrow> db" where
  "upsert_row db al =
     (if has_row allowance_key (allowance_key al) (allowances db)
      then db\<lparr>allowances := update_row allowance_key (allowance_key al)
             (\<lambda>r. r\<lparr>al_raw := al_raw al, al_approved_at := al_approved_at al,
                al_revoked_at := (if al_raw al > 0 then None else Some (al_approved_at al))\<rparr>) (allowances db)\<rparr>
      else db\<lparr>allowances := allowances db @ [al]\<rparr>)"

text \<open>\<^verbatim>\<open>INSERT INTO credit_ledger .. ON CONFLICT (ref, leg) DO NOTHING\<close>, with the number of rows affected.\<close>

definition insert_ledger_once :: "db \<Rightarrow> LedgerEntry \<Rightarrow> db \<times> bool" where
  "insert_ledger_once db e =
     (case insert_ledger db e of Inl _ \<Rightarrow> (db, False) | Inr db' \<Rightarrow> (db', True))"

definition set_credit :: "int64 \<Rightarrow> instant \<Rightarrow> AccountCredit \<Rightarrow> AccountCredit" where
  "set_credit c now r = r\<lparr>ac_credit := c, ac_updated_at := now\<rparr>"

text \<open>The balance a difference leaves, and the part of a revocation that open reservations keep.\<close>

definition clamp_credit :: "int64 \<Rightarrow> int64 \<Rightarrow> int64 \<Rightarrow> int64 \<times> int64" where
  "clamp_credit creditRaw reservedRaw delta =
     (let newCredit = wrap64 (creditRaw + delta)
      in if newCredit < reservedRaw then (reservedRaw, wrap64 (reservedRaw - newCredit)) else (newCredit, 0))"

definition mirror_delta :: "db \<Rightarrow> AllowanceChange \<Rightarrow> int64 \<Rightarrow> instant \<Rightarrow> (db \<times> int64 \<times> int64) res" where
  "mirror_delta db ch delta now =
     (let leg = (if delta < 0 then ''revoke'' else ''grant'');
          (db1, inserted) = insert_ledger_once db
            (plain_leg (ch_account ch) delta ''delegation'' leg (ch_delegate ch) (ch_ref ch) now)
      in if inserted
         then rbind (AccountCredit_get db1 (ch_account ch)) (\<lambda>row.
              let (newCredit, shortfall) = clamp_credit (ac_credit row) (ac_reserved row) delta
              in rbind (update_account db1 (ch_account ch) (set_credit newCredit now)) (\<lambda>db2.
                 Inr (db2, delta, shortfall)))
         else Inr (db1, 0, 0))"

definition UpsertAllowance :: "db \<Rightarrow> AllowanceChange \<Rightarrow> instant \<Rightarrow> (db \<times> AllowanceChangeResult) res" where
  "UpsertAllowance db ch clock =
     (if ch_account ch = [] \<or> ch_delegate ch = [] then Inl ErrConflict
      else if ch_raw ch < 0 then Inl ErrInvalid
      else if ch_ref ch = [] then Inl ErrInvalid
      else let now = time_or_now clock (ch_observed_at ch);
               db1 = ensure_account db (ch_account ch) now;
               prev = (case find_allowance db1 (ch_account ch) (ch_delegate ch) of None \<Rightarrow> 0 | Some al \<Rightarrow> al_raw al);
               delta = wrap64 (ch_raw ch - prev);
               db2 = upsert_row db1 \<lparr>al_account = ch_account ch, al_delegate = ch_delegate ch, al_raw = ch_raw ch,
                       al_approved_at = now, al_revoked_at = (if ch_raw ch = 0 then Some now else None)\<rparr>
           in if delta = 0 then Inr (db2, \<lparr>cr_prev = prev, cr_applied = delta, cr_shortfall = 0\<rparr>)
              else rbind (mirror_delta db2 ch delta now) (\<lambda>(db3, applied, shortfall).
                   Inr (db3, \<lparr>cr_prev = prev, cr_applied = applied, cr_shortfall = shortfall\<rparr>)))"

section \<open>Reading the registry\<close>

text \<open>\<^verbatim>\<open>ORDER BY a DESC, b\<close> is a stable sort by the later key first; text compares byte-wise (collation C).\<close>

definition AccountAllowances :: "db \<Rightarrow> string \<Rightarrow> Allowance list" where
  "AccountAllowances db a =
     sort_key (\<lambda>x. - al_approved_at x) (sort_key al_delegate (filter (\<lambda>x. al_account x = a) (allowances db)))"

definition DelegateAllowances :: "db \<Rightarrow> string \<Rightarrow> Allowance list" where
  "DelegateAllowances db d =
     sort_key (\<lambda>x. - al_raw x) (sort_key al_account
       (filter (\<lambda>x. al_delegate x = d \<and> al_revoked_at x = None \<and> al_raw x > 0) (allowances db)))"

definition LinkedWalletAccounts :: "db \<Rightarrow> (string \<times> string) list" where
  "LinkedWalletAccounts db =
     map (\<lambda>u. (uw_account u, uw_wallet u)) (sort_key uw_account (sort_key uw_wallet (user_wallets db)))"

section \<open>Invariant\<close>

text \<open>The amount the registry holds for an account and delegate.\<close>

definition registered :: "db \<Rightarrow> string \<Rightarrow> string \<Rightarrow> int64" where
  "registered db a d = (case find_allowance db a d of None \<Rightarrow> 0 | Some al \<Rightarrow> al_raw al)"

definition allowance_row_ok :: "Allowance \<Rightarrow> bool" where
  "allowance_row_ok al \<longleftrightarrow> 0 \<le> al_raw al \<and> al_raw al \<le> max_int64 \<and> (al_revoked_at al \<noteq> None \<longrightarrow> al_raw al = 0)"

definition allowances_ok :: "db \<Rightarrow> bool" where
  "allowances_ok db \<longleftrightarrow> keys_distinct allowance_key (allowances db) \<and> list_all allowance_row_ok (allowances db)"

definition allowance_leg_names :: "string set" where
  "allowance_leg_names = {''grant'', ''revoke''}"

text \<open>The observation is one the store accepts.\<close>

definition change_valid :: "AllowanceChange \<Rightarrow> bool" where
  "change_valid ch \<longleftrightarrow> ch_account ch \<noteq> [] \<and> ch_delegate ch \<noteq> [] \<and> 0 \<le> ch_raw ch \<and> ch_raw ch \<le> max_int64 \<and> ch_ref ch \<noteq> []"

text \<open>The tables an observation never touches, and what it may change of the rest.\<close>

definition registry_frame where
  "registry_frame db = (deposits db, deposit_cursors db, withdrawals db, settlements db,
     settlement_legs db, settlement_cursors db, user_wallets db, next_withdrawal_id db, next_settlement_id db)"

definition allowance_rel :: "db \<Rightarrow> db \<Rightarrow> bool" where
  "allowance_rel db db' \<longleftrightarrow> registry_frame db' = registry_frame db \<and> requests db' = requests db \<and>
     (\<forall>b. reserved_of db' b = reserved_of db b) \<and> ledger_ext allowance_leg_names db db'"

text \<open>An observation as an operation of the store; \<open>wrap64\<close> makes its amount an int64, as the field is.\<close>

datatype allowance_op = AlObserve AllowanceChange instant

fun exec_allowance :: "allowance_op \<Rightarrow> db \<Rightarrow> (db \<times> AllowanceChangeResult) res" where
  "exec_allowance (AlObserve ch clock) db = UpsertAllowance db (ch\<lparr>ch_raw := wrap64 (ch_raw ch)\<rparr>) clock"

definition demo_change :: "int64 \<Rightarrow> string \<Rightarrow> AllowanceChange" where
  "demo_change amount ref = \<lparr>ch_account = ''b1'', ch_delegate = ''auth'', ch_raw = amount, ch_observed_at = 9, ch_ref = ref\<rparr>"

section \<open>Lemmas on the registry\<close>

lemma upsert_row_other:
  "accounts (upsert_row db al) = accounts db" "requests (upsert_row db al) = requests db"
  "ledger (upsert_row db al) = ledger db" "next_ledger_id (upsert_row db al) = next_ledger_id db"
  "deposits (upsert_row db al) = deposits db" "withdrawals (upsert_row db al) = withdrawals db"
  "next_withdrawal_id (upsert_row db al) = next_withdrawal_id db" "settlements (upsert_row db al) = settlements db"
  "settlement_legs (upsert_row db al) = settlement_legs db" "settlement_cursors (upsert_row db al) = settlement_cursors db"
  "next_settlement_id (upsert_row db al) = next_settlement_id db" "user_wallets (upsert_row db al) = user_wallets db"
  by (simp_all add: upsert_row_def)

lemma upsert_row_registered:
  "registered (upsert_row db al) a d = (if (a, d) = allowance_key al then al_raw al else registered db a d)"
proof -
  have "allowance_key (r\<lparr>al_raw := x, al_approved_at := t, al_revoked_at := z\<rparr>) = allowance_key r" for r x t z
    by (simp add: allowance_key_def)
  then show ?thesis
    by (auto simp: registered_def find_allowance_def upsert_row_def has_row_find find_row_update row_simps
        split: option.splits)
qed

lemma upsert_row_ok:
  assumes "allowances_ok db" and "allowance_row_ok al"
  shows "allowances_ok (upsert_row db al)"
proof (cases "has_row allowance_key (allowance_key al) (allowances db)")
  case True
  let ?f = "\<lambda>r. r\<lparr>al_raw := al_raw al, al_approved_at := al_approved_at al,
                al_revoked_at := (if al_raw al > 0 then None else Some (al_approved_at al))\<rparr>"
  have k: "allowance_key (?f r) = allowance_key r" for r by (simp add: allowance_key_def)
  have "allowance_row_ok (?f r)" for r using assms(2) by (auto simp: allowance_row_ok_def)
  then have "allowance_row_ok x" if "x \<in> set (update_row allowance_key (allowance_key al) ?f (allowances db))" for x
    using set_update_row [OF that] assms(1) by (auto simp: allowances_ok_def list_all_iff)
  with assms(1) k show ?thesis
    by (simp add: upsert_row_def True allowances_ok_def keys_distinct_update list_all_iff)
next
  case False
  with assms show ?thesis by (auto simp: upsert_row_def allowances_ok_def row_simps list_all_iff)
qed

lemma registered_bounds:
  assumes "allowances_ok db"
  shows "0 \<le> registered db a d" "registered db a d \<le> max_int64"
  using assms find_row_mem [of allowance_key "(a, d)" "allowances db"]
  by (auto simp: registered_def find_allowance_def allowances_ok_def list_all_iff allowance_row_ok_def split: option.splits)

section \<open>Mirroring a difference\<close>

lemma clamp_exact:
  assumes "0 \<le> r" "r \<le> c" "c \<le> max_int64" "- max_int64 \<le> d" "c + d \<le> max_int64"
  shows "clamp_credit c r d = (max r (c + d), max 0 (r - (c + d)))"
proof -
  have "wrap64 (c + d) = c + d" using assms by (intro wrap64_id) (simp add: in_int64_def)
  moreover have "wrap64 (r - (c + d)) = r - (c + d)" if "c + d < r"
    using assms that by (intro wrap64_id) (simp add: in_int64_def)
  ultimately show ?thesis by (auto simp: clamp_credit_def Let_def)
qed

lemma set_credit_fields [simp]:
  "ac_account (set_credit c now r) = ac_account r" "ac_credit (set_credit c now r) = c" "ac_reserved (set_credit c now r) = ac_reserved r"
  "ac_max_in (set_credit c now r) = ac_max_in r" "ac_max_cached (set_credit c now r) = ac_max_cached r"
  "ac_max_out (set_credit c now r) = ac_max_out r"
  by (simp_all add: set_credit_def)

lemma set_credit_update:
  assumes "accounts_ok db" and "find_row ac_account a (accounts db) = Some row"
    and "ac_reserved row \<le> c" "c \<le> max_int64"
  shows "\<exists>db'. update_account db a (set_credit c now) = Inr db' \<and> accounts_ok db' \<and>
    (\<forall>b. credit_of db' b = (if b = a then c else credit_of db b)) \<and> (\<forall>b. reserved_of db' b = reserved_of db b)"
proof -
  have ok: "account_row_ok row" using assms(1) find_row_mem [OF assms(2)] by (simp add: accounts_ok_def list_all_iff)
  with assms(2-4) obtain db' where up: "update_account db a (set_credit c now) = Inr db'"
    by (auto simp: update_account_def account_row_ok_def account_check_def in_int64_def)
  have "accounts_ok db'" using update_account_ok [OF up assms(1)] by simp
  moreover have "credit_of db' b = (if b = a then c else credit_of db b)" "reserved_of db' b = reserved_of db b" for b
    using assms(2) by (simp_all add: credit_of_def reserved_of_def update_account_find [OF up])
  ultimately show ?thesis using up by blast
qed

lemma mirror_delta_replayed:
  assumes "(ch_ref ch, if delta < 0 then ''revoke'' else ''grant'') \<in> ledger_key ` set (ledger db)"
  shows "mirror_delta db ch delta now = Inr (db, 0, 0)"
  using assms by (auto simp: mirror_delta_def insert_ledger_once_def insert_ledger_def row_simps ledger_key_def Let_def split: if_splits)

lemma mirror_delta_fresh:
  fixes a :: string
  defines "c \<equiv> \<lambda>db delta. max (reserved_of db a) (credit_of db a + delta)"
    and "s \<equiv> \<lambda>db delta. max 0 (reserved_of db a - (credit_of db a + delta))"
  assumes "accounts_ok db" "ledger_ok db" and "find_row ac_account a (accounts db) = Some row" and "a = ch_account ch"
    and "(ch_ref ch, if delta < 0 then ''revoke'' else ''grant'') \<notin> ledger_key ` set (ledger db)"
    and "- max_int64 \<le> delta" "credit_of db a + delta \<le> max_int64"
  shows "\<exists>db'. mirror_delta db ch delta now = Inr (db', delta, s db delta) \<and> accounts_ok db' \<and> ledger_ok db' \<and>
    requests db' = requests db \<and> (\<forall>b. reserved_of db' b = reserved_of db b) \<and>
    (\<forall>b. credit_of db' b = (if b = a then c db delta else credit_of db b)) \<and>
    (\<forall>b. drift db' b = drift db b + (if b = a then s db delta else 0)) \<and>
    ledger_ext allowance_leg_names db db' \<and> other_tables db' = other_tables db"
proof -
  define leg where "leg = (if delta < 0 then ''revoke'' else ''grant'')"
  define e where "e = plain_leg a delta ''delegation'' leg (ch_delegate ch) (ch_ref ch) now"
  have e: "l_account e = a" "l_delta e = delta" "l_leg e = leg" "ledger_key e = (ch_ref ch, leg)"
    by (simp_all add: e_def ledger_key_def)
  from assms(7) e(4) obtain db1 where ins: "insert_ledger db e = Inr db1"
    using insert_ledger_succeeds [of e db] by (auto simp: leg_def)
  note o = insert_ledger_other [OF ins]
  have bal: "credit_of db a = ac_credit row" "reserved_of db a = ac_reserved row"
    using assms(5) by (simp_all add: credit_of_def reserved_of_def)
  have cl: "clamp_credit (ac_credit row) (ac_reserved row) delta = (c db delta, s db delta)"
    unfolding c_def s_def using clamp_exact [of "ac_reserved row" "ac_credit row" delta] accounts_ok_bounds [OF assms(3), of a] assms(8,9) bal by simp
  have "accounts_ok db1" using accounts_ok_cong [OF o(1)] assms(3) by simp
  then obtain db2 where up: "update_account db1 a (set_credit (c db delta) now) = Inr db2" "accounts_ok db2"
    "\<And>b. credit_of db2 b = (if b = a then c db delta else credit_of db1 b)" "\<And>b. reserved_of db2 b = reserved_of db1 b"
    using set_credit_update [of db1 a row "c db delta" now] assms(5,9) o(1) bal accounts_ok_bounds [OF assms(3), of a]
    by (auto simp: c_def)
  note u = update_account_other [OF up(1)]
  have run: "mirror_delta db ch delta now = Inr (db2, delta, s db delta)"
    using ins up(1) assms(5) o(1) cl
    by (simp add: mirror_delta_def insert_ledger_once_def AccountCredit_get_def e_def leg_def assms(6) Let_def)
  have "drift db2 b = drift db b + (if b = a then s db delta else 0)" for b
    using insert_ledger_sum [OF ins, of b] up(3) [of b] o(13) u(2) e
    by (auto simp: drift_def ledger_sum_def c_def s_def)
  moreover have "ledger_ok db2" using ledger_ok_cong [OF u(2,11)] insert_ledger_ok [OF ins assms(4)] by simp
  moreover have "ledger_ext allowance_leg_names db db2"
    using insert_ledger_ext [OF ins, of allowance_leg_names] u(2) e(3)
    by (simp add: ledger_ext_def allowance_leg_names_def leg_def split: if_splits)
  moreover have "other_tables db2 = other_tables db" using other_tables_simps(2) [OF up(1)] other_tables_simps(4) [OF ins] by simp
  ultimately show ?thesis using run up o u by simp
qed

section \<open>Observations\<close>

text \<open>The database with the credit row present and the registry row written.\<close>

lemma observe_state:
  fixes ch db t
  defines "al \<equiv> \<lparr>al_account = ch_account ch, al_delegate = ch_delegate ch, al_raw = ch_raw ch,
      al_approved_at = t, al_revoked_at = (if ch_raw ch = 0 then Some t else None)\<rparr>"
  defines "db2 \<equiv> upsert_row (ensure_account db (ch_account ch) t) al"
  assumes "change_valid ch" and "billing_inv db" and "allowances_ok db"
  shows "accounts_ok db2" "ledger_ok db2" "allowances_ok db2" "requests db2 = requests db" "ledger db2 = ledger db"
    "\<exists>row. find_row ac_account (ch_account ch) (accounts db2) = Some row"
    "credit_of db2 b = credit_of db b" "reserved_of db2 b = reserved_of db b"
    "registered db2 a d = (if a = ch_account ch \<and> d = ch_delegate ch then ch_raw ch else registered db a d)"
    "next_ledger_id db2 = next_ledger_id db"
proof -
  have "allowance_row_ok al" using assms(3) by (simp add: al_def allowance_row_ok_def change_valid_def)
  moreover have "allowances_ok (ensure_account db (ch_account ch) t)"
    using assms(5) by (simp add: allowances_ok_def credit_simps)
  ultimately show "allowances_ok db2" unfolding db2_def by (rule upsert_row_ok [rotated])
  have reg: "registered (ensure_account db (ch_account ch) t) a d = registered db a d"
    by (simp add: registered_def find_allowance_def credit_simps)
  show "registered db2 a d = (if a = ch_account ch \<and> d = ch_delegate ch then ch_raw ch else registered db a d)"
    by (simp add: db2_def upsert_row_registered al_def allowance_key_def reg)
  have acc: "accounts db2 = accounts (ensure_account db (ch_account ch) t)" by (simp add: db2_def upsert_row_other)
  show "accounts_ok db2" using accounts_ok_cong [OF acc] ensure_account_ok assms(4) by (simp add: billing_inv_def)
  show "credit_of db2 b = credit_of db b" "reserved_of db2 b = reserved_of db b"
    using acc ensure_account_balances [of db "ch_account ch" t b] by (simp_all add: credit_of_def reserved_of_def)
  show "\<exists>row. find_row ac_account (ch_account ch) (accounts db2) = Some row"
    by (simp add: acc ensure_account_find split: option.splits)
  show led: "ledger db2 = ledger db" and nx: "next_ledger_id db2 = next_ledger_id db"
    by (simp_all add: db2_def upsert_row_other credit_simps)
  show "ledger_ok db2" using ledger_ok_cong [OF led nx] assms(4) by (simp add: billing_inv_def)
  show "requests db2 = requests db" by (simp add: db2_def upsert_row_other credit_simps)
qed

lemma registered_tables: "allowances db' = allowances db \<Longrightarrow> registered db' a d = registered db a d"
  by (simp add: registered_def find_allowance_def)

lemma UpsertAllowance_delta:
  assumes "change_valid ch" and "allowances_ok db"
  shows "wrap64 (ch_raw ch - registered db (ch_account ch) (ch_delegate ch)) =
    ch_raw ch - registered db (ch_account ch) (ch_delegate ch)"
  using assms(1) registered_bounds [OF assms(2), of "ch_account ch" "ch_delegate ch"]
  by (intro wrap64_id) (simp add: in_int64_def change_valid_def)

lemma UpsertAllowance_run:
  assumes "change_valid ch" and "allowances_ok db"
  shows "UpsertAllowance db ch clock =
    (let now = time_or_now clock (ch_observed_at ch);
         prev = registered db (ch_account ch) (ch_delegate ch);
         db2 = upsert_row (ensure_account db (ch_account ch) now)
           \<lparr>al_account = ch_account ch, al_delegate = ch_delegate ch, al_raw = ch_raw ch,
            al_approved_at = now, al_revoked_at = (if ch_raw ch = 0 then Some now else None)\<rparr>
     in if ch_raw ch - prev = 0 then Inr (db2, \<lparr>cr_prev = prev, cr_applied = 0, cr_shortfall = 0\<rparr>)
        else rbind (mirror_delta db2 ch (ch_raw ch - prev) now) (\<lambda>(db3, applied, shortfall).
             Inr (db3, \<lparr>cr_prev = prev, cr_applied = applied, cr_shortfall = shortfall\<rparr>)))"
proof -
  have "(case find_allowance (ensure_account db (ch_account ch) t) (ch_account ch) (ch_delegate ch) of None \<Rightarrow> 0 | Some al \<Rightarrow> al_raw al)
      = registered db (ch_account ch) (ch_delegate ch)" for t
    by (simp add: registered_def find_allowance_def credit_simps)
  with assms UpsertAllowance_delta [OF assms] show ?thesis
    by (simp add: UpsertAllowance_def change_valid_def Let_def wrap64_id [of 0] in_int64_def)
qed

lemma UpsertAllowance_effect:
  assumes "billing_inv db" "allowances_ok db" and "change_valid ch"
    and "\<And>leg. leg \<in> allowance_leg_names \<Longrightarrow> (ch_ref ch, leg) \<notin> ledger_key ` set (ledger db)"
    and "a = ch_account ch" "d = ch_delegate ch" "delta = ch_raw ch - registered db a d"
    and "credit_of db a + delta \<le> max_int64"
  shows "\<exists>db' res. UpsertAllowance db ch clock = Inr (db', res) \<and> billing_inv db' \<and> allowances_ok db' \<and>
    cr_applied res = delta \<and> cr_shortfall res = max 0 (reserved_of db a - (credit_of db a + delta)) \<and>
    (\<forall>b e. registered db' b e = (if b = a \<and> e = d then ch_raw ch else registered db b e)) \<and>
    (\<forall>b. credit_of db' b = (if b = a then max (reserved_of db a) (credit_of db a + delta) else credit_of db b)) \<and>
    (\<forall>b. drift db' b = drift db b + (if b = a then cr_shortfall res else 0)) \<and> ledger_ext allowance_leg_names db db'"
proof -
  define now where "now = time_or_now clock (ch_observed_at ch)"
  define db2 where "db2 = upsert_row (ensure_account db a now)
    \<lparr>al_account = a, al_delegate = d, al_raw = ch_raw ch, al_approved_at = now, al_revoked_at = (if ch_raw ch = 0 then Some now else None)\<rparr>"
  note st = observe_state [OF assms(3,1,2), of now, folded assms(5,6), folded db2_def]
  have run0: "UpsertAllowance db ch clock =
      (if delta = 0 then Inr (db2, \<lparr>cr_prev = registered db a d, cr_applied = 0, cr_shortfall = 0\<rparr>)
       else rbind (mirror_delta db2 ch delta now) (\<lambda>(db3, applied, shortfall).
            Inr (db3, \<lparr>cr_prev = registered db a d, cr_applied = applied, cr_shortfall = shortfall\<rparr>)))"
    by (simp only: UpsertAllowance_run [OF assms(3,2)] Let_def now_def db2_def assms(5-7))
  have bnd: "- max_int64 \<le> delta" using assms(3,7) registered_bounds [OF assms(2), of a d] by (simp add: change_valid_def)
  have bal: "0 \<le> reserved_of db a" "reserved_of db a \<le> credit_of db a" using accounts_ok_bounds assms(1) by (simp_all add: billing_inv_def)
  show ?thesis
  proof (cases "delta = 0")
    case True
    have run: "UpsertAllowance db ch clock = Inr (db2, \<lparr>cr_prev = registered db a d, cr_applied = 0, cr_shortfall = 0\<rparr>)"
      using True by (simp add: run0)
    have ext: "ledger_ext allowance_leg_names db db2" using st(5) by (rule ledger_ext_refl)
    have "billing_inv db2" using billing_inv_frame [OF assms(1) st(4) st(1,2) st(8) ext] by (simp add: allowance_leg_names_def)
    with run ext st bal True show ?thesis by (simp add: drift_def ledger_sum_def)
  next
    case False
    obtain row where row: "find_row ac_account a (accounts db2) = Some row" using st(6) by blast
    have "(ch_ref ch, if delta < 0 then ''revoke'' else ''grant'') \<notin> ledger_key ` set (ledger db2)"
      using assms(4) st(5) by (simp add: allowance_leg_names_def)
    from mirror_delta_fresh [OF st(1,2) row assms(5) this bnd, of now] assms(8)
    obtain db3 where m: "mirror_delta db2 ch delta now = Inr (db3, delta, max 0 (reserved_of db2 a - (credit_of db2 a + delta)))"
      "accounts_ok db3" "ledger_ok db3" "requests db3 = requests db2" "\<And>b. reserved_of db3 b = reserved_of db2 b"
      "\<And>b. credit_of db3 b = (if b = a then max (reserved_of db2 a) (credit_of db2 a + delta) else credit_of db2 b)"
      "\<And>b. drift db3 b = drift db2 b + (if b = a then max 0 (reserved_of db2 a - (credit_of db2 a + delta)) else 0)"
      "ledger_ext allowance_leg_names db2 db3" "other_tables db3 = other_tables db2"
      by (auto simp: st(7))
    have run: "UpsertAllowance db ch clock = Inr (db3, \<lparr>cr_prev = registered db a d, cr_applied = delta,
        cr_shortfall = max 0 (reserved_of db a - (credit_of db a + delta))\<rparr>)"
      using False m(1) st(7,8) by (simp add: run0)
    have ext: "ledger_ext allowance_leg_names db db3" using m(8) st(5) by (simp add: ledger_ext_def)
    have al: "allowances db3 = allowances db2" using m(9) by (simp add: other_tables_def)
    have "billing_inv db3"
      using billing_inv_frame [OF assms(1) _ m(2,3) _ ext] m(4,5) st(4,8) by (simp add: allowance_leg_names_def)
    moreover have "allowances_ok db3" using st(3) al by (simp add: allowances_ok_def)
    moreover have "drift db2 b = drift db b" for b using st(5,7) by (simp add: drift_def ledger_sum_def)
    ultimately show ?thesis using run m(6,7) st(7,8,9) ext registered_tables [OF al] by simp
  qed
qed

section \<open>Observations keep the books\<close>

lemma clamp_bounds:
  assumes "0 \<le> r" "r \<le> c" "c \<le> max_int64"
  shows "r \<le> fst (clamp_credit c r delta)" "fst (clamp_credit c r delta) \<le> max_int64"
  using assms wrap64_range [of "c + delta"] by (auto simp: clamp_credit_def Let_def in_int64_def)

lemma mirror_delta_keeps:
  assumes "mirror_delta db ch delta now = Inr (db', app, sh)" and "accounts_ok db" "ledger_ok db"
  shows "accounts_ok db'" "ledger_ok db'" "requests db' = requests db" "reserved_of db' b = reserved_of db b"
    "b \<noteq> ch_account ch \<Longrightarrow> drift db' b = drift db b" "ledger_ext allowance_leg_names db db'" "other_tables db' = other_tables db"
proof -
  define leg where "leg = (if delta < 0 then ''revoke'' else ''grant'')"
  define e where "e = plain_leg (ch_account ch) delta ''delegation'' leg (ch_delegate ch) (ch_ref ch) now"
  have "accounts_ok db' \<and> ledger_ok db' \<and> requests db' = requests db \<and> reserved_of db' b = reserved_of db b \<and>
    (b \<noteq> ch_account ch \<longrightarrow> drift db' b = drift db b) \<and> ledger_ext allowance_leg_names db db' \<and> other_tables db' = other_tables db"
  proof (cases "insert_ledger db e")
    case (Inl x)
    then have "db' = db" using assms(1) by (auto simp: mirror_delta_def insert_ledger_once_def e_def leg_def Let_def)
    then show ?thesis using assms by (simp add: ledger_ext_refl)
  next
    case (Inr db1)
    note ins = Inr and o = insert_ledger_other [OF Inr]
    from assms(1) ins obtain row where row: "find_row ac_account (ch_account ch) (accounts db1) = Some row"
      and up: "update_account db1 (ch_account ch) (set_credit (fst (clamp_credit (ac_credit row) (ac_reserved row) delta)) now) = Inr db'"
      by (auto simp: mirror_delta_def insert_ledger_once_def e_def leg_def Let_def AccountCredit_get_def res_simps split: option.splits prod.splits)
    have a1: "accounts_ok db1" using accounts_ok_cong [OF o(1)] assms(2) by simp
    have bnd: "0 \<le> ac_reserved row" "ac_reserved row \<le> ac_credit row" "ac_credit row \<le> max_int64"
      using accounts_ok_bounds [OF a1, of "ch_account ch"] row by (simp_all add: credit_of_def reserved_of_def)
    obtain db2 where db2: "update_account db1 (ch_account ch) (set_credit (fst (clamp_credit (ac_credit row) (ac_reserved row) delta)) now) = Inr db2"
      "accounts_ok db2" "\<And>b. reserved_of db2 b = reserved_of db1 b"
      "\<And>b. b \<noteq> ch_account ch \<Longrightarrow> credit_of db2 b = credit_of db1 b"
      using set_credit_update [OF a1 row clamp_bounds [OF bnd, of delta], of now] by auto
    have eq: "db2 = db'" using db2(1) up by simp
    note u = update_account_other [OF up]
    have "ledger_ok db'" using ledger_ok_cong [OF u(2,11)] insert_ledger_ok [OF ins assms(3)] by simp
    moreover have "drift db' b = drift db b" if "b \<noteq> ch_account ch"
      using insert_ledger_sum [OF ins, of b] that db2(4) [of b] o u eq by (auto simp: drift_def ledger_sum_def e_def credit_of_def)
    moreover have "ledger_ext allowance_leg_names db db'"
      using insert_ledger_ext [OF ins, of allowance_leg_names] u(2) by (simp add: ledger_ext_def allowance_leg_names_def e_def leg_def split: if_splits)
    moreover have "other_tables db' = other_tables db" using other_tables_simps(2) [OF up] other_tables_simps(4) [OF ins] by simp
    ultimately show ?thesis using db2 eq o u by (simp add: reserved_of_def)
  qed
  then show "accounts_ok db'" "ledger_ok db'" "requests db' = requests db" "reserved_of db' b = reserved_of db b"
    "b \<noteq> ch_account ch \<Longrightarrow> drift db' b = drift db b" "ledger_ext allowance_leg_names db db'" "other_tables db' = other_tables db" by auto
qed

lemma UpsertAllowance_keeps:
  assumes "UpsertAllowance db ch clock = Inr (db', res)" and "ch_raw ch \<le> max_int64" and "billing_inv db" "allowances_ok db"
  shows "billing_inv db'" "allowances_ok db'" "allowance_rel db db'"
    "registered db' a d = (if a = ch_account ch \<and> d = ch_delegate ch then ch_raw ch else registered db a d)"
    "b \<noteq> ch_account ch \<Longrightarrow> drift db' b = drift db b"
proof -
  define now where "now = time_or_now clock (ch_observed_at ch)"
  define db2 where "db2 = upsert_row (ensure_account db (ch_account ch) now)
    \<lparr>al_account = ch_account ch, al_delegate = ch_delegate ch, al_raw = ch_raw ch, al_approved_at = now, al_revoked_at = (if ch_raw ch = 0 then Some now else None)\<rparr>"
  have v: "change_valid ch" using assms(1,2) by (auto simp: UpsertAllowance_def change_valid_def split: if_splits)
  note st = observe_state [OF v assms(3,4), of now, folded db2_def]
  have fr: "registry_frame db2 = registry_frame db" by (simp add: registry_frame_def db2_def upsert_row_def credit_simps)
  have dr2: "drift db2 b = drift db b" for b using st(5,7) by (simp add: drift_def ledger_sum_def)
  have "db' = db2 \<or> (\<exists>delta app sh. mirror_delta db2 ch delta now = Inr (db', app, sh))"
    using assms(1) unfolding UpsertAllowance_run [OF v assms(4)] Let_def
    by (auto simp: now_def db2_def res_simps split: if_splits)
  then have k: "accounts_ok db' \<and> ledger_ok db' \<and> requests db' = requests db2 \<and> (\<forall>b. reserved_of db' b = reserved_of db2 b) \<and>
    (\<forall>b. b \<noteq> ch_account ch \<longrightarrow> drift db' b = drift db2 b) \<and> ledger_ext allowance_leg_names db2 db' \<and> other_tables db' = other_tables db2"
    using mirror_delta_keeps st(1,2) by (auto simp: ledger_ext_refl)
  then have ext: "ledger_ext allowance_leg_names db db'" using st(5) by (simp add: ledger_ext_def)
  have al: "allowances db' = allowances db2" using k by (simp add: other_tables_def)
  show "billing_inv db'"
    using billing_inv_frame [OF assms(3) _ _ _ _ ext] k st(4,8) by (simp add: allowance_leg_names_def)
  show "allowances_ok db'" using st(3) al by (simp add: allowances_ok_def)
  have "registry_frame db' = registry_frame db2" using k by (simp add: registry_frame_def other_tables_def)
  with fr k st(4,8) ext show "allowance_rel db db'" by (simp add: allowance_rel_def)
  show "registered db' a d = (if a = ch_account ch \<and> d = ch_delegate ch then ch_raw ch else registered db a d)"
    using registered_tables [OF al] st(9) by simp
  show "drift db' b = drift db b" if "b \<noteq> ch_account ch" using k that dr2 by simp
qed

lemma allowance_rel_refl: "allowance_rel db db"
  by (simp add: allowance_rel_def ledger_ext_refl)

lemma allowance_rel_trans: "allowance_rel s t \<Longrightarrow> allowance_rel t u \<Longrightarrow> allowance_rel s u"
  by (auto simp: allowance_rel_def ledger_ext_def)

interpretation al_store: tx_store exec_allowance "\<lambda>db. billing_inv db \<and> allowances_ok db" allowance_rel
proof
  fix s s' op r
  assume inv: "billing_inv s \<and> allowances_ok s" and ex: "exec_allowance op s = Inr (s', r)"
  obtain ch clock where op: "op = AlObserve ch clock" by (cases op)
  have "wrap64 (ch_raw ch) \<le> max_int64" using wrap64_range [of "ch_raw ch"] by (simp add: in_int64_def)
  with UpsertAllowance_keeps [of s "ch\<lparr>ch_raw := wrap64 (ch_raw ch)\<rparr>" clock s' r] inv ex op
  show "billing_inv s' \<and> allowances_ok s'" "allowance_rel s s'" by auto
qed (auto intro: allowance_rel_refl allowance_rel_trans)

section \<open>Properties\<close>

text \<open>
  C30 (an observed delegation is mirrored exactly once). For a valid observation under a ref the ledger does not hold yet,
  the registry row becomes the observed amount and no other row changes; the account's credit moves by the
  difference to the previous amount, but never below its open reservations; the part that could not be debited is
  reported as the shortfall and is exactly what the account's drift grows by; the billing invariant is kept; and observing the
  same amount again changes neither credit nor ledger.
\<close>

theorem UpsertAllowance_mirrors:
  assumes "billing_inv db" "allowances_ok db" and "change_valid ch"
    and "\<forall>leg \<in> {''grant'', ''revoke''}. (ch_ref ch, leg) \<notin> ledger_key ` set (ledger db)"
    and "credit_of db (ch_account ch) + (ch_raw ch - registered db (ch_account ch) (ch_delegate ch)) \<le> max_int64"
  shows "\<exists>db' res. UpsertAllowance db ch clock = Inr (db', res) \<and> billing_inv db' \<and> allowances_ok db' \<and>
    (\<forall>b e. registered db' b e =
      (if b = ch_account ch \<and> e = ch_delegate ch then ch_raw ch else registered db b e)) \<and>
    cr_applied res = ch_raw ch - registered db (ch_account ch) (ch_delegate ch) \<and>
    credit_of db' (ch_account ch) = max (reserved_of db (ch_account ch)) (credit_of db (ch_account ch) + cr_applied res) \<and>
    cr_shortfall res = max 0 (reserved_of db (ch_account ch) - (credit_of db (ch_account ch) + cr_applied res)) \<and>
    (\<forall>b. drift db' b = drift db b + (if b = ch_account ch then cr_shortfall res else 0)) \<and>
    (\<forall>ref clock'. ref \<noteq> [] \<longrightarrow> (\<exists>db'' res'. UpsertAllowance db' (ch\<lparr>ch_ref := ref\<rparr>) clock' = Inr (db'', res') \<and>
      cr_applied res' = 0 \<and> ledger db'' = ledger db' \<and> (\<forall>b. credit_of db'' b = credit_of db' b)))"
proof -
  from UpsertAllowance_effect [OF assms(1-3) _ refl refl refl, of clock] assms(4,5)
  obtain db' res where r: "UpsertAllowance db ch clock = Inr (db', res)" "billing_inv db'" "allowances_ok db'"
    "cr_applied res = ch_raw ch - registered db (ch_account ch) (ch_delegate ch)"
    "cr_shortfall res = max 0 (reserved_of db (ch_account ch) - (credit_of db (ch_account ch) + cr_applied res))"
    "\<And>b e. registered db' b e = (if b = ch_account ch \<and> e = ch_delegate ch then ch_raw ch else registered db b e)"
    "credit_of db' (ch_account ch) = max (reserved_of db (ch_account ch)) (credit_of db (ch_account ch) + cr_applied res)"
    "\<And>b. drift db' b = drift db b + (if b = ch_account ch then cr_shortfall res else 0)"
    by (auto simp: allowance_leg_names_def)
  have again: "\<exists>db'' res'. UpsertAllowance db' (ch\<lparr>ch_ref := ref\<rparr>) clock' = Inr (db'', res') \<and>
      cr_applied res' = 0 \<and> ledger db'' = ledger db' \<and> (\<forall>b. credit_of db'' b = credit_of db' b)" if "ref \<noteq> []" for ref clock'
  proof -
    have v: "change_valid (ch\<lparr>ch_ref := ref\<rparr>)" using assms(3) that by (simp add: change_valid_def)
    show ?thesis
      using observe_state [OF v r(2,3)] r(6) [of "ch_account ch" "ch_delegate ch"]
      by (simp add: UpsertAllowance_run [OF v r(3)] Let_def)
  qed
  from r again show ?thesis by blast
qed


theorem UpsertAllowance_mirrors_witness:
  "\<exists>db' res. UpsertAllowance demo_funded (demo_change 500 ''obs:w:7'') 9 = Inr (db', res) \<and> billing_inv db' \<and> allowances_ok db' \<and>
    credit_of db' ''b1'' = 1500 \<and> registered db' ''b1'' ''auth'' = 500"
proof -
  have pre: "allowances_ok demo_funded" "change_valid (demo_change 500 ''obs:w:7'')"
    "credit_of demo_funded ''b1'' = 1000" "reserved_of demo_funded ''b1'' = 0" "registered demo_funded ''b1'' ''auth'' = 0"
    "ledger_key ` set (ledger demo_funded) = {(''sig'', ''deposit'')}"
    by code_simp+
  from UpsertAllowance_mirrors [OF demo_inv(2) pre(1,2), of 9] pre(3-6) show ?thesis
    by (auto simp: demo_change_def)
qed

end
