(* ===== verification/Solana_Keys.thy ===== *)
theory Solana_Keys
  imports Merkle
begin

text \<open>
  Solana addresses, \<^verbatim>\<open>internal/solana\<close>: base58 (\<^verbatim>\<open>base58.go\<close>), program-derived addresses (\<^verbatim>\<open>pda.go\<close>) and the wallet
  normalisation of \<^verbatim>\<open>solana.go\<close>. Bytes are \<^typ>\<open>8 word\<close>s, a Go string is its bytes; the digit buffers of the base
  conversions, least significant digit first, are lists of naturals below the base, which is what the byte
  slices of the code hold. SHA-256 is the argument \<open>H\<close>; the curve test is the code's, over unbounded integers as \<^verbatim>\<open>math/big\<close> has them.
\<close>

section \<open>Base conversion\<close>

text \<open>
  One step of both conversions: multiply the number in the buffer by \<open>factor\<close> and add \<open>carry\<close>,
  digit by digit, then append what is left of the carry.
\<close>

fun mul_carry :: "nat \<Rightarrow> nat \<Rightarrow> nat \<Rightarrow> nat list \<Rightarrow> nat list \<times> nat" where
  "mul_carry base factor carry [] = ([], carry)"
| "mul_carry base factor carry (d # ds) =
     (let c = carry + d * factor; (rest, out) = mul_carry base factor (c div base) ds in (c mod base # rest, out))"

fun carry_digits :: "nat \<Rightarrow> nat \<Rightarrow> nat list" where
  "carry_digits base carry =
     (if carry = 0 \<or> base < 2 then [] else carry mod base # carry_digits base (carry div base))"

declare carry_digits.simps [simp del]

section \<open>Encoding\<close>

definition alphabet :: string where
  "alphabet = ''123456789ABCDEFGHJKLMNPQRSTUVWXYZabcdefghijkmnopqrstuvwxyz''"

fun encode_loop :: "bytes \<Rightarrow> nat list \<Rightarrow> nat list" where
  "encode_loop [] digits = digits"
| "encode_loop (b # bs) digits =
     (let (ds, carry) = mul_carry 58 256 (unat b) digits in encode_loop bs (ds @ carry_digits 58 carry))"

definition leading_zeros :: "bytes \<Rightarrow> nat" where
  "leading_zeros b = length (takeWhile (\<lambda>x. x = 0) b)"

definition EncodeBase58 :: "bytes \<Rightarrow> string" where
  "EncodeBase58 b =
     (if b = [] then []
      else let zeros = leading_zeros b; digits = encode_loop (drop zeros b) []
           in replicate zeros (CHR ''1'') @ map (\<lambda>d. alphabet ! d) (rev digits))"

section \<open>Decoding\<close>

fun char_index :: "char \<Rightarrow> string \<Rightarrow> nat option" where
  "char_index c [] = None"
| "char_index c (x # xs) = (if x = c then Some 0 else map_option Suc (char_index c xs))"

definition decode_char :: "char \<Rightarrow> nat option" where
  "decode_char c = char_index c alphabet"

text \<open>Appending the carry, with the length limit tested after each byte.\<close>

function push_limited :: "nat \<Rightarrow> nat \<Rightarrow> nat \<Rightarrow> nat list \<Rightarrow> nat list option" where
  "push_limited maxLen zeros carry out =
     (if carry = 0 then Some out
      else let out' = out @ [carry mod 256]
           in if maxLen > 0 \<and> length out' + zeros > maxLen then None
              else push_limited maxLen zeros (carry div 256) out')"
  by pat_completeness auto
termination by (relation "measure (\<lambda>(_, _, carry, _). carry)") auto

declare push_limited.simps [simp del]

fun decode_loop :: "nat \<Rightarrow> nat \<Rightarrow> string \<Rightarrow> nat list \<Rightarrow> (nat list) res" where
  "decode_loop maxLen zeros [] out = Inr out"
| "decode_loop maxLen zeros (c # cs) out =
     (case decode_char c of
        None \<Rightarrow> Inl (ErrMsg ''invalid base58 character'')
      | Some val \<Rightarrow>
          (let (ds, carry) = mul_carry 256 58 val out
           in case push_limited maxLen zeros carry ds of
                None \<Rightarrow> Inl (ErrMsg ''decoded value too long'')
              | Some out' \<Rightarrow> decode_loop maxLen zeros cs out'))"

text \<open>The ASCII white space \<^verbatim>\<open>strings.TrimSpace\<close> strips; the other code points it strips start with a byte outside the alphabet.\<close>

definition is_space :: "char \<Rightarrow> bool" where
  "is_space c \<longleftrightarrow> (of_char c :: nat) = 32 \<or> (9 \<le> (of_char c :: nat) \<and> (of_char c :: nat) \<le> 13)"

definition TrimSpace_ascii :: "string \<Rightarrow> string" where
  "TrimSpace_ascii s = rev (dropWhile is_space (rev (dropWhile is_space s)))"

definition DecodeBase58 :: "string \<Rightarrow> nat \<Rightarrow> bytes res" where
  "DecodeBase58 s maxLen =
     (if s = [] then Inl (ErrMsg ''base58 value is required'')
      else if TrimSpace_ascii s \<noteq> s then Inl (ErrMsg ''base58 value contains surrounding whitespace'')
      else let zeros = length (takeWhile (\<lambda>c. c = CHR ''1'') s)
           in rbind (decode_loop maxLen zeros s []) (\<lambda>out.
              let decoded = replicate zeros 0 @ map of_nat (rev out)
              in if maxLen > 0 \<and> length decoded > maxLen then Inl (ErrMsg ''decoded value too long'')
                 else if EncodeBase58 decoded \<noteq> s then Inl (ErrMsg ''non-canonical base58 encoding'')
                 else Inr decoded))"

section \<open>Wallets\<close>

definition PublicKeyBytes :: nat where
  "PublicKeyBytes = 32"

definition SignatureBytes :: nat where
  "SignatureBytes = 64"

definition NormalizeWallet :: "string \<Rightarrow> string res" where
  "NormalizeWallet v =
     rbind (DecodeBase58 v PublicKeyBytes) (\<lambda>decoded.
       if length decoded \<noteq> PublicKeyBytes then Inl (ErrMsg ''wallet public key must decode to 32 bytes'')
       else Inr (EncodeBase58 decoded))"

definition DecodeSignature :: "string \<Rightarrow> bytes res" where
  "DecodeSignature v =
     rbind (DecodeBase58 v SignatureBytes) (\<lambda>decoded.
       if length decoded \<noteq> SignatureBytes then Inl (ErrMsg ''signature must decode to 64 bytes'')
       else Inr decoded)"

text \<open>\<open>verify\<close> is \<^verbatim>\<open>ed25519.Verify\<close>.\<close>

definition VerifySignature :: "(bytes \<Rightarrow> bytes \<Rightarrow> bytes \<Rightarrow> bool) \<Rightarrow> string \<Rightarrow> string \<Rightarrow> string \<Rightarrow> unit res" where
  "VerifySignature verify wallet message signature =
     rbind (DecodeBase58 wallet PublicKeyBytes) (\<lambda>pub.
       if length pub \<noteq> PublicKeyBytes then Inl (ErrMsg ''wallet public key must decode to 32 bytes'')
       else rbind (DecodeSignature signature) (\<lambda>sig.
         if \<not> verify pub (str_bytes message) sig then Inl (ErrMsg ''signature verification failed'') else Inr ()))"

section \<open>Program-derived addresses\<close>

definition SystemProgramID :: bytes where
  "SystemProgramID = replicate 32 0"

text \<open>
  Field arithmetic as \<^verbatim>\<open>math/big\<close> has it: \<^verbatim>\<open>Exp\<close> by squaring, and \<^verbatim>\<open>ModInverse\<close>, which leaves its receiver (here the
  argument itself) unchanged when there is no inverse.
\<close>

function pow_mod :: "int \<Rightarrow> nat \<Rightarrow> int \<Rightarrow> int" where
  "pow_mod b e m =
     (if e = 0 then 1 mod m
      else let h = pow_mod (b * b mod m) (e div 2) m in if odd e then b * h mod m else h)"
  by pat_completeness auto
termination by (relation "measure (\<lambda>(_, e, _). e)") auto

declare pow_mod.simps [simp del]

function egcd :: "int \<Rightarrow> int \<Rightarrow> int \<times> int \<times> int" where
  "egcd a b = (if b \<le> 0 then (a, 1, 0) else let (g, x, y) = egcd b (a mod b) in (g, y, x - a div b * y))"
  by pat_completeness auto
termination by (relation "measure (\<lambda>(_, b). nat b)") auto

declare egcd.simps [simp del]

definition mod_inverse :: "int \<Rightarrow> int \<Rightarrow> int" where
  "mod_inverse g n = (let (d, x, y) = egcd g n in if d = 1 then x mod n else g)"

definition fieldP :: int where
  "fieldP = 2 ^ 255 - 19"

definition curveD :: int where
  "curveD = ((- 121665) mod fieldP) * mod_inverse 121666 fieldP mod fieldP"

definition sqrtM1 :: int where
  "sqrtM1 = pow_mod 2 (nat ((fieldP - 1) div 4)) fieldP"

definition reverseBytes :: "bytes \<Rightarrow> bytes" where
  "reverseBytes b = rev b"

text \<open>\<^verbatim>\<open>big.Int.SetBytes\<close>: big-endian.\<close>

definition SetBytes :: "bytes \<Rightarrow> int" where
  "SetBytes b = foldl (\<lambda>n x. n * 256 + uint x) 0 b"

definition squareEq :: "int \<Rightarrow> int \<Rightarrow> bool" where
  "squareEq x target \<longleftrightarrow> x * x mod fieldP = target"

definition curve_x2 :: "bytes \<Rightarrow> int" where
  "curve_x2 b =
     (let y = SetBytes (reverseBytes b) mod 2 ^ 255;
          y2 = y * y mod fieldP;
          num = (y2 - 1) mod fieldP;
          den = (curveD * y2 + 1) mod fieldP
      in num * mod_inverse den fieldP mod fieldP)"

definition isOnCurve :: "bytes \<Rightarrow> bool" where
  "isOnCurve b =
     (let x2 = curve_x2 b;
          x = pow_mod x2 (nat ((fieldP + 3) div 8)) fieldP
      in if squareEq x x2 then True else squareEq (x * sqrtM1 mod fieldP) x2)"

text \<open>The curve test is an argument of the search, so that it can be evaluated with a small one; the code passes \<open>isOnCurve\<close>.\<close>

definition CreateProgramAddress :: "hash \<Rightarrow> (bytes \<Rightarrow> bool) \<Rightarrow> bytes list \<Rightarrow> bytes \<Rightarrow> byte \<Rightarrow> bytes res" where
  "CreateProgramAddress H on_curve seeds programID bump =
     (let sum = H (concat seeds @ [bump] @ programID @ str_bytes ''ProgramDerivedAddress'')
      in if on_curve sum then Inl (ErrMsg ''solana: address lands on the ed25519 curve'') else Inr sum)"

fun find_bump :: "hash \<Rightarrow> (bytes \<Rightarrow> bool) \<Rightarrow> bytes list \<Rightarrow> bytes \<Rightarrow> nat \<Rightarrow> bytes res" where
  "find_bump H on_curve seeds programID bump =
     (case CreateProgramAddress H on_curve seeds programID (of_nat bump) of
        Inr addr \<Rightarrow> Inr addr
      | Inl _ \<Rightarrow> (case bump of
            0 \<Rightarrow> Inl (ErrMsg ''solana: unable to find a program address for the given seeds'')
          | Suc b \<Rightarrow> find_bump H on_curve seeds programID b))"

declare find_bump.simps [simp del]

definition FindProgramAddress :: "hash \<Rightarrow> (bytes \<Rightarrow> bool) \<Rightarrow> bytes list \<Rightarrow> bytes \<Rightarrow> bytes res" where
  "FindProgramAddress H on_curve seeds programID = find_bump H on_curve seeds programID 255"

text \<open>The built-in program ids, as \<^verbatim>\<open>mustDecodeConst\<close> decodes them at start-up; lemmas \<open>.._text\<close> below decode them.\<close>

definition TokenProgramID :: bytes where
  "TokenProgramID = [6, 221, 246, 225, 215, 101, 161, 147, 217, 203, 225, 70, 206, 235, 121, 172,
     28, 180, 133, 237, 95, 91, 55, 145, 58, 140, 245, 133, 126, 255, 0, 169]"

definition Token2022ProgramID :: bytes where
  "Token2022ProgramID = [6, 221, 246, 225, 238, 117, 143, 222, 24, 66, 93, 188, 228, 108, 205, 218,
     182, 26, 252, 77, 131, 185, 13, 39, 254, 189, 249, 40, 216, 161, 139, 252]"

definition ATAProgramID :: bytes where
  "ATAProgramID = [140, 151, 37, 143, 78, 36, 137, 241, 187, 61, 16, 41, 20, 142, 13, 131,
     11, 90, 19, 153, 218, 255, 16, 132, 4, 142, 123, 216, 219, 233, 248, 89]"

definition RentSysvarID :: bytes where
  "RentSysvarID = [6, 167, 213, 23, 25, 44, 92, 81, 33, 140, 201, 76, 61, 74, 241, 127,
     88, 218, 238, 8, 155, 161, 253, 68, 227, 219, 217, 138, 0, 0, 0, 0]"

definition AssociatedTokenAddress :: "hash \<Rightarrow> (bytes \<Rightarrow> bool) \<Rightarrow> bytes \<Rightarrow> bytes \<Rightarrow> bytes \<Rightarrow> bytes res" where
  "AssociatedTokenAddress H on_curve owner mint tokenProgram =
     FindProgramAddress H on_curve [owner, tokenProgram, mint] ATAProgramID"

section \<open>Numbers in a base\<close>

fun value_of :: "nat \<Rightarrow> nat list \<Rightarrow> nat" where
  "value_of base [] = 0"
| "value_of base (d # ds) = d + base * value_of base ds"

definition canonical :: "nat \<Rightarrow> nat list \<Rightarrow> bool" where
  "canonical base ds \<longleftrightarrow> list_all (\<lambda>d. d < base) ds \<and> (ds \<noteq> [] \<longrightarrow> last ds \<noteq> 0)"

definition absorb :: "nat \<Rightarrow> nat \<Rightarrow> nat \<Rightarrow> nat list \<Rightarrow> nat list" where
  "absorb base factor v ds = (let (rest, carry) = mul_carry base factor v ds in rest @ carry_digits base carry)"

lemma mul_carry_length: "mul_carry base factor c ds = (rest, out) \<Longrightarrow> length rest = length ds"
  by (induction ds arbitrary: c rest out) (auto simp: Let_def split: prod.splits)

lemma value_append: "value_of base (xs @ ys) = value_of base xs + base ^ length xs * value_of base ys"
  by (induction xs) (simp_all add: algebra_simps)

lemma mul_carry_value:
  "mul_carry base factor c ds = (rest, out) \<Longrightarrow>
     value_of base rest + base ^ length ds * out = factor * value_of base ds + c"
proof (induction ds arbitrary: c rest out)
  case (Cons d ds)
  obtain r o' where m: "mul_carry base factor ((c + d * factor) div base) ds = (r, o')"
    by (cases "mul_carry base factor ((c + d * factor) div base) ds")
  with Cons.prems have *: "rest = (c + d * factor) mod base # r" "out = o'" by (auto simp: Let_def)
  have "base * (value_of base r + base ^ length ds * o') = base * (factor * value_of base ds + (c + d * factor) div base)"
    using Cons.IH [OF m] by simp
  then have "base * value_of base r + base * (base ^ length ds * o') =
      base * (factor * value_of base ds) + base * ((c + d * factor) div base)" by (simp add: distrib_left)
  moreover have "(c + d * factor) mod base + base * ((c + d * factor) div base) = c + d * factor"
    by (rule mod_mult_div_eq)
  ultimately have "(c + d * factor) mod base + base * value_of base r + base * (base ^ length ds * o') =
      base * (factor * value_of base ds) + (c + d * factor)" by linarith
  then show ?case unfolding * by (simp add: distrib_left ac_simps)
qed simp

lemma carry_digits_value: "2 \<le> base \<Longrightarrow> value_of base (carry_digits base c) = c"
proof (induction base c rule: carry_digits.induct)
  case (1 base c)
  then show ?case by (subst carry_digits.simps) auto
qed

lemma carry_digits_canonical: "2 \<le> base \<Longrightarrow> canonical base (carry_digits base c)"
proof (induction base c rule: carry_digits.induct)
  case (1 base c)
  show ?case
  proof (cases "c = 0")
    case True
    then show ?thesis by (simp add: carry_digits.simps canonical_def)
  next
    case False
    with 1 have IH: "canonical base (carry_digits base (c div base))" by simp
    have "c div base \<noteq> 0" if "c mod base = 0" using False that by (metis add.right_neutral div_mult_mod_eq mult_eq_0_iff)
    then have "carry_digits base (c div base) = [] \<Longrightarrow> c mod base \<noteq> 0"
      using 1(2) by (metis carry_digits_value value_of.simps(1))
    with IH False 1(2) show ?thesis
      by (subst carry_digits.simps) (auto simp: canonical_def)
  qed
qed

lemma mul_carry_canonical:
  assumes "mul_carry base factor c ds = (rest, out)" and "2 \<le> base" "0 < factor" and "canonical base ds"
  shows "list_all (\<lambda>d. d < base) rest" and "rest \<noteq> [] \<Longrightarrow> out = 0 \<Longrightarrow> last rest \<noteq> 0"
proof -
  have "list_all (\<lambda>d. d < base) rest \<and> (rest \<noteq> [] \<longrightarrow> out = 0 \<longrightarrow> last rest \<noteq> 0)"
    using assms(1,4)
  proof (induction ds arbitrary: c rest out)
    case (Cons d ds)
    obtain r o' where m: "mul_carry base factor ((c + d * factor) div base) ds = (r, o')"
      by (cases "mul_carry base factor ((c + d * factor) div base) ds")
    with Cons.prems(1) have *: "rest = (c + d * factor) mod base # r" "out = o'" by (auto simp: Let_def)
    have can: "canonical base ds" using Cons.prems(2) by (cases ds) (auto simp: canonical_def)
    note IH = Cons.IH [OF m can]
    show ?case
    proof (cases "ds = []")
      case True
      with m have r: "r = []" "o' = (c + d * factor) div base" by simp_all
      have "d \<noteq> 0" using Cons.prems(2) True by (simp add: canonical_def)
      then have "(c + d * factor) mod base \<noteq> 0" if "(c + d * factor) div base = 0"
        using that assms(2,3) by (metis add_is_0 div_mult_mod_eq mult_is_0 not_gr_zero)
      with r * assms(2) show ?thesis by simp
    next
      case False
      then have "r \<noteq> []" using mul_carry_length [OF m] by auto
      with IH * assms(2) show ?thesis by simp
    qed
  qed simp
  then show "list_all (\<lambda>d. d < base) rest" and "rest \<noteq> [] \<Longrightarrow> out = 0 \<Longrightarrow> last rest \<noteq> 0" by auto
qed

lemma absorb_value: "2 \<le> base \<Longrightarrow> value_of base (absorb base factor v ds) = factor * value_of base ds + v"
  using mul_carry_value [of base factor v ds] mul_carry_length [of base factor v ds]
  by (auto simp: absorb_def value_append carry_digits_value split: prod.splits)

lemma absorb_canonical:
  assumes "2 \<le> base" "0 < factor" "canonical base ds"
  shows "canonical base (absorb base factor v ds)"
proof -
  obtain rest out where m: "mul_carry base factor v ds = (rest, out)" by (cases "mul_carry base factor v ds")
  note c = mul_carry_canonical [OF m assms] and d = carry_digits_canonical [OF assms(1), of out]
  have "carry_digits base out = [] \<Longrightarrow> out = 0" using carry_digits_value [OF assms(1), of out] by auto
  with c d m show ?thesis by (cases "carry_digits base out = []") (auto simp: absorb_def canonical_def)
qed

lemma canonical_positive:
  assumes "canonical base ds" "ds \<noteq> []"
  shows "0 < value_of base ds"
proof -
  obtain es d where ds: "ds = es @ [d]" using assms(2) by (metis append_butlast_last_id)
  with assms have "0 < d" "0 < base" by (auto simp: canonical_def)
  with ds show ?thesis by (simp add: value_append)
qed

lemma canonical_tl: "canonical base (x # xs) \<Longrightarrow> canonical base xs"
  by (cases xs) (auto simp: canonical_def)

lemma canonical_unique:
  assumes "canonical base xs" "canonical base ys" and "value_of base xs = value_of base ys"
  shows "xs = ys"
  using assms
proof (induction xs arbitrary: ys)
  case Nil
  then show ?case using canonical_positive [of base ys] by auto
next
  case (Cons x xs)
  then obtain y ys' where ys: "ys = y # ys'" using canonical_positive [of base "x # xs"] by (cases ys) auto
  from Cons.prems ys have lt: "x < base" "y < base" by (auto simp: canonical_def)
  from Cons.prems(3) ys have eq: "x + base * value_of base xs = y + base * value_of base ys'" by simp
  have "x = y" using arg_cong [OF eq, of "\<lambda>n. n mod base"] lt by simp
  with eq lt have "value_of base xs = value_of base ys'" by simp
  with Cons.IH Cons.prems(1,2) \<open>x = y\<close> ys show ?case by (blast dest: canonical_tl)
qed

lemma mul_absorb_length: "length ds \<le> length (absorb base factor v ds)"
  using mul_carry_length [of base factor v ds] by (auto simp: absorb_def split: prod.splits)

section \<open>Both loops compute the number\<close>

lemma foldl_value: "foldl (\<lambda>n d. base * n + d) 0 (rev ds) = value_of base ds"
  by (induction ds) simp_all

lemma absorb_fold:
  assumes "2 \<le> base" "0 < factor" "canonical base ds"
  shows "canonical base (foldl (\<lambda>o' v. absorb base factor v o') ds vs)"
    and "value_of base (foldl (\<lambda>o' v. absorb base factor v o') ds vs) = foldl (\<lambda>n v. factor * n + v) (value_of base ds) vs"
    and "length ds \<le> length (foldl (\<lambda>o' v. absorb base factor v o') ds vs)"
  using assms(3)
proof (induction vs arbitrary: ds)
  case (Cons v vs)
  { case 1 then show ?case using Cons.IH(1) absorb_canonical [OF assms(1,2)] by simp }
  { case 2 then show ?case using Cons.IH(2) absorb_canonical [OF assms(1,2)] absorb_value [OF assms(1)] by simp }
  { case 3 then show ?case using Cons.IH(3) [of "absorb base factor v ds"] absorb_canonical [OF assms(1,2)]
        mul_absorb_length [of ds base factor v] by simp }
qed simp_all

lemma encode_loop_fold: "encode_loop bs ds = foldl (\<lambda>o' v. absorb 58 256 v o') ds (map unat bs)"
  by (induction bs arbitrary: ds) (simp_all add: absorb_def split: prod.splits)

lemma push_limited_within:
  "maxLen = 0 \<or> length (out @ carry_digits 256 carry) + zeros \<le> maxLen \<Longrightarrow>
     push_limited maxLen zeros carry out = Some (out @ carry_digits 256 carry)"
proof (induction maxLen zeros carry out rule: push_limited.induct)
  case (1 maxLen zeros carry out)
  show ?case
  proof (cases "carry = 0")
    case True
    then show ?thesis by (simp add: push_limited.simps carry_digits.simps)
  next
    case False
    then have cd: "carry_digits 256 carry = carry mod 256 # carry_digits 256 (carry div 256)"
      by (subst carry_digits.simps) simp
    have ok: "\<not> (maxLen > 0 \<and> length (out @ [carry mod 256]) + zeros > maxLen)" using "1.prems" cd by auto
    have "push_limited maxLen zeros (carry div 256) (out @ [carry mod 256]) = Some ((out @ [carry mod 256]) @ carry_digits 256 (carry div 256))"
      using "1.IH" [OF False refl ok] "1.prems" cd by simp
    with False ok cd show ?thesis by (subst push_limited.simps) (simp add: Let_def)
  qed
qed

lemma decode_loop_fold:
  assumes "list_all2 (\<lambda>c v. decode_char c = Some v) cs vs"
    and "canonical 256 out"
    and "maxLen = 0 \<or> length (foldl (\<lambda>o' v. absorb 256 58 v o') out vs) + zeros \<le> maxLen"
  shows "decode_loop maxLen zeros cs out = Inr (foldl (\<lambda>o' v. absorb 256 58 v o') out vs)"
  using assms
proof (induction cs vs arbitrary: out rule: list_all2_induct)
  case (Cons c cs v vs)
  have can: "canonical 256 (absorb 256 58 v out)" using absorb_canonical Cons.prems(1) by simp
  obtain ds carry where m: "mul_carry 256 58 v out = (ds, carry)" by (cases "mul_carry 256 58 v out")
  then have a: "absorb 256 58 v out = ds @ carry_digits 256 carry" by (simp add: absorb_def)
  have "maxLen = 0 \<or> length (ds @ carry_digits 256 carry) + zeros \<le> maxLen"
    using Cons.prems(2) absorb_fold(3) [of 256 58 "absorb 256 58 v out" vs] can by (auto simp: a)
  from push_limited_within [OF this] Cons m a can show ?case by simp
qed simp

section \<open>The alphabet\<close>

lemma decode_alphabet: "d < 58 \<Longrightarrow> decode_char (alphabet ! d) = Some d"
proof -
  have "list_all (\<lambda>d. decode_char (alphabet ! d) = Some d) [0..<58]" by code_simp
  then show "d < 58 \<Longrightarrow> ?thesis" by (simp add: list_all_iff)
qed

lemma alphabet_no_space: "d < 58 \<Longrightarrow> \<not> is_space (alphabet ! d)"
proof -
  have "list_all (\<lambda>d. \<not> is_space (alphabet ! d)) [0..<58]" by code_simp
  then show "d < 58 \<Longrightarrow> ?thesis" by (simp add: list_all_iff)
qed

lemma decode_one: "decode_char (CHR ''1'') = Some 0" "\<not> is_space (CHR ''1'')"
  by code_simp+

lemma alphabet_one: "d < 58 \<Longrightarrow> alphabet ! d = CHR ''1'' \<Longrightarrow> d = 0"
  using decode_alphabet [of d] decode_one by simp

lemma dropWhile_none: "list_all (\<lambda>c. \<not> P c) t \<Longrightarrow> dropWhile P t = t"
  by (cases t) auto

lemma TrimSpace_ascii_id: "list_all (\<lambda>c. \<not> is_space c) s \<Longrightarrow> TrimSpace_ascii s = s"
  by (simp add: TrimSpace_ascii_def dropWhile_none list_all_rev)

lemma takeWhile_prefix: "ys = [] \<or> hd ys \<noteq> c \<Longrightarrow> length (takeWhile (\<lambda>x. x = c) (replicate n c @ ys)) = n"
  by (induction n) (cases ys; auto)+

section \<open>Round trip\<close>

lemma split_zeros:
  obtains r where "b = replicate (leading_zeros b) 0 @ r" "r = [] \<or> hd r \<noteq> 0" "drop (leading_zeros b) b = r"
proof -
  have t: "takeWhile (\<lambda>x. x = 0) b = replicate (leading_zeros b) 0"
    unfolding leading_zeros_def by (induction b) auto
  have "b = replicate (leading_zeros b) 0 @ dropWhile (\<lambda>x. x = 0) b"
    using takeWhile_dropWhile_id [of "\<lambda>x. x = 0" b] t by simp
  moreover have "dropWhile (\<lambda>x. x = 0) b = [] \<or> hd (dropWhile (\<lambda>x. x = 0) b) \<noteq> 0"
    using hd_dropWhile [of "\<lambda>x. x = 0" b] by auto
  moreover have "drop (leading_zeros b) b = dropWhile (\<lambda>x. x = 0) b"
    by (simp add: leading_zeros_def dropWhile_eq_drop)
  ultimately show ?thesis using that by blast
qed

lemma canonical_bytes:
  assumes "r = [] \<or> hd r \<noteq> (0 :: byte)"
  shows "canonical 256 (map unat (rev r))"
proof -
  have "unat x < 256" for x :: byte using unsigned_less [of x] by simp
  moreover have "last (map unat (rev r)) \<noteq> 0" if "r \<noteq> []"
    using assms that by (cases r) (auto simp: unat_eq_0)
  ultimately show ?thesis by (auto simp: canonical_def list_all_iff)
qed

lemma encode_digits:
  assumes "r = [] \<or> hd r \<noteq> (0 :: byte)"
  shows "canonical 58 (encode_loop r [])" "value_of 58 (encode_loop r []) = value_of 256 (map unat (rev r))"
    "encode_loop r [] = [] \<Longrightarrow> r = []"
proof -
  have c: "canonical 58 []" by (simp add: canonical_def)
  show "canonical 58 (encode_loop r [])" using absorb_fold(1) [OF _ _ c] by (simp add: encode_loop_fold)
  show v: "value_of 58 (encode_loop r []) = value_of 256 (map unat (rev r))"
    using absorb_fold(2) [OF _ _ c, of 256 "map unat r"] foldl_value [of 256 "map unat (rev r)"]
    by (simp add: encode_loop_fold rev_map)
  show "r = []" if "encode_loop r [] = []"
    using v that canonical_positive [OF canonical_bytes [OF assms]] by fastforce
qed

lemma DecodeBase58_EncodeBase58:
  assumes "b \<noteq> []" and "maxLen = 0 \<or> length b \<le> maxLen"
  shows "DecodeBase58 (EncodeBase58 b) maxLen = Inr b"
proof -
  define z where "z = leading_zeros b"
  obtain r where b: "b = replicate z 0 @ r" and r: "r = [] \<or> hd r \<noteq> 0" "drop z b = r"
    unfolding z_def by (rule split_zeros)
  define ds where "ds = encode_loop r []"
  note e = encode_digits [OF r(1), folded ds_def]
  define s where "s = replicate z (CHR ''1'') @ map (\<lambda>d. alphabet ! d) (rev ds)"
  have enc: "EncodeBase58 b = s" using assms(1) r(2) by (simp add: EncodeBase58_def Let_def s_def ds_def z_def)
  have lt: "d < 58" if "d \<in> set ds" for d using e(1) that by (auto simp: canonical_def list_all_iff)
  have ne: "s \<noteq> []" using assms(1) b e(3) by (auto simp: s_def)
  have trim: "TrimSpace_ascii s = s"
    by (rule TrimSpace_ascii_id) (auto simp: s_def list_all_iff decode_one dest: lt alphabet_no_space)
  have hd: "hd (rev ds) \<noteq> 0" "hd (rev ds) < 58" if "ds \<noteq> []"
    using e(1) that by (auto simp: canonical_def hd_rev list_all_iff)
  have zeros: "length (takeWhile (\<lambda>c. c = CHR ''1'') s) = z"
    unfolding s_def by (rule takeWhile_prefix) (use hd alphabet_one in \<open>cases "rev ds"; auto\<close>)
  have all: "list_all2 (\<lambda>c v. decode_char c = Some v) s (replicate z 0 @ rev ds)"
    unfolding s_def using lt
    by (intro list_all2_appendI) (auto simp: list_all2_conv_all_nth decode_one decode_alphabet rev_nth)
  have nil: "canonical 256 []" by (simp add: canonical_def)
  define out where "out = foldl (\<lambda>o' v. absorb 256 58 v o') [] (replicate z 0 @ rev ds)"
  have zs: "foldl (\<lambda>n v. 58 * n + v) 0 (replicate z 0) = (0::nat)" by (induction z) simp_all
  have "value_of 256 out = value_of 58 ds"
    unfolding out_def using absorb_fold(2) [OF _ _ nil, of 58 "replicate z 0 @ rev ds"] zs by (simp add: foldl_value)
  moreover have "canonical 256 out" unfolding out_def by (rule absorb_fold(1) [OF _ _ nil]) simp_all
  ultimately have out: "out = map unat (rev r)"
    using canonical_unique [of 256 out "map unat (rev r)"] canonical_bytes [OF r(1)] e(2) by simp
  have len: "length out + z = length b" using out b by simp
  have run: "decode_loop maxLen z s [] = Inr out"
    unfolding out_def using decode_loop_fold [OF all nil, of maxLen z] assms(2) len by (simp add: out_def)
  have dec: "replicate z 0 @ map of_nat (rev out) = b" by (subst b) (simp add: out rev_map o_def)
  show ?thesis
    unfolding enc DecodeBase58_def using ne trim zeros run dec assms(2) enc by (auto simp: Let_def)
qed

lemma DecodeBase58_canonical:
  assumes "DecodeBase58 s maxLen = Inr b"
  shows "EncodeBase58 b = s" "maxLen > 0 \<Longrightarrow> length b \<le> maxLen"
  using assms by (auto simp: DecodeBase58_def Let_def res_simps split: if_splits)

section \<open>Addresses\<close>

lemma EncodeBase58_by_value:
  assumes "r \<noteq> []" "hd r \<noteq> 0" "canonical 58 ds" "value_of 58 ds = value_of 256 (map unat (rev r))"
  shows "EncodeBase58 r = map (\<lambda>d. alphabet ! d) (rev ds)"
proof -
  have "leading_zeros r = 0" using assms(1,2) by (cases r) (auto simp: leading_zeros_def)
  moreover have "encode_loop r [] = ds"
    using canonical_unique [of 58 "encode_loop r []" ds] encode_digits [of r] assms by simp
  ultimately show ?thesis using assms(1) by (simp add: EncodeBase58_def)
qed

lemma TokenProgramID_text: "DecodeBase58 ''TokenkegQfeZyiNwAJbNbGKPFXCWuBvf9Ss623VQ5DA'' PublicKeyBytes = Inr TokenProgramID"
proof -
  have "EncodeBase58 TokenProgramID = map (\<lambda>d. alphabet ! d) (rev [9, 12, 4, 23, 28, 2, 1, 5, 50, 25, 8, 38, 53, 10, 52, 29, 11, 30, 14, 22, 18, 15,
      34, 21, 34, 17, 9, 54, 21, 41, 56, 32, 37, 38, 23, 39, 37, 43, 45, 37, 43, 46, 26])"
    by (rule EncodeBase58_by_value) (simp_all add: TokenProgramID_def canonical_def)
  also have "\<dots> = ''TokenkegQfeZyiNwAJbNbGKPFXCWuBvf9Ss623VQ5DA''" by code_simp
  finally show ?thesis using DecodeBase58_EncodeBase58 [of TokenProgramID PublicKeyBytes] by (simp add: TokenProgramID_def PublicKeyBytes_def)
qed

lemma Token2022ProgramID_text: "DecodeBase58 ''TokenzQdBNbLqP5VEhdkAS6EPFLC1PHnBqCXEpPxuEb'' PublicKeyBytes = Inr Token2022ProgramID"
proof -
  have "EncodeBase58 Token2022ProgramID = map (\<lambda>d. alphabet ! d) (rev [34, 13, 52, 55, 22, 47, 13, 30, 11, 48, 10, 45, 16, 22, 0, 11, 19, 14, 22, 13, 5, 25,
      9, 43, 36, 40, 13, 28, 4, 22, 48, 19, 34, 21, 10, 36, 23, 57, 45, 37, 43, 46, 26])"
    by (rule EncodeBase58_by_value) (simp_all add: Token2022ProgramID_def canonical_def)
  also have "\<dots> = ''TokenzQdBNbLqP5VEhdkAS6EPFLC1PHnBqCXEpPxuEb''" by code_simp
  finally show ?thesis using DecodeBase58_EncodeBase58 [of Token2022ProgramID PublicKeyBytes] by (simp add: Token2022ProgramID_def PublicKeyBytes_def)
qed

lemma ATAProgramID_text: "DecodeBase58 ''ATokenGPvbdGVxr1b2hvZbsiqW5xWH25efTNsLJA8knL'' PublicKeyBytes = Inr ATAProgramID"
proof -
  have "EncodeBase58 ATAProgramID = map (\<lambda>d. alphabet ! d) (rev [19, 45, 43, 7, 9, 17, 19, 50, 21, 26, 38, 37, 4, 1, 16, 29, 55, 4, 29, 48, 41, 50,
      34, 32, 53, 40, 1, 34, 0, 49, 55, 28, 15, 36, 34, 53, 22, 15, 45, 37, 43, 46, 26, 9])"
    by (rule EncodeBase58_by_value) (simp_all add: ATAProgramID_def canonical_def)
  also have "\<dots> = ''ATokenGPvbdGVxr1b2hvZbsiqW5xWH25efTNsLJA8knL''" by code_simp
  finally show ?thesis using DecodeBase58_EncodeBase58 [of ATAProgramID PublicKeyBytes] by (simp add: ATAProgramID_def PublicKeyBytes_def)
qed

lemma RentSysvarID_text: "DecodeBase58 ''SysvarRent111111111111111111111111111111111'' PublicKeyBytes = Inr RentSysvarID"
proof -
  have "EncodeBase58 RentSysvarID = map (\<lambda>d. alphabet ! d) (rev [0, 0, 0, 0, 0, 0, 0, 0, 0, 0, 0, 0, 0, 0, 0, 0, 0, 0, 0, 0, 0, 0,
      0, 0, 0, 0, 0, 0, 0, 0, 0, 0, 0, 51, 45, 37, 24, 49, 33, 53, 50, 56, 25])"
    by (rule EncodeBase58_by_value) (simp_all add: RentSysvarID_def canonical_def)
  also have "\<dots> = ''SysvarRent111111111111111111111111111111111''" by code_simp
  finally show ?thesis using DecodeBase58_EncodeBase58 [of RentSysvarID PublicKeyBytes] by (simp add: RentSysvarID_def PublicKeyBytes_def)
qed

text \<open>The search stops at the highest bump whose digest is off the curve, and fails only when all 256 are on it.\<close>

lemma find_bump_first:
  fixes H :: hash and seeds :: "bytes list" and pid :: bytes
  defines "digest \<equiv> \<lambda>b. H (concat seeds @ [of_nat b] @ pid @ str_bytes ''ProgramDerivedAddress'')"
  shows "find_bump H oc seeds pid n = Inr addr \<longleftrightarrow>
    (\<exists>b \<le> n. addr = digest b \<and> \<not> oc addr \<and> (\<forall>b'. b < b' \<and> b' \<le> n \<longrightarrow> oc (digest b')))"
proof (induction n)
  case 0
  show ?case by (subst find_bump.simps) (auto simp: CreateProgramAddress_def Let_def digest_def)
next
  case (Suc n)
  show ?case
  proof (cases "oc (digest (Suc n))")
    case True
    then have "find_bump H oc seeds pid (Suc n) = find_bump H oc seeds pid n"
      by (subst find_bump.simps) (simp add: CreateProgramAddress_def Let_def digest_def)
    with Suc True show ?thesis by (auto simp: le_Suc_eq)
  next
    case False
    then have "find_bump H oc seeds pid (Suc n) = Inr (digest (Suc n))"
      by (subst find_bump.simps) (simp add: CreateProgramAddress_def Let_def digest_def)
    with False show ?thesis by (auto simp: le_Suc_eq)
  qed
qed

lemma AssociatedTokenAddress_off_curve:
  "AssociatedTokenAddress H oc owner mint tp = Inr ata \<Longrightarrow> \<not> oc ata \<and> ata \<in> range H"
  by (auto simp: AssociatedTokenAddress_def FindProgramAddress_def find_bump_first)

section \<open>Property\<close>

text \<open>
  C31 (base58 is a bijection). Every non-empty byte string within the length limit is decoded back from its encoding,
  and that encoding is the only text that decodes to it, so a wallet has exactly one accepted spelling.
\<close>

theorem base58_roundtrip:
  assumes "b \<noteq> []" and "maxLen = 0 \<or> length b \<le> maxLen"
  shows "DecodeBase58 (EncodeBase58 b) maxLen = Inr b \<and> (\<forall>s. DecodeBase58 s maxLen = Inr b \<longleftrightarrow> s = EncodeBase58 b)"
  using DecodeBase58_EncodeBase58 [OF assms] DecodeBase58_canonical(1) by blast

theorem base58_roundtrip_witness:
  "EncodeBase58 [0, 1, 255] = ''19p'' \<and> DecodeBase58 ''19p'' 32 = Inr [0, 1, 255]"
proof -
  have "EncodeBase58 [0, 1, 255] = ''19p''" by code_simp
  then show ?thesis using base58_roundtrip [of "[0, 1, 255]" 32] by simp
qed

end
