(* ===== verification/Solana_Message.thy ===== *)
theory Solana_Message
  imports Solana_Keys
begin

text \<open>
  Solana messages. The builders of \<^verbatim>\<open>internal/solana/tx.go\<close>, the withdrawal transfer of
  \<^verbatim>\<open>internal/withdraw/worker.go\<close>, the identical faucet transfer of \<^verbatim>\<open>internal/faucet/tx.go\<close>, and the delegated transfer of
  \<^verbatim>\<open>internal/delegations/worker.go\<close>. Against them stands what the chain does with the bytes: a reference parser, the
  reading of the header (which accounts sign and which are writable is a matter of position), and the check that every index
  of an instruction is in range.
\<close>

section \<open>Builders\<close>

record AccountMeta =
  am_key :: bytes
  am_signer :: bool
  am_writable :: bool

record Instruction =
  in_program :: byte
  in_accounts :: bytes
  in_data :: bytes

fun AppendCompactU16 :: "nat \<Rightarrow> bytes" where
  "AppendCompactU16 v =
     (let b = (of_nat (v mod 128) :: byte); v' = v div 128
      in if v' > 0 then (b OR 128) # AppendCompactU16 v' else [b])"

declare AppendCompactU16.simps [simp del]

definition count_metas :: "(AccountMeta \<Rightarrow> bool) \<Rightarrow> AccountMeta list \<Rightarrow> nat" where
  "count_metas P accounts = length (filter P accounts)"

definition instruction_bytes :: "Instruction \<Rightarrow> bytes" where
  "instruction_bytes ix = [in_program ix] @ AppendCompactU16 (length (in_accounts ix)) @ in_accounts ix @
     AppendCompactU16 (length (in_data ix)) @ in_data ix"

definition BuildMessage :: "AccountMeta list \<Rightarrow> bytes \<Rightarrow> Instruction list \<Rightarrow> bytes" where
  "BuildMessage accounts blockhash ixs =
     [of_nat (count_metas am_signer accounts),
      of_nat (count_metas (\<lambda>a. am_signer a \<and> \<not> am_writable a) accounts),
      of_nat (count_metas (\<lambda>a. \<not> am_signer a \<and> \<not> am_writable a) accounts)] @
     AppendCompactU16 (length accounts) @ concat (map am_key accounts) @ blockhash @
     AppendCompactU16 (length ixs) @ concat (map instruction_bytes ixs)"

definition SerializeTransaction :: "bytes \<Rightarrow> bytes \<Rightarrow> bytes" where
  "SerializeTransaction signature message = AppendCompactU16 1 @ signature @ message"

definition TransferInstructionData :: "int \<Rightarrow> bytes" where
  "TransferInstructionData amount = 3 # put_uint 8 amount"

definition TransferCheckedInstructionData :: "int \<Rightarrow> byte \<Rightarrow> bytes" where
  "TransferCheckedInstructionData amount decimals = 12 # put_uint 8 amount @ [decimals]"

definition CreateATAInstructionData :: bytes where
  "CreateATAInstructionData = [0]"

definition meta :: "bytes \<Rightarrow> bool \<Rightarrow> bool \<Rightarrow> AccountMeta" where
  "meta key signer writable = \<lparr>am_key = key, am_signer = signer, am_writable = writable\<rparr>"

section \<open>The withdrawal and faucet transfer\<close>

definition transfer_accounts :: "bytes \<Rightarrow> bytes \<Rightarrow> bytes \<Rightarrow> bytes \<Rightarrow> bytes \<Rightarrow> bytes \<Rightarrow> bool \<Rightarrow> bool \<Rightarrow> AccountMeta list" where
  "transfer_accounts treasury sourceATA destATA owner mint tokenProgram createATA token2022 =
     [meta treasury True True, meta sourceATA False True, meta destATA False True] @
     (if createATA
      then [meta owner False False, meta mint False False, meta SystemProgramID False False, meta ATAProgramID False False,
            meta tokenProgram False False] @ (if \<not> token2022 then [meta RentSysvarID False False] else [])
      else [meta tokenProgram False False])"

definition transfer_instructions :: "bool \<Rightarrow> bool \<Rightarrow> int \<Rightarrow> Instruction list" where
  "transfer_instructions createATA token2022 amountRaw =
     (if createATA
      then [\<lparr>in_program = 6, in_accounts = [0, 2, 3, 4, 5, 7] @ (if \<not> token2022 then [8] else []),
             in_data = CreateATAInstructionData\<rparr>]
      else []) @
     [\<lparr>in_program = (if createATA then 7 else 3), in_accounts = [1, 2, 0], in_data = TransferInstructionData amountRaw\<rparr>]"

definition buildTransferMessage ::
  "bytes \<Rightarrow> bytes \<Rightarrow> bytes \<Rightarrow> bytes \<Rightarrow> bytes \<Rightarrow> bytes \<Rightarrow> bool \<Rightarrow> bool \<Rightarrow> bytes \<Rightarrow> int \<Rightarrow> bytes"
where
  "buildTransferMessage treasury sourceATA destATA owner mint tokenProgram createATA token2022 blockhash amountRaw =
     BuildMessage (transfer_accounts treasury sourceATA destATA owner mint tokenProgram createATA token2022) blockhash
       (transfer_instructions createATA token2022 amountRaw)"

section \<open>The delegated transfer\<close>

definition checked_accounts :: "bytes \<Rightarrow> bytes \<Rightarrow> bytes \<Rightarrow> bytes \<Rightarrow> bytes \<Rightarrow> bool \<Rightarrow> AccountMeta list" where
  "checked_accounts source mint destATA authority tokenProgram createDestATA =
     [meta source False True, meta mint False False, meta destATA False True, meta authority True False] @
     (if createDestATA
      then [meta authority False False, meta mint False False, meta SystemProgramID False False, meta ATAProgramID False False,
            meta tokenProgram False False]
      else [])"

definition checked_instructions :: "bool \<Rightarrow> int \<Rightarrow> byte \<Rightarrow> Instruction list" where
  "checked_instructions createDestATA amountRaw decimals =
     (if createDestATA
      then [\<lparr>in_program = 6, in_accounts = [0, 2, 3, 5, 7], in_data = CreateATAInstructionData\<rparr>] else []) @
     [\<lparr>in_program = (if createDestATA then 8 else 4), in_accounts = [0, 1, 2, 3],
       in_data = TransferCheckedInstructionData amountRaw decimals\<rparr>]"

definition buildTransferCheckedMessage ::
  "bytes \<Rightarrow> bytes \<Rightarrow> bytes \<Rightarrow> bytes \<Rightarrow> bytes \<Rightarrow> bool \<Rightarrow> bytes \<Rightarrow> int \<Rightarrow> byte \<Rightarrow> bytes"
where
  "buildTransferCheckedMessage source mint destATA authority tokenProgram createDestATA blockhash amountRaw decimals =
     BuildMessage (checked_accounts source mint destATA authority tokenProgram createDestATA) blockhash
       (checked_instructions createDestATA amountRaw decimals)"

section \<open>How the chain reads a message\<close>

record message =
  m_signers :: nat
  m_readonly_signed :: nat
  m_readonly_unsigned :: nat
  m_keys :: "bytes list"
  m_blockhash :: bytes
  m_instructions :: "Instruction list"

fun read_compact :: "bytes \<Rightarrow> (nat \<times> bytes) option" where
  "read_compact [] = None"
| "read_compact (b # bs) =
     (if unat b < 128 then Some (unat b, bs)
      else case read_compact bs of None \<Rightarrow> None | Some (n, rest) \<Rightarrow> Some (unat b - 128 + 128 * n, rest))"

definition read_bytes :: "nat \<Rightarrow> bytes \<Rightarrow> (bytes \<times> bytes) option" where
  "read_bytes n bs = (if length bs < n then None else Some (take n bs, drop n bs))"

fun read_many :: "(bytes \<Rightarrow> ('a \<times> bytes) option) \<Rightarrow> nat \<Rightarrow> bytes \<Rightarrow> ('a list \<times> bytes) option" where
  "read_many p 0 bs = Some ([], bs)"
| "read_many p (Suc n) bs =
     (case p bs of None \<Rightarrow> None | Some (x, bs1) \<Rightarrow>
      (case read_many p n bs1 of None \<Rightarrow> None | Some (xs, bs2) \<Rightarrow> Some (x # xs, bs2)))"

definition read_vector :: "bytes \<Rightarrow> (bytes \<times> bytes) option" where
  "read_vector bs = (case read_compact bs of None \<Rightarrow> None | Some (n, rest) \<Rightarrow> read_bytes n rest)"

fun read_instruction :: "bytes \<Rightarrow> (Instruction \<times> bytes) option" where
  "read_instruction [] = None"
| "read_instruction (p # bs) =
     (case read_vector bs of None \<Rightarrow> None | Some (accts, bs1) \<Rightarrow>
      (case read_vector bs1 of None \<Rightarrow> None | Some (dat, bs2) \<Rightarrow>
        Some (\<lparr>in_program = p, in_accounts = accts, in_data = dat\<rparr>, bs2)))"

definition parse_message :: "bytes \<Rightarrow> message option" where
  "parse_message bs =
     (case bs of s # rs # ru # bs0 \<Rightarrow>
        (case read_compact bs0 of None \<Rightarrow> None | Some (n, bs1) \<Rightarrow>
        (case read_many (read_bytes 32) n bs1 of None \<Rightarrow> None | Some (keys, bs2) \<Rightarrow>
        (case read_bytes 32 bs2 of None \<Rightarrow> None | Some (bh, bs3) \<Rightarrow>
        (case read_compact bs3 of None \<Rightarrow> None | Some (k, bs4) \<Rightarrow>
        (case read_many read_instruction k bs4 of
           Some (ixs, []) \<Rightarrow> Some \<lparr>m_signers = unat s, m_readonly_signed = unat rs, m_readonly_unsigned = unat ru,
             m_keys = keys, m_blockhash = bh, m_instructions = ixs\<rparr>
         | _ \<Rightarrow> None)))))
      | _ \<Rightarrow> None)"

definition is_signer :: "message \<Rightarrow> nat \<Rightarrow> bool" where
  "is_signer m i \<longleftrightarrow> i < m_signers m"

definition is_writable :: "message \<Rightarrow> nat \<Rightarrow> bool" where
  "is_writable m i \<longleftrightarrow> i < m_signers m - m_readonly_signed m \<or>
     (m_signers m \<le> i \<and> i < length (m_keys m) - m_readonly_unsigned m)"

text \<open>The chain's sanity check on indices.\<close>

definition indices_ok :: "message \<Rightarrow> bool" where
  "indices_ok m \<longleftrightarrow> list_all (\<lambda>ix. unat (in_program ix) < length (m_keys m) \<and>
     list_all (\<lambda>i. unat i < length (m_keys m)) (in_accounts ix)) (m_instructions m)"

text \<open>An instruction with its indices resolved: the program, its accounts and the data.\<close>

definition resolve :: "message \<Rightarrow> Instruction \<Rightarrow> bytes \<times> bytes list \<times> bytes" where
  "resolve m ix = (m_keys m ! unat (in_program ix), map (\<lambda>i. m_keys m ! unat i) (in_accounts ix), in_data ix)"

text \<open>The roles the builder asked for are the ones the chain will read.\<close>

definition roles_agree :: "message \<Rightarrow> AccountMeta list \<Rightarrow> bool" where
  "roles_agree m accounts \<longleftrightarrow> length (m_keys m) = length accounts \<and>
     list_all (\<lambda>i. is_signer m i = am_signer (accounts ! i) \<and> is_writable m i = am_writable (accounts ! i)) [0..<length accounts]"

definition key_ok :: "bytes \<Rightarrow> bool" where
  "key_ok k \<longleftrightarrow> length k = 32"

definition the_message :: "AccountMeta list \<Rightarrow> bytes \<Rightarrow> Instruction list \<Rightarrow> message" where
  "the_message accounts blockhash ixs =
     \<lparr>m_signers = count_metas am_signer accounts,
      m_readonly_signed = count_metas (\<lambda>a. am_signer a \<and> \<not> am_writable a) accounts,
      m_readonly_unsigned = count_metas (\<lambda>a. \<not> am_signer a \<and> \<not> am_writable a) accounts,
      m_keys = map am_key accounts, m_blockhash = blockhash, m_instructions = ixs\<rparr>"

section \<open>Parsing is a left inverse\<close>

lemma compact_byte: "v < 128 \<Longrightarrow> unat (of_nat v :: byte) = v \<and> unat ((of_nat v :: byte) OR 128) = v + 128"
proof -
  have "list_all (\<lambda>v. unat (of_nat v :: byte) = v \<and> unat ((of_nat v :: byte) OR 128) = v + 128) [0..<128]" by code_simp
  then show "v < 128 \<Longrightarrow> ?thesis" by (simp add: list_all_iff)
qed

lemma read_compact_append: "read_compact (AppendCompactU16 v @ rest) = Some (v, rest)"
proof (induction v rule: AppendCompactU16.induct)
  case (1 v)
  have m: "v mod 128 < 128" by simp
  show ?case
  proof (cases "v div 128 > 0")
    case True
    with 1 have "read_compact (AppendCompactU16 (v div 128) @ rest) = Some (v div 128, rest)" by simp
    with True compact_byte [OF m] show ?thesis by (subst AppendCompactU16.simps) (simp add: Let_def)
  next
    case False
    then have "v mod 128 = v" by simp
    with False compact_byte [OF m] m show ?thesis by (subst AppendCompactU16.simps) (simp add: Let_def)
  qed
qed

lemma read_bytes_append: "read_bytes (length xs) (xs @ ys) = Some (xs, ys)"
  by (simp add: read_bytes_def)

lemma read_vector_append: "read_vector (AppendCompactU16 (length xs) @ xs @ ys) = Some (xs, ys)"
  by (simp add: read_vector_def read_compact_append read_bytes_append)

lemma read_many_append:
  assumes "\<And>x rest. x \<in> set xs \<Longrightarrow> p (enc x @ rest) = Some (y x, rest)"
  shows "read_many p (length xs) (concat (map enc xs) @ rest) = Some (map y xs, rest)"
  using assms by (induction xs) simp_all

lemma read_instruction_append: "read_instruction (instruction_bytes ix @ rest) = Some (ix, rest)"
  by (simp add: instruction_bytes_def read_vector_append)

lemma count_metas_le: "count_metas P accounts \<le> length accounts"
  by (simp add: count_metas_def)

lemma unat_small: "n < 256 \<Longrightarrow> unat (of_nat n :: byte) = n"
  by (simp add: unat_of_nat)

lemma parse_BuildMessage:
  assumes "list_all (\<lambda>a. key_ok (am_key a)) accounts" and "length accounts < 256" and "key_ok blockhash"
  shows "parse_message (BuildMessage accounts blockhash ixs) = Some (the_message accounts blockhash ixs)"
proof -
  have c: "unat (of_nat (count_metas P accounts) :: byte) = count_metas P accounts" for P
    using count_metas_le [of P accounts] assms(2) by (intro unat_small) simp
  have k: "read_many (read_bytes 32) (length accounts) (concat (map am_key accounts) @ rest) = Some (map am_key accounts, rest)" for rest
    using assms(1) by (intro read_many_append) (auto simp: list_all_iff key_ok_def read_bytes_def)
  have b: "read_bytes 32 (blockhash @ rest) = Some (blockhash, rest)" for rest
    using assms(3) read_bytes_append [of blockhash rest] by (simp add: key_ok_def)
  have i: "read_many read_instruction (length ixs) (concat (map instruction_bytes ixs)) = Some (ixs, [])"
    using read_many_append [of ixs read_instruction instruction_bytes id "[]"] by (simp add: read_instruction_append)
  show ?thesis
    by (simp add: parse_message_def BuildMessage_def read_compact_append k b i c the_message_def)
qed

section \<open>Properties\<close>

text \<open>
  The withdrawal transfer says what it means. The bytes signed for a withdrawal parse back to a message in which every
  index is in range, the treasury is the only signer and pays, every account has exactly the role the builder gave it, the last
  instruction is the token program's Transfer of the amount from the treasury's token account to the destination's
  under the treasury's authority, and when the destination account is created first, that is the only other
  instruction, addressed to the associated-token program.
\<close>

theorem buildTransferMessage_correct:
  assumes "list_all key_ok [treasury, sourceATA, destATA, owner, mint, tokenProgram, blockhash]"
  shows "\<exists>m. parse_message (buildTransferMessage treasury sourceATA destATA owner mint tokenProgram createATA token2022 blockhash amount)
      = Some m \<and> indices_ok m \<and> m_blockhash m = blockhash \<and>
    m_signers m = 1 \<and> m_keys m ! 0 = treasury \<and>
    roles_agree m (transfer_accounts treasury sourceATA destATA owner mint tokenProgram createATA token2022) \<and>
    map (resolve m) (m_instructions m) =
      (if createATA then [(ATAProgramID, [treasury, destATA, owner, mint, SystemProgramID, tokenProgram] @
         (if token2022 then [] else [RentSysvarID]), [0])] else []) @
      [(tokenProgram, [sourceATA, destATA, treasury], 3 # put_uint 8 amount)]"
proof -
  let ?a = "transfer_accounts treasury sourceATA destATA owner mint tokenProgram createATA token2022"
  let ?i = "transfer_instructions createATA token2022 amount"
  have "list_all (\<lambda>a. key_ok (am_key a)) ?a"
    using assms by (simp add: transfer_accounts_def meta_def key_ok_def SystemProgramID_def ATAProgramID_def RentSysvarID_def)
  moreover have "length ?a < 256" by (simp add: transfer_accounts_def)
  ultimately have "parse_message (buildTransferMessage treasury sourceATA destATA owner mint tokenProgram createATA token2022 blockhash amount)
      = Some (the_message ?a blockhash ?i)"
    unfolding buildTransferMessage_def using assms by (intro parse_BuildMessage) simp_all
  moreover have "indices_ok (the_message ?a blockhash ?i)"
    by (simp add: indices_ok_def the_message_def transfer_accounts_def transfer_instructions_def)
  moreover have "roles_agree (the_message ?a blockhash ?i) ?a"
    by (cases createATA; cases token2022)
      (simp_all add: roles_agree_def is_signer_def is_writable_def the_message_def transfer_accounts_def count_metas_def meta_def
        upt_rec [of 0] upt_rec [of 1] upt_rec nth_Cons')
  moreover have "map (resolve (the_message ?a blockhash ?i)) ?i =
      (if createATA then [(ATAProgramID, [treasury, destATA, owner, mint, SystemProgramID, tokenProgram] @
         (if token2022 then [] else [RentSysvarID]), [0])] else []) @
      [(tokenProgram, [sourceATA, destATA, treasury], 3 # put_uint 8 amount)]"
    by (simp add: resolve_def the_message_def transfer_accounts_def transfer_instructions_def meta_def CreateATAInstructionData_def
        TransferInstructionData_def)
  ultimately show ?thesis
    by (auto simp: the_message_def transfer_accounts_def count_metas_def meta_def transfer_instructions_def)
qed

theorem buildTransferMessage_correct_witness:
  "\<exists>m. parse_message (buildTransferMessage (replicate 32 1) (replicate 32 2) (replicate 32 3) (replicate 32 4) (replicate 32 5)
      TokenProgramID False False (replicate 32 6) 1000) = Some m \<and> indices_ok m \<and>
    map (resolve m) (m_instructions m) =
      [(TokenProgramID, [replicate 32 2, replicate 32 3, replicate 32 1], [3, 232, 3, 0, 0, 0, 0, 0, 0])]"
proof -
  have k: "list_all key_ok [replicate 32 1, replicate 32 2, replicate 32 3, replicate 32 4, replicate 32 5, TokenProgramID, replicate 32 6]"
    by (simp add: key_ok_def TokenProgramID_def)
  have p: "3 # put_uint 8 1000 = [3, 232, 3, 0, 0, 0, 0, 0, 0]" by code_simp
  from buildTransferMessage_correct [OF k, of False False 1000] show ?thesis unfolding p by auto
qed

text \<open>
  The delegated transfer cannot be accepted. The bytes signed for a delegation settlement parse to a message
  whose only signer position holds the buyer's token account, read as not writable, while the settlement authority, which signs, is not a
  signer anywhere. Without the creation of the destination account the token program's index is out of range; with it the creation is
  addressed to the system program instead of the associated-token program.
\<close>

theorem settlement_message_malformed:
  assumes "list_all key_ok [source, mint, destATA, authority, tokenProgram, blockhash]" and "source \<noteq> authority"
  shows "\<exists>m. parse_message (buildTransferCheckedMessage source mint destATA authority tokenProgram create blockhash amount decimals)
      = Some m \<and>
    is_signer m 0 \<and> \<not> is_writable m 0 \<and> m_keys m ! 0 = source \<and> (\<forall>i. m_keys m ! i = authority \<longrightarrow> \<not> is_signer m i) \<and>
    (if create then fst (resolve m (m_instructions m ! 0)) = SystemProgramID else \<not> indices_ok m)"
proof -
  let ?a = "checked_accounts source mint destATA authority tokenProgram create"
  let ?i = "checked_instructions create amount decimals"
  have "list_all (\<lambda>a. key_ok (am_key a)) ?a"
    using assms(1) by (simp add: checked_accounts_def meta_def key_ok_def SystemProgramID_def ATAProgramID_def)
  moreover have "length ?a < 256" by (simp add: checked_accounts_def)
  ultimately have "parse_message (buildTransferCheckedMessage source mint destATA authority tokenProgram create blockhash amount decimals)
      = Some (the_message ?a blockhash ?i)"
    unfolding buildTransferCheckedMessage_def using assms(1) by (intro parse_BuildMessage) simp_all
  moreover have "if create then fst (resolve (the_message ?a blockhash ?i) (?i ! 0)) = SystemProgramID
      else \<not> indices_ok (the_message ?a blockhash ?i)"
    by (simp add: resolve_def indices_ok_def the_message_def checked_accounts_def checked_instructions_def meta_def)
  moreover have "\<not> is_signer (the_message ?a blockhash ?i) i" if "m_keys (the_message ?a blockhash ?i) ! i = authority" for i
    using that assms(2) by (cases i) (auto simp: is_signer_def the_message_def checked_accounts_def count_metas_def meta_def)
  ultimately show ?thesis
    by (auto simp: is_signer_def is_writable_def the_message_def checked_accounts_def count_metas_def meta_def)
qed

theorem settlement_message_malformed_witness:
  "\<exists>m. parse_message (buildTransferCheckedMessage (replicate 32 1) (replicate 32 2) (replicate 32 3) (replicate 32 4)
      TokenProgramID False (replicate 32 6) 1000 6) = Some m \<and> \<not> indices_ok m \<and> m_keys m ! 0 = replicate 32 1"
proof -
  have k: "list_all key_ok [replicate 32 1, replicate 32 2, replicate 32 3, replicate 32 4, TokenProgramID, replicate 32 6]"
    by (simp add: key_ok_def TokenProgramID_def)
  have "replicate 32 1 \<noteq> (replicate 32 4 :: bytes)" by simp
  from settlement_message_malformed [OF k this, of False 1000 6] show ?thesis by auto
qed

end
