(* ===== verification/Settlements.thy ===== *)
theory Settlements
  imports Allowances Solana_Message "HOL-Library.Multiset"
begin

text \<open>
  Delegation settlements, \<^verbatim>\<open>internal/store/delegation_settlement.go\<close>: charges of buyers with an active on-chain
  delegation are netted into batches, one transfer per buyer and destination, the registry allowance is consumed when a
  batch is claimed, and a guarded state machine (pending, signed, broadcast, then finalized or restored) follows it on chain.

  \<^verbatim>\<open>ClaimDelegationSettlements\<close> is one transaction. Its reads (\<open>claim_plan\<close>) take no locks, its writes
  (\<open>claim_apply\<close>) do; run one after the other on the same database they are the serial claim. The fee legs are read
  without ORDER BY; the model takes them in table order. The gaps that rolled back inserts leave in the id sequence,
  and the column \<^verbatim>\<open>updated_at\<close>, which the code never reads, are not modelled.
\<close>

section \<open>Planning a claim\<close>

record SettlementClaimParams =
  cp_delegate :: string
  cp_mint :: string
  cp_token_program :: string
  cp_treasury :: string
  cp_leg_limit :: int64

record settlementBatch =
  sb_buyer :: string
  sb_source :: string
  sb_dest :: string
  sb_amount :: int64
  sb_legs :: "int64 list"
  sb_fee :: bool

record buyerPlan =
  bp_buyer :: string
  bp_total :: int64
  bp_batches :: "settlementBatch list"
  bp_skippable :: bool

definition PrimaryWalletForAccount :: "db \<Rightarrow> string \<Rightarrow> string option" where
  "PrimaryWalletForAccount db a =
     (if a = [] then None else map_option uw_wallet (List.find (\<lambda>u. uw_account u = a \<and> uw_primary u) (user_wallets db)))"

text \<open>\<^verbatim>\<open>resolve\<close> and the buyer's wallet: an unlinked account resolves to the empty string.\<close>

definition wallet_or_empty :: "db \<Rightarrow> string \<Rightarrow> string" where
  "wallet_or_empty db a = (case PrimaryWalletForAccount db a of None \<Rightarrow> [] | Some w \<Rightarrow> w)"

definition destinationATA :: "hash \<Rightarrow> (bytes \<Rightarrow> bool) \<Rightarrow> string \<Rightarrow> string \<Rightarrow> string \<Rightarrow> string res" where
  "destinationATA H on_curve wallet mint tokenProgram =
     rbind (DecodeBase58 wallet PublicKeyBytes) (\<lambda>w.
     rbind (DecodeBase58 mint PublicKeyBytes) (\<lambda>m.
     rbind (DecodeBase58 tokenProgram PublicKeyBytes) (\<lambda>tp.
     rbind (AssociatedTokenAddress H on_curve w m tp) (\<lambda>ata. Inr (EncodeBase58 ata)))))"

definition settlement_cursor :: "db \<Rightarrow> string \<Rightarrow> int64" where
  "settlement_cursor db d = (case find_row fst d (settlement_cursors db) of None \<Rightarrow> 0 | Some (_, i) \<Rightarrow> i)"

definition has_authority :: "db \<Rightarrow> string \<Rightarrow> string \<Rightarrow> bool" where
  "has_authority db a d = (case find_allowance db a d of None \<Rightarrow> False | Some al \<Rightarrow> al_revoked_at al = None \<and> al_raw al > 0)"

definition claim_limit :: "SettlementClaimParams \<Rightarrow> nat" where
  "claim_limit params = nat (if cp_leg_limit params \<le> 0 \<or> cp_leg_limit params > 1000 then 500 else cp_leg_limit params)"

definition earn_legs :: "db \<Rightarrow> SettlementClaimParams \<Rightarrow> LedgerEntry list" where
  "earn_legs db params = take (claim_limit params) (sort_key l_id
     (filter (\<lambda>l. l_source l = ''earn'' \<and> l_leg l = ''seller'' \<and> l_id l > settlement_cursor db (cp_delegate params) \<and>
        has_authority db (l_counterparty l) (cp_delegate params)) (ledger db)))"

definition fee_legs :: "db \<Rightarrow> LedgerEntry list \<Rightarrow> LedgerEntry list" where
  "fee_legs db legs = filter (\<lambda>l. l_source l = ''fee'' \<and> l_leg l = ''fee'' \<and> l_ref l \<in> l_ref ` set legs) (ledger db)"

definition new_plan :: "string \<Rightarrow> buyerPlan" where
  "new_plan buyer = \<lparr>bp_buyer = buyer, bp_total = 0, bp_batches = [], bp_skippable = False\<rparr>"

definition add_plan :: "string \<Rightarrow> buyerPlan list \<Rightarrow> buyerPlan list" where
  "add_plan buyer plans = (if has_row bp_buyer buyer plans then plans else plans @ [new_plan buyer])"

definition skip_plan :: "string \<Rightarrow> buyerPlan list \<Rightarrow> buyerPlan list" where
  "skip_plan buyer plans = update_row bp_buyer buyer (\<lambda>p. p\<lparr>bp_skippable := True\<rparr>) (add_plan buyer plans)"

fun net_batch :: "string \<Rightarrow> string \<Rightarrow> int64 \<Rightarrow> int64 \<Rightarrow> bool \<Rightarrow> string \<Rightarrow> settlementBatch list \<Rightarrow> settlementBatch list" where
  "net_batch buyer dest amount leg isFee source [] =
     [\<lparr>sb_buyer = buyer, sb_source = source, sb_dest = dest, sb_amount = amount, sb_legs = [leg], sb_fee = isFee\<rparr>]"
| "net_batch buyer dest amount leg isFee source (b # bs) =
     (if sb_dest b = dest \<and> sb_fee b = isFee
      then b\<lparr>sb_amount := wrap64 (sb_amount b + amount), sb_legs := sb_legs b @ [leg]\<rparr> # bs
      else b # net_batch buyer dest amount leg isFee source bs)"

definition netInto :: "string \<Rightarrow> string \<Rightarrow> int64 \<Rightarrow> int64 \<Rightarrow> bool \<Rightarrow> string \<Rightarrow> buyerPlan list \<Rightarrow> buyerPlan list" where
  "netInto buyer dest amount leg isFee source plans =
     update_row bp_buyer buyer
       (\<lambda>p. p\<lparr>bp_batches := net_batch buyer dest amount leg isFee source (bp_batches p), bp_total := wrap64 (bp_total p + amount)\<rparr>)
       (add_plan buyer plans)"

text \<open>The earn legs; \<open>src\<close> is the variable \<^verbatim>\<open>buyerSource\<close>, which the loop leaves at the last buyer it derived.\<close>

fun plan_earn :: "db \<Rightarrow> (string \<Rightarrow> string res) \<Rightarrow> LedgerEntry list \<Rightarrow> buyerPlan list \<Rightarrow> string \<Rightarrow> (buyerPlan list \<times> string) res" where
  "plan_earn db ata [] plans src = Inr (plans, src)"
| "plan_earn db ata (l # ls) plans src =
     (let buyer = l_counterparty l; bw = wallet_or_empty db buyer
      in if bw = [] then plan_earn db ata ls (skip_plan buyer plans) src
         else rbind (ata bw) (\<lambda>src'.
              let w = wallet_or_empty db (l_account l)
              in if w = [] then plan_earn db ata ls (skip_plan buyer plans) src'
                 else plan_earn db ata ls (netInto buyer w (l_delta l) (l_id l) False src' plans) src'))"

fun plan_fees :: "string \<Rightarrow> string \<Rightarrow> LedgerEntry list \<Rightarrow> buyerPlan list \<Rightarrow> buyerPlan list" where
  "plan_fees treasury src [] plans = plans"
| "plan_fees treasury src (l # ls) plans =
     plan_fees treasury src ls
       (if has_row bp_buyer (l_counterparty l) plans
        then netInto (l_counterparty l) treasury (l_delta l) (l_id l) True src plans else plans)"

definition claim_plan :: "db \<Rightarrow> (string \<Rightarrow> string res) \<Rightarrow> SettlementClaimParams \<Rightarrow> (buyerPlan list \<times> int64) option res" where
  "claim_plan db ata params =
     (let legs = earn_legs db params
      in if legs = [] then Inr None
         else rbind (plan_earn db ata legs [] []) (\<lambda>(plans, src).
              Inr (Some (if cp_treasury params \<noteq> [] then plan_fees (cp_treasury params) src (fee_legs db legs) plans else plans,
                l_id (last legs)))))"

section \<open>Writing a claim\<close>

definition short58 :: "string \<Rightarrow> string" where
  "short58 s = take 8 s"

definition settlementRef :: "string \<Rightarrow> settlementBatch \<Rightarrow> string" where
  "settlementRef delegate b =
     ''dset:'' @ short58 delegate @ '':'' @ short58 (sb_buyer b) @ '':'' @ short58 (sb_dest b) @ '':'' @
     (if sb_fee b then ''fee'' else ''xfer'') @ '':'' @ itoa (Min (set (sb_legs b))) @ ''-'' @ itoa (Max (set (sb_legs b)))"

text \<open>The UPDATE of \<^verbatim>\<open>lockAndConsumeAllowanceTx\<close>: an active row that covers the amount, or none.\<close>

definition lockAndConsumeAllowanceTx :: "db \<Rightarrow> string \<Rightarrow> string \<Rightarrow> int64 \<Rightarrow> (db \<times> bool) res" where
  "lockAndConsumeAllowanceTx db a d amount =
     (if amount \<le> 0 then Inl ErrInvalid
      else case find_allowance db a d of
        None \<Rightarrow> Inr (db, False)
      | Some al \<Rightarrow>
          if al_revoked_at al = None \<and> al_raw al \<ge> amount
          then Inr (db\<lparr>allowances := update_row allowance_key (a, d) (\<lambda>r. r\<lparr>al_raw := al_raw r - amount\<rparr>) (allowances db)\<rparr>, True)
          else Inr (db, False))"

definition new_settlement :: "int64 \<Rightarrow> string \<Rightarrow> string \<Rightarrow> settlementBatch \<Rightarrow> string \<Rightarrow> instant \<Rightarrow> DelegationSettlement" where
  "new_settlement i ref delegate b ata now =
     \<lparr>s_id = i, s_batch_ref = ref, s_buyer = sb_buyer b, s_delegate = delegate, s_source_ata = sb_source b, s_dest_wallet = sb_dest b,
      s_dest_ata = ata, s_amount = sb_amount b, s_state = SettlementPending, s_signed_wire = [], s_signature = [], s_blockhash = [],
      s_last_valid = None, s_expires_at = None, s_error = [], s_created_at = now\<rparr>"

text \<open>\<^verbatim>\<open>ON CONFLICT (ledger_leg_id) DO NOTHING\<close>\<close>

definition anchor_leg :: "int64 \<Rightarrow> int64 \<Rightarrow> db \<Rightarrow> db" where
  "anchor_leg i leg db = (if has_row snd leg (settlement_legs db) then db else db\<lparr>settlement_legs := settlement_legs db @ [(i, leg)]\<rparr>)"

definition insert_batch :: "db \<Rightarrow> string \<Rightarrow> settlementBatch \<Rightarrow> string \<Rightarrow> instant \<Rightarrow> (db \<times> DelegationSettlement option) res" where
  "insert_batch db delegate b ata now =
     (let ref = settlementRef delegate b; i = next_settlement_id db
      in if sb_amount b \<le> 0 then Inl (ErrPg CheckViolation)
         else if has_row s_batch_ref ref (settlements db) then Inr (db, None)
         else let row = new_settlement i ref delegate b ata now;
                  db1 = db\<lparr>settlements := settlements db @ [row], next_settlement_id := i + 1\<rparr>
              in Inr (fold (anchor_leg i) (sb_legs b) db1, Some row))"

fun insert_batches :: "db \<Rightarrow> (string \<Rightarrow> string res) \<Rightarrow> string \<Rightarrow> settlementBatch list \<Rightarrow> instant \<Rightarrow> (db \<times> DelegationSettlement list) res" where
  "insert_batches db ata delegate [] now = Inr (db, [])"
| "insert_batches db ata delegate (b # bs) now =
     rbind (ata (sb_dest b)) (\<lambda>dest.
     rbind (insert_batch db delegate b dest now) (\<lambda>(db1, created).
     rbind (insert_batches db1 ata delegate bs now) (\<lambda>(db2, rest).
       Inr (db2, (case created of None \<Rightarrow> rest | Some s \<Rightarrow> s # rest)))))"

fun claim_apply :: "db \<Rightarrow> (string \<Rightarrow> string res) \<Rightarrow> string \<Rightarrow> buyerPlan list \<Rightarrow> instant \<Rightarrow> (db \<times> DelegationSettlement list) res" where
  "claim_apply db ata delegate [] now = Inr (db, [])"
| "claim_apply db ata delegate (p # ps) now =
     (if bp_skippable p then claim_apply db ata delegate ps now
      else rbind (lockAndConsumeAllowanceTx db (bp_buyer p) delegate (bp_total p)) (\<lambda>(db1, ok).
           if \<not> ok then claim_apply db1 ata delegate ps now
           else rbind (insert_batches db1 ata delegate (bp_batches p) now) (\<lambda>(db2, created).
                rbind (claim_apply db2 ata delegate ps now) (\<lambda>(db3, rest). Inr (db3, created @ rest)))))"

definition set_settlement_cursor :: "string \<Rightarrow> int64 \<Rightarrow> db \<Rightarrow> db" where
  "set_settlement_cursor d i db = db\<lparr>settlement_cursors :=
     (if has_row fst d (settlement_cursors db) then update_row fst d (\<lambda>_. (d, i)) (settlement_cursors db)
      else settlement_cursors db @ [(d, i)])\<rparr>"

definition claim_with :: "(string \<Rightarrow> string res) \<Rightarrow> db \<Rightarrow> SettlementClaimParams \<Rightarrow> instant \<Rightarrow> (db \<times> DelegationSettlement list) res" where
  "claim_with ata db params now =
     rbind (claim_plan db ata params) (\<lambda>plan.
       case plan of
         None \<Rightarrow> Inr (db, [])
       | Some (plans, cursor) \<Rightarrow>
           rbind (claim_apply db ata (cp_delegate params) plans now) (\<lambda>(db1, created).
             Inr (set_settlement_cursor (cp_delegate params) cursor db1, created)))"

definition ClaimDelegationSettlements ::
  "hash \<Rightarrow> (bytes \<Rightarrow> bool) \<Rightarrow> db \<Rightarrow> SettlementClaimParams \<Rightarrow> instant \<Rightarrow> instant \<Rightarrow> (db \<times> DelegationSettlement list) res"
where
  "ClaimDelegationSettlements H on_curve db params now clock =
     (if cp_delegate params = [] \<or> cp_mint params = [] \<or> cp_token_program params = [] then Inl ErrInvalid
      else claim_with (\<lambda>w. destinationATA H on_curve w (cp_mint params) (cp_token_program params)) db params (time_or_now clock now))"

section \<open>The state machine\<close>

definition open_settlement :: "SettlementState \<Rightarrow> bool" where
  "open_settlement st \<longleftrightarrow> st = SettlementPending \<or> st = SettlementSigned \<or> st = SettlementBroadcast"

definition SweepDelegationSettlements :: "db \<Rightarrow> (int64 \<Rightarrow> bool) \<Rightarrow> int64 \<Rightarrow> DelegationSettlement list" where
  "SweepDelegationSettlements db locked limit =
     take (nat (if limit \<le> 0 \<or> limit > 100 then 20 else limit))
       (sort_key s_id (filter (\<lambda>s. open_settlement (s_state s) \<and> \<not> locked (s_id s)) (settlements db)))"

text \<open>\<^verbatim>\<open>UPDATE delegation_settlements SET .. WHERE id = .. AND state = ..\<close>, with whether a row was affected.\<close>

definition guarded_update :: "db \<Rightarrow> int64 \<Rightarrow> SettlementState \<Rightarrow> (DelegationSettlement \<Rightarrow> DelegationSettlement) \<Rightarrow> db \<times> bool" where
  "guarded_update db i st f =
     (case find_row s_id i (settlements db) of
        Some s \<Rightarrow> if s_state s = st then (db\<lparr>settlements := update_row s_id i f (settlements db)\<rparr>, True) else (db, False)
      | None \<Rightarrow> (db, False))"

definition MarkSettlementSigned ::
  "db \<Rightarrow> int64 \<Rightarrow> string \<Rightarrow> string \<Rightarrow> string \<Rightarrow> nat \<Rightarrow> instant \<Rightarrow> (db \<times> bool) res"
where
  "MarkSettlementSigned db i wireB64 signature blockhash lastValidBlockHeight expiresAt =
     (if int lastValidBlockHeight > max_int64 then Inl (ErrPg NumericOutOfRange)
      else Inr (guarded_update db i SettlementPending (\<lambda>s. s\<lparr>s_signed_wire := wireB64, s_signature := signature, s_blockhash := blockhash,
             s_last_valid := Some (int lastValidBlockHeight), s_expires_at := Some expiresAt, s_state := SettlementSigned\<rparr>)))"

definition MarkSettlementBroadcast :: "db \<Rightarrow> int64 \<Rightarrow> (db \<times> bool) res" where
  "MarkSettlementBroadcast db i = Inr (guarded_update db i SettlementSigned (\<lambda>s. s\<lparr>s_state := SettlementBroadcast\<rparr>))"

definition FinalizeSettlement :: "db \<Rightarrow> int64 \<Rightarrow> (db \<times> bool) res" where
  "FinalizeSettlement db i = Inr (guarded_update db i SettlementBroadcast (\<lambda>s. s\<lparr>s_state := SettlementFinalized\<rparr>))"

text \<open>The refund: only a row that was not revoked; BIGINT overflow fails.\<close>

definition refund_allowance :: "db \<Rightarrow> string \<Rightarrow> string \<Rightarrow> int64 \<Rightarrow> db res" where
  "refund_allowance db a d amount =
     (case find_allowance db a d of
        None \<Rightarrow> Inr db
      | Some al \<Rightarrow>
          if al_revoked_at al \<noteq> None then Inr db
          else if \<not> in_int64 (al_raw al + amount) then Inl (ErrPg NumericOutOfRange)
          else Inr (db\<lparr>allowances := update_row allowance_key (a, d) (\<lambda>r. r\<lparr>al_raw := al_raw r + amount\<rparr>) (allowances db)\<rparr>))"

definition RestoreSettlement :: "db \<Rightarrow> int64 \<Rightarrow> string \<Rightarrow> (db \<times> bool) res" where
  "RestoreSettlement db i reason =
     (case find_row s_id i (settlements db) of
        None \<Rightarrow> Inr (db, False)
      | Some s \<Rightarrow>
          if s_state s \<noteq> SettlementPending \<and> s_state s \<noteq> SettlementSigned \<and> s_state s \<noteq> SettlementBroadcast then Inr (db, False)
          else rbind (refund_allowance db (s_buyer s) (s_delegate s) (s_amount s)) (\<lambda>db1.
               Inr (db1\<lparr>settlements := update_row s_id i (\<lambda>r. r\<lparr>s_state := SettlementRestored, s_error := reason\<rparr>) (settlements db1)\<rparr>, True)))"

section \<open>What the settlements promise\<close>

inductive st_step :: "SettlementState \<Rightarrow> SettlementState \<Rightarrow> bool" where
  st_sign: "st_step SettlementPending SettlementSigned"
| st_broadcast: "st_step SettlementSigned SettlementBroadcast"
| st_finalize: "st_step SettlementBroadcast SettlementFinalized"
| st_restore: "open_settlement st \<Longrightarrow> st_step st SettlementRestored"

fun st_rank :: "SettlementState \<Rightarrow> nat" where
  "st_rank SettlementPending = 0"
| "st_rank SettlementSigned = 1"
| "st_rank SettlementBroadcast = 2"
| "st_rank SettlementFinalized = 3"
| "st_rank SettlementRestored = 3"
| "st_rank SettlementFailed = 3"

text \<open>What batches hold or have moved of an allowance, and the authority the buyer gave: the registry and the batches together.\<close>

definition claimed :: "db \<Rightarrow> string \<Rightarrow> string \<Rightarrow> int" where
  "claimed db a d = sum_rows (\<lambda>s. s_buyer s = a \<and> s_delegate s = d \<and> s_state s \<noteq> SettlementRestored) s_amount (settlements db)"

definition backing :: "db \<Rightarrow> string \<Rightarrow> string \<Rightarrow> int" where
  "backing db a d = registered db a d + claimed db a d"

definition settlement_rows_ok :: "db \<Rightarrow> bool" where
  "settlement_rows_ok db \<longleftrightarrow> keys_distinct s_id (settlements db) \<and> keys_distinct s_batch_ref (settlements db) \<and>
     list_all (\<lambda>s. 0 < s_amount s \<and> s_id s < next_settlement_id db) (settlements db) \<and> keys_distinct snd (settlement_legs db)"

text \<open>The ledger rows a claim may read, and the bound under which their sums stay inside int64.\<close>

definition claimable :: "LedgerEntry \<Rightarrow> bool" where
  "claimable l \<longleftrightarrow> (l_source l = ''earn'' \<and> l_leg l = ''seller'') \<or> (l_source l = ''fee'' \<and> l_leg l = ''fee'')"

definition legs_fit :: "db \<Rightarrow> bool" where
  "legs_fit db \<longleftrightarrow> list_all (\<lambda>l. claimable l \<longrightarrow> 0 \<le> l_delta l) (ledger db) \<and> sum_rows claimable l_delta (ledger db) \<le> max_int64"

definition settlement_inv :: "db \<Rightarrow> bool" where
  "settlement_inv db \<longleftrightarrow> allowances_ok db \<and> settlement_rows_ok db \<and> legs_fit db"

text \<open>The tables a settlement operation never touches.\<close>

definition untouched where
  "untouched db = (accounts db, requests db, ledger db, next_ledger_id db, deposits db, deposit_cursors db, withdrawals db,
     next_withdrawal_id db, user_wallets db)"

definition batches_evolve :: "db \<Rightarrow> db \<Rightarrow> bool" where
  "batches_evolve db db' \<longleftrightarrow> (\<forall>i s. find_row s_id i (settlements db) = Some s \<longrightarrow>
     (\<exists>s'. find_row s_id i (settlements db') = Some s' \<and> s_buyer s' = s_buyer s \<and> s_amount s' = s_amount s \<and> st_step\<^sup>*\<^sup>* (s_state s) (s_state s')))"

definition settlement_rel :: "db \<Rightarrow> db \<Rightarrow> bool" where
  "settlement_rel db db' \<longleftrightarrow> untouched db' = untouched db \<and> (\<forall>a d. backing db' a d \<le> backing db a d) \<and> batches_evolve db db'"

datatype settlement_op =
    StClaim "string \<Rightarrow> string res" SettlementClaimParams instant
  | StSigned int64 string string string nat instant
  | StBroadcast int64
  | StFinalize int64
  | StRestore int64 string

fun exec_settlement :: "settlement_op \<Rightarrow> db \<Rightarrow> (db \<times> unit) res" where
  "exec_settlement (StClaim ata params now) db = rbind (claim_with ata db params now) (\<lambda>(db', _). Inr (db', ()))"
| "exec_settlement (StSigned i wire sig bh lv ex) db = rbind (MarkSettlementSigned db i wire sig bh lv ex) (\<lambda>(db', _). Inr (db', ()))"
| "exec_settlement (StBroadcast i) db = rbind (MarkSettlementBroadcast db i) (\<lambda>(db', _). Inr (db', ()))"
| "exec_settlement (StFinalize i) db = rbind (FinalizeSettlement db i) (\<lambda>(db', _). Inr (db', ()))"
| "exec_settlement (StRestore i reason) db = rbind (RestoreSettlement db i reason) (\<lambda>(db', _). Inr (db', ()))"

definition batch_sum :: "settlementBatch list \<Rightarrow> int" where
  "batch_sum bs = sum_list (map sb_amount bs)"

definition plan_ok :: "buyerPlan \<Rightarrow> bool" where
  "plan_ok p \<longleftrightarrow> list_all (\<lambda>b. sb_buyer b = bp_buyer p \<and> 0 \<le> sb_amount b) (bp_batches p) \<and> bp_total p = batch_sum (bp_batches p)"

definition plans_ok :: "int \<Rightarrow> buyerPlan list \<Rightarrow> bool" where
  "plans_ok M plans \<longleftrightarrow> keys_distinct bp_buyer plans \<and> list_all plan_ok plans \<and>
     sum_rows (\<lambda>_. True) (\<lambda>p. batch_sum (bp_batches p)) plans \<le> M"

definition keeps_batch :: "(DelegationSettlement \<Rightarrow> DelegationSettlement) \<Rightarrow> bool" where
  "keeps_batch f \<longleftrightarrow> (\<forall>s. s_id (f s) = s_id s \<and> s_batch_ref (f s) = s_batch_ref s \<and> s_buyer (f s) = s_buyer s \<and>
     s_delegate (f s) = s_delegate s \<and> s_amount (f s) = s_amount s)"

text \<open>A step of the claim: it adds at most \<open>k\<close> to what the batches of one buyer hold.\<close>

definition adds_at_most :: "db \<Rightarrow> db \<Rightarrow> string \<Rightarrow> string \<Rightarrow> int \<Rightarrow> bool" where
  "adds_at_most db db' a d k \<longleftrightarrow> settlement_rows_ok db' \<and> allowances db' = allowances db \<and> untouched db' = untouched db \<and>
     batches_evolve db db' \<and> (\<forall>a' d'. claimed db' a' d' \<le> claimed db a' d' + (if a' = a \<and> d' = d then k else 0))"

text \<open>Two buyers with delegations of 1000 each, and the charges of one request each: 90 to the seller and 10 to the treasury.\<close>

definition demo_wallet_row :: "int64 \<Rightarrow> string \<Rightarrow> string \<Rightarrow> WalletInfo" where
  "demo_wallet_row i a w = \<lparr>uw_id = i, uw_account = a, uw_wallet = w, uw_primary = True, uw_created_at = 1\<rparr>"

definition demo_allowance :: "string \<Rightarrow> int64 \<Rightarrow> Allowance" where
  "demo_allowance a n = \<lparr>al_account = a, al_delegate = ''auth'', al_raw = n, al_approved_at = 1, al_revoked_at = None\<rparr>"

definition demo_earn :: "int64 \<Rightarrow> string \<Rightarrow> int64 \<Rightarrow> string \<Rightarrow> LedgerEntry" where
  "demo_earn i buyer amount ref = (plain_leg ''s1'' amount ''earn'' ''seller'' buyer ref 1)\<lparr>l_id := i\<rparr>"

definition demo_fee :: "int64 \<Rightarrow> string \<Rightarrow> int64 \<Rightarrow> string \<Rightarrow> LedgerEntry" where
  "demo_fee i buyer amount ref = (plain_leg TreasuryAccountID amount ''fee'' ''fee'' buyer ref 1)\<lparr>l_id := i\<rparr>"

definition demo_market :: db where
  "demo_market = empty_db\<lparr>
     user_wallets := [demo_wallet_row 1 ''b1'' ''w1'', demo_wallet_row 2 ''b2'' ''w2'', demo_wallet_row 3 ''s1'' ''w3''],
     allowances := [demo_allowance ''b1'' 1000, demo_allowance ''b2'' 1000],
     ledger := [demo_earn 1 ''b1'' 90 ''r1'', demo_fee 2 ''b1'' 10 ''r1'', demo_earn 3 ''b2'' 90 ''r2'', demo_fee 4 ''b2'' 10 ''r2''],
     next_ledger_id := 5\<rparr>"

definition demo_params :: SettlementClaimParams where
  "demo_params = \<lparr>cp_delegate = ''auth'', cp_mint = ''mint'', cp_token_program = ''tp'', cp_treasury = ''tw'', cp_leg_limit = 0\<rparr>"

definition demo_ata :: "string \<Rightarrow> string res" where
  "demo_ata w = Inr (w @ ''-ata'')"

interpretation st: ranked_machine st_step st_rank 3
proof
  show "st_step s t \<Longrightarrow> st_rank s < st_rank t" for s t
    by (induction rule: st_step.induct) (auto simp: open_settlement_def)
  show "st_rank s \<le> 3" for s by (cases s) simp_all
qed

section \<open>Plans add up\<close>

lemma batch_sum_nonneg: "list_all (\<lambda>b. P b \<and> 0 \<le> sb_amount b) bs \<Longrightarrow> 0 \<le> batch_sum bs"
  by (induction bs) (auto simp: batch_sum_def)

lemma net_batch_ok:
  assumes "list_all (\<lambda>b. sb_buyer b = buyer \<and> 0 \<le> sb_amount b) bs" and "0 \<le> amount" "batch_sum bs + amount \<le> max_int64"
  shows "list_all (\<lambda>b. sb_buyer b = buyer \<and> 0 \<le> sb_amount b) (net_batch buyer dest amount leg isFee source bs) \<and>
    batch_sum (net_batch buyer dest amount leg isFee source bs) = batch_sum bs + amount"
  using assms
proof (induction bs)
  case (Cons b bs)
  have nn: "0 \<le> batch_sum bs" using Cons.prems(1) batch_sum_nonneg [of _ bs] by auto
  have "wrap64 (sb_amount b + amount) = sb_amount b + amount"
    using Cons.prems nn by (intro wrap64_id) (simp add: in_int64_def batch_sum_def)
  with Cons nn show ?case by (auto simp: batch_sum_def)
qed (simp add: batch_sum_def)

lemma plan_ok_nonneg: "plan_ok p \<Longrightarrow> 0 \<le> batch_sum (bp_batches p)"
  by (auto simp: plan_ok_def intro: batch_sum_nonneg)

lemma add_plan_ok: "plans_ok M plans \<Longrightarrow> plans_ok M (add_plan buyer plans)"
  by (auto simp: add_plan_def plans_ok_def row_simps new_plan_def plan_ok_def batch_sum_def)

lemma add_plan_find: "\<exists>p. find_row bp_buyer buyer (add_plan buyer plans) = Some p"
  by (auto simp: add_plan_def has_row_find row_simps new_plan_def split: option.splits)

lemma plans_ok_update:
  assumes "plans_ok M plans" and "find_row bp_buyer buyer plans = Some p"
    and "\<And>q. bp_buyer (f q) = bp_buyer q" and "plan_ok (f p)"
    and "batch_sum (bp_batches (f p)) \<le> batch_sum (bp_batches p) + k" "0 \<le> k"
  shows "plans_ok (M + k) (update_row bp_buyer buyer f plans)"
proof -
  have dist: "keys_distinct bp_buyer plans" using assms(1) by (simp add: plans_ok_def)
  have one: "q = p" if "q \<in> set plans" "bp_buyer q = buyer" for q
    using find_row_distinct [OF dist that(1)] that(2) assms(2) by simp
  have "list_all plan_ok (update_row bp_buyer buyer f plans)"
    using assms(1,4) one set_update_row [of _ bp_buyer buyer f plans] by (fastforce simp: plans_ok_def list_all_iff)
  moreover have "sum_rows (\<lambda>_. True) (\<lambda>p. batch_sum (bp_batches p)) (update_row bp_buyer buyer f plans) \<le> M + k"
    using sum_rows_update [OF dist assms(2), of "\<lambda>_. True" "\<lambda>p. batch_sum (bp_batches p)" f] assms(1,5) by (simp add: plans_ok_def)
  ultimately show ?thesis using dist assms(3) by (simp add: plans_ok_def keys_distinct_update)
qed

lemma skip_plan_ok:
  assumes "plans_ok M plans"
  shows "plans_ok M (skip_plan buyer plans)"
proof -
  obtain p where p: "find_row bp_buyer buyer (add_plan buyer plans) = Some p" using add_plan_find by blast
  have "plan_ok p" using find_row_mem [OF p] add_plan_ok [OF assms, of buyer] by (simp add: plans_ok_def list_all_iff)
  then have "plan_ok (p\<lparr>bp_skippable := True\<rparr>)" by (simp add: plan_ok_def)
  with plans_ok_update [OF add_plan_ok [OF assms] p, of "\<lambda>p. p\<lparr>bp_skippable := True\<rparr>" 0] show ?thesis by (simp add: skip_plan_def)
qed

lemma netInto_ok:
  assumes "plans_ok M plans" and "0 \<le> amount" "M + amount \<le> max_int64"
  shows "plans_ok (M + amount) (netInto buyer dest amount leg isFee source plans)"
proof -
  let ?f = "\<lambda>p. p\<lparr>bp_batches := net_batch buyer dest amount leg isFee source (bp_batches p), bp_total := wrap64 (bp_total p + amount)\<rparr>"
  note ok = add_plan_ok [OF assms(1), of buyer]
  obtain p where p: "find_row bp_buyer buyer (add_plan buyer plans) = Some p" using add_plan_find by blast
  have mem: "p \<in> set (add_plan buyer plans)" "bp_buyer p = buyer" using find_row_mem [OF p] find_row_key [OF p] by auto
  have pk: "plan_ok p" using mem ok by (simp add: plans_ok_def list_all_iff)
  have "batch_sum (bp_batches p) \<le> sum_rows (\<lambda>_. True) (\<lambda>p. batch_sum (bp_batches p)) (add_plan buyer plans)"
    using mem(1) ok by (intro sum_rows_member_le) (auto simp: plans_ok_def list_all_iff intro: plan_ok_nonneg)
  then have le: "batch_sum (bp_batches p) + amount \<le> max_int64" using ok assms(3) by (simp add: plans_ok_def)
  have nb: "list_all (\<lambda>b. sb_buyer b = buyer \<and> 0 \<le> sb_amount b) (net_batch buyer dest amount leg isFee source (bp_batches p)) \<and>
      batch_sum (net_batch buyer dest amount leg isFee source (bp_batches p)) = batch_sum (bp_batches p) + amount"
    using net_batch_ok [OF _ assms(2) le, of buyer] pk mem(2) by (simp add: plan_ok_def)
  have "wrap64 (bp_total p + amount) = bp_total p + amount"
    using le plan_ok_nonneg [OF pk] pk assms(2) by (intro wrap64_id) (simp add: in_int64_def plan_ok_def)
  with nb pk mem(2) have "plan_ok (?f p)" by (simp add: plan_ok_def)
  with plans_ok_update [OF ok p, of ?f amount] nb assms(2) show ?thesis by (simp add: netInto_def)
qed

lemma plan_earn_ok:
  assumes "plan_earn db ata ls plans src = Inr (plans', src')" and "plans_ok M plans"
    and "list_all (\<lambda>l. 0 \<le> l_delta l) ls" and "M + sum_list (map l_delta ls) \<le> max_int64"
  shows "plans_ok (M + sum_list (map l_delta ls)) plans'"
  using assms
proof (induction ls arbitrary: plans src M)
  case (Cons l ls)
  have nn: "0 \<le> l_delta l" "0 \<le> sum_list (map l_delta ls)"
    using Cons.prems(3) by (auto simp: list_all_iff intro!: sum_list_nonneg)
  have mono: "plans_ok M qs \<Longrightarrow> plans_ok (M + l_delta l) qs" for qs using nn(1) by (simp add: plans_ok_def)
  have net: "plans_ok (M + l_delta l) (netInto b d (l_delta l) i False s plans)" for b d i s
    using netInto_ok [OF Cons.prems(2) nn(1)] Cons.prems(4) nn by simp
  note skip = mono [OF skip_plan_ok [OF Cons.prems(2)]]
  have go: "plan_earn db ata ls qs src1 = Inr (plans', src') \<Longrightarrow> plans_ok (M + l_delta l) qs \<Longrightarrow>
      plans_ok (M + (l_delta l + sum_list (map l_delta ls))) plans'" for qs src1
    using Cons.IH [of qs src1 "M + l_delta l"] Cons.prems(3,4) by (simp add: add.assoc)
  show ?case
    using Cons.prems(1) by (auto simp: Let_def res_simps split: if_splits intro: go skip net)
qed simp

lemma plan_fees_ok:
  assumes "plans_ok M plans" and "list_all (\<lambda>l. 0 \<le> l_delta l) ls" and "M + sum_list (map l_delta ls) \<le> max_int64"
  shows "plans_ok (M + sum_list (map l_delta ls)) (plan_fees treasury src ls plans)"
  using assms
proof (induction ls arbitrary: plans M)
  case (Cons l ls)
  have nn: "0 \<le> l_delta l" "0 \<le> sum_list (map l_delta ls)"
    using Cons.prems(2) by (auto simp: list_all_iff intro!: sum_list_nonneg)
  have "plans_ok (M + l_delta l) (if has_row bp_buyer (l_counterparty l) plans
        then netInto (l_counterparty l) treasury (l_delta l) (l_id l) True src plans else plans)"
    using netInto_ok [OF Cons.prems(1) nn(1)] Cons.prems(1,3) nn by (auto simp: plans_ok_def)
  from Cons.IH [OF this] Cons.prems(2,3) show ?case by (simp add: add.assoc)
qed simp

lemma sum_rows_filter: "(\<And>r. P r \<Longrightarrow> Q r) \<Longrightarrow> (\<And>r. r \<in> set rows \<Longrightarrow> Q r \<Longrightarrow> 0 \<le> g r) \<Longrightarrow>
    sum_list (map g (filter P rows)) \<le> sum_rows Q g rows"
  by (induction rows) (auto simp: row_simps add_increasing)

lemma sum_take_le: "(\<And>x. x \<in> set xs \<Longrightarrow> 0 \<le> g x) \<Longrightarrow> sum_list (map g (take n xs)) \<le> (sum_list (map g xs) :: int)"
proof -
  assume nn: "\<And>x. x \<in> set xs \<Longrightarrow> 0 \<le> g x"
  have "sum_list (map g xs) = sum_list (map g (take n xs)) + sum_list (map g (drop n xs))"
    by (metis append_take_drop_id map_append sum_list_append)
  moreover have "0 \<le> sum_list (map g (drop n xs))" using nn by (intro sum_list_nonneg) (auto dest: in_set_dropD)
  ultimately show ?thesis by simp
qed

lemma sum_list_sort: "sum_list (map g (sort_key k xs)) = (sum_list (map g xs) :: int)"
  by (metis mset_map mset_sort sum_mset_sum_list)

text \<open>Earn and fee legs are different rows, so together they are at most the ledger's claimable sum.\<close>

lemma legs_bound:
  assumes "legs_fit db"
  shows "list_all (\<lambda>l. 0 \<le> l_delta l) (earn_legs db params)" "list_all (\<lambda>l. 0 \<le> l_delta l) (fee_legs db legs)"
    "sum_list (map l_delta (earn_legs db params)) + sum_list (map l_delta (fee_legs db legs)) \<le> max_int64"
proof -
  let ?E = "\<lambda>l. l_source l = ''earn'' \<and> l_leg l = ''seller'' \<and> l_id l > settlement_cursor db (cp_delegate params) \<and>
        has_authority db (l_counterparty l) (cp_delegate params)"
  let ?F = "\<lambda>l. l_source l = ''fee'' \<and> l_leg l = ''fee'' \<and> l_ref l \<in> l_ref ` set legs"
  let ?e = "\<lambda>l. l_source l = ''earn'' \<and> l_leg l = ''seller''" and ?f = "\<lambda>l. l_source l = ''fee'' \<and> l_leg l = ''fee''"
  have nn: "0 \<le> l_delta l" if "l \<in> set (ledger db)" "claimable l" for l
    using assms that by (auto simp: legs_fit_def list_all_iff)
  have ce: "?E l \<Longrightarrow> claimable l" "?F l \<Longrightarrow> claimable l" for l by (auto simp: claimable_def)
  show "list_all (\<lambda>l. 0 \<le> l_delta l) (earn_legs db params)"
    using nn ce(1) by (auto simp: list_all_iff earn_legs_def dest!: in_set_takeD)
  show "list_all (\<lambda>l. 0 \<le> l_delta l) (fee_legs db legs)" using nn ce(2) by (auto simp: list_all_iff fee_legs_def)
  have "sum_list (map l_delta (earn_legs db params)) \<le> sum_list (map l_delta (sort_key l_id (filter ?E (ledger db))))"
    unfolding earn_legs_def using nn ce(1) by (intro sum_take_le) auto
  also have "\<dots> = sum_list (map l_delta (filter ?E (ledger db)))" by (rule sum_list_sort)
  also have "\<dots> \<le> sum_rows ?e l_delta (ledger db)"
    by (rule sum_rows_filter) (auto intro: nn simp: claimable_def)
  finally have 1: "sum_list (map l_delta (earn_legs db params)) \<le> sum_rows ?e l_delta (ledger db)" .
  have 2: "sum_list (map l_delta (fee_legs db legs)) \<le> sum_rows ?f l_delta (ledger db)"
    unfolding fee_legs_def by (rule sum_rows_filter) (auto intro: nn simp: claimable_def)
  have "sum_rows ?e l_delta rows + sum_rows ?f l_delta rows = sum_rows claimable l_delta rows" for rows
    by (induction rows) (auto simp: row_simps claimable_def)
  from this [of "ledger db"] 1 2 assms show "sum_list (map l_delta (earn_legs db params)) + sum_list (map l_delta (fee_legs db legs)) \<le> max_int64"
    unfolding legs_fit_def by linarith
qed

lemma claim_plan_ok:
  assumes "claim_plan db ata params = Inr (Some (plans, cursor))" and "legs_fit db"
  shows "plans_ok max_int64 plans"
proof -
  let ?L = "earn_legs db params" and ?F = "fee_legs db (earn_legs db params)"
  note b = legs_bound(1,2) [OF assms(2)] legs_bound(3) [OF assms(2), of params ?L]
  have nn: "0 \<le> sum_list (map l_delta ?F)" using b(2) [of ?L] by (auto simp: list_all_iff intro!: sum_list_nonneg)
  from assms(1) obtain ps src where pe: "plan_earn db ata ?L [] [] = Inr (ps, src)"
    and pl: "plans = (if cp_treasury params \<noteq> [] then plan_fees (cp_treasury params) src ?F ps else ps)"
    by (auto simp: claim_plan_def Let_def res_simps split: if_splits)
  have "plans_ok (0 + sum_list (map l_delta ?L)) ps"
    by (rule plan_earn_ok [OF pe]) (use b nn in \<open>simp_all add: plans_ok_def row_simps\<close>)
  from plan_fees_ok [OF this b(2) [of ?L], of "cp_treasury params" src] this b(3) nn show ?thesis by (auto simp: pl plans_ok_def)
qed

section \<open>Claims stay within the authority\<close>

lemma batches_evolve_refl: "settlements db' = settlements db \<Longrightarrow> batches_evolve db db'"
  by (simp add: batches_evolve_def)

lemma batches_evolve_trans:
  assumes "batches_evolve db1 db2" and "batches_evolve db2 db3"
  shows "batches_evolve db1 db3"
  unfolding batches_evolve_def
proof (intro allI impI)
  fix i s assume "find_row s_id i (settlements db1) = Some s"
  with assms(1) obtain s2 where 2: "find_row s_id i (settlements db2) = Some s2" "s_buyer s2 = s_buyer s" "s_amount s2 = s_amount s"
    "st_step\<^sup>*\<^sup>* (s_state s) (s_state s2)" by (auto simp: batches_evolve_def)
  with assms(2) obtain s3 where "find_row s_id i (settlements db3) = Some s3" "s_buyer s3 = s_buyer s2" "s_amount s3 = s_amount s2"
    "st_step\<^sup>*\<^sup>* (s_state s2) (s_state s3)" unfolding batches_evolve_def by blast
  with 2 show "\<exists>s'. find_row s_id i (settlements db3) = Some s' \<and> s_buyer s' = s_buyer s \<and> s_amount s' = s_amount s \<and>
      st_step\<^sup>*\<^sup>* (s_state s) (s_state s')"
    by (metis rtranclp_trans)
qed

lemma untouched_updates [simp]:
  "untouched (db\<lparr>settlements := x\<rparr>) = untouched db" "untouched (db\<lparr>next_settlement_id := i\<rparr>) = untouched db"
  "untouched (db\<lparr>allowances := y\<rparr>) = untouched db" "untouched (db\<lparr>settlement_legs := z\<rparr>) = untouched db"
  "untouched (db\<lparr>settlement_cursors := c\<rparr>) = untouched db"
  by (simp_all add: untouched_def)

lemma anchor_leg_other:
  "settlements (anchor_leg i l db) = settlements db" "next_settlement_id (anchor_leg i l db) = next_settlement_id db"
  "allowances (anchor_leg i l db) = allowances db" "untouched (anchor_leg i l db) = untouched db"
  "settlement_cursors (anchor_leg i l db) = settlement_cursors db"
  "keys_distinct snd (settlement_legs db) \<Longrightarrow> keys_distinct snd (settlement_legs (anchor_leg i l db))"
  by (auto simp: anchor_leg_def row_simps)

lemma fold_anchor_other:
  "settlements (fold (anchor_leg i) ls db) = settlements db" "next_settlement_id (fold (anchor_leg i) ls db) = next_settlement_id db"
  "allowances (fold (anchor_leg i) ls db) = allowances db" "untouched (fold (anchor_leg i) ls db) = untouched db"
  "settlement_cursors (fold (anchor_leg i) ls db) = settlement_cursors db"
  "keys_distinct snd (settlement_legs db) \<Longrightarrow> keys_distinct snd (settlement_legs (fold (anchor_leg i) ls db))"
  by (induction ls arbitrary: db) (simp_all add: anchor_leg_other)

lemma adds_trans:
  assumes "adds_at_most db db1 a d k1" and "adds_at_most db1 db2 a d k2"
  shows "adds_at_most db db2 a d (k1 + k2)"
proof -
  have "claimed db2 a' d' \<le> claimed db a' d' + (if a' = a \<and> d' = d then k1 + k2 else 0)" for a' d'
    using assms(1) [unfolded adds_at_most_def, THEN conjunct2, THEN conjunct2, THEN conjunct2, THEN conjunct2, rule_format, of a' d']
      assms(2) [unfolded adds_at_most_def, THEN conjunct2, THEN conjunct2, THEN conjunct2, THEN conjunct2, rule_format, of a' d']
    by (auto split: if_splits)
  then show ?thesis using assms unfolding adds_at_most_def by (blast intro: batches_evolve_trans dest: sym trans)
qed

lemma insert_batch_adds:
  assumes "insert_batch db d b ata now = Inr (db', cr)" and "settlement_rows_ok db"
  shows "adds_at_most db db' (sb_buyer b) d (sb_amount b)"
proof (cases "has_row s_batch_ref (settlementRef d b) (settlements db)")
  case True
  with assms have "db' = db" "0 < sb_amount b" by (auto simp: insert_batch_def Let_def split: if_splits)
  with assms(2) show ?thesis by (simp add: adds_at_most_def batches_evolve_refl)
next
  case False
  define row where "row = new_settlement (next_settlement_id db) (settlementRef d b) d b ata now"
  have row: "s_id row = next_settlement_id db" "s_batch_ref row = settlementRef d b" "s_amount row = sb_amount b"
    "s_buyer row = sb_buyer b" "s_delegate row = d" "s_state row = SettlementPending"
    by (simp_all add: row_def new_settlement_def)
  from False assms(1) have db': "db' = fold (anchor_leg (next_settlement_id db)) (sb_legs b)
      (db\<lparr>settlements := settlements db @ [row], next_settlement_id := next_settlement_id db + 1\<rparr>)" and pos: "0 < sb_amount b"
    by (auto simp: insert_batch_def Let_def row_def split: if_splits)
  have st: "settlements db' = settlements db @ [row]" "next_settlement_id db' = next_settlement_id db + 1"
    "allowances db' = allowances db" "untouched db' = untouched db"
    by (simp_all add: db' fold_anchor_other)
  have lt: "s_id x < next_settlement_id db" if "x \<in> set (settlements db)" for x
    using assms(2) that by (auto simp: settlement_rows_ok_def list_all_iff)
  have "keys_distinct snd (settlement_legs db')"
    using assms(2) by (simp add: db' fold_anchor_other settlement_rows_ok_def)
  with assms(2) st row pos False lt have "settlement_rows_ok db'"
    by (fastforce simp: settlement_rows_ok_def row_simps list_all_iff)
  moreover have "batches_evolve db db'" by (simp add: batches_evolve_def st row_simps)
  moreover have "claimed db' a' d' \<le> claimed db a' d' + (if a' = sb_buyer b \<and> d' = d then sb_amount b else 0)" for a' d'
    using row by (auto simp: claimed_def st row_simps)
  ultimately show ?thesis using st by (simp add: adds_at_most_def)
qed

lemma insert_batches_adds:
  assumes "insert_batches db ata d bs now = Inr (db', cr)" and "settlement_rows_ok db"
    and "list_all (\<lambda>b. sb_buyer b = a \<and> 0 \<le> sb_amount b) bs"
  shows "adds_at_most db db' a d (batch_sum bs)"
  using assms
proof (induction bs arbitrary: db cr)
  case Nil
  then show ?case by (simp add: adds_at_most_def batch_sum_def batches_evolve_refl)
next
  case (Cons b bs)
  then obtain dest db1 c rest where 1: "insert_batch db d b dest now = Inr (db1, c)" "insert_batches db1 ata d bs now = Inr (db', rest)"
    by (auto simp: res_simps)
  from insert_batch_adds [OF 1(1) Cons.prems(2)] Cons.prems(3) have s1: "adds_at_most db db1 a d (sb_amount b)" by simp
  then have "settlement_rows_ok db1" by (simp add: adds_at_most_def)
  from adds_trans [OF s1 Cons.IH [OF 1(2) this]] Cons.prems(3) show ?case by (simp add: batch_sum_def)
qed

lemma allowance_update_registered:
  assumes "find_allowance db a d = Some al" and "\<And>r. allowance_key (f r) = allowance_key r"
  shows "registered (db\<lparr>allowances := update_row allowance_key (a, d) f (allowances db)\<rparr>) a' d' =
    (if a' = a \<and> d' = d then al_raw (f al) else registered db a' d')"
  using assms by (auto simp: registered_def find_allowance_def find_row_update)

lemma allowance_update_ok:
  assumes "find_allowance db a d = Some al" and "\<And>r. allowance_key (f r) = allowance_key r" and "allowances_ok db"
    and "allowance_row_ok (f al)"
  shows "allowances_ok (db\<lparr>allowances := update_row allowance_key (a, d) f (allowances db)\<rparr>)"
proof -
  have dist: "keys_distinct allowance_key (allowances db)" using assms(3) by (simp add: allowances_ok_def)
  have "x = al" if "x \<in> set (allowances db)" "allowance_key x = (a, d)" for x
    using find_row_distinct [OF dist that(1)] that(2) assms(1) by (simp add: find_allowance_def)
  then have "list_all allowance_row_ok (update_row allowance_key (a, d) f (allowances db))"
    using assms(3,4) set_update_row [of _ allowance_key "(a, d)" f "allowances db"] by (fastforce simp: allowances_ok_def list_all_iff)
  with dist assms(2) show ?thesis by (simp add: allowances_ok_def keys_distinct_update)
qed

lemma consume_effect:
  assumes "lockAndConsumeAllowanceTx db a d k = Inr (db', ok)" and "allowances_ok db"
  shows "0 < k" "allowances_ok db'" "untouched db' = untouched db" "settlements db' = settlements db"
    "settlement_legs db' = settlement_legs db" "next_settlement_id db' = next_settlement_id db"
    "registered db' a' d' = registered db a' d' - (if ok \<and> a' = a \<and> d' = d then k else 0)"
proof -
  have key: "allowance_key (r\<lparr>al_raw := al_raw r - k\<rparr>) = allowance_key r" for r by (simp add: allowance_key_def)
  show k: "0 < k" using assms(1) by (auto simp: lockAndConsumeAllowanceTx_def split: if_splits)
  consider (no) "db' = db" "\<not> ok" | (yes) al where "find_allowance db a d = Some al" "al_revoked_at al = None" "k \<le> al_raw al" "ok"
      "db' = db\<lparr>allowances := update_row allowance_key (a, d) (\<lambda>r. r\<lparr>al_raw := al_raw r - k\<rparr>) (allowances db)\<rparr>"
    using assms(1) by (auto simp: lockAndConsumeAllowanceTx_def split: if_splits option.splits)
  then have "allowances_ok db' \<and> untouched db' = untouched db \<and> settlements db' = settlements db \<and>
      settlement_legs db' = settlement_legs db \<and> next_settlement_id db' = next_settlement_id db \<and>
      registered db' a' d' = registered db a' d' - (if ok \<and> a' = a \<and> d' = d then k else 0)"
  proof cases
    case no
    with assms(2) show ?thesis by simp
  next
    case (yes al)
    have "al \<in> set (allowances db)" using yes(1) find_row_mem by (fastforce simp: find_allowance_def)
    then have "allowance_row_ok al" using assms(2) by (auto simp: allowances_ok_def list_all_iff)
    with yes(2,3) k have "allowance_row_ok (al\<lparr>al_raw := al_raw al - k\<rparr>)" by (simp add: allowance_row_ok_def)
    with allowance_update_ok [OF yes(1) key assms(2)] allowance_update_registered [OF yes(1) key] yes
    show ?thesis by (auto simp: registered_def)
  qed
  then show "allowances_ok db'" "untouched db' = untouched db" "settlements db' = settlements db"
    "settlement_legs db' = settlement_legs db" "next_settlement_id db' = next_settlement_id db"
    "registered db' a' d' = registered db a' d' - (if ok \<and> a' = a \<and> d' = d then k else 0)" by blast+
qed

lemma settlement_rel_refl: "settlement_rel db db"
  by (simp add: settlement_rel_def batches_evolve_refl)

lemma settlement_rel_trans: "settlement_rel db db1 \<Longrightarrow> settlement_rel db1 db2 \<Longrightarrow> settlement_rel db db2"
  unfolding settlement_rel_def by (metis batches_evolve_trans order_trans)

lemma claim_apply_sound:
  assumes "claim_apply db ata d ps now = Inr (db', cr)" and "allowances_ok db" "settlement_rows_ok db" "list_all plan_ok ps"
  shows "allowances_ok db' \<and> settlement_rows_ok db' \<and> settlement_rel db db'"
  using assms
proof (induction ps arbitrary: db cr)
  case Nil
  then show ?case by (simp add: settlement_rel_refl)
next
  case (Cons p ps)
  show ?case
  proof (cases "bp_skippable p")
    case True
    with Cons show ?thesis by simp
  next
    case False
    with Cons.prems(1) obtain db1 ok where c: "lockAndConsumeAllowanceTx db (bp_buyer p) d (bp_total p) = Inr (db1, ok)"
      and next1: "if ok then \<exists>db2 c1 c2. insert_batches db1 ata d (bp_batches p) now = Inr (db2, c1) \<and> claim_apply db2 ata d ps now = Inr (db', c2)
        else claim_apply db1 ata d ps now = Inr (db', cr)"
      by (auto simp: res_simps split: if_splits)
    note ce = consume_effect [OF c Cons.prems(2)]
    have rows1: "settlement_rows_ok db1" using Cons.prems(3) ce(4-6) by (simp add: settlement_rows_ok_def)
    have cl1: "claimed db1 a' d' = claimed db a' d'" for a' d' using ce(4) by (simp add: claimed_def)
    show ?thesis
    proof (cases ok)
      case False
      have "settlement_rel db db1" using ce(3,4,7) cl1 False by (simp add: settlement_rel_def batches_evolve_refl backing_def)
      with Cons.IH [of db1 cr] next1 False ce(2) rows1 Cons.prems(4) show ?thesis by (auto intro: settlement_rel_trans)
    next
      case True
      with next1 obtain db2 c1 c2 where i: "insert_batches db1 ata d (bp_batches p) now = Inr (db2, c1)"
        and r: "claim_apply db2 ata d ps now = Inr (db', c2)" by auto
      have pk: "list_all (\<lambda>b. sb_buyer b = bp_buyer p \<and> 0 \<le> sb_amount b) (bp_batches p)" "bp_total p = batch_sum (bp_batches p)"
        using Cons.prems(4) by (simp_all add: plan_ok_def)
      note ad = insert_batches_adds [OF i rows1 pk(1), unfolded adds_at_most_def]
      have al: "allowances_ok db2" using ad ce(2) by (simp add: allowances_ok_def)
      have "backing db2 a' d' \<le> backing db a' d'" for a' d'
      proof -
        have "registered db2 a' d' = registered db1 a' d'" using ad registered_tables by blast
        moreover have "claimed db2 a' d' \<le> claimed db1 a' d' + (if a' = bp_buyer p \<and> d' = d then batch_sum (bp_batches p) else 0)"
          using ad by blast
        ultimately show ?thesis using ce(7) [of a' d'] cl1 [of a' d'] pk(2) True by (auto simp: backing_def split: if_splits)
      qed
      moreover have "batches_evolve db db2" using ad ce(4) batches_evolve_refl batches_evolve_trans by blast
      ultimately have "settlement_rel db db2" using ad ce(3) by (simp add: settlement_rel_def)
      with Cons.IH [OF r al] ad Cons.prems(4) show ?thesis by (auto intro: settlement_rel_trans)
    qed
  qed
qed

lemma untouched_fit: "untouched db' = untouched db \<Longrightarrow> legs_fit db' = legs_fit db"
  by (simp add: untouched_def legs_fit_def)

lemma cursor_other:
  "allowances (set_settlement_cursor d i db) = allowances db" "settlements (set_settlement_cursor d i db) = settlements db"
  "settlement_legs (set_settlement_cursor d i db) = settlement_legs db"
  "next_settlement_id (set_settlement_cursor d i db) = next_settlement_id db" "untouched (set_settlement_cursor d i db) = untouched db"
  by (simp_all add: set_settlement_cursor_def)

lemma claim_sound:
  assumes "claim_with ata db params now = Inr (db', cr)" and "settlement_inv db"
  shows "settlement_inv db' \<and> settlement_rel db db'"
proof (cases "claim_plan db ata params")
  case (Inr plan)
  show ?thesis
  proof (cases plan)
    case None
    with Inr assms show ?thesis by (simp add: claim_with_def settlement_rel_refl)
  next
    case (Some pc)
    obtain ps cur where pc: "pc = (ps, cur)" by (cases pc)
    from assms(1) Inr Some pc obtain db1 where ap: "claim_apply db ata (cp_delegate params) ps now = Inr (db1, cr)"
      and db': "db' = set_settlement_cursor (cp_delegate params) cur db1" by (auto simp: claim_with_def res_simps)
    have "list_all plan_ok ps" using claim_plan_ok [of db ata params ps cur] Inr Some pc assms(2)
      by (simp add: plans_ok_def settlement_inv_def)
    from claim_apply_sound [OF ap _ _ this] assms(2) have s1: "allowances_ok db1" "settlement_rows_ok db1" "settlement_rel db db1"
      by (simp_all add: settlement_inv_def)
    note o = cursor_other [of "cp_delegate params" cur db1, folded db']
    have inv: "allowances_ok db'" "settlement_rows_ok db'" using s1(1,2) o by (simp_all add: allowances_ok_def settlement_rows_ok_def)
    have r: "settlement_rel db1 db'"
      using o registered_tables [OF o(1)] by (simp add: settlement_rel_def batches_evolve_refl backing_def claimed_def)
    have "legs_fit db'" using s1(3) r assms(2) untouched_fit unfolding settlement_rel_def settlement_inv_def by metis
    with inv settlement_rel_trans [OF s1(3) r] show ?thesis by (simp add: settlement_inv_def)
  qed
qed (use assms in \<open>simp add: claim_with_def\<close>)

section \<open>Transitions\<close>

lemma batch_update:
  assumes "keeps_batch f" and "find_row s_id i (settlements db) = Some s" and "settlement_rows_ok db"
    and "st_step (s_state s) (s_state (f s))" and "s_state s \<noteq> SettlementRestored"
  defines "db' \<equiv> db\<lparr>settlements := update_row s_id i f (settlements db)\<rparr>"
  shows "settlement_rows_ok db'" "batches_evolve db db'"
    "claimed db' a d = claimed db a d - (if s_state (f s) = SettlementRestored \<and> s_buyer s = a \<and> s_delegate s = d then s_amount s else 0)"
proof -
  have k: "s_id (f x) = s_id x" "s_batch_ref (f x) = s_batch_ref x" "s_buyer (f x) = s_buyer x" "s_delegate (f x) = s_delegate x"
    "s_amount (f x) = s_amount x" for x using assms(1) by (auto simp: keeps_batch_def)
  have dist: "keys_distinct s_id (settlements db)" using assms(3) by (simp add: settlement_rows_ok_def)
  have "map s_batch_ref (update_row s_id i f (settlements db)) = map s_batch_ref (settlements db)"
    by (simp add: update_row_def k)
  then have "keys_distinct s_batch_ref (settlements db')" using assms(3) by (simp add: db'_def keys_distinct_def settlement_rows_ok_def)
  moreover have "list_all (\<lambda>s. 0 < s_amount s \<and> s_id s < next_settlement_id db) (update_row s_id i f (settlements db))"
    using assms(3) by (auto simp: update_row_def list_all_iff settlement_rows_ok_def k)
  ultimately show "settlement_rows_ok db'"
    using assms(3) k by (simp add: db'_def settlement_rows_ok_def keys_distinct_update)
  show "batches_evolve db db'"
    using assms(2,4) k by (auto simp: batches_evolve_def db'_def find_row_update)
  show "claimed db' a d = claimed db a d - (if s_state (f s) = SettlementRestored \<and> s_buyer s = a \<and> s_delegate s = d then s_amount s else 0)"
    using sum_rows_update [OF dist assms(2), of "\<lambda>s. s_buyer s = a \<and> s_delegate s = d \<and> s_state s \<noteq> SettlementRestored" s_amount f] assms(5) k
    by (auto simp: claimed_def db'_def)
qed

lemma guarded_sound:
  assumes "guarded_update db i st f = (db', ok)" and "settlement_inv db" and "keeps_batch f"
    and "\<And>s. s_state (f s) = st'" and "st_step st st'" and "st \<noteq> SettlementRestored" "st' \<noteq> SettlementRestored"
  shows "settlement_inv db' \<and> settlement_rel db db'"
proof -
  consider "db' = db" | s where "find_row s_id i (settlements db) = Some s" "s_state s = st"
      "db' = db\<lparr>settlements := update_row s_id i f (settlements db)\<rparr>"
    using assms(1) by (auto simp: guarded_update_def split: option.splits if_splits)
  then show ?thesis
  proof cases
    case 1
    with assms(2) show ?thesis by (simp add: settlement_rel_refl)
  next
    case (2 s)
    have "settlement_rows_ok db" using assms(2) by (simp add: settlement_inv_def)
    note u = batch_update [OF assms(3) 2(1) this, folded 2(3)]
    have al: "registered db' a d = registered db a d" for a d by (rule registered_tables) (simp add: 2(3))
    have "claimed db' a d = claimed db a d" for a d using u(3) assms(4-7) 2(2) by simp
    moreover have "legs_fit db'" "allowances_ok db'" using assms(2) by (simp_all add: 2(3) settlement_inv_def legs_fit_def allowances_ok_def)
    moreover have "untouched db' = untouched db" by (simp add: 2(3))
    ultimately show ?thesis using u(1,2) assms(4-6) 2(2) al by (simp add: settlement_inv_def settlement_rel_def backing_def)
  qed
qed

lemma refund_effect:
  assumes "refund_allowance db a d k = Inr db'" and "allowances_ok db" "0 < k"
  shows "allowances_ok db'" "untouched db' = untouched db" "settlements db' = settlements db"
    "settlement_legs db' = settlement_legs db" "next_settlement_id db' = next_settlement_id db"
    "registered db' a' d' = registered db a' d' +
      (if a' = a \<and> d' = d \<and> (\<exists>al. find_allowance db a d = Some al \<and> al_revoked_at al = None) then k else 0)"
proof -
  have key: "allowance_key (r\<lparr>al_raw := al_raw r + k\<rparr>) = allowance_key r" for r by (simp add: allowance_key_def)
  consider (no) "db' = db" "\<not> (\<exists>al. find_allowance db a d = Some al \<and> al_revoked_at al = None)"
    | (yes) al where "find_allowance db a d = Some al" "al_revoked_at al = None" "in_int64 (al_raw al + k)"
      "db' = db\<lparr>allowances := update_row allowance_key (a, d) (\<lambda>r. r\<lparr>al_raw := al_raw r + k\<rparr>) (allowances db)\<rparr>"
    using assms(1) by (auto simp: refund_allowance_def split: if_splits option.splits)
  then have "allowances_ok db' \<and> untouched db' = untouched db \<and> settlements db' = settlements db \<and>
      settlement_legs db' = settlement_legs db \<and> next_settlement_id db' = next_settlement_id db \<and>
      registered db' a' d' = registered db a' d' +
        (if a' = a \<and> d' = d \<and> (\<exists>al. find_allowance db a d = Some al \<and> al_revoked_at al = None) then k else 0)"
  proof cases
    case no
    with assms(2) show ?thesis by auto
  next
    case (yes al)
    have "al \<in> set (allowances db)" using yes(1) find_row_mem by (fastforce simp: find_allowance_def)
    then have "allowance_row_ok al" using assms(2) by (auto simp: allowances_ok_def list_all_iff)
    with yes(2,3) assms(3) have "allowance_row_ok (al\<lparr>al_raw := al_raw al + k\<rparr>)" by (simp add: allowance_row_ok_def in_int64_def)
    with allowance_update_ok [OF yes(1) key assms(2)] allowance_update_registered [OF yes(1) key] yes
    show ?thesis by (auto simp: registered_def)
  qed
  then show "allowances_ok db'" "untouched db' = untouched db" "settlements db' = settlements db"
    "settlement_legs db' = settlement_legs db" "next_settlement_id db' = next_settlement_id db"
    "registered db' a' d' = registered db a' d' +
      (if a' = a \<and> d' = d \<and> (\<exists>al. find_allowance db a d = Some al \<and> al_revoked_at al = None) then k else 0)" by blast+
qed

lemma restore_keeps: "keeps_batch (\<lambda>r. r\<lparr>s_state := SettlementRestored, s_error := reason\<rparr>)"
  by (simp add: keeps_batch_def)

lemma RestoreSettlement_effect:
  assumes "RestoreSettlement db i reason = Inr (db', True)" and "settlement_inv db"
  obtains s where "find_row s_id i (settlements db) = Some s" "open_settlement (s_state s)" "settlement_inv db'" "settlement_rel db db'"
    "\<exists>s'. find_row s_id i (settlements db') = Some s' \<and> s_state s' = SettlementRestored"
    "\<forall>a d. registered db' a d = registered db a d + (if a = s_buyer s \<and> d = s_delegate s \<and>
        (\<exists>al. find_allowance db (s_buyer s) (s_delegate s) = Some al \<and> al_revoked_at al = None) then s_amount s else 0)"
    "\<forall>a d. claimed db' a d = claimed db a d - (if a = s_buyer s \<and> d = s_delegate s then s_amount s else 0)"
proof -
  from assms(1) obtain s db1 where s: "find_row s_id i (settlements db) = Some s" "open_settlement (s_state s)"
    and rf: "refund_allowance db (s_buyer s) (s_delegate s) (s_amount s) = Inr db1"
    and db': "db' = db1\<lparr>settlements := update_row s_id i (\<lambda>r. r\<lparr>s_state := SettlementRestored, s_error := reason\<rparr>) (settlements db1)\<rparr>"
    by (auto simp: RestoreSettlement_def res_simps open_settlement_def split: option.splits if_splits)
  have ok: "allowances_ok db" "settlement_rows_ok db" "legs_fit db" using assms(2) by (simp_all add: settlement_inv_def)
  have pos: "0 < s_amount s" using ok(2) find_row_mem [OF s(1)] by (auto simp: settlement_rows_ok_def list_all_iff)
  note r = refund_effect [OF rf ok(1) pos]
  have s1: "find_row s_id i (settlements db1) = Some s" using s(1) r(3) by simp
  have rows1: "settlement_rows_ok db1" using ok(2) r(3-5) by (simp add: settlement_rows_ok_def)
  have ns: "s_state s \<noteq> SettlementRestored" using s(2) by (auto simp: open_settlement_def)
  note u = batch_update [OF restore_keeps s1 rows1 _ ns, of reason, folded db']
  have st: "st_step (s_state s) (s_state (s\<lparr>s_state := SettlementRestored, s_error := reason\<rparr>))" using s(2) by (simp add: st_restore)
  have reg: "registered db' a d = registered db1 a d" for a d by (rule registered_tables) (simp add: db')
  have cl: "claimed db' a d = claimed db a d - (if a = s_buyer s \<and> d = s_delegate s then s_amount s else 0)" for a d
    using u(3) [OF st] r(3) by (auto simp: claimed_def)
  have "batches_evolve db db'" using u(2) [OF st] batches_evolve_refl [OF r(3)] batches_evolve_trans by blast
  moreover have ut: "untouched db' = untouched db" using r(2) by (simp add: db')
  ultimately have rel: "settlement_rel db db'" using reg r(6) cl pos by (auto simp: settlement_rel_def backing_def)
  have "allowances_ok db'" using r(1) by (simp add: db' allowances_ok_def)
  then have inv: "settlement_inv db'" using u(1) [OF st] untouched_fit [OF ut] ok(3) by (simp add: settlement_inv_def)
  have "find_row s_id i (settlements db') = Some (s\<lparr>s_state := SettlementRestored, s_error := reason\<rparr>)"
    using s1 by (simp add: db' find_row_update)
  with that s inv rel cl reg r(6) show ?thesis by auto
qed

lemma exec_settlement_sound:
  assumes "exec_settlement op db = Inr (db', u)" and "settlement_inv db"
  shows "settlement_inv db' \<and> settlement_rel db db'"
proof (cases op)
  case (StClaim ata params now)
  with assms show ?thesis by (auto simp: res_simps dest: claim_sound)
next
  case (StSigned i wire sig bh lv ex)
  with assms(1) obtain b where "guarded_update db i SettlementPending (\<lambda>s. s\<lparr>s_signed_wire := wire, s_signature := sig, s_blockhash := bh,
      s_last_valid := Some (int lv), s_expires_at := Some ex, s_state := SettlementSigned\<rparr>) = (db', b)"
    by (auto simp: res_simps MarkSettlementSigned_def split: if_splits)
  from guarded_sound [OF this assms(2), of SettlementSigned] show ?thesis by (simp add: keeps_batch_def st_sign)
next
  case (StBroadcast i)
  with assms(1) obtain b where "guarded_update db i SettlementSigned (\<lambda>s. s\<lparr>s_state := SettlementBroadcast\<rparr>) = (db', b)"
    by (auto simp: res_simps MarkSettlementBroadcast_def split: prod.splits)
  from guarded_sound [OF this assms(2), of SettlementBroadcast] show ?thesis by (simp add: keeps_batch_def st_broadcast)
next
  case (StFinalize i)
  with assms(1) obtain b where "guarded_update db i SettlementBroadcast (\<lambda>s. s\<lparr>s_state := SettlementFinalized\<rparr>) = (db', b)"
    by (auto simp: res_simps FinalizeSettlement_def split: prod.splits)
  from guarded_sound [OF this assms(2), of SettlementFinalized] show ?thesis by (simp add: keeps_batch_def st_finalize)
next
  case (StRestore i reason)
  with assms(1) obtain ok where r: "RestoreSettlement db i reason = Inr (db', ok)" by (auto simp: res_simps)
  show ?thesis
  proof (cases ok)
    case True
    with r have "RestoreSettlement db i reason = Inr (db', True)" by simp
    from this assms(2) show ?thesis by (rule RestoreSettlement_effect) simp
  next
    case False
    with r have "db' = db" by (auto simp: RestoreSettlement_def res_simps split: option.splits if_splits)
    with assms(2) show ?thesis by (simp add: settlement_rel_refl)
  qed
qed

interpretation st_store: tx_store exec_settlement settlement_inv settlement_rel
proof
  show "settlement_inv s \<Longrightarrow> exec_settlement op s = Inr (s', r) \<Longrightarrow> settlement_inv s'" for s op s' r
    using exec_settlement_sound by blast
  show "settlement_inv s \<Longrightarrow> exec_settlement op s = Inr (s', r) \<Longrightarrow> settlement_rel s s'" for s op s' r
    using exec_settlement_sound by blast
  show "settlement_rel s s" for s by (rule settlement_rel_refl)
  show "settlement_rel s t \<Longrightarrow> settlement_rel t u \<Longrightarrow> settlement_rel s u" for s t u by (rule settlement_rel_trans)
qed

lemma demo_market_inv: "settlement_inv demo_market"
  by code_simp

section \<open>Claims that overlap\<close>

lemma insert_batch_ref:
  assumes "insert_batch db d b ata now = Inr (db', cr)"
  shows "has_row s_batch_ref (settlementRef d b) (settlements db')" "0 < sb_amount b" "set (settlements db) \<subseteq> set (settlements db')"
  using assms by (auto simp: insert_batch_def Let_def fold_anchor_other row_simps new_settlement_def split: if_splits)

lemma insert_batches_refs:
  assumes "insert_batches db ata d bs now = Inr (db', cr)"
  shows "list_all (\<lambda>b. has_row s_batch_ref (settlementRef d b) (settlements db') \<and> 0 < sb_amount b \<and> (\<exists>x. ata (sb_dest b) = Inr x)) bs \<and>
    set (settlements db) \<subseteq> set (settlements db')"
  using assms
proof (induction bs arbitrary: db cr)
  case (Cons b bs)
  then obtain dest db1 c rest where 1: "ata (sb_dest b) = Inr dest" "insert_batch db d b dest now = Inr (db1, c)"
    "insert_batches db1 ata d bs now = Inr (db', rest)"
    by (auto simp: res_simps)
  from insert_batch_ref [OF 1(2)] Cons.IH [OF 1(3)] 1(1) show ?case by (auto simp: row_simps)
qed simp

lemma insert_batches_allowances: "insert_batches db ata d bs now = Inr (db', cr) \<Longrightarrow> allowances db' = allowances db"
  by (induction bs arbitrary: db cr) (auto simp: res_simps insert_batch_def Let_def fold_anchor_other split: if_splits)

lemma insert_batches_known:
  assumes "list_all (\<lambda>b. has_row s_batch_ref (settlementRef d b) (settlements db) \<and> 0 < sb_amount b \<and> (\<exists>x. ata (sb_dest b) = Inr x)) bs"
  shows "insert_batches db ata d bs now = Inr (db, [])"
  using assms by (induction bs) (auto simp: insert_batch_def Let_def)

section \<open>Properties\<close>

text \<open>
  C39 (settlements stay within the buyer's authority). Whatever sequence of claims, signings, broadcasts, finalisations and
  restores runs, and whichever of them fail, the registry allowance of an account and delegate together with everything its batches hold or
  have transferred never exceeds what it was at the start, the registry stays non-negative, no batch disappears or changes its
  amount or moves back in the state machine, no ledger leg is anchored to two batches, and balances, ledger and requests are untouched.
\<close>

theorem settlement_runs_within_authority:
  assumes "settlement_inv db" and "db' = run_ops exec_settlement ops db"
  shows "settlement_inv db' \<and> untouched db' = untouched db \<and> batches_evolve db db' \<and>
    keys_distinct snd (settlement_legs db') \<and>
    (\<forall>a d. 0 \<le> registered db' a d \<and> registered db' a d + claimed db' a d \<le> registered db a d + claimed db a d)"
proof -
  have k: "settlement_inv db'" "settlement_rel db db'" using st_store.run_keeps [OF assms(1)] assms(2) by auto
  then have "0 \<le> registered db' a d" for a d using registered_bounds by (simp add: settlement_inv_def)
  with k show ?thesis by (simp add: settlement_rel_def backing_def settlement_inv_def settlement_rows_ok_def)
qed

theorem settlement_runs_within_authority_witness:
  "registered (run_ops exec_settlement [StClaim demo_ata demo_params 5, StRestore 1 ''x''] demo_market) ''b1'' ''auth'' +
   claimed (run_ops exec_settlement [StClaim demo_ata demo_params 5, StRestore 1 ''x''] demo_market) ''b1'' ''auth'' \<le> 1000"
proof -
  have "registered demo_market ''b1'' ''auth'' = 1000" "claimed demo_market ''b1'' ''auth'' = 0" by code_simp+
  with settlement_runs_within_authority [OF demo_market_inv refl, of "[StClaim demo_ata demo_params 5, StRestore 1 ''x'']"]
  show ?thesis by (metis add.right_neutral)
qed

text \<open>
  A restored batch is refunded exactly once. Restoring an open batch of an unrevoked allowance returns exactly its amount to the
  registry, so that registry and batches together are what they were, changes no other row of the registry, and leaves
  the batch in a state from which a second restore, a signing, a broadcast and a finalisation are all refused.
\<close>

theorem RestoreSettlement_refunds_once:
  assumes "settlement_inv db" and "find_row s_id i (settlements db) = Some s" "open_settlement (s_state s)"
    and "find_allowance db (s_buyer s) (s_delegate s) = Some al" "al_revoked_at al = None" "al_raw al + s_amount s \<le> max_int64"
  shows "\<exists>db'. RestoreSettlement db i reason = Inr (db', True) \<and> settlement_inv db' \<and>
    (\<forall>a d. registered db' a d = registered db a d + (if a = s_buyer s \<and> d = s_delegate s then s_amount s else 0)) \<and>
    (\<forall>a d. registered db' a d + claimed db' a d = registered db a d + claimed db a d) \<and>
    RestoreSettlement db' i reason' = Inr (db', False) \<and> MarkSettlementBroadcast db' i = Inr (db', False) \<and>
    FinalizeSettlement db' i = Inr (db', False) \<and>
    (int lv \<le> max_int64 \<longrightarrow> MarkSettlementSigned db' i wire sig bh lv ex = Inr (db', False))"
proof -
  have "0 \<le> al_raw al" using registered_bounds(1) [of db "s_buyer s" "s_delegate s"] assms(1,4) by (simp add: registered_def settlement_inv_def)
  moreover have "0 < s_amount s" using assms(1) find_row_mem [OF assms(2)] by (auto simp: settlement_inv_def settlement_rows_ok_def list_all_iff)
  ultimately have "in_int64 (al_raw al + s_amount s)" using assms(6) by (simp add: in_int64_def)
  with assms(2-5) obtain db' where run: "RestoreSettlement db i reason = Inr (db', True)"
    by (auto simp: RestoreSettlement_def refund_allowance_def open_settlement_def)
  from run assms(1) obtain s1 where e: "find_row s_id i (settlements db) = Some s1" "open_settlement (s_state s1)" "settlement_inv db'"
    "settlement_rel db db'" "\<exists>s'. find_row s_id i (settlements db') = Some s' \<and> s_state s' = SettlementRestored"
    "\<forall>a d. registered db' a d = registered db a d + (if a = s_buyer s1 \<and> d = s_delegate s1 \<and>
        (\<exists>al. find_allowance db (s_buyer s1) (s_delegate s1) = Some al \<and> al_revoked_at al = None) then s_amount s1 else 0)"
    "\<forall>a d. claimed db' a d = claimed db a d - (if a = s_buyer s1 \<and> d = s_delegate s1 then s_amount s1 else 0)" by (rule RestoreSettlement_effect)
  have "s1 = s" using e(1) assms(2) by simp
  with e(6,7) assms(4,5) have "registered db' a d = registered db a d + (if a = s_buyer s \<and> d = s_delegate s then s_amount s else 0)"
    "registered db' a d + claimed db' a d = registered db a d + claimed db a d" for a d by auto
  moreover have "RestoreSettlement db' i reason' = Inr (db', False)" "MarkSettlementBroadcast db' i = Inr (db', False)"
    "FinalizeSettlement db' i = Inr (db', False)"
    "int lv \<le> max_int64 \<longrightarrow> MarkSettlementSigned db' i wire sig bh lv ex = Inr (db', False)"
    using e(5) by (auto simp: RestoreSettlement_def MarkSettlementBroadcast_def FinalizeSettlement_def MarkSettlementSigned_def guarded_update_def)
  ultimately show ?thesis using run e(3) by blast
qed

theorem RestoreSettlement_refunds_once_witness:
  "\<exists>db' cr db''. claim_with demo_ata demo_market demo_params 5 = Inr (db', cr) \<and> registered db' ''b1'' ''auth'' = 900 \<and>
    RestoreSettlement db' 1 ''expired'' = Inr (db'', True) \<and> registered db'' ''b1'' ''auth'' = 990"
proof -
  define db' where "db' = run_ops exec_settlement [StClaim demo_ata demo_params 5] demo_market"
  have run: "case claim_with demo_ata demo_market demo_params 5 of Inr (d, c) \<Rightarrow> d = db' | Inl _ \<Rightarrow> False"
    unfolding db'_def by code_simp
  have pre: "find_row s_id 1 (settlements db') \<noteq> None" "registered db' ''b1'' ''auth'' = 900"
    "(case find_row s_id 1 (settlements db') of Some s \<Rightarrow> open_settlement (s_state s) \<and> s_buyer s = ''b1'' \<and> s_delegate s = ''auth'' \<and> s_amount s = 90 | None \<Rightarrow> False)"
    "find_allowance db' ''b1'' ''auth'' = Some (demo_allowance ''b1'' 900)"
    unfolding db'_def by code_simp+
  have inv: "settlement_inv db'" unfolding db'_def using st_store.run_keeps [OF demo_market_inv] by blast
  obtain s where s: "find_row s_id 1 (settlements db') = Some s" "open_settlement (s_state s)" "s_buyer s = ''b1''" "s_delegate s = ''auth''" "s_amount s = 90"
    using pre(1,3) by (auto split: option.splits)
  have al: "al_revoked_at (demo_allowance ''b1'' 900) = None" "al_raw (demo_allowance ''b1'' 900) = 900" by (simp_all add: demo_allowance_def)
  from RestoreSettlement_refunds_once [OF inv s(1,2), of "demo_allowance ''b1'' 900" "''expired''" "''x''" 0 "[]" "[]" "[]" 0] pre(4) s(3-5) al
  obtain db'' where r: "RestoreSettlement db' 1 ''expired'' = Inr (db'', True)"
    "\<And>a d. registered db'' a d = registered db' a d + (if a = ''b1'' \<and> d = ''auth'' then 90 else 0)" by auto
  have "registered db'' ''b1'' ''auth'' = 990" using r(2) pre(2) by simp
  with r(1) run pre(2) show ?thesis by (auto split: sum.splits prod.splits)
qed

text \<open>
  Claims that overlap consume the allowance twice. The claim reads the cursor and the legs without a lock. When a second claim has made
  the same plan for a buyer before the first one commits, its inserts find the batches present and create nothing, but it still consumes the
  allowance: the registry loses the total twice while the batches hold it once.
\<close>

theorem overlapping_claims_consume_twice:
  assumes "claim_apply db ata d [p] now = Inr (db1, c1)" and "\<not> bp_skippable p" and "allowances_ok db"
    and "find_allowance db (bp_buyer p) d = Some al" "al_revoked_at al = None" "2 * bp_total p \<le> al_raw al"
  shows "\<exists>db2. claim_apply db1 ata d [p] now' = Inr (db2, []) \<and> settlements db2 = settlements db1 \<and>
    registered db2 (bp_buyer p) d = registered db (bp_buyer p) d - 2 * bp_total p"
proof -
  from assms(1,2) obtain dbc ok where c: "lockAndConsumeAllowanceTx db (bp_buyer p) d (bp_total p) = Inr (dbc, ok)"
    and i0: "if ok then \<exists>cr. insert_batches dbc ata d (bp_batches p) now = Inr (db1, cr) else db1 = dbc"
    by (auto simp: res_simps split: if_splits)
  note ce = consume_effect [OF c assms(3)]
  have "ok" using c assms(4-6) ce(1) by (auto simp: lockAndConsumeAllowanceTx_def split: if_splits)
  with i0 obtain cr where i: "insert_batches dbc ata d (bp_batches p) now = Inr (db1, cr)" by auto
  have al1: "allowances db1 = allowances dbc"
    by (rule insert_batches_allowances [OF i])
  have key: "allowance_key (r\<lparr>al_raw := al_raw r - k\<rparr>) = allowance_key r" for r k by (simp add: allowance_key_def)
  have f1: "find_allowance db1 (bp_buyer p) d = Some (al\<lparr>al_raw := al_raw al - bp_total p\<rparr>)"
    using c assms(4-6) ce(1) al1 by (auto simp: lockAndConsumeAllowanceTx_def find_allowance_def find_row_update key split: if_splits)
  then obtain db2 where c2: "lockAndConsumeAllowanceTx db1 (bp_buyer p) d (bp_total p) = Inr (db2, True)"
    using assms(5,6) ce(1) by (simp add: lockAndConsumeAllowanceTx_def)
  have "allowances_ok db1" using ce(2) al1 by (simp add: allowances_ok_def)
  note ce2 = consume_effect [OF c2 this]
  have "insert_batches db2 ata d (bp_batches p) now' = Inr (db2, [])"
    using insert_batches_refs [OF i] ce2(4) by (intro insert_batches_known) simp
  with c2 assms(2) have "claim_apply db1 ata d [p] now' = Inr (db2, [])" by simp
  moreover have "registered db2 (bp_buyer p) d = registered db (bp_buyer p) d - 2 * bp_total p"
    using ce2(7) ce(7) \<open>ok\<close> registered_tables [OF al1] by simp
  ultimately show ?thesis using ce2(4) by blast
qed

theorem overlapping_claims_consume_twice_witness:
  "\<exists>p db1 c1 db2. claim_plan (demo_market\<lparr>ledger := [demo_earn 1 ''b1'' 90 ''r1'']\<rparr>) demo_ata demo_params = Inr (Some ([p], 1)) \<and>
    claim_apply demo_market demo_ata ''auth'' [p] 5 = Inr (db1, c1) \<and> registered db1 ''b1'' ''auth'' = 910 \<and>
    claim_apply db1 demo_ata ''auth'' [p] 6 = Inr (db2, []) \<and> registered db2 ''b1'' ''auth'' = 820"
proof -
  define p where "p = \<lparr>bp_buyer = ''b1'', bp_total = 90, bp_batches = [\<lparr>sb_buyer = ''b1'', sb_source = ''w1-ata'', sb_dest = ''w3'',
    sb_amount = 90, sb_legs = [1], sb_fee = False\<rparr>], bp_skippable = False\<rparr>"
  have plan: "claim_plan (demo_market\<lparr>ledger := [demo_earn 1 ''b1'' 90 ''r1'']\<rparr>) demo_ata demo_params = Inr (Some ([p], 1))"
    unfolding p_def by code_simp
  have a: "case claim_apply demo_market demo_ata ''auth'' [p] 5 of Inr (d, c) \<Rightarrow> registered d ''b1'' ''auth'' = 910 | Inl _ \<Rightarrow> False"
    unfolding p_def by code_simp
  then obtain db1 c1 where r: "claim_apply demo_market demo_ata ''auth'' [p] 5 = Inr (db1, c1)" "registered db1 ''b1'' ''auth'' = 910"
    by (auto split: sum.splits)
  have f: "find_allowance demo_market ''b1'' ''auth'' = Some (demo_allowance ''b1'' 1000)" "allowances_ok demo_market"
    "registered demo_market ''b1'' ''auth'' = 1000" by code_simp+
  from overlapping_claims_consume_twice [OF r(1) _ f(2), of "demo_allowance ''b1'' 1000" 6] f(1,3)
  obtain db2 where "claim_apply db1 demo_ata ''auth'' [p] 6 = Inr (db2, [])" "registered db2 ''b1'' ''auth'' = 820"
    by (auto simp: p_def demo_allowance_def)
  with plan r show ?thesis by blast
qed

text \<open>
  Fee batches are drawn from another buyer's account. A claim over the charges of two buyers creates, for the first buyer,
  a fee batch whose source is the token account of the second: the loop over the fee legs uses the source the loop over the earn
  legs derived last.
\<close>

theorem fee_batch_wrong_source:
  "case claim_with demo_ata demo_market demo_params 5 of
     Inr (db', created) \<Rightarrow> map (\<lambda>s. (s_buyer s, s_source_ata s, s_dest_wallet s, s_amount s)) created =
       [(''b1'', ''w1-ata'', ''w3'', 90), (''b1'', ''w2-ata'', ''tw'', 10), (''b2'', ''w2-ata'', ''w3'', 90), (''b2'', ''w2-ata'', ''tw'', 10)]
   | Inl e \<Rightarrow> False"
  by code_simp

end
