(* ===== verification/Solana_RPC.thy ===== *)
theory Solana_RPC
  imports Solana_Message
begin

text \<open>
  The JSON-RPC client, \<^verbatim>\<open>internal/solana/rpc.go\<close>, and base64 as the workers use it. A response body is a JSON value; the
  transport (\<^verbatim>\<open>http.Client\<close>) is the argument \<open>post\<close>, which gives the decoded body or fails. \<^verbatim>\<open>json.Unmarshal\<close> is written out for the
  types the client decodes into: an absent or null member leaves the zero value, a member of another JSON type is an error, the
  last of several equal keys wins. Keys are compared exactly (Go also accepts a different case, which no Solana node sends).
\<close>

section \<open>JSON\<close>

definition unmarshal_error :: billing_error where
  "unmarshal_error = ErrMsg ''json: cannot unmarshal''"

text \<open>Decoding a member of a struct with the decoder of its type; \<open>z\<close> is the zero value.\<close>

fun field :: "string \<Rightarrow> (json \<Rightarrow> 'a res) \<Rightarrow> 'a \<Rightarrow> json \<Rightarrow> 'a res" where
  "field k dec z JNull = Inr z"
| "field k dec z (JObj fs) = (case member k fs of JNull \<Rightarrow> Inr z | v \<Rightarrow> dec v)"
| "field k dec z _ = Inl unmarshal_error"

fun dec_string :: "json \<Rightarrow> string res" where
  "dec_string JNull = Inr []"
| "dec_string (JStr s) = Inr s"
| "dec_string _ = Inl unmarshal_error"

fun dec_uint64 :: "json \<Rightarrow> nat res" where
  "dec_uint64 JNull = Inr 0"
| "dec_uint64 (JNum n) = (if 0 \<le> n \<and> n < 18446744073709551616 then Inr (nat n) else Inl unmarshal_error)"
| "dec_uint64 _ = Inl unmarshal_error"

fun dec_int :: "json \<Rightarrow> int64 res" where
  "dec_int JNull = Inr 0"
| "dec_int (JNum n) = (if in_int64 n then Inr n else Inl unmarshal_error)"
| "dec_int _ = Inl unmarshal_error"

definition dec_raw :: "json \<Rightarrow> json res" where
  "dec_raw j = Inr j"

fun dec_list :: "(json \<Rightarrow> 'a res) \<Rightarrow> json list \<Rightarrow> 'a list res" where
  "dec_list dec [] = Inr []"
| "dec_list dec (j # js) = rbind (dec j) (\<lambda>x. rbind (dec_list dec js) (\<lambda>xs. Inr (x # xs)))"

fun dec_slice :: "(json \<Rightarrow> 'a res) \<Rightarrow> json \<Rightarrow> 'a list res" where
  "dec_slice dec JNull = Inr []"
| "dec_slice dec (JArr js) = dec_list dec js"
| "dec_slice dec _ = Inl unmarshal_error"

definition dec_error :: "json \<Rightarrow> (int64 \<times> string) option res" where
  "dec_error j = (case j of JNull \<Rightarrow> Inr None
     | _ \<Rightarrow> rbind (field ''code'' dec_int 0 j) (\<lambda>c. rbind (field ''message'' dec_string [] j) (\<lambda>m. Inr (Some (c, m)))))"

section \<open>Calls\<close>

type_synonym transport = "string \<Rightarrow> json list \<Rightarrow> json res"

definition rpc_failure :: "string \<Rightarrow> int64 \<times> string \<Rightarrow> billing_error" where
  "rpc_failure method e = ErrMsg (''solana rpc: '' @ method @ '' error ('' @ itoa (fst e) @ ''): '' @ snd e)"

text \<open>\<^verbatim>\<open>call\<close>: unwraps the envelope and decodes its \<^verbatim>\<open>result\<close>; without one the destination keeps its zero value.\<close>

definition call :: "transport \<Rightarrow> string \<Rightarrow> json list \<Rightarrow> (json \<Rightarrow> 'a res) \<Rightarrow> 'a \<Rightarrow> 'a res" where
  "call post method params dec z =
     rbind (post method params) (\<lambda>body.
     rbind (field ''error'' dec_error None body) (\<lambda>e.
     rbind (field ''result'' dec_raw JNull body) (\<lambda>result.
       case e of Some err \<Rightarrow> Inl (rpc_failure method err)
       | None \<Rightarrow> (case result of JNull \<Rightarrow> Inr z | j \<Rightarrow> dec j))))"

definition commitment :: "json list" where
  "commitment = [JObj [(''commitment'', JStr ''confirmed'')]]"

text \<open>\<^verbatim>\<open>blockhashResponse\<close> and the other response structs repeat the envelope.\<close>

definition dec_blockhash :: "json \<Rightarrow> ((string \<times> nat) \<times> (int64 \<times> string) option) res" where
  "dec_blockhash =
     (\<lambda>j. rbind (field ''result'' (field ''value'' (\<lambda>v.
             rbind (field ''blockhash'' dec_string [] v) (\<lambda>b.
             rbind (field ''lastValidBlockHeight'' dec_uint64 0 v) (\<lambda>n. Inr (b, n)))) ([], 0)) ([], 0) j) (\<lambda>r.
          rbind (field ''error'' dec_error None j) (\<lambda>e. Inr (r, e))))"

definition LatestBlockhash :: "transport \<Rightarrow> (bytes \<times> nat) res" where
  "LatestBlockhash post =
     rbind (call post ''getLatestBlockhash'' commitment dec_blockhash (([], 0), None)) (\<lambda>((blockhash, height), e).
       case e of Some err \<Rightarrow> Inl (rpc_failure ''getLatestBlockhash'' err)
       | None \<Rightarrow>
         (case DecodeBase58 blockhash PublicKeyBytes of
            Inl _ \<Rightarrow> Inl (ErrMsg ''solana rpc: invalid blockhash from rpc'')
          | Inr bh \<Rightarrow> if length bh \<noteq> PublicKeyBytes then Inl (ErrMsg ''solana rpc: invalid blockhash from rpc'')
                     else Inr (bh, height)))"

definition GetBlockHeight :: "transport \<Rightarrow> nat res" where
  "GetBlockHeight post =
     rbind (call post ''getBlockHeight'' commitment (\<lambda>j.
         rbind (field ''result'' dec_uint64 0 j) (\<lambda>r. rbind (field ''error'' dec_error None j) (\<lambda>e. Inr (r, e)))) (0, None)) (\<lambda>(r, e).
       case e of Some err \<Rightarrow> Inl (rpc_failure ''getBlockHeight'' err) | None \<Rightarrow> Inr r)"

definition AccountExists :: "transport \<Rightarrow> string \<Rightarrow> bool res" where
  "AccountExists post pubkey =
     rbind (DecodeBase58 pubkey PublicKeyBytes) (\<lambda>_.
     rbind (call post ''getAccountInfo'' [JStr pubkey, JObj [(''encoding'', JStr ''base58''),
           (''dataSlice'', JObj [(''offset'', JNum 0), (''length'', JNum 0)]), (''commitment'', JStr ''confirmed'')]] (\<lambda>j.
         rbind (field ''result'' (field ''value'' dec_raw JNull) JNull j) (\<lambda>r. rbind (field ''error'' dec_error None j) (\<lambda>e. Inr (r, e))))
         (JNull, None)) (\<lambda>(r, e).
       case e of Some err \<Rightarrow> Inl (rpc_failure ''getAccountInfo'' err) | None \<Rightarrow> Inr (r \<noteq> JNull)))"

record TokenDelegate =
  td_delegate :: string
  td_amount :: nat
  td_slot :: nat

definition ParseUint :: "string \<Rightarrow> nat option" where
  "ParseUint s = (case parse_digits s of None \<Rightarrow> None | Some n \<Rightarrow> if n < 18446744073709551616 then Some n else None)"

text \<open>The parsed account: the delegate and the delegated amount, each present or not.\<close>

definition dec_token_account :: "json \<Rightarrow> (string option \<times> string option) res" where
  "dec_token_account =
     field ''data'' (field ''parsed'' (field ''info'' (\<lambda>i.
       rbind (field ''delegate'' (\<lambda>v. rbind (dec_string v) (\<lambda>s. Inr (Some s))) None i) (\<lambda>d.
       rbind (field ''delegatedAmount'' (\<lambda>v. rbind (field ''amount'' dec_string [] v) (\<lambda>s. Inr (Some s))) None i) (\<lambda>a. Inr (d, a))))
       (None, None)) (None, None)) (None, None)"

definition TokenDelegation :: "transport \<Rightarrow> string \<Rightarrow> (TokenDelegate \<times> bool) res" where
  "TokenDelegation post ata =
     rbind (DecodeBase58 ata PublicKeyBytes) (\<lambda>_.
     rbind (call post ''getAccountInfo'' [JStr ata, JObj [(''encoding'', JStr ''jsonParsed''), (''commitment'', JStr ''confirmed'')]] (\<lambda>j.
         rbind (field ''context'' (field ''slot'' dec_uint64 0) 0 j) (\<lambda>slot.
         rbind (field ''value'' (\<lambda>v. rbind (dec_token_account v) (\<lambda>a. Inr (Some a))) None j) (\<lambda>v. Inr (slot, v)))) (0, None)) (\<lambda>(slot, v).
       case v of
         None \<Rightarrow> Inr (\<lparr>td_delegate = [], td_amount = 0, td_slot = 0\<rparr>, False)
       | Some (d, a) \<Rightarrow>
           (let del = (case d of None \<Rightarrow> [] | Some s \<Rightarrow> s)
            in case a of
                 None \<Rightarrow> Inr (\<lparr>td_delegate = del, td_amount = 0, td_slot = slot\<rparr>, True)
               | Some s \<Rightarrow> (case ParseUint s of
                     None \<Rightarrow> Inl (ErrMsg ''solana rpc: token delegation: bad delegatedAmount'')
                   | Some n \<Rightarrow> Inr (\<lparr>td_delegate = del, td_amount = n, td_slot = slot\<rparr>, True)))))"

record SignatureStatusValue =
  sv_slot :: int64
  sv_err :: bool
  sv_confirmation :: string

definition Finalized :: "SignatureStatusValue \<Rightarrow> bool" where
  "Finalized s \<longleftrightarrow> sv_confirmation s = ''finalized'' \<and> \<not> sv_err s"

text \<open>\<^verbatim>\<open>len(Status.Err) > 0\<close>: the member is present; a JSON null in a RawMessage has length 4.\<close>

definition has_member :: "string \<Rightarrow> json \<Rightarrow> bool" where
  "has_member k j = (case j of JObj fs \<Rightarrow> has_row fst k fs | _ \<Rightarrow> False)"

definition dec_status :: "json \<Rightarrow> SignatureStatusValue option res" where
  "dec_status j = (case j of JNull \<Rightarrow> Inr None
     | _ \<Rightarrow> rbind (field ''slot'' dec_int 0 j) (\<lambda>slot.
            rbind (field ''status'' (\<lambda>s. (case s of JObj _ \<Rightarrow> Inr (has_member ''Err'' s) | _ \<Rightarrow> Inl unmarshal_error)) False j) (\<lambda>err.
            rbind (field ''confirmationStatus'' dec_string [] j) (\<lambda>c.
              Inr (Some \<lparr>sv_slot = slot, sv_err = err, sv_confirmation = c\<rparr>)))))"

definition GetSignatureStatuses :: "transport \<Rightarrow> string list \<Rightarrow> SignatureStatusValue option list res" where
  "GetSignatureStatuses post signatures =
     (if signatures = [] then Inr []
      else call post ''getSignatureStatuses'' [JArr (map JStr signatures)] (dec_slice dec_status) [])"

section \<open>Base64\<close>

definition b64_alphabet :: string where
  "b64_alphabet = ''ABCDEFGHIJKLMNOPQRSTUVWXYZabcdefghijklmnopqrstuvwxyz0123456789+/''"

definition b64_char :: "nat \<Rightarrow> char" where
  "b64_char d = b64_alphabet ! d"

fun b64_encode :: "nat list \<Rightarrow> string" where
  "b64_encode [] = []"
| "b64_encode [a] = [b64_char (a div 4), b64_char ((a mod 4) * 16), CHR ''='', CHR ''='']"
| "b64_encode [a, b] = [b64_char (a div 4), b64_char ((a mod 4) * 16 + b div 16), b64_char ((b mod 16) * 4), CHR ''='']"
| "b64_encode (a # b # c # rest) =
     [b64_char (a div 4), b64_char ((a mod 4) * 16 + b div 16), b64_char ((b mod 16) * 4 + c div 64), b64_char (c mod 64)] @ b64_encode rest"

definition b64_value :: "char \<Rightarrow> nat option" where
  "b64_value c = char_index c b64_alphabet"

fun b64_decode :: "string \<Rightarrow> nat list option" where
  "b64_decode [] = Some []"
| "b64_decode (w # x # y # z # rest) =
     (case (b64_value w, b64_value x) of
        (Some d0, Some d1) \<Rightarrow>
          (if y = CHR ''='' then (if z = CHR ''='' \<and> rest = [] then Some [d0 * 4 + d1 div 16] else None)
           else (case b64_value y of
                   None \<Rightarrow> None
                 | Some d2 \<Rightarrow>
                     if z = CHR ''='' then (if rest = [] then Some [d0 * 4 + d1 div 16, (d1 mod 16) * 16 + d2 div 4] else None)
                     else (case b64_value z of
                             None \<Rightarrow> None
                           | Some d3 \<Rightarrow>
                               map_option (\<lambda>r. [d0 * 4 + d1 div 16, (d1 mod 16) * 16 + d2 div 4, (d2 mod 4) * 64 + d3] @ r)
                                 (b64_decode rest))))
      | _ \<Rightarrow> None)"
| "b64_decode _ = None"

text \<open>\<^verbatim>\<open>base64.StdEncoding\<close>; decoding ignores line breaks.\<close>

definition EncodeToString :: "bytes \<Rightarrow> string" where
  "EncodeToString b = b64_encode (map unat b)"

definition DecodeString :: "string \<Rightarrow> bytes option" where
  "DecodeString s = map_option (map of_nat) (b64_decode (filter (\<lambda>c. (of_char c :: nat) \<noteq> 10 \<and> (of_char c :: nat) \<noteq> 13) s))"

definition SendTransaction :: "transport \<Rightarrow> bytes \<Rightarrow> string res" where
  "SendTransaction post wire =
     rbind (call post ''sendTransaction'' [JStr (EncodeToString wire),
           JObj [(''encoding'', JStr ''base64''), (''preflightCommitment'', JStr ''confirmed'')]] (\<lambda>j.
         rbind (field ''result'' dec_string [] j) (\<lambda>r. rbind (field ''error'' dec_error None j) (\<lambda>e. Inr (r, e)))) ([], None)) (\<lambda>(r, e).
       case e of Some err \<Rightarrow> Inl (rpc_failure ''sendTransaction'' err)
       | None \<Rightarrow> if r = [] then Inl (ErrMsg ''solana rpc: sendTransaction returned an empty signature'') else Inr r)"

section \<open>The chain as the workers see it\<close>

text \<open>The interface \<^verbatim>\<open>rpcClient\<close> of the workers: the answer to every call during one transition.\<close>

record chain =
  ch_exists :: "string \<Rightarrow> bool res"
  ch_blockhash :: "(bytes \<times> nat) res"
  ch_send :: "bytes \<Rightarrow> string res"
  ch_statuses :: "string list \<Rightarrow> SignatureStatusValue option list res"
  ch_height :: "nat res"

definition rpc_chain :: "transport \<Rightarrow> chain" where
  "rpc_chain post = \<lparr>ch_exists = AccountExists post, ch_blockhash = LatestBlockhash post, ch_send = SendTransaction post,
     ch_statuses = GetSignatureStatuses post, ch_height = GetBlockHeight post\<rparr>"

definition to_lower :: "char \<Rightarrow> char" where
  "to_lower c = (let n = (of_char c :: nat) in if 65 \<le> n \<and> n \<le> 90 then char_of (n + 32) else c)"

fun has_prefix :: "string \<Rightarrow> string \<Rightarrow> bool" where
  "has_prefix [] t = True"
| "has_prefix (c # cs) [] = False"
| "has_prefix (c # cs) (d # ds) = (c = d \<and> has_prefix cs ds)"

fun contains :: "string \<Rightarrow> string \<Rightarrow> bool" where
  "contains [] sub = has_prefix sub []"
| "contains (c # cs) sub = (has_prefix sub (c # cs) \<or> contains cs sub)"

fun err_text :: "billing_error \<Rightarrow> string" where
  "err_text (ErrMsg s) = s"
| "err_text _ = []"

definition landed_error :: "billing_error \<Rightarrow> bool" where
  "landed_error e \<longleftrightarrow> (let msg = map to_lower (err_text e)
     in contains msg ''already been processed'' \<or> contains msg ''already known'' \<or>
        contains msg ''transaction results in an account already in use'')"

definition expired_error :: "billing_error \<Rightarrow> bool" where
  "expired_error e \<longleftrightarrow> (let msg = map to_lower (err_text e)
     in contains msg ''blockhash not found'' \<or> contains msg ''blockhash expired'' \<or> contains msg ''block has expired'')"

section \<open>What the nodes answer\<close>

text \<open>
  The documented answers of a Solana node: the body of every call is an envelope with the member \<^verbatim>\<open>result\<close>, whose value is
  an object with \<^verbatim>\<open>context\<close> and \<^verbatim>\<open>value\<close> for \<^verbatim>\<open>getLatestBlockhash\<close>, \<^verbatim>\<open>getAccountInfo\<close> and
  \<^verbatim>\<open>getSignatureStatuses\<close>, a number for \<^verbatim>\<open>getBlockHeight\<close> and a string for \<^verbatim>\<open>sendTransaction\<close>.
\<close>

definition success :: "json \<Rightarrow> json" where
  "success result = JObj [(''jsonrpc'', JStr ''2.0''), (''result'', result), (''id'', JNum 1)]"

definition with_context :: "nat \<Rightarrow> json \<Rightarrow> json" where
  "with_context slot v = JObj [(''context'', JObj [(''slot'', JNum (int slot))]), (''value'', v)]"

section \<open>Base64 round trip\<close>

lemma b64_table: "d < 64 \<Longrightarrow> b64_value (b64_char d) = Some d \<and> b64_char d \<noteq> CHR ''='' \<and>
    (of_char (b64_char d) :: nat) \<noteq> 10 \<and> (of_char (b64_char d) :: nat) \<noteq> 13"
proof -
  have "list_all (\<lambda>d. b64_value (b64_char d) = Some d \<and> b64_char d \<noteq> CHR ''='' \<and>
    (of_char (b64_char d) :: nat) \<noteq> 10 \<and> (of_char (b64_char d) :: nat) \<noteq> 13) [0..<64]" by code_simp
  then show "d < 64 \<Longrightarrow> ?thesis" by (simp add: list_all_iff)
qed

lemma b64_group:
  fixes a b c :: nat
  assumes "a < 256" "b < 256" "c < 256"
  shows "a div 4 < 64" "(a mod 4) * 16 + b div 16 < 64" "(b mod 16) * 4 + c div 64 < 64" "c mod 64 < 64"
    "(a mod 4) * 16 < 64" "(b mod 16) * 4 < 64"
    "a div 4 * 4 + ((a mod 4) * 16 + b div 16) div 16 = a" "a div 4 * 4 + ((a mod 4) * 16) div 16 = a"
    "((a mod 4) * 16 + b div 16) mod 16 * 16 + ((b mod 16) * 4 + c div 64) div 4 = b"
    "((a mod 4) * 16 + b div 16) mod 16 * 16 + ((b mod 16) * 4) div 4 = b"
    "((b mod 16) * 4 + c div 64) mod 4 * 64 + c mod 64 = c"
proof -
  have m: "a mod 4 < 4" "b mod 16 < 16" by simp_all
  have q: "b div 16 < 16" "c div 64 < 4" "a div 4 < 64" using assms by (simp_all add: less_mult_imp_div_less)
  show "a div 4 < 64" "(a mod 4) * 16 + b div 16 < 64" "(b mod 16) * 4 + c div 64 < 64" "c mod 64 < 64"
    "(a mod 4) * 16 < 64" "(b mod 16) * 4 < 64" using m q by linarith+
  have d: "((a mod 4) * 16 + b div 16) div 16 = a mod 4" "((a mod 4) * 16 + b div 16) mod 16 = b div 16"
    "((b mod 16) * 4 + c div 64) div 4 = b mod 16" "((b mod 16) * 4 + c div 64) mod 4 = c div 64"
    using q by simp_all
  show "a div 4 * 4 + ((a mod 4) * 16 + b div 16) div 16 = a" "a div 4 * 4 + ((a mod 4) * 16) div 16 = a"
    "((a mod 4) * 16 + b div 16) mod 16 * 16 + ((b mod 16) * 4 + c div 64) div 4 = b"
    "((a mod 4) * 16 + b div 16) mod 16 * 16 + ((b mod 16) * 4) div 4 = b"
    "((b mod 16) * 4 + c div 64) mod 4 * 64 + c mod 64 = c"
    unfolding d by simp_all
qed

lemma b64_roundtrip: "list_all (\<lambda>d. d < 256) bs \<Longrightarrow> b64_decode (b64_encode bs) = Some bs"
proof (induction bs rule: b64_encode.induct)
  case (2 a)
  then show ?case using b64_group [of a 0 0] by (simp add: b64_table)
next
  case (3 a b)
  then show ?case using b64_group [of a b 0] by (simp add: b64_table)
next
  case (4 a b c rest)
  then show ?case using b64_group [of a b c] by (simp add: b64_table)
qed simp

lemma b64_no_breaks: "list_all (\<lambda>d. d < 256) bs \<Longrightarrow>
    filter (\<lambda>c. (of_char c :: nat) \<noteq> 10 \<and> (of_char c :: nat) \<noteq> 13) (b64_encode bs) = b64_encode bs"
proof (induction bs rule: b64_encode.induct)
  case (2 a)
  then show ?case using b64_group [of a 0 0] by (simp add: b64_table)
next
  case (3 a b)
  then show ?case using b64_group [of a b 0] by (simp add: b64_table)
next
  case (4 a b c rest)
  then show ?case using b64_group [of a b c] by (simp add: b64_table)
qed simp

lemma DecodeString_EncodeToString: "DecodeString (EncodeToString b) = Some b"
proof -
  have "list_all (\<lambda>d. d < 256) (map unat b)" using unsigned_less [where 'b = 8] by (auto simp: list_all_iff)
  then show ?thesis by (simp add: DecodeString_def EncodeToString_def b64_no_breaks b64_roundtrip o_def)
qed

section \<open>Decoding the documented answers\<close>

lemma envelope:
  "field ''error'' dec_error None (success r) = Inr None" "field ''result'' dec_raw JNull (success r) = Inr r"
  by (cases r; simp add: success_def member_def row_simps dec_raw_def)+

lemma call_success: "post m ps = Inr (success r) \<Longrightarrow> call post m ps dec z = (case r of JNull \<Rightarrow> Inr z | j \<Rightarrow> dec j)"
  by (simp add: call_def envelope)

lemma call_context: "post m ps = Inr (success (with_context slot v)) \<Longrightarrow> call post m ps dec z = dec (with_context slot v)"
  by (simp add: call_success with_context_def)

lemma context_members:
  "field ''result'' dec z (with_context slot v) = Inr z" "field ''error'' dec z (with_context slot v) = Inr z"
  by (simp_all add: with_context_def member_def row_simps)

text \<open>
  The client rejects what the nodes answer. On the documented successful answers \<^verbatim>\<open>LatestBlockhash\<close>, \<^verbatim>\<open>GetBlockHeight\<close>,
  \<^verbatim>\<open>SendTransaction\<close> and \<^verbatim>\<open>GetSignatureStatuses\<close> all fail, and \<^verbatim>\<open>AccountExists\<close> never reports an existing account: \<^verbatim>\<open>call\<close> has already
  taken the result out of the envelope when the response structs look for it once more, and the list of statuses is a member of an object.
\<close>

theorem rpc_rejects_documented_answers:
  "LatestBlockhash (\<lambda>m ps. Inr (success (with_context slot (JObj [(''blockhash'', JStr bh), (''lastValidBlockHeight'', JNum n)])))) =
     Inl (ErrMsg ''solana rpc: invalid blockhash from rpc'') \<and>
   GetBlockHeight (\<lambda>m ps. Inr (success (JNum n))) = Inl unmarshal_error \<and>
   SendTransaction (\<lambda>m ps. Inr (success (JStr sig))) wire = Inl unmarshal_error \<and>
   GetSignatureStatuses (\<lambda>m ps. Inr (success (with_context slot (JArr vs)))) (sig # sigs) = Inl unmarshal_error \<and>
   AccountExists (\<lambda>m ps. Inr (success (with_context slot v))) pubkey \<noteq> Inr True"
proof (intro conjI)
  show "LatestBlockhash (\<lambda>m ps. Inr (success (with_context slot (JObj [(''blockhash'', JStr bh), (''lastValidBlockHeight'', JNum n)])))) =
     Inl (ErrMsg ''solana rpc: invalid blockhash from rpc'')"
    by (simp add: LatestBlockhash_def call_context dec_blockhash_def context_members DecodeBase58_def)
  show "GetBlockHeight (\<lambda>m ps. Inr (success (JNum n))) = Inl unmarshal_error"
    by (simp add: GetBlockHeight_def call_success)
  show "SendTransaction (\<lambda>m ps. Inr (success (JStr sig))) wire = Inl unmarshal_error"
    by (simp add: SendTransaction_def call_success)
  show "GetSignatureStatuses (\<lambda>m ps. Inr (success (with_context slot (JArr vs)))) (sig # sigs) = Inl unmarshal_error"
    by (simp add: GetSignatureStatuses_def call_context) (simp add: with_context_def)
  show "AccountExists (\<lambda>m ps. Inr (success (with_context slot v))) pubkey \<noteq> Inr True"
    by (auto simp: AccountExists_def call_context res_simps context_members)
qed

end
