(* ===== verification/Withdraw_Worker.thy ===== *)
theory Withdraw_Worker
  imports Withdrawals Solana_RPC
begin

text \<open>
  The withdrawal worker, \<^verbatim>\<open>internal/withdraw/worker.go\<close>. A pass sweeps the due withdrawals and moves each by one transition,
  deciding on the row as the sweep read it and on what the chain answers. Every transition is one transaction of the store
  (\<open>apply_tx\<close>); an error of the store or of the chain leaves the row for a later pass. The clock reading of a transition is the argument
  \<open>now\<close>; \<open>alive\<close> says for which rows the context was not yet cancelled. The signing key is the function \<open>ws_sign\<close>.
\<close>

section \<open>The worker\<close>

record WithdrawService =
  ws_pub :: bytes
  ws_ata :: bytes
  ws_mint :: bytes
  ws_program :: bytes
  ws_token2022 :: bool
  ws_batch_limit :: int64
  ws_max_age :: int
  ws_sign :: "bytes \<Rightarrow> bytes"
  ws_hash :: hash
  ws_on_curve :: "bytes \<Rightarrow> bool"

text \<open>
  The constructor. \<open>pub\<close> and \<open>sign\<close> are the public half and the signing function of the treasury key, \<open>key_len\<close> its length in bytes.
\<close>

definition NewWithdraw ::
  "hash \<Rightarrow> (bytes \<Rightarrow> bool) \<Rightarrow> (bytes \<Rightarrow> bytes) \<Rightarrow> bytes \<Rightarrow> nat \<Rightarrow> string \<Rightarrow> string \<Rightarrow> int \<Rightarrow> WithdrawService res"
where
  "NewWithdraw hash on_curve sign pub key_len mint tokenProgram blockhashMaxAge =
     (if key_len \<noteq> 64 then Inl (ErrMsg ''withdraw: treasury key must be 64 bytes'')
      else case DecodeBase58 mint PublicKeyBytes of
        Inl _ \<Rightarrow> Inl (ErrMsg ''withdraw: invalid mint'')
      | Inr mintBytes \<Rightarrow>
          if length mintBytes \<noteq> PublicKeyBytes then Inl (ErrMsg ''withdraw: invalid mint'')
          else case DecodeBase58 tokenProgram PublicKeyBytes of
            Inl _ \<Rightarrow> Inl (ErrMsg ''withdraw: invalid token program'')
          | Inr tpBytes \<Rightarrow>
              if length tpBytes \<noteq> PublicKeyBytes then Inl (ErrMsg ''withdraw: invalid token program'')
              else case AssociatedTokenAddress hash on_curve pub mintBytes tpBytes of
                Inl _ \<Rightarrow> Inl (ErrMsg ''withdraw: derive treasury ATA'')
              | Inr ata \<Rightarrow> Inr \<lparr>ws_pub = pub, ws_ata = ata, ws_mint = mintBytes, ws_program = tpBytes,
                  ws_token2022 = (tpBytes = Token2022ProgramID), ws_batch_limit = 20,
                  ws_max_age = (if blockhashMaxAge \<le> 0 then 90 else blockhashMaxAge), ws_sign = sign, ws_hash = hash, ws_on_curve = on_curve\<rparr>)"

definition signAndStore :: "WithdrawService \<Rightarrow> chain \<Rightarrow> instant \<Rightarrow> db \<Rightarrow> Withdrawal \<Rightarrow> db \<times> billing_error option" where
  "signAndStore s ch now db w =
     (case DecodeBase58 (w_destination w) PublicKeyBytes of
        Inl _ \<Rightarrow> apply_tx exec_withdrawal (WdRestore (w_id w) ''invalid destination wallet'' now now) db
      | Inr destOwner \<Rightarrow>
          if length destOwner \<noteq> PublicKeyBytes then apply_tx exec_withdrawal (WdRestore (w_id w) ''invalid destination wallet'' now now) db
          else case AssociatedTokenAddress (ws_hash s) (ws_on_curve s) destOwner (ws_mint s) (ws_program s) of
                 Inl e \<Rightarrow> (db, Some e)
               | Inr destATA \<Rightarrow>
                   (case ch_exists ch (EncodeBase58 destATA) of
                      Inl e \<Rightarrow> (db, Some e)
                    | Inr exists \<Rightarrow>
                        (case ch_blockhash ch of
                           Inl e \<Rightarrow> (db, Some e)
                         | Inr (bh, lastValidBlockHeight) \<Rightarrow>
                             (let message = buildTransferMessage (ws_pub s) (ws_ata s) destATA destOwner (ws_mint s) (ws_program s)
                                    (\<not> exists) (ws_token2022 s) bh (w_amount w mod 18446744073709551616);
                                  sig = ws_sign s message;
                                  wire = SerializeTransaction sig message
                              in apply_tx exec_withdrawal (WdSigned (w_id w) (EncodeToString wire) (EncodeBase58 sig) (EncodeBase58 bh) lastValidBlockHeight
                                   (now + ws_max_age s) now now) db))))"

definition broadcastStored :: "chain \<Rightarrow> instant \<Rightarrow> db \<Rightarrow> Withdrawal \<Rightarrow> db \<times> billing_error option" where
  "broadcastStored ch now db w =
     (if w_signed_wire w = [] then (db, Some (ErrMsg ''no signed wire''))
      else case DecodeString (w_signed_wire w) of
             None \<Rightarrow> apply_tx exec_withdrawal (WdRestore (w_id w) ''corrupt signed wire'' now now) db
           | Some wire \<Rightarrow>
               (case ch_send ch wire of
                  Inr _ \<Rightarrow> apply_tx exec_withdrawal (WdBroadcast (w_id w) now now) db
                | Inl e \<Rightarrow>
                    if landed_error e then apply_tx exec_withdrawal (WdBroadcast (w_id w) now now) db
                    else if expired_error e then apply_tx exec_withdrawal (WdRestore (w_id w) ''blockhash_expired'' now now) db
                    else (db, Some e)))"

definition finalizeOrRestore :: "chain \<Rightarrow> instant \<Rightarrow> db \<Rightarrow> Withdrawal \<Rightarrow> db \<times> billing_error option" where
  "finalizeOrRestore ch now db w =
     (if w_signature w = [] then (db, Some (ErrMsg ''no signature to finalize''))
      else case ch_statuses ch [w_signature w] of
             Inl e \<Rightarrow> (db, Some e)
           | Inr statuses \<Rightarrow>
               (let st = (case statuses of [] \<Rightarrow> None | s # _ \<Rightarrow> s)
                in case st of
                     Some v \<Rightarrow>
                       if Finalized v then apply_tx exec_withdrawal (WdFinalize (w_id w) now now) db
                       else if sv_err v then apply_tx exec_withdrawal (WdRestore (w_id w) ''tx_failed'' now now) db
                       else (db, Some (ErrMsg ''pending''))
                   | None \<Rightarrow>
                       (case w_last_valid w of
                          None \<Rightarrow> (db, Some (ErrMsg ''pending''))
                        | Some lastValid \<Rightarrow>
                            (case ch_height ch of
                               Inl e \<Rightarrow> (db, Some e)
                             | Inr height \<Rightarrow>
                                 if int height > lastValid then apply_tx exec_withdrawal (WdRestore (w_id w) ''blockhash_expired_unconfirmed'' now now) db
                                 else (db, Some (ErrMsg ''pending''))))))"

fun advance_state :: "WithdrawService \<Rightarrow> chain \<Rightarrow> instant \<Rightarrow> db \<Rightarrow> Withdrawal \<Rightarrow> WithdrawalState \<Rightarrow> db \<times> billing_error option" where
  "advance_state s ch now db w WithdrawalReserved = signAndStore s ch now db w"
| "advance_state s ch now db w WithdrawalSigned = broadcastStored ch now db w"
| "advance_state s ch now db w WithdrawalBroadcast = finalizeOrRestore ch now db w"
| "advance_state s ch now db w _ = (db, None)"

definition advance :: "WithdrawService \<Rightarrow> chain \<Rightarrow> instant \<Rightarrow> db \<Rightarrow> Withdrawal \<Rightarrow> db \<times> billing_error option" where
  "advance s ch now db w = advance_state s ch now db w (w_state w)"

text \<open>The step of a pass: an error is logged and the row left for a later pass.\<close>

definition withdraw_step :: "WithdrawService \<Rightarrow> (int64 \<Rightarrow> chain) \<Rightarrow> instant \<Rightarrow> Withdrawal \<Rightarrow> db \<Rightarrow> db \<times> nat" where
  "withdraw_step s chs now w db =
     (case advance s (chs (w_id w)) now db w of (db1, Some _) \<Rightarrow> (db1, 0) | (db1, None) \<Rightarrow> (db1, 1))"

definition WithdrawRunOnce ::
  "WithdrawService \<Rightarrow> (int64 \<Rightarrow> chain) \<Rightarrow> (int64 \<Rightarrow> bool) \<Rightarrow> (int64 \<Rightarrow> bool) \<Rightarrow> instant \<Rightarrow> db \<Rightarrow> db \<times> nat"
where
  "WithdrawRunOnce s chs locked alive now db =
     pass_loop (\<lambda>w. alive (w_id w)) (withdraw_step s chs now) (SweepWithdrawalsDue db locked (ws_batch_limit s)) db 0"


text \<open>When a transition may return the credit, by the state of the row it saw.\<close>

definition restore_reason :: "chain \<Rightarrow> Withdrawal \<Rightarrow> bool" where
  "restore_reason ch w \<longleftrightarrow>
     (case w_state w of
        WithdrawalReserved \<Rightarrow> (\<forall>d. DecodeBase58 (w_destination w) PublicKeyBytes = Inr d \<longrightarrow> length d \<noteq> PublicKeyBytes)
      | WithdrawalSigned \<Rightarrow> DecodeString (w_signed_wire w) = None \<or>
          (\<exists>wire e. DecodeString (w_signed_wire w) = Some wire \<and> ch_send ch wire = Inl e \<and> expired_error e)
      | WithdrawalBroadcast \<Rightarrow>
          (\<exists>v rest. ch_statuses ch [w_signature w] = Inr (Some v # rest) \<and> sv_err v) \<or>
          (\<exists>st lv h. ch_statuses ch [w_signature w] = Inr st \<and> (st = [] \<or> hd st = None) \<and> w_last_valid w = Some lv \<and>
             ch_height ch = Inr h \<and> lv < int h)
      | _ \<Rightarrow> False)"

text \<open>The transaction a transition may make, or none.\<close>

fun permitted :: "chain \<Rightarrow> Withdrawal \<Rightarrow> withdrawal_op \<Rightarrow> bool" where
  "permitted ch w (WdSigned i wire sig bh lv ex now clock) = (i = w_id w \<and> w_state w = WithdrawalReserved)"
| "permitted ch w (WdBroadcast i now clock) = (i = w_id w \<and> w_state w = WithdrawalSigned)"
| "permitted ch w (WdFinalize i now clock) = (i = w_id w \<and> w_state w = WithdrawalBroadcast)"
| "permitted ch w (WdRestore i reason now clock) = (i = w_id w \<and> restore_reason ch w)"
| "permitted ch w _ = False"

text \<open>A service and a chain that answers everything the worker hopes for.\<close>

definition demo_service :: WithdrawService where
  "demo_service = \<lparr>ws_pub = replicate 32 1, ws_ata = replicate 32 2, ws_mint = replicate 32 3, ws_program = TokenProgramID,
     ws_token2022 = False, ws_batch_limit = 20, ws_max_age = 90, ws_sign = (\<lambda>m. replicate 64 7), ws_hash = (\<lambda>b. replicate 32 9),
     ws_on_curve = (\<lambda>b. False)\<rparr>"


definition demo_chain :: chain where
  "demo_chain = \<lparr>ch_exists = (\<lambda>k. Inr True), ch_blockhash = Inr (replicate 32 5, 100), ch_send = (\<lambda>w. Inr ''sig''),
     ch_statuses = (\<lambda>s. Inr [Some \<lparr>sv_slot = 9, sv_err = False, sv_confirmation = ''finalized''\<rparr>]), ch_height = Inr 50\<rparr>"

definition expired_chain :: chain where
  "expired_chain = demo_chain\<lparr>ch_send := (\<lambda>w. Inl (ErrMsg ''solana rpc: sendTransaction error (-32002): Blockhash not found''))\<rparr>"



definition demo_signed_db :: db where
  "demo_signed_db = run_ops exec_withdrawal [WdReserve demo_wd_request 3 3, WdSigned 1 ''AQID'' ''sig'' ''bh'' 100 20 4 4] demo_funded"

lemma NewWithdraw_keys:
  assumes "NewWithdraw hash on_curve sign pub key_len mint tokenProgram age = Inr s"
  shows "length (ws_mint s) = PublicKeyBytes" and "length (ws_program s) = PublicKeyBytes" and "ws_pub s = pub" and "ws_sign s = sign"
    and "AssociatedTokenAddress (ws_hash s) (ws_on_curve s) (ws_pub s) (ws_mint s) (ws_program s) = Inr (ws_ata s)"
  using assms by (auto simp: NewWithdraw_def split: sum.splits if_splits)

section \<open>Transitions are store transactions\<close>

lemma signAndStore_op: "w_state w = WithdrawalReserved \<Longrightarrow> one_tx exec_withdrawal (permitted ch w) db (fst (signAndStore s ch now db w))"
  unfolding signAndStore_def Let_def
  by (auto simp: one_tx_same restore_reason_def split: sum.splits intro!: one_tx_apply)

lemma broadcastStored_op: "w_state w = WithdrawalSigned \<Longrightarrow> one_tx exec_withdrawal (permitted ch w) db (fst (broadcastStored ch now db w))"
  unfolding broadcastStored_def
  by (auto simp: one_tx_same restore_reason_def split: sum.splits option.splits intro!: one_tx_apply)

lemma finalizeOrRestore_op: "w_state w = WithdrawalBroadcast \<Longrightarrow> one_tx exec_withdrawal (permitted ch w) db (fst (finalizeOrRestore ch now db w))"
  unfolding finalizeOrRestore_def Let_def
  by (auto simp: one_tx_same restore_reason_def split: sum.splits option.splits list.splits intro!: one_tx_apply)

lemma advance_op: "one_tx exec_withdrawal (permitted ch w) db (fst (advance s ch now db w))"
  by (cases "w_state w") (simp_all add: advance_def signAndStore_op broadcastStored_op finalizeOrRestore_op one_tx_same)

interpretation wd_pass: pass_worker exec_withdrawal "withdraw_step s chs now" for s chs now
proof
  show "\<exists>ops. fst (withdraw_step s chs now w db) = run_ops exec_withdrawal ops db \<and> length ops \<le> 1" for w db
    using one_tx_ops [OF advance_op [of "chs (w_id w)" w db s now]] by (auto simp: withdraw_step_def split: prod.splits option.splits)
qed

section \<open>The way to a finalized withdrawal\<close>











section \<open>Properties\<close>



text \<open>
  A resend can return credit that was paid out. A signed withdrawal whose first send reached the chain but was not recorded
  is sent again by the next pass; when the node answers that second send with an expired blockhash, the pass restores the row and
  returns the full amount to the account without asking for the status of the stored signature, here one that the
  chain reports as finalized. The package comment promises that credit is restored only when the transaction cannot land.
\<close>

theorem resend_restores_landed:
  "credit_of demo_signed_db ''b1'' = 700 \<and>
   (\<exists>v. ch_statuses expired_chain [''sig''] = Inr [Some v] \<and> Finalized v) \<and>
   (let db' = fst (WithdrawRunOnce demo_service (\<lambda>i. expired_chain) (\<lambda>i. False) (\<lambda>i. True) 9 demo_signed_db)
    in credit_of db' ''b1'' = 1000 \<and> map w_state (withdrawals db') = [WithdrawalRestored])"
proof -
  have "credit_of demo_signed_db ''b1'' = 700" by code_simp
  moreover have "\<exists>v. ch_statuses expired_chain [''sig''] = Inr [Some v] \<and> Finalized v"
    by (simp add: expired_chain_def demo_chain_def Finalized_def)
  moreover have "(let db' = fst (WithdrawRunOnce demo_service (\<lambda>i. expired_chain) (\<lambda>i. False) (\<lambda>i. True) 9 demo_signed_db)
    in credit_of db' ''b1'' = 1000 \<and> map w_state (withdrawals db') = [WithdrawalRestored])" by code_simp
  ultimately show ?thesis by blast
qed

text \<open>
  A pass of the worker keeps the books. Whatever the chain answers, whichever rows other replicas hold and wherever the pass is
  cancelled, a pass keeps the billing and withdrawal invariants and every account's distance from its ledger, moves every row
  only along the state machine, and a single transition on a row makes at most one store transaction, which returns the credit only
  for an undecodable destination or wire, a send the node called expired, a failed transaction, or an unknown signature past its last valid block height.
\<close>

theorem withdraw_pass_safe:
  assumes "billing_inv db" and "withdrawal_inv db" and "WithdrawRunOnce s chs locked alive now db = (db', n)"
  shows "billing_inv db' \<and> withdrawal_inv db' \<and> (\<forall>a. drift db' a = drift db a) \<and> rows_evolve db db' \<and>
    one_tx exec_withdrawal (permitted ch w) db (fst (advance s ch now db w))"
proof -
  obtain ops where "db' = run_ops exec_withdrawal ops db"
    using wd_pass.pass_run [of "\<lambda>w. alive (w_id w)" s chs now "SweepWithdrawalsDue db locked (ws_batch_limit s)" db 0] assms(3)
    by (auto simp: WithdrawRunOnce_def)
  with wd_store.run_keeps [of db ops] assms(1,2) advance_op show ?thesis by (auto simp: withdrawal_rel_def)
qed

theorem withdraw_pass_safe_witness:
  "\<exists>db' n. WithdrawRunOnce demo_service (\<lambda>i. demo_chain) (\<lambda>i. False) (\<lambda>i. True) 9 demo_funded = (db', n) \<and> withdrawal_inv db'"
proof -
  obtain db' n where r: "WithdrawRunOnce demo_service (\<lambda>i. demo_chain) (\<lambda>i. False) (\<lambda>i. True) 9 demo_funded = (db', n)"
    by (cases "WithdrawRunOnce demo_service (\<lambda>i. demo_chain) (\<lambda>i. False) (\<lambda>i. True) 9 demo_funded")
  from withdraw_pass_safe [OF demo_inv(2) demo_funded_wd_inv r] r show ?thesis by blast
qed

end
