(* ===== verification/Reconciliation.thy ===== *)
theory Reconciliation
  imports Settlements Solana_RPC Merkle
begin

text \<open>
  The audit of an account: \<^verbatim>\<open>internal/store/reconciliation.go\<close> (the paged ledger leaves, the proof of a row, the summary, the
  sums over settlement batches) and \<^verbatim>\<open>internal/delegations/reconcile.go\<close> (the report that sets the registry against the chain).
  The statements of one call see one state of the database; the hash is a parameter, as is the reader of a token account.
\<close>

section \<open>Ledger leaves\<close>

record MerkleSummary =
  ms_root :: bytes
  ms_count :: int64

record ExposureSummary =
  ex_count :: int64
  ex_raw :: int64

record AllowanceCrossCheck =
  xc_delegate :: string
  xc_active :: bool
  xc_registry :: int64
  xc_in_flight :: int64
  xc_expected :: int64
  xc_observed :: "int64 option"
  xc_divergence :: "int64 option"

record ReconciliationReport =
  rr_account :: string
  rr_ledger :: Reconciliation
  rr_merkle :: MerkleSummary
  rr_allowances :: "AllowanceCrossCheck list"
  rr_exposure :: ExposureSummary

definition leaf_row :: "LedgerEntry \<Rightarrow> LedgerLeafInput" where
  "leaf_row e = \<lparr>li_id = l_id e, li_delta = l_delta e, li_source = l_source e, li_leg = l_leg e,
     li_counterparty = l_counterparty e, li_ref = l_ref e, li_created_at = l_created_at e\<rparr>"

definition rows_after :: "db \<Rightarrow> string \<Rightarrow> int64 \<Rightarrow> LedgerEntry list" where
  "rows_after db a after = sort_key l_id (filter (\<lambda>e. l_account e = a \<and> l_id e > after) (ledger db))"

definition LedgerLeafPage :: "db \<Rightarrow> string \<Rightarrow> int64 \<Rightarrow> int64 \<Rightarrow> LedgerLeafInput list" where
  "LedgerLeafPage db a afterID limit0 =
     (let limit = (if limit0 \<le> 0 \<or> limit0 > 10000 then 1000 else limit0)
      in map leaf_row (take (nat limit) (rows_after db a afterID)))"

definition LedgerLeafIndex :: "db \<Rightarrow> string \<Rightarrow> int64 \<Rightarrow> int64 \<times> bool" where
  "LedgerLeafIndex db a leafID =
     (let n = int (length (filter (\<lambda>e. l_account e = a \<and> l_id e < leafID) (ledger db)));
          exists = list_ex (\<lambda>e. l_account e = a \<and> l_id e = leafID) (ledger db)
      in if \<not> exists then (0, False) else (n, True))"

text \<open>The paging loop of \<^verbatim>\<open>MerkleProofForLedgerRow\<close> and \<^verbatim>\<open>AccountMerkleSummary\<close>: pages of 1000 until one is empty or short.\<close>

lemma last_page_after:
  assumes "page = LedgerLeafPage db a after 1000" and "page \<noteq> []"
  shows "\<exists>e \<in> set (ledger db). l_account e = a \<and> l_id e = li_id (last page) \<and> after < l_id e"
proof -
  from assms have "last page \<in> set (map leaf_row (take 1000 (rows_after db a after)))"
    using last_in_set [of page] by (simp add: LedgerLeafPage_def)
  then obtain e where "e \<in> set (take 1000 (rows_after db a after))" "last page = leaf_row e" by auto
  then have "e \<in> set (rows_after db a after)" "li_id (last page) = l_id e" by (auto simp: leaf_row_def dest: in_set_takeD)
  then show ?thesis by (auto simp: rows_after_def)
qed

function page_leaves :: "db \<Rightarrow> string \<Rightarrow> int64 \<Rightarrow> LedgerLeafInput list" where
  "page_leaves db a after =
     (let page = LedgerLeafPage db a after 1000
      in if page = [] then []
         else if length page < 1000 then page
         else page @ page_leaves db a (li_id (last page)))"
  by pat_completeness auto

termination
proof (relation "measure (\<lambda>(db, a, after). length (filter (\<lambda>e. l_account e = a \<and> l_id e > after) (ledger db)))")
  fix db a after page
  assume "page = LedgerLeafPage db a after 1000" "page \<noteq> []"
  then obtain e where e: "e \<in> set (ledger db)" "l_account e = a" "l_id e = li_id (last page)" "after < l_id e"
    using last_page_after by blast
  let ?P = "\<lambda>x. l_account x = a \<and> l_id x > after" and ?Q = "\<lambda>x. l_account x = a \<and> l_id x > li_id (last page)"
  have eq: "filter ?Q (ledger db) = filter ?Q (filter ?P (ledger db))"
    unfolding filter_filter using e(3,4) by (intro filter_cong refl) auto
  have "length (filter ?Q (filter ?P (ledger db))) < length (filter ?P (ledger db))"
    by (rule length_filter_less [of e]) (use e in auto)
  with eq show "((db, a, li_id (last page)), db, a, after) \<in> measure (\<lambda>(db, a, after). length (filter (\<lambda>e. l_account e = a \<and> l_id e > after) (ledger db)))"
    by simp
qed simp

declare page_leaves.simps [simp del]

definition MerkleProofForLedgerRow ::
  "hash \<Rightarrow> (instant \<Rightarrow> string) \<Rightarrow> db \<Rightarrow> string \<Rightarrow> int64 \<Rightarrow> (bytes \<times> bytes list \<times> bytes \<times> int64) res"
where
  "MerkleProofForLedgerRow H ft db a leafID =
     (case LedgerLeafIndex db a leafID of (index, ok) \<Rightarrow>
        if \<not> ok then Inl ErrNotFound
        else let leaves = map (LedgerLeaf H ft) (page_leaves db a 0)
             in if index \<ge> int (length leaves) then Inl (ErrMsg ''store: merkle proof: index beyond leaves'')
                else rbind (MerklePath H leaves index) (\<lambda>path.
                     Inr (leaves ! nat index, path, MerkleRoot H leaves, int (length leaves))))"

definition AccountMerkleSummary :: "hash \<Rightarrow> (instant \<Rightarrow> string) \<Rightarrow> db \<Rightarrow> string \<Rightarrow> MerkleSummary" where
  "AccountMerkleSummary H ft db a =
     (let rows = page_leaves db a 0
      in \<lparr>ms_root = MerkleRoot H (map (LedgerLeaf H ft) rows), ms_count = int (length rows)\<rparr>)"

section \<open>Sums over settlement batches\<close>

definition SettlementExposure :: "db \<Rightarrow> string \<Rightarrow> ExposureSummary res" where
  "SettlementExposure db a =
     (let P = \<lambda>s. s_buyer s = a \<and> (s_state s = SettlementRestored \<or> s_state s = SettlementFailed);
          total = sum_rows P s_amount (settlements db)
      in if \<not> in_int64 total then Inl (ErrPg NumericOutOfRange)
         else Inr \<lparr>ex_count = int (length (filter P (settlements db))), ex_raw = total\<rparr>)"

definition in_flight :: "db \<Rightarrow> string \<Rightarrow> string \<Rightarrow> int" where
  "in_flight db a d = sum_rows (\<lambda>s. s_buyer s = a \<and> open_settlement (s_state s) \<and> s_delegate s = d) s_amount (settlements db)"

text \<open>\<^verbatim>\<open>GROUP BY delegate\<close>: one entry per delegate with an open batch.\<close>

definition InFlightSettlements :: "db \<Rightarrow> string \<Rightarrow> (string \<times> int64) list res" where
  "InFlightSettlements db a =
     (let out = map (\<lambda>d. (d, in_flight db a d))
            (remdups (map s_delegate (filter (\<lambda>s. s_buyer s = a \<and> open_settlement (s_state s)) (settlements db))))
      in if list_all (\<lambda>(d, n). in_int64 n) out then Inr out else Inl (ErrPg NumericOutOfRange))"

section \<open>The report\<close>

record Reconciler =
  rec_authority :: string
  rec_mint :: string
  rec_token_program :: string
  rec_hash :: hash
  rec_on_curve :: "bytes \<Rightarrow> bool"

definition NewReconciler :: "hash \<Rightarrow> (bytes \<Rightarrow> bool) \<Rightarrow> string \<Rightarrow> string \<Rightarrow> string \<Rightarrow> Reconciler res" where
  "NewReconciler hash on_curve authority mint tokenProgram =
     (if authority = [] then Inl (ErrMsg ''delegations: reconciler requires the settlement authority'')
      else if mint = [] \<or> tokenProgram = [] then Inl (ErrMsg ''delegations: reconciler requires mint and token program'')
      else Inr \<lparr>rec_authority = authority, rec_mint = mint, rec_token_program = tokenProgram, rec_hash = hash, rec_on_curve = on_curve\<rparr>)"

type_synonym token_reader = "string \<Rightarrow> (TokenDelegate \<times> bool) res"

definition observeChain :: "Reconciler \<Rightarrow> token_reader \<Rightarrow> db \<Rightarrow> string \<Rightarrow> (nat \<times> string) res" where
  "observeChain r td db a =
     (case PrimaryWalletForAccount db a of
        None \<Rightarrow> Inr (0, [])
      | Some wallet \<Rightarrow>
          if wallet = [] then Inr (0, [])
          else rbind (DecodeBase58 wallet PublicKeyBytes) (\<lambda>walletBytes.
               rbind (DecodeBase58 (rec_mint r) PublicKeyBytes) (\<lambda>mintBytes.
               rbind (DecodeBase58 (rec_token_program r) PublicKeyBytes) (\<lambda>tpBytes.
               rbind (AssociatedTokenAddress (rec_hash r) (rec_on_curve r) walletBytes mintBytes tpBytes) (\<lambda>ataBytes.
               rbind (td (EncodeBase58 ataBytes)) (\<lambda>(t, exists).
                 if \<not> exists then Inr (0, []) else Inr (td_amount t, td_delegate t)))))))"

definition cross_check :: "(string \<times> int64) list \<Rightarrow> (nat \<times> string) res \<Rightarrow> Allowance \<Rightarrow> AllowanceCrossCheck" where
  "cross_check inFlight chain al =
     (let inf = (case map_of inFlight (al_delegate al) of None \<Rightarrow> 0 | Some n \<Rightarrow> n);
          expected = wrap64 (al_raw al - inf);
          observed = (case chain of Inl _ \<Rightarrow> None
                      | Inr (amount, del) \<Rightarrow> Some (if del = al_delegate al then wrap64 (int amount) else 0))
      in \<lparr>xc_delegate = al_delegate al, xc_active = (al_revoked_at al = None), xc_registry = al_raw al, xc_in_flight = inf,
          xc_expected = expected, xc_observed = observed, xc_divergence = map_option (\<lambda>n. wrap64 (n - expected)) observed\<rparr>)"

definition Report :: "Reconciler \<Rightarrow> hash \<Rightarrow> (instant \<Rightarrow> string) \<Rightarrow> token_reader \<Rightarrow> db \<Rightarrow> string \<Rightarrow> ReconciliationReport res" where
  "Report r H ft td db a =
     rbind (ReconcileAccount db a) (\<lambda>ledger.
       let merkle = AccountMerkleSummary H ft db a;
           allowances = AccountAllowances db a
       in rbind (InFlightSettlements db a) (\<lambda>inFlight.
          rbind (SettlementExposure db a) (\<lambda>exposure.
            Inr \<lparr>rr_account = a, rr_ledger = ledger, rr_merkle = merkle,
                 rr_allowances = map (cross_check inFlight (observeChain r td db a)) allowances, rr_exposure = exposure\<rparr>)))"

text \<open>A batch of 100 in flight out of a delegation of 1000, which the chain still shows in full.\<close>

definition demo_reconciler :: Reconciler where
  "demo_reconciler = \<lparr>rec_authority = ''auth'', rec_mint = ''3'', rec_token_program = ''4'', rec_hash = take 32, rec_on_curve = (\<lambda>b. False)\<rparr>"

definition demo_reader :: token_reader where
  "demo_reader ata = Inr (\<lparr>td_delegate = ''auth'', td_amount = 1000, td_slot = 7\<rparr>, True)"

definition demo_in_flight :: db where
  "demo_in_flight = empty_db\<lparr>user_wallets := [demo_wallet_row 1 ''b1'' ''5''], allowances := [demo_allowance ''b1'' 900],
     settlements := [new_settlement 1 ''ref'' ''auth'' \<lparr>sb_buyer = ''b1'', sb_source = ''s'', sb_dest = ''d'', sb_amount = 100, sb_legs = [1], sb_fee = False\<rparr> ''x'' 1],
     next_settlement_id := 2\<rparr>"

section \<open>Paging is complete\<close>

lemma sorted_filter_ids: "sorted_wrt (<) (map l_id rows) \<Longrightarrow> sorted_wrt (<) (map l_id (filter P rows))"
  by (induction rows) auto

lemma rows_after_sorted:
  assumes "sorted_wrt (<) (map l_id (ledger db))"
  shows "rows_after db a after = filter (\<lambda>e. l_account e = a \<and> l_id e > after) (ledger db)"
    "sorted_wrt (<) (map l_id (rows_after db a after))"
proof -
  let ?xs = "filter (\<lambda>e. l_account e = a \<and> l_id e > after) (ledger db)"
  have s: "sorted_wrt (<) (map l_id ?xs)" using sorted_filter_ids [OF assms] .
  then have "sorted (map l_id ?xs)" by (rule strict_sorted_imp_sorted)
  then show "rows_after db a after = ?xs" by (simp add: rows_after_def sorted_sort_id sort_key_id_if_sorted)
  with s show "sorted_wrt (<) (map l_id (rows_after db a after))" by simp
qed

lemma last_greatest: "sorted (map f ys) \<Longrightarrow> e \<in> set ys \<Longrightarrow> f e \<le> f (last ys)"
  by (induction ys rule: rev_induct) (auto simp: sorted_append)

lemma filter_beyond:
  assumes "sorted_wrt (<) (map l_id xs)" and "0 < n" "n \<le> length xs"
  shows "filter (\<lambda>e. l_id (last (take n xs)) < l_id e) xs = drop n xs"
proof -
  have split: "xs = take n xs @ drop n xs" by simp
  have s: "sorted_wrt (<) (map l_id (take n xs) @ map l_id (drop n xs))" using assms(1) by (metis map_append append_take_drop_id)
  have last: "last (take n xs) \<in> set (take n xs)" using assms(2,3) by (intro last_in_set) auto
  have "sorted (map l_id (take n xs))" using s by (auto simp: sorted_wrt_append intro: strict_sorted_imp_sorted)
  then have "\<not> l_id (last (take n xs)) < l_id e" if "e \<in> set (take n xs)" for e using last_greatest that by fastforce
  moreover have "l_id (last (take n xs)) < l_id e" if "e \<in> set (drop n xs)" for e
    using s that last by (auto simp: sorted_wrt_append)
  ultimately have "filter (\<lambda>e. l_id (last (take n xs)) < l_id e) (take n xs @ drop n xs) = drop n xs"
    by (simp only: filter_append) (simp add: filter_empty_conv filter_id_conv)
  then show ?thesis by simp
qed

lemma rows_after_last:
  assumes "sorted_wrt (<) (map l_id (ledger db))" and "0 < n" "n \<le> length (rows_after db a after)"
  shows "rows_after db a (l_id (last (take n (rows_after db a after)))) = drop n (rows_after db a after)"
proof -
  let ?xs = "rows_after db a after" and ?m = "l_id (last (take n (rows_after db a after)))"
  have "last (take n ?xs) \<in> set (take n ?xs)" using assms(2,3) by (intro last_in_set) auto
  then have "after < ?m" using rows_after_sorted(1) [OF assms(1)] by (auto dest!: in_set_takeD)
  then have "rows_after db a ?m = filter (\<lambda>e. ?m < l_id e) ?xs"
    by (auto simp: rows_after_sorted(1) [OF assms(1)] intro: filter_cong)
  also have "\<dots> = drop n ?xs" by (rule filter_beyond [OF rows_after_sorted(2) [OF assms(1)] assms(2,3)])
  finally show ?thesis .
qed

lemma page_leaves_complete:
  assumes "sorted_wrt (<) (map l_id (ledger db))"
  shows "page_leaves db a after = map leaf_row (rows_after db a after)"
  using assms
proof (induction db a after rule: page_leaves.induct)
  case (1 db a after)
  let ?xs = "rows_after db a after"
  define page where "page = LedgerLeafPage db a after 1000"
  have p: "page = map leaf_row (take 1000 ?xs)" by (simp add: page_def LedgerLeafPage_def)
  note u = page_leaves.simps [of db a after, unfolded Let_def, folded page_def]
  show ?case
  proof (cases "length ?xs < 1000")
    case True
    then show ?thesis using u p by (cases "?xs = []") auto
  next
    case False
    then have ne: "page \<noteq> []" "\<not> length page < 1000" and xs: "take 1000 ?xs \<noteq> []" using p by auto
    have id: "li_id (last page) = l_id (last (take 1000 ?xs))" unfolding p last_map [OF xs] by (simp add: leaf_row_def)
    have "page_leaves db a (li_id (last page)) = map leaf_row (rows_after db a (li_id (last page)))"
      using "1.IH" [OF page_def ne(1) ne(2)] "1.prems" by simp
    also have "\<dots> = map leaf_row (drop 1000 ?xs)"
      unfolding id using rows_after_last [OF "1.prems"] False by simp
    finally show ?thesis using u ne p by (simp flip: map_append)
  qed
qed

lemma position_by_count:
  assumes "sorted_wrt (<) (map l_id xs)" and "i < length xs"
  shows "length (filter (\<lambda>e. l_id e < l_id (xs ! i)) xs) = i"
proof -
  have s: "sorted_wrt (<) (map l_id (take i xs) @ map l_id (drop i xs))" using assms(1) by (metis map_append append_take_drop_id)
  have d: "drop i xs = xs ! i # drop (Suc i) xs" using assms(2) by (simp add: Cons_nth_drop_Suc)
  have "filter (\<lambda>e. l_id e < l_id (xs ! i)) (take i xs) = take i xs"
    using s d by (intro filter_True) (auto simp: sorted_wrt_append)
  moreover have "filter (\<lambda>e. l_id e < l_id (xs ! i)) (drop i xs) = []"
    using s d by (intro filter_False) (auto simp: sorted_wrt_append)
  ultimately have "filter (\<lambda>e. l_id e < l_id (xs ! i)) (take i xs @ drop i xs) = take i xs"
    by (simp only: filter_append) simp
  with assms(2) show ?thesis by simp
qed

lemma LedgerLeafIndex_position:
  assumes "ledger_ok db" and "\<forall>e \<in> set (ledger db). 0 < l_id e" and "i < length (rows_after db a 0)"
  shows "LedgerLeafIndex db a (l_id (rows_after db a 0 ! i)) = (int i, True)"
proof -
  let ?xs = "rows_after db a 0" and ?e = "rows_after db a 0 ! i"
  have s: "sorted_wrt (<) (map l_id (ledger db))" using assms(1) by (simp add: ledger_ok_def)
  note xs = rows_after_sorted(1) [OF s, of a 0]
  have e: "?e \<in> set ?xs" using assms(3) by simp
  have "filter (\<lambda>e. l_account e = a \<and> l_id e < l_id ?e) (ledger db) = filter (\<lambda>e. l_id e < l_id ?e) ?xs"
    using assms(2) by (auto simp: xs intro: filter_cong)
  then have "length (filter (\<lambda>e. l_account e = a \<and> l_id e < l_id ?e) (ledger db)) = i"
    using position_by_count [OF rows_after_sorted(2) [OF s] assms(3)] by simp
  moreover have "list_ex (\<lambda>e. l_account e = a \<and> l_id e = l_id ?e) (ledger db)"
    using e unfolding xs by (auto simp: list_ex_iff)
  ultimately show ?thesis by (simp add: LedgerLeafIndex_def)
qed

section \<open>In-flight amounts\<close>

lemma in_flight_lookup:
  assumes "InFlightSettlements db a = Inr infl"
  shows "(case map_of infl d of None \<Rightarrow> 0 | Some n \<Rightarrow> n) = in_flight db a d" and "map_of infl d \<noteq> None \<Longrightarrow> in_int64 (in_flight db a d)"
proof -
  let ?ds = "remdups (map s_delegate (filter (\<lambda>s. s_buyer s = a \<and> open_settlement (s_state s)) (settlements db)))"
  from assms have infl: "infl = map (\<lambda>d. (d, in_flight db a d)) ?ds" and fit: "list_all (\<lambda>(d, n). in_int64 n) infl"
    by (auto simp: InFlightSettlements_def Let_def split: if_splits)
  have m: "map_of infl d = (if d \<in> set ?ds then Some (in_flight db a d) else None)"
    unfolding infl by (simp add: map_of_map_restrict restrict_map_def)
  have "in_flight db a d = 0" if "d \<notin> set ?ds"
    using that unfolding in_flight_def by (intro sum_rows_zero) auto
  with m show "(case map_of infl d of None \<Rightarrow> 0 | Some n \<Rightarrow> n) = in_flight db a d" by auto
  show "in_int64 (in_flight db a d)" if "map_of infl d \<noteq> None"
    using that m fit by (auto simp: infl list_all_iff split: if_splits)
qed

section \<open>Properties\<close>

text \<open>
  C37 (the proof of a ledger row verifies). For every row of an account, \<^verbatim>\<open>MerkleProofForLedgerRow\<close> returns the leaf of exactly that row with
  a path that \<^verbatim>\<open>VerifyMerklePath\<close> accepts at the row's index against the root and the leaf count that \<^verbatim>\<open>AccountMerkleSummary\<close> publishes, and the
  count is the number of the account's rows, however many pages the ledger has; for any other id it reports \<^verbatim>\<open>ErrNotFound\<close>.
\<close>

theorem MerkleProofForLedgerRow_verifies:
  fixes H ft a
  assumes "ledger_ok db" and "\<forall>e \<in> set (ledger db). 0 < l_id e"
  defines "summary \<equiv> AccountMerkleSummary H ft db a"
  shows "(\<forall>e \<in> set (ledger db). l_account e = a \<longrightarrow>
      (\<exists>path i. LedgerLeafIndex db a (l_id e) = (i, True) \<and>
         MerkleProofForLedgerRow H ft db a (l_id e) = Inr (LedgerLeaf H ft (leaf_row e), path, ms_root summary, ms_count summary) \<and>
         VerifyMerklePath H (LedgerLeaf H ft (leaf_row e)) path i (ms_count summary) (ms_root summary))) \<and>
    ms_count summary = int (length (filter (\<lambda>e. l_account e = a) (ledger db))) \<and>
    (\<forall>k. (\<forall>e \<in> set (ledger db). l_account e = a \<longrightarrow> l_id e \<noteq> k) \<longrightarrow> MerkleProofForLedgerRow H ft db a k = Inl ErrNotFound)"
proof -
  have s: "sorted_wrt (<) (map l_id (ledger db))" using assms(1) by (simp add: ledger_ok_def)
  define xs where "xs = rows_after db a 0"
  define leaves where "leaves = map (LedgerLeaf H ft) (map leaf_row xs)"
  have pl: "page_leaves db a 0 = map leaf_row xs" unfolding xs_def by (rule page_leaves_complete [OF s])
  have xs: "xs = filter (\<lambda>e. l_account e = a) (ledger db)"
    unfolding xs_def rows_after_sorted(1) [OF s] using assms(2) by (auto intro: filter_cong)
  have sm: "ms_root summary = MerkleRoot H leaves" "ms_count summary = int (length leaves)"
    by (simp_all add: summary_def AccountMerkleSummary_def pl leaves_def Let_def)
  have "\<exists>path i. LedgerLeafIndex db a (l_id e) = (i, True) \<and>
         MerkleProofForLedgerRow H ft db a (l_id e) = Inr (LedgerLeaf H ft (leaf_row e), path, ms_root summary, ms_count summary) \<and>
         VerifyMerklePath H (LedgerLeaf H ft (leaf_row e)) path i (ms_count summary) (ms_root summary)"
    if "e \<in> set (ledger db)" "l_account e = a" for e
  proof -
    from that have "e \<in> set xs" by (simp add: xs)
    then obtain i where i: "i < length xs" "xs ! i = e" by (auto simp: in_set_conv_nth)
    have ix: "LedgerLeafIndex db a (l_id e) = (int i, True)"
      using LedgerLeafIndex_position [OF assms(1,2), of i a] i unfolding xs_def by simp
    have n: "i < length leaves" "leaves ! i = LedgerLeaf H ft (leaf_row e)" using i by (simp_all add: leaves_def)
    have v: "verify_loop H (leaves ! i) (path_loop H leaves i) i (length leaves) 0 = merkle_up H leaves ! 0"
      by (rule verify_path_loop [OF n(1)]) simp
    have "MerkleProofForLedgerRow H ft db a (l_id e) =
        Inr (LedgerLeaf H ft (leaf_row e), path_loop H leaves i, ms_root summary, ms_count summary)"
      using n i(2) by (simp add: MerkleProofForLedgerRow_def ix pl MerklePath_def sm leaves_def Let_def)
    moreover have "VerifyMerklePath H (LedgerLeaf H ft (leaf_row e)) (path_loop H leaves i) (int i) (ms_count summary) (ms_root summary)"
      using n v by (auto simp: VerifyMerklePath_def sm MerkleRoot_def)
    ultimately show ?thesis using ix by blast
  qed
  moreover have "MerkleProofForLedgerRow H ft db a k = Inl ErrNotFound" if "\<forall>e \<in> set (ledger db). l_account e = a \<longrightarrow> l_id e \<noteq> k" for k
    using that by (auto simp: MerkleProofForLedgerRow_def LedgerLeafIndex_def list_ex_iff)
  ultimately show ?thesis using sm(2) by (simp add: leaves_def xs)
qed

theorem MerkleProofForLedgerRow_verifies_witness:
  "\<exists>path i. MerkleProofForLedgerRow (take 1) (\<lambda>t. []) demo_market ''s1'' 3 =
      Inr (LedgerLeaf (take 1) (\<lambda>t. []) (leaf_row (demo_earn 3 ''b2'' 90 ''r2'')), path, ms_root (AccountMerkleSummary (take 1) (\<lambda>t. []) demo_market ''s1''), 2) \<and>
    VerifyMerklePath (take 1) (LedgerLeaf (take 1) (\<lambda>t. []) (leaf_row (demo_earn 3 ''b2'' 90 ''r2''))) path i 2
      (ms_root (AccountMerkleSummary (take 1) (\<lambda>t. []) demo_market ''s1''))"
proof -
  have ok: "ledger_ok demo_market" "\<forall>e \<in> set (ledger demo_market). 0 < l_id e" by code_simp+
  have e: "demo_earn 3 ''b2'' 90 ''r2'' \<in> set (ledger demo_market)" "l_account (demo_earn 3 ''b2'' 90 ''r2'') = ''s1''" "l_id (demo_earn 3 ''b2'' 90 ''r2'') = 3"
    "length (filter (\<lambda>e. l_account e = ''s1'') (ledger demo_market)) = 2" by code_simp+
  from MerkleProofForLedgerRow_verifies [OF ok, where ft = "\<lambda>t. []" and H = "take 1" and a = "''s1''"] e show ?thesis by (metis of_nat_numeral)
qed

text \<open>
  Batches in flight show up as divergence. The claim of a batch takes its amount out of the registry while the chain still holds the
  full delegation, so the chain reads the registry plus what is in flight. The report expects the registry minus what is in flight: on a
  chain that agrees with the registry in that sense the divergence it publishes is twice the in-flight amount, and zero only when nothing is in flight.
\<close>

theorem Report_divergence:
  assumes "Report r H ft td db a = Inr rep" and "al \<in> set (allowances db)" "al_account al = a" "0 \<le> al_raw al"
    and "observeChain r td db a = Inr (amount, al_delegate al)" and "int amount = al_raw al + in_flight db a (al_delegate al)"
    and "0 \<le> in_flight db a (al_delegate al)" "int amount \<le> max_int64 div 2"
  shows "\<exists>row \<in> set (rr_allowances rep). xc_delegate row = al_delegate al \<and> xc_observed row = Some (int amount) \<and>
    xc_divergence row = Some (2 * in_flight db a (al_delegate al))"
proof -
  from assms(1) obtain infl where infl: "InFlightSettlements db a = Inr infl"
    and rows: "rr_allowances rep = map (cross_check infl (observeChain r td db a)) (AccountAllowances db a)"
    by (auto simp: Report_def res_simps Let_def)
  have al: "al \<in> set (AccountAllowances db a)" using assms(2,3) by (simp add: AccountAllowances_def)
  let ?f = "in_flight db a (al_delegate al)"
  have w: "wrap64 (al_raw al - ?f) = al_raw al - ?f" "wrap64 (int amount) = int amount" "wrap64 (int amount - (al_raw al - ?f)) = 2 * ?f"
    using assms(4,6-8) by (simp_all add: wrap64_id in_int64_def)
  have "cross_check infl (observeChain r td db a) al \<in> set (rr_allowances rep)" using al rows by simp
  then show ?thesis
    by (rule rev_bexI) (simp add: cross_check_def assms(5) in_flight_lookup(1) [OF infl] w Let_def)
qed

theorem Report_divergence_witness:
  "\<exists>rep. Report demo_reconciler (take 32) (\<lambda>t. []) demo_reader demo_in_flight ''b1'' = Inr rep \<and>
     (\<exists>row \<in> set (rr_allowances rep). xc_divergence row = Some 200)"
proof -
  have ok: "(case Report demo_reconciler (take 32) (\<lambda>t. []) demo_reader demo_in_flight ''b1'' of Inl _ \<Rightarrow> False | Inr _ \<Rightarrow> True)" by code_simp
  then obtain rep where rep: "Report demo_reconciler (take 32) (\<lambda>t. []) demo_reader demo_in_flight ''b1'' = Inr rep" by (auto split: sum.splits)
  have f: "in_flight demo_in_flight ''b1'' ''auth'' = 100" "observeChain demo_reconciler demo_reader demo_in_flight ''b1'' = Inr (1000, ''auth'')"
    "demo_allowance ''b1'' 900 \<in> set (allowances demo_in_flight)" by code_simp+
  have "al_account (demo_allowance ''b1'' 900) = ''b1''" "al_delegate (demo_allowance ''b1'' 900) = ''auth''" "al_raw (demo_allowance ''b1'' 900) = 900"
    by (simp_all add: demo_allowance_def)
  with Report_divergence [OF rep f(3), of 1000] f rep show ?thesis by auto
qed

end
