(* ===== verification/Delegation_Worker.thy ===== *)
theory Delegation_Worker
  imports Reconciliation Withdraw_Worker
begin

text \<open>
  The two workers of \<^verbatim>\<open>internal/delegations\<close>. The poller (\<^verbatim>\<open>poller.go\<close>) reads the token account of every linked wallet and writes
  what it delegates to the settlement authority into the registry. The settlement worker (\<^verbatim>\<open>worker.go\<close>) claims batches and moves
  each open batch by one transition, as the withdrawal worker does. Clock, cancellation, chain and signing key are parameters as there.
\<close>

section \<open>The poller\<close>

record Poller =
  po_authority :: string
  po_mint :: string
  po_token_program :: string
  po_hash :: hash
  po_on_curve :: "bytes \<Rightarrow> bool"

definition NewPoller :: "hash \<Rightarrow> (bytes \<Rightarrow> bool) \<Rightarrow> string \<Rightarrow> string \<Rightarrow> string \<Rightarrow> Poller res" where
  "NewPoller hash on_curve authority mint tokenProgram =
     (if authority = [] then Inl (ErrMsg ''delegations: settlement authority is required'')
      else if mint = [] \<or> tokenProgram = [] then Inl (ErrMsg ''delegations: mint and token program are required'')
      else Inr \<lparr>po_authority = authority, po_mint = mint, po_token_program = tokenProgram, po_hash = hash, po_on_curve = on_curve\<rparr>)"

definition observation :: "Poller \<Rightarrow> instant \<Rightarrow> string \<Rightarrow> string \<Rightarrow> int64 \<Rightarrow> nat \<Rightarrow> AllowanceChange" where
  "observation p now a wallet amount slot =
     \<lparr>ch_account = a, ch_delegate = po_authority p, ch_raw = amount, ch_observed_at = now,
      ch_ref = ''obs:'' @ wallet @ '':'' @ itoa (int slot)\<rparr>"

text \<open>The token account of a wallet, and what the chain says of it: \<^verbatim>\<open>td.Slot\<close> is zero when there is no account.\<close>

definition read_wallet :: "Poller \<Rightarrow> token_reader \<Rightarrow> string \<Rightarrow> (TokenDelegate \<times> bool) res" where
  "read_wallet p td wallet =
     rbind (DecodeBase58 wallet PublicKeyBytes) (\<lambda>walletBytes.
     rbind (DecodeBase58 (po_mint p) PublicKeyBytes) (\<lambda>mintBytes.
     rbind (DecodeBase58 (po_token_program p) PublicKeyBytes) (\<lambda>tpBytes.
     rbind (AssociatedTokenAddress (po_hash p) (po_on_curve p) walletBytes mintBytes tpBytes) (\<lambda>ataBytes.
       td (EncodeBase58 ataBytes)))))"

definition observeWallet :: "Poller \<Rightarrow> token_reader \<Rightarrow> instant \<Rightarrow> db \<Rightarrow> string \<times> string \<Rightarrow> (db \<times> nat) res" where
  "observeWallet p td now db link =
     (case link of (a, wallet) \<Rightarrow>
        rbind (read_wallet p td wallet) (\<lambda>(t, ok).
          if ok \<and> td_delegate t = po_authority p
          then rbind (exec_allowance (AlObserve (observation p now a wallet (wrap64 (int (td_amount t))) (td_slot t)) now) db)
                 (\<lambda>(db', _). Inr (db', 1))
          else if list_ex (\<lambda>al. al_delegate al = po_authority p \<and> Allowance_Active al) (AccountAllowances db a)
          then rbind (exec_allowance (AlObserve (observation p now a wallet 0 (td_slot t)) now) db) (\<lambda>(db', _). Inr (db', 1))
          else Inr (db, 0)))"

definition poll_step :: "Poller \<Rightarrow> token_reader \<Rightarrow> instant \<Rightarrow> string \<times> string \<Rightarrow> db \<Rightarrow> db \<times> nat" where
  "poll_step p td now link db = (case observeWallet p td now db link of Inl _ \<Rightarrow> (db, 0) | Inr r \<Rightarrow> r)"

definition PollRunOnce :: "Poller \<Rightarrow> token_reader \<Rightarrow> (string \<times> string \<Rightarrow> bool) \<Rightarrow> instant \<Rightarrow> db \<Rightarrow> db \<times> nat" where
  "PollRunOnce p td alive now db = pass_loop alive (poll_step p td now) (LinkedWalletAccounts db) db 0"

section \<open>The settlement worker\<close>

record SettlementWorker =
  sw_authority :: string
  sw_pub :: bytes
  sw_mint :: bytes
  sw_program :: bytes
  sw_treasury :: string
  sw_decimals :: byte
  sw_claim_limit :: int64
  sw_sweep_limit :: int64
  sw_max_age :: int
  sw_sign :: "bytes \<Rightarrow> bytes"
  sw_hash :: hash
  sw_on_curve :: "bytes \<Rightarrow> bool"

definition NewSettlementWorker ::
  "hash \<Rightarrow> (bytes \<Rightarrow> bool) \<Rightarrow> (bytes \<Rightarrow> bytes) \<Rightarrow> bytes \<Rightarrow> nat \<Rightarrow> string \<Rightarrow> string \<Rightarrow> string \<Rightarrow> string \<Rightarrow> int \<Rightarrow> int \<Rightarrow> SettlementWorker res"
where
  "NewSettlementWorker hash on_curve sign pub key_len authority mint tokenProgram treasury decimals blockhashMaxAge =
     (if key_len \<noteq> 64 then Inl (ErrMsg ''delegations: settlement keypair is required'')
      else if authority = [] then Inl (ErrMsg ''delegations: settlement authority is required'')
      else if EncodeBase58 pub \<noteq> authority then Inl (ErrMsg ''delegations: settlement keypair does not match authority'')
      else rbind (DecodeBase58 mint PublicKeyBytes) (\<lambda>m.
           rbind (DecodeBase58 tokenProgram PublicKeyBytes) (\<lambda>tp.
             if decimals < 0 \<or> decimals > 255 then Inl (ErrMsg ''delegations: decimals out of range'')
             else Inr \<lparr>sw_authority = authority, sw_pub = pub, sw_mint = m, sw_program = tp, sw_treasury = treasury,
                  sw_decimals = of_int decimals, sw_claim_limit = 500, sw_sweep_limit = 20,
                  sw_max_age = (if blockhashMaxAge \<le> 0 then 90 else blockhashMaxAge), sw_sign = sign, sw_hash = hash, sw_on_curve = on_curve\<rparr>)))"

definition signSettlement :: "SettlementWorker \<Rightarrow> chain \<Rightarrow> instant \<Rightarrow> db \<Rightarrow> DelegationSettlement \<Rightarrow> db \<times> billing_error option" where
  "signSettlement s ch now db b =
     (case DecodeBase58 (s_source_ata b) PublicKeyBytes of
        Inl _ \<Rightarrow> apply_tx exec_settlement (StRestore (s_id b) ''invalid source ata'') db
      | Inr source \<Rightarrow>
          (case DecodeBase58 (s_dest_ata b) PublicKeyBytes of
             Inl _ \<Rightarrow> apply_tx exec_settlement (StRestore (s_id b) ''invalid destination ata'') db
           | Inr destATA \<Rightarrow>
               (case ch_exists ch (s_dest_ata b) of
                  Inl e \<Rightarrow> (db, Some e)
                | Inr exists \<Rightarrow>
                    (case ch_blockhash ch of
                       Inl e \<Rightarrow> (db, Some e)
                     | Inr (bh, lastValidBlockHeight) \<Rightarrow>
                         (let message = buildTransferCheckedMessage source (sw_mint s) destATA (sw_pub s) (sw_program s) (\<not> exists) bh
                                (s_amount b mod 18446744073709551616) (sw_decimals s);
                              sig = sw_sign s message;
                              wire = SerializeTransaction sig message
                          in apply_tx exec_settlement (StSigned (s_id b) (EncodeToString wire) (EncodeBase58 sig) (EncodeBase58 bh)
                               lastValidBlockHeight (now + sw_max_age s)) db)))))"

definition broadcastSettlement :: "chain \<Rightarrow> db \<Rightarrow> DelegationSettlement \<Rightarrow> db \<times> billing_error option" where
  "broadcastSettlement ch db b =
     (if s_signed_wire b = [] then (db, Some (ErrMsg ''no signed wire''))
      else case DecodeString (s_signed_wire b) of
             None \<Rightarrow> apply_tx exec_settlement (StRestore (s_id b) ''corrupt signed wire'') db
           | Some wire \<Rightarrow>
               (case ch_send ch wire of
                  Inr _ \<Rightarrow> apply_tx exec_settlement (StBroadcast (s_id b)) db
                | Inl e \<Rightarrow>
                    if landed_error e then apply_tx exec_settlement (StBroadcast (s_id b)) db
                    else if expired_error e then apply_tx exec_settlement (StRestore (s_id b) ''blockhash_expired'') db
                    else (db, Some e)))"

definition finalizeSettlement_or_restore :: "chain \<Rightarrow> db \<Rightarrow> DelegationSettlement \<Rightarrow> db \<times> billing_error option" where
  "finalizeSettlement_or_restore ch db b =
     (if s_signature b = [] then (db, Some (ErrMsg ''no signature to finalize''))
      else case ch_statuses ch [s_signature b] of
             Inl e \<Rightarrow> (db, Some e)
           | Inr statuses \<Rightarrow>
               (let st = (case statuses of [] \<Rightarrow> None | s # _ \<Rightarrow> s)
                in case st of
                     Some v \<Rightarrow>
                       if Finalized v then apply_tx exec_settlement (StFinalize (s_id b)) db
                       else if sv_err v then apply_tx exec_settlement (StRestore (s_id b) ''tx_failed'') db
                       else (db, Some (ErrMsg ''pending''))
                   | None \<Rightarrow>
                       (case s_last_valid b of
                          None \<Rightarrow> (db, Some (ErrMsg ''pending''))
                        | Some lastValid \<Rightarrow>
                            (case ch_height ch of
                               Inl e \<Rightarrow> (db, Some e)
                             | Inr height \<Rightarrow>
                                 if int height > lastValid then apply_tx exec_settlement (StRestore (s_id b) ''blockhash_expired_unconfirmed'') db
                                 else (db, Some (ErrMsg ''pending''))))))"

fun advance_settlement_state ::
  "SettlementWorker \<Rightarrow> chain \<Rightarrow> instant \<Rightarrow> db \<Rightarrow> DelegationSettlement \<Rightarrow> SettlementState \<Rightarrow> db \<times> billing_error option"
where
  "advance_settlement_state s ch now db b SettlementPending = signSettlement s ch now db b"
| "advance_settlement_state s ch now db b SettlementSigned = broadcastSettlement ch db b"
| "advance_settlement_state s ch now db b SettlementBroadcast = finalizeSettlement_or_restore ch db b"
| "advance_settlement_state s ch now db b _ = (db, None)"

definition advance_settlement :: "SettlementWorker \<Rightarrow> chain \<Rightarrow> instant \<Rightarrow> db \<Rightarrow> DelegationSettlement \<Rightarrow> db \<times> billing_error option" where
  "advance_settlement s ch now db b = advance_settlement_state s ch now db b (s_state b)"

definition settlement_step :: "SettlementWorker \<Rightarrow> (int64 \<Rightarrow> chain) \<Rightarrow> instant \<Rightarrow> DelegationSettlement \<Rightarrow> db \<Rightarrow> db \<times> nat" where
  "settlement_step s chs now b db =
     (case advance_settlement s (chs (s_id b)) now db b of (db1, Some _) \<Rightarrow> (db1, 0) | (db1, None) \<Rightarrow> (db1, 1))"

definition worker_params :: "SettlementWorker \<Rightarrow> SettlementClaimParams" where
  "worker_params s = \<lparr>cp_delegate = sw_authority s, cp_mint = EncodeBase58 (sw_mint s), cp_token_program = EncodeBase58 (sw_program s),
     cp_treasury = sw_treasury s, cp_leg_limit = sw_claim_limit s\<rparr>"

definition SettlementRunOnce ::
  "SettlementWorker \<Rightarrow> (int64 \<Rightarrow> chain) \<Rightarrow> (int64 \<Rightarrow> bool) \<Rightarrow> (int64 \<Rightarrow> bool) \<Rightarrow> instant \<Rightarrow> db \<Rightarrow> db \<times> nat res"
where
  "SettlementRunOnce s chs locked alive now db =
     (case ClaimDelegationSettlements (sw_hash s) (sw_on_curve s) db (worker_params s) now now of
        Inl e \<Rightarrow> (db, Inl e)
      | Inr (db1, _) \<Rightarrow>
          (case pass_loop (\<lambda>b. alive (s_id b)) (settlement_step s chs now) (SweepDelegationSettlements db1 locked (sw_sweep_limit s)) db1 0 of
             (db2, n) \<Rightarrow> (db2, Inr n)))"

section \<open>What the workers promise\<close>


definition settlement_restore_reason :: "chain \<Rightarrow> DelegationSettlement \<Rightarrow> bool" where
  "settlement_restore_reason ch b \<longleftrightarrow>
     (case s_state b of
        SettlementPending \<Rightarrow> (\<exists>e. DecodeBase58 (s_source_ata b) PublicKeyBytes = Inl e) \<or> (\<exists>e. DecodeBase58 (s_dest_ata b) PublicKeyBytes = Inl e)
      | SettlementSigned \<Rightarrow> DecodeString (s_signed_wire b) = None \<or>
          (\<exists>wire e. DecodeString (s_signed_wire b) = Some wire \<and> ch_send ch wire = Inl e \<and> expired_error e)
      | SettlementBroadcast \<Rightarrow>
          (\<exists>v rest. ch_statuses ch [s_signature b] = Inr (Some v # rest) \<and> sv_err v) \<or>
          (\<exists>st lv h. ch_statuses ch [s_signature b] = Inr st \<and> (st = [] \<or> hd st = None) \<and> s_last_valid b = Some lv \<and>
             ch_height ch = Inr h \<and> lv < int h)
      | _ \<Rightarrow> False)"

fun settlement_permitted :: "chain \<Rightarrow> DelegationSettlement \<Rightarrow> settlement_op \<Rightarrow> bool" where
  "settlement_permitted ch b (StSigned i wire sig bh lv ex) = (i = s_id b \<and> s_state b = SettlementPending)"
| "settlement_permitted ch b (StBroadcast i) = (i = s_id b \<and> s_state b = SettlementSigned)"
| "settlement_permitted ch b (StFinalize i) = (i = s_id b \<and> s_state b = SettlementBroadcast)"
| "settlement_permitted ch b (StRestore i reason) = (i = s_id b \<and> settlement_restore_reason ch b)"
| "settlement_permitted ch b _ = False"

text \<open>An account with two wallets: the first delegates 1000, the second has no token account. \<open>slot\<close> is when the node is asked.
  With this hash the token account of a one-byte wallet has the wallet's own name.\<close>

definition demo_poller :: Poller where
  "demo_poller = \<lparr>po_authority = ''auth'', po_mint = ''3'', po_token_program = ''4'', po_hash = take 1, po_on_curve = (\<lambda>b. False)\<rparr>"

definition demo_two_wallets :: db where
  "demo_two_wallets = empty_db\<lparr>user_wallets := [demo_wallet_row 1 ''b1'' ''5'', demo_wallet_row 2 ''b1'' ''6'']\<rparr>"

definition slot_reader :: "nat \<Rightarrow> token_reader" where
  "slot_reader slot ata =
     (if ata = ''5'' then Inr (\<lparr>td_delegate = ''auth'', td_amount = 1000, td_slot = slot\<rparr>, True)
      else Inr (\<lparr>td_delegate = [], td_amount = 0, td_slot = 0\<rparr>, False))"

definition poll_at :: "db \<Rightarrow> nat \<Rightarrow> db" where
  "poll_at db slot = fst (PollRunOnce demo_poller (slot_reader slot) (\<lambda>l. True) (int slot) db)"

definition demo_worker :: SettlementWorker where
  "demo_worker = \<lparr>sw_authority = ''auth'', sw_pub = replicate 32 1, sw_mint = replicate 32 2, sw_program = TokenProgramID, sw_treasury = ''tw'',
     sw_decimals = 9, sw_claim_limit = 500, sw_sweep_limit = 20, sw_max_age = 90, sw_sign = (\<lambda>m. replicate 64 7), sw_hash = (\<lambda>b. replicate 32 9),
     sw_on_curve = (\<lambda>b. False)\<rparr>"

section \<open>Passes are runs of the store\<close>



lemma signSettlement_op: "s_state b = SettlementPending \<Longrightarrow> one_tx exec_settlement (settlement_permitted ch b) db (fst (signSettlement s ch now db b))"
  unfolding signSettlement_def Let_def
  by (auto simp: one_tx_same settlement_restore_reason_def split: sum.splits intro!: one_tx_apply)

lemma broadcastSettlement_op: "s_state b = SettlementSigned \<Longrightarrow> one_tx exec_settlement (settlement_permitted ch b) db (fst (broadcastSettlement ch db b))"
  unfolding broadcastSettlement_def
  by (auto simp: one_tx_same settlement_restore_reason_def split: sum.splits option.splits intro!: one_tx_apply)

lemma finalizeSettlement_op:
  "s_state b = SettlementBroadcast \<Longrightarrow> one_tx exec_settlement (settlement_permitted ch b) db (fst (finalizeSettlement_or_restore ch db b))"
  unfolding finalizeSettlement_or_restore_def Let_def
  by (auto simp: one_tx_same settlement_restore_reason_def split: sum.splits option.splits list.splits intro!: one_tx_apply)

lemma advance_settlement_op: "one_tx exec_settlement (settlement_permitted ch b) db (fst (advance_settlement s ch now db b))"
  by (cases "s_state b")
    (simp_all add: advance_settlement_def signSettlement_op broadcastSettlement_op finalizeSettlement_op one_tx_same)

interpretation st_pass: pass_worker exec_settlement "settlement_step s chs now" for s chs now
proof
  show "\<exists>ops. fst (settlement_step s chs now b db) = run_ops exec_settlement ops db \<and> length ops \<le> 1" for b db
    using one_tx_ops [OF advance_settlement_op [of "chs (s_id b)" b db s now]]
    by (auto simp: settlement_step_def split: prod.splits option.splits)
qed



lemma settlement_run_ops:
  "\<exists>ops. fst (SettlementRunOnce s chs locked alive now db) = run_ops exec_settlement ops db"
proof (cases "ClaimDelegationSettlements (sw_hash s) (sw_on_curve s) db (worker_params s) now now")
  case (Inl e)
  then show ?thesis by (auto simp: SettlementRunOnce_def intro: exI [of _ "[]"])
next
  case (Inr q)
  obtain db1 created where q: "q = (db1, created)" by (cases q)
  let ?ata = "\<lambda>w. destinationATA (sw_hash s) (sw_on_curve s) w (cp_mint (worker_params s)) (cp_token_program (worker_params s))"
  have "claim_with ?ata db (worker_params s) (time_or_now now now) = Inr (db1, created)"
    using Inr q by (auto simp: ClaimDelegationSettlements_def split: if_splits)
  then have c: "exec_settlement (StClaim ?ata (worker_params s) (time_or_now now now)) db = Inr (db1, ())" by simp
  obtain ops where "fst (pass_loop (\<lambda>b. alive (s_id b)) (settlement_step s chs now)
      (SweepDelegationSettlements db1 locked (sw_sweep_limit s)) db1 0) = run_ops exec_settlement ops db1"
    using st_pass.pass_run by blast
  then have "fst (SettlementRunOnce s chs locked alive now db) =
      run_ops exec_settlement (StClaim ?ata (worker_params s) (time_or_now now now) # ops) db"
    unfolding SettlementRunOnce_def Inr q using c by (auto simp del: exec_settlement.simps split: prod.splits)
  then show ?thesis by blast
qed

section \<open>Properties\<close>



text \<open>
  Why an account may link one wallet only (migration 0010 and \<^verbatim>\<open>LinkWallet\<close>): the registry row is per account, so with two linked wallets, of which one delegates 1000 and the other has no token
  account, every pass would observe the first as a grant and the second as a revocation of the same row. The revocation's reference has slot 0 each time, so from the second pass on its ledger leg
  is a known one, the credit is not debited, and each pass would add another 1000 to the credit. The poller relies on the constraint.
\<close>

lemma second_wallet_would_mint_credit:
  "credit_of (poll_at demo_two_wallets 1) ''b1'' = 0 \<and>
   credit_of (poll_at (poll_at demo_two_wallets 1) 2) ''b1'' = 1000 \<and>
   credit_of (poll_at (poll_at (poll_at demo_two_wallets 1) 2) 3) ''b1'' = 2000 \<and>
   registered (poll_at (poll_at (poll_at demo_two_wallets 1) 2) 3) ''b1'' ''auth'' = 0"
proof -
  have "credit_of (poll_at demo_two_wallets 1) ''b1'' = 0" by code_simp
  moreover have "credit_of (poll_at (poll_at demo_two_wallets 1) 2) ''b1'' = 1000" by code_simp
  moreover have "credit_of (poll_at (poll_at (poll_at demo_two_wallets 1) 2) 3) ''b1'' = 2000" by code_simp
  moreover have "registered (poll_at (poll_at (poll_at demo_two_wallets 1) 2) 3) ''b1'' ''auth'' = 0" by code_simp
  ultimately show ?thesis by simp
qed

text \<open>
  C38 (a pass of the settlement worker stays within the buyers' authority). Whatever the chain answers, whichever batches other replicas hold and wherever
  the pass is cancelled, a pass (the claim and one transition per open batch) keeps the settlement invariant, never raises the sum of registry and
  batches of any buyer, moves batches only along their state machine and touches no balance, request or ledger row; and a single transition is
  at most one store transaction, which refunds the allowance only for an undecodable account or wire, a send the node called expired, a failed
  transaction, or an unknown signature past its last valid block height.
\<close>

theorem settlement_pass_safe:
  assumes "settlement_inv db" and "db' = fst (SettlementRunOnce s chs locked alive now db)"
  shows "settlement_inv db' \<and> untouched db' = untouched db \<and> batches_evolve db db' \<and>
    (\<forall>a d. registered db' a d + claimed db' a d \<le> registered db a d + claimed db a d) \<and>
    one_tx exec_settlement (settlement_permitted ch b) db (fst (advance_settlement s ch now db b))"
proof -
  obtain ops where "db' = run_ops exec_settlement ops db" using settlement_run_ops assms(2) by metis
  with st_store.run_keeps [OF assms(1), of ops] advance_settlement_op show ?thesis
    by (auto simp: settlement_rel_def backing_def)
qed

theorem settlement_pass_safe_witness:
  "settlement_inv (fst (SettlementRunOnce demo_worker (\<lambda>i. demo_chain) (\<lambda>i. False) (\<lambda>i. True) 5 demo_market))"
  using settlement_pass_safe [OF demo_market_inv refl] by blast

end
