(* ===== verification/Store_Runs.thy ===== *)
theory Store_Runs
  imports Delegation_Worker
begin

text \<open>
  Every transaction of the billing store as one type of operations, and what holds over every run of them: the invariants of the credit books,
  the deposits, the withdrawals, the registry and the settlement batches are kept together, whichever operations are interleaved and whichever
  of them fail. The claim of settlement batches adds amounts in int64, so the claimable legs of the ledger must fit; the ledger only
  grows, so it is enough that they fit at the end.
\<close>

section \<open>Operations\<close>

datatype store_op =
    OpEnsure string instant
  | OpCaps string Caps instant
  | OpReserve Reservation instant
  | OpSettle string string Usage int64 instant instant
  | OpRelease string string instant instant
  | OpSweep "string \<Rightarrow> bool" instant int64 instant
  | OpInsertDeposit DepositEvent instant
  | OpApplyDeposit string int64 string instant instant
  | OpReconcileDeposits string string instant instant
  | OpCursor string string string
  | OpWithdrawal withdrawal_op
  | OpAllowance allowance_op
  | OpSettlement settlement_op

definition forget :: "(db \<times> 'r) res \<Rightarrow> (db \<times> unit) res" where
  "forget x = rbind x (\<lambda>(db, _). Inr (db, ()))"

fun exec_store :: "store_op \<Rightarrow> db \<Rightarrow> (db \<times> unit) res" where
  "exec_store (OpEnsure a clock) db = EnsureAccountCredit db a clock"
| "exec_store (OpCaps a caps clock) db = forget (SetAccountCaps db a caps clock)"
| "exec_store (OpReserve req clock) db = forget (ReserveBilling db req clock)"
| "exec_store (OpSettle rid peer usage feeBps now clock) db = forget (SettleBilling db rid peer usage feeBps now clock)"
| "exec_store (OpRelease rid reason now clock) db = forget (ReleaseBilling db rid reason now clock)"
| "exec_store (OpSweep locked before limit clock) db = forget (SweepStaleReservations db locked before limit clock)"
| "exec_store (OpInsertDeposit ev clock) db = forget (InsertDepositEvent db ev clock)"
| "exec_store (OpApplyDeposit sig i a now clock) db = forget (ApplyDeposit db sig i a now clock)"
| "exec_store (OpReconcileDeposits wallet a now clock) db = forget (ReconcileDepositsForWallet db wallet a now clock)"
| "exec_store (OpCursor ata from_sig to_sig) db = forget (AdvanceDepositCursor db ata from_sig to_sig)"
| "exec_store (OpWithdrawal op) db = forget (exec_withdrawal op db)"
| "exec_store (OpAllowance op) db = forget (exec_allowance op db)"
| "exec_store (OpSettlement op) db = forget (exec_settlement op db)"

text \<open>Whether an operation observes a delegation of an account: only then may the credit leave the ledger sum behind.\<close>

fun observes :: "string \<Rightarrow> store_op \<Rightarrow> bool" where
  "observes a (OpAllowance (AlObserve ch clock)) = (ch_account ch = a)"
| "observes a _ = False"

fun books_op :: "store_op \<Rightarrow> bool" where
  "books_op (OpCaps _ _ _) = True"
| "books_op (OpReserve _ _) = True"
| "books_op (OpSettle _ _ _ _ _ _) = True"
| "books_op (OpRelease _ _ _ _) = True"
| "books_op (OpSweep _ _ _ _) = True"
| "books_op _ = False"

fun deposit_op :: "store_op \<Rightarrow> bool" where
  "deposit_op (OpInsertDeposit _ _) = True"
| "deposit_op (OpApplyDeposit _ _ _ _ _) = True"
| "deposit_op (OpReconcileDeposits _ _ _ _) = True"
| "deposit_op (OpCursor _ _ _) = True"
| "deposit_op _ = False"

section \<open>Invariant\<close>

definition store_inv :: "db \<Rightarrow> bool" where
  "store_inv db \<longleftrightarrow> billing_inv db \<and> deposit_inv db \<and> withdrawal_inv db \<and> allowances_ok db \<and> settlement_rows_ok db"

text \<open>How the state may change: rows are appended to the ledger, withdrawals and batches only move up their state machines.\<close>

definition evolves :: "db \<Rightarrow> db \<Rightarrow> bool" where
  "evolves db db' \<longleftrightarrow> ledger_ext UNIV db db' \<and> rows_evolve db db' \<and> batches_evolve db db'"

definition withdrawal_tables where
  "withdrawal_tables db = (withdrawals db, next_withdrawal_id db)"

definition settlement_tables where
  "settlement_tables db = (settlements db, settlement_legs db, next_settlement_id db)"

section \<open>Frames\<close>

lemma forget_Inr: "forget x = Inr (db', u) \<Longrightarrow> \<exists>r. x = Inr (db', r)"
  by (auto simp: forget_def res_simps)

lemma withdrawal_inv_frame:
  assumes "withdrawal_inv db" and "withdrawal_tables db' = withdrawal_tables db" and "ledger_ext L db db'"
    and "''withdraw'' \<notin> L" "''restore'' \<notin> L"
  shows "withdrawal_inv db'"
proof -
  have t: "withdrawals db' = withdrawals db" "next_withdrawal_id db' = next_withdrawal_id db"
    using assms(2) by (simp_all add: withdrawal_tables_def)
  have "withdrawal_legs_ok db'"
    using assms(1,4,5) ledger_ext_mem [OF assms(3)] unfolding withdrawal_inv_def withdrawal_legs_ok_def t by metis
  moreover have "withdraw_legs db' a = withdraw_legs db a" for a
    unfolding withdraw_legs_def using assms(4,5) by (intro ledger_ext_sum [OF assms(3)]) (auto simp: is_withdraw_leg_def)
  ultimately show ?thesis using assms(1) by (simp add: withdrawal_inv_def withdrawal_rows_ok_def withdrawn_def t)
qed

lemma settlement_rows_frame: "settlement_tables db' = settlement_tables db \<Longrightarrow> settlement_rows_ok db' = settlement_rows_ok db"
  by (simp add: settlement_tables_def settlement_rows_ok_def)

lemma allowances_frame: "allowances db' = allowances db \<Longrightarrow> allowances_ok db' = allowances_ok db"
  by (simp add: allowances_ok_def)

lemma same_withdrawals_evolve: "withdrawal_tables db' = withdrawal_tables db \<Longrightarrow> rows_evolve db db'"
  by (auto simp: rows_evolve_def withdrawal_tables_def)

lemma same_batches_evolve: "settlement_tables db' = settlement_tables db \<Longrightarrow> batches_evolve db db'"
  by (auto simp: batches_evolve_def settlement_tables_def)

lemma ledger_ext_UNIV: "ledger_ext L db db' \<Longrightarrow> ledger_ext UNIV db db'"
  by (auto simp: ledger_ext_def)

text \<open>The operations on the books and on the deposits leave the other components' tables alone.\<close>

lemma books_store:
  assumes "store_inv db" and "billing_inv db'" and "books_step db db'"
  shows "store_inv db'" "evolves db db'"
proof -
  have t: "deposits db' = deposits db" "allowances db' = allowances db" "withdrawal_tables db' = withdrawal_tables db"
    "settlement_tables db' = settlement_tables db" and ext: "ledger_ext settle_leg_names db db'"
    using assms(3) by (auto simp: books_step_def other_tables_def withdrawal_tables_def settlement_tables_def)
  have "deposit_inv db'" "withdrawal_inv db'"
    using assms(1) deposit_inv_frame [OF _ t(1) ext] withdrawal_inv_frame [OF _ t(3) ext] by (auto simp: store_inv_def settle_leg_names_def)
  with assms(1,2) show "store_inv db'" by (simp add: store_inv_def allowances_frame [OF t(2)] settlement_rows_frame [OF t(4)])
  show "evolves db db'"
    unfolding evolves_def using ledger_ext_UNIV [OF ext] same_withdrawals_evolve [OF t(3)] same_batches_evolve [OF t(4)] by blast
qed

lemma deposit_store:
  assumes "store_inv db" and "billing_inv db'" "deposit_inv db'" and "ledger_ext {''deposit''} db db'"
    and "other_tables db' = other_tables (db\<lparr>deposits := deposits db', deposit_cursors := deposit_cursors db'\<rparr>)"
  shows "store_inv db'" "evolves db db'"
proof -
  have t: "allowances db' = allowances db" "withdrawal_tables db' = withdrawal_tables db" "settlement_tables db' = settlement_tables db"
    using assms(5) by (auto simp: other_tables_def withdrawal_tables_def settlement_tables_def)
  have "withdrawal_inv db'" using assms(1) withdrawal_inv_frame [OF _ t(2) assms(4)] by (auto simp: store_inv_def)
  with assms(1-3) show "store_inv db'" by (simp add: store_inv_def allowances_frame [OF t(1)] settlement_rows_frame [OF t(3)])
  show "evolves db db'"
    unfolding evolves_def using ledger_ext_UNIV [OF assms(4)] same_withdrawals_evolve [OF t(2)] same_batches_evolve [OF t(3)] by blast
qed

section \<open>Deposits without a bound\<close>

lemma credit_loop_keeps:
  "credit_loop db evs a now = Inr db' \<Longrightarrow> billing_inv db \<Longrightarrow> deposit_inv db \<Longrightarrow> distinct (map d_key evs) \<Longrightarrow>
   \<forall>ev \<in> set evs. open_event db ev \<Longrightarrow>
   billing_inv db' \<and> deposit_inv db' \<and> (\<forall>b. drift db' b = drift db b) \<and> ledger_ext {''deposit''} db db' \<and>
   other_tables db' = other_tables (db\<lparr>deposits := deposits db'\<rparr>)"
proof (induction evs arbitrary: db)
  case Nil
  then show ?case by (simp add: ledger_ext_refl)
next
  case (Cons ev evs)
  then obtain db1 ev' where c: "creditDepositLocked db ev a now = Inr (db1, ev')" and rest: "credit_loop db1 evs a now = Inr db'"
    by (auto simp: res_simps)
  note bk = creditDepositLocked_books [OF c]
  have inv: "billing_inv db1" "deposit_inv db1"
    using bk(3) Cons.prems(2) creditDepositLocked_inv [OF Cons.prems(3) _ c] Cons.prems(5) by auto
  have opn: "\<forall>e \<in> set evs. open_event db1 e"
  proof
    fix e assume e: "e \<in> set evs"
    then have "d_key e \<in> d_key ` set evs" "open_event db e" using Cons.prems(5) by auto
    then have "d_key e \<noteq> d_key ev" "open_event db e" using Cons.prems(4) by auto
    then show "open_event db1 e" using bk(6) by (auto simp: open_event_def update_row_def)
  qed
  from Cons.IH [OF rest inv _ opn] Cons.prems(4) bk(2,5,7) show ?case
    by (auto simp: other_tables_def intro: ledger_ext_trans)
qed

lemma ReconcileDeposits_keeps:
  assumes "ReconcileDepositsForWallet db wallet a now clock = Inr (db', n)" and "billing_inv db" "deposit_inv db"
  shows "billing_inv db' \<and> deposit_inv db' \<and> (\<forall>b. drift db' b = drift db b) \<and> ledger_ext {''deposit''} db db' \<and>
    other_tables db' = other_tables (db\<lparr>deposits := deposits db'\<rparr>)"
proof -
  let ?t = "time_or_now clock now" and ?evs = "open_deposits db wallet"
  have d: "distinct (map d_key ?evs)" by (rule open_deposits_distinct [OF assms(3)])
  from assms(1) obtain db1 where 1: "credit_loop db1 ?evs a ?t = Inr db'"
    and or: "db1 = db \<or> (\<exists>c r. applyDelta db a 0 0 ?t = Inr (db1, c, r))"
    by (auto simp: ReconcileDepositsForWallet_def Let_def res_simps split: if_splits)
  have k: "billing_inv db1" "deposit_inv db1" "deposits db1 = deposits db" "\<And>b. drift db1 b = drift db b" "ledger db1 = ledger db"
    "other_tables db1 = other_tables db"
    using or touch_account [OF assms(2,3), of a ?t] assms(2,3) applyDelta_other(2) [of db a 0 0 ?t db1] other_tables_simps(3) [of db a 0 0 ?t db1]
    by auto
  have "\<forall>ev \<in> set ?evs. open_event db1 ev" using k(3) by (auto simp: open_deposits_open open_event_def)
  from credit_loop_keeps [OF 1 k(1,2) d this] k(4-6) show ?thesis by (auto simp: ledger_ext_def other_tables_def)
qed

section \<open>One operation\<close>

lemma exec_withdrawal_frame:
  assumes "exec_withdrawal op db = Inr (db', w)"
  shows "allowances db' = allowances db" "settlement_tables db' = settlement_tables db"
  using assms
  by (cases op; auto simp: ReserveWithdrawal_def MarkWithdrawalSigned_def MarkWithdrawalBroadcast_def FinalizeWithdrawal_def
      RestoreWithdrawal_def FailWithdrawal_def res_simps Let_def update_withdrawal_def settlement_tables_def credit_simps
      split: if_splits option.splits sum.splits)+

lemma SetAccountCaps_step:
  assumes "SetAccountCaps db a caps clock = Inr (db', c)"
  shows "books_step db db'" "drift db' b = drift db b"
proof -
  from assms have up: "update_account (ensure_account db a clock) a (set_caps caps clock) = Inr db'"
    by (auto simp: SetAccountCaps_def res_simps Let_def split: if_splits)
  note o = update_account_other [OF up]
  have led: "ledger db' = ledger db" using o by (simp add: credit_simps)
  have "credit_of db' b = credit_of (ensure_account db a clock) b"
    by (auto simp: credit_of_def update_account_find [OF up] set_caps_def split: option.splits)
  then show "drift db' b = drift db b" using led ensure_account_balances [of db a clock b] by (simp add: drift_def ledger_sum_def)
  show "books_step db db'" using led other_tables_simps(1) [of db a clock] other_tables_simps(2) [OF up] by (simp add: books_step_def ledger_ext_refl)
qed

lemma update_credit_same:
  assumes "update_account db a f = Inr db'" and "\<And>r. ac_account (f r) = ac_account r" "\<And>r. ac_credit (f r) = ac_credit r"
  shows "credit_of db' b = credit_of db b"
  using assms by (auto simp: credit_of_def update_account_find split: option.splits)

lemma ReserveBilling_drift:
  assumes "ReserveBilling db req clock = Inr (db', c)"
  shows "drift db' b = drift db b"
proof -
  let ?t = "time_or_now clock (rv_reserved_at req)" and ?a = "rv_buyer req"
  from assms obtain db2 m where db2: "insert_request (ensure_account db ?a ?t) (new_request req m ?t) = Inr db2"
    and up: "db' = db2 \<or> update_account db2 ?a (add_delta 0 m ?t) = Inr db'"
    by (auto simp: ReserveBilling_def res_simps Let_def split: if_splits)
  have "credit_of db' b = credit_of db2 b" using up by (auto intro: update_credit_same simp: add_delta_def)
  moreover have "credit_of db2 b = credit_of db b"
    using db2 ensure_account_balances [of db ?a ?t b] by (auto simp: insert_request_def credit_of_def split: if_splits)
  moreover have "ledger db' = ledger db"
    using db2 up update_account_other(2) [of db2 ?a "add_delta 0 m ?t" db'] by (auto simp: insert_request_def credit_simps split: if_splits)
  ultimately show ?thesis by (simp add: drift_def ledger_sum_def)
qed

lemma ensure_store:
  assumes "store_inv db"
  shows "store_inv (ensure_account db a clock)" "evolves db (ensure_account db a clock)" "drift (ensure_account db a clock) b = drift db b"
proof -
  have "books_step db (ensure_account db a clock)"
    unfolding books_step_def by (intro conjI ledger_ext_refl) (simp_all add: credit_simps)
  then show "store_inv (ensure_account db a clock)" "evolves db (ensure_account db a clock)"
    using books_store [OF assms] ensure_account_inv assms unfolding store_inv_def by blast+
  show "drift (ensure_account db a clock) b = drift db b"
    using ensure_account_balances [of db a clock b] by (simp add: drift_def ledger_sum_def credit_simps)
qed

lemma exec_books_sound:
  assumes "store_inv db" and "exec_store op db = Inr (db', u)"
    and "books_op op"
  shows "store_inv db' \<and> evolves db db' \<and> drift db' a = drift db a"
proof -
  have inv: "billing_inv db" using assms(1) by (simp add: store_inv_def)
  have "billing_inv db' \<and> books_step db db' \<and> drift db' a = drift db a"
  proof (cases op)
    case op: (OpCaps a0 caps clock)
    with assms(2) obtain c where "SetAccountCaps db a0 caps clock = Inr (db', c)" by (auto dest: forget_Inr)
    with inv show ?thesis using SetAccountCaps_inv SetAccountCaps_step by blast
  next
    case op: (OpReserve req clock)
    with assms(2) obtain c where r: "ReserveBilling db req clock = Inr (db', c)" by (auto dest: forget_Inr)
    with inv ReserveBilling_inv ReserveBilling_step ReserveBilling_drift show ?thesis by blast
  next
    case op: (OpSettle rid peer usage bps now clock)
    with assms(2) obtain c where "SettleBilling db rid peer usage bps now clock = Inr (db', c)" by (auto dest: forget_Inr)
    with inv SettleBilling_inv SettleBilling_step show ?thesis by blast
  next
    case op: (OpRelease rid reason now clock)
    with assms(2) obtain c where "ReleaseBilling db rid reason now clock = Inr (db', c)" by (auto dest: forget_Inr)
    with inv ReleaseBilling_sound ReleaseBilling_step show ?thesis by blast
  next
    case op: (OpSweep locked before limit clock)
    with assms(2) obtain c where "SweepStaleReservations db locked before limit clock = Inr (db', c)" by (auto dest: forget_Inr)
    with inv SweepStaleReservations_inv [of db locked before limit clock db' c] SweepStaleReservations_step show ?thesis
      by (auto simp: drift_def ledger_sum_def)
  qed (use assms(3) in simp_all)
  with books_store [OF assms(1)] show ?thesis by blast
qed

lemma exec_deposit_sound:
  assumes "store_inv db" and "exec_store op db = Inr (db', u)"
    and "deposit_op op"
  shows "store_inv db' \<and> evolves db db' \<and> drift db' a = drift db a"
proof -
  have inv: "billing_inv db" "deposit_inv db" using assms(1) by (simp_all add: store_inv_def)
  have "billing_inv db' \<and> deposit_inv db' \<and> ledger_ext {''deposit''} db db' \<and> drift db' a = drift db a \<and>
    other_tables db' = other_tables (db\<lparr>deposits := deposits db', deposit_cursors := deposit_cursors db'\<rparr>)"
  proof (cases op)
    case op: (OpInsertDeposit ev clock)
    with assms(2) obtain c where r: "InsertDepositEvent db ev clock = Inr (db', c)" by (auto dest: forget_Inr)
    note b = InsertDepositEvent_books [OF r]
    from books_cong [OF b(1-4)] b(3,5) inv InsertDepositEvent_inv [OF r] show ?thesis by (auto simp: other_tables_def intro: ledger_ext_refl)
  next
    case op: (OpApplyDeposit sig i a0 now clock)
    with assms(2) obtain c where r: "ApplyDeposit db sig i a0 now clock = Inr (db', c)" by (auto dest: forget_Inr)
    note e = ApplyDeposit_effect [OF inv r]
    from r have "ledger_ext {''deposit''} db db' \<and> other_tables db' = other_tables (db\<lparr>deposits := deposits db'\<rparr>)"
    proof (cases rule: ApplyDeposit_cases)
      case same
      then show ?thesis by (simp add: ledger_ext_refl)
    next
      case (credit ev)
      then show ?thesis using creditDepositLocked_books(5,7) by blast
    qed
    with e show ?thesis by (auto simp: other_tables_def)
  next
    case op: (OpReconcileDeposits wallet a0 now clock)
    with assms(2) obtain c where r: "ReconcileDepositsForWallet db wallet a0 now clock = Inr (db', c)" by (auto dest: forget_Inr)
    from ReconcileDeposits_keeps [OF r inv] show ?thesis by (auto simp: other_tables_def)
  next
    case op: (OpCursor ata from_sig to_sig)
    with assms(2) obtain c where r: "AdvanceDepositCursor db ata from_sig to_sig = Inr (db', c)" by (auto dest: forget_Inr)
    have "db' = db \<or> (\<exists>cs. db' = db\<lparr>deposit_cursors := cs\<rparr>)"
      using r by (auto simp: AdvanceDepositCursor_def split: if_splits option.splits)
    then have led: "ledger db' = ledger db" and dep: "deposits db' = deposits db"
      and ot: "other_tables db' = other_tables (db\<lparr>deposits := deposits db', deposit_cursors := deposit_cursors db'\<rparr>)"
      and same: "accounts db' = accounts db" "requests db' = requests db" "next_ledger_id db' = next_ledger_id db"
      by (auto simp: other_tables_def)
    have "billing_inv db'" "drift db' a = drift db a" using books_cong(1,2) [OF same(1,2) led same(3)] inv by auto
    with ot deposit_inv_frame [OF inv(2) dep ledger_ext_refl [OF led, of "{}"]] led show ?thesis by (auto intro: ledger_ext_refl)
  qed (use assms(3) in simp_all)
  with deposit_store [OF assms(1)] show ?thesis by blast
qed

lemma withdrawal_store:
  assumes "store_inv db" and "exec_withdrawal op db = Inr (db', w)"
  shows "store_inv db' \<and> evolves db db' \<and> drift db' a = drift db a"
proof -
  have inv: "billing_inv db" "withdrawal_inv db" "deposit_inv db" using assms(1) by (simp_all add: store_inv_def)
  note e = exec_withdrawal_sound [OF assms(2) inv(1,2)] and fr = exec_withdrawal_frame [OF assms(2)]
  have "deposit_inv db'" using deposit_inv_frame [of db db' withdraw_leg_names] inv(3) e by (simp add: withdraw_leg_names_def)
  with e assms(1) have "store_inv db'" by (simp add: store_inv_def allowances_frame [OF fr(1)] settlement_rows_frame [OF fr(2)])
  moreover have "evolves db db'"
    unfolding evolves_def using e ledger_ext_UNIV same_batches_evolve [OF fr(2)] by (auto simp: withdrawal_rel_def)
  ultimately show ?thesis using e by (simp add: withdrawal_rel_def)
qed

lemma allowance_store:
  assumes "store_inv db" and "exec_allowance op db = Inr (db', res)"
  shows "store_inv db' \<and> evolves db db' \<and> (\<not> observes a (OpAllowance op) \<longrightarrow> drift db' a = drift db a)"
proof -
  obtain ch clock where op: "op = AlObserve ch clock" by (cases op)
  let ?ch = "ch\<lparr>ch_raw := wrap64 (ch_raw ch)\<rparr>"
  have inv: "billing_inv db" "allowances_ok db" "deposit_inv db" "withdrawal_inv db" "settlement_rows_ok db" using assms(1) by (simp_all add: store_inv_def)
  have "ch_raw ?ch \<le> max_int64" using wrap64_range [of "ch_raw ch"] by (simp add: in_int64_def)
  note k = UpsertAllowance_keeps [OF _ this inv(1,2), of clock db' res]
  have u: "UpsertAllowance db ?ch clock = Inr (db', res)" using assms(2) op by simp
  have t: "deposits db' = deposits db" "withdrawal_tables db' = withdrawal_tables db" "settlement_tables db' = settlement_tables db"
    and ext: "ledger_ext allowance_leg_names db db'"
    using k(3) [OF u] by (auto simp: allowance_rel_def registry_frame_def withdrawal_tables_def settlement_tables_def)
  have "deposit_inv db'" "withdrawal_inv db'"
    using deposit_inv_frame [OF inv(3) t(1) ext] withdrawal_inv_frame [OF inv(4) t(2) ext] by (auto simp: allowance_leg_names_def)
  with k(1,2) [OF u] inv(5) have "store_inv db'" by (simp add: store_inv_def settlement_rows_frame [OF t(3)])
  moreover have "evolves db db'"
    unfolding evolves_def using ledger_ext_UNIV [OF ext] same_withdrawals_evolve [OF t(2)] same_batches_evolve [OF t(3)] by blast
  moreover have "\<not> observes a (OpAllowance op) \<longrightarrow> drift db' a = drift db a" using k(5) [OF u, of a] op by auto
  ultimately show ?thesis by blast
qed

lemma settlement_store:
  assumes "store_inv db" "legs_fit db" and "exec_settlement op db = Inr (db', r)"
  shows "store_inv db' \<and> evolves db db' \<and> drift db' a = drift db a"
proof -
  have "settlement_inv db" using assms(1,2) by (simp add: settlement_inv_def store_inv_def)
  with exec_settlement_sound [of op db db'] assms(3) have s: "settlement_inv db'" and rel: "settlement_rel db db'" by auto
  have u: "untouched db' = untouched db" using rel by (simp add: settlement_rel_def)
  have led: "ledger db' = ledger db" and t: "withdrawal_tables db' = withdrawal_tables db" "deposits db' = deposits db"
    using u by (simp_all add: untouched_def withdrawal_tables_def)
  have b: "billing_inv db' = billing_inv db" "drift db' a = drift db a" using books_cong(1,2) [of db' db] u by (simp_all add: untouched_def)
  have "deposit_inv db'" "withdrawal_inv db'"
    using assms(1) deposit_inv_frame [OF _ t(2) ledger_ext_refl [OF led, of "{}"]] withdrawal_inv_frame [OF _ t(1) ledger_ext_refl [OF led, of "{}"]]
    by (auto simp: store_inv_def)
  with s b assms(1) have "store_inv db'" by (simp add: store_inv_def settlement_inv_def)
  moreover have "evolves db db'"
    unfolding evolves_def using ledger_ext_refl [OF led] same_withdrawals_evolve [OF t(1)] rel by (auto simp: settlement_rel_def)
  ultimately show ?thesis using b by blast
qed

lemma exec_store_sound:
  assumes "store_inv db" "legs_fit db" and "exec_store op db = Inr (db', u)"
  shows "store_inv db' \<and> evolves db db' \<and> (\<not> observes a op \<longrightarrow> drift db' a = drift db a)"
proof (cases "books_op op \<or> deposit_op op")
  case True
  then show ?thesis using exec_books_sound [OF assms(1,3)] exec_deposit_sound [OF assms(1,3)] by blast
next
  case False
  then show ?thesis
  proof (cases op)
    case (OpEnsure b clock)
    with assms(3) have "db' = ensure_account db b clock" by (auto simp: EnsureAccountCredit_def split: if_splits)
    then show ?thesis using ensure_store [OF assms(1)] by simp
  next
    case (OpWithdrawal wop)
    then show ?thesis using assms(1,3) withdrawal_store by (auto dest!: forget_Inr)
  next
    case (OpAllowance aop)
    then show ?thesis using assms(1,3) allowance_store by (auto dest!: forget_Inr)
  next
    case (OpSettlement sop)
    then show ?thesis using assms settlement_store by (auto dest!: forget_Inr)
  qed (use False in simp_all)
qed

section \<open>Runs\<close>

text \<open>The claimable legs of the ledger fit int64 in every state of a run.\<close>

fun fits_throughout :: "store_op list \<Rightarrow> db \<Rightarrow> bool" where
  "fits_throughout [] db = legs_fit db"
| "fits_throughout (op # ops) db =
     (legs_fit db \<and> fits_throughout ops (case exec_store op db of Inl _ \<Rightarrow> db | Inr (db', _) \<Rightarrow> db'))"

lemma evolves_refl: "evolves db db"
  by (simp add: evolves_def ledger_ext_refl rows_evolve_refl batches_evolve_refl)

lemma evolves_trans: "evolves db1 db2 \<Longrightarrow> evolves db2 db3 \<Longrightarrow> evolves db1 db3"
  unfolding evolves_def using ledger_ext_trans rows_evolve_trans batches_evolve_trans by blast

lemma run_store_keeps:
  "store_inv db \<Longrightarrow> fits_throughout ops db \<Longrightarrow>
   store_inv (run_ops exec_store ops db) \<and> evolves db (run_ops exec_store ops db) \<and>
   (list_all (\<lambda>op. \<not> observes a op) ops \<longrightarrow> drift (run_ops exec_store ops db) a = drift db a)"
proof (induction ops arbitrary: db)
  case Nil
  then show ?case by (simp add: evolves_refl)
next
  case (Cons op ops)
  show ?case
  proof (cases "exec_store op db")
    case (Inl e)
    with Cons show ?thesis by simp
  next
    case (Inr q)
    obtain db1 u where q: "q = (db1, u)" by (cases q)
    have "store_inv db1 \<and> evolves db db1 \<and> (\<not> observes a op \<longrightarrow> drift db1 a = drift db a)"
      using exec_store_sound [of db op db1 u a] Cons.prems Inr q by simp
    with Cons.IH [of db1] Cons.prems Inr q show ?thesis by (auto intro: evolves_trans)
  qed
qed

section \<open>Properties\<close>

text \<open>
  C1 (the whole store keeps its books). Start from a consistent database and run any sequence of store operations (accounts and caps, reservations,
  settlements, releases, sweeps, deposits, cursors, withdrawals, delegation observations, settlement batches), in any order and with any of them
  failing. While the claimable legs fit int64, every state reached is consistent: balances non-negative and at least what is reserved, reservations equal to the
  open requests, deposits and withdrawals equal to their ledger legs, the registry and the batches well formed; the ledger has only grown at
  its end, no withdrawal or batch has disappeared, changed its amount or moved back; and the credit of every account whose delegations were not observed is
  as far from the sum of its ledger rows as at the start, so equal to it when it was.
\<close>

theorem store_runs_keep_books:
  assumes "store_inv db" and "fits_throughout ops db" and "db' = run_ops exec_store ops db"
  shows "billing_inv db' \<and> deposit_inv db' \<and> withdrawal_inv db' \<and> allowances_ok db' \<and> settlement_rows_ok db' \<and>
    (\<exists>new. ledger db' = ledger db @ new) \<and> rows_evolve db db' \<and> batches_evolve db db' \<and>
    (\<forall>a. 0 \<le> reserved_of db' a \<and> reserved_of db' a \<le> credit_of db' a \<and> reserved_of db' a = open_reserved db' a) \<and>
    (\<forall>a. list_all (\<lambda>op. \<not> observes a op) ops \<and> drift db a = 0 \<longrightarrow> credit_of db' a = ledger_sum db' a)"
proof -
  have k: "store_inv db'" "evolves db db'" and d: "list_all (\<lambda>op. \<not> observes a op) ops \<longrightarrow> drift db' a = drift db a" for a
    using run_store_keeps [OF assms(1,2)] assms(3) by auto
  have b: "billing_inv db'" using k(1) by (simp add: store_inv_def)
  then have "0 \<le> reserved_of db' a \<and> reserved_of db' a \<le> credit_of db' a \<and> reserved_of db' a = open_reserved db' a" for a
    using accounts_ok_bounds [of db' a] by (simp add: billing_inv_def reserved_backed_def)
  moreover have "credit_of db' a = ledger_sum db' a" if "list_all (\<lambda>op. \<not> observes a op) ops" "drift db a = 0" for a
    using d [of a] that by (simp add: drift_def)
  moreover have "\<exists>new. ledger db' = ledger db @ new" "rows_evolve db db'" "batches_evolve db db'"
    using k(2) by (auto simp: evolves_def ledger_ext_def)
  ultimately show ?thesis using k(1) unfolding store_inv_def by blast
qed

theorem store_runs_keep_books_witness:
  "\<exists>db'. db' = run_ops exec_store [OpInsertDeposit (demo_event ''s9'') 4, OpApplyDeposit ''s9'' 0 ''b1'' 5 5, OpReserve demo_reservation 6,
       OpWithdrawal (WdReserve demo_wd_request 7 7), OpSettle ''r1'' ''p1'' \<lparr>u_in = 40, u_cached = 20, u_out = 10\<rparr> 250 8 8] empty_db \<and>
     credit_of db' ''b1'' = ledger_sum db' ''b1''"
proof -
  let ?ops = "[OpInsertDeposit (demo_event ''s9'') 4, OpApplyDeposit ''s9'' 0 ''b1'' 5 5, OpReserve demo_reservation 6,
       OpWithdrawal (WdReserve demo_wd_request 7 7), OpSettle ''r1'' ''p1'' \<lparr>u_in = 40, u_cached = 20, u_out = 10\<rparr> 250 8 8]"
  have fit: "fits_throughout ?ops empty_db" by code_simp
  have inv: "store_inv empty_db"
    by (simp add: store_inv_def empty_db_def billing_inv_def accounts_ok_def ledger_ok_def requests_ok_def settle_legs_ok_def
        reserved_backed_def reserved_of_def open_reserved_def allowances_ok_def row_simps deposit_inv_def deposit_legs_ok_def deposited_def
        assigned_sum_def withdrawal_inv_def withdrawal_rows_ok_def withdrawal_legs_ok_def withdraw_legs_def withdrawn_def settlement_rows_ok_def)
  have d: "drift empty_db ''b1'' = 0" "list_all (\<lambda>op. \<not> observes ''b1'' op) ?ops" by code_simp+
  from store_runs_keep_books [OF inv fit refl] d show ?thesis by blast
qed

end
