(* ===== verification/Go_Text.thy ===== *)
theory Go_Text
  imports Otela_Prelude "HOL-Library.Sublist"
begin

text \<open>
  The functions of Go's \<^verbatim>\<open>strings\<close> package that the HTTP side uses. A string is the list of its bytes, as in Go; a rune outside ASCII is its
  UTF-8 encoding. \<^verbatim>\<open>strings.HasPrefix(s, p)\<close> is \<open>prefix p s\<close>.

  \<open>TrimSpace\<close> knows every rune of Unicode's White\_Space property. \<open>ToLower\<close> maps the ASCII capitals and the two runes outside ASCII whose lower
  case is an ASCII letter (U+0130 and the Kelvin sign U+212A); every other rune outside ASCII has a lower case outside ASCII and is left as it is, which
  is enough for the code here, which refuses any byte outside ASCII afterwards.
\<close>

definition cr :: char where
  "cr = CHR 0x0D"

definition nl :: char where
  "nl = CHR 0x0A"

section \<open>Trimming\<close>

definition TrimRight :: "char list \<Rightarrow> string \<Rightarrow> string" where
  "TrimRight cs s = rev (dropWhile (\<lambda>c. c \<in> set cs) (rev s))"

definition ascii_spaces :: "char list" where
  "ascii_spaces = [CHR 0x09, nl, CHR 0x0B, CHR 0x0C, cr, CHR '' '']"

definition space_runes :: "string list" where
  "space_runes =
     map (\<lambda>c. [c]) ascii_spaces @
     [[CHR 0xC2, CHR 0x85], [CHR 0xC2, CHR 0xA0], [CHR 0xE1, CHR 0x9A, CHR 0x80]] @
     map (\<lambda>n. [CHR 0xE2, CHR 0x80, char_of (128 + n :: nat)]) [0, 1, 2, 3, 4, 5, 6, 7, 8, 9, 10, 40, 41, 47] @
     [[CHR 0xE2, CHR 0x81, CHR 0x9F], [CHR 0xE3, CHR 0x80, CHR 0x80]]"

text \<open>Dropping leading runes of a list; with the runes and the string reversed, trailing ones.\<close>

function drop_runes :: "string list \<Rightarrow> string \<Rightarrow> string" where
  "drop_runes rs s =
     (case List.find (\<lambda>r. r \<noteq> [] \<and> prefix r s) rs of None \<Rightarrow> s | Some r \<Rightarrow> drop_runes rs (drop (length r) s))"
  by auto
termination
  by (relation "measure (length \<circ> snd)") (auto simp: find_Some_iff prefix_def)

declare drop_runes.simps [simp del]

definition TrimSpace :: "string \<Rightarrow> string" where
  "TrimSpace s = rev (drop_runes (map rev space_runes) (rev (drop_runes space_runes s)))"

section \<open>Case\<close>

definition lower_char :: "char \<Rightarrow> char" where
  "lower_char c =
     (let n = of_char c :: nat in if 65 \<le> n \<and> n \<le> 90 then char_of (n + 32) else c)"

fun ToLower :: "string \<Rightarrow> string" where
  "ToLower [] = []"
| "ToLower (a # s) =
     (if a = CHR 0xC4 \<and> prefix [CHR 0xB0] s then CHR ''i'' # ToLower (drop 1 s)
      else if a = CHR 0xE2 \<and> prefix [CHR 0x84, CHR 0xAA] s then CHR ''k'' # ToLower (drop 2 s)
      else lower_char a # ToLower s)"

text \<open>\<^verbatim>\<open>strings.EqualFold\<close> with an ASCII string that has no letter k or s, the two letters with folds outside ASCII.\<close>

definition EqualFold :: "string \<Rightarrow> string \<Rightarrow> bool" where
  "EqualFold s t \<longleftrightarrow> map lower_char s = map lower_char t"

section \<open>Splitting\<close>

fun split_at :: "char \<Rightarrow> string \<Rightarrow> string list" where
  "split_at sep [] = [[]]"
| "split_at sep (c # cs) =
     (if c = sep then [] # split_at sep cs
      else case split_at sep cs of [] \<Rightarrow> [[c]] | l # ls \<Rightarrow> (c # l) # ls)"

text \<open>A byte that no white space rune holds.\<close>

definition plain_char :: "char \<Rightarrow> bool" where
  "plain_char c \<longleftrightarrow> (of_char c :: nat) < 128 \<and> c \<notin> set ascii_spaces"

section \<open>Lemmas\<close>

lemma split_at_plain: "sep \<notin> set l \<Longrightarrow> split_at sep l = [l]"
  by (induction l) auto

lemma split_at_cut: "sep \<notin> set l \<Longrightarrow> split_at sep (l @ sep # s) = l # split_at sep s"
  by (induction l) auto

lemma TrimRight_id: "s \<noteq> [] \<Longrightarrow> last s \<notin> set cs \<Longrightarrow> TrimRight cs s = s"
  by (induction s rule: rev_induct) (auto simp: TrimRight_def)

lemma TrimRight_drop: "c \<in> set cs \<Longrightarrow> TrimRight cs (s @ [c]) = TrimRight cs s"
  by (simp add: TrimRight_def)

lemma plain_not_space: "plain_char c \<Longrightarrow> r \<in> set space_runes \<Longrightarrow> c \<notin> set r"
  by (auto simp: plain_char_def space_runes_def)

lemma drop_runes_plain:
  assumes "\<And>r. r \<in> set rs \<Longrightarrow> c \<notin> set r"
  shows "drop_runes rs (c # s) = c # s"
proof -
  have "\<not> (r \<noteq> [] \<and> prefix r (c # s))" if "r \<in> set rs" for r
    using assms [OF that] by (cases r) auto
  then have "List.find (\<lambda>r. r \<noteq> [] \<and> prefix r (c # s)) rs = None" unfolding find_None_iff by blast
  then show ?thesis by (subst drop_runes.simps) simp
qed

lemma TrimSpace_plain:
  assumes "s \<noteq> []" "plain_char (hd s)" "plain_char (last s)"
  shows "TrimSpace s = s"
proof -
  obtain c t where s: "s = c # t" using assms(1) by (cases s) auto
  have 1: "drop_runes space_runes s = s"
    unfolding s by (rule drop_runes_plain) (use plain_not_space assms(2) s in auto)
  obtain d u where r: "rev s = d # u" using assms(1) by (cases "rev s") auto
  then have "d = last s" by (metis hd_rev list.sel(1))
  then have "drop_runes (map rev space_runes) (rev s) = rev s"
    unfolding r by (intro drop_runes_plain) (use plain_not_space assms(3) in auto)
  with 1 show ?thesis by (simp add: TrimSpace_def)
qed

end
