(* ===== verification/Think_Scanner.thy ===== *)
theory Think_Scanner
  imports Otela_Prelude "HOL-Library.Sublist"
begin

text \<open>
  The scanner of \<^verbatim>\<open>internal/thinkfix\<close> (\<^verbatim>\<open>scanner.go\<close>) and the rewriting of a whole message body
  (\<^verbatim>\<open>anthropic_json.go\<close>).

  A Go string is the list of its bytes. The scanner is the record \<open>Scanner\<close> with the fields of the Go struct; \<open>Feed\<close>
  returns the scanner after the call and the segments the call emits. The loop of \<^verbatim>\<open>Feed\<close> is the total function
  \<open>feed_loop\<close> (every round removes at least a marker from the data).

  The lemmas show that the scanner does not depend on where the stream is cut: feeding chunks one by one leaves the scanner in
  exactly the state, and emits exactly the attributed bytes, of feeding their concatenation (\<open>Feed_append\<close>,
  \<open>feed_all_concat\<close>). With that, what it does is settled on whole texts: the rendering of any alternation of sections,
  with any separators after the markers and cut anywhere, is classified back into those sections, and a text without
  a marker keeps its bytes up to the suffix that is held back.
\<close>

section \<open>Go strings\<close>

text \<open>\<^verbatim>\<open>strings.Index\<close>, with \<open>None\<close> for \<open>-1\<close>; \<^verbatim>\<open>strings.HasPrefix(s, p)\<close> is \<open>prefix p s\<close>.\<close>

fun Index :: "string \<Rightarrow> string \<Rightarrow> nat option" where
  "Index s m =
     (if prefix m s then Some 0
      else case s of [] \<Rightarrow> None | c # cs \<Rightarrow> map_option Suc (Index cs m))"

declare Index.simps [simp del]

section \<open>Markers and segments\<close>

definition thinkOpenMarker :: string where
  "thinkOpenMarker = ''<|open|>think''"

definition thinkCloseMarker :: string where
  "thinkCloseMarker = ''<|close|>think''"

definition sepBareToken :: string where
  "sepBareToken = ''<|sep|''"

definition sepFullToken :: string where
  "sepFullToken = ''<|sep|>''"

record Segment =
  Thinking :: bool
  Text :: string

record Scanner =
  inThink :: bool
  pending :: string
  flipped :: bool
  atStart :: bool

definition NewScanner :: Scanner where
  "NewScanner = \<lparr>inThink = False, pending = [], flipped = False, atStart = False\<rparr>"

definition Flipped :: "Scanner \<Rightarrow> bool" where
  "Flipped s = flipped s"

definition Seed :: "bool \<Rightarrow> Scanner \<Rightarrow> Scanner" where
  "Seed thinking s = s\<lparr>inThink := thinking, pending := [], atStart := True\<rparr>"

definition marker_of :: "bool \<Rightarrow> string" where
  "marker_of thinking = (if thinking then thinkCloseMarker else thinkOpenMarker)"

definition marker :: "Scanner \<Rightarrow> string" where
  "marker s = marker_of (inThink s)"

section \<open>Separators and overlaps\<close>

text \<open>The loop of \<^verbatim>\<open>stripLeadingSeps\<close>, then its decision on what is left.\<close>

function strip_seps :: "string \<Rightarrow> string" where
  "strip_seps d =
     (if prefix sepFullToken d then strip_seps (drop (length sepFullToken) d)
      else if prefix sepBareToken d then strip_seps (drop (length sepBareToken) d)
      else d)"
  by auto
termination
  by (relation "measure length") (auto simp: sepFullToken_def sepBareToken_def prefix_def)

declare strip_seps.simps [simp del]

definition stripLeadingSeps :: "string \<Rightarrow> string \<times> bool" where
  "stripLeadingSeps d =
     (let r = strip_seps d in if r = [] \<or> prefix r sepBareToken then (d, False) else (r, True))"

fun overlap_loop :: "nat \<Rightarrow> string \<Rightarrow> string \<Rightarrow> nat" where
  "overlap_loop 0 d m = 0"
| "overlap_loop (Suc k) d m =
     (if drop (length d - Suc k) d = take (Suc k) m then Suc k else overlap_loop k d m)"

definition markerPrefixOverlap :: "string \<Rightarrow> string \<Rightarrow> nat" where
  "markerPrefixOverlap d m = overlap_loop (min (length m - 1) (length d)) d m"

section \<open>Feed and Flush\<close>

text \<open>
  The loop of \<^verbatim>\<open>Feed\<close> over the data that is left: \<open>s\<close> is the scanner with nothing pending.
  The separators at a section start are stripped first (\<open>strip_start\<close>: \<open>None\<close> where the call returns because more
  input is needed).
\<close>

definition strip_start :: "Scanner \<Rightarrow> string \<Rightarrow> string option" where
  "strip_start s d =
     (if atStart s then case stripLeadingSeps d of (rest, decided) \<Rightarrow> if decided then Some rest else None
      else Some d)"

function feed_loop :: "Scanner \<Rightarrow> string \<Rightarrow> Scanner \<times> Segment list" where
  "feed_loop s d =
     (if d = [] then (s, [])
      else case strip_start s d of
        None \<Rightarrow> (s\<lparr>pending := d\<rparr>, [])
      | Some rest \<Rightarrow>
          let s = s\<lparr>atStart := False\<rparr>; m = marker s in
          if rest = [] then (s, [])
          else (case Index rest m of
            None \<Rightarrow>
              let keep = markerPrefixOverlap rest m; emit = take (length rest - keep) rest in
              (s\<lparr>pending := drop (length rest - keep) rest\<rparr>,
               if emit \<noteq> [] then [\<lparr>Thinking = inThink s, Text = emit\<rparr>] else [])
          | Some idx \<Rightarrow>
              case feed_loop (s\<lparr>inThink := \<not> inThink s, flipped := True, atStart := True\<rparr>)
                     (drop (idx + length m) rest) of
                (s', out) \<Rightarrow>
                  (s', (if 0 < idx then [\<lparr>Thinking = inThink s, Text = take idx rest\<rparr>] else []) @ out)))"
  by pat_completeness auto
termination
proof (relation "measure (length \<circ> snd)")
  have seps: "length (strip_seps d) \<le> length d" for d
    by (induction d rule: strip_seps.induct) (subst strip_seps.simps, auto)
  have start: "length r \<le> length d" if "strip_start s d = Some r" for s :: Scanner and d r
    using that by (auto simp: strip_start_def stripLeadingSeps_def Let_def seps split: if_splits)
  fix s :: Scanner and d rest idx
  fix s' m
  assume "d \<noteq> []" "strip_start s d = Some rest" "s' = s\<lparr>atStart := False\<rparr>" "m = marker s'"
    "rest \<noteq> []" "Index rest m = Some idx"
  moreover have "0 < length (marker s')"
    by (simp add: marker_def marker_of_def thinkOpenMarker_def thinkCloseMarker_def)
  ultimately have "length (drop (idx + length m) rest) < length rest" and "length rest \<le> length d"
    using start [of s d rest] by simp_all
  then show "((s'\<lparr>inThink := \<not> inThink s', flipped := True, atStart := True\<rparr>, drop (idx + length m) rest), s, d)
      \<in> measure (length \<circ> snd)"
    by simp
qed simp

declare feed_loop.simps [simp del]

definition Feed :: "Scanner \<Rightarrow> string \<Rightarrow> Scanner \<times> Segment list" where
  "Feed s chunk = feed_loop (s\<lparr>pending := []\<rparr>) (pending s @ chunk)"

definition Flush :: "Scanner \<Rightarrow> Scanner \<times> bool" where
  "Flush s = (s\<lparr>pending := []\<rparr>, pending s \<noteq> [])"

section \<open>Whole messages\<close>

text \<open>\<^verbatim>\<open>mergeSegments\<close>; the same loop stands in \<^verbatim>\<open>emitSegments\<close> of the stream rewriter.\<close>

fun mergeSegments :: "Segment list \<Rightarrow> Segment list" where
  "mergeSegments [] = []"
| "mergeSegments [g] = [g]"
| "mergeSegments (g # h # gs) =
     (if Thinking g = Thinking h then mergeSegments (\<lparr>Thinking = Thinking g, Text = Text g @ Text h\<rparr> # gs)
      else g # mergeSegments (h # gs))"

text \<open>A string member of an object, empty where the type assertion fails.\<close>

definition str_member :: "string \<Rightarrow> (string \<times> json) list \<Rightarrow> string" where
  "str_member k fs = (case member k fs of JStr t \<Rightarrow> t | _ \<Rightarrow> [])"

definition joined :: "Segment list \<Rightarrow> string" where
  "joined segs = concat (map Text segs)"

definition segment_block :: "Segment \<Rightarrow> json" where
  "segment_block g =
     (if Thinking g then JObj [(''type'', JStr ''thinking''), (''thinking'', JStr (Text g))]
      else JObj [(''type'', JStr ''text''), (''text'', JStr (Text g))])"

text \<open>One round of the loop over the content: the scanner, the blocks that replace the item and whether it changed.\<close>

fun rewrite_item :: "Scanner \<Rightarrow> json \<Rightarrow> Scanner \<times> json list \<times> bool" where
  "rewrite_item sc (JObj block) =
     (let kind = str_member ''type'' block in
      if \<not> (kind = ''text'' \<or> kind = ''thinking'') then (sc, [JObj block], False)
      else
        let field = (if kind = ''thinking'' then ''thinking'' else ''text'');
            text = str_member field block in
        case Feed (Seed (kind = ''thinking'') sc) text of (sc, segs) \<Rightarrow>
          if \<not> Flipped sc then
            (if joined segs = text then (sc, [JObj block], False)
             else (sc, [JObj (set_member field (JStr (joined segs)) block)], True))
          else (sc, map segment_block (filter (\<lambda>g. Text g \<noteq> []) (mergeSegments segs)), True))"
| "rewrite_item sc item = (sc, [item], False)"

fun rewrite_items :: "Scanner \<Rightarrow> json list \<Rightarrow> json list \<times> bool" where
  "rewrite_items sc [] = ([], False)"
| "rewrite_items sc (item # items) =
     (case rewrite_item sc item of (sc, new, changed) \<Rightarrow>
      case rewrite_items sc items of (rest, changed') \<Rightarrow> (new @ rest, changed \<or> changed'))"

text \<open>
  \<^verbatim>\<open>RewriteAnthropicMessage\<close> on the decoded body: \<open>None\<close> where \<^verbatim>\<open>json.Unmarshal\<close> into a map fails, otherwise the new body and whether
  it changed.
\<close>

fun RewriteAnthropicMessage :: "json \<Rightarrow> (json \<times> bool) option" where
  "RewriteAnthropicMessage JNull = Some (JNull, False)"
| "RewriteAnthropicMessage (JObj msg) =
     (case member ''content'' msg of
        JArr content \<Rightarrow>
          (case rewrite_items NewScanner content of (newContent, changed) \<Rightarrow>
             if \<not> changed then Some (JObj msg, False)
             else Some (JObj (set_member ''content'' (JArr newContent) msg), True))
      | _ \<Rightarrow> Some (JObj msg, False))"
| "RewriteAnthropicMessage _ = None"

section \<open>Attribution\<close>

text \<open>What a sequence of segments says: each byte with the section it belongs to.\<close>

definition attributed :: "Segment list \<Rightarrow> (bool \<times> char) list" where
  "attributed segs = concat (map (\<lambda>g. map (Pair (Thinking g)) (Text g)) segs)"

fun feed_all :: "Scanner \<Rightarrow> string list \<Rightarrow> Scanner \<times> Segment list" where
  "feed_all s [] = (s, [])"
| "feed_all s (c # cs) = (case Feed s c of (s', o1) \<Rightarrow> case feed_all s' cs of (s'', o2) \<Rightarrow> (s'', o1 @ o2))"

text \<open>
  The reference: a response as the misconfigured backend renders it, an opening text and then sections that alternate between
  thinking and answer, each with the separators (full or bare) the model put after the marker.
\<close>

fun render_sections :: "bool \<Rightarrow> (bool list \<times> string) list \<Rightarrow> string" where
  "render_sections b [] = []"
| "render_sections b ((seps, t) # rest) =
     marker_of b @ concat (map (\<lambda>full. if full then sepFullToken else sepBareToken) seps) @ t @
     render_sections (\<not> b) rest"

fun section_bytes :: "bool \<Rightarrow> (bool list \<times> string) list \<Rightarrow> (bool \<times> char) list" where
  "section_bytes b [] = []"
| "section_bytes b ((_, t) # rest) = map (Pair (\<not> b)) t @ section_bytes (\<not> b) rest"

text \<open>
  The section texts the rendering is unambiguous for: a text holds no marker that would end its section and does not open like
  a separator or the rest of one, and the last one does not end in the beginning of a marker. \<open>b\<close> says which section ends
  at the first marker.
\<close>

fun clean_sections :: "bool \<Rightarrow> (bool list \<times> string) list \<Rightarrow> bool" where
  "clean_sections b [] \<longleftrightarrow> True"
| "clean_sections b ((_, t) # rest) \<longleftrightarrow>
     Index t (marker_of (\<not> b)) = None \<and> \<not> prefix sepBareToken t \<and> \<not> prefix ''>'' t \<and>
     (rest = [] \<longrightarrow> t \<noteq> [] \<and> \<not> prefix t sepBareToken \<and> markerPrefixOverlap t (marker_of (\<not> b)) = 0) \<and>
     clean_sections (\<not> b) rest"

text \<open>What \<^verbatim>\<open>markerPrefixOverlap\<close> looks for: a suffix of the data that is a proper prefix of the marker.\<close>

definition is_overlap :: "string \<Rightarrow> string \<Rightarrow> nat \<Rightarrow> bool" where
  "is_overlap d m j \<longleftrightarrow> j < length m \<and> j \<le> length d \<and> drop (length d - j) d = take j m"

section \<open>Lemmas on Index\<close>

lemma Index_Nil [simp]: "Index [] m = (if m = [] then Some 0 else None)"
  by (simp add: Index.simps)

lemma Index_Cons: "Index (c # cs) m = (if prefix m (c # cs) then Some 0 else map_option Suc (Index cs m))"
  by (subst Index.simps) simp

lemma Index_Some_iff:
  "Index s m = Some i \<longleftrightarrow> i \<le> length s \<and> prefix m (drop i s) \<and> (\<forall>j<i. \<not> prefix m (drop j s))"
proof (induction s arbitrary: i)
  case (Cons c cs)
  show ?case
  proof (cases i)
    case (Suc k)
    with Cons.IH [of k] show ?thesis by (auto simp: Index_Cons less_Suc_eq_0_disj)
  qed (auto simp: Index_Cons)
qed auto

lemma Index_None_iff: "Index s m = None \<longleftrightarrow> (\<forall>i\<le>length s. \<not> prefix m (drop i s))"
proof (induction s)
  case (Cons c cs)
  have "(\<forall>i\<le>length (c # cs). \<not> prefix m (drop i (c # cs))) \<longleftrightarrow>
      \<not> prefix m (c # cs) \<and> (\<forall>i\<le>length cs. \<not> prefix m (drop i cs))"
    by (metis (no_types, lifting) Suc_le_mono drop0 drop_Suc_Cons length_Cons not0_implies_Suc zero_le)
  with Cons.IH show ?case by (simp add: Index_Cons)
qed auto

lemma prefix_append_short: "prefix m (xs @ ys) \<Longrightarrow> length m \<le> length xs \<Longrightarrow> prefix m xs"
  by (metis prefix_length_prefix prefixI)

lemma Index_append: "Index d m = Some i \<Longrightarrow> Index (d @ c) m = Some i"
proof -
  assume i: "Index d m = Some i"
  then have le: "i + length m \<le> length d"
    using prefix_length_le [of m "drop i d"] by (auto simp: Index_Some_iff)
  have "\<not> prefix m (drop j (d @ c))" if "j < i" for j
  proof
    assume "prefix m (drop j (d @ c))"
    with that le have "prefix m (drop j d @ c)" "length m \<le> length (drop j d)" by simp_all
    then have "prefix m (drop j d)" by (rule prefix_append_short)
    with that i show False by (simp add: Index_Some_iff)
  qed
  with i le show ?thesis by (auto simp: Index_Some_iff)
qed

lemma Index_skip:
  "(\<And>i. i < length e \<Longrightarrow> \<not> prefix m (drop i (e @ x))) \<Longrightarrow>
   Index (e @ x) m = map_option ((+) (length e)) (Index x m)"
proof (induction e)
  case (Cons a e)
  have "\<not> prefix m (drop i (e @ x))" if "i < length e" for i
    using Cons.prems [of "Suc i"] that by simp
  with Cons.IH have "Index (e @ x) m = map_option ((+) (length e)) (Index x m)" by blast
  moreover have "\<not> prefix m (a # e @ x)" using Cons.prems [of 0] by simp
  ultimately show ?case by (simp add: Index_Cons option.map_comp comp_def)
qed (cases "Index x m"; simp)

section \<open>Lemmas on the overlap\<close>

lemma overlap_loop_greatest:
  "k \<le> length d \<Longrightarrow> k < length m \<Longrightarrow> is_overlap d m (overlap_loop k d m) \<and>
   (\<forall>j\<le>k. is_overlap d m j \<longrightarrow> j \<le> overlap_loop k d m)"
  by (induction k) (auto simp: is_overlap_def le_Suc_eq)

lemma overlap_greatest:
  assumes "m \<noteq> []"
  shows "is_overlap d m (markerPrefixOverlap d m)" "is_overlap d m j \<Longrightarrow> j \<le> markerPrefixOverlap d m"
  using overlap_loop_greatest [of "min (length m - 1) (length d)" d m] assms
  by (auto simp: markerPrefixOverlap_def is_overlap_def min_def split: if_splits)

lemma overlap_unique:
  "m \<noteq> [] \<Longrightarrow> is_overlap d m k \<Longrightarrow> (\<And>j. is_overlap d m j \<Longrightarrow> j \<le> k) \<Longrightarrow> markerPrefixOverlap d m = k"
  by (metis overlap_greatest le_antisym)

text \<open>Data without the marker, cut at the longest overlap: whatever follows, nothing starts in the part before the cut.\<close>

lemma no_marker_before_overlap:
  assumes m: "m \<noteq> []" and none: "Index d m = None" and i: "i < length d - markerPrefixOverlap d m"
  shows "\<not> prefix m (drop i (d @ c))"
proof
  assume p: "prefix m (drop i (d @ c))"
  define j where "j = length d - i"
  from p i have p': "prefix m (drop i d @ c)" by simp
  show False
  proof (cases "length m \<le> j")
    case True
    then have "length m \<le> length (drop i d)" by (simp add: j_def)
    with p' have "prefix m (drop i d)" by (rule prefix_append_short)
    with none i show False by (simp add: Index_None_iff)
  next
    case False
    from p' obtain z where z: "drop i d @ c = m @ z" by (auto simp: prefix_def)
    have "drop i d = take j (drop i d @ c)" using i by (simp add: j_def)
    also have "\<dots> = take j m" unfolding z using False by simp
    finally have "drop i d = take j m" .
    with False i have "is_overlap d m j" by (simp add: is_overlap_def j_def)
    from overlap_greatest(2) [OF m this] i show False by (simp add: j_def)
  qed
qed

lemma Index_resume:
  assumes "m \<noteq> []" "Index d m = None"
  defines "k \<equiv> markerPrefixOverlap d m"
  shows "Index (d @ c) m = map_option ((+) (length d - k)) (Index (drop (length d - k) d @ c) m)"
proof -
  let ?e = "take (length d - k) d" and ?x = "drop (length d - k) d @ c"
  have eq: "?e @ ?x = d @ c" by simp
  have "Index (?e @ ?x) m = map_option ((+) (length ?e)) (Index ?x m)"
    by (rule Index_skip) (unfold eq, rule no_marker_before_overlap [OF assms(1,2)], simp add: k_def)
  then show ?thesis unfolding eq by simp
qed

lemma overlap_resume:
  assumes m: "m \<noteq> []" and none: "Index (d @ c) m = None"
  defines "k \<equiv> markerPrefixOverlap d m"
  shows "markerPrefixOverlap (d @ c) m = markerPrefixOverlap (drop (length d - k) d @ c) m" (is "_ = ?o")
proof (rule overlap_unique [OF m])
  let ?x = "drop (length d - k) d @ c"
  have k: "k \<le> length d" using overlap_greatest(1) [OF m, of d] by (simp add: k_def is_overlap_def)
  have suffix_iff: "is_overlap (d @ c) m j \<longleftrightarrow> is_overlap ?x m j" if "j \<le> length ?x" for j
  proof -
    have "d @ c = take (length d - k) d @ ?x" by simp
    then have "drop (length (d @ c) - j) (d @ c) = drop (length ?x - j) ?x"
      using that k by (simp only: drop_append length_append) simp
    with that k show ?thesis by (simp add: is_overlap_def)
  qed
  have short: "j \<le> length ?x" if ov: "is_overlap (d @ c) m j" for j
  proof (rule ccontr)
    assume "\<not> j \<le> length ?x"
    with k have big: "k + length c < j" by simp
    from ov big have eq: "drop (length d + length c - j) d @ c = take j m" and j: "j \<le> length d + length c" "j < length m"
      by (auto simp: is_overlap_def)
    let ?i = "j - length c"
    have "drop (length d - ?i) d = take ?i (drop (length d + length c - j) d @ c)"
      using big j by simp
    also have "\<dots> = take ?i m" using eq by (simp add: min_def)
    finally have "is_overlap d m ?i" using big j by (auto simp: is_overlap_def)
    from overlap_greatest(2) [OF m this] big show False by (simp add: k_def)
  qed
  have "?o \<le> length ?x" using overlap_greatest(1) [OF m, of ?x] by (simp add: is_overlap_def)
  then show "is_overlap (d @ c) m ?o" using overlap_greatest(1) [OF m, of ?x] suffix_iff by blast
  show "j \<le> ?o" if "is_overlap (d @ c) m j" for j
    using overlap_greatest(2) [OF m] suffix_iff short that by blast
qed

section \<open>Lemmas on Feed\<close>

lemma marker_nonempty [simp]: "marker_of b \<noteq> []" "marker s \<noteq> []"
  by (simp_all add: marker_def marker_of_def thinkOpenMarker_def thinkCloseMarker_def)

lemma attributed_simps [simp]:
  "attributed [] = []"
  "attributed (g # gs) = map (Pair (Thinking g)) (Text g) @ attributed gs"
  "attributed (xs @ ys) = attributed xs @ attributed ys"
  by (simp_all add: attributed_def)

lemma feed_loop_Nil [simp]: "feed_loop s [] = (s, [])"
  by (simp add: feed_loop.simps)

lemma sepFull_eq: "sepFullToken = sepBareToken @ ''>''"
  by (simp add: sepFullToken_def sepBareToken_def)

lemma sep_nonempty: "sepBareToken \<noteq> []" "sepFullToken \<noteq> []"
  by (simp_all add: sepFullToken_def sepBareToken_def)

lemma strip_seps_full: "strip_seps (sepFullToken @ x) = strip_seps x"
  by (subst strip_seps.simps) simp

lemma strip_seps_bare: "\<not> prefix ''>'' x \<Longrightarrow> strip_seps (sepBareToken @ x) = strip_seps x"
  by (subst strip_seps.simps) (simp add: sepFull_eq)

lemma strip_seps_none: "\<not> prefix sepBareToken d \<Longrightarrow> strip_seps d = d"
  by (subst strip_seps.simps) (auto simp: sepFull_eq dest: append_prefixD)

lemma sep_cases:
  obtains (full) x where "d = sepFullToken @ x"
    | (bare) x where "d = sepBareToken @ x" "\<not> prefix ''>'' x"
    | (none) "\<not> prefix sepBareToken d"
  by (metis append_assoc prefix_def sepFull_eq)

lemma strip_seps_append:
  assumes "strip_seps d \<noteq> []" "\<not> prefix (strip_seps d) sepBareToken"
  shows "strip_seps (d @ c) = strip_seps d @ c"
  using assms
proof (induction "length d" arbitrary: d rule: less_induct)
  case less
  show ?case
  proof (cases d rule: sep_cases)
    case (full x)
    with less show ?thesis by (simp add: strip_seps_full sep_nonempty)
  next
    case (bare x)
    with less.prems have "x \<noteq> []" by (auto simp: strip_seps_bare strip_seps_none sep_nonempty)
    with bare have "\<not> prefix ''>'' (x @ c)" by (cases x) auto
    with bare less show ?thesis by (simp add: strip_seps_bare sep_nonempty)
  next
    case none
    with less.prems have "\<not> prefix sepBareToken (d @ c)" by (metis prefixI prefix_same_cases strip_seps_none)
    with none show ?thesis by (simp add: strip_seps_none)
  qed
qed

lemma stripLeadingSeps_append:
  assumes "stripLeadingSeps d = (r, True)"
  shows "stripLeadingSeps (d @ c) = (r @ c, True)"
proof -
  from assms have r: "r = strip_seps d" "strip_seps d \<noteq> []" "\<not> prefix (strip_seps d) sepBareToken"
    by (auto simp: stripLeadingSeps_def Let_def split: if_splits)
  from strip_seps_append [OF r(2,3)] r show ?thesis
    by (auto simp: stripLeadingSeps_def Let_def dest: append_prefixD)
qed

lemma strip_start_append: "strip_start s d = Some r \<Longrightarrow> strip_start s (d @ c) = Some (r @ c)"
  by (auto simp: strip_start_def stripLeadingSeps_append split: if_splits prod.splits)

lemma strip_seps_length: "length (strip_seps d) \<le> length d"
  by (induction d rule: strip_seps.induct) (subst strip_seps.simps, auto)

lemma strip_start_length: "strip_start s d = Some r \<Longrightarrow> length r \<le> length d"
  by (auto simp: strip_start_def stripLeadingSeps_def Let_def strip_seps_length split: if_splits)

lemma strip_start_Nil: "strip_start s d = Some [] \<Longrightarrow> d = []"
  by (auto simp: strip_start_def stripLeadingSeps_def Let_def split: if_splits)

lemma feed_loop_start:
  "d \<noteq> [] \<Longrightarrow> strip_start s d = Some r \<Longrightarrow> feed_loop s d = feed_loop (s\<lparr>atStart := False\<rparr>) r"
  using strip_start_Nil [of s d] by (simp add: feed_loop.simps [of s d] feed_loop.simps [of _ r] strip_start_def)

lemma feed_loop_wait: "d \<noteq> [] \<Longrightarrow> strip_start s d = None \<Longrightarrow> feed_loop s d = (s\<lparr>pending := d\<rparr>, [])"
  by (simp add: feed_loop.simps)

lemma marker_update [simp]: "marker (s\<lparr>pending := p\<rparr>) = marker s" "marker (s\<lparr>atStart := a\<rparr>) = marker s"
  by (simp_all add: marker_def)

lemma not_atStart: "\<not> atStart s \<Longrightarrow> s\<lparr>atStart := False\<rparr> = s"
  by simp

lemma no_pending: "pending s = [] \<Longrightarrow> s\<lparr>pending := []\<rparr> = s"
  by (cases s) simp

lemma feed_loop_body:
  assumes "\<not> atStart s" "d \<noteq> []"
  shows "feed_loop s d =
    (case Index d (marker s) of
       None \<Rightarrow>
         let k = markerPrefixOverlap d (marker s); emit = take (length d - k) d in
         (s\<lparr>pending := drop (length d - k) d\<rparr>, if emit \<noteq> [] then [\<lparr>Thinking = inThink s, Text = emit\<rparr>] else [])
     | Some i \<Rightarrow>
         case feed_loop (s\<lparr>inThink := \<not> inThink s, flipped := True, atStart := True\<rparr>) (drop (i + length (marker s)) d) of
           (s', out) \<Rightarrow> (s', (if 0 < i then [\<lparr>Thinking = inThink s, Text = take i d\<rparr>] else []) @ out))"
  using assms by (subst feed_loop.simps) (simp only: strip_start_def not_atStart Let_def if_False option.case simp_thms)

lemma feed_loop_hold:
  assumes "\<not> atStart s" "Index d (marker s) = None" "k = markerPrefixOverlap d (marker s)"
  shows "fst (feed_loop s d) = s\<lparr>pending := drop (length d - k) d\<rparr> \<or> d = []"
    and "attributed (snd (feed_loop s d)) = map (Pair (inThink s)) (take (length d - k) d)"
  using assms by (cases "d = []"; simp add: feed_loop_body Let_def)+

lemma feed_loop_flip:
  assumes "\<not> atStart s" "Index d (marker s) = Some i"
    "r = feed_loop (s\<lparr>inThink := \<not> inThink s, flipped := True, atStart := True\<rparr>) (drop (i + length (marker s)) d)"
  shows "fst (feed_loop s d) = fst r"
    and "attributed (snd (feed_loop s d)) = map (Pair (inThink s)) (take i d) @ attributed (snd r)"
  using assms by (cases "d = []"; simp add: feed_loop_body split: prod.split)+

text \<open>The cut lemma for the loop, first inside a section and then from any state.\<close>

lemma feed_loop_resume:
  assumes s: "\<not> atStart s" "pending s = []" and none: "Index d (marker s) = None"
  defines "k \<equiv> markerPrefixOverlap d (marker s)"
  defines "p \<equiv> drop (length d - k) d"
  shows "fst (feed_loop s (d @ c)) = fst (feed_loop s (p @ c))"
    and "attributed (snd (feed_loop s (d @ c))) =
      map (Pair (inThink s)) (take (length d - k) d) @ attributed (snd (feed_loop s (p @ c)))"
proof -
  let ?m = "marker s" and ?n = "length d - k"
  obtain e where e: "take ?n d = e" and dc: "d @ c = e @ p @ c" and n: "?n = length e"
    by (rule that [of "take ?n d"]) (simp_all add: p_def)
  have idx: "Index (d @ c) ?m = map_option ((+) ?n) (Index (p @ c) ?m)"
    using Index_resume [OF _ none] by (simp add: k_def p_def)
  have "fst (feed_loop s (d @ c)) = fst (feed_loop s (p @ c)) \<and>
    attributed (snd (feed_loop s (d @ c))) =
      map (Pair (inThink s)) (take ?n d) @ attributed (snd (feed_loop s (p @ c)))"
  proof (cases "Index (p @ c) ?m")
    case (Some i)
    with idx have i: "Index (d @ c) ?m = Some (?n + i)" by simp
    have "drop (?n + i + length ?m) (d @ c) = drop (i + length ?m) (p @ c)"
      and "take (?n + i) (d @ c) = take ?n d @ take i (p @ c)"
      unfolding dc n e [unfolded n] by (simp_all only: drop_append take_append) simp_all
    with feed_loop_flip [OF s(1) i refl] feed_loop_flip [OF s(1) Some refl] show ?thesis
      by (simp only: map_append append_assoc simp_thms)
  next
    case None
    with idx have none': "Index (d @ c) ?m = None" by simp
    let ?o = "markerPrefixOverlap (p @ c) ?m"
    have o: "markerPrefixOverlap (d @ c) ?m = ?o"
      using overlap_resume [OF _ none'] by (simp add: k_def p_def)
    have "?o \<le> length (p @ c)"
      using overlap_greatest(1) [of ?m "p @ c"] by (simp add: is_overlap_def)
    then have "drop (length (d @ c) - ?o) (d @ c) = drop (length (p @ c) - ?o) (p @ c)"
      and "take (length (d @ c) - ?o) (d @ c) = take ?n d @ take (length (p @ c) - ?o) (p @ c)"
      unfolding dc n e [unfolded n] by (simp_all only: drop_append take_append length_append) simp_all
    moreover from e n have "d @ c = [] \<Longrightarrow> p @ c = [] \<and> take ?n d = []" by (simp add: p_def)
    ultimately show ?thesis
      using feed_loop_hold [OF s(1) none' o [symmetric]] feed_loop_hold [OF s(1) None refl] s(2)
      by (cases "d @ c = []"; cases "p @ c = []") (auto simp only: map_append append_assoc feed_loop_Nil fst_conv snd_conv no_pending drop_Nil take_Nil)
  qed
  then show "fst (feed_loop s (d @ c)) = fst (feed_loop s (p @ c))"
    and "attributed (snd (feed_loop s (d @ c))) =
      map (Pair (inThink s)) (take ?n d) @ attributed (snd (feed_loop s (p @ c)))" by simp_all
qed

lemma feed_loop_append:
  assumes "pending s = []"
  shows "fst (feed_loop s (d @ c)) = fst (Feed (fst (feed_loop s d)) c) \<and>
    attributed (snd (feed_loop s (d @ c))) =
      attributed (snd (feed_loop s d)) @ attributed (snd (Feed (fst (feed_loop s d)) c))"
  using assms
proof (induction "length d" arbitrary: s d rule: less_induct)
  case less
  show ?case
  proof (cases "d = []")
    case True
    then show ?thesis using less.prems by (simp add: Feed_def no_pending)
  next
    case False
    show ?thesis
    proof (cases "strip_start s d")
      case None
      with False less.prems show ?thesis by (simp add: Feed_def feed_loop_wait no_pending)
    next
      case (Some r)
      define t where "t = s\<lparr>atStart := False\<rparr>"
      have t: "\<not> atStart t" "pending t = []" using less.prems by (simp_all add: t_def)
      have d: "feed_loop s d = feed_loop t r" "feed_loop s (d @ c) = feed_loop t (r @ c)"
        using feed_loop_start [OF False Some] feed_loop_start [of "d @ c" s "r @ c"]
          strip_start_append [OF Some] False by (simp_all add: t_def)
      have r: "r \<noteq> []" "length r \<le> length d"
        using strip_start_Nil [of s d] strip_start_length [OF Some] Some False by auto
      show ?thesis
      proof (cases "Index r (marker t)")
        case None
        note hold = feed_loop_hold [OF t(1) None refl] and res = feed_loop_resume [OF t None, of c]
        from hold(1) r have "Feed (fst (feed_loop t r)) c =
            feed_loop t (drop (length r - markerPrefixOverlap r (marker t)) r @ c)"
          using t by (simp add: Feed_def no_pending)
        with hold(2) res show ?thesis by (simp add: d)
      next
        case (Some i)
        have i: "i + length (marker t) \<le> length r"
          using Some prefix_length_le [of "marker t" "drop i r"] by (auto simp: Index_Some_iff)
        let ?u = "t\<lparr>inThink := \<not> inThink t, flipped := True, atStart := True\<rparr>"
        let ?d = "drop (i + length (marker t)) r"
        from marker_nonempty(2) [of t] have "0 < length (marker t)" by (simp only: length_greater_0_conv simp_thms)
        with r i have "length ?d < length d" by (simp del: length_greater_0_conv)
        from less.hyps [OF this, of ?u] have IH: "fst (feed_loop ?u (?d @ c)) = fst (Feed (fst (feed_loop ?u ?d)) c)"
          "attributed (snd (feed_loop ?u (?d @ c))) =
             attributed (snd (feed_loop ?u ?d)) @ attributed (snd (Feed (fst (feed_loop ?u ?d)) c))"
          using t by simp_all
        have cut: "drop (i + length (marker t)) (r @ c) = ?d @ c" "take i (r @ c) = take i r"
          using i by simp_all
        from feed_loop_flip [OF t(1) Some refl] feed_loop_flip [OF t(1) Index_append [OF Some] refl, of c] IH cut
        show ?thesis by (simp add: d)
      qed
    qed
  qed
qed

lemma Feed_append:
  "fst (Feed s (c1 @ c2)) = fst (Feed (fst (Feed s c1)) c2)"
  "attributed (snd (Feed s (c1 @ c2))) = attributed (snd (Feed s c1)) @ attributed (snd (Feed (fst (Feed s c1)) c2))"
  using feed_loop_append [of "s\<lparr>pending := []\<rparr>" "pending s @ c1" c2] by (simp_all add: Feed_def)

lemma Feed_Nil:
  assumes "pending s = []"
  shows "Feed s [] = (s, [])"
  using assms by (simp add: Feed_def no_pending)

lemma feed_all_concat:
  assumes "pending s = []"
  shows "fst (feed_all s cs) = fst (Feed s (concat cs)) \<and>
    attributed (snd (feed_all s cs)) = attributed (snd (Feed s (concat cs)))"
  using assms
proof (induction cs rule: rev_induct)
  case (snoc c cs)
  have "fst (feed_all s (cs @ [c])) = fst (Feed (fst (feed_all s cs)) c) \<and>
      attributed (snd (feed_all s (cs @ [c]))) =
        attributed (snd (feed_all s cs)) @ attributed (snd (Feed (fst (feed_all s cs)) c))"
    by (induction cs arbitrary: s) (simp_all add: split_beta)
  with snoc Feed_append [of s "concat cs" c] show ?case by simp
qed (simp add: Feed_Nil)

section \<open>Rendered responses\<close>

lemma strip_seps_seps:
  assumes "\<not> prefix sepBareToken x" "\<not> prefix ''>'' x"
  shows "strip_seps (concat (map (\<lambda>full. if full then sepFullToken else sepBareToken) seps) @ x) = x"
proof (induction seps)
  case (Cons full seps)
  let ?y = "concat (map (\<lambda>full. if full then sepFullToken else sepBareToken) seps) @ x"
  have "\<not> prefix ''>'' ?y"
    using assms by (cases seps) (auto simp: sepFullToken_def sepBareToken_def)
  with Cons show ?case by (simp add: strip_seps_full strip_seps_bare)
qed (simp add: strip_seps_none assms)

lemma strip_start_seps:
  assumes "\<not> prefix sepBareToken x" "\<not> prefix ''>'' x" "x \<noteq> []" "\<not> prefix x sepBareToken"
  shows "strip_start s (concat (map (\<lambda>full. if full then sepFullToken else sepBareToken) seps) @ x) = Some x \<or> \<not> atStart s"
  using assms strip_seps_seps [OF assms(1,2)] by (simp add: strip_start_def stripLeadingSeps_def)

lemma Index_text_marker:
  assumes none: "Index t (c # cs) = None" and c: "c \<notin> set cs"
  shows "Index (t @ (c # cs) @ z) (c # cs) = Some (length t)"
proof -
  let ?m = "c # cs"
  have "\<not> prefix ?m (drop j (t @ ?m @ z))" if j: "j < length t" for j
  proof
    assume "prefix ?m (drop j (t @ ?m @ z))"
    with j have p: "prefix ?m (drop j t @ ?m @ z)" by simp
    show False
    proof (cases "length ?m \<le> length (drop j t)")
      case True
      with p have "prefix ?m (drop j t)" by (rule prefix_append_short)
      with none j show False by (simp add: Index_None_iff)
    next
      case False
      let ?q = "length (drop j t)"
      have q: "0 < ?q" "?q < length ?m" using j False by simp_all
      from p q have "(drop j t @ ?m @ z) ! ?q = ?m ! ?q" by (metis nth_append prefix_def)
      then have "c = cs ! (?q - 1)" using q by (simp add: nth_append nth_Cons')
      moreover have "?q - 1 < length cs" using q by simp
      ultimately show False using c by (metis nth_mem)
    qed
  qed
  then show ?thesis by (auto simp: Index_Some_iff)
qed

lemma Index_marker:
  "Index t (marker_of b) = None \<Longrightarrow> Index (t @ marker_of b @ z) (marker_of b) = Some (length t)"
  using Index_text_marker [of t "hd (marker_of b)" "tl (marker_of b)" z]
  by (cases b) (simp_all add: marker_of_def thinkOpenMarker_def thinkCloseMarker_def)

lemma section_opens:
  assumes "\<not> prefix sepBareToken t" "\<not> prefix ''>'' t"
  shows "\<not> prefix sepBareToken (t @ marker_of b @ z)" "\<not> prefix ''>'' (t @ marker_of b @ z)"
    "\<not> prefix (t @ marker_of b @ z) sepBareToken"
proof -
  show "\<not> prefix ''>'' (t @ marker_of b @ z)"
    using assms(2) by (cases t) (auto simp: marker_of_def thinkOpenMarker_def thinkCloseMarker_def)
  show "\<not> prefix (t @ marker_of b @ z) sepBareToken"
    by (auto dest!: prefix_length_le simp: sepBareToken_def marker_of_def thinkOpenMarker_def thinkCloseMarker_def)
  show "\<not> prefix sepBareToken (t @ marker_of b @ z)"
  proof
    assume p: "prefix sepBareToken (t @ marker_of b @ z)"
    then have "prefix t sepBareToken" using assms(1) by (metis prefixI prefix_same_cases)
    then show False using p assms(1)
      by (auto simp: sepBareToken_def prefix_Cons marker_of_def thinkOpenMarker_def thinkCloseMarker_def split: if_splits)
  qed
qed

lemma feed_rendered:
  assumes "\<not> atStart s" "inThink s = b" "pending s = []" "Index t (marker_of b) = None"
    "rest = [] \<longrightarrow> markerPrefixOverlap t (marker_of b) = 0" "clean_sections b rest"
  shows "pending (fst (feed_loop s (t @ render_sections b rest))) = [] \<and>
    attributed (snd (feed_loop s (t @ render_sections b rest))) = map (Pair b) t @ section_bytes b rest"
  using assms
proof (induction rest arbitrary: s b t)
  case Nil
  have m: "marker s = marker_of b" using Nil by (simp add: marker_def)
  with Nil feed_loop_hold [of s t 0] show ?case by auto
next
  case (Cons sec rest)
  obtain seps u where sec: "sec = (seps, u)" by (cases sec)
  let ?z = "concat (map (\<lambda>full. if full then sepFullToken else sepBareToken) seps) @ u @ render_sections (\<not> b) rest"
  let ?x = "u @ render_sections (\<not> b) rest"
  define s1 where "s1 = s\<lparr>inThink := \<not> inThink s, flipped := True, atStart := True\<rparr>"
  have m: "marker s = marker_of b" using Cons.prems by (simp add: marker_def)
  have i: "Index (t @ render_sections b (sec # rest)) (marker s) = Some (length t)"
    using Index_marker [OF Cons.prems(4)] by (simp add: m sec)
  note flip = feed_loop_flip [OF Cons.prems(1) i refl, folded s1_def]
  from Cons.prems(6) sec have u: "Index u (marker_of (\<not> b)) = None" "\<not> prefix sepBareToken u" "\<not> prefix ''>'' u"
    "rest = [] \<longrightarrow> u \<noteq> [] \<and> \<not> prefix u sepBareToken \<and> markerPrefixOverlap u (marker_of (\<not> b)) = 0"
    "clean_sections (\<not> b) rest" by auto
  have x: "\<not> prefix sepBareToken ?x \<and> \<not> prefix ''>'' ?x \<and> ?x \<noteq> [] \<and> \<not> prefix ?x sepBareToken"
  proof (cases rest)
    case (Cons sec' rest')
    then show ?thesis using section_opens [OF u(2,3), of "\<not> b"] by (cases sec') auto
  qed (use u in simp)
  have "strip_start s1 ?z = Some ?x" using strip_start_seps [of ?x s1 seps] x by (simp add: s1_def)
  moreover have "?z \<noteq> []" using x by simp
  ultimately have start: "feed_loop s1 ?z = feed_loop (s1\<lparr>atStart := False\<rparr>) ?x" by (intro feed_loop_start)
  have "drop (length t + length (marker s)) (t @ render_sections b (sec # rest)) = ?z"
    by (simp add: m sec)
  with flip start Cons.IH [of "s1\<lparr>atStart := False\<rparr>" "\<not> b" u] u Cons.prems(2,3) show ?case
    by (simp add: s1_def sec)
qed

section \<open>Properties\<close>

lemma feed_loop_pending:
  "pending s = [] \<Longrightarrow> \<not> atStart (fst (feed_loop s d)) \<Longrightarrow>
   length (pending (fst (feed_loop s d))) < length (marker (fst (feed_loop s d)))"
proof (induction "length d" arbitrary: s d rule: less_induct)
  case less
  show ?case
  proof (cases "d = [] \<or> strip_start s d = None")
    case True
    then show ?thesis using less.prems marker_nonempty(2) [of s] by (cases "d = []") (auto simp: feed_loop_wait strip_start_def split: if_splits)
  next
    case False
    then obtain r where r: "strip_start s d = Some r" "d \<noteq> []" by auto
    define t where "t = s\<lparr>atStart := False\<rparr>"
    have t: "\<not> atStart t" "pending t = []" using less.prems by (simp_all add: t_def)
    have d: "feed_loop s d = feed_loop t r" using feed_loop_start [OF r(2,1)] by (simp add: t_def)
    show ?thesis
    proof (cases "Index r (marker t)")
      case None
      with feed_loop_hold(1) [OF t(1) None refl] overlap_greatest(1) [of "marker t" r] t(2) marker_nonempty(2) [of t]
      show ?thesis by (auto simp: d is_overlap_def)
    next
      case (Some i)
      have i: "i + length (marker t) \<le> length r"
        using Some prefix_length_le [of "marker t" "drop i r"] by (auto simp: Index_Some_iff)
      from marker_nonempty(2) [of t] have "0 < length (marker t)" by (simp only: length_greater_0_conv simp_thms)
      with i strip_start_length [OF r(1)] have "length (drop (i + length (marker t)) r) < length d"
        by (simp del: length_greater_0_conv)
      from less.hyps [OF this, of "t\<lparr>inThink := \<not> inThink t, flipped := True, atStart := True\<rparr>"]
        feed_loop_flip(1) [OF t(1) Some refl] t(2) less.prems(2) show ?thesis by (simp add: d)
    qed
  qed
qed

text \<open>
  Chunking is invisible. Wherever a response is cut into chunks, feeding the chunks one by one leaves the scanner in exactly the
  state of classifying the whole text at once, and the emitted segments attribute the same bytes to thinking and answer in the
  same order. Inside a section the scanner holds back fewer bytes than the marker it waits for.
\<close>

theorem Feed_chunks:
  assumes "chunks \<noteq> []"
  shows "fst (feed_all s chunks) = fst (Feed s (concat chunks))"
    and "attributed (snd (feed_all s chunks)) = attributed (snd (Feed s (concat chunks)))"
    and "\<not> atStart (fst (feed_all s chunks)) \<Longrightarrow>
      length (pending (fst (feed_all s chunks))) < length (marker (fst (feed_all s chunks)))"
proof -
  obtain c cs where "chunks = c # cs" using assms by (cases chunks) auto
  moreover have *: "fst (feed_all s (c # cs)) = fst (Feed s (concat (c # cs))) \<and>
      attributed (snd (feed_all s (c # cs))) = attributed (snd (Feed s (concat (c # cs))))"
  proof (induction cs arbitrary: s c)
    case (Cons c' cs)
    from Cons.IH [of "fst (Feed s c)" c'] Feed_append [of s c "concat (c' # cs)"] show ?case
      by (simp add: split_beta)
  qed (simp add: split_beta)
  ultimately show eq: "fst (feed_all s chunks) = fst (Feed s (concat chunks))"
    "attributed (snd (feed_all s chunks)) = attributed (snd (Feed s (concat chunks)))" by simp_all
  show "\<not> atStart (fst (feed_all s chunks)) \<Longrightarrow>
      length (pending (fst (feed_all s chunks))) < length (marker (fst (feed_all s chunks)))"
    unfolding eq Feed_def by (rule feed_loop_pending) simp_all
qed

lemma scan_render_facts:
  assumes "clean_sections False secs" "Index t thinkOpenMarker = None"
    and "secs = [] \<Longrightarrow> markerPrefixOverlap t thinkOpenMarker = 0"
    and "concat chunks = t @ render_sections False secs"
  shows "attributed (snd (feed_all NewScanner chunks)) = map (Pair False) t @ section_bytes False secs"
    and "pending (fst (feed_all NewScanner chunks)) = []"
proof -
  have n: "pending NewScanner = []" "\<not> atStart NewScanner" "inThink NewScanner = False" by (simp_all add: NewScanner_def)
  have m: "marker_of False = thinkOpenMarker" by (simp add: marker_of_def)
  have "Feed NewScanner (concat chunks) = feed_loop NewScanner (t @ render_sections False secs)"
    using assms(4) n by (simp add: Feed_def no_pending)
  with feed_all_concat [OF n(1), of chunks] feed_rendered [OF n(2,3,1), of t secs] assms(1-3)
  show "attributed (snd (feed_all NewScanner chunks)) = map (Pair False) t @ section_bytes False secs"
    and "pending (fst (feed_all NewScanner chunks)) = []" by (simp_all add: m)
qed

text \<open>
  C27 (sections are recovered). A response rendered as an opening text and alternating thinking and answer sections, with any mixture of
  bare and full separators behind the markers and cut into chunks anywhere, even inside a marker, is classified back into
  exactly those sections: every byte of a section text is emitted under its section, no byte of a marker or separator is, and nothing is held back at the
  end.
\<close>

theorem scan_render:
  assumes "clean_sections False secs" "Index t thinkOpenMarker = None"
    and "secs = [] \<Longrightarrow> markerPrefixOverlap t thinkOpenMarker = 0"
    and "concat chunks = t @ render_sections False secs"
  shows "attributed (snd (feed_all NewScanner chunks)) = map (Pair False) t @ section_bytes False secs \<and>
    pending (fst (feed_all NewScanner chunks)) = []"
  using scan_render_facts [OF assms] by (rule conjI)

text \<open>
  A marker-free answer is cut. A message with one text block that holds no marker, and does not open like a separator, still changes
  when the text ends in the beginning of a marker, for instance in an opening angle bracket: the rewritten body has lost that ending.
\<close>

theorem marker_free_text_truncated:
  assumes "Index t thinkOpenMarker = None" "\<not> prefix sepBareToken t" "\<not> prefix t sepBareToken"
    and "k = markerPrefixOverlap t thinkOpenMarker" "0 < k"
  shows "RewriteAnthropicMessage (JObj [(''content'', JArr [JObj [(''type'', JStr ''text''), (''text'', JStr t)]])]) =
      Some (JObj [(''content'', JArr [JObj [(''type'', JStr ''text''), (''text'', JStr (take (length t - k) t))]])], True)"
proof -
  define s where "s = Seed False NewScanner"
  define u where "u = s\<lparr>atStart := False\<rparr>"
  have u: "\<not> atStart u" "marker u = thinkOpenMarker" "\<not> inThink u" "\<not> flipped u"
    by (simp_all add: u_def s_def Seed_def NewScanner_def marker_def marker_of_def)
  have t: "t \<noteq> []" using assms(3) by auto
  have k: "k \<le> length t" using overlap_greatest(1) [of thinkOpenMarker t] assms(4) by (simp add: thinkOpenMarker_def is_overlap_def)
  have "strip_start s t = Some t"
    using assms(2,3) t by (simp add: s_def strip_start_def Seed_def stripLeadingSeps_def strip_seps_none)
  moreover have pend: "pending s = []" by (simp add: s_def Seed_def)
  ultimately have f: "Feed s t = feed_loop u t"
    using feed_loop_start [of t s t] t by (simp add: Feed_def u_def no_pending)
  have body: "feed_loop u t = (u\<lparr>pending := drop (length t - k) t\<rparr>,
      if take (length t - k) t \<noteq> [] then [\<lparr>Thinking = inThink u, Text = take (length t - k) t\<rparr>] else [])"
    using feed_loop_body [OF u(1) t] assms(1,4) by (simp add: u(2) Let_def)
  have j: "joined (snd (feed_loop u t)) = take (length t - k) t" "\<not> Flipped (fst (feed_loop u t))"
    by (simp_all add: body joined_def Flipped_def u(4))
  have "take (length t - k) t \<noteq> t" using k t assms(5) by (metis diff_less length_greater_0_conv length_take min.absorb2 less_imp_le_nat nat_neq_iff)
  with f j show ?thesis
    by (simp add: member_def find_row_def str_member_def set_member_def s_def split_beta Let_def)
qed

theorem Feed_chunks_witness:
  "fst (feed_all NewScanner [''a<|op'', ''en|>thi'', ''nkb'']) = fst (Feed NewScanner ''a<|open|>thinkb'') \<and>
   attributed (snd (feed_all NewScanner [''a<|op'', ''en|>thi'', ''nkb''])) = [(False, CHR ''a''), (True, CHR ''b'')] \<and>
   [''a<|op'', ''en|>thi'', ''nkb''] \<noteq> []"
proof -
  have "attributed (snd (Feed NewScanner ''a<|open|>thinkb'')) = [(False, CHR ''a''), (True, CHR ''b'')]"
    by code_simp
  then show ?thesis using Feed_chunks [of "[''a<|op'', ''en|>thi'', ''nkb'']" NewScanner] by simp
qed

theorem scan_render_witness:
  "attributed (snd (feed_all NewScanner [''<|open|>think<|s'', ''ep|<|sep|>why<|close|>th'', ''inkyes''])) =
     map (Pair True) ''why'' @ map (Pair False) ''yes''"
proof -
  have "clean_sections False [([False, True], ''why''), ([], ''yes'')]" by code_simp
  moreover have "Index [] thinkOpenMarker = None" by code_simp
  moreover have "concat [''<|open|>think<|s'', ''ep|<|sep|>why<|close|>th'', ''inkyes''] =
      [] @ render_sections False [([False, True], ''why''), ([], ''yes'')]"
    by code_simp
  ultimately show ?thesis
    using scan_render [of "[([False, True], ''why''), ([], ''yes'')]" "[]"]
    by (simp del: feed_all.simps render_sections.simps clean_sections.simps)
qed

theorem marker_free_text_truncated_witness:
  "RewriteAnthropicMessage (JObj [(''content'', JArr [JObj [(''type'', JStr ''text''), (''text'', JStr ''1 <'')]])]) =
     Some (JObj [(''content'', JArr [JObj [(''type'', JStr ''text''), (''text'', JStr ''1 '')]])], True)"
proof -
  have "Index ''1 <'' thinkOpenMarker = None" and "\<not> prefix sepBareToken ''1 <''" "\<not> prefix ''1 <'' sepBareToken"
    "1 = markerPrefixOverlap ''1 <'' thinkOpenMarker" by code_simp+
  from marker_free_text_truncated [OF this] show ?thesis by (simp del: RewriteAnthropicMessage.simps)
qed

end
