(* ===== verification/Think_Stream.thy ===== *)
theory Think_Stream
  imports Think_Scanner Go_Text
begin

text \<open>
  The streaming half of \<^verbatim>\<open>internal/thinkfix\<close>: the rewriter of an Anthropic event stream (\<^verbatim>\<open>anthropic_sse.go\<close>) and the choice of the
  responses it is put on (\<^verbatim>\<open>proxy.go\<close>).

  A frame is what \<^verbatim>\<open>step\<close> sees of it: either text it forwards as it is (comments, keep-alives, data that is not a JSON object), or an event
  name with a decoded object. The record \<open>Rewriter\<close> has the fields of \<^verbatim>\<open>AnthropicSSERewriter\<close> that the handlers use; every handler returns the
  rewriter after the call and the frames the call writes. An \<^verbatim>\<open>upBlock\<close> lives in the map \<open>blocks\<close> only, so the pointer the Go code
  passes around is its key. Block indices count the blocks of one response and stay integers.

  \<open>protocol\<close> is the stream grammar of the Messages API as the package describes it: blocks one at a time, indices dense from 0, every
  delta inside a block of its kind. The simulation \<open>rewriter_rel\<close> shows that a conforming stream is rewritten to a conforming stream that says what the
  scanner says of the upstream blocks.
\<close>

section \<open>Frames and messages\<close>

type_synonym obj = "(string \<times> json) list"

datatype frame =
    Opaque string
  | Frame string obj

definition asInt :: "json \<Rightarrow> int" where
  "asInt v = (case v of JNum n \<Rightarrow> n | _ \<Rightarrow> 0)"

definition obj_member :: "string \<Rightarrow> obj \<Rightarrow> obj" where
  "obj_member k msg = (case member k msg of JObj o' \<Rightarrow> o' | _ \<Rightarrow> [])"

definition msg_type :: "obj \<Rightarrow> string" where
  "msg_type msg = str_member ''type'' msg"

definition msg_index :: "obj \<Rightarrow> int" where
  "msg_index msg = asInt (member ''index'' msg)"

definition start_kind :: "obj \<Rightarrow> string" where
  "start_kind msg = str_member ''type'' (obj_member ''content_block'' msg)"

definition delta_type :: "obj \<Rightarrow> string" where
  "delta_type msg = str_member ''type'' (obj_member ''delta'' msg)"

definition scannable :: "string \<Rightarrow> bool" where
  "scannable kind \<longleftrightarrow> kind = ''text'' \<or> kind = ''thinking''"

text \<open>The text of a delta, \<open>None\<close> for the deltas that are not scanned.\<close>

definition delta_text :: "obj \<Rightarrow> string option" where
  "delta_text msg =
     (if delta_type msg = ''text_delta'' then Some (str_member ''text'' (obj_member ''delta'' msg))
      else if delta_type msg = ''thinking_delta'' then Some (str_member ''thinking'' (obj_member ''delta'' msg))
      else None)"

section \<open>The rewriter\<close>

record synthBlock =
  synth_idx :: int
  synth_thinking :: bool
  synth_up :: int

record upBlock =
  up_kind :: string
  synthIdx :: int
  started :: bool
  otherBlock :: bool

record Rewriter =
  sc :: Scanner
  rewriting :: bool
  rawIdx :: int
  rawKind :: string
  nextSynth :: int
  cur :: "synthBlock option"
  blocks :: "int \<Rightarrow> upBlock option"

definition NewAnthropicSSERewriter :: Rewriter where
  "NewAnthropicSSERewriter =
     \<lparr>sc = NewScanner, rewriting = False, rawIdx = 0, rawKind = [], nextSynth = 0, cur = None, blocks = (\<lambda>_. None)\<rparr>"

text \<open>The payloads of the events the rewriter makes itself.\<close>

definition stop_event :: "int \<Rightarrow> frame" where
  "stop_event i = Frame ''content_block_stop'' [(''type'', JStr ''content_block_stop''), (''index'', JNum i)]"

definition start_event :: "int \<Rightarrow> string \<Rightarrow> frame" where
  "start_event i kind =
     Frame ''content_block_start''
       [(''type'', JStr ''content_block_start''), (''index'', JNum i),
        (''content_block'', JObj [(''type'', JStr kind), (kind, JStr [])])]"

definition delta_event :: "string \<Rightarrow> int \<Rightarrow> string \<Rightarrow> string \<Rightarrow> string \<Rightarrow> frame" where
  "delta_event name i dtype field text =
     Frame name
       [(''type'', JStr ''content_block_delta''), (''index'', JNum i),
        (''delta'', JObj [(''type'', JStr dtype), (field, JStr text)])]"

definition allocIdx :: "Rewriter \<Rightarrow> Rewriter \<times> int" where
  "allocIdx w = (w\<lparr>nextSynth := nextSynth w + 1\<rparr>, nextSynth w)"

definition closeCur :: "Rewriter \<Rightarrow> Rewriter \<times> frame list" where
  "closeCur w = (case cur w of None \<Rightarrow> (w, []) | Some c \<Rightarrow> (w\<lparr>cur := None\<rparr>, [stop_event (synth_idx c)]))"

definition upIndex :: "int \<Rightarrow> Rewriter \<Rightarrow> int" where
  "upIndex i w = (if blocks w i \<noteq> None then i else -1)"

definition update_block :: "int \<Rightarrow> (upBlock \<Rightarrow> upBlock) \<Rightarrow> Rewriter \<Rightarrow> Rewriter" where
  "update_block i f w = w\<lparr>blocks := (blocks w)(i := map_option f (blocks w i))\<rparr>"

definition ensureOpen :: "int \<Rightarrow> bool \<Rightarrow> Rewriter \<Rightarrow> Rewriter \<times> frame list" where
  "ensureOpen i thinking w =
     (if (case cur w of None \<Rightarrow> False | Some c \<Rightarrow> synth_up c = upIndex i w \<and> synth_thinking c = thinking) then (w, [])
      else
        case closeCur w of (w, closing) \<Rightarrow>
        case allocIdx w of (w, idx) \<Rightarrow>
        let w = update_block i (\<lambda>up. up\<lparr>synthIdx := idx, started := True\<rparr>) w in
        (w\<lparr>cur := Some \<lparr>synth_idx = idx, synth_thinking = thinking, synth_up = upIndex i w\<rparr>\<rparr>,
         closing @ [start_event idx (if thinking then ''thinking'' else ''text'')]))"

definition cur_idx :: "Rewriter \<Rightarrow> int" where
  "cur_idx w = (case cur w of None \<Rightarrow> 0 | Some c \<Rightarrow> synth_idx c)"

fun emit_merged :: "int \<Rightarrow> Segment list \<Rightarrow> Rewriter \<Rightarrow> Rewriter \<times> frame list" where
  "emit_merged i [] w = (w, [])"
| "emit_merged i (g # gs) w =
     (case ensureOpen i (Thinking g) w of (w, opening) \<Rightarrow>
      let delta =
        (if Text g = [] then []
         else if Thinking g then [delta_event ''content_block_delta'' (cur_idx w) ''thinking_delta'' ''thinking'' (Text g)]
         else [delta_event ''content_block_delta'' (cur_idx w) ''text_delta'' ''text'' (Text g)]) in
      case emit_merged i gs w of (w, rest) \<Rightarrow> (w, opening @ delta @ rest))"

definition emitSegments :: "int \<Rightarrow> Segment list \<Rightarrow> Rewriter \<Rightarrow> Rewriter \<times> frame list" where
  "emitSegments i segs w = emit_merged i (mergeSegments segs) w"

section \<open>The handlers\<close>

definition onBlockStart :: "string \<Rightarrow> frame \<Rightarrow> obj \<Rightarrow> Rewriter \<Rightarrow> Rewriter \<times> frame list" where
  "onBlockStart name frame msg w =
     (let idx = msg_index msg; kind = start_kind msg in
      if \<not> rewriting w then
        let w = w\<lparr>rawIdx := idx\<rparr> in
        (if scannable kind then w\<lparr>rawKind := kind, sc := Seed (kind = ''thinking'') (sc w)\<rparr> else w\<lparr>rawKind := []\<rparr>,
         [frame])
      else
        case closeCur w of (w, closing) \<Rightarrow>
        let up = \<lparr>up_kind = kind, synthIdx = -1, started = False, otherBlock = False\<rparr> in
        if \<not> scannable kind then
          case allocIdx w of (w, i) \<Rightarrow>
          (w\<lparr>blocks := (blocks w)(idx \<mapsto> up\<lparr>otherBlock := True, synthIdx := i, started := True\<rparr>),
             cur := Some \<lparr>synth_idx = i, synth_thinking = False, synth_up = idx\<rparr>\<rparr>,
           closing @ [Frame name (set_member ''index'' (JNum i) msg)])
        else (w\<lparr>blocks := (blocks w)(idx \<mapsto> up), sc := Seed (kind = ''thinking'') (sc w)\<rparr>, closing))"

definition onBlockDelta :: "string \<Rightarrow> frame \<Rightarrow> obj \<Rightarrow> Rewriter \<Rightarrow> Rewriter \<times> frame list" where
  "onBlockDelta name frame msg w =
     (let idx = msg_index msg; dtype = delta_type msg in
      case delta_text msg of
        None \<Rightarrow>
          (if rewriting w then
             case blocks w idx of
               Some up \<Rightarrow> (w, [Frame name (set_member ''index'' (JNum (synthIdx up)) msg)])
             | None \<Rightarrow> (w, [frame])
           else (w, [frame]))
      | Some text \<Rightarrow>
          if \<not> rewriting w then
            case Feed (sc w) text of (sc', segs) \<Rightarrow>
            let w = w\<lparr>sc := sc'\<rparr> in
            if \<not> Flipped sc' then
              let emitted = joined segs in
              (w, if emitted = text then [frame] else if emitted = [] then []
                  else [delta_event name idx dtype (if dtype = ''thinking_delta'' then ''thinking'' else ''text'') emitted])
            else
              emitSegments idx segs
                (w\<lparr>rewriting := True, nextSynth := idx + 1,
                   blocks := (blocks w)(idx \<mapsto> \<lparr>up_kind = rawKind w, synthIdx = idx, started = True, otherBlock = False\<rparr>),
                   cur := Some \<lparr>synth_idx = idx, synth_thinking = (rawKind w = ''thinking''), synth_up = idx\<rparr>\<rparr>)
          else
            case blocks w idx of
              None \<Rightarrow> (w, [frame])
            | Some up \<Rightarrow>
                if otherBlock up then (w, [Frame name (set_member ''index'' (JNum (synthIdx up)) msg)])
                else case Feed (sc w) text of (sc', segs) \<Rightarrow> emitSegments idx segs (w\<lparr>sc := sc'\<rparr>))"

definition onBlockStop :: "frame \<Rightarrow> obj \<Rightarrow> Rewriter \<Rightarrow> Rewriter \<times> frame list" where
  "onBlockStop frame msg w =
     (if \<not> rewriting w then (w, [frame])
      else
        let idx = msg_index msg in
        case blocks w idx of
          None \<Rightarrow> (w, [frame])
        | Some up \<Rightarrow>
            let w = w\<lparr>blocks := (blocks w)(idx := None)\<rparr>;
                current = (case cur w of None \<Rightarrow> False | Some c \<Rightarrow> synth_up c = idx) in
            if otherBlock up then (if current then closeCur w else (w, [stop_event (synthIdx up)]))
            else if current then closeCur w
            else if \<not> started up then
              case allocIdx w of (w, i) \<Rightarrow> (w, [start_event i (up_kind up), stop_event i])
            else (w, []))"

definition step :: "frame \<Rightarrow> Rewriter \<Rightarrow> Rewriter \<times> frame list" where
  "step frame w =
     (case frame of
        Opaque _ \<Rightarrow> (w, [frame])
      | Frame ename msg \<Rightarrow>
          let typ = msg_type msg; name = (if ename = [] then typ else ename) in
          if typ = ''content_block_start'' then onBlockStart name frame msg w
          else if typ = ''content_block_delta'' then onBlockDelta name frame msg w
          else if typ = ''content_block_stop'' then onBlockStop frame msg w
          else if typ = ''message_stop'' then (case closeCur w of (w, closing) \<Rightarrow> (w, closing @ [frame]))
          else (w, [frame]))"

definition finish_stream :: "Rewriter \<Rightarrow> Rewriter \<times> frame list" where
  "finish_stream w = closeCur (w\<lparr>sc := fst (Flush (sc w))\<rparr>)"

text \<open>What \<^verbatim>\<open>Read\<close> delivers until the end of the stream.\<close>

fun step_all :: "frame list \<Rightarrow> Rewriter \<Rightarrow> Rewriter \<times> frame list" where
  "step_all [] w = (w, [])"
| "step_all (f # fs) w = (case step f w of (w, o1) \<Rightarrow> case step_all fs w of (w, o2) \<Rightarrow> (w, o1 @ o2))"

definition rewrite_stream :: "frame list \<Rightarrow> Rewriter \<times> frame list" where
  "rewrite_stream fs =
     (case step_all fs NewAnthropicSSERewriter of (w, o1) \<Rightarrow>
      case finish_stream w of (w, o2) \<Rightarrow> (w, o1 @ o2))"

section \<open>Frames as text\<close>

text \<open>\<^verbatim>\<open>readSSEFrame\<close>: the lines up to and including the first blank one, and the rest of the stream; \<open>None\<close> at the end of the stream.\<close>

function read_lines :: "string \<Rightarrow> string \<Rightarrow> (string \<times> string) option" where
  "read_lines acc s =
     (case dropWhile (\<lambda>c. c \<noteq> nl) s of
        [] \<Rightarrow> (if acc @ s = [] then None else Some (acc @ s, []))
      | c # rest \<Rightarrow>
          let line = takeWhile (\<lambda>c. c \<noteq> nl) s @ [nl] in
          if TrimRight [cr, nl] line = [] then Some (acc @ line, rest) else read_lines (acc @ line) rest)"
  by auto
termination
proof (relation "measure (length \<circ> snd)")
  fix acc s :: string and c rest line
  assume "dropWhile (\<lambda>c. c \<noteq> nl) s = c # rest"
  moreover have "length (dropWhile (\<lambda>c. c \<noteq> nl) s) \<le> length s" by (rule length_dropWhile_le)
  ultimately show "((acc @ line, rest), acc, s) \<in> measure (length \<circ> snd)" by simp
qed simp

declare read_lines.simps [simp del]

definition readSSEFrame :: "string \<Rightarrow> (string \<times> string) option" where
  "readSSEFrame s = read_lines [] s"

fun parse_lines :: "string \<Rightarrow> string option \<Rightarrow> string list \<Rightarrow> (string \<times> string) option" where
  "parse_lines name data [] = map_option (Pair name) data"
| "parse_lines name data (l # ls) =
     (let line = TrimRight [cr] l in
      if prefix ''event: '' line then
        (if name \<noteq> [] then None else parse_lines (TrimSpace (drop 7 line)) data ls)
      else if prefix ''data: '' line then
        (if data \<noteq> None then None else parse_lines name (Some (drop 6 line)) ls)
      else None)"

definition parseSSEFrame :: "string \<Rightarrow> (string \<times> string) option" where
  "parseSSEFrame frame = parse_lines [] None (split_at nl (TrimRight [cr, nl] frame))"

text \<open>The text \<^verbatim>\<open>emitEvent\<close> writes for marshalled data.\<close>

definition emitEvent :: "string \<Rightarrow> string \<Rightarrow> string" where
  "emitEvent name data =
     (if name = [] then ''data: '' @ data @ [nl, nl] else ''event: '' @ name @ [nl] @ ''data: '' @ data @ [nl, nl])"

section \<open>The choice of responses\<close>

datatype wrapping = Unwrapped | Stream_rewriter | Json_rewriter

text \<open>\<^verbatim>\<open>MaybeWrapResponse\<close> for a response with its request: which body the client gets. \<open>None\<close> is a response that has no request.\<close>

definition MaybeWrapResponse :: "(string \<times> string) option \<Rightarrow> int \<Rightarrow> string \<Rightarrow> string \<Rightarrow> wrapping" where
  "MaybeWrapResponse request status contentEncoding contentType =
     (case request of None \<Rightarrow> Unwrapped | Some (meth, path) \<Rightarrow>
        if meth \<noteq> ''POST'' \<or> \<not> suffix ''/v1/messages'' path \<or> status \<noteq> 200 then Unwrapped
        else if contentEncoding \<noteq> [] \<and> contentEncoding \<noteq> ''identity'' then Unwrapped
        else if prefix ''text/event-stream'' contentType then Stream_rewriter
        else if prefix ''application/json'' contentType then Json_rewriter
        else Unwrapped)"

section \<open>The stream protocol\<close>

text \<open>
  The grammar: the open block with its kind, and the index the next block has to carry. A text delta belongs into a text block, a thinking delta
  into a thinking block and any other delta into a block of another kind; a message stops with no block open.
\<close>

record proto =
  open_block :: "(int \<times> string) option"
  next_index :: int

definition proto_init :: proto where
  "proto_init = \<lparr>open_block = None, next_index = 0\<rparr>"

definition delta_fits :: "string \<Rightarrow> obj \<Rightarrow> bool" where
  "delta_fits kind msg \<longleftrightarrow>
     (if delta_type msg = ''text_delta'' then kind = ''text''
      else if delta_type msg = ''thinking_delta'' then kind = ''thinking''
      else \<not> scannable kind)"

definition protocol :: "frame \<Rightarrow> proto \<Rightarrow> proto option" where
  "protocol f st =
     (case f of
        Opaque _ \<Rightarrow> Some st
      | Frame _ msg \<Rightarrow>
          if msg_type msg = ''content_block_start'' then
            (if open_block st = None \<and> msg_index msg = next_index st
             then Some \<lparr>open_block = Some (msg_index msg, start_kind msg), next_index = next_index st + 1\<rparr> else None)
          else if msg_type msg = ''content_block_delta'' then
            (case open_block st of
               Some (i, kind) \<Rightarrow> if msg_index msg = i \<and> delta_fits kind msg then Some st else None
             | None \<Rightarrow> None)
          else if msg_type msg = ''content_block_stop'' then
            (case open_block st of
               Some (i, kind) \<Rightarrow> if msg_index msg = i then Some (st\<lparr>open_block := None\<rparr>) else None
             | None \<Rightarrow> None)
          else if msg_type msg = ''message_stop'' then (if open_block st = None then Some st else None)
          else Some st)"

fun conforms :: "frame list \<Rightarrow> proto \<Rightarrow> proto option" where
  "conforms [] st = Some st"
| "conforms (f # fs) st = (case protocol f st of None \<Rightarrow> None | Some st' \<Rightarrow> conforms fs st')"

text \<open>What a stream says (the bytes of its deltas by kind), and what the scanner says of it block by block.\<close>

definition frame_bytes :: "frame \<Rightarrow> (bool \<times> char) list" where
  "frame_bytes f =
     (case f of Opaque _ \<Rightarrow> [] | Frame _ msg \<Rightarrow>
        if msg_type msg \<noteq> ''content_block_delta'' then []
        else case delta_text msg of None \<Rightarrow> [] | Some t \<Rightarrow> map (Pair (delta_type msg = ''thinking_delta'')) t)"

definition stream_bytes :: "frame list \<Rightarrow> (bool \<times> char) list" where
  "stream_bytes fs = concat (map frame_bytes fs)"

definition scan_frame :: "frame \<Rightarrow> Scanner \<Rightarrow> Scanner \<times> Segment list" where
  "scan_frame f s =
     (case f of Opaque _ \<Rightarrow> (s, []) | Frame _ msg \<Rightarrow>
        if msg_type msg = ''content_block_start'' then
          (if scannable (start_kind msg) then Seed (start_kind msg = ''thinking'') s else s, [])
        else if msg_type msg = ''content_block_delta'' then
          (case delta_text msg of None \<Rightarrow> (s, []) | Some t \<Rightarrow> Feed s t)
        else (s, []))"

fun scan_stream :: "frame list \<Rightarrow> Scanner \<Rightarrow> (bool \<times> char) list" where
  "scan_stream [] s = []"
| "scan_stream (f # fs) s = (case scan_frame f s of (s', segs) \<Rightarrow> attributed segs @ scan_stream fs s')"

section \<open>The simulation\<close>

text \<open>
  Before the first marker the stream is forwarded in step with the upstream; afterwards an upstream block is the one entry of the map, and the
  downstream block that is open is the current one.
\<close>

definition raw_rel :: "Rewriter \<Rightarrow> proto \<Rightarrow> proto \<Rightarrow> bool" where
  "raw_rel w up down \<longleftrightarrow>
     \<not> rewriting w \<and> \<not> flipped (sc w) \<and> cur w = None \<and> blocks w = (\<lambda>_. None) \<and> down = up \<and>
     (\<forall>i k. open_block up = Some (i, k) \<longrightarrow>
        next_index up = i + 1 \<and> (scannable k \<longrightarrow> rawKind w = k \<and> inThink (sc w) = (k = ''thinking'')))"

definition down_kind :: "string \<Rightarrow> synthBlock \<Rightarrow> string" where
  "down_kind k c = (if scannable k then if synth_thinking c then ''thinking'' else ''text'' else k)"

definition block_rel :: "Rewriter \<Rightarrow> int \<Rightarrow> string \<Rightarrow> proto \<Rightarrow> bool" where
  "block_rel w i k down \<longleftrightarrow>
     rewriting w \<and> nextSynth w = next_index down \<and>
     (\<exists>u. blocks w = (\<lambda>_. None)(i \<mapsto> u) \<and> up_kind u = k \<and> otherBlock u = (\<not> scannable k) \<and>
        (case cur w of
           None \<Rightarrow> open_block down = None \<and> \<not> started u \<and> scannable k
         | Some c \<Rightarrow> synth_up c = i \<and> synthIdx u = synth_idx c \<and> started u \<and>
                     open_block down = Some (synth_idx c, down_kind k c)))"

definition rewriter_rel :: "Rewriter \<Rightarrow> proto \<Rightarrow> proto \<Rightarrow> bool" where
  "rewriter_rel w up down \<longleftrightarrow>
     raw_rel w up down \<or>
     (case open_block up of
        None \<Rightarrow> rewriting w \<and> cur w = None \<and> blocks w = (\<lambda>_. None) \<and> open_block down = None \<and> nextSynth w = next_index down
      | Some (i, k) \<Rightarrow> block_rel w i k down)"

text \<open>What a step from \<open>w\<close> on frame \<open>f\<close> has to give: a conforming continuation, related states, and the bytes the scanner attributes.\<close>

definition simulates :: "frame \<Rightarrow> Rewriter \<Rightarrow> proto \<Rightarrow> proto \<Rightarrow> Rewriter \<times> frame list \<Rightarrow> bool" where
  "simulates f w up' down r \<longleftrightarrow>
     (\<exists>down'. conforms (snd r) down = Some down' \<and> rewriter_rel (fst r) up' down' \<and>
        sc (fst r) = fst (scan_frame f (sc w)) \<and> stream_bytes (snd r) = attributed (snd (scan_frame f (sc w))))"

section \<open>Lemmas on messages\<close>

named_theorems msg_simps \<open>reading the members of a message\<close>

declare member_set_member [msg_simps]

lemma set_index [msg_simps]:
  "msg_type (set_member ''index'' v msg) = msg_type msg"
  "msg_index (set_member ''index'' (JNum i) msg) = i"
  "start_kind (set_member ''index'' v msg) = start_kind msg"
  "delta_type (set_member ''index'' v msg) = delta_type msg"
  "delta_text (set_member ''index'' v msg) = delta_text msg"
  by (simp_all add: msg_type_def msg_index_def start_kind_def delta_type_def delta_text_def obj_member_def str_member_def
      member_set_member asInt_def)

lemmas reading = msg_type_def msg_index_def start_kind_def delta_type_def delta_text_def obj_member_def str_member_def
  member_def find_row_def asInt_def

lemma protocol_start:
  "scannable kind \<Longrightarrow> protocol (start_event i kind) st =
     (if open_block st = None \<and> i = next_index st then Some \<lparr>open_block = Some (i, kind), next_index = i + 1\<rparr> else None)"
  by (auto simp: protocol_def start_event_def scannable_def reading)

lemma protocol_stop:
  "open_block st = Some (i, kind) \<Longrightarrow> protocol (stop_event i) st = Some (st\<lparr>open_block := None\<rparr>)"
  by (simp add: protocol_def stop_event_def reading)

lemma protocol_delta:
  "open_block st = Some (i, if b then ''thinking'' else ''text'') \<Longrightarrow>
   protocol (delta_event name i (if b then ''thinking_delta'' else ''text_delta'') (if b then ''thinking'' else ''text'') t) st = Some st"
  by (simp add: protocol_def delta_event_def delta_fits_def reading)

lemma event_bytes:
  "frame_bytes (start_event i kind) = []" "frame_bytes (stop_event i) = []"
  "frame_bytes (delta_event name i (if b then ''thinking_delta'' else ''text_delta'') (if b then ''thinking'' else ''text'') t) =
     map (Pair b) t"
  by (simp_all add: frame_bytes_def start_event_def stop_event_def delta_event_def reading)

lemma stream_bytes_simps [simp]:
  "stream_bytes [] = []" "stream_bytes (f # fs) = frame_bytes f @ stream_bytes fs"
  "stream_bytes (xs @ ys) = stream_bytes xs @ stream_bytes ys"
  by (simp_all add: stream_bytes_def)

lemma conforms_append: "conforms (xs @ ys) st = (case conforms xs st of None \<Rightarrow> None | Some st' \<Rightarrow> conforms ys st')"
  by (induction xs arbitrary: st) (auto split: option.splits)

section \<open>Lemmas on scanning\<close>

lemma feed_loop_flipped: "flipped s \<Longrightarrow> flipped (fst (feed_loop s d))"
proof (induction s d rule: feed_loop.induct)
  case (1 s d)
  show ?case
    by (subst feed_loop.simps)
       (auto simp: Let_def "1.prems" split: option.split prod.split dest!: "1.IH" [OF _ _ refl refl])
qed

lemma feed_loop_unflipped:
  assumes "\<not> flipped (fst (feed_loop s d))"
  shows "inThink (fst (feed_loop s d)) = inThink s" "attributed (snd (feed_loop s d)) = map (Pair (inThink s)) (joined (snd (feed_loop s d)))"
proof -
  have "inThink (fst (feed_loop s d)) = inThink s \<and> (\<forall>g\<in>set (snd (feed_loop s d)). Thinking g = inThink s)"
  proof (cases "d = [] \<or> strip_start s d = None")
    case True
    then show ?thesis by (cases "d = []") (auto simp: feed_loop_wait)
  next
    case False
    then obtain r where r: "strip_start s d = Some r" "d \<noteq> []" by auto
    let ?t = "s\<lparr>atStart := False\<rparr>"
    have d: "feed_loop s d = feed_loop ?t r" using feed_loop_start [OF r(2,1)] by simp
    have "r \<noteq> []" using r strip_start_Nil [of s d] by auto
    note body = feed_loop_body [of ?t r, OF _ this]
    show ?thesis
    proof (cases "Index r (marker ?t)")
      case None
      then show ?thesis by (simp add: d body Let_def)
    next
      case (Some i)
      have "flipped (fst (feed_loop ?t r))"
        using feed_loop_flip(1) [of ?t r i, OF _ Some refl] feed_loop_flipped by simp
      with assms d show ?thesis by simp
    qed
  qed
  then show "inThink (fst (feed_loop s d)) = inThink s"
    and "attributed (snd (feed_loop s d)) = map (Pair (inThink s)) (joined (snd (feed_loop s d)))"
    by (auto simp: attributed_def joined_def map_concat intro!: arg_cong [where f = concat])
qed

lemma Feed_unflipped:
  assumes "\<not> flipped (fst (Feed s t))"
  shows "inThink (fst (Feed s t)) = inThink s" "attributed (snd (Feed s t)) = map (Pair (inThink s)) (joined (snd (Feed s t)))"
  using feed_loop_unflipped [of "s\<lparr>pending := []\<rparr>" "pending s @ t"] assms by (simp_all add: Feed_def)

lemma attributed_merge: "attributed (mergeSegments segs) = attributed segs"
  by (induction segs rule: mergeSegments.induct) auto

section \<open>Lemmas on frames as text\<close>

lemma read_lines_line:
  assumes "nl \<notin> set l"
  shows "read_lines acc (l @ nl # s) =
    (if TrimRight [cr, nl] l = [] then Some (acc @ l @ [nl], s) else read_lines (acc @ l @ [nl]) s)"
proof -
  from assms have "\<forall>c\<in>set l. c \<noteq> nl" by auto
  then have "takeWhile (\<lambda>c. c \<noteq> nl) (l @ nl # s) = l" "dropWhile (\<lambda>c. c \<noteq> nl) (l @ nl # s) = nl # s" by simp_all
  then show ?thesis by (subst read_lines.simps) (simp add: TrimRight_drop)
qed

text \<open>An event the rewriter writes is read back as one frame with its name and its data, whatever follows in the stream.\<close>

lemma emitEvent_reads_back:
  assumes name: "name \<noteq> []" "\<forall>c\<in>set name. plain_char c"
    and data: "data \<noteq> []" "set data \<inter> {cr, nl} = {}"
  shows "readSSEFrame (emitEvent name data @ rest) = Some (emitEvent name data, rest)"
    and "parseSSEFrame (emitEvent name data) = Some (name, data)"
proof -
  let ?l1 = "''event: '' @ name" and ?l2 = "''data: '' @ data"
  have e: "emitEvent name data = ?l1 @ nl # ?l2 @ nl # [] @ nl # []" using name by (simp add: emitEvent_def)
  have nls: "nl \<notin> set ?l1" "nl \<notin> set ?l2" using name data by (auto simp: plain_char_def ascii_spaces_def nl_def)
  have "plain_char (last name)" "last data \<notin> {cr, nl}" using name data last_in_set by blast+
  then have lasts: "last ?l1 \<notin> {cr, nl}" "last ?l2 \<notin> {cr, nl}" using name data by (auto simp: plain_char_def ascii_spaces_def)
  then have trims: "TrimRight [cr, nl] ?l1 = ?l1" "TrimRight [cr, nl] ?l2 = ?l2" "TrimRight [cr] ?l1 = ?l1" "TrimRight [cr] ?l2 = ?l2"
    by (auto intro!: TrimRight_id)
  show "readSSEFrame (emitEvent name data @ rest) = Some (emitEvent name data, rest)"
    using trims nls read_lines_line [of ?l1 "[]" "?l2 @ nl # [] @ nl # rest"] read_lines_line [of ?l2 "?l1 @ [nl]" "[] @ nl # rest"]
      read_lines_line [of "[]" "?l1 @ [nl] @ ?l2 @ [nl]" rest]
    unfolding readSSEFrame_def e by (simp add: TrimRight_def [of _ "[]"])
  have t: "TrimSpace name = name"
    using name by (intro TrimSpace_plain) simp_all
  have "TrimRight [cr, nl] (emitEvent name data) = ?l1 @ nl # ?l2"
    using TrimRight_drop [of nl "[cr, nl]" "?l1 @ nl # ?l2 @ [nl]"] TrimRight_drop [of nl "[cr, nl]" "?l1 @ nl # ?l2"] lasts
    unfolding e by (simp add: TrimRight_id)
  then have "parseSSEFrame (emitEvent name data) = parse_lines [] None [?l1, ?l2]"
    unfolding parseSSEFrame_def using split_at_cut [OF nls(1)] split_at_plain [OF nls(2)] by (simp only:)
  also have "\<dots> = parse_lines name None [?l2]"
    unfolding parse_lines.simps(2) [of "[]" None ?l1] trims(3) Let_def using t by simp
  also have "\<dots> = Some (name, data)"
    unfolding parse_lines.simps(2) [of name None ?l2] trims(4) Let_def by simp
  finally show "parseSSEFrame (emitEvent name data) = Some (name, data)" .
qed

section \<open>The handlers keep the relation\<close>

lemma ensureOpen_rel:
  assumes rel: "block_rel w i k down" and k: "scannable k"
  obtains c down' where "conforms (snd (ensureOpen i b w)) down = Some down'" "block_rel (fst (ensureOpen i b w)) i k down'"
    "cur (fst (ensureOpen i b w)) = Some c" "synth_thinking c = b" "sc (fst (ensureOpen i b w)) = sc w"
    "stream_bytes (snd (ensureOpen i b w)) = []"
proof (cases "\<exists>c. cur w = Some c \<and> synth_up c = upIndex i w \<and> synth_thinking c = b")
  case True
  then obtain c where c: "cur w = Some c" "synth_up c = upIndex i w" "synth_thinking c = b" by auto
  then have "ensureOpen i b w = (w, [])" by (simp add: ensureOpen_def)
  with c rel show thesis by (intro that [of down c]) simp_all
next
  case False
  obtain u where u: "blocks w = (\<lambda>_. None)(i \<mapsto> u)" "up_kind u = k" "\<not> otherBlock u" "nextSynth w = next_index down" "rewriting w"
    using rel k by (auto simp: block_rel_def)
  let ?n = "nextSynth w" and ?kind = "if b then ''thinking'' else ''text''"
  let ?c = "\<lparr>synth_idx = ?n, synth_thinking = b, synth_up = i\<rparr>"
  let ?w = "w\<lparr>nextSynth := ?n + 1, cur := Some ?c, blocks := (\<lambda>_. None)(i \<mapsto> u\<lparr>synthIdx := ?n, started := True\<rparr>)\<rparr>"
  let ?closing = "case cur w of None \<Rightarrow> [] | Some c \<Rightarrow> [stop_event (synth_idx c)]"
  have e: "ensureOpen i b w = (?w, ?closing @ [start_event ?n ?kind])"
    using False u(1)
    by (cases "cur w") (auto simp: ensureOpen_def closeCur_def allocIdx_def update_block_def upIndex_def Let_def)
  have "conforms ?closing down = Some (down\<lparr>open_block := None\<rparr>)"
    using rel by (cases "cur w") (auto simp: block_rel_def protocol_stop)
  then have "conforms (?closing @ [start_event ?n ?kind]) down = Some \<lparr>open_block = Some (?n, ?kind), next_index = ?n + 1\<rparr>"
    using u(4) by (simp add: conforms_append protocol_start scannable_def)
  moreover have "block_rel ?w i k \<lparr>open_block = Some (?n, ?kind), next_index = ?n + 1\<rparr>"
    using u k by (auto simp: block_rel_def down_kind_def)
  moreover have "stream_bytes (?closing @ [start_event ?n ?kind]) = []" by (cases "cur w") (simp_all add: event_bytes)
  ultimately show thesis by (intro that [of "\<lparr>open_block = Some (?n, ?kind), next_index = ?n + 1\<rparr>" ?c]) (simp_all add: e)
qed

lemma emit_merged_rel:
  assumes "block_rel w i k down" "scannable k"
  shows "\<exists>down'. conforms (snd (emit_merged i gs w)) down = Some down' \<and> block_rel (fst (emit_merged i gs w)) i k down' \<and>
    sc (fst (emit_merged i gs w)) = sc w \<and> stream_bytes (snd (emit_merged i gs w)) = attributed gs"
  using assms
proof (induction gs arbitrary: w down)
  case (Cons g gs)
  obtain c d1 where o: "conforms (snd (ensureOpen i (Thinking g) w)) down = Some d1" "block_rel (fst (ensureOpen i (Thinking g) w)) i k d1"
    "cur (fst (ensureOpen i (Thinking g) w)) = Some c" "synth_thinking c = Thinking g" "sc (fst (ensureOpen i (Thinking g) w)) = sc w"
    "stream_bytes (snd (ensureOpen i (Thinking g) w)) = []"
    using ensureOpen_rel [OF Cons.prems] by blast
  let ?w = "fst (ensureOpen i (Thinking g) w)"
  let ?d = "if Text g = [] then [] else [delta_event ''content_block_delta'' (cur_idx ?w)
    (if Thinking g then ''thinking_delta'' else ''text_delta'') (if Thinking g then ''thinking'' else ''text'') (Text g)]"
  have "open_block d1 = Some (cur_idx ?w, if Thinking g then ''thinking'' else ''text'')"
    using o(2-4) Cons.prems(2) by (auto simp: block_rel_def cur_idx_def down_kind_def)
  then have d: "conforms ?d d1 = Some d1" using protocol_delta by simp
  have b: "stream_bytes ?d = map (Pair (Thinking g)) (Text g)" by (simp add: event_bytes)
  have e: "emit_merged i (g # gs) w = (fst (emit_merged i gs ?w), snd (ensureOpen i (Thinking g) w) @ ?d @ snd (emit_merged i gs ?w))"
    by (simp add: split_beta)
  from Cons.IH [OF o(2) Cons.prems(2)] o d b show ?case unfolding e by (auto simp: conforms_append simp del: emit_merged.simps)
qed simp

lemma emitSegments_rel:
  assumes "block_rel w i k down" "scannable k"
  obtains down' where "conforms (snd (emitSegments i segs w)) down = Some down'" "block_rel (fst (emitSegments i segs w)) i k down'"
    "sc (fst (emitSegments i segs w)) = sc w" "stream_bytes (snd (emitSegments i segs w)) = attributed segs"
  using emit_merged_rel [OF assms, of "mergeSegments segs"] by (auto simp: emitSegments_def attributed_merge)

lemma single_entry [simp]: "([i \<mapsto> u] = [i \<mapsto> v]) = (u = v)"
  by (metis fun_upd_same option.inject)

lemma block_rel_rewriting: "block_rel w i k down \<Longrightarrow> rewriting w"
  by (simp add: block_rel_def)

lemma rewriter_rel_cases:
  assumes "rewriter_rel w up down"
  obtains (raw) "raw_rel w up down"
    | (idle) "rewriting w" "open_block up = None" "cur w = None" "blocks w = (\<lambda>_. None)" "open_block down = None"
        "nextSynth w = next_index down"
    | (block) i k where "rewriting w" "open_block up = Some (i, k)" "block_rel w i k down"
  using assms by (auto simp: rewriter_rel_def split: option.splits dest: block_rel_rewriting)

lemma rel_blockI: "open_block up = Some (i, k) \<Longrightarrow> block_rel w i k down \<Longrightarrow> rewriter_rel w up down"
  by (simp add: rewriter_rel_def)

lemma emitSegments_simulates:
  assumes "block_rel w i k down" "scannable k" "open_block up = Some (i, k)" "scan_frame f (sc w0) = (sc w, segs)"
  shows "simulates f w0 up down (emitSegments i segs w)"
proof -
  obtain down' where "conforms (snd (emitSegments i segs w)) down = Some down'" "block_rel (fst (emitSegments i segs w)) i k down'"
    "sc (fst (emitSegments i segs w)) = sc w" "stream_bytes (snd (emitSegments i segs w)) = attributed segs"
    using emitSegments_rel [OF assms(1,2)] by blast
  with rel_blockI [OF assms(3)] assms(4) show ?thesis unfolding simulates_def by auto
qed

lemma onBlockStart_simulates:
  assumes rel: "rewriter_rel w up down" and p: "protocol f up = Some up'"
    and f: "f = Frame ename msg" "msg_type msg = ''content_block_start''"
  shows "simulates f w up' down (onBlockStart name f msg w)"
proof -
  from p f have up: "open_block up = None" "msg_index msg = next_index up"
    and up': "up' = \<lparr>open_block = Some (msg_index msg, start_kind msg), next_index = next_index up + 1\<rparr>"
    by (auto simp: protocol_def split: if_splits)
  have scan: "scan_frame f (sc w) = (if scannable (start_kind msg) then Seed (start_kind msg = ''thinking'') (sc w) else sc w, [])"
    using f by (simp add: scan_frame_def)
  have bytes: "frame_bytes f = []" using f by (simp add: frame_bytes_def)
  from rel show ?thesis
  proof (cases rule: rewriter_rel_cases)
    case raw
    then have "conforms [f] down = Some up'" using p by (auto simp: raw_rel_def)
    with raw show ?thesis
      by (auto simp: simulates_def onBlockStart_def Let_def scan bytes raw_rel_def rewriter_rel_def up' up(2) Seed_def)
  next
    case idle
    note st = idle
    show ?thesis
    proof (cases "scannable (start_kind msg)")
      case True
      with st show ?thesis
        by (auto simp: simulates_def onBlockStart_def Let_def scan closeCur_def up' block_rel_def intro!: rel_blockI)
    next
      case False
      let ?g = "Frame name (set_member ''index'' (JNum (nextSynth w)) msg)"
      have "protocol ?g down = Some \<lparr>open_block = Some (nextSynth w, start_kind msg), next_index = nextSynth w + 1\<rparr>"
        using st f by (simp add: protocol_def msg_simps)
      moreover have "frame_bytes ?g = []" using f by (simp add: frame_bytes_def msg_simps)
      ultimately show ?thesis using False st
        by (auto simp: simulates_def onBlockStart_def Let_def scan closeCur_def allocIdx_def up' block_rel_def down_kind_def
            intro!: rel_blockI)
    qed
  next
    case (block i k)
    with up show ?thesis by simp
  qed
qed

lemma onBlockStop_simulates:
  assumes rel: "rewriter_rel w up down" and p: "protocol f up = Some up'"
    and f: "f = Frame ename msg" "msg_type msg = ''content_block_stop''"
  shows "simulates f w up' down (onBlockStop f msg w)"
proof -
  from p f obtain i k where up: "open_block up = Some (i, k)" "msg_index msg = i" and up': "up' = up\<lparr>open_block := None\<rparr>"
    by (auto simp: protocol_def split: if_splits option.splits prod.splits)
  have scan: "scan_frame f (sc w) = (sc w, [])" using f by (simp add: scan_frame_def)
  have bytes: "frame_bytes f = []" using f by (simp add: frame_bytes_def)
  from rel show ?thesis
  proof (cases rule: rewriter_rel_cases)
    case raw
    then have "conforms [f] down = Some up'" using p by (auto simp: raw_rel_def)
    with raw show ?thesis
      by (auto simp: simulates_def onBlockStop_def scan bytes raw_rel_def rewriter_rel_def up')
  next
    case idle
    with up show ?thesis by simp
  next
    case (block j k')
    with up have rel': "block_rel w i k down" by simp
    then obtain u where u: "blocks w = (\<lambda>_. None)(i \<mapsto> u)" "up_kind u = k" "otherBlock u = (\<not> scannable k)" by (auto simp: block_rel_def)
    show ?thesis
    proof (cases "cur w")
      case None
      with rel' u have "\<not> started u" "scannable k" "open_block down = None" "nextSynth w = next_index down" "rewriting w"
        by (auto simp: block_rel_def)
      with None u up show ?thesis
        by (auto simp: simulates_def onBlockStop_def Let_def scan allocIdx_def protocol_start protocol_stop event_bytes rewriter_rel_def up' fun_eq_iff)
    next
      case (Some c)
      with rel' u have "synth_up c = i" "open_block down = Some (synth_idx c, down_kind k c)" "nextSynth w = next_index down" "rewriting w"
        by (auto simp: block_rel_def)
      with Some u up show ?thesis
        by (auto simp: simulates_def onBlockStop_def Let_def scan closeCur_def protocol_stop event_bytes rewriter_rel_def up' fun_eq_iff)
    qed
  qed
qed

lemma onBlockDelta_other:
  assumes rel: "rewriter_rel w up down" and p: "protocol f up = Some up"
    and f: "f = Frame ename msg" "msg_type msg = ''content_block_delta''"
    and up: "open_block up = Some (i, k)" "msg_index msg = i" and fits: "delta_fits k msg"
    and None: "delta_text msg = None"
  shows "simulates f w up down (onBlockDelta name f msg w)"
proof -
  have k: "\<not> scannable k" using fits None by (auto simp: delta_text_def delta_fits_def split: if_splits)
  have scan: "scan_frame f (sc w) = (sc w, [])" and bytes: "frame_bytes f = []"
    using f None by (simp_all add: scan_frame_def frame_bytes_def)
  from rel show ?thesis
  proof (cases rule: rewriter_rel_cases)
    case raw
    with p show ?thesis by (auto simp: simulates_def onBlockDelta_def None scan bytes raw_rel_def rewriter_rel_def)
  next
    case idle
    with up show ?thesis by simp
  next
    case (block j k')
    with up have rel': "block_rel w i k down" by simp
    with k obtain u where u: "blocks w i = Some u" "open_block down = Some (synthIdx u, k)"
      by (auto simp: block_rel_def down_kind_def split: option.splits)
    let ?g = "Frame name (set_member ''index'' (JNum (synthIdx u)) msg)"
    have "protocol ?g down = Some down" using u f fits by (simp add: protocol_def msg_simps delta_fits_def)
    moreover have "frame_bytes ?g = []" using None by (simp add: frame_bytes_def msg_simps)
    ultimately show ?thesis using block u up rel' rel_blockI [OF up(1) rel']
      by (auto simp: simulates_def onBlockDelta_def None scan)
  qed
qed

lemma onBlockDelta_text:
  assumes rel: "rewriter_rel w up down" and p: "protocol f up = Some up"
    and f: "f = Frame ename msg" "msg_type msg = ''content_block_delta''"
    and up: "open_block up = Some (i, k)" "msg_index msg = i" and fits: "delta_fits k msg"
    and Some: "delta_text msg = Some t"
  shows "simulates f w up down (onBlockDelta name f msg w)"
proof -
  have k: "scannable k" and b: "(k = ''thinking'') = (delta_type msg = ''thinking_delta'')"
    and kk: "k = ''thinking'' \<or> k = ''text''"
    and dt: "delta_type msg = (if k = ''thinking'' then ''thinking_delta'' else ''text_delta'')"
    using fits Some by (auto simp: delta_text_def delta_fits_def scannable_def split: if_splits)
  have scan: "scan_frame f (sc w) = Feed (sc w) t" using f Some by (simp add: scan_frame_def)
  have bytes: "frame_bytes f = map (Pair (k = ''thinking'')) t" using f Some b by (simp add: frame_bytes_def)
  from rel show ?thesis
  proof (cases rule: rewriter_rel_cases)
    case raw
    have raw': "\<not> rewriting w" "down = up" "inThink (sc w) = (k = ''thinking'')" "rawKind w = k" "next_index up = i + 1"
      "blocks w = (\<lambda>_. None)" using raw up k by (auto simp: raw_rel_def)
    let ?F = "Feed (sc w) t"
    show ?thesis
    proof (cases "flipped (fst ?F)")
      case False
      note uf = Feed_unflipped [OF False]
      let ?out = "if joined (snd ?F) = t then [f] else if joined (snd ?F) = [] then []
        else [delta_event name i (delta_type msg) (if delta_type msg = ''thinking_delta'' then ''thinking'' else ''text'') (joined (snd ?F))]"
      have h: "onBlockDelta name f msg w = (w\<lparr>sc := fst ?F\<rparr>, ?out)"
        using raw' False up by (simp add: onBlockDelta_def Some split_beta Flipped_def Let_def)
      have "conforms ?out down = Some up"
        using protocol_delta [of up i "k = ''thinking''" name "joined (snd ?F)"] up kk p raw'(2) by (auto simp: dt)
      moreover have "stream_bytes ?out = map (Pair (k = ''thinking'')) (joined (snd ?F))"
        using bytes event_bytes(3) [of name i "k = ''thinking''" "joined (snd ?F)"] by (auto simp: dt)
      moreover have "raw_rel (w\<lparr>sc := fst ?F\<rparr>) up up" using raw False uf(1) by (auto simp: raw_rel_def)
      ultimately show ?thesis using uf raw'(3) by (auto simp: simulates_def h scan rewriter_rel_def)
    next
      case True
      let ?w = "w\<lparr>sc := fst ?F, rewriting := True, nextSynth := i + 1,
        blocks := (blocks w)(i \<mapsto> \<lparr>up_kind = rawKind w, synthIdx = i, started = True, otherBlock = False\<rparr>),
        cur := Some \<lparr>synth_idx = i, synth_thinking = (rawKind w = ''thinking''), synth_up = i\<rparr>\<rparr>"
      have h: "onBlockDelta name f msg w = emitSegments i (snd ?F) ?w"
        using raw' True up by (simp add: onBlockDelta_def Some split_beta Flipped_def Let_def)
      have "block_rel ?w i k down" using raw' up k kk by (auto simp: block_rel_def down_kind_def)
      then show ?thesis unfolding h by (rule emitSegments_simulates [OF _ k up(1)]) (simp add: scan)
    qed
  next
    case idle
    with up show ?thesis by simp
  next
    case (block j k')
    with up have rel': "block_rel w i k down" by simp
    then have rel'': "block_rel (w\<lparr>sc := fst (Feed (sc w) t)\<rparr>) i k down" by (auto simp: block_rel_def split: option.splits)
    have h: "onBlockDelta name f msg w = emitSegments i (snd (Feed (sc w) t)) (w\<lparr>sc := fst (Feed (sc w) t)\<rparr>)"
      using rel' k up block by (auto simp: onBlockDelta_def Some split_beta block_rel_def)
    from rel'' show ?thesis unfolding h by (rule emitSegments_simulates [OF _ k up(1)]) (simp add: scan)
  qed
qed

lemma onBlockDelta_simulates:
  assumes rel: "rewriter_rel w up down" and p: "protocol f up = Some up'"
    and f: "f = Frame ename msg" "msg_type msg = ''content_block_delta''"
  shows "simulates f w up' down (onBlockDelta name f msg w)"
proof -
  from p f obtain i k where up: "open_block up = Some (i, k)" "msg_index msg = i" and fits: "delta_fits k msg" and up': "up' = up"
    by (auto simp: protocol_def split: if_splits option.splits prod.splits)
  show ?thesis
    using onBlockDelta_other [OF rel _ f up fits] onBlockDelta_text [OF rel _ f up fits] p up' by (cases "delta_text msg") auto
qed

lemma step_simulates:
  assumes rel: "rewriter_rel w up down" and p: "protocol f up = Some up'"
  shows "simulates f w up' down (step f w)"
proof (cases f)
  case (Opaque t)
  with rel p show ?thesis by (auto simp: simulates_def step_def scan_frame_def frame_bytes_def protocol_def)
next
  case (Frame ename msg)
  note f = this
  let ?blocks = "{''content_block_start'', ''content_block_delta'', ''content_block_stop''}"
  show ?thesis
  proof (cases "msg_type msg \<in> ?blocks")
    case True
    then show ?thesis
      using f onBlockStart_simulates [OF rel p f] onBlockDelta_simulates [OF rel p f] onBlockStop_simulates [OF rel p f]
      by (auto simp: step_def Let_def)
  next
    case False
    then have up': "up' = up" "msg_type msg = ''message_stop'' \<longrightarrow> open_block up = None"
      using p f by (auto simp: protocol_def split: if_splits)
    have id: "scan_frame f (sc w) = (sc w, [])" "frame_bytes f = []" using f False by (auto simp: scan_frame_def frame_bytes_def)
    have idle: "cur w = None \<and> open_block down = None" if "open_block up = None"
      using rel that by (cases rule: rewriter_rel_cases) (auto simp: raw_rel_def)
    then have down: "protocol f down = Some down" using up' f False by (auto simp: protocol_def)
    with rel id f False idle up' show ?thesis by (auto simp: simulates_def step_def Let_def closeCur_def)
  qed
qed

lemma step_all_simulates:
  assumes "rewriter_rel w up down" "conforms fs up = Some up'"
  shows "\<exists>down'. conforms (snd (step_all fs w)) down = Some down' \<and> rewriter_rel (fst (step_all fs w)) up' down' \<and>
    stream_bytes (snd (step_all fs w)) = scan_stream fs (sc w)"
  using assms
proof (induction fs arbitrary: w up down)
  case (Cons f fs)
  from Cons.prems(2) obtain up1 where up1: "protocol f up = Some up1" "conforms fs up1 = Some up'" by (auto split: option.splits)
  from step_simulates [OF Cons.prems(1) up1(1)] obtain d1 where
    d1: "conforms (snd (step f w)) down = Some d1" "rewriter_rel (fst (step f w)) up1 d1"
      "sc (fst (step f w)) = fst (scan_frame f (sc w))" "stream_bytes (snd (step f w)) = attributed (snd (scan_frame f (sc w)))"
    by (auto simp: simulates_def)
  from Cons.IH [OF d1(2) up1(2)] d1 show ?case by (auto simp: split_beta conforms_append)
qed simp

lemma rewrite_stream_facts:
  assumes "conforms fs proto_init = Some up"
  shows "\<exists>down. conforms (snd (rewrite_stream fs)) proto_init = Some down \<and>
      (if rewriting (fst (rewrite_stream fs)) then open_block down = None else down = up)"
    and "stream_bytes (snd (rewrite_stream fs)) = scan_stream fs NewScanner"
proof -
  let ?w = "fst (step_all fs NewAnthropicSSERewriter)" and ?o = "snd (step_all fs NewAnthropicSSERewriter)"
  have "rewriter_rel NewAnthropicSSERewriter proto_init proto_init"
    by (simp add: rewriter_rel_def raw_rel_def NewAnthropicSSERewriter_def proto_init_def NewScanner_def)
  from step_all_simulates [OF this assms] obtain down where
    d: "conforms ?o proto_init = Some down" "rewriter_rel ?w up down" "stream_bytes ?o = scan_stream fs NewScanner"
    by (auto simp: NewAnthropicSSERewriter_def)
  let ?closing = "case cur ?w of None \<Rightarrow> [] | Some c \<Rightarrow> [stop_event (synth_idx c)]"
  have r: "snd (rewrite_stream fs) = ?o @ ?closing" "rewriting (fst (rewrite_stream fs)) = rewriting ?w"
    by (auto simp: rewrite_stream_def finish_stream_def closeCur_def split_beta split: option.splits)
  have "\<exists>down'. conforms ?closing down = Some down' \<and> (if rewriting ?w then open_block down' = None else down' = up)"
    using d(2)
  proof (cases rule: rewriter_rel_cases)
    case (block i k)
    then show ?thesis by (cases "cur ?w") (auto simp: block_rel_def protocol_stop)
  qed (auto simp: raw_rel_def)
  with d(1) show "\<exists>down. conforms (snd (rewrite_stream fs)) proto_init = Some down \<and>
      (if rewriting (fst (rewrite_stream fs)) then open_block down = None else down = up)"
    by (auto simp: r conforms_append)
  have "stream_bytes ?closing = []" by (cases "cur ?w") (simp_all add: event_bytes)
  with d(3) show "stream_bytes (snd (rewrite_stream fs)) = scan_stream fs NewScanner" by (simp add: r)
qed

text \<open>
  C26 (the rewritten stream). A stream that follows the block protocol of the Messages API is rewritten to a stream that follows it too: block
  indices stay dense from 0, blocks never overlap, every delta lies in an open block of its kind. The rewritten deltas say exactly what
  the scanner attributes to thinking and answer, block by block. Once the rewriter has restructured a stream, it leaves no block open at
  the end, even where the upstream was cut; before that it is in the upstream's own state.
\<close>

theorem rewrite_stream_conforms:
  assumes "conforms fs proto_init = Some up"
  shows "(\<exists>down. conforms (snd (rewrite_stream fs)) proto_init = Some down \<and>
      (if rewriting (fst (rewrite_stream fs)) then open_block down = None else down = up)) \<and>
    stream_bytes (snd (rewrite_stream fs)) = scan_stream fs NewScanner"
  using rewrite_stream_facts [OF assms] by (rule conjI)

text \<open>
  A delta for a block that was never opened. While a stream is being rewritten, the start of a text or thinking block is deferred to its first text.
  Any other delta that comes first, such as the signature of a thinking block, goes out with index -1.
\<close>

theorem deferred_block_misindexed:
  assumes "rewriting w" "cur w = None"
    and "msg_type m1 = ''content_block_start''" "scannable (start_kind m1)"
    and "msg_type m2 = ''content_block_delta''" "delta_text m2 = None" "msg_index m2 = msg_index m1"
  shows "snd (step_all [Frame n1 m1, Frame n2 m2] w) = [Frame (if n2 = [] then ''content_block_delta'' else n2) (set_member ''index'' (JNum (-1)) m2)]"
  using assms by (simp add: step_def onBlockStart_def onBlockDelta_def closeCur_def Let_def)


theorem rewrite_stream_conforms_witness:
  "let fs = [start_event 0 ''text'', delta_event [] 0 ''text_delta'' ''text'' ''<|open|>thinkwhy<|close|>thi'',
             delta_event [] 0 ''text_delta'' ''text'' ''nkyes'', stop_event 0] in
   (\<exists>down. conforms (snd (rewrite_stream fs)) proto_init = Some down \<and> open_block down = None) \<and>
   stream_bytes (snd (rewrite_stream fs)) = map (Pair True) ''why'' @ map (Pair False) ''yes''"
proof -
  let ?fs = "[start_event 0 ''text'', delta_event [] 0 ''text_delta'' ''text'' ''<|open|>thinkwhy<|close|>thi'',
             delta_event [] 0 ''text_delta'' ''text'' ''nkyes'', stop_event 0]"
  have c: "conforms ?fs proto_init = Some \<lparr>open_block = None, next_index = 1\<rparr>" by code_simp
  have s: "scan_stream ?fs NewScanner = map (Pair True) ''why'' @ map (Pair False) ''yes''" by code_simp
  obtain down where d: "conforms (snd (rewrite_stream ?fs)) proto_init = Some down"
    "if rewriting (fst (rewrite_stream ?fs)) then open_block down = None else down = \<lparr>open_block = None, next_index = 1\<rparr>"
    using conjunct1 [OF rewrite_stream_conforms [OF c]] by (elim exE conjE)
  from d(2) have "open_block down = None" by (cases "rewriting (fst (rewrite_stream ?fs))") simp_all
  with d(1) have "\<exists>down. conforms (snd (rewrite_stream ?fs)) proto_init = Some down \<and> open_block down = None"
    by (intro exI conjI)
  moreover have "stream_bytes (snd (rewrite_stream ?fs)) = map (Pair True) ''why'' @ map (Pair False) ''yes''"
    using conjunct2 [OF rewrite_stream_conforms [OF c]] s by (rule trans)
  ultimately show ?thesis unfolding Let_def by (intro conjI)
qed

theorem deferred_block_misindexed_witness:
  "let w = NewAnthropicSSERewriter\<lparr>rewriting := True, nextSynth := 2\<rparr>;
       m1 = [(''type'', JStr ''content_block_start''), (''index'', JNum 1), (''content_block'', JObj [(''type'', JStr ''thinking'')])];
       m2 = [(''type'', JStr ''content_block_delta''), (''index'', JNum 1), (''delta'', JObj [(''type'', JStr ''signature_delta'')])] in
   snd (step_all [Frame [] m1, Frame [] m2] w) = [Frame ''content_block_delta'' (set_member ''index'' (JNum (-1)) m2)]"
proof -
  let ?w = "NewAnthropicSSERewriter\<lparr>rewriting := True, nextSynth := 2\<rparr>"
  let ?m1 = "[(''type'', JStr ''content_block_start''), (''index'', JNum 1), (''content_block'', JObj [(''type'', JStr ''thinking'')])]"
  let ?m2 = "[(''type'', JStr ''content_block_delta''), (''index'', JNum 1), (''delta'', JObj [(''type'', JStr ''signature_delta'')])]"
  have "rewriting ?w" "cur ?w = None" by (simp_all add: NewAnthropicSSERewriter_def)
  moreover have "msg_type ?m1 = ''content_block_start''" "scannable (start_kind ?m1)" "msg_type ?m2 = ''content_block_delta''"
    "delta_text ?m2 = None" "msg_index ?m2 = msg_index ?m1"
    by (simp_all add: reading scannable_def)
  ultimately show ?thesis unfolding Let_def using deferred_block_misindexed [of ?w ?m1 ?m2 "[]" "[]"] by simp
qed

end
