(* ===== verification/Api_Keys.thy ===== *)
theory Api_Keys
  imports Go_Text
begin

text \<open>
  API keys: the table (\<^verbatim>\<open>internal/store/store.go\<close>, \<^verbatim>\<open>postgres.go\<close>), the verdict cache (\<^verbatim>\<open>internal/cache\<close>), the validator and its middleware
  (\<^verbatim>\<open>internal/auth\<close>), the key service (\<^verbatim>\<open>internal/keysvc\<close>) and its HTTP handlers (\<^verbatim>\<open>internal/keysapi\<close>), and the principal of the management
  API (\<^verbatim>\<open>internal/principal\<close>, \<^verbatim>\<open>internal/identity\<close>).

  The SHA-256 digest is the argument \<open>hash\<close>, the random bytes of a token and the clock are arguments of the calls. The cache is a map
  from key hashes to entries with an expiry. The locale \<open>ttl_cache\<close> is what the validator and the key service rely on: it is interpreted on the
  cache of the code, and the lemmas on verdicts are proved once in it.

  The lemmas show that over any sequence of calls an accepted token belongs to a key of the table, is charged to its owner, and is active or was revoked out of band at most
  the positive time-to-live ago; that a key revoked through the service is refused from then on; and that this last promise does not survive
  a validation that overlaps the revocation.
\<close>

section \<open>The cache\<close>

record 'v entry =
  e_val :: 'v
  expiresAt :: instant

type_synonym 'v cache = "string \<Rightarrow> 'v entry option"

definition cache_New :: "'v cache" where
  "cache_New = (\<lambda>_. None)"

definition cache_Get :: "instant \<Rightarrow> string \<Rightarrow> 'v cache \<Rightarrow> 'v option \<times> 'v cache" where
  "cache_Get now key c =
     (case c key of
        None \<Rightarrow> (None, c)
      | Some e \<Rightarrow> if now > expiresAt e then (None, c(key := None)) else (Some (e_val e), c))"

definition cache_Set :: "instant \<Rightarrow> string \<Rightarrow> 'v \<Rightarrow> int \<Rightarrow> 'v cache \<Rightarrow> 'v cache" where
  "cache_Set now key v ttl c = c(key \<mapsto> \<lparr>e_val = v, expiresAt = now + ttl\<rparr>)"

definition cache_Delete :: "string \<Rightarrow> 'v cache \<Rightarrow> 'v cache" where
  "cache_Delete key c = c(key := None)"

definition deleteExpired :: "instant \<Rightarrow> 'v cache \<Rightarrow> 'v cache" where
  "deleteExpired now c = (\<lambda>k. case c k of None \<Rightarrow> None | Some e \<Rightarrow> if now > expiresAt e then None else Some e)"

section \<open>The table of keys\<close>

datatype key_error = ErrUniqueHash | ErrTooManyKeys | ErrStore | ErrRandom

record KeyInfo =
  k_ID :: int
  KeyHash :: string
  k_UserID :: "string option"
  k_Name :: "string option"
  k_Prefix :: "string option"
  Active :: bool
  k_CreatedAt :: instant
  RevokedAt :: "instant option"

record key_table =
  api_keys :: "KeyInfo list"
  next_id :: int

definition HashKey :: "(string \<Rightarrow> string) \<Rightarrow> string \<Rightarrow> string" where
  "HashKey hash token = hash token"

text \<open>The account id and whether the key is active; no account id for a legacy key.\<close>

definition Validate :: "string \<Rightarrow> key_table \<Rightarrow> string \<times> bool" where
  "Validate keyHash t =
     (case find_row KeyHash keyHash (api_keys t) of
        None \<Rightarrow> ([], False)
      | Some k \<Rightarrow>
          if \<not> Active k then ([], Active k)
          else case k_UserID k of None \<Rightarrow> ([], Active k) | Some a \<Rightarrow> (a, True))"

definition insert_key :: "KeyInfo \<Rightarrow> key_table \<Rightarrow> key_error + (key_table \<times> KeyInfo)" where
  "insert_key k t =
     (if has_row KeyHash (KeyHash k) (api_keys t) then Inl ErrUniqueHash
      else let k = k\<lparr>k_ID := next_id t\<rparr> in
        Inr (t\<lparr>api_keys := api_keys t @ [k], next_id := next_id t + 1\<rparr>, k))"

definition Insert :: "instant \<Rightarrow> string \<Rightarrow> string \<Rightarrow> key_table \<Rightarrow> key_error + (key_table \<times> KeyInfo)" where
  "Insert now keyHash name t =
     insert_key \<lparr>k_ID = 0, KeyHash = keyHash, k_UserID = None, k_Name = Some name, k_Prefix = None, Active = True,
       k_CreatedAt = now, RevokedAt = None\<rparr> t"

definition InsertUserKey :: "instant \<Rightarrow> string \<Rightarrow> string \<Rightarrow> string \<Rightarrow> string \<Rightarrow> key_table \<Rightarrow> key_error + (key_table \<times> KeyInfo)" where
  "InsertUserKey now userID keyHash name pre t =
     insert_key \<lparr>k_ID = 0, KeyHash = keyHash, k_UserID = Some userID, k_Name = Some name, k_Prefix = Some pre, Active = True,
       k_CreatedAt = now, RevokedAt = None\<rparr> t"

definition revoke_mark :: "instant \<Rightarrow> KeyInfo \<Rightarrow> KeyInfo" where
  "revoke_mark now k = k\<lparr>Active := False, RevokedAt := Some now\<rparr>"

definition key_Revoke :: "instant \<Rightarrow> string \<Rightarrow> key_table \<Rightarrow> key_table \<times> bool" where
  "key_Revoke now keyHash t =
     (t\<lparr>api_keys := map (\<lambda>k. if KeyHash k = keyHash \<and> Active k then revoke_mark now k else k) (api_keys t)\<rparr>,
      list_ex (\<lambda>k. KeyHash k = keyHash \<and> Active k) (api_keys t))"

definition RevokeByIDForUser :: "instant \<Rightarrow> string \<Rightarrow> int \<Rightarrow> key_table \<Rightarrow> key_table \<times> string option" where
  "RevokeByIDForUser now userID i t =
     (case List.find (\<lambda>k. k_ID k = i \<and> k_UserID k = Some userID \<and> Active k) (api_keys t) of
        None \<Rightarrow> (t, None)
      | Some k \<Rightarrow> (t\<lparr>api_keys := update_row k_ID i (revoke_mark now) (api_keys t)\<rparr>, Some (KeyHash k)))"

definition CountActiveByUser :: "string \<Rightarrow> key_table \<Rightarrow> int" where
  "CountActiveByUser userID t = int (length (filter (\<lambda>k. k_UserID k = Some userID \<and> Active k) (api_keys t)))"

text \<open>The listings; rows made at the same instant come in an order the database chooses, here that of insertion.\<close>

definition coalesce :: "string option \<Rightarrow> string option" where
  "coalesce v = (case v of None \<Rightarrow> Some [] | Some t \<Rightarrow> Some t)"

definition key_List :: "key_table \<Rightarrow> KeyInfo list" where
  "key_List t = map (\<lambda>k. k\<lparr>k_ID := 0, k_UserID := None, k_Name := coalesce (k_Name k), k_Prefix := None\<rparr>) (sort_key k_CreatedAt (api_keys t))"

definition ListByUser :: "string \<Rightarrow> key_table \<Rightarrow> KeyInfo list" where
  "ListByUser userID t =
     map (\<lambda>k. k\<lparr>KeyHash := [], k_Name := coalesce (k_Name k), k_Prefix := coalesce (k_Prefix k)\<rparr>) (rev (sort_key k_CreatedAt (filter (\<lambda>k. k_UserID k = Some userID) (api_keys t))))"

section \<open>The key service\<close>

definition hex_digit :: "nat \<Rightarrow> char" where
  "hex_digit n = (if n < 10 then char_of (48 + n) else char_of (87 + n))"

definition EncodeHex :: "nat list \<Rightarrow> string" where
  "EncodeHex bs = concat (map (\<lambda>b. [hex_digit (b div 16), hex_digit (b mod 16)]) bs)"

text \<open>\<open>random\<close> is what \<^verbatim>\<open>rand.Read\<close> puts into the 24 bytes, \<open>None\<close> where it fails.\<close>

definition GenerateToken :: "nat list option \<Rightarrow> string option" where
  "GenerateToken random = map_option (\<lambda>b. ''sk-'' @ EncodeHex b) random"

definition key_Prefix :: "string \<Rightarrow> string" where
  "key_Prefix token = (if length token < 11 then token else take 11 token)"

record Verdict =
  Valid_flag :: bool
  v_AccountID :: string

record key_service =
  k_table :: key_table
  verdicts :: "Verdict cache"

definition Create :: "(string \<Rightarrow> string) \<Rightarrow> int \<Rightarrow> instant \<Rightarrow> nat list option \<Rightarrow> string \<Rightarrow> string \<Rightarrow> key_service
    \<Rightarrow> key_error + (key_service \<times> string \<times> KeyInfo)" where
  "Create hash maxPerUser now random userID name s =
     (if CountActiveByUser userID (k_table s) \<ge> maxPerUser then Inl ErrTooManyKeys
      else case GenerateToken random of
        None \<Rightarrow> Inl ErrRandom
      | Some token \<Rightarrow>
          rbind (InsertUserKey now userID (HashKey hash token) name (key_Prefix token) (k_table s))
            (\<lambda>(t, info). Inr (s\<lparr>k_table := t\<rparr>, token, info)))"

definition service_Revoke :: "instant \<Rightarrow> string \<Rightarrow> int \<Rightarrow> key_service \<Rightarrow> key_service \<times> bool" where
  "service_Revoke now userID i s =
     (case RevokeByIDForUser now userID i (k_table s) of
        (t, None) \<Rightarrow> (s\<lparr>k_table := t\<rparr>, False)
      | (t, Some keyHash) \<Rightarrow> (s\<lparr>k_table := t, verdicts := cache_Delete keyHash (verdicts s)\<rparr>, True))"

section \<open>The validator\<close>

text \<open>
  \<^verbatim>\<open>Valid\<close> over the two cache operations it calls and the store's \<^verbatim>\<open>Validate\<close>, which may fail. The call is cut where it
  leaves the cache for the store: \<open>verdict_miss\<close> is what it does with the store's answer.
\<close>

definition verdict_miss :: "(instant \<Rightarrow> string \<Rightarrow> Verdict \<Rightarrow> int \<Rightarrow> 'c \<Rightarrow> 'c) \<Rightarrow> int \<Rightarrow> int \<Rightarrow> instant \<Rightarrow> string \<Rightarrow>
    key_error + (string \<times> bool) \<Rightarrow> 'c \<Rightarrow> (key_error + (string \<times> bool)) \<times> 'c" where
  "verdict_miss put posTTL negTTL now h answer c =
     (case answer of
        Inl e \<Rightarrow> (Inl e, c)
      | Inr (i, valid) \<Rightarrow>
          (Inr (i, valid), put now h \<lparr>Valid_flag = valid, v_AccountID = i\<rparr> (if \<not> valid then negTTL else posTTL) c))"

definition cached_verdict :: "(instant \<Rightarrow> string \<Rightarrow> 'c \<Rightarrow> Verdict option \<times> 'c) \<Rightarrow> (instant \<Rightarrow> string \<Rightarrow> Verdict \<Rightarrow> int \<Rightarrow> 'c \<Rightarrow> 'c) \<Rightarrow>
    int \<Rightarrow> int \<Rightarrow> instant \<Rightarrow> string \<Rightarrow> key_error + (string \<times> bool) \<Rightarrow> 'c \<Rightarrow> (key_error + (string \<times> bool)) \<times> 'c" where
  "cached_verdict get put posTTL negTTL now h answer c =
     (case get now h c of
        (Some v, c) \<Rightarrow> (Inr (v_AccountID v, Valid_flag v), c)
      | (None, c) \<Rightarrow> verdict_miss put posTTL negTTL now h answer c)"

text \<open>\<^verbatim>\<open>Validator.Valid\<close> against the table; \<open>reachable\<close> is False where the store query fails.\<close>

definition store_answer :: "bool \<Rightarrow> string \<Rightarrow> key_table \<Rightarrow> key_error + (string \<times> bool)" where
  "store_answer reachable h t = (if reachable then Inr (Validate h t) else Inl ErrStore)"

definition Valid :: "(string \<Rightarrow> string) \<Rightarrow> int \<Rightarrow> int \<Rightarrow> instant \<Rightarrow> bool \<Rightarrow> string \<Rightarrow> key_service \<Rightarrow> (key_error + (string \<times> bool)) \<times> key_service" where
  "Valid hash posTTL negTTL now reachable token s =
     (let h = HashKey hash token in
      case cached_verdict cache_Get cache_Set posTTL negTTL now h (store_answer reachable h (k_table s)) (verdicts s) of
        (r, c) \<Rightarrow> (r, s\<lparr>verdicts := c\<rparr>))"

section \<open>The middleware of the proxy\<close>

definition bearerPrefix :: string where
  "bearerPrefix = ''bearer ''"

definition bearerToken :: "string \<Rightarrow> string option" where
  "bearerToken header =
     (if length header < length bearerPrefix \<or> \<not> EqualFold (take (length bearerPrefix) header) bearerPrefix then None
      else let token = TrimSpace (drop (length bearerPrefix) header) in if token = [] then None else Some token)"

text \<open>A missing header is the empty string.\<close>

definition credential :: "string \<Rightarrow> string \<Rightarrow> string option" where
  "credential authorization xApiKey =
     (case bearerToken authorization of
        Some token \<Rightarrow> Some token
      | None \<Rightarrow> let key = TrimSpace xApiKey in if key \<noteq> [] then Some key else None)"

datatype admission = Reject int | Next "string option"

text \<open>\<^verbatim>\<open>account.WithID\<close>: an empty id is stored as absent.\<close>

definition WithID :: "string \<Rightarrow> string option" where
  "WithID i = (if i = [] then None else Some i)"

definition Middleware :: "bool \<Rightarrow> (string \<Rightarrow> key_service \<Rightarrow> (key_error + (string \<times> bool)) \<times> key_service) \<Rightarrow>
    string \<Rightarrow> string \<Rightarrow> key_service \<Rightarrow> admission \<times> key_service" where
  "Middleware enforceAccount valid authorization xApiKey s =
     (case credential authorization xApiKey of
        None \<Rightarrow> (Reject 401, s)
      | Some token \<Rightarrow>
          case valid token s of
            (Inl _, s) \<Rightarrow> (Reject 503, s)
          | (Inr (accountID, ok), s) \<Rightarrow>
              if \<not> ok then (Reject 401, s)
              else if enforceAccount \<and> accountID = [] then (Reject 402, s)
              else (Next (WithID accountID), s))"

section \<open>The management handlers\<close>

text \<open>
  The handlers of \<^verbatim>\<open>keysapi.Routes\<close>: the status, and the body as far as it names a key. \<open>name\<close> is the decoded request body, \<open>None\<close> where
  \<^verbatim>\<open>DecodeStrict\<close> refuses it.
\<close>

definition maxNameLen :: nat where
  "maxNameLen = 100"

definition post_key :: "(string \<Rightarrow> string) \<Rightarrow> int \<Rightarrow> instant \<Rightarrow> nat list option \<Rightarrow> string \<Rightarrow> string option \<Rightarrow> key_service \<Rightarrow>
    (int \<times> (string \<times> KeyInfo) option) \<times> key_service" where
  "post_key hash maxPerUser now random userID name s =
     (case name of None \<Rightarrow> ((400, None), s) | Some name \<Rightarrow>
        if length name > maxNameLen then ((400, None), s)
        else case Create hash maxPerUser now random userID name s of
          Inl e \<Rightarrow> ((if e = ErrTooManyKeys then 409 else 503, None), s)
        | Inr (s, token, info) \<Rightarrow> ((201, Some (token, info)), s))"

definition get_keys :: "string \<Rightarrow> key_service \<Rightarrow> int \<times> KeyInfo list" where
  "get_keys userID s = (200, ListByUser userID (k_table s))"

definition delete_key :: "instant \<Rightarrow> string \<Rightarrow> string \<Rightarrow> key_service \<Rightarrow> int \<times> key_service" where
  "delete_key now userID path s =
     (case ParseInt path of
        None \<Rightarrow> (400, s)
      | Some i \<Rightarrow> case service_Revoke now userID i s of (s, changed) \<Rightarrow> (if \<not> changed then 404 else 204, s))"

section \<open>Principals\<close>

definition maxDomainLen :: nat where
  "maxDomainLen = 253"

definition label_char :: "char \<Rightarrow> bool" where
  "label_char ch \<longleftrightarrow>
     (let n = of_char ch :: nat in 97 \<le> n \<and> n \<le> 122 \<or> 48 \<le> n \<and> n \<le> 57) \<or> ch = CHR ''-''"

definition label_ok :: "string \<Rightarrow> bool" where
  "label_ok l \<longleftrightarrow> l \<noteq> [] \<and> length l \<le> 63 \<and> list_all label_char l \<and> hd l \<noteq> CHR ''-'' \<and> last l \<noteq> CHR ''-''"

text \<open>\<open>None\<close> is any of the errors.\<close>

definition NormalizeRuleDomain :: "string \<Rightarrow> string option" where
  "NormalizeRuleDomain v =
     (let domain = ToLower (TrimSpace v) in
      if domain = [] \<or> length domain > maxDomainLen \<or> list_ex (\<lambda>c. c \<in> set [CHR '' '', CHR 0x09, cr, nl]) domain \<or>
         prefix ''.'' domain \<or> suffix ''.'' domain \<or> sublist ''..'' domain then None
      else if list_all label_ok (split_at CHR ''.'' domain) then Some domain else None)"

text \<open>\<open>last_at\<close> is the text before and after the final @ (\<^verbatim>\<open>strings.LastIndexByte\<close>).\<close>

fun last_at :: "string \<Rightarrow> (string \<times> string) option" where
  "last_at [] = None"
| "last_at (c # cs) =
     (case last_at cs of
        Some (a, b) \<Rightarrow> Some (c # a, b)
      | None \<Rightarrow> if c = CHR ''@'' then Some ([], cs) else None)"

definition DomainFromVerifiedEmail :: "string \<Rightarrow> string option" where
  "DomainFromVerifiedEmail email =
     (case last_at (TrimSpace email) of
        None \<Rightarrow> None
      | Some (user, domain) \<Rightarrow> if user = [] \<or> domain = [] then None else NormalizeRuleDomain domain)"

record Principal =
  p_Subject :: string
  p_Email :: string
  EmailDomain :: string
  EmailVerified :: bool
  VerifiedAt :: instant

record Claims =
  c_Subject :: string
  c_Email :: string
  c_EmailVerified :: bool

datatype principal_result = Unauthorized | Unavailable | Admit Principal

text \<open>\<^verbatim>\<open>principal.Middleware\<close>: \<open>verify\<close> checks the token, \<open>refresh\<close> is the identity refresher, True where it succeeds or is absent.\<close>

definition principal_of :: "Claims \<Rightarrow> instant \<Rightarrow> Principal" where
  "principal_of claims now =
     (let p = \<lparr>p_Subject = c_Subject claims, p_Email = c_Email claims, EmailDomain = [], EmailVerified = c_EmailVerified claims,
               VerifiedAt = now\<rparr> in
      if c_EmailVerified claims then
        case DomainFromVerifiedEmail (c_Email claims) of
          Some domain \<Rightarrow> p\<lparr>EmailDomain := domain\<rparr>
        | None \<Rightarrow> p\<lparr>EmailVerified := False\<rparr>
      else p)"

definition principal_Middleware :: "(string \<Rightarrow> Claims option) \<Rightarrow> (Principal \<Rightarrow> bool) \<Rightarrow> instant \<Rightarrow> string \<Rightarrow> principal_result" where
  "principal_Middleware verify refresh now authorization =
     (case bearerToken authorization of
        None \<Rightarrow> Unauthorized
      | Some token \<Rightarrow>
          case verify token of
            None \<Rightarrow> Unauthorized
          | Some claims \<Rightarrow>
              if c_Subject claims = [] then Unauthorized
              else let p = principal_of claims now in if refresh p then Admit p else Unavailable)"

section \<open>Runs\<close>

text \<open>The calls that change the service, each at its instant: requests, key management, the admin tool and the janitor.\<close>

datatype key_op =
    Authenticate bool string
  | Create_key "nat list option" string string
  | Revoke_key string int
  | Admin_insert string string
  | Admin_revoke string
  | Janitor

record key_config =
  kc_hash :: "string \<Rightarrow> string"
  kc_max :: int
  posTTL :: int
  negTTL :: int

fun exec_key :: "key_config \<Rightarrow> instant \<Rightarrow> key_op \<Rightarrow> key_service \<Rightarrow> key_service" where
  "exec_key cfg now (Authenticate reachable token) s = snd (Valid (kc_hash cfg) (posTTL cfg) (negTTL cfg) now reachable token s)"
| "exec_key cfg now (Create_key random userID name) s =
     (case Create (kc_hash cfg) (kc_max cfg) now random userID name s of Inl _ \<Rightarrow> s | Inr (s', _) \<Rightarrow> s')"
| "exec_key cfg now (Revoke_key userID i) s = fst (service_Revoke now userID i s)"
| "exec_key cfg now (Admin_insert keyHash name) s =
     (case Insert now keyHash name (k_table s) of Inl _ \<Rightarrow> s | Inr (t, _) \<Rightarrow> s\<lparr>k_table := t\<rparr>)"
| "exec_key cfg now (Admin_revoke keyHash) s = s\<lparr>k_table := fst (key_Revoke now keyHash (k_table s))\<rparr>"
| "exec_key cfg now Janitor s = s\<lparr>verdicts := deleteExpired now (verdicts s)\<rparr>"

fun run_keys :: "key_config \<Rightarrow> (instant \<times> key_op) list \<Rightarrow> key_service \<Rightarrow> key_service" where
  "run_keys cfg [] s = s"
| "run_keys cfg ((now, op) # ops) s = run_keys cfg ops (exec_key cfg now op s)"

text \<open>The instants of a run do not go back, and start at \<open>t\<close>.\<close>

fun timed :: "instant \<Rightarrow> (instant \<times> 'a) list \<Rightarrow> bool" where
  "timed t [] \<longleftrightarrow> True"
| "timed t ((u, _) # ops) \<longleftrightarrow> t \<le> u \<and> timed u ops"

definition empty_service :: key_service where
  "empty_service = \<lparr>k_table = \<lparr>api_keys = [], next_id = 1\<rparr>, verdicts = cache_New\<rparr>"

section \<open>What the cache may vouch for\<close>

definition key_owner :: "KeyInfo \<Rightarrow> string" where
  "key_owner k = (case k_UserID k of None \<Rightarrow> [] | Some a \<Rightarrow> a)"

text \<open>A key that may authenticate at \<open>t\<close>: active, or revoked no longer than the time-to-live ago.\<close>

definition admissible :: "int \<Rightarrow> instant \<Rightarrow> KeyInfo \<Rightarrow> bool" where
  "admissible ttl t k \<longleftrightarrow> Active k \<or> (case RevokedAt k of None \<Rightarrow> False | Some r \<Rightarrow> t \<le> r + ttl)"

text \<open>From \<open>now\<close> on, every positive verdict the cache gives is for a key of the table, names its owner and does not outlive the time-to-live.\<close>

definition vouched :: "(instant \<Rightarrow> string \<Rightarrow> 'c \<Rightarrow> Verdict option \<times> 'c) \<Rightarrow> int \<Rightarrow> instant \<Rightarrow> KeyInfo list \<Rightarrow> 'c \<Rightarrow> bool" where
  "vouched get ttl now rows c \<longleftrightarrow>
     (\<forall>t h v. now \<le> t \<and> fst (get t h c) = Some v \<and> Valid_flag v \<longrightarrow>
        t \<le> now + ttl \<and> (\<exists>k. find_row KeyHash h rows = Some k \<and> key_owner k = v_AccountID v \<and> admissible ttl t k))"

definition refused :: "(instant \<Rightarrow> string \<Rightarrow> 'c \<Rightarrow> Verdict option \<times> 'c) \<Rightarrow> string \<Rightarrow> instant \<Rightarrow> 'c \<Rightarrow> bool" where
  "refused get h now c \<longleftrightarrow> (\<forall>t v. now \<le> t \<and> fst (get t h c) = Some v \<longrightarrow> \<not> Valid_flag v)"

definition keys_ok :: "key_table \<Rightarrow> bool" where
  "keys_ok t \<longleftrightarrow> keys_distinct k_ID (api_keys t) \<and> keys_distinct KeyHash (api_keys t) \<and> (\<forall>k\<in>set (api_keys t). k_ID k < next_id t)"

definition service_ok :: "int \<Rightarrow> instant \<Rightarrow> key_service \<Rightarrow> bool" where
  "service_ok ttl now s \<longleftrightarrow> keys_ok (k_table s) \<and> vouched cache_Get ttl now (api_keys (k_table s)) (verdicts s)"

text \<open>The rows after a change made at \<open>now\<close>: a key keeps its owner and changes at most from active to revoked.\<close>

definition rows_step :: "instant \<Rightarrow> KeyInfo list \<Rightarrow> KeyInfo list \<Rightarrow> bool" where
  "rows_step now rows rows' \<longleftrightarrow>
     (\<forall>h k. find_row KeyHash h rows = Some k \<longrightarrow>
        (\<exists>k'. find_row KeyHash h rows' = Some k' \<and> key_owner k' = key_owner k \<and>
           (k' = k \<or> Active k \<and> \<not> Active k' \<and> RevokedAt k' = Some now)))"

definition dead :: "string \<Rightarrow> instant \<Rightarrow> key_service \<Rightarrow> bool" where
  "dead h now s \<longleftrightarrow>
     (\<exists>k. find_row KeyHash h (api_keys (k_table s)) = Some k \<and> \<not> Active k) \<and> refused cache_Get h now (verdicts s)"

section \<open>The contract of the cache\<close>

locale ttl_cache =
  fixes get :: "instant \<Rightarrow> string \<Rightarrow> 'c \<Rightarrow> Verdict option \<times> 'c"
    and put :: "instant \<Rightarrow> string \<Rightarrow> Verdict \<Rightarrow> int \<Rightarrow> 'c \<Rightarrow> 'c"
    and del :: "string \<Rightarrow> 'c \<Rightarrow> 'c"
    and sweep :: "instant \<Rightarrow> 'c \<Rightarrow> 'c"
  assumes get_put: "fst (get t k (put t0 k' v ttl c)) = (if k = k' then if t \<le> t0 + ttl then Some v else None else fst (get t k c))"
    and get_del: "fst (get t k (del k' c)) = (if k = k' then None else fst (get t k c))"
    and get_sweep: "t0 \<le> t \<Longrightarrow> fst (get t k (sweep t0 c)) = fst (get t k c)"
    and get_get: "t0 \<le> t \<Longrightarrow> fst (get t k (snd (get t0 k' c))) = fst (get t k c)"
begin

lemma vouched_later: "vouched get ttl now rows c \<Longrightarrow> now \<le> now' \<Longrightarrow> vouched get ttl now' rows c"
  unfolding vouched_def by (meson add_right_mono order_trans)

lemma vouched_same:
  assumes "vouched get ttl now rows c" "\<And>t h. now \<le> t \<Longrightarrow> fst (get t h c') = fst (get t h c) \<or> fst (get t h c') = None"
  shows "vouched get ttl now rows c'"
  using assms unfolding vouched_def by (metis option.distinct(1))

lemma vouched_rows:
  assumes "vouched get ttl now rows c" "rows_step now rows rows'"
  shows "vouched get ttl now rows' c"
  unfolding vouched_def
proof (intro allI impI)
  fix t h v assume a: "now \<le> t \<and> fst (get t h c) = Some v \<and> Valid_flag v"
  with assms(1) obtain k where t: "t \<le> now + ttl" and k: "find_row KeyHash h rows = Some k" "key_owner k = v_AccountID v" "admissible ttl t k"
    unfolding vouched_def by blast
  from assms(2) k(1) obtain k' where "find_row KeyHash h rows' = Some k'" "key_owner k' = key_owner k"
    "k' = k \<or> Active k \<and> \<not> Active k' \<and> RevokedAt k' = Some now" unfolding rows_step_def by blast
  with k t show "t \<le> now + ttl \<and> (\<exists>k. find_row KeyHash h rows' = Some k \<and> key_owner k = v_AccountID v \<and> admissible ttl t k)"
    by (auto simp: admissible_def)
qed

lemma vouched_verdict:
  assumes "vouched get ttl now rows c"
    and "\<And>i. answer = Inr (i, True) \<Longrightarrow> \<exists>k. find_row KeyHash h rows = Some k \<and> key_owner k = i \<and> Active k"
  shows "vouched get ttl now rows (snd (cached_verdict get put ttl neg now h answer c))"
proof -
  let ?c = "snd (get now h c)"
  have g: "vouched get ttl now rows ?c" by (rule vouched_same [OF assms(1)]) (simp add: get_get)
  show ?thesis
  proof (cases "fst (get now h c) = None \<and> (\<exists>i valid. answer = Inr (i, valid))")
    case True
    then obtain i valid where a: "answer = Inr (i, valid)" and miss: "fst (get now h c) = None" by auto
    then have e: "snd (cached_verdict get put ttl neg now h answer c) =
        put now h \<lparr>Valid_flag = valid, v_AccountID = i\<rparr> (if \<not> valid then neg else ttl) ?c"
      by (cases "get now h c") (simp add: cached_verdict_def verdict_miss_def)
    show ?thesis unfolding e vouched_def
    proof (intro allI impI)
      fix t h' v assume l: "now \<le> t \<and> fst (get t h' (put now h \<lparr>Valid_flag = valid, v_AccountID = i\<rparr> (if \<not> valid then neg else ttl) ?c)) = Some v
        \<and> Valid_flag v"
      show "t \<le> now + ttl \<and> (\<exists>k. find_row KeyHash h' rows = Some k \<and> key_owner k = v_AccountID v \<and> admissible ttl t k)"
      proof (cases "h' = h")
        case True
        with l have "valid" "t \<le> now + ttl" "v_AccountID v = i" by (auto simp: get_put split: if_splits)
        with True assms(2) a show ?thesis by (auto simp: admissible_def)
      next
        case False
        with l g show ?thesis unfolding vouched_def by (auto simp: get_put)
      qed
    qed
  next
    case False
    then have "snd (cached_verdict get put ttl neg now h answer c) = ?c"
      by (cases "get now h c") (auto simp: cached_verdict_def verdict_miss_def split: option.splits sum.splits)
    with g show ?thesis by simp
  qed
qed

lemma verdict_admits:
  assumes "vouched get ttl now rows c" "fst (cached_verdict get put ttl neg now h answer c) = Inr (i, True)"
    and "\<And>i. answer = Inr (i, True) \<Longrightarrow> \<exists>k. find_row KeyHash h rows = Some k \<and> key_owner k = i \<and> Active k"
  shows "\<exists>k. find_row KeyHash h rows = Some k \<and> key_owner k = i \<and> admissible ttl now k"
proof (cases "fst (get now h c)")
  case None
  with assms(2) have "answer = Inr (i, True)"
    by (cases "get now h c") (auto simp: cached_verdict_def verdict_miss_def split: sum.splits)
  with assms(3) show ?thesis by (auto simp: admissible_def)
next
  case (Some v)
  with assms(2) have "v_AccountID v = i" "Valid_flag v" by (cases "get now h c", auto simp: cached_verdict_def)+
  with Some assms(1) show ?thesis unfolding vouched_def by auto
qed

lemma refused_later: "refused get h now c \<Longrightarrow> now \<le> now' \<Longrightarrow> refused get h now' c"
  unfolding refused_def by (meson order_trans)

lemma refused_del: "refused get h now (del h c)"
  by (simp add: refused_def get_del)

lemma refused_same:
  assumes "refused get h now c" "\<And>t. now \<le> t \<Longrightarrow> fst (get t h c') = fst (get t h c) \<or> fst (get t h c') = None"
  shows "refused get h now c'"
  using assms unfolding refused_def by (metis option.distinct(1))

lemma refused_verdict:
  assumes "refused get h now c" and no: "\<And>i. h' = h \<Longrightarrow> answer \<noteq> Inr (i, True)"
  shows "refused get h now (snd (cached_verdict get put ttl neg now h' answer c))"
    and "h' = h \<Longrightarrow> fst (cached_verdict get put ttl neg now h' answer c) \<noteq> Inr (i, True)"
proof -
  let ?c = "snd (get now h' c)"
  have g: "refused get h now ?c" by (rule refused_same [OF assms(1)]) (simp add: get_get)
  show "refused get h now (snd (cached_verdict get put ttl neg now h' answer c))"
  proof (cases "snd (cached_verdict get put ttl neg now h' answer c) = ?c")
    case False
    then obtain i valid where "answer = Inr (i, valid)" and e: "snd (cached_verdict get put ttl neg now h' answer c) =
        put now h' \<lparr>Valid_flag = valid, v_AccountID = i\<rparr> (if \<not> valid then neg else ttl) ?c"
      by (cases "get now h' c") (auto simp: cached_verdict_def verdict_miss_def split: option.splits sum.splits)
    with no have "h' = h \<Longrightarrow> \<not> valid" by auto
    with g show ?thesis unfolding e refused_def by (auto simp: get_put split: if_splits)
  qed (use g in simp)
  show "h' = h \<Longrightarrow> fst (cached_verdict get put ttl neg now h' answer c) \<noteq> Inr (i, True)"
  proof -
    assume h: "h' = h"
    have "\<not> Valid_flag v" if "fst (get now h c) = Some v" for v using assms(1) that unfolding refused_def by blast
    then show ?thesis using h no
      by (cases "get now h' c") (auto simp: cached_verdict_def verdict_miss_def split: option.splits sum.splits)
  qed
qed

end

interpretation vc: ttl_cache cache_Get cache_Set cache_Delete deleteExpired
  by unfold_locales (auto simp: cache_Get_def cache_Set_def cache_Delete_def deleteExpired_def split: option.splits if_splits)

section \<open>The operations keep the service\<close>

lemma find_row_map:
  "(\<And>r. key (f r) = key r) \<Longrightarrow> find_row key k (map f rows) = map_option f (find_row key k rows)"
  by (induction rows) (auto simp: row_simps)

lemma map_keys: "(\<And>r. key (f r) = key r) \<Longrightarrow> keys_distinct key (map f rows) = keys_distinct key rows"
  by (simp add: keys_distinct_def comp_def)

lemma Validate_active: "Validate h t = (i, True) \<Longrightarrow> \<exists>k. find_row KeyHash h (api_keys t) = Some k \<and> key_owner k = i \<and> Active k"
  by (auto simp: Validate_def key_owner_def split: option.splits if_splits)

lemma store_answer_active:
  "store_answer reachable h t = Inr (i, True) \<Longrightarrow> \<exists>k. find_row KeyHash h (api_keys t) = Some k \<and> key_owner k = i \<and> Active k"
  by (auto simp: store_answer_def intro: Validate_active split: if_splits)

lemma insert_key_step:
  assumes "insert_key k t = Inr (t', k')" "keys_ok t"
  shows "keys_ok t'" "rows_step now (api_keys t) (api_keys t')"
proof -
  from assms(1) have t': "t' = t\<lparr>api_keys := api_keys t @ [k\<lparr>k_ID := next_id t\<rparr>], next_id := next_id t + 1\<rparr>"
    and new: "KeyHash k \<notin> KeyHash ` set (api_keys t)"
    by (auto simp: insert_key_def Let_def has_row_def list_ex_iff image_iff split: if_splits)
  have lt: "k_ID r < next_id t" if "r \<in> set (api_keys t)" for r using assms(2) that by (simp add: keys_ok_def)
  then have "next_id t \<notin> k_ID ` set (api_keys t)" and "\<forall>r\<in>set (api_keys t). k_ID r < next_id t + 1" by fastforce+
  with assms(2) new show "keys_ok t'" by (simp add: t' keys_ok_def row_simps)
  show "rows_step now (api_keys t) (api_keys t')" by (auto simp: t' rows_step_def row_simps)
qed

lemma revoke_mark_simps [simp]:
  "k_ID (revoke_mark now k) = k_ID k" "KeyHash (revoke_mark now k) = KeyHash k" "key_owner (revoke_mark now k) = key_owner k"
  "\<not> Active (revoke_mark now k)" "RevokedAt (revoke_mark now k) = Some now"
  by (simp_all add: revoke_mark_def key_owner_def)

lemma mark_rows_step:
  assumes "keys_ok t" "t' = t\<lparr>api_keys := map (\<lambda>k. if P k then revoke_mark now k else k) (api_keys t)\<rparr>"
    "\<And>k. k \<in> set (api_keys t) \<Longrightarrow> P k \<Longrightarrow> Active k"
  shows "keys_ok t'" "rows_step now (api_keys t) (api_keys t')"
proof -
  let ?f = "\<lambda>k. if P k then revoke_mark now k else k"
  have f: "KeyHash (?f k) = KeyHash k" "k_ID (?f k) = k_ID k" for k by simp_all
  show "keys_ok t'" using assms(1,2) map_keys [of KeyHash ?f] map_keys [of k_ID ?f] by (auto simp: keys_ok_def)
  show "rows_step now (api_keys t) (api_keys t')"
    unfolding rows_step_def
  proof (intro allI impI)
    fix h k assume k: "find_row KeyHash h (api_keys t) = Some k"
    then have "find_row KeyHash h (api_keys t') = Some (?f k)" using find_row_map [of KeyHash ?f, OF f(1)] assms(2) by simp
    moreover have "k \<in> set (api_keys t)" using k by (rule find_row_mem)
    ultimately show "\<exists>k'. find_row KeyHash h (api_keys t') = Some k' \<and> key_owner k' = key_owner k \<and>
        (k' = k \<or> Active k \<and> \<not> Active k' \<and> RevokedAt k' = Some now)"
      using assms(3) by auto
  qed
qed

lemma key_Revoke_step:
  assumes "keys_ok t"
  shows "keys_ok (fst (key_Revoke now h t))" "rows_step now (api_keys t) (api_keys (fst (key_Revoke now h t)))"
  using mark_rows_step [OF assms refl, of "\<lambda>k. KeyHash k = h \<and> Active k" now] by (simp_all add: key_Revoke_def)

lemma RevokeByIDForUser_Some:
  assumes "RevokeByIDForUser now u i t = (t', Some h)" "keys_ok t"
  obtains k where "t' = t\<lparr>api_keys := map (\<lambda>k. if k_ID k = i then revoke_mark now k else k) (api_keys t)\<rparr>"
    "find_row KeyHash h (api_keys t) = Some k" "k_ID k = i" "Active k"
proof -
  from assms(1) obtain k where k: "List.find (\<lambda>k. k_ID k = i \<and> k_UserID k = Some u \<and> Active k) (api_keys t) = Some k" "h = KeyHash k"
    and t': "t' = t\<lparr>api_keys := update_row k_ID i (revoke_mark now) (api_keys t)\<rparr>"
    by (auto simp: RevokeByIDForUser_def split: option.splits)
  from k(1) have "k \<in> set (api_keys t)" "k_ID k = i" "Active k" by (auto simp: find_Some_iff)
  with k(2) t' assms(2) show thesis
    by (intro that [of k]) (auto simp: update_row_def keys_ok_def intro: find_row_distinct)
qed

lemma RevokeByIDForUser_step:
  assumes "RevokeByIDForUser now u i t = (t', r)" "keys_ok t"
  shows "keys_ok t'" "rows_step now (api_keys t) (api_keys t')"
proof -
  have "keys_ok t' \<and> rows_step now (api_keys t) (api_keys t')"
  proof (cases r)
    case None
    with assms show ?thesis by (auto simp: RevokeByIDForUser_def rows_step_def split: option.splits)
  next
    case (Some h)
    with assms(1) have "RevokeByIDForUser now u i t = (t', Some h)" by simp
    from RevokeByIDForUser_Some [OF this assms(2)] obtain k where
      k: "t' = t\<lparr>api_keys := map (\<lambda>k. if k_ID k = i then revoke_mark now k else k) (api_keys t)\<rparr>"
        "find_row KeyHash h (api_keys t) = Some k" "k_ID k = i" "Active k" by blast
    have "Active k'" if "k' \<in> set (api_keys t)" "k_ID k' = i" for k'
      using that k(3,4) find_row_mem [OF k(2)] assms(2) by (auto simp: keys_ok_def keys_distinct_def distinct_map inj_on_def)
    from mark_rows_step [OF assms(2) k(1) this] show ?thesis by simp
  qed
  then show "keys_ok t'" "rows_step now (api_keys t) (api_keys t')" by simp_all
qed

lemma service_ok_later: "service_ok ttl now s \<Longrightarrow> now \<le> now' \<Longrightarrow> service_ok ttl now' s"
  by (auto simp: service_ok_def intro: vc.vouched_later)

lemma table_change_ok:
  assumes "service_ok ttl now s" "keys_ok t'" "rows_step now (api_keys (k_table s)) (api_keys t')"
    and "\<And>t h. now \<le> t \<Longrightarrow> fst (cache_Get t h c') = fst (cache_Get t h (verdicts s)) \<or> fst (cache_Get t h c') = None"
  shows "service_ok ttl now (s\<lparr>k_table := t', verdicts := c'\<rparr>)"
  using assms vc.vouched_rows [OF vc.vouched_same] by (auto simp: service_ok_def)

lemma dead_change:
  assumes "dead h now s" "rows_step now (api_keys (k_table s)) (api_keys t')"
    and "\<And>t. now \<le> t \<Longrightarrow> fst (cache_Get t h c') = fst (cache_Get t h (verdicts s)) \<or> fst (cache_Get t h c') = None"
  shows "dead h now (s\<lparr>k_table := t', verdicts := c'\<rparr>)"
proof -
  from assms(1) obtain k where k: "find_row KeyHash h (api_keys (k_table s)) = Some k" "\<not> Active k" "refused cache_Get h now (verdicts s)"
    by (auto simp: dead_def)
  with assms(2) have "find_row KeyHash h (api_keys t') = Some k" by (auto simp: rows_step_def)
  with k assms(3) vc.refused_same show ?thesis by (auto simp: dead_def)
qed

text \<open>Every call but an authentication changes the rows by a permitted step and only drops verdicts.\<close>

lemma exec_key_change:
  assumes "service_ok ttl now s" "\<And>reachable token. op \<noteq> Authenticate reachable token"
  obtains t' c' where "exec_key cfg now op s = s\<lparr>k_table := t', verdicts := c'\<rparr>" "keys_ok t'"
    "rows_step now (api_keys (k_table s)) (api_keys t')"
    "\<And>t h. now \<le> t \<Longrightarrow> fst (cache_Get t h c') = fst (cache_Get t h (verdicts s)) \<or> fst (cache_Get t h c') = None"
proof -
  note change = that
  have ok: "keys_ok (k_table s)" using assms(1) by (simp add: service_ok_def)
  have same: "rows_step now rows rows" for rows by (simp add: rows_step_def)
  have keep: thesis if "exec_key cfg now op s = s\<lparr>k_table := t'\<rparr>" "keys_ok t'" "rows_step now (api_keys (k_table s)) (api_keys t')" for t'
    using that by (intro change [of "verdicts s" t']) simp_all
  show thesis
  proof (cases op)
    case (Create_key random u n)
    show thesis
    proof (cases "Create (kc_hash cfg) (kc_max cfg) now random u n s")
      case (Inl e)
      with Create_key ok same keep [of "k_table s"] show thesis by simp
    next
      case (Inr r)
      then obtain t' token info where i: "InsertUserKey now u (HashKey (kc_hash cfg) token) n (key_Prefix token) (k_table s) = Inr (t', info)"
        and r: "r = (s\<lparr>k_table := t'\<rparr>, token, info)"
        by (auto simp: Create_def rbind_Inr_iff split: if_splits option.splits sum.splits)
      with Create_key Inr insert_key_step [OF i [unfolded InsertUserKey_def] ok] keep [of t'] show thesis by simp
    qed
  next
    case (Revoke_key u i)
    obtain t' r where r: "RevokeByIDForUser now u i (k_table s) = (t', r)" by fastforce
    note st = RevokeByIDForUser_step [OF r ok]
    show thesis
    proof (cases r)
      case None
      with r Revoke_key st keep [of t'] show thesis by (simp add: service_Revoke_def)
    next
      case (Some h)
      with r Revoke_key st show thesis
        by (intro change [of "cache_Delete h (verdicts s)" t']) (auto simp: service_Revoke_def vc.get_del)
    qed
  next
    case (Admin_insert h n)
    show thesis
    proof (cases "Insert now h n (k_table s)")
      case (Inl e)
      with Admin_insert ok same keep [of "k_table s"] show thesis by simp
    next
      case (Inr r)
      obtain t' info where r: "r = (t', info)" by (cases r)
      with Inr Admin_insert insert_key_step [OF Inr [unfolded r Insert_def] ok] keep [of t'] show thesis by simp
    qed
  next
    case (Admin_revoke h)
    with key_Revoke_step [OF ok] keep [of "fst (key_Revoke now h (k_table s))"] show thesis by simp
  next
    case Janitor
    then show thesis using ok same by (intro change [of "deleteExpired now (verdicts s)" "k_table s"]) (auto simp: vc.get_sweep)
  qed (use assms(2) in auto)
qed

lemma Authenticate_ok:
  assumes "service_ok (posTTL cfg) now s"
  shows "service_ok (posTTL cfg) now (exec_key cfg now (Authenticate reachable token) s)"
proof -
  let ?h = "HashKey (kc_hash cfg) token"
  have "vouched cache_Get (posTTL cfg) now (api_keys (k_table s)) (snd (cached_verdict cache_Get cache_Set (posTTL cfg) (negTTL cfg) now ?h
      (store_answer reachable ?h (k_table s)) (verdicts s)))"
    using assms by (intro vc.vouched_verdict store_answer_active) (simp_all add: service_ok_def)
  with assms show ?thesis by (simp add: service_ok_def Valid_def Let_def split_beta)
qed

lemma exec_key_ok:
  assumes "service_ok (posTTL cfg) now s"
  shows "service_ok (posTTL cfg) now (exec_key cfg now op s)"
proof (cases "\<exists>reachable token. op = Authenticate reachable token")
  case True
  with Authenticate_ok [OF assms] show ?thesis by auto
next
  case False
  then have ne: "op \<noteq> Authenticate reachable token" for reachable token by blast
  obtain t' c' where e: "exec_key cfg now op s = s\<lparr>k_table := t', verdicts := c'\<rparr>"
    and ch: "keys_ok t'" "rows_step now (api_keys (k_table s)) (api_keys t')"
      "\<And>t h. now \<le> t \<Longrightarrow> fst (cache_Get t h c') = fst (cache_Get t h (verdicts s)) \<or> fst (cache_Get t h c') = None"
    by (rule exec_key_change [OF assms ne, where cfg = cfg], rule that)
  show ?thesis unfolding e using assms ch by (rule table_change_ok)
qed

lemma Authenticate_dead:
  assumes "dead h now s"
  shows "dead h now (exec_key cfg now (Authenticate reachable token) s)"
    and "HashKey (kc_hash cfg) token = h \<Longrightarrow> fst (Valid (kc_hash cfg) (posTTL cfg) (negTTL cfg) now reachable token s) \<noteq> Inr (i, True)"
proof -
  let ?h = "HashKey (kc_hash cfg) token" and ?a = "store_answer reachable (HashKey (kc_hash cfg) token) (k_table s)"
  have no: "?a \<noteq> Inr (i, True)" if "?h = h" for i
    using assms that store_answer_active [of reachable ?h "k_table s" i] by (auto simp: dead_def)
  have r: "refused cache_Get h now (verdicts s)" using assms by (simp add: dead_def)
  note v = vc.refused_verdict [OF r, of ?h ?a "posTTL cfg" "negTTL cfg", OF no]
  show "dead h now (exec_key cfg now (Authenticate reachable token) s)"
    using assms v(1) by (simp add: dead_def Valid_def Let_def split_beta)
  show "?h = h \<Longrightarrow> fst (Valid (kc_hash cfg) (posTTL cfg) (negTTL cfg) now reachable token s) \<noteq> Inr (i, True)"
    using v(2) by (simp add: Valid_def Let_def split_beta)
qed

lemma exec_key_dead:
  assumes "service_ok (posTTL cfg) now s" "dead h now s"
  shows "dead h now (exec_key cfg now op s)"
proof (cases "\<exists>reachable token. op = Authenticate reachable token")
  case True
  with Authenticate_dead(1) [OF assms(2)] show ?thesis by auto
next
  case False
  then have ne: "op \<noteq> Authenticate reachable token" for reachable token by blast
  obtain t' c' where e: "exec_key cfg now op s = s\<lparr>k_table := t', verdicts := c'\<rparr>"
    and "keys_ok t'" and ch: "rows_step now (api_keys (k_table s)) (api_keys t')"
    "\<And>t h. now \<le> t \<Longrightarrow> fst (cache_Get t h c') = fst (cache_Get t h (verdicts s)) \<or> fst (cache_Get t h c') = None"
    by (rule exec_key_change [OF assms(1) ne, where cfg = cfg], rule that)
  show ?thesis unfolding e using assms(2) ch by (rule dead_change)
qed

lemma dead_later: "dead h now s \<Longrightarrow> now \<le> now' \<Longrightarrow> dead h now' s"
  by (auto simp: dead_def intro: vc.refused_later)

text \<open>The end of a run, the earliest instant of a later call.\<close>

lemma run_keys_ok:
  "service_ok (posTTL cfg) now s \<Longrightarrow> timed now ops \<Longrightarrow> \<forall>(u, _)\<in>set ops. u \<le> t \<Longrightarrow> now \<le> t \<Longrightarrow>
   service_ok (posTTL cfg) t (run_keys cfg ops s)"
proof (induction cfg ops s arbitrary: now rule: run_keys.induct)
  case (2 cfg u op ops s)
  from service_ok_later [OF 2(2)] 2(3) have "service_ok (posTTL cfg) u s" by simp
  from 2(1) [OF exec_key_ok [OF this]] 2(3,4) show ?case by simp
qed (simp add: service_ok_later)

lemma run_keys_dead:
  "service_ok (posTTL cfg) now s \<Longrightarrow> dead h now s \<Longrightarrow> timed now ops \<Longrightarrow> \<forall>(u, _)\<in>set ops. u \<le> t \<Longrightarrow> now \<le> t \<Longrightarrow>
   dead h t (run_keys cfg ops s)"
proof (induction cfg ops s arbitrary: now rule: run_keys.induct)
  case (2 cfg u op ops s)
  then have u: "service_ok (posTTL cfg) u s" "dead h u s" by (auto intro: service_ok_later dead_later)
  from 2(1) [OF exec_key_ok [OF u(1)] exec_key_dead [OF u]] 2(4,5) show ?case by simp
qed (simp add: dead_later)

section \<open>Domains\<close>

lemma split_at_chars: "c \<in> set s \<Longrightarrow> c = sep \<or> (\<exists>l\<in>set (split_at sep s). c \<in> set l)"
proof (induction s)
  case (Cons a s)
  show ?case
  proof (cases "split_at sep s")
    case Nil
    then show ?thesis by (cases s) (auto split: if_splits list.splits)
  next
    case (Cons l ls)
    with Cons.prems Cons.IH show ?thesis by (auto split: if_splits)
  qed
qed simp

lemma label_char_plain: "label_char c \<or> c = CHR ''.'' \<Longrightarrow> plain_char c \<and> lower_char c = c \<and> c \<noteq> CHR 0xC4 \<and> c \<noteq> CHR 0xE2"
  by (auto simp: label_char_def plain_char_def lower_char_def ascii_spaces_def Let_def nl_def cr_def)

lemma ToLower_plain: "(\<And>c. c \<in> set s \<Longrightarrow> lower_char c = c \<and> c \<noteq> CHR 0xC4 \<and> c \<noteq> CHR 0xE2) \<Longrightarrow> ToLower s = s"
  by (induction s) auto

text \<open>A normalised domain is a fixed point of the normalisation, so rules and e-mail domains compare by equality.\<close>

lemma NormalizeRuleDomain_canonical:
  assumes "NormalizeRuleDomain v = Some d"
  shows "NormalizeRuleDomain d = Some d" "\<forall>c\<in>set d. label_char c \<or> c = CHR ''.''"
proof -
  from assms have ok: "d \<noteq> []" "list_all label_ok (split_at CHR ''.'' d)"
    and rest: "\<not> (length d > maxDomainLen \<or> list_ex (\<lambda>c. c \<in> set [CHR '' '', CHR 0x09, cr, nl]) d \<or>
         prefix ''.'' d \<or> suffix ''.'' d \<or> sublist ''..'' d)"
    by (auto simp: NormalizeRuleDomain_def Let_def split: if_splits)
  have chars: "label_char c \<or> c = CHR ''.''" if "c \<in> set d" for c
    using split_at_chars [OF that, of "CHR ''.''"] ok(2) by (auto simp: list_all_iff label_ok_def)
  then show "\<forall>c\<in>set d. label_char c \<or> c = CHR ''.''" by blast
  have "TrimSpace d = d"
    using ok(1) chars label_char_plain by (intro TrimSpace_plain) (simp_all add: label_char_plain)
  moreover have "ToLower d = d" using chars label_char_plain by (intro ToLower_plain) blast
  ultimately show "NormalizeRuleDomain d = Some d" using ok rest by (auto simp: NormalizeRuleDomain_def Let_def)
qed

text \<open>The Kelvin sign is lowered to the letter k before the test for ASCII.\<close>

lemma kelvin_sign_accepted: "NormalizeRuleDomain ([CHR 0xE2, CHR 0x84, CHR 0xAA] @ ''-web.org'') = Some ''k-web.org''"
  by code_simp

section \<open>Properties\<close>

lemma empty_service_ok: "service_ok ttl t empty_service"
  by (simp add: service_ok_def empty_service_def keys_ok_def keys_distinct_def vouched_def cache_Get_def cache_New_def)

text \<open>
  C17 (an accepted token). After any sequence of requests, key creations, revocations by users and by the admin tool and cache sweeps, a token that the validator
  accepts is the token of a key in the table, the account it returns is that key's owner, and the key is active or was revoked at most the positive
  time-to-live ago.
\<close>

theorem accepted_token_owned:
  assumes "timed t0 ops" "\<forall>(u, _)\<in>set ops. u \<le> t" "t0 \<le> t"
    and "s = run_keys cfg ops empty_service"
    and "fst (Valid (kc_hash cfg) (posTTL cfg) (negTTL cfg) t reachable token s) = Inr (account, True)"
  shows "\<exists>k\<in>set (api_keys (k_table s)). KeyHash k = HashKey (kc_hash cfg) token \<and> key_owner k = account \<and>
      (Active k \<or> (\<exists>r. RevokedAt k = Some r \<and> t \<le> r + posTTL cfg))"
proof -
  let ?h = "HashKey (kc_hash cfg) token"
  have ok: "service_ok (posTTL cfg) t s" unfolding assms(4) using empty_service_ok assms(1-3) by (rule run_keys_ok)
  then have v: "vouched cache_Get (posTTL cfg) t (api_keys (k_table s)) (verdicts s)" by (simp add: service_ok_def)
  have "fst (cached_verdict cache_Get cache_Set (posTTL cfg) (negTTL cfg) t ?h (store_answer reachable ?h (k_table s)) (verdicts s)) = Inr (account, True)"
    using assms(5) by (simp add: Valid_def Let_def split_beta)
  from vc.verdict_admits [OF v this] store_answer_active obtain k where
    "find_row KeyHash ?h (api_keys (k_table s)) = Some k" "key_owner k = account" "admissible (posTTL cfg) t k" by blast
  then show ?thesis by (intro bexI [of _ k]) (auto simp: admissible_def dest: find_row_key find_row_mem split: option.splits)
qed

text \<open>
  C16 (a revoked key). Once a user's revocation through the service has returned success, the token of that key is never accepted again, whatever calls
  follow and whatever the cache held before.
\<close>

theorem revoked_key_refused:
  assumes "timed t0 ops" "\<forall>(u, _)\<in>set ops. u \<le> t1" "t0 \<le> t1" "s = run_keys cfg ops empty_service"
    and "timed t1 later" "\<forall>(u, _)\<in>set later. u \<le> t" "t1 \<le> t"
    and "k \<in> set (api_keys (k_table s))" "k_ID k = i" "KeyHash k = HashKey (kc_hash cfg) token"
    and "service_Revoke t1 user i s = (s', True)"
  shows "fst (Valid (kc_hash cfg) (posTTL cfg) (negTTL cfg) t reachable token (run_keys cfg later s')) \<noteq> Inr (account, True)"
proof -
  let ?h = "HashKey (kc_hash cfg) token"
  have ok: "service_ok (posTTL cfg) t1 s" unfolding assms(4) using empty_service_ok assms(1-3) by (rule run_keys_ok)
  then have keys: "keys_ok (k_table s)" by (simp add: service_ok_def)
  from assms(11) obtain t' h where r: "RevokeByIDForUser t1 user i (k_table s) = (t', Some h)"
    and s': "s' = s\<lparr>k_table := t', verdicts := cache_Delete h (verdicts s)\<rparr>"
    by (auto simp: service_Revoke_def split: prod.splits option.splits)
  from RevokeByIDForUser_Some [OF r keys] obtain k1 where
    k1: "t' = k_table s\<lparr>api_keys := map (\<lambda>k. if k_ID k = i then revoke_mark t1 k else k) (api_keys (k_table s))\<rparr>"
      "find_row KeyHash h (api_keys (k_table s)) = Some k1" "k_ID k1 = i" by blast
  have "k1 = k" using k1(3) find_row_mem [OF k1(2)] assms(8,9) keys by (auto simp: keys_ok_def keys_distinct_def distinct_map inj_on_def)
  with k1(2) assms(10) have h: "h = ?h" by (auto dest: find_row_key)
  have "find_row KeyHash h (api_keys t') = Some (revoke_mark t1 k1)"
    using k1 by (simp add: find_row_map [of KeyHash "\<lambda>k. if k_ID k = i then revoke_mark t1 k else k"])
  then have "dead h t1 s'" by (simp add: dead_def s' vc.refused_del)
  moreover have ok': "service_ok (posTTL cfg) t1 s'"
    using exec_key_ok [OF ok, of "Revoke_key user i"] assms(11) by simp
  ultimately have "dead h t (run_keys cfg later s')" using run_keys_dead assms(5-7) by blast
  then show ?thesis by (rule Authenticate_dead(2)) (simp add: h)
qed

text \<open>
  A revocation that overlaps a validation. A validation that has read the key as active before a revocation commits, and stores its verdict after the revocation
  dropped the cached one, makes the revoked key authenticate for the whole positive time-to-live.
\<close>

theorem overlapping_revocation_survives:
  assumes "keys_ok (k_table s)" "find_row KeyHash h (api_keys (k_table s)) = Some k" "Active k" "k_UserID k = Some user" "k_ID k = i"
    and "h = HashKey hash token" "now \<le> t" "t \<le> now + pos"
    and "answer = store_answer True h (k_table s)"
    and "s' = fst (service_Revoke now user i s)"
    and "s'' = s'\<lparr>verdicts := snd (verdict_miss cache_Set pos neg now h answer (verdicts s'))\<rparr>"
  shows "snd (service_Revoke now user i s)" "Validate h (k_table s'') = ([], False)"
    and "fst (Valid hash pos neg t reachable token s'') = Inr (user, True)"
proof -
  have k: "k \<in> set (api_keys (k_table s))" using assms(2) by (rule find_row_mem)
  have "List.find (\<lambda>k. k_ID k = i \<and> k_UserID k = Some user \<and> Active k) (api_keys (k_table s)) \<noteq> None"
    using k assms(3-5) by (auto simp: find_None_iff)
  then obtain t' h' where r: "RevokeByIDForUser now user i (k_table s) = (t', Some h')"
    by (auto simp: RevokeByIDForUser_def split: option.splits)
  then show "snd (service_Revoke now user i s)" by (simp add: service_Revoke_def)
  from RevokeByIDForUser_Some [OF r assms(1)] have
    t': "t' = k_table s\<lparr>api_keys := map (\<lambda>k. if k_ID k = i then revoke_mark now k else k) (api_keys (k_table s))\<rparr>" by blast
  have s': "k_table s' = t'" using r assms(10) by (simp add: service_Revoke_def)
  have "find_row KeyHash h (api_keys t') = Some (revoke_mark now k)"
    using t' assms(2,5) by (simp add: find_row_map [of KeyHash "\<lambda>k. if k_ID k = i then revoke_mark now k else k"])
  then show "Validate h (k_table s'') = ([], False)" using assms(11) s' by (simp add: Validate_def)
  have "answer = Inr (user, True)" using assms(2-4,9) by (simp add: store_answer_def Validate_def)
  then show "fst (Valid hash pos neg t reachable token s'') = Inr (user, True)"
    using assms(6-8,11) by (simp add: Valid_def verdict_miss_def cached_verdict_def cache_Get_def cache_Set_def Let_def)
qed

theorem accepted_token_owned_witness:
  "let cfg = \<lparr>kc_hash = (\<lambda>x. x), kc_max = 3, posTTL = 60, negTTL = 5\<rparr>;
       s = run_keys cfg [(1, Create_key (Some [16, 32]) ''ann'' ''laptop''), (2, Authenticate True ''sk-1020''), (3, Admin_revoke ''sk-1020'')] empty_service in
   \<exists>k\<in>set (api_keys (k_table s)). KeyHash k = ''sk-1020'' \<and> key_owner k = ''ann'' \<and>
      (Active k \<or> (\<exists>r. RevokedAt k = Some r \<and> 50 \<le> r + 60))"
proof -
  let ?cfg = "\<lparr>kc_hash = (\<lambda>x. x), kc_max = 3, posTTL = 60, negTTL = 5\<rparr>"
  let ?ops = "[(1::int, Create_key (Some [16, 32]) ''ann'' ''laptop''), (2, Authenticate True ''sk-1020''), (3, Admin_revoke ''sk-1020'')]"
  have v: "fst (Valid (kc_hash ?cfg) (posTTL ?cfg) (negTTL ?cfg) 50 True ''sk-1020'' (run_keys ?cfg ?ops empty_service)) = Inr (''ann'', True)"
    by code_simp
  have "timed 0 ?ops" "\<forall>(u, _)\<in>set ?ops. u \<le> 50" "(0::int) \<le> 50" by simp_all
  from accepted_token_owned [OF this refl v] show ?thesis by (simp only: Let_def HashKey_def key_config.simps)
qed

theorem revoked_key_refused_witness:
  "let cfg = \<lparr>kc_hash = (\<lambda>x. x), kc_max = 3, posTTL = 60, negTTL = 5\<rparr>;
       s = run_keys cfg [(1, Create_key (Some [16, 32]) ''ann'' ''laptop''), (2, Authenticate True ''sk-1020'')] empty_service in
   snd (service_Revoke 3 ''ann'' 1 s) \<and>
   fst (Valid (kc_hash cfg) (posTTL cfg) (negTTL cfg) 4 True ''sk-1020'' (run_keys cfg [] (fst (service_Revoke 3 ''ann'' 1 s)))) \<noteq> Inr (''ann'', True)"
proof -
  let ?cfg = "\<lparr>kc_hash = (\<lambda>x. x), kc_max = 3, posTTL = 60, negTTL = 5\<rparr>"
  let ?ops = "[(1::int, Create_key (Some [16, 32]) ''ann'' ''laptop''), (2, Authenticate True ''sk-1020'')]"
  let ?s = "run_keys ?cfg ?ops empty_service"
  let ?k = "\<lparr>k_ID = 1, KeyHash = ''sk-1020'', k_UserID = Some ''ann'', k_Name = Some ''laptop'', k_Prefix = Some ''sk-1020'', Active = True,
       k_CreatedAt = 1, RevokedAt = None\<rparr>"
  have k: "?k \<in> set (api_keys (k_table ?s))" by code_simp
  have r: "snd (service_Revoke 3 ''ann'' 1 ?s)" by code_simp
  then have r': "service_Revoke 3 ''ann'' 1 ?s = (fst (service_Revoke 3 ''ann'' 1 ?s), True)"
    by (intro prod_eqI) (simp_all only: fst_conv snd_conv simp_thms)
  have t: "timed 0 ?ops" "\<forall>(u, _)\<in>set ?ops. u \<le> 3" "(0::int) \<le> 3" "timed 3 ([] :: (int \<times> key_op) list)"
    "\<forall>(u, _)\<in>set ([] :: (int \<times> key_op) list). u \<le> 4" "(3::int) \<le> 4" by simp_all
  have "k_ID ?k = 1" "KeyHash ?k = HashKey (kc_hash ?cfg) ''sk-1020''" by (simp_all add: HashKey_def)
  from revoked_key_refused [OF t(1-3) refl t(4-6) k this r'] r show ?thesis by (simp only: Let_def simp_thms)
qed

theorem overlapping_revocation_survives_witness:
  "let s = run_keys \<lparr>kc_hash = (\<lambda>x. x), kc_max = 3, posTTL = 60, negTTL = 5\<rparr> [(1, Create_key (Some [16]) ''ann'' [])] empty_service;
       s' = fst (service_Revoke 2 ''ann'' 1 s);
       s'' = s'\<lparr>verdicts := snd (verdict_miss cache_Set 60 5 2 ''sk-10'' (store_answer True ''sk-10'' (k_table s)) (verdicts s'))\<rparr> in
   fst (Valid (\<lambda>x. x) 60 5 40 True ''sk-10'' s'') = Inr (''ann'', True)"
proof -
  let ?s = "run_keys \<lparr>kc_hash = (\<lambda>x. x), kc_max = 3, posTTL = 60, negTTL = 5\<rparr> [(1, Create_key (Some [16]) ''ann'' [])] empty_service"
  let ?k = "\<lparr>k_ID = 1, KeyHash = ''sk-10'', k_UserID = Some ''ann'', k_Name = Some [], k_Prefix = Some ''sk-10'', Active = True,
       k_CreatedAt = 1, RevokedAt = None\<rparr>"
  have f: "find_row KeyHash ''sk-10'' (api_keys (k_table ?s)) = Some ?k" by code_simp
  have ok: "keys_ok (k_table ?s)" by code_simp
  have k: "Active ?k" "k_UserID ?k = Some ''ann''" "k_ID ?k = 1" "''sk-10'' = HashKey (\<lambda>x. x) ''sk-10''" "(2::int) \<le> 40" "(40::int) \<le> 2 + 60"
    by (simp_all add: HashKey_def)
  from overlapping_revocation_survives(3) [OF ok f k refl refl refl] show ?thesis by (simp only: Let_def)
qed

end
