(* ===== verification/Policy_Store.thy ===== *)
theory Policy_Store
  imports Credit_Store "HOL-Library.Char_ord" "HOL-Library.List_Lexorder" "HOL-Library.Product_Lexorder"
begin

text \<open>
  Identities, wallets, instances and trusted regions (\<^verbatim>\<open>internal/store/acl.go\<close>, \<^verbatim>\<open>internal/store/policy.go\<close>) over the tables of the migrations 0003, 0004, 0007, 0010 and 0014: the rows, the constraints and the
  operations on identities, wallets and instances. The operations on regions and services are in \<^verbatim>\<open>Trusted_Regions\<close>.

  An operation returns the new tables and its result, or an error that rolls everything back. A statement fails where PostgreSQL refuses it: a UNIQUE, CHECK or FOREIGN KEY constraint of the
  migrations; \<open>Failure\<close> is an error the code passes on wrapped. Serial ids come from counters of the state, \<^verbatim>\<open>now()\<close> from the argument \<open>now\<close>; the digest of a secret is the parameter \<open>hashSecret\<close>.
  The table of linked wallets is the one of the credit store, so operations on wallets also take and return that store.

  The lemmas show that every operation keeps the tables well formed: keys are unique, every reference points to a row, a service bound to a trusted region belongs to a member of that region.
\<close>

section \<open>Rows\<close>

datatype policy_error =
    StoreNotFound
  | StoreConflict
  | ErrChallengeExpired
  | ErrChallengeConsumed
  | ErrWalletInUse
  | ErrWalletOtherAccount
  | ErrWalletAlreadyLinked
  | ErrRegionMigrationConflict
  | Failure string

type_synonym 'a pres = "policy_error + 'a"

record IdentityInfo =
  idn_AccountID :: string
  idn_Email :: string
  idn_EmailDomain :: string
  idn_EmailVerified :: bool
  LastVerifiedAt :: instant

record WalletChallenge =
  wc_ID :: string
  wc_AccountID :: string
  wc_Wallet :: string
  wc_Nonce :: string
  wc_Message :: string
  wc_IssuedAt :: instant
  wc_ExpiresAt :: instant
  wc_UsedAt :: "instant option"

record ACLRule =
  rule_kind :: string
  rule_value :: string

record RegionInfo =
  rg_ID :: int64
  Slug :: string
  rg_Name :: string
  OwnerAccountID :: string
  rg_Status :: string
  RegionRevision :: int64
  rg_CreatedAt :: instant
  rg_UpdatedAt :: instant

record RegionMembership =
  ms_InstanceID :: int64
  ms_PeerID :: string
  ms_Label :: string
  ms_RegionID :: int64
  ms_RegionSlug :: string
  ms_RegionStatus :: string
  ms_RegionRevision :: int64
  NodeRole :: string
  ms_Status :: string
  AdmittedByAccountID :: "string option"
  AdmissionReason :: "string option"
  ms_ExpiresAt :: "instant option"
  OwnershipVerifiedAt :: "instant option"
  MembershipRevision :: int64
  TrustedServiceCount :: nat
  ms_CreatedAt :: instant
  ms_UpdatedAt :: instant

record RegionInvitation =
  iv_ID :: int64
  iv_RegionID :: int64
  iv_RegionSlug :: string
  iv_InstanceID :: int64
  iv_PeerID :: string
  iv_Label :: string
  CreatedByAccountID :: string
  AcceptanceTokenHash :: string
  iv_Status :: string
  iv_NodeRole :: string
  iv_ExpiresAt :: instant
  iv_AcceptedAt :: "instant option"
  iv_CancelledAt :: "instant option"
  iv_CreatedAt :: instant
  iv_UpdatedAt :: instant

record RegionMembershipEvent =
  ev_InstanceID :: int64
  ev_RegionID :: "int64 option"
  EventKind :: string
  ActorAccountID :: "string option"
  ev_MembershipRevision :: int64
  ev_CreatedAt :: instant

record InstanceService =
  svc_ID :: int64
  svc_InstanceID :: int64
  ServiceName :: string
  Exposure :: string
  svc_RegionID :: "int64 option"
  svc_RegionSlug :: "string option"
  svc_AccessMode :: string
  ServicePolicyRevision :: int64
  ObservedPresent :: bool
  ObservedLastSeenAt :: "instant option"
  svc_CreatedAt :: instant
  svc_UpdatedAt :: instant
  svc_Rules :: "ACLRule list"

record InstanceInfo =
  in_ID :: int64
  in_AccountID :: string
  in_PeerID :: string
  in_Label :: string
  OwnerWallet :: string
  in_AccessMode :: string
  PolicyScope :: string
  PolicyRevision :: int64
  OwnershipStatus :: string
  ObservedWallet :: "string option"
  OwnershipObservedAt :: "instant option"
  in_CreatedAt :: instant
  in_UpdatedAt :: instant
  in_Rules :: "ACLRule list"
  Membership :: "RegionMembership option"
  Services :: "InstanceService list"

record NodeCredentialChallenge =
  nc_ID :: string
  nc_PeerID :: string
  nc_RegionSlug :: string
  nc_NodeRole :: string
  nc_Audience :: string
  NonceHash :: string
  nc_Message :: string
  nc_IssuedAt :: instant
  nc_ExpiresAt :: instant
  nc_ConsumedAt :: "instant option"

text \<open>
  The tables. Rows of \<open>instances\<close>, \<open>memberships\<close> and \<open>services\<close> use the structs of the code, whose joined members (rules, membership, services, slug and status of the region) stay empty in
  the table and are filled when a row is read.
\<close>

record policy =
  identities :: "IdentityInfo list"
  wallet_challenges :: "WalletChallenge list"
  instances :: "InstanceInfo list"
  instance_rules :: "(int64 \<times> ACLRule) list"
  regions :: "RegionInfo list"
  memberships :: "RegionMembership list"
  membership_events :: "RegionMembershipEvent list"
  invitations :: "RegionInvitation list"
  services :: "InstanceService list"
  service_rules :: "(int64 \<times> ACLRule) list"
  node_challenges :: "NodeCredentialChallenge list"
  next_instance :: int64
  next_region :: int64
  next_invitation :: int64
  next_service :: int64

definition empty_policy :: policy where
  "empty_policy = \<lparr>identities = [], wallet_challenges = [], instances = [], instance_rules = [], regions = [], memberships = [], membership_events = [],
     invitations = [], services = [], service_rules = [], node_challenges = [], next_instance = 1, next_region = 1, next_invitation = 1, next_service = 1\<rparr>"

section \<open>Constraints of the migrations\<close>

definition PolicyScopePeer :: string where
  "PolicyScopePeer = ''peer''"

definition PolicyScopeService :: string where
  "PolicyScopeService = ''service''"

definition ExposurePermissionless :: string where
  "ExposurePermissionless = ''permissionless''"

definition ExposureTrustedRegion :: string where
  "ExposureTrustedRegion = ''trusted_region''"

definition ExposureDisabled :: string where
  "ExposureDisabled = ''disabled''"

definition instance_check :: "InstanceInfo \<Rightarrow> bool" where
  "instance_check i \<longleftrightarrow> in_AccessMode i \<in> {''public'', ''restricted''} \<and> OwnershipStatus i \<in> {''active'', ''mismatch'', ''unavailable''} \<and>
     PolicyScope i \<in> {''peer'', ''service''}"

definition rule_check :: "ACLRule \<Rightarrow> bool" where
  "rule_check r \<longleftrightarrow> rule_kind r \<in> {''email_domain'', ''wallet'', ''api_key''}"

definition role_check :: "string \<Rightarrow> bool" where
  "role_check role \<longleftrightarrow> role \<in> {''worker'', ''head'', ''combined''}"

definition membership_check :: "RegionMembership \<Rightarrow> bool" where
  "membership_check m \<longleftrightarrow> role_check (NodeRole m) \<and>
     ms_Status m \<in> {''active'', ''suspended'', ''expired'', ''revoked'', ''ownership_mismatch'', ''ownership_unavailable''}"

definition alnum :: "char \<Rightarrow> bool" where
  "alnum c \<longleftrightarrow> (let n = of_char c :: nat in 48 \<le> n \<and> n \<le> 57 \<or> 65 \<le> n \<and> n \<le> 90 \<or> 97 \<le> n \<and> n \<le> 122)"

definition lower_alnum :: "char \<Rightarrow> bool" where
  "lower_alnum c \<longleftrightarrow> (let n = of_char c :: nat in 48 \<le> n \<and> n \<le> 57 \<or> 97 \<le> n \<and> n \<le> 122)"

text \<open>The two regular expressions of the migrations.\<close>

definition service_name_check :: "string \<Rightarrow> bool" where
  "service_name_check s \<longleftrightarrow>
     (case s of [] \<Rightarrow> False | c # cs \<Rightarrow> alnum c \<and> length cs \<le> 79 \<and> list_all (\<lambda>c. alnum c \<or> c = CHR ''.'' \<or> c = CHR ''_'' \<or> c = CHR ''-'') cs)"

definition slug_check :: "string \<Rightarrow> bool" where
  "slug_check s \<longleftrightarrow> s \<noteq> [] \<and> length s \<le> 64 \<and> lower_alnum (hd s) \<and> lower_alnum (last s) \<and> list_all (\<lambda>c. lower_alnum c \<or> c = CHR ''-'') s"

definition region_check :: "RegionInfo \<Rightarrow> bool" where
  "region_check r \<longleftrightarrow> slug_check (Slug r) \<and> rg_Status r \<in> {''active'', ''disabled''}"

definition service_check :: "InstanceService \<Rightarrow> bool" where
  "service_check s \<longleftrightarrow> Exposure s \<in> {''permissionless'', ''trusted_region'', ''disabled''} \<and> svc_AccessMode s \<in> {''inherit'', ''public'', ''restricted''} \<and>
     service_name_check (ServiceName s) \<and> (Exposure s = ''trusted_region'') = (svc_RegionID s \<noteq> None)"

section \<open>Identities and challenges\<close>

definition RefreshIdentity :: "policy \<Rightarrow> IdentityInfo \<Rightarrow> policy" where
  "RefreshIdentity p i =
     (if has_row idn_AccountID (idn_AccountID i) (identities p) then p\<lparr>identities := update_row idn_AccountID (idn_AccountID i) (\<lambda>_. i) (identities p)\<rparr>
      else p\<lparr>identities := identities p @ [i]\<rparr>)"

definition GetIdentity :: "policy \<Rightarrow> string \<Rightarrow> IdentityInfo pres" where
  "GetIdentity p a = (case find_row idn_AccountID a (identities p) of None \<Rightarrow> Inl StoreNotFound | Some i \<Rightarrow> Inr i)"

definition CreateWalletChallenge :: "policy \<Rightarrow> WalletChallenge \<Rightarrow> policy pres" where
  "CreateWalletChallenge p ch =
     (if has_row wc_ID (wc_ID ch) (wallet_challenges p) then Inl (Failure ''store: create wallet challenge'')
      else Inr (p\<lparr>wallet_challenges := wallet_challenges p @ [ch\<lparr>wc_UsedAt := None\<rparr>]\<rparr>))"

definition find_challenge :: "policy \<Rightarrow> string \<Rightarrow> string \<Rightarrow> WalletChallenge option" where
  "find_challenge p a cid = List.find (\<lambda>ch. wc_AccountID ch = a \<and> wc_ID ch = cid) (wallet_challenges p)"

definition GetWalletChallenge :: "policy \<Rightarrow> string \<Rightarrow> string \<Rightarrow> WalletChallenge pres" where
  "GetWalletChallenge p a cid = (case find_challenge p a cid of None \<Rightarrow> Inl StoreNotFound | Some ch \<Rightarrow> Inr ch)"

definition ConsumeWalletChallenge :: "policy \<Rightarrow> string \<Rightarrow> string \<Rightarrow> instant \<Rightarrow> policy pres" where
  "ConsumeWalletChallenge p a cid now =
     (case find_challenge p a cid of
        None \<Rightarrow> Inl StoreNotFound
      | Some ch \<Rightarrow>
          if wc_UsedAt ch \<noteq> None then Inl ErrChallengeConsumed
          else if now > wc_ExpiresAt ch then Inl ErrChallengeExpired
          else Inr (p\<lparr>wallet_challenges := update_row wc_ID cid (\<lambda>ch. if wc_AccountID ch = a then ch\<lparr>wc_UsedAt := Some now\<rparr> else ch) (wallet_challenges p)\<rparr>))"

section \<open>Wallets\<close>

text \<open>\<open>wid\<close> is the serial id.\<close>

definition LinkWallet :: "db \<Rightarrow> string \<Rightarrow> string \<Rightarrow> int64 \<Rightarrow> instant \<Rightarrow> (db \<times> WalletInfo) pres" where
  "LinkWallet db a wallet wid now =
     (case find_row uw_wallet wallet (user_wallets db) of
        Some w \<Rightarrow> if uw_account w \<noteq> a then Inl ErrWalletOtherAccount else Inl StoreConflict
      | None \<Rightarrow>
          case find_row uw_account a (user_wallets db) of
            Some w \<Rightarrow> if uw_wallet w = wallet then Inl StoreConflict else Inl ErrWalletAlreadyLinked
          | None \<Rightarrow>
              let w = \<lparr>uw_id = wid, uw_account = a, uw_wallet = wallet, uw_primary = True, uw_created_at = now\<rparr> in
              Inr (db\<lparr>user_wallets := user_wallets db @ [w]\<rparr>, w))"

definition ListWalletsByUser :: "db \<Rightarrow> string \<Rightarrow> WalletInfo list" where
  "ListWalletsByUser db a =
     sort_key (\<lambda>w. \<not> uw_primary w) (sort_key uw_created_at (sort_key uw_id (filter (\<lambda>w. uw_account w = a) (user_wallets db))))"

definition GetUserWalletSet :: "db \<Rightarrow> string \<Rightarrow> string list" where
  "GetUserWalletSet db a = map uw_wallet (sort_key uw_created_at (sort_key uw_id (filter (\<lambda>w. uw_account w = a) (user_wallets db))))"

text \<open>The wallet that becomes primary: the oldest one left.\<close>

definition promote_primary :: "string \<Rightarrow> WalletInfo list \<Rightarrow> WalletInfo list" where
  "promote_primary a ws =
     (case sort_key uw_created_at (sort_key uw_id (filter (\<lambda>w. uw_account w = a) ws)) of
        [] \<Rightarrow> ws
      | w # _ \<Rightarrow> update_row uw_id (uw_id w) (\<lambda>w. w\<lparr>uw_primary := True\<rparr>) ws)"

definition DeleteWalletByIDForUser :: "policy \<Rightarrow> db \<Rightarrow> string \<Rightarrow> int64 \<Rightarrow> (db \<times> bool) pres" where
  "DeleteWalletByIDForUser p db a wid =
     (case List.find (\<lambda>w. uw_id w = wid \<and> uw_account w = a) (user_wallets db) of
        None \<Rightarrow> Inr (db, False)
      | Some w \<Rightarrow>
          if list_ex (\<lambda>i. in_AccountID i = a \<and> OwnerWallet i = uw_wallet w) (instances p) then Inl ErrWalletInUse
          else
            let ws = filter (\<lambda>w. \<not> (uw_id w = wid \<and> uw_account w = a)) (user_wallets db) in
            Inr (db\<lparr>user_wallets := if uw_primary w then promote_primary a ws else ws\<rparr>, True))"

section \<open>Reading instances\<close>

definition trusted_services :: "policy \<Rightarrow> int64 \<Rightarrow> InstanceService list" where
  "trusted_services p iid = filter (\<lambda>s. svc_InstanceID s = iid \<and> Exposure s = ExposureTrustedRegion) (services p)"

text \<open>A membership as the listing joins it with its region and instance.\<close>

definition join_membership :: "policy \<Rightarrow> RegionMembership \<Rightarrow> RegionMembership option" where
  "join_membership p m =
     (case (find_row rg_ID (ms_RegionID m) (regions p), find_row in_ID (ms_InstanceID m) (instances p)) of
        (Some r, Some i) \<Rightarrow>
          Some (m\<lparr>ms_PeerID := in_PeerID i, ms_Label := in_Label i, ms_RegionSlug := Slug r, ms_RegionStatus := rg_Status r, ms_RegionRevision := RegionRevision r,
                  TrustedServiceCount := length (trusted_services p (ms_InstanceID m))\<rparr>)
      | _ \<Rightarrow> None)"

definition listMemberships :: "policy \<Rightarrow> (RegionMembership \<Rightarrow> bool) \<Rightarrow> RegionMembership list" where
  "listMemberships p sel =
     rev (sort_key ms_CreatedAt (sort_key ms_InstanceID (List.map_filter (join_membership p) (filter sel (memberships p)))))"

definition rules_of :: "(int64 \<times> ACLRule) list \<Rightarrow> int64 \<Rightarrow> ACLRule list" where
  "rules_of rules k = sort_key (\<lambda>r. (rule_kind r, rule_value r)) (map snd (filter (\<lambda>r. fst r = k) rules))"

definition ListInstanceRules :: "policy \<Rightarrow> int64 \<Rightarrow> ACLRule list" where
  "ListInstanceRules p iid = rules_of (instance_rules p) iid"

definition listInstanceServices :: "policy \<Rightarrow> int64 \<Rightarrow> InstanceService list" where
  "listInstanceServices p iid =
     map (\<lambda>s. s\<lparr>svc_RegionSlug := map_option Slug (Option.bind (svc_RegionID s) (\<lambda>r. find_row rg_ID r (regions p))), svc_Rules := rules_of (service_rules p) (svc_ID s)\<rparr>)
       (sort_key ServiceName (filter (\<lambda>s. svc_InstanceID s = iid) (services p)))"

definition enrichInstance :: "policy \<Rightarrow> InstanceInfo \<Rightarrow> InstanceInfo" where
  "enrichInstance p i =
     i\<lparr>Membership := find_row ms_InstanceID (in_ID i) (rev (listMemberships p (\<lambda>m. ms_InstanceID m = in_ID i))), Services := listInstanceServices p (in_ID i)\<rparr>"

definition full_instance :: "policy \<Rightarrow> InstanceInfo \<Rightarrow> InstanceInfo" where
  "full_instance p i = (enrichInstance p i)\<lparr>in_Rules := ListInstanceRules p (in_ID i)\<rparr>"

definition getInstance :: "policy \<Rightarrow> (InstanceInfo \<Rightarrow> bool) \<Rightarrow> InstanceInfo pres" where
  "getInstance p sel = (case List.find sel (instances p) of None \<Rightarrow> Inl StoreNotFound | Some i \<Rightarrow> Inr i)"

definition GetInstanceByIDForUser :: "policy \<Rightarrow> string \<Rightarrow> int64 \<Rightarrow> InstanceInfo pres" where
  "GetInstanceByIDForUser p a iid = rbind (getInstance p (\<lambda>i. in_ID i = iid \<and> in_AccountID i = a)) (\<lambda>i. Inr (full_instance p i))"

definition GetInstanceByID :: "policy \<Rightarrow> int64 \<Rightarrow> InstanceInfo pres" where
  "GetInstanceByID p iid = rbind (getInstance p (\<lambda>i. in_ID i = iid)) (\<lambda>i. Inr (full_instance p i))"

definition GetInstanceByPeerID :: "policy \<Rightarrow> string \<Rightarrow> InstanceInfo pres" where
  "GetInstanceByPeerID p peer = rbind (getInstance p (\<lambda>i. in_PeerID i = peer)) (\<lambda>i. Inr (full_instance p i))"

definition ListInstancesByUser :: "policy \<Rightarrow> string \<Rightarrow> InstanceInfo list" where
  "ListInstancesByUser p a = map (full_instance p) (rev (sort_key in_CreatedAt (sort_key in_ID (filter (\<lambda>i. in_AccountID i = a) (instances p)))))"

definition ListManagedInstancesByPeerIDs :: "policy \<Rightarrow> string list \<Rightarrow> InstanceInfo list" where
  "ListManagedInstancesByPeerIDs p peers = map (full_instance p) (filter (\<lambda>i. in_PeerID i \<in> set peers) (instances p))"

section \<open>Writing instances\<close>

definition owns_wallet :: "db \<Rightarrow> string \<Rightarrow> string \<Rightarrow> bool" where
  "owns_wallet db a wallet \<longleftrightarrow> list_ex (\<lambda>w. uw_account w = a \<and> uw_wallet w = wallet) (user_wallets db)"

definition has_membership :: "policy \<Rightarrow> int64 \<Rightarrow> int64 \<Rightarrow> bool" where
  "has_membership p iid rid \<longleftrightarrow> list_ex (\<lambda>m. ms_InstanceID m = iid \<and> ms_RegionID m = rid) (memberships p)"

definition bare :: "InstanceInfo \<Rightarrow> InstanceInfo" where
  "bare i = i\<lparr>in_Rules := [], Membership := None, Services := []\<rparr>"

definition CreateInstance :: "policy \<Rightarrow> db \<Rightarrow> InstanceInfo \<Rightarrow> instant \<Rightarrow> (policy \<times> InstanceInfo) pres" where
  "CreateInstance p db i now =
     (let row = (bare i)\<lparr>in_ID := next_instance p, PolicyScope := (if PolicyScope i = [] then ''peer'' else PolicyScope i), PolicyRevision := 1,
            in_CreatedAt := now, in_UpdatedAt := now\<rparr> in
      if \<not> instance_check row then Inl (Failure ''store: create instance'')
      else if has_row in_PeerID (in_PeerID i) (instances p) then Inl StoreConflict
      else if \<not> owns_wallet db (in_AccountID i) (OwnerWallet i) then Inl (Failure ''store: create instance'')
      else Inr (p\<lparr>instances := instances p @ [row], next_instance := next_instance p + 1\<rparr>, row))"

text \<open>An UPDATE of one instance row, guarded by its owner, with the CHECK constraints of the new row.\<close>

definition update_instance :: "policy \<Rightarrow> (InstanceInfo \<Rightarrow> bool) \<Rightarrow> (InstanceInfo \<Rightarrow> InstanceInfo) \<Rightarrow> string \<Rightarrow> (policy \<times> InstanceInfo) pres" where
  "update_instance p sel f what =
     (case List.find sel (instances p) of
        None \<Rightarrow> Inl StoreNotFound
      | Some i \<Rightarrow>
          if \<not> instance_check (f i) then Inl (Failure what)
          else Inr (p\<lparr>instances := map (\<lambda>i. if sel i then f i else i) (instances p)\<rparr>, f i))"

definition UpdateInstanceMetadata :: "policy \<Rightarrow> string \<Rightarrow> int64 \<Rightarrow> string \<Rightarrow> string \<Rightarrow> string \<Rightarrow> string option \<Rightarrow> instant option \<Rightarrow> instant \<Rightarrow>
    (policy \<times> InstanceInfo) pres" where
  "UpdateInstanceMetadata p a iid label mode status obs obsAt now =
     rbind (update_instance p (\<lambda>i. in_ID i = iid \<and> in_AccountID i = a)
              (\<lambda>i. i\<lparr>in_Label := label, in_AccessMode := mode, OwnershipStatus := status, ObservedWallet := obs, OwnershipObservedAt := obsAt, in_UpdatedAt := now\<rparr>)
              ''store: update instance metadata'')
       (\<lambda>(p', i). Inr (p', full_instance p' i))"

fun insert_rules :: "(int64 \<times> ACLRule) list \<Rightarrow> int64 \<Rightarrow> ACLRule list \<Rightarrow> string \<Rightarrow> (int64 \<times> ACLRule) list pres" where
  "insert_rules rules k [] what = Inr rules"
| "insert_rules rules k (r # rs) what =
     (if (k, r) \<in> set rules \<or> \<not> rule_check r then Inl (Failure what) else insert_rules (rules @ [(k, r)]) k rs what)"

definition ReplaceInstanceACL :: "policy \<Rightarrow> string \<Rightarrow> int64 \<Rightarrow> string \<Rightarrow> string \<Rightarrow> string option \<Rightarrow> instant option \<Rightarrow> ACLRule list \<Rightarrow> instant \<Rightarrow>
    (policy \<times> InstanceInfo) pres" where
  "ReplaceInstanceACL p a iid mode status obs obsAt rules now =
     rbind (update_instance p (\<lambda>i. in_ID i = iid \<and> in_AccountID i = a)
              (\<lambda>i. i\<lparr>in_AccessMode := mode, OwnershipStatus := status, ObservedWallet := obs, OwnershipObservedAt := obsAt,
                     PolicyRevision := PolicyRevision i + 1, in_UpdatedAt := now\<rparr>)
              ''store: update instance acl'') (\<lambda>(p1, i).
     rbind (insert_rules (filter (\<lambda>r. fst r \<noteq> iid) (instance_rules p1)) iid rules ''store: insert instance rules'') (\<lambda>rs.
       let p2 = p1\<lparr>instance_rules := rs\<rparr> in Inr (p2, (enrichInstance p2 i)\<lparr>in_Rules := rules\<rparr>)))"

definition ReclaimInstance :: "policy \<Rightarrow> db \<Rightarrow> int64 \<Rightarrow> string \<Rightarrow> string \<Rightarrow> string option \<Rightarrow> instant option \<Rightarrow> instant \<Rightarrow> (policy \<times> InstanceInfo) pres" where
  "ReclaimInstance p db iid a wallet obs obsAt now =
     (let p1 = p\<lparr>instance_rules := filter (\<lambda>r. fst r \<noteq> iid) (instance_rules p)\<rparr> in
      rbind (update_instance p1 (\<lambda>i. in_ID i = iid)
              (\<lambda>i. i\<lparr>in_AccountID := a, OwnerWallet := wallet, in_AccessMode := ''restricted'', PolicyScope := ''peer'', OwnershipStatus := ''active'',
                     ObservedWallet := obs, OwnershipObservedAt := obsAt, PolicyRevision := PolicyRevision i + 1, in_UpdatedAt := now\<rparr>)
              ''store: reclaim instance'') (\<lambda>(p2, i).
        if \<not> owns_wallet db a wallet then Inl (Failure ''store: reclaim instance'')
        else Inr (p2, enrichInstance p2 i)))"

text \<open>
  Deleting an instance cascades to everything that belongs to it. The membership of an instance must not be deleted while a service refers to it (ON DELETE RESTRICT), so the outcome for an
  instance with trusted services depends on which cascade the database runs first.
\<close>

definition DeleteInstanceByIDForUser :: "policy \<Rightarrow> string \<Rightarrow> int64 \<Rightarrow> bool \<Rightarrow> (policy \<times> bool) pres" where
  "DeleteInstanceByIDForUser p a iid services_first =
     (if \<not> list_ex (\<lambda>i. in_ID i = iid \<and> in_AccountID i = a) (instances p) then Inr (p, False)
      else if \<not> services_first \<and> trusted_services p iid \<noteq> [] then Inl (Failure ''store: delete instance'')
      else
        let gone = map svc_ID (filter (\<lambda>s. svc_InstanceID s = iid) (services p)) in
        Inr (p\<lparr>instances := filter (\<lambda>i. in_ID i \<noteq> iid) (instances p),
               instance_rules := filter (\<lambda>r. fst r \<noteq> iid) (instance_rules p),
               memberships := filter (\<lambda>m. ms_InstanceID m \<noteq> iid) (memberships p),
               membership_events := filter (\<lambda>e. ev_InstanceID e \<noteq> iid) (membership_events p),
               invitations := filter (\<lambda>v. iv_InstanceID v \<noteq> iid) (invitations p),
               services := filter (\<lambda>s. svc_InstanceID s \<noteq> iid) (services p),
               service_rules := filter (\<lambda>r. fst r \<notin> set gone) (service_rules p)\<rparr>, True))"

section \<open>Well-formed tables\<close>

text \<open>
  What the schema promises of every table, given the rows the table may refer to: unique keys, the CHECK constraints, references that exist, serial ids below their counter. An account links one
  wallet, a wallet belongs to one account, and the owner wallet of an instance is linked to its account.
\<close>

definition wallets_ok :: "WalletInfo list \<Rightarrow> bool" where
  "wallets_ok ws \<longleftrightarrow> keys_distinct uw_account ws \<and> keys_distinct uw_wallet ws"

definition instances_ok :: "InstanceInfo list \<Rightarrow> (string \<times> string) set \<Rightarrow> int64 \<Rightarrow> bool" where
  "instances_ok is links n \<longleftrightarrow> keys_distinct in_ID is \<and> keys_distinct in_PeerID is \<and>
     (\<forall>i\<in>set is. instance_check i \<and> in_ID i < n \<and> (in_AccountID i, OwnerWallet i) \<in> links)"

definition regions_ok :: "RegionInfo list \<Rightarrow> int64 \<Rightarrow> bool" where
  "regions_ok rs n \<longleftrightarrow> keys_distinct rg_ID rs \<and> keys_distinct Slug rs \<and> (\<forall>r\<in>set rs. region_check r \<and> rg_ID r < n)"

definition memberships_ok :: "RegionMembership list \<Rightarrow> int64 set \<Rightarrow> int64 set \<Rightarrow> bool" where
  "memberships_ok ms iids rids \<longleftrightarrow> keys_distinct ms_InstanceID ms \<and> (\<forall>m\<in>set ms. membership_check m \<and> ms_InstanceID m \<in> iids \<and> ms_RegionID m \<in> rids)"

definition invitation_check :: "RegionInvitation \<Rightarrow> bool" where
  "invitation_check v \<longleftrightarrow> role_check (iv_NodeRole v) \<and> iv_Status v \<in> {''pending'', ''accepted'', ''expired'', ''cancelled''}"

definition invitations_ok :: "RegionInvitation list \<Rightarrow> int64 set \<Rightarrow> int64 set \<Rightarrow> int64 \<Rightarrow> bool" where
  "invitations_ok vs iids rids n \<longleftrightarrow> keys_distinct iv_ID vs \<and> keys_distinct (\<lambda>v. (iv_RegionID v, iv_InstanceID v)) (filter (\<lambda>v. iv_Status v = ''pending'') vs) \<and>
     (\<forall>v\<in>set vs. invitation_check v \<and> iv_ID v < n \<and> iv_InstanceID v \<in> iids \<and> iv_RegionID v \<in> rids)"

definition events_ok :: "RegionMembershipEvent list \<Rightarrow> int64 set \<Rightarrow> int64 set \<Rightarrow> bool" where
  "events_ok es iids rids \<longleftrightarrow> (\<forall>e\<in>set es. ev_InstanceID e \<in> iids \<and> set_option (ev_RegionID e) \<subseteq> rids)"

definition services_ok :: "InstanceService list \<Rightarrow> int64 set \<Rightarrow> (int64 \<times> int64) set \<Rightarrow> int64 \<Rightarrow> bool" where
  "services_ok ss iids pairs n \<longleftrightarrow> keys_distinct svc_ID ss \<and> keys_distinct (\<lambda>s. (svc_InstanceID s, ServiceName s)) ss \<and>
     (\<forall>s\<in>set ss. service_check s \<and> svc_ID s < n \<and> svc_InstanceID s \<in> iids \<and> (\<forall>r. svc_RegionID s = Some r \<longrightarrow> (svc_InstanceID s, r) \<in> pairs))"

definition rules_ok :: "(int64 \<times> ACLRule) list \<Rightarrow> int64 set \<Rightarrow> bool" where
  "rules_ok rules ids \<longleftrightarrow> distinct rules \<and> (\<forall>(k, r)\<in>set rules. rule_check r \<and> k \<in> ids)"

definition wallet_links :: "WalletInfo list \<Rightarrow> (string \<times> string) set" where
  "wallet_links ws = (\<lambda>w. (uw_account w, uw_wallet w)) ` set ws"

definition instance_ids :: "policy \<Rightarrow> int64 set" where
  "instance_ids p = in_ID ` set (instances p)"

definition region_ids :: "policy \<Rightarrow> int64 set" where
  "region_ids p = rg_ID ` set (regions p)"

definition service_ids :: "policy \<Rightarrow> int64 set" where
  "service_ids p = svc_ID ` set (services p)"

definition member_pairs :: "policy \<Rightarrow> (int64 \<times> int64) set" where
  "member_pairs p = (\<lambda>m. (ms_InstanceID m, ms_RegionID m)) ` set (memberships p)"

definition challenges_ok :: "policy \<Rightarrow> bool" where
  "challenges_ok p \<longleftrightarrow> keys_distinct idn_AccountID (identities p) \<and> keys_distinct wc_ID (wallet_challenges p) \<and> keys_distinct nc_ID (node_challenges p)"

definition members_ok :: "policy \<Rightarrow> bool" where
  "members_ok p \<longleftrightarrow>
     memberships_ok (memberships p) (instance_ids p) (region_ids p) \<and>
     invitations_ok (invitations p) (instance_ids p) (region_ids p) (next_invitation p) \<and>
     events_ok (membership_events p) (instance_ids p) (region_ids p)"

definition access_ok :: "policy \<Rightarrow> bool" where
  "access_ok p \<longleftrightarrow>
     services_ok (services p) (instance_ids p) (member_pairs p) (next_service p) \<and>
     rules_ok (instance_rules p) (instance_ids p) \<and> rules_ok (service_rules p) (service_ids p)"

definition policy_inv :: "policy \<times> db \<Rightarrow> bool" where
  "policy_inv = (\<lambda>(p, db). challenges_ok p \<and> wallets_ok (user_wallets db) \<and>
     instances_ok (instances p) (wallet_links (user_wallets db)) (next_instance p) \<and> regions_ok (regions p) (next_region p) \<and> members_ok p \<and> access_ok p)"

text \<open>A claimed instance with the defaults, for examples.\<close>

definition demo_instance :: InstanceInfo where
  "demo_instance = \<lparr>in_ID = 0, in_AccountID = ''acct'', in_PeerID = ''peer1'', in_Label = ''box'', OwnerWallet = ''wallet1'', in_AccessMode = ''restricted'', PolicyScope = [],
     PolicyRevision = 0, OwnershipStatus = ''active'', ObservedWallet = None, OwnershipObservedAt = None, in_CreatedAt = 0, in_UpdatedAt = 0, in_Rules = [], Membership = None,
     Services = []\<rparr>"

section \<open>Lemmas on tables\<close>

lemma keys_distinct_filter: "keys_distinct key rows \<Longrightarrow> keys_distinct key (filter P rows)"
  by (auto simp: keys_distinct_def distinct_map intro: inj_on_subset)

lemma keys_distinct_map: "(\<And>r. key (f r) = key r) \<Longrightarrow> keys_distinct key (map f rows) = keys_distinct key rows"
  by (simp add: keys_distinct_def comp_def)

lemma find_Some_mem: "List.find P rows = Some r \<Longrightarrow> r \<in> set rows \<and> P r"
  by (metis find_Some_iff nth_mem)

lemma owns_wallet_iff: "owns_wallet db a w \<longleftrightarrow> (a, w) \<in> wallet_links (user_wallets db)"
  by (auto simp: owns_wallet_def wallet_links_def list_ex_iff)

lemma empty_policy_inv: "policy_inv (empty_policy, empty_db)"
  by (simp add: policy_inv_def empty_policy_def empty_db_def challenges_ok_def wallets_ok_def instances_ok_def regions_ok_def members_ok_def access_ok_def memberships_ok_def
      invitations_ok_def events_ok_def services_ok_def rules_ok_def row_simps)

text \<open>References stay valid where the rows referred to grow.\<close>

lemma memberships_ok_mono: "memberships_ok ms iids rids \<Longrightarrow> iids \<subseteq> iids' \<Longrightarrow> rids \<subseteq> rids' \<Longrightarrow> memberships_ok ms iids' rids'"
  by (auto simp: memberships_ok_def)

lemma invitations_ok_mono: "invitations_ok vs iids rids n \<Longrightarrow> iids \<subseteq> iids' \<Longrightarrow> rids \<subseteq> rids' \<Longrightarrow> invitations_ok vs iids' rids' n"
  by (auto simp: invitations_ok_def)

lemma events_ok_mono: "events_ok es iids rids \<Longrightarrow> iids \<subseteq> iids' \<Longrightarrow> rids \<subseteq> rids' \<Longrightarrow> events_ok es iids' rids'"
  by (fastforce simp: events_ok_def)

lemma services_ok_mono: "services_ok ss iids pairs n \<Longrightarrow> iids \<subseteq> iids' \<Longrightarrow> pairs \<subseteq> pairs' \<Longrightarrow> services_ok ss iids' pairs' n"
  by (auto simp: services_ok_def)

lemma rules_ok_mono: "rules_ok rules ids \<Longrightarrow> ids \<subseteq> ids' \<Longrightarrow> rules_ok rules ids'"
  by (auto simp: rules_ok_def)

text \<open>Rows that go take nothing else with them.\<close>

lemma memberships_ok_filter: "memberships_ok ms iids rids \<Longrightarrow> memberships_ok (filter (\<lambda>m. ms_InstanceID m \<noteq> k) ms) (iids - {k}) rids"
  by (simp add: memberships_ok_def keys_distinct_filter)

lemma invitations_ok_filter: "invitations_ok vs iids rids n \<Longrightarrow> invitations_ok (filter (\<lambda>v. iv_InstanceID v \<noteq> k) vs) (iids - {k}) rids n"
  by (auto simp: invitations_ok_def keys_distinct_filter filter_filter conj_commute dest: keys_distinct_filter [where P = "\<lambda>v. iv_InstanceID v \<noteq> k"])

lemma events_ok_filter: "events_ok es iids rids \<Longrightarrow> events_ok (filter (\<lambda>e. ev_InstanceID e \<noteq> k) es) (iids - {k}) rids"
  by (simp add: events_ok_def)

lemma services_ok_filter: "services_ok ss iids pairs n \<Longrightarrow> services_ok (filter (\<lambda>s. svc_InstanceID s \<noteq> k) ss) (iids - {k}) (pairs - {k} \<times> UNIV) n"
  by (auto simp: services_ok_def keys_distinct_filter)

lemma rules_ok_filter: "rules_ok rules ids \<Longrightarrow> rules_ok (filter (\<lambda>r. fst r \<notin> gone) rules) (ids - gone)"
  by (auto simp: rules_ok_def)

lemma rules_ok_drop: "rules_ok rules ids \<Longrightarrow> rules_ok (filter (\<lambda>r. fst r \<noteq> k) rules) ids"
  by (auto simp: rules_ok_def)

lemma insert_rules_ok: "insert_rules rules k new what = Inr rules' \<Longrightarrow> rules_ok rules ids \<Longrightarrow> k \<in> ids \<Longrightarrow> rules_ok rules' ids"
proof (induction new arbitrary: rules)
  case Nil
  then show ?case by simp
next
  case (Cons r new)
  from Cons.prems(1) have new: "(k, r) \<notin> set rules" "rule_check r" "insert_rules (rules @ [(k, r)]) k new what = Inr rules'"
    by (auto split: if_splits)
  then have "rules_ok (rules @ [(k, r)]) ids" using Cons.prems(2,3) by (auto simp: rules_ok_def)
  from Cons.IH [OF new(3) this Cons.prems(3)] show ?case .
qed

section \<open>Every operation keeps the tables well formed\<close>

lemmas policy_simps = policy_inv_def challenges_ok_def members_ok_def access_ok_def instance_ids_def region_ids_def service_ids_def member_pairs_def

lemma RefreshIdentity_inv: "policy_inv (p, db) \<Longrightarrow> policy_inv (RefreshIdentity p i, db)"
  by (simp add: RefreshIdentity_def policy_simps row_simps keys_distinct_update)

lemma CreateWalletChallenge_inv: "policy_inv (p, db) \<Longrightarrow> CreateWalletChallenge p ch = Inr p' \<Longrightarrow> policy_inv (p', db)"
  by (auto simp: CreateWalletChallenge_def policy_simps row_simps split: if_splits)

lemma ConsumeWalletChallenge_inv: "policy_inv (p, db) \<Longrightarrow> ConsumeWalletChallenge p a cid now = Inr p' \<Longrightarrow> policy_inv (p', db)"
  by (auto simp: ConsumeWalletChallenge_def policy_simps keys_distinct_update split: if_splits option.splits)

lemma LinkWallet_inv:
  assumes "policy_inv (p, db)" and "LinkWallet db a wallet wid now = Inr (db', w)"
  shows "policy_inv (p, db')"
proof -
  define w0 where "w0 = \<lparr>uw_id = wid, uw_account = a, uw_wallet = wallet, uw_primary = True, uw_created_at = now\<rparr>"
  have new: "find_row uw_wallet wallet (user_wallets db) = None" "find_row uw_account a (user_wallets db) = None" "db' = db\<lparr>user_wallets := user_wallets db @ [w0]\<rparr>"
    using assms(2) by (auto simp: LinkWallet_def Let_def w0_def split: option.splits if_splits)
  then have "wallets_ok (user_wallets db')" using assms(1)
    by (auto simp: policy_inv_def wallets_ok_def row_simps find_row_None_iff w0_def)
  moreover have "wallet_links (user_wallets db) \<subseteq> wallet_links (user_wallets db')" using new(3) by (auto simp: wallet_links_def)
  then have "instances_ok (instances p) (wallet_links (user_wallets db')) (next_instance p)" using assms(1)
    by (auto simp: policy_inv_def instances_ok_def)
  ultimately show ?thesis using assms(1) by (simp add: policy_inv_def)
qed

text \<open>With one wallet per account nothing is left to promote.\<close>

lemma DeleteWallet_rows:
  assumes "policy_inv (p, db)" and "List.find (\<lambda>w. uw_id w = wid \<and> uw_account w = a) (user_wallets db) = Some w"
  shows "promote_primary a (filter (\<lambda>w. \<not> (uw_id w = wid \<and> uw_account w = a)) (user_wallets db)) = filter (\<lambda>w. \<not> (uw_id w = wid \<and> uw_account w = a)) (user_wallets db)"
    and "wallet_links (filter (\<lambda>w. \<not> (uw_id w = wid \<and> uw_account w = a)) (user_wallets db)) \<supseteq> wallet_links (user_wallets db) - {(a, uw_wallet w)}"
proof -
  have w: "w \<in> set (user_wallets db)" "uw_id w = wid" "uw_account w = a" using find_Some_mem [OF assms(2)] by auto
  have only: "v = w" if "v \<in> set (user_wallets db)" "uw_account v = a" for v
  proof -
    have "inj_on uw_account (set (user_wallets db))" using assms(1) by (simp add: policy_inv_def wallets_ok_def keys_distinct_def distinct_map)
    then show ?thesis using that w by (metis inj_onD)
  qed
  then have "filter (\<lambda>w. uw_account w = a) (filter (\<lambda>w. \<not> (uw_id w = wid \<and> uw_account w = a)) (user_wallets db)) = []"
    using w by (metis (mono_tags, lifting) filter_False mem_Collect_eq set_filter)
  then show "promote_primary a (filter (\<lambda>w. \<not> (uw_id w = wid \<and> uw_account w = a)) (user_wallets db)) = filter (\<lambda>w. \<not> (uw_id w = wid \<and> uw_account w = a)) (user_wallets db)"
    by (simp add: promote_primary_def)
  show "wallet_links (filter (\<lambda>w. \<not> (uw_id w = wid \<and> uw_account w = a)) (user_wallets db)) \<supseteq> wallet_links (user_wallets db) - {(a, uw_wallet w)}"
  proof
    fix l
    assume "l \<in> wallet_links (user_wallets db) - {(a, uw_wallet w)}"
    then obtain v where v: "v \<in> set (user_wallets db)" "l = (uw_account v, uw_wallet v)" "l \<noteq> (a, uw_wallet w)" by (auto simp: wallet_links_def)
    then have "uw_account v \<noteq> a" using only [OF v(1)] by blast
    then show "l \<in> wallet_links (filter (\<lambda>w. \<not> (uw_id w = wid \<and> uw_account w = a)) (user_wallets db))"
      unfolding wallet_links_def using v by (intro image_eqI [of _ _ v]) simp_all
  qed
qed

lemma DeleteWalletByIDForUser_inv:
  assumes inv: "policy_inv (p, db)" and "DeleteWalletByIDForUser p db a wid = Inr (db', gone)"
  shows "policy_inv (p, db')"
proof (cases "List.find (\<lambda>w. uw_id w = wid \<and> uw_account w = a) (user_wallets db)")
  case None
  then show ?thesis using assms by (simp add: DeleteWalletByIDForUser_def)
next
  case (Some w)
  let ?ws = "filter (\<lambda>w. \<not> (uw_id w = wid \<and> uw_account w = a)) (user_wallets db)"
  have free: "\<forall>i\<in>set (instances p). \<not> (in_AccountID i = a \<and> OwnerWallet i = uw_wallet w)" and db': "user_wallets db' = ?ws"
    using assms(2) Some DeleteWallet_rows(1) [OF inv Some] by (auto simp: DeleteWalletByIDForUser_def Let_def list_ex_iff split: if_splits)
  have "wallets_ok ?ws" using inv by (simp add: policy_inv_def wallets_ok_def keys_distinct_filter)
  moreover have "instances_ok (instances p) (wallet_links ?ws) (next_instance p)"
    using inv free DeleteWallet_rows(2) [OF inv Some] by (fastforce simp: policy_inv_def instances_ok_def)
  ultimately show ?thesis using inv db' by (simp add: policy_inv_def)
qed

lemma instances_grow:
  assumes "policy_inv (p, db)" and "instances_ok (instances p') (wallet_links (user_wallets db)) (next_instance p')"
    and "instance_ids p \<subseteq> instance_ids p'" "region_ids p' = region_ids p" "member_pairs p' = member_pairs p" "service_ids p' = service_ids p"
    and "challenges_ok p'" "regions_ok (regions p') (next_region p')"
    and "memberships p' = memberships p" "invitations p' = invitations p" "membership_events p' = membership_events p" "next_invitation p' = next_invitation p"
    and "services p' = services p" "instance_rules p' = instance_rules p" "service_rules p' = service_rules p" "next_service p' = next_service p"
  shows "policy_inv (p', db)"
proof -
  have "members_ok p'" using assms(1,3-) unfolding policy_inv_def members_ok_def
    by (simp add: memberships_ok_mono [OF _ assms(3) order_refl] invitations_ok_mono [OF _ assms(3) order_refl] events_ok_mono [OF _ assms(3) order_refl])
  moreover have "access_ok p'" using assms(1,3-) unfolding policy_inv_def access_ok_def
    by (simp add: services_ok_mono [OF _ assms(3) order_refl] rules_ok_mono [OF _ assms(3)])
  ultimately show ?thesis using assms by (simp add: policy_inv_def)
qed

lemma CreateInstance_inv:
  assumes inv: "policy_inv (p, db)" and ok: "CreateInstance p db i now = Inr (p', out)"
  shows "policy_inv (p', db)"
proof -
  have row: "in_ID out = next_instance p" "in_PeerID out \<notin> in_PeerID ` set (instances p)" "instance_check out"
      "(in_AccountID out, OwnerWallet out) \<in> wallet_links (user_wallets db)"
    and p': "p' = p\<lparr>instances := instances p @ [out], next_instance := next_instance p + 1\<rparr>"
    using ok by (auto simp: CreateInstance_def Let_def has_row_iff owns_wallet_iff bare_def split: if_splits)
  have "instances_ok (instances p') (wallet_links (user_wallets db)) (next_instance p')"
  proof -
    have old: "instances_ok (instances p) (wallet_links (user_wallets db)) (next_instance p)" using inv by (simp add: policy_inv_def)
    then have "in_ID out \<notin> in_ID ` set (instances p)" using row(1) by (auto simp: instances_ok_def)
    then show ?thesis using old row p' unfolding instances_ok_def keys_distinct_snoc by (simp add: keys_distinct_snoc add_strict_increasing2 less_imp_le)
  qed
  moreover have "instance_ids p \<subseteq> instance_ids p'" "region_ids p' = region_ids p" "member_pairs p' = member_pairs p" "service_ids p' = service_ids p"
    using p' by (auto simp: instance_ids_def region_ids_def member_pairs_def service_ids_def)
  moreover have "challenges_ok p'" "regions_ok (regions p') (next_region p')" using inv p' by (simp_all add: policy_inv_def challenges_ok_def)
  ultimately show ?thesis using instances_grow [OF inv, of p'] p' by simp
qed

lemma update_instance_inv:
  assumes inv: "policy_inv (p, db)" and ok: "update_instance p sel f what = Inr (p', out)"
    and same: "\<And>i. in_ID (f i) = in_ID i" "\<And>i. in_PeerID (f i) = in_PeerID i"
    and one: "\<And>i j. i \<in> set (instances p) \<Longrightarrow> sel i \<Longrightarrow> j \<in> set (instances p) \<Longrightarrow> sel j \<Longrightarrow> i = j"
    and linked: "\<And>i. i \<in> set (instances p) \<Longrightarrow> sel i \<Longrightarrow> (in_AccountID (f i), OwnerWallet (f i)) \<in> wallet_links (user_wallets db)"
  shows "policy_inv (p', db)"
proof -
  obtain i where i: "List.find sel (instances p) = Some i" "instance_check (f i)" "p' = p\<lparr>instances := map (\<lambda>i. if sel i then f i else i) (instances p)\<rparr>"
    using ok by (auto simp: update_instance_def split: option.splits if_splits)
  have sel: "i \<in> set (instances p)" "sel i" using find_Some_mem [OF i(1)] by auto
  have "instances_ok (instances p') (wallet_links (user_wallets db)) (next_instance p')"
    using inv same linked one [OF sel] i(2,3) by (auto simp: policy_inv_def instances_ok_def keys_distinct_map)
  moreover have "map in_ID (instances p') = map in_ID (instances p)" using i(3) same by simp
  then have "instance_ids p' = instance_ids p" unfolding instance_ids_def by (metis set_map)
  ultimately show ?thesis using inv i(3) by (simp add: policy_inv_def challenges_ok_def members_ok_def access_ok_def region_ids_def member_pairs_def service_ids_def)
qed

lemma owned_instance:
  assumes "policy_inv (p, db)" and "i \<in> set (instances p)" and "j \<in> set (instances p)" and "in_ID i = in_ID j"
  shows "i = j"
proof -
  have "inj_on in_ID (set (instances p))" using assms(1) by (simp add: policy_inv_def instances_ok_def keys_distinct_def distinct_map)
  then show ?thesis using assms(2-4) by (metis inj_onD)
qed

lemma linked_instance: "policy_inv (p, db) \<Longrightarrow> i \<in> set (instances p) \<Longrightarrow> (in_AccountID i, OwnerWallet i) \<in> wallet_links (user_wallets db)"
  by (simp add: policy_inv_def instances_ok_def)

lemma owner_update_inv:
  assumes inv: "policy_inv (p, db)" and ok: "update_instance p (\<lambda>i. in_ID i = iid \<and> in_AccountID i = a) f what = Inr (p', out)"
    and same: "\<And>i. in_ID (f i) = in_ID i" "\<And>i. in_PeerID (f i) = in_PeerID i" "\<And>i. in_AccountID (f i) = in_AccountID i" "\<And>i. OwnerWallet (f i) = OwnerWallet i"
  shows "policy_inv (p', db)"
  using update_instance_inv [OF inv ok same(1,2)] owned_instance [OF inv] linked_instance [OF inv] same(3,4) by (metis (mono_tags, lifting))

lemma UpdateInstanceMetadata_inv:
  assumes "policy_inv (p, db)" and "UpdateInstanceMetadata p a iid label mode status obs obsAt now = Inr (p', out)"
  shows "policy_inv (p', db)"
  using assms(2) unfolding UpdateInstanceMetadata_def by (auto elim!: rbind_InrE owner_update_inv [OF assms(1)])

text \<open>An update of an instance leaves the other tables as they are.\<close>

lemma update_instance_frame:
  assumes "update_instance p sel f what = Inr (p', out)"
  shows "\<exists>is. p' = p\<lparr>instances := is\<rparr>" and "\<exists>i\<in>set (instances p). sel i \<and> out = f i"
  using assms find_Some_mem by (fastforce simp: update_instance_def split: option.splits if_splits)+

lemma replace_rules_inv:
  assumes inv: "policy_inv (p, db)" and "rules_ok rules (instance_ids p)"
  shows "policy_inv (p\<lparr>instance_rules := rules\<rparr>, db)"
  using assms by (simp add: policy_simps)

lemma instance_rules_ok: "policy_inv (p, db) \<Longrightarrow> rules_ok (instance_rules p) (instance_ids p)"
  by (simp add: policy_inv_def access_ok_def)

lemma ReplaceInstanceACL_inv:
  assumes inv: "policy_inv (p, db)" and ok: "ReplaceInstanceACL p a iid mode status obs obsAt rules now = Inr (p', out)"
  shows "policy_inv (p', db)"
proof -
  obtain p1 i rs where up: "update_instance p (\<lambda>i. in_ID i = iid \<and> in_AccountID i = a)
         (\<lambda>i. i\<lparr>in_AccessMode := mode, OwnershipStatus := status, ObservedWallet := obs, OwnershipObservedAt := obsAt,
                PolicyRevision := PolicyRevision i + 1, in_UpdatedAt := now\<rparr>) ''store: update instance acl'' = Inr (p1, i)"
    and rs: "insert_rules (filter (\<lambda>r. fst r \<noteq> iid) (instance_rules p1)) iid rules ''store: insert instance rules'' = Inr rs"
    and p': "p' = p1\<lparr>instance_rules := rs\<rparr>"
    using ok unfolding ReplaceInstanceACL_def by (auto simp: Let_def elim!: rbind_InrE)
  have inv1: "policy_inv (p1, db)" using owner_update_inv [OF inv up] by simp
  have "map in_ID (instances p1) = map in_ID (instances p)" using up by (auto simp: update_instance_def split: option.splits if_splits)
  then have "instance_ids p1 = instance_ids p" unfolding instance_ids_def by (metis set_map)
  moreover have "iid \<in> instance_ids p" using update_instance_frame(2) [OF up] by (auto simp: instance_ids_def)
  ultimately have "rules_ok rs (instance_ids p1)" using insert_rules_ok [OF rs rules_ok_drop [OF instance_rules_ok [OF inv1]]] by simp
  then show ?thesis using replace_rules_inv [OF inv1] p' by simp
qed

lemma ReclaimInstance_inv:
  assumes inv: "policy_inv (p, db)" and ok: "ReclaimInstance p db iid a wallet obs obsAt now = Inr (p', out)"
  shows "policy_inv (p', db)"
proof -
  define p1 where "p1 = p\<lparr>instance_rules := filter (\<lambda>r. fst r \<noteq> iid) (instance_rules p)\<rparr>"
  have inv1: "policy_inv (p1, db)" unfolding p1_def by (rule replace_rules_inv [OF inv rules_ok_drop [OF instance_rules_ok [OF inv]]])
  obtain i where up: "update_instance p1 (\<lambda>i. in_ID i = iid)
         (\<lambda>i. i\<lparr>in_AccountID := a, OwnerWallet := wallet, in_AccessMode := ''restricted'', PolicyScope := ''peer'', OwnershipStatus := ''active'',
                ObservedWallet := obs, OwnershipObservedAt := obsAt, PolicyRevision := PolicyRevision i + 1, in_UpdatedAt := now\<rparr>) ''store: reclaim instance'' = Inr (p', i)"
    and owns: "(a, wallet) \<in> wallet_links (user_wallets db)"
    using ok unfolding ReclaimInstance_def p1_def [symmetric] Let_def by (auto simp: owns_wallet_iff elim!: rbind_InrE split: if_splits)
  show ?thesis using update_instance_inv [OF inv1 up] owned_instance [OF inv1] owns by simp
qed

lemma services_left:
  "svc_ID ` set ss - set (map svc_ID (filter (\<lambda>s. svc_InstanceID s = k) ss)) \<subseteq> svc_ID ` set (filter (\<lambda>s. svc_InstanceID s \<noteq> k) ss)"
  by auto

lemma DeleteInstanceByIDForUser_inv:
  assumes inv: "policy_inv (p, db)" and ok: "DeleteInstanceByIDForUser p a iid first = Inr (p', gone)"
  shows "policy_inv (p', db)"
proof (cases "p' = p")
  case False
  define lost where "lost = set (map svc_ID (filter (\<lambda>s. svc_InstanceID s = iid) (services p)))"
  have p': "p' = p\<lparr>instances := filter (\<lambda>i. in_ID i \<noteq> iid) (instances p), instance_rules := filter (\<lambda>r. fst r \<noteq> iid) (instance_rules p),
       memberships := filter (\<lambda>m. ms_InstanceID m \<noteq> iid) (memberships p), membership_events := filter (\<lambda>e. ev_InstanceID e \<noteq> iid) (membership_events p),
       invitations := filter (\<lambda>v. iv_InstanceID v \<noteq> iid) (invitations p), services := filter (\<lambda>s. svc_InstanceID s \<noteq> iid) (services p),
       service_rules := filter (\<lambda>r. fst r \<notin> lost) (service_rules p)\<rparr>"
    using ok False by (auto simp: DeleteInstanceByIDForUser_def Let_def lost_def split: if_splits)
  have ids: "instance_ids p' = instance_ids p - {iid}" "region_ids p' = region_ids p" using p' by (auto simp: instance_ids_def region_ids_def)
  have pairs: "member_pairs p - {iid} \<times> UNIV \<subseteq> member_pairs p'" using p' by (auto simp: member_pairs_def)
  have sids: "service_ids p - lost \<subseteq> service_ids p'" using services_left [of "services p" iid] p' by (simp add: service_ids_def lost_def)
  have "members_ok p'" using inv unfolding policy_inv_def members_ok_def ids
    by (simp add: p' memberships_ok_filter invitations_ok_filter events_ok_filter)
  moreover have "access_ok p'" unfolding access_ok_def ids
  proof (intro conjI)
    show "services_ok (services p') (instance_ids p - {iid}) (member_pairs p') (next_service p')"
      using inv services_ok_mono [OF services_ok_filter order_refl pairs] by (simp add: p' policy_inv_def access_ok_def)
    show "rules_ok (instance_rules p') (instance_ids p - {iid})"
      using rules_ok_filter [OF instance_rules_ok [OF inv], of "{iid}"] by (simp add: p')
    show "rules_ok (service_rules p') (service_ids p')"
      using inv rules_ok_mono [OF rules_ok_filter sids] by (simp add: p' policy_inv_def access_ok_def)
  qed
  moreover have "instances_ok (instances p') (wallet_links (user_wallets db)) (next_instance p')"
    using inv by (simp add: p' policy_inv_def instances_ok_def keys_distinct_filter)
  ultimately show ?thesis using inv by (simp add: p' policy_inv_def challenges_ok_def)
qed (use inv in simp)

end
