(* ===== verification/Trusted_Regions.thy ===== *)
theory Trusted_Regions
  imports Policy_Store
begin

text \<open>
  Trusted regions, invitations, memberships, service policies and node credential challenges (\<^verbatim>\<open>internal/store/policy.go\<close>) over the tables of \<^verbatim>\<open>Policy_Store\<close>.

  The lemmas show that every operation keeps the tables well formed, that a membership moves to another region only when no service is bound to the old one, and that a credential challenge is
  answered at most once. The JSON payload of a membership event, which nothing reads, is left out.
\<close>

section \<open>Regions\<close>

definition GetRegionByIDForOwner :: "policy \<Rightarrow> string \<Rightarrow> int64 \<Rightarrow> RegionInfo pres" where
  "GetRegionByIDForOwner p owner rid = (case List.find (\<lambda>r. rg_ID r = rid \<and> OwnerAccountID r = owner) (regions p) of None \<Rightarrow> Inl StoreNotFound | Some r \<Rightarrow> Inr r)"

definition GetRegionByID :: "policy \<Rightarrow> int64 \<Rightarrow> RegionInfo pres" where
  "GetRegionByID p rid = (case find_row rg_ID rid (regions p) of None \<Rightarrow> Inl StoreNotFound | Some r \<Rightarrow> Inr r)"

definition ListRegionsByOwner :: "policy \<Rightarrow> string \<Rightarrow> RegionInfo list" where
  "ListRegionsByOwner p owner = rev (sort_key rg_CreatedAt (sort_key rg_ID (filter (\<lambda>r. OwnerAccountID r = owner) (regions p))))"

definition CreateRegion :: "policy \<Rightarrow> RegionInfo \<Rightarrow> instant \<Rightarrow> (policy \<times> RegionInfo) pres" where
  "CreateRegion p r now =
     (let row = r\<lparr>rg_ID := next_region p, rg_Status := (if rg_Status r = [] then ''active'' else rg_Status r), RegionRevision := 1, rg_CreatedAt := now, rg_UpdatedAt := now\<rparr> in
      if \<not> region_check row then Inl (Failure ''store: create region'')
      else if has_row Slug (Slug r) (regions p) then Inl StoreConflict
      else Inr (p\<lparr>regions := regions p @ [row], next_region := next_region p + 1\<rparr>, row))"

definition UpdateRegion :: "policy \<Rightarrow> string \<Rightarrow> int64 \<Rightarrow> string \<Rightarrow> string \<Rightarrow> instant \<Rightarrow> (policy \<times> RegionInfo) pres" where
  "UpdateRegion p owner rid name status now =
     rbind (GetRegionByIDForOwner p owner rid) (\<lambda>r.
       let row = r\<lparr>rg_Name := name, rg_Status := status, RegionRevision := (if rg_Status r \<noteq> status then RegionRevision r + 1 else RegionRevision r), rg_UpdatedAt := now\<rparr> in
       if \<not> region_check row then Inl (Failure ''store: update region'')
       else Inr (p\<lparr>regions := update_row rg_ID rid (\<lambda>_. row) (regions p)\<rparr>, row))"

text \<open>Memberships and services of a region restrict its deletion, invitations go with it, events stay without their region.\<close>

definition DeleteRegion :: "policy \<Rightarrow> string \<Rightarrow> int64 \<Rightarrow> (policy \<times> bool) pres" where
  "DeleteRegion p owner rid =
     (if \<not> list_ex (\<lambda>r. rg_ID r = rid \<and> OwnerAccountID r = owner) (regions p) then Inr (p, False)
      else if list_ex (\<lambda>m. ms_RegionID m = rid) (memberships p) \<or> list_ex (\<lambda>s. svc_RegionID s = Some rid) (services p) then Inl StoreConflict
      else Inr (p\<lparr>regions := filter (\<lambda>r. rg_ID r \<noteq> rid) (regions p),
                  invitations := filter (\<lambda>v. iv_RegionID v \<noteq> rid) (invitations p),
                  membership_events := map (\<lambda>e. if ev_RegionID e = Some rid then e\<lparr>ev_RegionID := None\<rparr> else e) (membership_events p)\<rparr>, True))"

section \<open>Invitations\<close>

definition join_invitation :: "policy \<Rightarrow> RegionInvitation \<Rightarrow> RegionInvitation option" where
  "join_invitation p v =
     (case (find_row rg_ID (iv_RegionID v) (regions p), find_row in_ID (iv_InstanceID v) (instances p)) of
        (Some r, Some i) \<Rightarrow> Some (v\<lparr>iv_RegionSlug := Slug r, iv_PeerID := in_PeerID i, iv_Label := in_Label i\<rparr>)
      | _ \<Rightarrow> None)"

definition listInvitations :: "policy \<Rightarrow> (RegionInvitation \<Rightarrow> bool) \<Rightarrow> RegionInvitation list" where
  "listInvitations p sel = rev (sort_key iv_CreatedAt (sort_key iv_ID (List.map_filter (join_invitation p) (filter sel (invitations p)))))"

definition ListRegionMembershipsByOwner :: "policy \<Rightarrow> string \<Rightarrow> int64 \<Rightarrow> (RegionMembership list \<times> RegionInvitation list) pres" where
  "ListRegionMembershipsByOwner p owner rid =
     rbind (GetRegionByIDForOwner p owner rid) (\<lambda>_. Inr (listMemberships p (\<lambda>m. ms_RegionID m = rid), listInvitations p (\<lambda>v. iv_RegionID v = rid)))"

definition pending :: "int64 \<Rightarrow> int64 \<Rightarrow> RegionInvitation \<Rightarrow> bool" where
  "pending rid iid v \<longleftrightarrow> iv_RegionID v = rid \<and> iv_InstanceID v = iid \<and> iv_Status v = ''pending''"

definition record_event :: "policy \<Rightarrow> int64 \<Rightarrow> int64 \<Rightarrow> string \<Rightarrow> string \<Rightarrow> int64 \<Rightarrow> instant \<Rightarrow> policy" where
  "record_event p iid rid kind actor revision now =
     p\<lparr>membership_events := membership_events p @
        [\<lparr>ev_InstanceID = iid, ev_RegionID = Some rid, EventKind = kind, ActorAccountID = Some actor, ev_MembershipRevision = revision, ev_CreatedAt = now\<rparr>]\<rparr>"

definition bump_instance :: "policy \<Rightarrow> int64 \<Rightarrow> instant \<Rightarrow> policy" where
  "bump_instance p iid now =
     p\<lparr>instances := update_row in_ID iid (\<lambda>i. i\<lparr>PolicyRevision := PolicyRevision i + 1, in_UpdatedAt := now\<rparr>) (instances p)\<rparr>"

definition new_invitation :: "int64 \<Rightarrow> int64 \<Rightarrow> int64 \<Rightarrow> string \<Rightarrow> string \<Rightarrow> string \<Rightarrow> instant \<Rightarrow> instant \<Rightarrow> RegionInvitation" where
  "new_invitation n rid iid owner digest role expires now =
     \<lparr>iv_ID = n, iv_RegionID = rid, iv_RegionSlug = [], iv_InstanceID = iid, iv_PeerID = [], iv_Label = [], CreatedByAccountID = owner, AcceptanceTokenHash = digest,
      iv_Status = ''pending'', iv_NodeRole = role, iv_ExpiresAt = expires, iv_AcceptedAt = None, iv_CancelledAt = None, iv_CreatedAt = now, iv_UpdatedAt = now\<rparr>"

definition CreateRegionInvitation :: "(string \<Rightarrow> string) \<Rightarrow> policy \<Rightarrow> string \<Rightarrow> int64 \<Rightarrow> int64 \<Rightarrow> string \<Rightarrow> string \<Rightarrow> instant \<Rightarrow> instant \<Rightarrow>
    (policy \<times> RegionInvitation) pres" where
  "CreateRegionInvitation hashSecret p owner rid iid role token expires now =
     rbind (GetRegionByIDForOwner p owner rid) (\<lambda>r.
     case find_row in_ID iid (instances p) of
       None \<Rightarrow> Inl StoreNotFound
     | Some i \<Rightarrow>
         if \<not> role_check role then Inl (Failure ''store: insert invitation'')
         else if list_ex (pending rid iid) (invitations p) then Inl StoreConflict
         else
           let v = new_invitation (next_invitation p) rid iid owner (hashSecret token) role expires now in
           Inr (record_event (p\<lparr>invitations := invitations p @ [v], next_invitation := next_invitation p + 1\<rparr>) iid rid ''invited'' owner 0 now,
                v\<lparr>iv_RegionSlug := Slug r, iv_PeerID := in_PeerID i, iv_Label := in_Label i\<rparr>))"

definition CancelInvitationForOwner :: "policy \<Rightarrow> string \<Rightarrow> int64 \<Rightarrow> int64 \<Rightarrow> instant \<Rightarrow> policy \<times> bool" where
  "CancelInvitationForOwner p owner rid iid now =
     (if list_ex (\<lambda>r. rg_ID r = rid \<and> OwnerAccountID r = owner) (regions p) \<and> list_ex (pending rid iid) (invitations p)
      then (p\<lparr>invitations := map (\<lambda>v. if pending rid iid v then v\<lparr>iv_Status := ''cancelled'', iv_CancelledAt := Some now, iv_UpdatedAt := now\<rparr> else v) (invitations p)\<rparr>, True)
      else (p, False))"

section \<open>Memberships\<close>

text \<open>
  The row an INSERT of the accepted membership leaves, or its update on conflict: the region, the role, the status, who admitted it and when ownership was verified change, the expiry stays.
\<close>

definition upsert_membership :: "policy \<Rightarrow> int64 \<Rightarrow> int64 \<Rightarrow> string \<Rightarrow> string \<Rightarrow> instant \<Rightarrow> instant \<Rightarrow> policy \<times> RegionMembership" where
  "upsert_membership p iid rid role admitted verified now =
     (case find_row ms_InstanceID iid (memberships p) of
        None \<Rightarrow>
          let m = \<lparr>ms_InstanceID = iid, ms_PeerID = [], ms_Label = [], ms_RegionID = rid, ms_RegionSlug = [], ms_RegionStatus = [], ms_RegionRevision = 0,
                   NodeRole = role, ms_Status = ''active'', AdmittedByAccountID = Some admitted, AdmissionReason = None, ms_ExpiresAt = None,
                   OwnershipVerifiedAt = Some verified, MembershipRevision = 1, TrustedServiceCount = 0, ms_CreatedAt = now, ms_UpdatedAt = now\<rparr> in
          (p\<lparr>memberships := memberships p @ [m]\<rparr>, m)
      | Some old \<Rightarrow>
          let m = old\<lparr>ms_RegionID := rid, NodeRole := role, ms_Status := ''active'', AdmittedByAccountID := Some admitted,
                   OwnershipVerifiedAt := Some verified, MembershipRevision := MembershipRevision old + 1, ms_UpdatedAt := now\<rparr> in
          (p\<lparr>memberships := update_row ms_InstanceID iid (\<lambda>_. m) (memberships p)\<rparr>, m))"

text \<open>
  The FOREIGN KEY of \<open>instance_services\<close> to the pair of region and instance: the update is refused when a service of the instance is bound to another region than the new one.
\<close>

definition bindings_dangle :: "policy \<Rightarrow> int64 \<Rightarrow> int64 \<Rightarrow> bool" where
  "bindings_dangle p iid rid \<longleftrightarrow> list_ex (\<lambda>s. svc_InstanceID s = iid \<and> svc_RegionID s \<noteq> None \<and> svc_RegionID s \<noteq> Some rid) (services p)"

definition migration_blocked :: "policy \<Rightarrow> int64 \<Rightarrow> int64 \<Rightarrow> bool" where
  "migration_blocked p iid rid \<longleftrightarrow>
     (case find_row ms_InstanceID iid (memberships p) of
        None \<Rightarrow> False
      | Some m \<Rightarrow> ms_RegionID m \<noteq> rid \<and> list_ex (\<lambda>s. svc_InstanceID s = iid \<and> svc_RegionID s = Some (ms_RegionID m) \<and> Exposure s = ExposureTrustedRegion) (services p))"

text \<open>The UPDATE that marks an expired invitation is in the transaction that the error then rolls back, so it leaves no trace.\<close>

definition AcceptRegionInvitation :: "(string \<Rightarrow> string) \<Rightarrow> policy \<Rightarrow> string \<Rightarrow> int64 \<Rightarrow> int64 \<Rightarrow> string \<Rightarrow> instant \<Rightarrow> instant \<Rightarrow> (policy \<times> RegionMembership) pres" where
  "AcceptRegionInvitation hashSecret p actor rid iid token verified now =
     (case find_row in_ID iid (instances p) of
        None \<Rightarrow> Inl StoreNotFound
      | Some i \<Rightarrow>
          if in_AccountID i \<noteq> actor then Inl StoreNotFound
          else
            case (List.find (pending rid iid) (invitations p), find_row rg_ID rid (regions p)) of
              (Some v, Some r) \<Rightarrow>
                if hashSecret token \<noteq> AcceptanceTokenHash v then Inl StoreNotFound
                else if verified > iv_ExpiresAt v then Inl ErrChallengeExpired
                else if migration_blocked p iid rid then Inl ErrRegionMigrationConflict
                else if bindings_dangle p iid rid then Inl (Failure ''store: upsert membership'')
                else
                  let (p1, m) = upsert_membership p iid rid (iv_NodeRole v) (CreatedByAccountID v) verified now;
                      p2 = p1\<lparr>invitations := update_row iv_ID (iv_ID v) (\<lambda>v. v\<lparr>iv_Status := ''accepted'', iv_AcceptedAt := Some now, iv_UpdatedAt := now\<rparr>) (invitations p1)\<rparr>;
                      p3 = bump_instance p2 iid now in
                  Inr (record_event p3 iid rid ''accepted'' actor (MembershipRevision m) now, m\<lparr>ms_RegionSlug := Slug r, ms_RegionStatus := rg_Status r\<rparr>)
            | _ \<Rightarrow> Inl StoreNotFound)"

definition membershipEventKind :: "string \<Rightarrow> string" where
  "membershipEventKind status = (if status = ''suspended'' then ''suspended'' else if status = ''revoked'' then ''revoked'' else ''reactivated'')"

text \<open>
  The statement of the update numbers its parameters from 1 to 7 and never uses the third, so the database has to find a type for a parameter without a use. \<open>accepts_gap\<close> says whether it does;
  PostgreSQL, with the prepared statements the driver sends, refuses such a statement.
\<close>

definition UpdateMembershipState :: "bool \<Rightarrow> policy \<Rightarrow> string \<Rightarrow> int64 \<Rightarrow> int64 \<Rightarrow> string \<Rightarrow> string \<Rightarrow> instant option \<Rightarrow> instant option \<Rightarrow> instant \<Rightarrow>
    (policy \<times> RegionMembership) pres" where
  "UpdateMembershipState accepts_gap p owner rid iid role status expires verified now =
     rbind (GetRegionByIDForOwner p owner rid) (\<lambda>r.
     if \<not> accepts_gap then Inl (Failure ''store: update membership'')
     else
       case List.find (\<lambda>m. ms_RegionID m = rid \<and> ms_InstanceID m = iid) (memberships p) of
         None \<Rightarrow> Inl StoreNotFound
       | Some m \<Rightarrow>
           let m' = m\<lparr>NodeRole := role, ms_Status := status, ms_ExpiresAt := expires, OwnershipVerifiedAt := (case verified of None \<Rightarrow> OwnershipVerifiedAt m | Some t \<Rightarrow> Some t),
                  MembershipRevision := MembershipRevision m + 1, ms_UpdatedAt := now\<rparr> in
           if \<not> membership_check m' then Inl (Failure ''store: update membership'')
           else
             let p1 = p\<lparr>memberships := update_row ms_InstanceID iid (\<lambda>_. m') (memberships p)\<rparr>;
                 p2 = bump_instance p1 iid now in
             Inr (record_event p2 iid rid (membershipEventKind status) owner (MembershipRevision m') now, m'\<lparr>ms_RegionSlug := Slug r, ms_RegionStatus := rg_Status r\<rparr>))"

definition ReleaseMembership :: "policy \<Rightarrow> string \<Rightarrow> int64 \<Rightarrow> instant \<Rightarrow> (policy \<times> bool) pres" where
  "ReleaseMembership p actor iid now =
     (case (find_row ms_InstanceID iid (memberships p), List.find (\<lambda>i. in_ID i = iid \<and> in_AccountID i = actor) (instances p)) of
        (Some m, Some i) \<Rightarrow>
          if trusted_services p iid \<noteq> [] then Inl StoreConflict
          else
            let p1 = p\<lparr>memberships := filter (\<lambda>m. ms_InstanceID m \<noteq> iid) (memberships p)\<rparr>;
                p2 = bump_instance p1 iid now in
            Inr (record_event p2 iid (ms_RegionID m) ''released'' actor (MembershipRevision m) now, True)
      | _ \<Rightarrow> Inl StoreNotFound)"

section \<open>Service policies\<close>

record ObservedService =
  os_Name :: string
  os_Count :: int

record ServiceInventory =
  ObservedAt :: instant
  SupportsPolicyV2 :: bool
  inv_Services :: "ObservedService list"

record ReplaceServicePolicyInput =
  rp_PolicyScope :: string
  AcknowledgeScopeReset :: bool
  Inventory :: ServiceInventory
  rp_Services :: "InstanceService list"

text \<open>DELETE of the rules of the services of an instance, then of the services.\<close>

definition drop_services :: "policy \<Rightarrow> int64 \<Rightarrow> policy" where
  "drop_services p iid =
     (let gone = map svc_ID (filter (\<lambda>s. svc_InstanceID s = iid) (services p)) in
      p\<lparr>services := filter (\<lambda>s. svc_InstanceID s \<noteq> iid) (services p), service_rules := filter (\<lambda>r. fst r \<notin> set gone) (service_rules p)\<rparr>)"

definition service_row :: "policy \<Rightarrow> int64 \<Rightarrow> ServiceInventory \<Rightarrow> InstanceService \<Rightarrow> instant \<Rightarrow> InstanceService" where
  "service_row p iid inventory svc now =
     (let seen = find_row os_Name (ServiceName svc) (inv_Services inventory) in
      \<lparr>svc_ID = next_service p, svc_InstanceID = iid, ServiceName = ServiceName svc, Exposure = Exposure svc, svc_RegionID = svc_RegionID svc, svc_RegionSlug = None,
       svc_AccessMode = svc_AccessMode svc, ServicePolicyRevision = 1,
       ObservedPresent = (case seen of None \<Rightarrow> False | Some ob \<Rightarrow> os_Count ob = 1),
       ObservedLastSeenAt = map_option (\<lambda>_. ObservedAt inventory) seen,
       svc_CreatedAt = now, svc_UpdatedAt = now, svc_Rules = []\<rparr>)"

definition insert_service :: "policy \<Rightarrow> InstanceService \<Rightarrow> policy pres" where
  "insert_service p row =
     (if \<not> service_check row then Inl (Failure ''store: insert service policy'')
      else if list_ex (\<lambda>s. svc_InstanceID s = svc_InstanceID row \<and> ServiceName s = ServiceName row) (services p) then Inl StoreConflict
      else if (case svc_RegionID row of None \<Rightarrow> False | Some rid \<Rightarrow> \<not> has_row rg_ID rid (regions p) \<or> \<not> has_membership p (svc_InstanceID row) rid) then Inl StoreConflict
      else Inr (p\<lparr>services := services p @ [row], next_service := next_service p + 1\<rparr>))"

fun insert_services :: "policy \<Rightarrow> int64 \<Rightarrow> ServiceInventory \<Rightarrow> InstanceService list \<Rightarrow> instant \<Rightarrow> policy pres" where
  "insert_services p iid inventory [] now = Inr p"
| "insert_services p iid inventory (svc # svcs) now =
     (let row = service_row p iid inventory svc now in
      rbind (insert_service p row) (\<lambda>p1.
      rbind (insert_rules (service_rules p1) (svc_ID row) (svc_Rules svc) ''store: insert service acl rule'') (\<lambda>rs.
        insert_services (p1\<lparr>service_rules := rs\<rparr>) iid inventory svcs now)))"

definition GetInstanceServicesForUser :: "policy \<Rightarrow> string \<Rightarrow> int64 \<Rightarrow> InstanceInfo pres" where
  "GetInstanceServicesForUser p a iid = GetInstanceByIDForUser p a iid"

definition ReplaceInstanceServicePolicy :: "policy \<Rightarrow> string \<Rightarrow> int64 \<Rightarrow> ReplaceServicePolicyInput \<Rightarrow> instant \<Rightarrow> (policy \<times> InstanceInfo) pres" where
  "ReplaceInstanceServicePolicy p a iid inp now =
     rbind (getInstance p (\<lambda>i. in_ID i = iid \<and> in_AccountID i = a)) (\<lambda>i.
     if rp_PolicyScope inp = PolicyScopeService \<and> (\<not> SupportsPolicyV2 (Inventory inp) \<or> list_ex (\<lambda>ob. os_Count ob > 1) (inv_Services (Inventory inp)))
     then Inl StoreConflict
     else
       let reset = PolicyScope i = PolicyScopeService \<and> rp_PolicyScope inp = PolicyScopePeer in
       if reset \<and> (\<not> AcknowledgeScopeReset inp \<or> trusted_services p iid \<noteq> []) then Inl StoreConflict
       else
         let p1 = (if reset then drop_services p iid else p) in
         rbind (if rp_PolicyScope inp = PolicyScopeService then insert_services (drop_services p1 iid) iid (Inventory inp) (rp_Services inp) now else Inr p1) (\<lambda>p2.
         rbind (update_instance p2 (\<lambda>i. in_ID i = iid \<and> in_AccountID i = a)
                  (\<lambda>i. i\<lparr>PolicyScope := rp_PolicyScope inp, PolicyRevision := PolicyRevision i + 1, in_UpdatedAt := now\<rparr>) ''store: update instance policy scope'') (\<lambda>(p3, _).
         rbind (GetInstanceServicesForUser p3 a iid) (\<lambda>out. Inr (p3, out)))))"

definition ReplaceInstanceServiceACL :: "policy \<Rightarrow> string \<Rightarrow> int64 \<Rightarrow> int64 \<Rightarrow> string \<Rightarrow> ACLRule list \<Rightarrow> instant \<Rightarrow> (policy \<times> InstanceService) pres" where
  "ReplaceInstanceServiceACL p a iid sid mode rules now =
     (case (List.find (\<lambda>s. svc_ID s = sid \<and> svc_InstanceID s = iid) (services p), List.find (\<lambda>i. in_ID i = iid \<and> in_AccountID i = a) (instances p)) of
        (Some s, Some _) \<Rightarrow>
          let s' = s\<lparr>svc_AccessMode := mode, ServicePolicyRevision := ServicePolicyRevision s + 1, svc_UpdatedAt := now\<rparr> in
          if \<not> service_check s' then Inl (Failure ''store: update service acl'')
          else
            rbind (insert_rules (filter (\<lambda>r. fst r \<noteq> sid) (service_rules p)) sid rules ''store: insert service acl rule'') (\<lambda>rs.
              Inr (p\<lparr>services := update_row svc_ID sid (\<lambda>_. s') (services p), service_rules := rs\<rparr>, s'\<lparr>svc_Rules := rules\<rparr>))
      | _ \<Rightarrow> Inl StoreNotFound)"

section \<open>Node credential challenges\<close>

definition audFor :: "string \<Rightarrow> string" where
  "audFor a = (if a = [] then ''api.opentela.ai/internal/acl'' else a)"

definition CreateNodeCredentialChallenge :: "policy \<Rightarrow> NodeCredentialChallenge \<Rightarrow> policy pres" where
  "CreateNodeCredentialChallenge p ch =
     (let kept = filter (\<lambda>c. \<not> (nc_PeerID c = nc_PeerID ch \<and> (nc_ConsumedAt c \<noteq> None \<or> nc_ExpiresAt c \<le> nc_IssuedAt ch))) (node_challenges p);
          waiting = length (filter (\<lambda>c. nc_PeerID c = nc_PeerID ch \<and> nc_ConsumedAt c = None \<and> nc_ExpiresAt c > nc_IssuedAt ch) kept) in
      if waiting \<ge> 5 then Inl StoreConflict
      else if has_row nc_ID (nc_ID ch) kept then Inl (Failure ''store: create node credential challenge'')
      else Inr (p\<lparr>node_challenges := kept @ [ch\<lparr>nc_Audience := audFor (nc_Audience ch), nc_ConsumedAt := None\<rparr>]\<rparr>))"

definition ConsumeNodeCredentialChallenge :: "(string \<Rightarrow> string) \<Rightarrow> policy \<Rightarrow> string \<Rightarrow> string \<Rightarrow> string \<Rightarrow> string \<Rightarrow> instant \<Rightarrow>
    (policy \<times> NodeCredentialChallenge) pres" where
  "ConsumeNodeCredentialChallenge hashSecret p cid peer nonce audience now =
     (case List.find (\<lambda>c. nc_ID c = cid \<and> nc_PeerID c = peer \<and> nc_Audience c = audFor audience) (node_challenges p) of
        None \<Rightarrow> Inl StoreNotFound
      | Some c \<Rightarrow>
          if nc_ConsumedAt c \<noteq> None then Inl ErrChallengeConsumed
          else if hashSecret nonce \<noteq> NonceHash c then Inl StoreNotFound
          else if now > nc_ExpiresAt c then Inl ErrChallengeExpired
          else Inr (p\<lparr>node_challenges := update_row nc_ID cid (\<lambda>c. c\<lparr>nc_ConsumedAt := Some now\<rparr>) (node_challenges p)\<rparr>, c))"

section \<open>Runs of the store\<close>

text \<open>Every operation that writes, with its arguments, as one transaction on the tables and the linked wallets.\<close>

datatype policy_op =
    RefreshIdentityOp IdentityInfo
  | CreateWalletChallengeOp WalletChallenge
  | ConsumeWalletChallengeOp string string instant
  | LinkWalletOp string string int64 instant
  | DeleteWalletOp string int64
  | CreateInstanceOp InstanceInfo instant
  | UpdateMetadataOp string int64 string string string "string option" "instant option" instant
  | ReplaceACLOp string int64 string string "string option" "instant option" "ACLRule list" instant
  | ReclaimOp int64 string string "string option" "instant option" instant
  | DeleteInstanceOp string int64 bool
  | CreateRegionOp RegionInfo instant
  | UpdateRegionOp string int64 string string instant
  | DeleteRegionOp string int64
  | InviteOp string int64 int64 string string instant instant
  | CancelInvitationOp string int64 int64 instant
  | AcceptOp string int64 int64 string instant instant
  | UpdateMembershipOp string int64 int64 string string "instant option" "instant option" instant
  | ReleaseOp string int64 instant
  | ReplaceServicePolicyOp string int64 ReplaceServicePolicyInput instant
  | ReplaceServiceACLOp string int64 int64 string "ACLRule list" instant
  | CreateNodeChallengeOp NodeCredentialChallenge
  | ConsumeNodeChallengeOp string string string string instant

type_synonym policy_result = "policy_error + ((policy \<times> db) \<times> unit)"

definition on_tables :: "db \<Rightarrow> (policy \<times> 'a) pres \<Rightarrow> policy_result" where
  "on_tables db r = rbind r (\<lambda>(p, _). Inr ((p, db), ()))"

definition on_wallets :: "policy \<Rightarrow> (db \<times> 'a) pres \<Rightarrow> policy_result" where
  "on_wallets p r = rbind r (\<lambda>(db, _). Inr ((p, db), ()))"

definition no_result :: "policy pres \<Rightarrow> (policy \<times> unit) pres" where
  "no_result r = rbind r (\<lambda>p. Inr (p, ()))"

fun exec_policy :: "(string \<Rightarrow> string) \<Rightarrow> bool \<Rightarrow> policy_op \<Rightarrow> policy \<times> db \<Rightarrow> policy_result" where
  "exec_policy h gap (RefreshIdentityOp i) (p, db) = Inr ((RefreshIdentity p i, db), ())"
| "exec_policy h gap (CreateWalletChallengeOp ch) (p, db) = on_tables db (no_result (CreateWalletChallenge p ch))"
| "exec_policy h gap (ConsumeWalletChallengeOp a cid now) (p, db) = on_tables db (no_result (ConsumeWalletChallenge p a cid now))"
| "exec_policy h gap (LinkWalletOp a w wid now) (p, db) = on_wallets p (LinkWallet db a w wid now)"
| "exec_policy h gap (DeleteWalletOp a wid) (p, db) = on_wallets p (DeleteWalletByIDForUser p db a wid)"
| "exec_policy h gap (CreateInstanceOp i now) (p, db) = on_tables db (CreateInstance p db i now)"
| "exec_policy h gap (UpdateMetadataOp a iid label mode status obs obsAt now) (p, db) = on_tables db (UpdateInstanceMetadata p a iid label mode status obs obsAt now)"
| "exec_policy h gap (ReplaceACLOp a iid mode status obs obsAt rules now) (p, db) = on_tables db (ReplaceInstanceACL p a iid mode status obs obsAt rules now)"
| "exec_policy h gap (ReclaimOp iid a w obs obsAt now) (p, db) = on_tables db (ReclaimInstance p db iid a w obs obsAt now)"
| "exec_policy h gap (DeleteInstanceOp a iid first) (p, db) = on_tables db (DeleteInstanceByIDForUser p a iid first)"
| "exec_policy h gap (CreateRegionOp r now) (p, db) = on_tables db (CreateRegion p r now)"
| "exec_policy h gap (UpdateRegionOp owner rid name status now) (p, db) = on_tables db (UpdateRegion p owner rid name status now)"
| "exec_policy h gap (DeleteRegionOp owner rid) (p, db) = on_tables db (DeleteRegion p owner rid)"
| "exec_policy h gap (InviteOp owner rid iid role token expires now) (p, db) = on_tables db (CreateRegionInvitation h p owner rid iid role token expires now)"
| "exec_policy h gap (CancelInvitationOp owner rid iid now) (p, db) = on_tables db (Inr (CancelInvitationForOwner p owner rid iid now))"
| "exec_policy h gap (AcceptOp actor rid iid token verified now) (p, db) = on_tables db (AcceptRegionInvitation h p actor rid iid token verified now)"
| "exec_policy h gap (UpdateMembershipOp owner rid iid role status expires verified now) (p, db) =
     on_tables db (UpdateMembershipState gap p owner rid iid role status expires verified now)"
| "exec_policy h gap (ReleaseOp actor iid now) (p, db) = on_tables db (ReleaseMembership p actor iid now)"
| "exec_policy h gap (ReplaceServicePolicyOp a iid inp now) (p, db) = on_tables db (ReplaceInstanceServicePolicy p a iid inp now)"
| "exec_policy h gap (ReplaceServiceACLOp a iid sid mode rules now) (p, db) = on_tables db (ReplaceInstanceServiceACL p a iid sid mode rules now)"
| "exec_policy h gap (CreateNodeChallengeOp ch) (p, db) = on_tables db (no_result (CreateNodeCredentialChallenge p ch))"
| "exec_policy h gap (ConsumeNodeChallengeOp cid peer nonce aud now) (p, db) = on_tables db (ConsumeNodeCredentialChallenge h p cid peer nonce aud now)"

text \<open>A wallet challenge that was used stays as it is.\<close>

definition used_kept :: "policy \<times> db \<Rightarrow> policy \<times> db \<Rightarrow> bool" where
  "used_kept s s' \<longleftrightarrow> (\<forall>ch\<in>set (wallet_challenges (fst s)). wc_UsedAt ch \<noteq> None \<longrightarrow> ch \<in> set (wallet_challenges (fst s')))"

text \<open>A small history: an account links its wallet, claims a peer, creates a region, admits its own peer and binds a service to the region.\<close>

definition demo_region :: RegionInfo where
  "demo_region = \<lparr>rg_ID = 0, Slug = ''eu-1'', rg_Name = ''Europe'', OwnerAccountID = ''acct'', rg_Status = [], RegionRevision = 0, rg_CreatedAt = 0, rg_UpdatedAt = 0\<rparr>"

definition demo_service :: InstanceService where
  "demo_service = \<lparr>svc_ID = 0, svc_InstanceID = 0, ServiceName = ''llm'', Exposure = ''trusted_region'', svc_RegionID = Some 1, svc_RegionSlug = None, svc_AccessMode = ''restricted'',
     ServicePolicyRevision = 0, ObservedPresent = False, ObservedLastSeenAt = None, svc_CreatedAt = 0, svc_UpdatedAt = 0, svc_Rules = [\<lparr>rule_kind = ''wallet'', rule_value = ''wallet2''\<rparr>]\<rparr>"

definition demo_policy_input :: ReplaceServicePolicyInput where
  "demo_policy_input = \<lparr>rp_PolicyScope = ''service'', AcknowledgeScopeReset = False,
     Inventory = \<lparr>ObservedAt = 5, SupportsPolicyV2 = True, inv_Services = [\<lparr>os_Name = ''llm'', os_Count = 1\<rparr>]\<rparr>, rp_Services = [demo_service]\<rparr>"

definition demo_challenge :: WalletChallenge where
  "demo_challenge = \<lparr>wc_ID = ''c1'', wc_AccountID = ''acct'', wc_Wallet = ''wallet1'', wc_Nonce = ''n'', wc_Message = ''m'', wc_IssuedAt = 0, wc_ExpiresAt = 10, wc_UsedAt = None\<rparr>"

definition demo_policy_ops :: "policy_op list" where
  "demo_policy_ops = [CreateWalletChallengeOp demo_challenge, LinkWalletOp ''acct'' ''wallet1'' 1 1, CreateInstanceOp demo_instance 2, CreateRegionOp demo_region 2,
     InviteOp ''acct'' 1 1 ''combined'' ''secret'' 9 3, AcceptOp ''acct'' 1 1 ''secret'' 4 4, ReplaceServicePolicyOp ''acct'' 1 demo_policy_input 5]"

definition demo_challenged :: policy where
  "demo_challenged = fst (run_ops (exec_policy (\<lambda>x. x) False) [CreateWalletChallengeOp demo_challenge] (empty_policy, empty_db))"

definition demo_invited :: "policy \<times> db" where
  "demo_invited = run_ops (exec_policy (\<lambda>x. x) False) (take 5 demo_policy_ops) (empty_policy, empty_db)"

section \<open>Every operation keeps the tables well formed\<close>

lemma GetRegion_mem: "GetRegionByIDForOwner p owner rid = Inr r \<Longrightarrow> r \<in> set (regions p) \<and> rg_ID r = rid"
  by (auto simp: GetRegionByIDForOwner_def dest!: find_Some_mem split: option.splits)

lemma regions_change:
  assumes "policy_inv (p, db)" and "p' = p\<lparr>regions := rs, next_region := n\<rparr>" and "regions_ok rs n" and "region_ids p \<subseteq> region_ids p'"
  shows "policy_inv (p', db)"
proof -
  have same: "instance_ids p' = instance_ids p" "member_pairs p' = member_pairs p" "service_ids p' = service_ids p"
    using assms(2) by (simp_all add: instance_ids_def member_pairs_def service_ids_def)
  have "members_ok p'" using assms(1) unfolding policy_inv_def members_ok_def same
    by (simp add: assms(2) memberships_ok_mono [OF _ order_refl assms(4), unfolded assms(2)] invitations_ok_mono [OF _ order_refl assms(4), unfolded assms(2)]
        events_ok_mono [OF _ order_refl assms(4), unfolded assms(2)])
  moreover have "access_ok p'" using assms(1) unfolding policy_inv_def access_ok_def same by (simp add: assms(2))
  ultimately show ?thesis using assms(1,3) by (simp add: assms(2) policy_inv_def challenges_ok_def)
qed

lemma CreateRegion_inv:
  assumes inv: "policy_inv (p, db)" and ok: "CreateRegion p r now = Inr (p', row)"
  shows "policy_inv (p', db)"
proof -
  have new: "p' = p\<lparr>regions := regions p @ [row], next_region := next_region p + 1\<rparr>" "region_check row" "rg_ID row = next_region p" "Slug row \<notin> Slug ` set (regions p)"
    using ok by (auto simp: CreateRegion_def Let_def has_row_iff split: if_splits)
  have old: "regions_ok (regions p) (next_region p)" using inv by (simp add: policy_inv_def)
  then have "rg_ID row \<notin> rg_ID ` set (regions p)" using new(3) by (auto simp: regions_ok_def)
  then have "regions_ok (regions p @ [row]) (next_region p + 1)" using old new(2-4) unfolding regions_ok_def keys_distinct_snoc
    by (simp add: add_strict_increasing2 less_imp_le)
  then show ?thesis using regions_change [OF inv new(1)] by (auto simp: new(1) region_ids_def)
qed

lemma update_distinct_field:
  assumes "keys_distinct key rows" and "r \<in> set rows" and "f row = f r" and "keys_distinct f rows"
  shows "map f (update_row key (key r) (\<lambda>_. row) rows) = map f rows"
proof -
  have "inj_on key (set rows)" using assms(1) by (simp add: keys_distinct_def distinct_map)
  then have "\<forall>x\<in>set rows. key x = key r \<longrightarrow> x = r" using assms(2) by (auto dest: inj_onD)
  then show ?thesis using assms(3) by (auto simp: update_row_def)
qed

lemma UpdateRegion_inv:
  assumes inv: "policy_inv (p, db)" and ok: "UpdateRegion p owner rid name status now = Inr (p', row)"
  shows "policy_inv (p', db)"
proof -
  obtain r where r: "GetRegionByIDForOwner p owner rid = Inr r" "region_check row" "Slug row = Slug r" "rg_ID row = rg_ID r"
      "p' = p\<lparr>regions := update_row rg_ID rid (\<lambda>_. row) (regions p)\<rparr>"
    using ok unfolding UpdateRegion_def by (auto simp: Let_def elim!: rbind_InrE split: if_splits)
  have mem: "r \<in> set (regions p)" "rg_ID r = rid" using GetRegion_mem [OF r(1)] by auto
  have old: "keys_distinct rg_ID (regions p)" "keys_distinct Slug (regions p)" "\<forall>r\<in>set (regions p). region_check r \<and> rg_ID r < next_region p"
    using inv by (simp_all add: policy_inv_def regions_ok_def)
  have maps: "map rg_ID (update_row rg_ID rid (\<lambda>_. row) (regions p)) = map rg_ID (regions p)"
      "map Slug (update_row rg_ID rid (\<lambda>_. row) (regions p)) = map Slug (regions p)"
    using update_distinct_field [OF old(1) mem(1), of rg_ID row] update_distinct_field [OF old(1) mem(1), of Slug row] r(3,4) mem(2) old by simp_all
  have "regions_ok (update_row rg_ID rid (\<lambda>_. row) (regions p)) (next_region p)"
    using old maps r(2,4) mem by (auto simp: regions_ok_def keys_distinct_def dest!: set_update_row)
  moreover have "rg_ID ` set (update_row rg_ID rid (\<lambda>_. row) (regions p)) = rg_ID ` set (regions p)" using maps(1) by (metis set_map)
  ultimately show ?thesis using regions_change [OF inv, where p' = p' and rs = "update_row rg_ID rid (\<lambda>_. row) (regions p)" and n = "next_region p"] r(5) by (simp add: region_ids_def)
qed

lemma member_pairs_iff: "(k, r) \<in> member_pairs p \<longleftrightarrow> (\<exists>m\<in>set (memberships p). ms_InstanceID m = k \<and> ms_RegionID m = r)"
  by (auto simp: member_pairs_def image_iff)

lemma members_change:
  assumes "policy_inv (p, db)" and "p' = p\<lparr>memberships := ms, invitations := vs, membership_events := es, next_invitation := n\<rparr>"
    and "memberships_ok ms (instance_ids p) (region_ids p)" and "invitations_ok vs (instance_ids p) (region_ids p) n" and "events_ok es (instance_ids p) (region_ids p)"
    and bound: "\<And>s r. s \<in> set (services p) \<Longrightarrow> svc_RegionID s = Some r \<Longrightarrow> \<exists>m\<in>set ms. ms_InstanceID m = svc_InstanceID s \<and> ms_RegionID m = r"
  shows "policy_inv (p', db)"
proof -
  have same: "instance_ids p' = instance_ids p" "region_ids p' = region_ids p" "service_ids p' = service_ids p"
    using assms(2) by (simp_all add: instance_ids_def region_ids_def service_ids_def)
  have "(svc_InstanceID s, r) \<in> member_pairs p'" if "s \<in> set (services p)" "svc_RegionID s = Some r" for s r
    using bound [OF that] assms(2) by (simp add: member_pairs_iff)
  then have "services_ok (services p) (instance_ids p) (member_pairs p') (next_service p)"
    using assms(1) by (simp add: policy_inv_def access_ok_def services_ok_def)
  then have "access_ok p'" using assms(1) unfolding policy_inv_def access_ok_def same by (simp add: assms(2))
  moreover have "members_ok p'" unfolding members_ok_def same using assms(3-5) by (simp add: assms(2))
  ultimately show ?thesis using assms(1) by (simp add: assms(2) policy_inv_def challenges_ok_def)
qed

lemma bound_to_member:
  assumes "policy_inv (p, db)" and "s \<in> set (services p)" and "svc_RegionID s = Some r"
  shows "\<exists>m\<in>set (memberships p). ms_InstanceID m = svc_InstanceID s \<and> ms_RegionID m = r"
  using assms by (simp add: policy_inv_def access_ok_def services_ok_def member_pairs_iff)

lemma members_parts:
  assumes "policy_inv (p, db)"
  shows "memberships_ok (memberships p) (instance_ids p) (region_ids p)" "invitations_ok (invitations p) (instance_ids p) (region_ids p) (next_invitation p)"
    "events_ok (membership_events p) (instance_ids p) (region_ids p)"
  using assms by (simp_all add: policy_inv_def members_ok_def)

lemma record_event_inv:
  assumes inv: "policy_inv (p, db)" and "iid \<in> instance_ids p" and "rid \<in> region_ids p"
  shows "policy_inv (record_event p iid rid kind actor revision now, db)"
  using members_change [OF inv, where ms = "memberships p" and vs = "invitations p" and n = "next_invitation p"] members_parts [OF inv] bound_to_member [OF inv] assms(2,3)
  by (auto simp: record_event_def events_ok_def)

lemma bump_instance_inv:
  assumes "policy_inv (p, db)"
  shows "policy_inv (bump_instance p iid now, db)" and "instance_ids (bump_instance p iid now) = instance_ids p" and "region_ids (bump_instance p iid now) = region_ids p"
proof -
  let ?is = "update_row in_ID iid (\<lambda>i. i\<lparr>PolicyRevision := PolicyRevision i + 1, in_UpdatedAt := now\<rparr>) (instances p)"
  have "map in_ID ?is = map in_ID (instances p)" by (simp add: update_row_def)
  then have ids: "instance_ids (bump_instance p iid now) = instance_ids p" unfolding instance_ids_def bump_instance_def by (metis (no_types, lifting) policy.ext_inject policy.surjective policy.update_convs(3) set_map)
  have "keys_distinct in_PeerID ?is = keys_distinct in_PeerID (instances p)" "keys_distinct in_ID ?is = keys_distinct in_ID (instances p)"
    unfolding update_row_def by (rule keys_distinct_map, simp)+
  then have "instances_ok ?is (wallet_links (user_wallets db)) (next_instance p)"
    using assms by (auto simp: policy_inv_def instances_ok_def instance_check_def dest!: set_update_row)
  then show "policy_inv (bump_instance p iid now, db)" using assms ids
    by (simp add: policy_inv_def members_ok_def access_ok_def challenges_ok_def bump_instance_def region_ids_def member_pairs_def service_ids_def)
  show "instance_ids (bump_instance p iid now) = instance_ids p" by (rule ids)
  show "region_ids (bump_instance p iid now) = region_ids p" by (simp add: region_ids_def bump_instance_def)
qed

lemma DeleteRegion_inv:
  assumes inv: "policy_inv (p, db)" and ok: "DeleteRegion p owner rid = Inr (p', gone)"
  shows "policy_inv (p', db)"
proof (cases "p' = p")
  case False
  let ?es = "map (\<lambda>e. if ev_RegionID e = Some rid then e\<lparr>ev_RegionID := None\<rparr> else e) (membership_events p)"
  have p': "p' = p\<lparr>regions := filter (\<lambda>r. rg_ID r \<noteq> rid) (regions p), invitations := filter (\<lambda>v. iv_RegionID v \<noteq> rid) (invitations p), membership_events := ?es\<rparr>"
    and free: "\<forall>m\<in>set (memberships p). ms_RegionID m \<noteq> rid"
    using ok False by (auto simp: DeleteRegion_def list_ex_iff split: if_splits)
  have ids: "region_ids p' = region_ids p - {rid}" "instance_ids p' = instance_ids p" "member_pairs p' = member_pairs p" "service_ids p' = service_ids p"
    by (auto simp: p' region_ids_def instance_ids_def member_pairs_def service_ids_def)
  note parts = members_parts [OF inv]
  have "memberships_ok (memberships p) (instance_ids p) (region_ids p - {rid})" using parts(1) free by (simp add: memberships_ok_def)
  moreover have "invitations_ok (filter (\<lambda>v. iv_RegionID v \<noteq> rid) (invitations p)) (instance_ids p) (region_ids p - {rid}) (next_invitation p)"
    using parts(2) by (auto simp: invitations_ok_def keys_distinct_filter filter_filter conj_commute dest: keys_distinct_filter [where P = "\<lambda>v. iv_RegionID v \<noteq> rid"])
  moreover have "events_ok ?es (instance_ids p) (region_ids p - {rid})" using parts(3) by (fastforce simp: events_ok_def)
  ultimately have "members_ok p'" unfolding members_ok_def ids by (simp add: p')
  moreover have "regions_ok (regions p') (next_region p')" using inv by (simp add: p' policy_inv_def regions_ok_def keys_distinct_filter)
  ultimately show ?thesis using inv ids by (simp add: policy_inv_def access_ok_def challenges_ok_def p')
qed (use inv in simp)

text \<open>Invitations that stop being pending, and the others unchanged.\<close>

lemma distinct_after_mark:
  assumes "keys_distinct key (filter P rows)" and "\<And>r. f r = r \<or> \<not> P (f r)"
  shows "keys_distinct key (filter P (map f rows))"
proof -
  have sub: "set (filter P (map f rs)) \<subseteq> set (filter P rs)" for rs using assms(2) by force
  from assms(1) show ?thesis
  proof (induction rows)
    case (Cons r rows)
    have "keys_distinct key (filter P (map f rows))" using Cons by (auto simp: row_simps split: if_splits)
    moreover have "key r \<notin> key ` set (filter P (map f rows))" if "P r" using Cons.prems that sub [of rows] by (auto simp: row_simps)
    ultimately show ?case using assms(2) [of r] by (auto simp: row_simps)
  qed (simp add: row_simps)
qed

lemma mark_invitations_ok:
  assumes "invitations_ok vs iids rids n" and "\<And>v. iv_ID (f v) = iv_ID v" "\<And>v. iv_InstanceID (f v) = iv_InstanceID v" "\<And>v. iv_RegionID (f v) = iv_RegionID v"
    and "\<And>v. invitation_check v \<Longrightarrow> invitation_check (f v)" and "\<And>v. f v = v \<or> iv_Status (f v) \<noteq> ''pending''"
  shows "invitations_ok (map f vs) iids rids n"
  using assms distinct_after_mark [of "\<lambda>v. (iv_RegionID v, iv_InstanceID v)" "\<lambda>v. iv_Status v = ''pending''" vs f]
  by (simp add: invitations_ok_def keys_distinct_map)

lemma invitations_change:
  assumes inv: "policy_inv (p, db)" and "invitations_ok vs (instance_ids p) (region_ids p) (next_invitation p)"
  shows "policy_inv (p\<lparr>invitations := vs\<rparr>, db)"
  using members_change [OF inv, where ms = "memberships p" and es = "membership_events p" and vs = vs and n = "next_invitation p"] members_parts [OF inv] bound_to_member [OF inv] assms(2)
  by simp

lemma CancelInvitationForOwner_inv:
  assumes inv: "policy_inv (p, db)"
  shows "policy_inv (fst (CancelInvitationForOwner p owner rid iid now), db)"
proof -
  have "invitations_ok (map (\<lambda>v. if pending rid iid v then v\<lparr>iv_Status := ''cancelled'', iv_CancelledAt := Some now, iv_UpdatedAt := now\<rparr> else v) (invitations p))
      (instance_ids p) (region_ids p) (next_invitation p)"
    by (rule mark_invitations_ok [OF members_parts(2) [OF inv]]) (simp_all add: invitation_check_def)
  then show ?thesis using invitations_change [OF inv] inv by (simp add: CancelInvitationForOwner_def)
qed

lemma CreateRegionInvitation_inv:
  assumes inv: "policy_inv (p, db)" and ok: "CreateRegionInvitation hashSecret p owner rid iid role token expires now = Inr (p', out)"
  shows "policy_inv (p', db)"
proof -
  define v where "v = new_invitation (next_invitation p) rid iid owner (hashSecret token) role expires now"
  obtain r i where r: "GetRegionByIDForOwner p owner rid = Inr r" and i: "find_row in_ID iid (instances p) = Some i"
    and role: "role_check role" and fresh: "\<forall>v\<in>set (invitations p). \<not> pending rid iid v"
    and p': "p' = record_event (p\<lparr>invitations := invitations p @ [v], next_invitation := next_invitation p + 1\<rparr>) iid rid ''invited'' owner 0 now"
    using ok unfolding CreateRegionInvitation_def by (auto simp: Let_def list_ex_iff v_def elim!: rbind_InrE split: option.splits if_splits)
  have v: "iv_ID v = next_invitation p" "iv_RegionID v = rid" "iv_InstanceID v = iid" "iv_Status v = ''pending''" "role_check (iv_NodeRole v)"
    using role by (simp_all add: v_def new_invitation_def)
  have ids: "iid \<in> instance_ids p" "rid \<in> region_ids p"
    using find_row_mem [OF i] find_row_key [OF i] GetRegion_mem [OF r] by (auto simp: instance_ids_def region_ids_def)
  note old = members_parts [OF inv]
  have "iv_ID v \<notin> iv_ID ` set (invitations p)" using old(2) v(1) by (auto simp: invitations_ok_def)
  moreover have "(rid, iid) \<notin> (\<lambda>v. (iv_RegionID v, iv_InstanceID v)) ` set (filter (\<lambda>v. iv_Status v = ''pending'') (invitations p))"
    using fresh by (auto simp: pending_def)
  ultimately have "invitations_ok (invitations p @ [v]) (instance_ids p) (region_ids p) (next_invitation p + 1)"
    using old(2) v ids by (auto simp: invitations_ok_def row_simps invitation_check_def)
  then have "policy_inv (p\<lparr>invitations := invitations p @ [v], next_invitation := next_invitation p + 1\<rparr>, db)"
    using members_change [OF inv, where ms = "memberships p" and es = "membership_events p" and vs = "invitations p @ [v]" and n = "next_invitation p + 1"] old bound_to_member [OF inv]
    by simp
  from record_event_inv [OF this] ids show ?thesis by (simp add: p' instance_ids_def region_ids_def)
qed

lemma service_regions:
  assumes "policy_inv (p, db)" and "s \<in> set (services p)"
  shows "(svc_RegionID s \<noteq> None) = (Exposure s = ''trusted_region'')"
  using assms by (simp add: policy_inv_def access_ok_def services_ok_def service_check_def)

text \<open>The migration guard is complete: where it lets an invitation pass, the foreign key of the services never refuses the upsert.\<close>

lemma migration_guard:
  assumes inv: "policy_inv (p, db)" and free: "\<not> migration_blocked p iid rid"
  shows "\<not> bindings_dangle p iid rid"
proof
  assume "bindings_dangle p iid rid"
  then obtain s r where s: "s \<in> set (services p)" "svc_InstanceID s = iid" "svc_RegionID s = Some r" "r \<noteq> rid" by (auto simp: bindings_dangle_def list_ex_iff)
  obtain m where m: "m \<in> set (memberships p)" "ms_InstanceID m = iid" "ms_RegionID m = r" using bound_to_member [OF inv s(1,3)] s(2) by blast
  have "keys_distinct ms_InstanceID (memberships p)" using members_parts(1) [OF inv] by (simp add: memberships_ok_def)
  from find_row_distinct [OF this m(1)] have "find_row ms_InstanceID iid (memberships p) = Some m" using m(2) by simp
  moreover have "Exposure s = ExposureTrustedRegion" using service_regions [OF inv s(1)] s(3) by (simp add: ExposureTrustedRegion_def)
  ultimately show False using free s m(3) by (auto simp: migration_blocked_def list_ex_iff)
qed

lemma upsert_membership_inv:
  assumes inv: "policy_inv (p, db)" and ids: "iid \<in> instance_ids p" "rid \<in> region_ids p" and role: "role_check role" and free: "\<not> bindings_dangle p iid rid"
    and up: "upsert_membership p iid rid role admitted verified now = (p', m)"
  shows "policy_inv (p', db)" and "\<exists>ms. p' = p\<lparr>memberships := ms\<rparr>"
proof -
  note old = members_parts [OF inv]
  have kd: "keys_distinct ms_InstanceID (memberships p)" using old(1) by (simp add: memberships_ok_def)
  have m: "ms_InstanceID m = iid" "ms_RegionID m = rid" "membership_check m"
    and cases: "(find_row ms_InstanceID iid (memberships p) = None \<and> p' = p\<lparr>memberships := memberships p @ [m]\<rparr>) \<or> p' = p\<lparr>memberships := update_row ms_InstanceID iid (\<lambda>_. m) (memberships p)\<rparr>
      \<and> find_row ms_InstanceID iid (memberships p) \<noteq> None"
    using up role by (auto simp: upsert_membership_def Let_def membership_check_def dest: find_row_key split: option.splits)
  define ms where "ms = memberships p'"
  have p': "p' = p\<lparr>memberships := ms\<rparr>" using cases by (auto simp: ms_def)
  then show "\<exists>ms. p' = p\<lparr>memberships := ms\<rparr>" by blast
  have mem: "m \<in> set ms" using cases by (auto simp: ms_def update_row_def find_row_None_iff)
  have others: "x \<in> set ms" if "x \<in> set (memberships p)" "ms_InstanceID x \<noteq> iid" for x using cases that by (auto simp: ms_def update_row_def)
  have from_old: "x = m \<or> x \<in> set (memberships p)" if "x \<in> set ms" for x using cases that by (auto simp: ms_def dest: set_update_row)
  have "keys_distinct ms_InstanceID ms" using cases kd m(1) by (auto simp: ms_def row_simps find_row_None_iff keys_distinct_update)
  then have "memberships_ok ms (instance_ids p) (region_ids p)" using from_old old(1) m ids unfolding memberships_ok_def by metis
  moreover have "\<exists>x\<in>set ms. ms_InstanceID x = svc_InstanceID s \<and> ms_RegionID x = r" if s: "s \<in> set (services p)" "svc_RegionID s = Some r" for s r
  proof (cases "svc_InstanceID s = iid")
    case True
    then have "r = rid" using free s by (auto simp: bindings_dangle_def list_ex_iff)
    then show ?thesis using mem m True by metis
  next
    case False
    then show ?thesis using bound_to_member [OF inv s] others by metis
  qed
  ultimately show "policy_inv (p', db)"
    using members_change [OF inv, where ms = ms and vs = "invitations p" and es = "membership_events p" and n = "next_invitation p"] old p' by simp
qed

lemma accept_mark_inv:
  assumes inv: "policy_inv (p, db)"
  shows "policy_inv (p\<lparr>invitations := update_row iv_ID k (\<lambda>v. v\<lparr>iv_Status := ''accepted'', iv_AcceptedAt := Some now, iv_UpdatedAt := now\<rparr>) (invitations p)\<rparr>, db)"
  unfolding update_row_def
  by (rule invitations_change [OF inv mark_invitations_ok [OF members_parts(2) [OF inv]]]) (simp_all add: invitation_check_def)

lemma AcceptRegionInvitation_parts:
  assumes "AcceptRegionInvitation hashSecret p actor rid iid token verified now = Inr (p', out)"
  obtains i v r p1 m where "find_row in_ID iid (instances p) = Some i" "in_AccountID i = actor" "List.find (pending rid iid) (invitations p) = Some v"
    "find_row rg_ID rid (regions p) = Some r" "hashSecret token = AcceptanceTokenHash v" "verified \<le> iv_ExpiresAt v" "\<not> bindings_dangle p iid rid"
    "upsert_membership p iid rid (iv_NodeRole v) (CreatedByAccountID v) verified now = (p1, m)"
    "p' = record_event (bump_instance (p1\<lparr>invitations := update_row iv_ID (iv_ID v) (\<lambda>v. v\<lparr>iv_Status := ''accepted'', iv_AcceptedAt := Some now, iv_UpdatedAt := now\<rparr>) (invitations p1)\<rparr>) iid now)
        iid rid ''accepted'' actor (MembershipRevision m) now"
    "out = m\<lparr>ms_RegionSlug := Slug r, ms_RegionStatus := rg_Status r\<rparr>"
  using assms by (auto simp: AcceptRegionInvitation_def Let_def split: option.splits if_splits prod.splits)

lemma AcceptRegionInvitation_inv:
  assumes inv: "policy_inv (p, db)" and ok: "AcceptRegionInvitation hashSecret p actor rid iid token verified now = Inr (p', out)"
  shows "policy_inv (p', db)"
  using ok
proof (rule AcceptRegionInvitation_parts)
  fix i v r p1 m
  assume i: "find_row in_ID iid (instances p) = Some i" and v: "List.find (pending rid iid) (invitations p) = Some v" and r: "find_row rg_ID rid (regions p) = Some r"
    and free: "\<not> bindings_dangle p iid rid" and up: "upsert_membership p iid rid (iv_NodeRole v) (CreatedByAccountID v) verified now = (p1, m)"
    and p': "p' = record_event (bump_instance (p1\<lparr>invitations := update_row iv_ID (iv_ID v) (\<lambda>v. v\<lparr>iv_Status := ''accepted'', iv_AcceptedAt := Some now, iv_UpdatedAt := now\<rparr>) (invitations p1)\<rparr>) iid now)
        iid rid ''accepted'' actor (MembershipRevision m) now"
  have ids: "iid \<in> instance_ids p" "rid \<in> region_ids p"
    using find_row_mem [OF i] find_row_key [OF i] find_row_mem [OF r] find_row_key [OF r] by (auto simp: instance_ids_def region_ids_def)
  have "role_check (iv_NodeRole v)" using find_Some_mem [OF v] members_parts(2) [OF inv] by (simp add: invitations_ok_def invitation_check_def)
  from upsert_membership_inv [OF inv ids this free up] obtain ms where inv1: "policy_inv (p1, db)" and p1: "p1 = p\<lparr>memberships := ms\<rparr>" by blast
  let ?p2 = "p1\<lparr>invitations := update_row iv_ID (iv_ID v) (\<lambda>v. v\<lparr>iv_Status := ''accepted'', iv_AcceptedAt := Some now, iv_UpdatedAt := now\<rparr>) (invitations p1)\<rparr>"
  have inv2: "policy_inv (?p2, db)" by (rule accept_mark_inv [OF inv1])
  have "instance_ids ?p2 = instance_ids p" "region_ids ?p2 = region_ids p" by (simp_all add: p1 instance_ids_def region_ids_def)
  then show ?thesis using record_event_inv [OF bump_instance_inv(1) [OF inv2]] bump_instance_inv(2,3) [OF inv2] ids p' by simp
qed

lemma memberships_change:
  assumes inv: "policy_inv (p, db)" and "memberships_ok ms (instance_ids p) (region_ids p)"
    and "\<And>s r. s \<in> set (services p) \<Longrightarrow> svc_RegionID s = Some r \<Longrightarrow> \<exists>m\<in>set ms. ms_InstanceID m = svc_InstanceID s \<and> ms_RegionID m = r"
  shows "policy_inv (p\<lparr>memberships := ms\<rparr>, db)"
  using members_change [OF inv, where ms = ms and vs = "invitations p" and es = "membership_events p" and n = "next_invitation p"] members_parts [OF inv] assms(2,3) by simp

lemma UpdateMembershipState_inv:
  assumes inv: "policy_inv (p, db)" and ok: "UpdateMembershipState gap p owner rid iid role status expires verified now = Inr (p', out)"
  shows "policy_inv (p', db)"
proof -
  obtain r m m' where r: "GetRegionByIDForOwner p owner rid = Inr r" and m: "List.find (\<lambda>m. ms_RegionID m = rid \<and> ms_InstanceID m = iid) (memberships p) = Some m"
    and m': "membership_check m'" "ms_InstanceID m' = ms_InstanceID m" "ms_RegionID m' = ms_RegionID m"
    and p': "p' = record_event (bump_instance (p\<lparr>memberships := update_row ms_InstanceID iid (\<lambda>_. m') (memberships p)\<rparr>) iid now) iid rid (membershipEventKind status) owner (MembershipRevision m') now"
    using ok unfolding UpdateMembershipState_def by (auto simp: Let_def elim!: rbind_InrE split: option.splits if_splits)
  have mem: "m \<in> set (memberships p)" "ms_RegionID m = rid" "ms_InstanceID m = iid" using find_Some_mem [OF m] by auto
  note old = members_parts [OF inv]
  have kd: "keys_distinct ms_InstanceID (memberships p)" using old(1) by (simp add: memberships_ok_def)
  then have only: "x = m" if "x \<in> set (memberships p)" "ms_InstanceID x = iid" for x
    using find_row_distinct [OF kd mem(1)] find_row_distinct [OF kd that(1)] mem(3) that(2) by simp
  let ?ms = "update_row ms_InstanceID iid (\<lambda>_. m') (memberships p)"
  have "keys_distinct ms_InstanceID ?ms" using kd m'(2) mem(3) by (simp add: keys_distinct_update)
  then have ok1: "memberships_ok ?ms (instance_ids p) (region_ids p)"
    using old(1) m' mem by (auto simp: memberships_ok_def dest!: set_update_row)
  have "\<exists>x\<in>set ?ms. ms_InstanceID x = svc_InstanceID s \<and> ms_RegionID x = r" if s: "s \<in> set (services p)" "svc_RegionID s = Some r" for s r
  proof -
    obtain x where x: "x \<in> set (memberships p)" "ms_InstanceID x = svc_InstanceID s" "ms_RegionID x = r" using bound_to_member [OF inv s] by blast
    show ?thesis
    proof (cases "ms_InstanceID x = iid")
      case True
      then show ?thesis using only [OF x(1)] x m' by (auto simp: update_row_def image_iff)
    next
      case False
      then show ?thesis using x by (auto simp: update_row_def image_iff)
    qed
  qed
  then have inv1: "policy_inv (p\<lparr>memberships := ?ms\<rparr>, db)" using memberships_change [OF inv ok1] by blast
  have ids: "iid \<in> instance_ids (p\<lparr>memberships := ?ms\<rparr>)" "rid \<in> region_ids (p\<lparr>memberships := ?ms\<rparr>)"
    using old(1) mem by (auto simp: memberships_ok_def instance_ids_def region_ids_def)
  then show ?thesis using record_event_inv [OF bump_instance_inv(1) [OF inv1]] bump_instance_inv(2,3) [OF inv1] p' by simp
qed

lemma ReleaseMembership_inv:
  assumes inv: "policy_inv (p, db)" and ok: "ReleaseMembership p actor iid now = Inr (p', out)"
  shows "policy_inv (p', db)"
proof -
  let ?ms = "filter (\<lambda>m. ms_InstanceID m \<noteq> iid) (memberships p)"
  obtain m i where m: "find_row ms_InstanceID iid (memberships p) = Some m" and free: "trusted_services p iid = []"
    and p': "p' = record_event (bump_instance (p\<lparr>memberships := ?ms\<rparr>) iid now) iid (ms_RegionID m) ''released'' actor (MembershipRevision m) now"
    using ok by (auto simp: ReleaseMembership_def Let_def split: option.splits if_splits)
  have mem: "m \<in> set (memberships p)" "ms_InstanceID m = iid" using find_row_mem [OF m] find_row_key [OF m] by auto
  note old = members_parts [OF inv]
  have ok1: "memberships_ok ?ms (instance_ids p) (region_ids p)" using old(1) by (simp add: memberships_ok_def keys_distinct_filter)
  have "svc_InstanceID s \<noteq> iid" if "s \<in> set (services p)" "svc_RegionID s = Some r" for s r
    using free that service_regions [OF inv that(1)] by (auto simp: trusted_services_def filter_empty_conv ExposureTrustedRegion_def)
  then have "\<exists>x\<in>set ?ms. ms_InstanceID x = svc_InstanceID s \<and> ms_RegionID x = r" if "s \<in> set (services p)" "svc_RegionID s = Some r" for s r
    using bound_to_member [OF inv that] that by (metis (mono_tags, lifting) mem_Collect_eq set_filter)
  then have inv1: "policy_inv (p\<lparr>memberships := ?ms\<rparr>, db)" using memberships_change [OF inv ok1] by blast
  have ids: "iid \<in> instance_ids (p\<lparr>memberships := ?ms\<rparr>)" "ms_RegionID m \<in> region_ids (p\<lparr>memberships := ?ms\<rparr>)"
    using old(1) mem by (auto simp: memberships_ok_def instance_ids_def region_ids_def)
  then show ?thesis using record_event_inv [OF bump_instance_inv(1) [OF inv1]] bump_instance_inv(2,3) [OF inv1] p' by simp
qed

lemma access_change:
  assumes "policy_inv (p, db)" and "p' = p\<lparr>services := ss, service_rules := rs, next_service := n\<rparr>"
    and "services_ok ss (instance_ids p) (member_pairs p) n" and "rules_ok rs (svc_ID ` set ss)"
  shows "policy_inv (p', db)"
  using assms by (simp add: policy_simps)

lemma access_parts:
  assumes "policy_inv (p, db)"
  shows "services_ok (services p) (instance_ids p) (member_pairs p) (next_service p)" and "rules_ok (service_rules p) (svc_ID ` set (services p))"
  using assms by (simp_all add: policy_inv_def access_ok_def service_ids_def)

lemma drop_services_inv:
  assumes inv: "policy_inv (p, db)"
  shows "policy_inv (drop_services p iid, db)"
proof -
  let ?ss = "filter (\<lambda>s. svc_InstanceID s \<noteq> iid) (services p)"
  let ?gone = "set (map svc_ID (filter (\<lambda>s. svc_InstanceID s = iid) (services p)))"
  have "services_ok ?ss (instance_ids p) (member_pairs p) (next_service p)" using access_parts(1) [OF inv] by (auto simp: services_ok_def keys_distinct_filter)
  moreover have "rules_ok (filter (\<lambda>r. fst r \<notin> ?gone) (service_rules p)) (svc_ID ` set ?ss)"
    using rules_ok_mono [OF rules_ok_filter [OF access_parts(2) [OF inv]] services_left] by simp
  ultimately show ?thesis using access_change [OF inv, where ss = ?ss and n = "next_service p"] by (simp add: drop_services_def Let_def)
qed

lemma insert_service_inv:
  assumes inv: "policy_inv (p, db)" and ok: "insert_service p row = Inr p'" and row: "svc_ID row = next_service p" "svc_InstanceID row \<in> instance_ids p"
  shows "policy_inv (p', db)" and "p' = p\<lparr>services := services p @ [row], next_service := next_service p + 1\<rparr>"
proof -
  have p': "p' = p\<lparr>services := services p @ [row], next_service := next_service p + 1\<rparr>" and check: "service_check row"
    and name: "\<forall>s\<in>set (services p). \<not> (svc_InstanceID s = svc_InstanceID row \<and> ServiceName s = ServiceName row)"
    and member: "\<forall>r. svc_RegionID row = Some r \<longrightarrow> (svc_InstanceID row, r) \<in> member_pairs p"
    using ok by (auto simp: insert_service_def has_membership_def list_ex_iff member_pairs_iff split: if_splits option.splits)
  then show "p' = p\<lparr>services := services p @ [row], next_service := next_service p + 1\<rparr>" by simp
  note old = access_parts [OF inv]
  have "svc_ID row \<notin> svc_ID ` set (services p)" using old(1) row(1) by (auto simp: services_ok_def)
  moreover have "(svc_InstanceID row, ServiceName row) \<notin> (\<lambda>s. (svc_InstanceID s, ServiceName s)) ` set (services p)" using name by auto
  ultimately have "services_ok (services p @ [row]) (instance_ids p) (member_pairs p) (next_service p + 1)"
    using old(1) row check member by (auto simp: services_ok_def row_simps)
  moreover have "rules_ok (service_rules p) (svc_ID ` set (services p @ [row]))" using rules_ok_mono [OF old(2)] by auto
  ultimately show "policy_inv (p', db)"
    using access_change [OF inv, where ss = "services p @ [row]" and rs = "service_rules p" and n = "next_service p + 1"] p' by simp
qed

lemma service_rules_change:
  assumes "policy_inv (p, db)" and "rules_ok rs (svc_ID ` set (services p))"
  shows "policy_inv (p\<lparr>service_rules := rs\<rparr>, db)"
  using access_change [OF assms(1) _ access_parts(1) [OF assms(1)] assms(2)] by simp

lemma insert_services_inv:
  assumes "policy_inv (p, db)" and "insert_services p iid inventory svcs now = Inr p'" and "iid \<in> instance_ids p"
  shows "policy_inv (p', db) \<and> instances p' = instances p"
  using assms
proof (induction svcs arbitrary: p)
  case Nil
  then show ?case by simp
next
  case (Cons svc svcs)
  define row where "row = service_row p iid inventory svc now"
  obtain p1 rs where p1: "insert_service p row = Inr p1" and rs: "insert_rules (service_rules p1) (svc_ID row) (svc_Rules svc) ''store: insert service acl rule'' = Inr rs"
    and rest: "insert_services (p1\<lparr>service_rules := rs\<rparr>) iid inventory svcs now = Inr p'"
    using Cons.prems(2) by (auto simp: Let_def row_def elim!: rbind_InrE)
  have row: "svc_ID row = next_service p" "svc_InstanceID row \<in> instance_ids p" using Cons.prems(3) by (simp_all add: row_def service_row_def Let_def)
  from insert_service_inv [OF Cons.prems(1) p1 row] have inv1: "policy_inv (p1, db)"
    and p1_eq: "p1 = p\<lparr>services := services p @ [row], next_service := next_service p + 1\<rparr>" by auto
  have "rules_ok rs (svc_ID ` set (services p1))" using insert_rules_ok [OF rs access_parts(2) [OF inv1]] by (simp add: p1_eq)
  from service_rules_change [OF inv1 this] have "policy_inv (p1\<lparr>service_rules := rs\<rparr>, db)" .
  from Cons.IH [OF this rest] Cons.prems(3) show ?case by (simp add: p1_eq instance_ids_def)
qed

lemma guard_Inr: "(if b then Inl e else x) = Inr v \<Longrightarrow> x = Inr v"
  by (simp split: if_splits)

lemma ReplaceInstanceServicePolicy_inv:
  assumes inv: "policy_inv (p, db)" and ok: "ReplaceInstanceServicePolicy p a iid inp now = Inr (p', out)"
  shows "policy_inv (p', db)"
proof -
  let ?up = "\<lambda>p2. update_instance p2 (\<lambda>i. in_ID i = iid \<and> in_AccountID i = a)
         (\<lambda>i. i\<lparr>PolicyScope := rp_PolicyScope inp, PolicyRevision := PolicyRevision i + 1, in_UpdatedAt := now\<rparr>) ''store: update instance policy scope''"
  obtain i where i: "getInstance p (\<lambda>i. in_ID i = iid \<and> in_AccountID i = a) = Inr i" using ok unfolding ReplaceInstanceServicePolicy_def by (rule rbind_InrE)
  define p1 where "p1 = (if PolicyScope i = PolicyScopeService \<and> rp_PolicyScope inp = PolicyScopePeer then drop_services p iid else p)"
  obtain p2 where "(if rp_PolicyScope inp = PolicyScopeService then insert_services (drop_services p1 iid) iid (Inventory inp) (rp_Services inp) now else Inr p1) = Inr p2"
    and rest: "rbind (?up p2) (\<lambda>(p3, _). rbind (GetInstanceServicesForUser p3 a iid) (\<lambda>out. Inr (p3, out))) = Inr (p', out)"
    by (rule rbind_InrE [OF guard_Inr [OF guard_Inr [OF ok [unfolded ReplaceInstanceServicePolicy_def i rbind.simps Let_def p1_def [symmetric]]]]])
  then have p2: "p2 = p1 \<or> insert_services (drop_services p1 iid) iid (Inventory inp) (rp_Services inp) now = Inr p2" by (auto split: if_splits)
  obtain j where up: "?up p2 = Inr (p', j)" using rest by (auto elim!: rbind_InrE)
  have p1: "p1 = p \<or> p1 = drop_services p iid" by (simp add: p1_def)
  have inv1: "policy_inv (p1, db)" and same: "instances (drop_services p1 iid) = instances p" using p1 drop_services_inv [OF inv] inv by (auto simp: drop_services_def Let_def)
  have "iid \<in> instance_ids (drop_services p1 iid)" using i same by (auto simp: getInstance_def instance_ids_def dest!: find_Some_mem split: option.splits)
  then have "policy_inv (p2, db)" using p2 inv1 insert_services_inv [OF drop_services_inv [OF inv1]] by blast
  from owner_update_inv [OF this up] show ?thesis by simp
qed

lemma ReplaceInstanceServiceACL_inv:
  assumes inv: "policy_inv (p, db)" and ok: "ReplaceInstanceServiceACL p a iid sid mode rules now = Inr (p', out)"
  shows "policy_inv (p', db)"
proof -
  obtain s s' rs where s: "s \<in> set (services p)" "svc_ID s = sid" and s': "service_check s'" "svc_ID s' = sid" "svc_InstanceID s' = svc_InstanceID s" "ServiceName s' = ServiceName s" "svc_RegionID s' = svc_RegionID s"
    and rs: "insert_rules (filter (\<lambda>r. fst r \<noteq> sid) (service_rules p)) sid rules ''store: insert service acl rule'' = Inr rs"
    and p': "p' = p\<lparr>services := update_row svc_ID sid (\<lambda>_. s') (services p), service_rules := rs\<rparr>"
    using ok by (auto simp: ReplaceInstanceServiceACL_def Let_def dest!: find_Some_mem elim!: rbind_InrE split: option.splits if_splits)
  let ?ss = "update_row svc_ID sid (\<lambda>_. s') (services p)"
  note old = access_parts [OF inv]
  have kd: "keys_distinct svc_ID (services p)" "keys_distinct (\<lambda>s. (svc_InstanceID s, ServiceName s)) (services p)" using old(1) by (auto simp: services_ok_def)
  have maps: "map svc_ID ?ss = map svc_ID (services p)" "map (\<lambda>s. (svc_InstanceID s, ServiceName s)) ?ss = map (\<lambda>s. (svc_InstanceID s, ServiceName s)) (services p)"
    using update_distinct_field [OF kd(1) s(1) _ kd(1), of s'] update_distinct_field [OF kd(1) s(1) _ kd(2), of s'] s(2) s' by simp_all
  then have "svc_ID ` set ?ss = svc_ID ` set (services p)" by (metis set_map)
  then have "rules_ok rs (svc_ID ` set ?ss)" using insert_rules_ok [OF rs rules_ok_drop [OF old(2)]] s by auto
  moreover have "services_ok ?ss (instance_ids p) (member_pairs p) (next_service p)"
    using old(1) maps s s' by (auto simp: services_ok_def keys_distinct_def dest!: set_update_row)
  ultimately show ?thesis using access_change [OF inv, where ss = ?ss and rs = rs and n = "next_service p"] p' by simp
qed

lemma CreateNodeCredentialChallenge_inv: "policy_inv (p, db) \<Longrightarrow> CreateNodeCredentialChallenge p ch = Inr p' \<Longrightarrow> policy_inv (p', db)"
  by (auto simp: CreateNodeCredentialChallenge_def Let_def policy_simps row_simps keys_distinct_filter split: if_splits)

lemma ConsumeNodeCredentialChallenge_inv: "policy_inv (p, db) \<Longrightarrow> ConsumeNodeCredentialChallenge hashSecret p cid peer nonce aud now = Inr (p', c) \<Longrightarrow> policy_inv (p', db)"
  by (auto simp: ConsumeNodeCredentialChallenge_def policy_simps keys_distinct_update split: if_splits option.splits)

section \<open>Runs\<close>

lemma on_tables_Inr: "on_tables db r = Inr (s, u) \<longleftrightarrow> (\<exists>p x. r = Inr (p, x) \<and> s = (p, db))"
  by (auto simp: on_tables_def res_simps)

lemma on_wallets_Inr: "on_wallets p r = Inr (s, u) \<longleftrightarrow> (\<exists>db x. r = Inr (db, x) \<and> s = (p, db))"
  by (auto simp: on_wallets_def res_simps)

lemma no_result_Inr: "no_result r = Inr (p, u) \<longleftrightarrow> r = Inr p"
  by (auto simp: no_result_def res_simps)

lemmas exec_Inr = on_tables_Inr on_wallets_Inr no_result_Inr

lemmas operation_inv = RefreshIdentity_inv CreateWalletChallenge_inv ConsumeWalletChallenge_inv LinkWallet_inv DeleteWalletByIDForUser_inv CreateInstance_inv
  UpdateInstanceMetadata_inv ReplaceInstanceACL_inv ReclaimInstance_inv DeleteInstanceByIDForUser_inv CreateRegion_inv UpdateRegion_inv DeleteRegion_inv
  CreateRegionInvitation_inv AcceptRegionInvitation_inv UpdateMembershipState_inv ReleaseMembership_inv ReplaceInstanceServicePolicy_inv
  ReplaceInstanceServiceACL_inv CreateNodeCredentialChallenge_inv ConsumeNodeCredentialChallenge_inv

lemma exec_policy_inv: "policy_inv s \<Longrightarrow> exec_policy h gap op s = Inr (s', r) \<Longrightarrow> policy_inv s'"
  using CancelInvitationForOwner_inv
  by (cases "(h, gap, op, s)" rule: exec_policy.cases) (auto simp: exec_Inr dest: operation_inv, metis fst_conv)

text \<open>Only the two operations on wallet challenges write their table.\<close>

lemma update_instance_challenges: "update_instance p sel f what = Inr (p', out) \<Longrightarrow> wallet_challenges p' = wallet_challenges p"
  by (auto simp: update_instance_def split: option.splits if_splits)

lemma insert_services_challenges: "insert_services p iid inventory svcs now = Inr p' \<Longrightarrow> wallet_challenges p' = wallet_challenges p"
proof (induction svcs arbitrary: p)
  case (Cons svc svcs)
  then show ?case by (fastforce simp: Let_def insert_service_def elim!: rbind_InrE split: if_splits)
qed simp

lemma instance_challenges:
  "CreateInstance p db i now = Inr (p', out) \<Longrightarrow> wallet_challenges p' = wallet_challenges p"
  "UpdateInstanceMetadata p a iid label mode status obs obsAt now = Inr (p', out) \<Longrightarrow> wallet_challenges p' = wallet_challenges p"
  "ReplaceInstanceACL p a iid mode status obs obsAt rules now = Inr (p', out) \<Longrightarrow> wallet_challenges p' = wallet_challenges p"
  "ReclaimInstance p db iid a w obs obsAt now = Inr (p', out) \<Longrightarrow> wallet_challenges p' = wallet_challenges p"
  "DeleteInstanceByIDForUser p a iid first = Inr (p', gone) \<Longrightarrow> wallet_challenges p' = wallet_challenges p"
  by (auto simp: CreateInstance_def UpdateInstanceMetadata_def ReplaceInstanceACL_def ReclaimInstance_def DeleteInstanceByIDForUser_def Let_def
      dest!: update_instance_challenges elim!: rbind_InrE split: if_splits)

lemma region_challenges:
  "CreateRegion p r now = Inr (p', row) \<Longrightarrow> wallet_challenges p' = wallet_challenges p"
  "UpdateRegion p owner rid name status now = Inr (p', row) \<Longrightarrow> wallet_challenges p' = wallet_challenges p"
  "DeleteRegion p owner rid = Inr (p', gone) \<Longrightarrow> wallet_challenges p' = wallet_challenges p"
  by (auto simp: CreateRegion_def UpdateRegion_def DeleteRegion_def Let_def elim!: rbind_InrE split: if_splits)

lemma event_challenges:
  "wallet_challenges (record_event p iid rid kind actor revision now) = wallet_challenges p"
  "wallet_challenges (bump_instance p iid now) = wallet_challenges p"
  by (simp_all add: record_event_def bump_instance_def)

lemma membership_challenges:
  "CreateRegionInvitation h p owner rid iid role token expires now = Inr (p', v) \<Longrightarrow> wallet_challenges p' = wallet_challenges p"
  "AcceptRegionInvitation h p actor rid iid token verified now = Inr (p', m) \<Longrightarrow> wallet_challenges p' = wallet_challenges p"
  "UpdateMembershipState gap p owner rid iid role status expires' verified' now = Inr (p', m) \<Longrightarrow> wallet_challenges p' = wallet_challenges p"
  "ReleaseMembership p actor iid now = Inr (p', gone) \<Longrightarrow> wallet_challenges p' = wallet_challenges p"
  by (auto simp: CreateRegionInvitation_def AcceptRegionInvitation_def upsert_membership_def UpdateMembershipState_def ReleaseMembership_def Let_def event_challenges
      elim!: rbind_InrE split: if_splits option.splits)

lemma service_challenges:
  "ReplaceInstanceServicePolicy p a iid inp now = Inr (p', out) \<Longrightarrow> wallet_challenges p' = wallet_challenges p"
  "ReplaceInstanceServiceACL p a iid sid mode rules now = Inr (p', s) \<Longrightarrow> wallet_challenges p' = wallet_challenges p"
  "CreateNodeCredentialChallenge p ch = Inr p' \<Longrightarrow> wallet_challenges p' = wallet_challenges p"
  "ConsumeNodeCredentialChallenge h p cid peer nonce aud now = Inr (p', c) \<Longrightarrow> wallet_challenges p' = wallet_challenges p"
  by (auto simp: ReplaceInstanceServicePolicy_def drop_services_def ReplaceInstanceServiceACL_def CreateNodeCredentialChallenge_def ConsumeNodeCredentialChallenge_def Let_def
      dest!: update_instance_challenges insert_services_challenges elim!: rbind_InrE split: if_splits option.splits)

lemma update_row_keeps: "x \<in> set rows \<Longrightarrow> key x \<noteq> k \<Longrightarrow> x \<in> set (update_row key k f rows)"
  by (force simp: update_row_def)

lemma exec_used_kept:
  assumes "policy_inv s" and ok: "exec_policy h gap op s = Inr (s', r)"
  shows "used_kept s s'"
proof (cases "(h, gap, op, s)" rule: exec_policy.cases)
  case (2 h gap ch p db)
  with ok show ?thesis by (auto simp: used_kept_def exec_Inr CreateWalletChallenge_def split: if_splits)
next
  case (3 h gap a cid now p db)
  then obtain c p' where c: "find_challenge p a cid = Some c" "wc_UsedAt c = None" "s = (p, db)" "s' = (p', db)"
      "wallet_challenges p' = update_row wc_ID cid (\<lambda>ch. if wc_AccountID ch = a then ch\<lparr>wc_UsedAt := Some now\<rparr> else ch) (wallet_challenges p)"
    using ok by (auto simp: exec_Inr ConsumeWalletChallenge_def split: if_splits option.splits)
  have mem: "c \<in> set (wallet_challenges p)" "wc_ID c = cid" using find_Some_mem [OF c(1) [unfolded find_challenge_def]] by simp_all
  have kd: "keys_distinct wc_ID (wallet_challenges p)" using assms(1) c(3) by (simp add: policy_inv_def challenges_ok_def)
  have "x = c" if "x \<in> set (wallet_challenges p)" "wc_ID x = cid" for x
    using find_row_distinct [OF kd mem(1)] find_row_distinct [OF kd that(1)] mem(2) that(2) by simp
  then have "x \<in> set (wallet_challenges p')" if "x \<in> set (wallet_challenges p)" "wc_UsedAt x \<noteq> None" for x
    unfolding c(5) using that c(2) by (intro update_row_keeps [where key = wc_ID]) auto
  then show ?thesis by (simp add: used_kept_def c(3,4))
qed (use ok in \<open>auto simp: used_kept_def exec_Inr RefreshIdentity_def CancelInvitationForOwner_def instance_challenges region_challenges membership_challenges service_challenges split: if_splits\<close>)

interpretation policy_tx: tx_store "exec_policy h gap" policy_inv used_kept
  by unfold_locales (auto simp: used_kept_def dest: exec_policy_inv exec_used_kept [unfolded used_kept_def])

section \<open>Properties\<close>


lemma used_challenge_stays:
  assumes inv: "policy_inv (p, db)" and used: "ch \<in> set (wallet_challenges p)" "wc_UsedAt ch \<noteq> None"
  shows "ConsumeWalletChallenge p a (wc_ID ch) now = Inl (if a = wc_AccountID ch then ErrChallengeConsumed else StoreNotFound)"
proof -
  have kd: "keys_distinct wc_ID (wallet_challenges p)" using inv by (simp add: policy_inv_def challenges_ok_def)
  have only: "x = ch" if "x \<in> set (wallet_challenges p)" "wc_ID x = wc_ID ch" for x
    using find_row_distinct [OF kd used(1)] find_row_distinct [OF kd that(1)] that(2) by simp
  have "find_challenge p a (wc_ID ch) = (if a = wc_AccountID ch then Some ch else None)"
  proof (cases "find_challenge p a (wc_ID ch)")
    case None
    then show ?thesis using used(1) by (auto simp: find_challenge_def find_None_iff)
  next
    case (Some x)
    from find_Some_mem [OF this [unfolded find_challenge_def]] have "x = ch" "wc_AccountID x = a" using only by auto
    then show ?thesis using Some by simp
  qed
  then show ?thesis using used(2) by (simp add: ConsumeWalletChallenge_def)
qed

text \<open>
  C21 (safety): a wallet challenge proves one link only. Once it has been consumed, every later attempt to consume it is refused, after any sequence of transactions and for every account: the
  account that used it learns that it is consumed, another account that it does not exist.
\<close>

theorem used_challenge_refused:
  assumes inv: "policy_inv (p, db)" and used: "ConsumeWalletChallenge p a cid now = Inr p'"
  shows "ConsumeWalletChallenge (fst (run_ops (exec_policy hashSecret gap) ops (p', db))) a' cid later = Inl (if a' = a then ErrChallengeConsumed else StoreNotFound)"
proof -
  let ?s = "run_ops (exec_policy hashSecret gap) ops (p', db)"
  have inv': "policy_inv (p', db)" by (rule ConsumeWalletChallenge_inv [OF inv used])
  obtain ch where ch: "find_challenge p a cid = Some ch" "p' = p\<lparr>wallet_challenges := update_row wc_ID cid (\<lambda>ch. if wc_AccountID ch = a then ch\<lparr>wc_UsedAt := Some now\<rparr> else ch) (wallet_challenges p)\<rparr>"
    using used by (auto simp: ConsumeWalletChallenge_def split: option.splits if_splits)
  have mem: "ch \<in> set (wallet_challenges p)" "wc_AccountID ch = a" "wc_ID ch = cid" using find_Some_mem [OF ch(1) [unfolded find_challenge_def]] by auto
  let ?ch = "ch\<lparr>wc_UsedAt := Some now\<rparr>"
  have "?ch \<in> set (wallet_challenges p')" using mem ch(2) by (force simp: update_row_def)
  then have kept: "?ch \<in> set (wallet_challenges (fst ?s))" and run: "policy_inv (fst ?s, snd ?s)"
    using policy_tx.run_keeps [OF inv', of hashSecret gap ops] by (auto simp: used_kept_def)
  from used_challenge_stays [OF run kept] mem show ?thesis by simp
qed

text \<open>
  C22 (error): the migration guard is complete. Accepting an invitation never fails with an unexpected database error: where the guard lets it pass, the foreign key of the services accepts the new
  membership. Every refusal is one of the three answers the API maps: unknown, expired, or blocked by services bound to the old region.
\<close>

theorem accept_refusals:
  assumes inv: "policy_inv (p, db)" and "AcceptRegionInvitation hashSecret p actor rid iid token verified now = Inl e"
  shows "e \<in> {StoreNotFound, ErrChallengeExpired, ErrRegionMigrationConflict}"
  using assms(2) migration_guard [OF inv, of iid rid]
  by (auto simp: AcceptRegionInvitation_def Let_def split: option.splits if_splits prod.splits)

text \<open>An invitation found expired stays pending, so the region's owner cannot invite the instance again before cancelling it.\<close>

lemma expired_invitation_stays_pending:
  assumes expired: "AcceptRegionInvitation hashSecret p actor rid iid token verified now = Inl ErrChallengeExpired" and owner: "GetRegionByIDForOwner p owner rid = Inr r" and role: "role_check role"
  shows "CreateRegionInvitation hashSecret (fst (run_ops (exec_policy hashSecret gap) [AcceptOp actor rid iid token verified now] (p, db))) owner rid iid role token' expires now' = Inl StoreConflict"
proof -
  obtain i v where "find_row in_ID iid (instances p) = Some i" "List.find (pending rid iid) (invitations p) = Some v"
    using expired by (auto simp: AcceptRegionInvitation_def Let_def split: option.splits if_splits prod.splits)
  then show ?thesis using expired owner role find_Some_mem by (fastforce simp: CreateRegionInvitation_def on_tables_def list_ex_iff)
qed

text \<open>With a database that refuses the unused parameter, no membership is ever suspended, revoked or given another role.\<close>

lemma membership_update_refused: "\<exists>e. UpdateMembershipState False p owner rid iid role status expires verified now = Inl e"
  by (cases "GetRegionByIDForOwner p owner rid") (simp_all add: UpdateMembershipState_def)

text \<open>Reclaiming an instance for another account keeps the region membership and the service policies of the previous owner.\<close>

lemma reclaim_keeps_membership:
  "ReclaimInstance p db iid a wallet obs obsAt now = Inr (p', out) \<Longrightarrow> memberships p' = memberships p \<and> services p' = services p"
  by (auto simp: ReclaimInstance_def update_instance_def Let_def elim!: rbind_InrE split: if_splits option.splits)

section \<open>Witnesses\<close>



lemma demo_run_inv: "policy_inv (run_ops (exec_policy h gap) ops (empty_policy, empty_db))"
  using policy_tx.run_keeps [OF empty_policy_inv] by blast

lemma demo_challenged_inv: "policy_inv (demo_challenged, empty_db)"
  using demo_run_inv [of "\<lambda>x. x" False "[CreateWalletChallengeOp demo_challenge]"] by (simp add: demo_challenged_def on_tables_def no_result_def CreateWalletChallenge_def empty_policy_def row_simps)

lemma demo_consumed:
  "ConsumeWalletChallenge demo_challenged ''acct'' ''c1'' 5 = Inr (demo_challenged\<lparr>wallet_challenges := [demo_challenge\<lparr>wc_UsedAt := Some 5\<rparr>]\<rparr>)"
  by code_simp

theorem used_challenge_refused_witness:
  "ConsumeWalletChallenge (fst (run_ops (exec_policy (\<lambda>x. x) False) demo_policy_ops (demo_challenged\<lparr>wallet_challenges := [demo_challenge\<lparr>wc_UsedAt := Some 5\<rparr>]\<rparr>, empty_db)))
     ''acct'' ''c1'' 6 = Inl ErrChallengeConsumed"
  using used_challenge_refused [OF demo_challenged_inv demo_consumed, of "\<lambda>x. x" False demo_policy_ops "''acct''" 6] by simp

lemma demo_expired: "AcceptRegionInvitation (\<lambda>x. x) (fst demo_invited) ''acct'' 1 1 ''secret'' 20 20 = Inl ErrChallengeExpired"
  by code_simp

theorem accept_refusals_witness:
  "AcceptRegionInvitation (\<lambda>x. x) (fst demo_invited) ''acct'' 1 1 ''secret'' 20 20 = Inl ErrChallengeExpired \<and>
   ErrChallengeExpired \<in> {StoreNotFound, ErrChallengeExpired, ErrRegionMigrationConflict}"
  using accept_refusals [of "fst demo_invited" "snd demo_invited"] demo_run_inv demo_expired unfolding demo_invited_def by (metis prod.collapse)

end
