(* ===== verification/Mesh.thy ===== *)
theory Mesh
  imports Solana_Keys Solana_RPC
begin

text \<open>
  Observations of the peer network (\<^verbatim>\<open>internal/mesh/client.go\<close>) and the identity attestation they rest on (\<^verbatim>\<open>internal/solana/solana.go\<close>). The fetch of the node table is the
  argument \<open>table\<close>, \<open>None\<close> where it fails; \<open>verify\<close> is \<^verbatim>\<open>ed25519.Verify\<close> and \<open>payload\<close> the JSON encoding of the signed fields.

  The lemmas show that an observation names the wallet that signed for this very peer, and that one connected peer without a valid attestation fails the whole lookup.
\<close>

section \<open>Attestations\<close>

record IdentityAttestation =
  at_PeerID :: string
  WalletPubkey :: string
  at_Timestamp :: int64
  at_Signature :: string

definition VerifyIdentity :: "(bytes \<Rightarrow> bytes \<Rightarrow> bytes \<Rightarrow> bool) \<Rightarrow> (string \<Rightarrow> string \<Rightarrow> int64 \<Rightarrow> bytes) \<Rightarrow> IdentityAttestation option \<Rightarrow> unit res" where
  "VerifyIdentity verify payload att =
     (case att of
        None \<Rightarrow> Inl (ErrMsg ''nil attestation'')
      | Some a \<Rightarrow>
          rbind (NormalizeWallet (WalletPubkey a)) (\<lambda>wallet.
          case DecodeString (at_Signature a) of
            None \<Rightarrow> Inl (ErrMsg ''signature encoding'')
          | Some rawSig \<Rightarrow>
              if length rawSig \<noteq> SignatureBytes then Inl (ErrMsg ''signature must decode to 64 bytes'')
              else
                let pub = (case DecodeBase58 wallet PublicKeyBytes of Inl _ \<Rightarrow> [] | Inr b \<Rightarrow> b) in
                if \<not> verify pub (payload (at_PeerID a) wallet (at_Timestamp a)) rawSig then Inl (ErrMsg ''identity signature verification failed'')
                else Inr ()))"

section \<open>The node table\<close>

record ServiceObservation =
  so_Name :: string
  IdentityGroups :: "string list"

record PeerObservation =
  ob_PeerID :: string
  ob_Wallet :: string
  ob_ObservedAt :: instant
  ob_Online :: bool
  ob_Services :: "ServiceObservation list"
  ob_Capabilities :: "string list"

record serviceRecord =
  sr_Name :: string
  identity_group :: "string list"

record peerRecord =
  pr_Connected :: bool
  pr_Owner :: string
  pr_IdentityAttestation :: "IdentityAttestation option"
  pr_Service :: "serviceRecord list"
  pr_Capabilities :: "string list"
  pr_RuntimeCapabilities :: "string list"

datatype mesh_error = ErrPeerUnavailable | ErrPeerUnverifiable | FetchFailed

definition observedServices :: "serviceRecord list \<Rightarrow> ServiceObservation list" where
  "observedServices items = map (\<lambda>it. \<lparr>so_Name = sr_Name it, IdentityGroups = identity_group it\<rparr>) (filter (\<lambda>it. sr_Name it \<noteq> []) items)"

definition capabilitySet :: "string list \<Rightarrow> string list" where
  "capabilitySet items = remdups (filter (\<lambda>it. it \<noteq> []) items)"

text \<open>One peer of the lookup: nothing for an absent or disconnected peer.\<close>

definition observe_peer :: "(bytes \<Rightarrow> bytes \<Rightarrow> bytes \<Rightarrow> bool) \<Rightarrow> (string \<Rightarrow> string \<Rightarrow> int64 \<Rightarrow> bytes) \<Rightarrow> (string \<Rightarrow> peerRecord option) \<Rightarrow> instant \<Rightarrow> string \<Rightarrow>
    mesh_error + PeerObservation option" where
  "observe_peer verify payload table now peerID =
     (case table peerID of
        None \<Rightarrow> Inr None
      | Some peer \<Rightarrow>
          if \<not> pr_Connected peer then Inr None
          else case pr_IdentityAttestation peer of
            None \<Rightarrow> Inl ErrPeerUnverifiable
          | Some att \<Rightarrow>
              (case VerifyIdentity verify payload (Some att) of
                 Inl _ \<Rightarrow> Inl ErrPeerUnverifiable
               | Inr _ \<Rightarrow>
                   case NormalizeWallet (WalletPubkey att) of
                     Inl _ \<Rightarrow> Inl ErrPeerUnverifiable
                   | Inr wallet \<Rightarrow>
                       if pr_Owner peer = [] \<or> pr_Owner peer \<noteq> wallet then Inl ErrPeerUnverifiable
                       else if at_PeerID att \<noteq> peerID then Inl ErrPeerUnverifiable
                       else Inr (Some \<lparr>ob_PeerID = peerID, ob_Wallet = wallet, ob_ObservedAt = now, ob_Online = True, ob_Services = observedServices (pr_Service peer),
                                       ob_Capabilities = capabilitySet (pr_Capabilities peer @ pr_RuntimeCapabilities peer)\<rparr>)))"

fun lookup_loop :: "(string \<Rightarrow> mesh_error + PeerObservation option) \<Rightarrow> string list \<Rightarrow> (string \<Rightarrow> PeerObservation option) \<Rightarrow> mesh_error + (string \<Rightarrow> PeerObservation option)" where
  "lookup_loop observe [] out = Inr out"
| "lookup_loop observe (peerID # peerIDs) out =
     rbind (observe peerID) (\<lambda>ob. lookup_loop observe peerIDs (case ob of None \<Rightarrow> out | Some x \<Rightarrow> out(peerID \<mapsto> x)))"

definition LookupPeers :: "(bytes \<Rightarrow> bytes \<Rightarrow> bytes \<Rightarrow> bool) \<Rightarrow> (string \<Rightarrow> string \<Rightarrow> int64 \<Rightarrow> bytes) \<Rightarrow> (string \<Rightarrow> peerRecord option) option \<Rightarrow> instant \<Rightarrow> string list \<Rightarrow>
    mesh_error + (string \<Rightarrow> PeerObservation option)" where
  "LookupPeers verify payload table now peerIDs =
     (case table of None \<Rightarrow> Inl FetchFailed | Some t \<Rightarrow> lookup_loop (observe_peer verify payload t now) peerIDs (\<lambda>_. None))"

definition LookupPeer :: "(bytes \<Rightarrow> bytes \<Rightarrow> bytes \<Rightarrow> bool) \<Rightarrow> (string \<Rightarrow> string \<Rightarrow> int64 \<Rightarrow> bytes) \<Rightarrow> (string \<Rightarrow> peerRecord option) option \<Rightarrow> instant \<Rightarrow> string \<Rightarrow>
    mesh_error + PeerObservation" where
  "LookupPeer verify payload table now peerID =
     rbind (LookupPeers verify payload table now [peerID]) (\<lambda>obs. case obs peerID of None \<Rightarrow> Inl ErrPeerUnavailable | Some ob \<Rightarrow> Inr ob)"

definition OnlineStatus :: "(string \<Rightarrow> peerRecord option) option \<Rightarrow> string list \<Rightarrow> mesh_error + (string \<Rightarrow> bool option)" where
  "OnlineStatus table peerIDs =
     (case table of
        None \<Rightarrow> Inl FetchFailed
      | Some t \<Rightarrow> Inr (fold (\<lambda>p out. out(p \<mapsto> (case t p of None \<Rightarrow> False | Some r \<Rightarrow> pr_Connected r))) peerIDs (\<lambda>_. None)))"

section \<open>What an observation shows\<close>

lemma lookup_loop_from:
  assumes "lookup_loop observe ids out = Inr obs" and "obs p = Some ob"
  shows "out p = Some ob \<or> (p \<in> set ids \<and> observe p = Inr (Some ob))"
  using assms
proof (induction ids arbitrary: out)
  case (Cons q ids)
  from Cons.prems(1) obtain r where r: "observe q = Inr r" "lookup_loop observe ids (case r of None \<Rightarrow> out | Some x \<Rightarrow> out(q \<mapsto> x)) = Inr obs"
    by (auto elim: rbind_InrE)
  from Cons.IH [OF r(2) Cons.prems(2)] show ?case using r(1) by (auto split: option.splits if_splits)
qed simp

text \<open>An observation of a peer comes from the table's row of that peer: it is connected, and the owner's wallet signed an attestation for this peer.\<close>

lemma LookupPeers_sound:
  assumes ok: "LookupPeers verify payload table now ids = Inr obs" and ob: "obs p = Some ob"
  shows "p \<in> set ids \<and> (\<exists>t r att. table = Some t \<and> t p = Some r \<and> pr_Connected r \<and> pr_IdentityAttestation r = Some att \<and> at_PeerID att = p \<and>
     pr_Owner r = ob_Wallet ob \<and> NormalizeWallet (WalletPubkey att) = Inr (ob_Wallet ob) \<and> VerifyIdentity verify payload (Some att) = Inr ())"
proof -
  obtain t where t: "table = Some t" "lookup_loop (observe_peer verify payload t now) ids (\<lambda>_. None) = Inr obs"
    using ok by (auto simp: LookupPeers_def split: option.splits)
  from lookup_loop_from [OF t(2) ob] have "p \<in> set ids" "observe_peer verify payload t now p = Inr (Some ob)" by auto
  then show ?thesis using t(1) by (auto simp: observe_peer_def split: option.splits sum.splits if_splits)
qed

text \<open>One peer that cannot be verified fails the lookup of every peer asked for with it.\<close>

lemma lookup_fails_together:
  assumes "p \<in> set ids" and "observe_peer verify payload t now p = Inl e"
  shows "\<exists>e. LookupPeers verify payload (Some t) now ids = Inl e"
proof -
  have "\<exists>e. lookup_loop observe ids out = Inl e" if "p \<in> set ids" "observe p = Inl e" for observe :: "string \<Rightarrow> mesh_error + PeerObservation option" and out
    using that
  proof (induction ids arbitrary: out)
    case (Cons q ids)
    then show ?case by (cases "q = p"; cases "observe q") auto
  qed simp
  then show ?thesis using assms by (simp add: LookupPeers_def)
qed

end
