(* ===== verification/Access_Control.thy ===== *)
theory Access_Control
  imports Trusted_Regions Mesh Api_Keys
begin

text \<open>
  The access decision service (\<^verbatim>\<open>internal/aclapi/api.go\<close>): which peers a key may reach, on the permissionless network and inside a trusted region, per peer or per service.

  The store and the mesh are the record \<open>backend\<close> of the two interfaces of the code; \<open>store_backend\<close> builds it from the modelled tables and node table. A request reads each of them at most once per
  principal (\<^verbatim>\<open>principalContext\<close> keeps what it has loaded), so they are functions here. \<open>sha\<close> is the SHA-256 digest, \<open>Verify\<close> the check of a node credential, \<open>limiter\<close> the token bucket of the
  evaluator (floating point, not modelled): it answers the seconds to wait where a caller has to. A decoded body is an argument, \<open>None\<close> where \<^verbatim>\<open>DecodeStrict\<close> fails.

  The lemmas show when exactly a peer is allowed, that a decision for a trusted region is backed by an active membership of the tables, and what the handlers refuse.
\<close>

section \<open>Interfaces\<close>

record ActiveKey =
  ak_KeyID :: int
  ak_UserID :: "string option"
  ak_KeyHash :: string
  ak_KeyPrefix :: string

record backend =
  b_LookupActiveKey :: "string \<Rightarrow> ActiveKey pres"
  b_ListManaged :: "string list \<Rightarrow> InstanceInfo list pres"
  b_GetIdentity :: "string \<Rightarrow> IdentityInfo pres"
  b_GetUserWalletSet :: "string \<Rightarrow> string list pres"
  b_ListWallets :: "string \<Rightarrow> WalletInfo list pres"
  b_LookupPeers :: "string list \<Rightarrow> mesh_error + (string \<Rightarrow> PeerObservation option)"

definition LookupActiveKey :: "key_table \<Rightarrow> string \<Rightarrow> ActiveKey pres" where
  "LookupActiveKey t keyHash =
     (case List.find (\<lambda>k. KeyHash k = keyHash \<and> Active k) (api_keys t) of
        None \<Rightarrow> Inl StoreNotFound
      | Some k \<Rightarrow> Inr \<lparr>ak_KeyID = k_ID k, ak_UserID = k_UserID k, ak_KeyHash = KeyHash k, ak_KeyPrefix = (case k_Prefix k of None \<Rightarrow> [] | Some x \<Rightarrow> x)\<rparr>)"

definition store_backend :: "key_table \<Rightarrow> policy \<Rightarrow> db \<Rightarrow> (string list \<Rightarrow> mesh_error + (string \<Rightarrow> PeerObservation option)) \<Rightarrow> backend" where
  "store_backend t p db lookup = \<lparr>b_LookupActiveKey = LookupActiveKey t, b_ListManaged = (\<lambda>ids. Inr (ListManagedInstancesByPeerIDs p ids)), b_GetIdentity = GetIdentity p,
     b_GetUserWalletSet = (\<lambda>a. Inr (GetUserWalletSet db a)), b_ListWallets = (\<lambda>a. Inr (ListWalletsByUser db a)), b_LookupPeers = lookup\<rparr>"

record NodeClaims =
  cl_Subject :: string
  cl_Role :: string
  cl_Region :: string
  cl_MembershipRevision :: int64

record acl_service =
  internalDigest :: string
  identityMaxAge :: int
  ownershipMaxAge :: int
  cacheTTL :: int

record evaluateV2Request =
  q_KeyHash :: string
  q_Partition :: string
  q_Region :: string
  q_RouteKind :: string
  q_Service :: string
  q_PeerIDs :: "string list"
  q_UpstreamPeerID :: string

record evaluateResponse =
  rs_KeyID :: string
  AllowedPeerIDs :: "string list"
  Denied :: "(string \<times> string) list"
  rs_PrimaryWallet :: string
  CacheTTLSeconds :: int

record decisionScope =
  ds_Partition :: string
  ds_Region :: string
  ds_RouteKind :: string
  ds_Service :: string
  ds_RegionRevision :: int64

record peerDecision =
  pd_PeerID :: string
  Allowed :: bool
  Reason :: string
  pd_PolicyScope :: string
  ServiceExposure :: string
  pd_PolicyRevision :: int64
  pd_ServicePolicyRevision :: int64
  pd_MembershipRevision :: int64
  EvaluatedAt :: instant

record evaluateV2Response =
  r2_KeyID :: string
  r2_PrimaryWallet :: string
  DecisionScope :: decisionScope
  Decisions :: "peerDecision list"

section \<open>Helpers\<close>

definition maxPeerBatch :: nat where
  "maxPeerBatch = 100"

text \<open>The zero time and the saturating difference of two times, in nanoseconds.\<close>

definition zero_time :: instant where
  "zero_time = -62135596800000000000"

definition time_Sub :: "instant \<Rightarrow> instant \<Rightarrow> int" where
  "time_Sub a b = max (-9223372036854775808) (min 9223372036854775807 (a - b))"

definition zero_observation :: PeerObservation where
  "zero_observation = \<lparr>ob_PeerID = [], ob_Wallet = [], ob_ObservedAt = zero_time, ob_Online = False, ob_Services = [], ob_Capabilities = []\<rparr>"

text \<open>Indexing a map of observations.\<close>

definition obs_at :: "(string \<Rightarrow> PeerObservation option) \<Rightarrow> string \<Rightarrow> PeerObservation" where
  "obs_at observations peerID = (case observations peerID of None \<Rightarrow> zero_observation | Some ob \<Rightarrow> ob)"

definition acl_observationFresh :: "acl_service \<Rightarrow> instant \<Rightarrow> PeerObservation \<Rightarrow> bool" where
  "acl_observationFresh s now obs \<longleftrightarrow> ownershipMaxAge s \<le> 0 \<or> time_Sub now (ob_ObservedAt obs) \<le> ownershipMaxAge s"

definition is_hex :: "char \<Rightarrow> bool" where
  "is_hex c \<longleftrightarrow> (let n = of_char c :: nat in 48 \<le> n \<and> n \<le> 57 \<or> 65 \<le> n \<and> n \<le> 70 \<or> 97 \<le> n \<and> n \<le> 102)"

definition validKeyHash :: "string \<Rightarrow> bool" where
  "validKeyHash v \<longleftrightarrow> length v = 64 \<and> ToLower v = v \<and> list_all is_hex v"

fun service_chars :: "nat \<Rightarrow> string \<Rightarrow> bool" where
  "service_chars i [] = True"
| "service_chars i (r # rs) = ((alnum r \<or> i > 0 \<and> (r = CHR ''.'' \<or> r = CHR ''_'' \<or> r = CHR ''-'')) \<and> service_chars (Suc i) rs)"

definition validServiceName :: "string \<Rightarrow> bool" where
  "validServiceName v \<longleftrightarrow> \<not> (length v = 0 \<or> length v > 80) \<and> service_chars 0 v"

definition authorized :: "(string \<Rightarrow> string) \<Rightarrow> acl_service \<Rightarrow> string \<Rightarrow> bool" where
  "authorized sha s authz \<longleftrightarrow> prefix ''Bearer '' authz \<and> sha (drop 7 authz) = internalDigest s"

fun dedupe_loop :: "string list \<Rightarrow> string list \<Rightarrow> string list" where
  "dedupe_loop [] out = out"
| "dedupe_loop (p # ps) out = (let q = TrimSpace p in if q = [] \<or> q \<in> set out then dedupe_loop ps out else dedupe_loop ps (out @ [q]))"

definition dedupePeers :: "string list \<Rightarrow> string list" where
  "dedupePeers peerIDs = sort (dedupe_loop peerIDs [])"

definition findServicePolicy :: "InstanceService list \<Rightarrow> string \<Rightarrow> InstanceService option" where
  "findServicePolicy svcs name = List.find (\<lambda>svc. ServiceName svc = name) svcs"

definition countService :: "PeerObservation \<Rightarrow> string \<Rightarrow> nat" where
  "countService obs name = length (filter (\<lambda>svc. so_Name svc = name) (ob_Services obs))"

section \<open>Memberships\<close>

definition membershipActive :: "RegionMembership option \<Rightarrow> instant \<Rightarrow> bool" where
  "membershipActive membership now \<longleftrightarrow>
     (case membership of
        None \<Rightarrow> False
      | Some m \<Rightarrow> ms_Status m = ''active'' \<and> ms_RegionStatus m = ''active'' \<and> (case ms_ExpiresAt m of None \<Rightarrow> True | Some e \<Rightarrow> now < e))"

definition membershipReason :: "RegionMembership option \<Rightarrow> instant \<Rightarrow> string" where
  "membershipReason membership now =
     (case membership of
        None \<Rightarrow> ''not_region_member''
      | Some m \<Rightarrow>
          if ms_Status m = ''suspended'' then ''membership_suspended''
          else if ms_Status m = ''expired'' then ''membership_expired''
          else if ms_Status m = ''revoked'' then ''membership_revoked''
          else if ms_Status m = ''ownership_mismatch'' then ''ownership_mismatch''
          else if ms_Status m = ''ownership_unavailable'' then ''ownership_unavailable''
          else if (case ms_ExpiresAt m of None \<Rightarrow> False | Some e \<Rightarrow> \<not> now < e) then ''membership_expired''
          else if ms_RegionStatus m \<noteq> ''active'' then ''membership_revoked''
          else ''not_region_member'')"

definition in_region :: "InstanceInfo \<Rightarrow> string \<Rightarrow> bool" where
  "in_region inst region \<longleftrightarrow> (case Membership inst of None \<Rightarrow> False | Some m \<Rightarrow> ms_RegionSlug m = region)"

definition has_role :: "InstanceInfo \<Rightarrow> string list \<Rightarrow> bool" where
  "has_role inst roles \<longleftrightarrow> (case Membership inst of None \<Rightarrow> False | Some m \<Rightarrow> NodeRole m \<in> set roles)"

text \<open>\<open>Inr ()\<close> is the pair of the empty reason and true.\<close>

definition evaluatePeerScoped :: "acl_service \<Rightarrow> instant \<Rightarrow> InstanceInfo \<Rightarrow> PeerObservation \<Rightarrow> string \<Rightarrow> string \<Rightarrow> string \<Rightarrow> string + unit" where
  "evaluatePeerScoped s now inst obs part region routeKind =
     (if \<not> acl_observationFresh s now obs then Inl ''ownership_unavailable''
      else if ob_Wallet obs \<noteq> OwnerWallet inst then Inl ''ownership_mismatch''
      else if part = ''permissionless'' then
        (if Membership inst = None then Inr ()
         else if membershipActive (Membership inst) now \<and> in_region inst region \<and> (routeKind = ''worker'' \<or> routeKind = ''service_ingress'' \<or> routeKind = ''p2p_ingress'')
         then Inl ''trusted_route_required''
         else Inl (membershipReason (Membership inst) now))
      else if \<not> in_region inst region then Inl ''not_region_member''
      else if \<not> membershipActive (Membership inst) now then Inl (membershipReason (Membership inst) now)
      else Inr ())"

definition evaluateTrustedBinding :: "acl_service \<Rightarrow> instant \<Rightarrow> InstanceInfo \<Rightarrow> PeerObservation \<Rightarrow> string \<Rightarrow> string + unit" where
  "evaluateTrustedBinding s now inst obs region =
     (if \<not> in_region inst region then Inl ''not_region_member''
      else if \<not> acl_observationFresh s now obs then Inl ''ownership_unavailable''
      else if ob_Wallet obs \<noteq> OwnerWallet inst then Inl ''ownership_mismatch''
      else if \<not> membershipActive (Membership inst) now then Inl (membershipReason (Membership inst) now)
      else Inr ())"

definition trustedTargetRoleAllowed :: "string \<Rightarrow> bool" where
  "trustedTargetRoleAllowed role \<longleftrightarrow> role = ''worker'' \<or> role = ''combined''"

text \<open>The map yields the zero instance, without membership, for an upstream peer it does not hold.\<close>

definition trustedUpstreamAllowed :: "InstanceInfo option \<Rightarrow> PeerObservation \<Rightarrow> string \<Rightarrow> instant \<Rightarrow> bool" where
  "trustedUpstreamAllowed inst obs region now \<longleftrightarrow>
     (case inst of
        None \<Rightarrow> False
      | Some i \<Rightarrow> in_region i region \<and> membershipActive (Membership i) now \<and> has_role i [''head'', ''combined''] \<and> ob_ObservedAt obs \<noteq> zero_time \<and> ob_Wallet obs = OwnerWallet i)"

section \<open>Access rules\<close>

definition identityValue :: "backend \<Rightarrow> ActiveKey \<Rightarrow> IdentityInfo option pres" where
  "identityValue b key =
     (case ak_UserID key of
        None \<Rightarrow> Inr None
      | Some a \<Rightarrow> (case b_GetIdentity b a of Inl StoreNotFound \<Rightarrow> Inr None | Inl e \<Rightarrow> Inl e | Inr i \<Rightarrow> Inr (Some i)))"

definition walletSetValue :: "backend \<Rightarrow> ActiveKey \<Rightarrow> string list pres" where
  "walletSetValue b key = (case ak_UserID key of None \<Rightarrow> Inr [] | Some a \<Rightarrow> b_GetUserWalletSet b a)"

definition primaryWalletValue :: "backend \<Rightarrow> ActiveKey \<Rightarrow> string" where
  "primaryWalletValue b key =
     (case ak_UserID key of
        None \<Rightarrow> []
      | Some a \<Rightarrow> (case b_ListWallets b a of Inl _ \<Rightarrow> [] | Inr ws \<Rightarrow> (case List.find uw_primary ws of None \<Rightarrow> [] | Some w \<Rightarrow> uw_wallet w)))"

text \<open>The three passes over the rules: whether one matched, \<open>None\<close> where the principal could not be loaded.\<close>

fun key_pass :: "string \<Rightarrow> ACLRule list \<Rightarrow> bool" where
  "key_pass keyPrefix [] = False"
| "key_pass keyPrefix (r # rs) = (if rule_kind r \<noteq> ''api_key'' then key_pass keyPrefix rs else if keyPrefix \<noteq> [] \<and> keyPrefix = rule_value r then True else key_pass keyPrefix rs)"

fun wallet_pass :: "string list pres \<Rightarrow> ACLRule list \<Rightarrow> bool option" where
  "wallet_pass ws [] = Some False"
| "wallet_pass ws (r # rs) =
     (if rule_kind r \<noteq> ''wallet'' then wallet_pass ws rs
      else case ws of Inl _ \<Rightarrow> None | Inr wallets \<Rightarrow> if rule_value r \<in> set wallets then Some True else wallet_pass ws rs)"

definition domain_matches :: "acl_service \<Rightarrow> instant \<Rightarrow> IdentityInfo option \<Rightarrow> string \<Rightarrow> bool" where
  "domain_matches s now identity value \<longleftrightarrow>
     (case identity of
        None \<Rightarrow> False
      | Some i \<Rightarrow> idn_EmailVerified i \<and> idn_EmailDomain i = value \<and> LastVerifiedAt i \<noteq> zero_time \<and> time_Sub now (LastVerifiedAt i) \<le> identityMaxAge s)"

fun domain_pass :: "acl_service \<Rightarrow> instant \<Rightarrow> IdentityInfo option pres \<Rightarrow> ACLRule list \<Rightarrow> bool option" where
  "domain_pass s now idn [] = Some False"
| "domain_pass s now idn (r # rs) =
     (if rule_kind r \<noteq> ''email_domain'' then domain_pass s now idn rs
      else case idn of Inl _ \<Rightarrow> None | Inr i \<Rightarrow> if domain_matches s now i (rule_value r) then Some True else domain_pass s now idn rs)"

text \<open>An access decision: allowed with its reason, or the status of the failure.\<close>

type_synonym acl_result = "int + (bool \<times> string)"

definition applyRules :: "acl_service \<Rightarrow> backend \<Rightarrow> instant \<Rightarrow> ActiveKey \<Rightarrow> ACLRule list \<Rightarrow> acl_result" where
  "applyRules s b now key rules =
     (let m1 = key_pass (ak_KeyPrefix key) rules;
          m2 = (if m1 then Some True else wallet_pass (walletSetValue b key) rules);
          m3 = (if m2 = Some True then Some True else domain_pass s now (identityValue b key) rules) in
      if m2 = None \<or> m3 = None then Inl 503
      else if m3 = Some True then Inr (True, ''instance_acl_allow'')
      else Inr (False, ''no_match''))"

definition applyInstanceACL :: "acl_service \<Rightarrow> backend \<Rightarrow> instant \<Rightarrow> ActiveKey \<Rightarrow> string \<Rightarrow> string \<Rightarrow> ACLRule list \<Rightarrow> acl_result" where
  "applyInstanceACL s b now key accessMode owner rules =
     (if accessMode = ''public'' then Inr (True, ''instance_acl_allow'')
      else if accessMode = ''restricted'' then
        (if ak_UserID key = Some owner then Inr (True, ''instance_acl_allow'') else applyRules s b now key rules)
      else Inr (False, ''no_match''))"

definition applyServiceACL :: "acl_service \<Rightarrow> backend \<Rightarrow> instant \<Rightarrow> ActiveKey \<Rightarrow> InstanceInfo \<Rightarrow> InstanceService \<Rightarrow> acl_result" where
  "applyServiceACL s b now key inst service =
     (if svc_AccessMode service = ''inherit'' then applyInstanceACL s b now key (in_AccessMode inst) (in_AccountID inst) (in_Rules inst)
      else if svc_AccessMode service = ''public'' then Inr (True, ''instance_acl_allow'')
      else if svc_AccessMode service = ''restricted'' then
        (if ak_UserID key = Some (in_AccountID inst) then Inr (True, ''instance_acl_allow'') else applyRules s b now key (svc_Rules service))
      else Inr (False, ''no_match''))"

section \<open>Loading\<close>

text \<open>An HTTP failure: the status and the message.\<close>

type_synonym 'a http = "(int \<times> string) + 'a"

definition unavailable :: "int \<times> string" where
  "unavailable = (503, ''service unavailable'')"

definition unauthorized :: "int \<times> string" where
  "unauthorized = (401, ''unauthorized'')"

definition query_ids :: "string list \<Rightarrow> NodeClaims option \<Rightarrow> string list" where
  "query_ids ids claims = ids @ (case claims of None \<Rightarrow> [] | Some c \<Rightarrow> if cl_Subject c \<noteq> [] then [cl_Subject c] else [])"

definition loadEvaluationState :: "backend \<Rightarrow> string \<Rightarrow> string list \<Rightarrow> NodeClaims option \<Rightarrow>
    (ActiveKey \<times> (string \<Rightarrow> InstanceInfo option) \<times> (string \<Rightarrow> PeerObservation option)) http" where
  "loadEvaluationState b keyHash peerIDs claims =
     (case b_LookupActiveKey b keyHash of
        Inl StoreNotFound \<Rightarrow> Inl unauthorized
      | Inl _ \<Rightarrow> Inl unavailable
      | Inr key \<Rightarrow>
          case b_ListManaged b (dedupePeers (query_ids peerIDs claims)) of
            Inl _ \<Rightarrow> Inl unavailable
          | Inr managed \<Rightarrow>
              let peers = fold (\<lambda>inst m. m(in_PeerID inst \<mapsto> inst)) managed (\<lambda>_. None) in
              if managed = [] then Inr (key, peers, \<lambda>_. None)
              else case b_LookupPeers b (map in_PeerID managed) of Inl _ \<Rightarrow> Inl unavailable | Inr observations \<Rightarrow> Inr (key, peers, observations))"

section \<open>Version 1\<close>

text \<open>One peer: the answer it is added to, or the failure.\<close>

definition v1_peer :: "acl_service \<Rightarrow> backend \<Rightarrow> instant \<Rightarrow> ActiveKey \<Rightarrow> (string \<Rightarrow> InstanceInfo option) \<Rightarrow> (string \<Rightarrow> PeerObservation option) \<Rightarrow> string \<Rightarrow>
    evaluateResponse \<Rightarrow> evaluateResponse http" where
  "v1_peer s b now key peers observations peerID resp =
     (let deny = (\<lambda>reason. Inr (resp\<lparr>Denied := Denied resp @ [(peerID, reason)]\<rparr>)); allow = Inr (resp\<lparr>AllowedPeerIDs := AllowedPeerIDs resp @ [peerID]\<rparr>) in
      case peers peerID of
        None \<Rightarrow> allow
      | Some inst \<Rightarrow>
          if PolicyScope inst = PolicyScopeService then deny ''service_context_required''
          else case evaluatePeerScoped s now inst (obs_at observations peerID) ''permissionless'' [] ''service_ingress'' of
            Inl reason \<Rightarrow> deny reason
          | Inr _ \<Rightarrow>
              (case applyInstanceACL s b now key (in_AccessMode inst) (in_AccountID inst) (in_Rules inst) of
                 Inl status \<Rightarrow> Inl (status, ''service unavailable'')
               | Inr (allowed, reason) \<Rightarrow> if allowed then allow else deny reason))"

fun v1_loop :: "(string \<Rightarrow> evaluateResponse \<Rightarrow> evaluateResponse http) \<Rightarrow> string list \<Rightarrow> evaluateResponse \<Rightarrow> evaluateResponse http" where
  "v1_loop step [] resp = Inr resp"
| "v1_loop step (p # ps) resp = rbind (step p resp) (v1_loop step ps)"

definition evaluateV1 :: "acl_service \<Rightarrow> backend \<Rightarrow> instant \<Rightarrow> string \<Rightarrow> string list \<Rightarrow> evaluateResponse http" where
  "evaluateV1 s b now keyHash peerIDs =
     rbind (loadEvaluationState b keyHash peerIDs None) (\<lambda>(key, peers, observations).
     rbind (v1_loop (v1_peer s b now key peers observations) peerIDs
              \<lparr>rs_KeyID = itoa (ak_KeyID key), AllowedPeerIDs = [], Denied = [], rs_PrimaryWallet = [], CacheTTLSeconds = go_quot (cacheTTL s) 1000000000\<rparr>) (\<lambda>resp.
       Inr (resp\<lparr>rs_PrimaryWallet := primaryWalletValue b key\<rparr>)))"

definition HandlerV1 :: "(string \<Rightarrow> string) \<Rightarrow> acl_service \<Rightarrow> backend \<Rightarrow> instant \<Rightarrow> string \<Rightarrow> string \<Rightarrow> (string \<times> string list) option \<Rightarrow> evaluateResponse http" where
  "HandlerV1 sha s b now httpMethod authz body =
     (if httpMethod \<noteq> ''POST'' then Inl (405, ''method not allowed'')
      else if \<not> authorized sha s authz then Inl unauthorized
      else case body of
        None \<Rightarrow> Inl (400, ''invalid JSON body'')
      | Some (keyHash, ids) \<Rightarrow>
          if \<not> validKeyHash keyHash then Inl (400, ''invalid key hash'')
          else let peerIDs = dedupePeers ids in
            if peerIDs = [] \<or> length peerIDs > maxPeerBatch then Inl (400, ''invalid peer_ids'')
            else evaluateV1 s b now keyHash peerIDs)"

section \<open>Version 2\<close>

definition membership_revision :: "InstanceInfo \<Rightarrow> peerDecision \<Rightarrow> peerDecision" where
  "membership_revision inst d = (case Membership inst of None \<Rightarrow> d | Some m \<Rightarrow> d\<lparr>pd_MembershipRevision := MembershipRevision m\<rparr>)"

definition deny_with :: "string \<Rightarrow> peerDecision \<Rightarrow> peerDecision" where
  "deny_with reason d = d\<lparr>Allowed := False, Reason := reason\<rparr>"

definition acl_failure :: "int \<Rightarrow> string" where
  "acl_failure status = (if status = 401 then ''unauthorized'' else ''service_unavailable'')"

definition evaluatePeerScopedDecision :: "acl_service \<Rightarrow> backend \<Rightarrow> instant \<Rightarrow> ActiveKey \<Rightarrow> evaluateV2Request \<Rightarrow> InstanceInfo \<Rightarrow> PeerObservation \<Rightarrow> peerDecision \<Rightarrow> bool \<Rightarrow> peerDecision" where
  "evaluatePeerScopedDecision s b now key req inst obs d workerUpstreamAllowed =
     (case evaluatePeerScoped s now inst obs (q_Partition req) (q_Region req) (q_RouteKind req) of
        Inl reason \<Rightarrow> membership_revision inst (deny_with reason d)
      | Inr _ \<Rightarrow>
          if q_Partition req = ''trusted_region'' \<and> q_RouteKind req = ''worker'' \<and> \<not> workerUpstreamAllowed then deny_with ''untrusted_upstream'' d
          else if q_Partition req = ''trusted_region'' \<and> \<not> (case Membership inst of None \<Rightarrow> False | Some m \<Rightarrow> trustedTargetRoleAllowed (NodeRole m)) then deny_with ''wrong_role'' d
          else case applyInstanceACL s b now key (in_AccessMode inst) (in_AccountID inst) (in_Rules inst) of
            Inl status \<Rightarrow> deny_with (acl_failure status) d
          | Inr (allowed, reason) \<Rightarrow> membership_revision inst (d\<lparr>Allowed := allowed, Reason := reason\<rparr>))"

definition evaluateServiceScopedDecision :: "acl_service \<Rightarrow> backend \<Rightarrow> instant \<Rightarrow> ActiveKey \<Rightarrow> evaluateV2Request \<Rightarrow> InstanceInfo \<Rightarrow> PeerObservation \<Rightarrow> peerDecision \<Rightarrow> bool \<Rightarrow> peerDecision" where
  "evaluateServiceScopedDecision s b now key req inst obs d0 workerUpstreamAllowed =
     (let d = d0\<lparr>ServiceExposure := []\<rparr> in
      if q_Service req = [] then deny_with ''service_context_required'' d
      else if countService obs (q_Service req) > 1 then deny_with ''duplicate_service_name'' d
      else case findServicePolicy (Services inst) (q_Service req) of
        None \<Rightarrow> deny_with ''service_undeclared'' d
      | Some service \<Rightarrow>
          let d1 = d\<lparr>ServiceExposure := Exposure service, pd_ServicePolicyRevision := ServicePolicyRevision service\<rparr>;
              final = (case applyServiceACL s b now key inst service of
                         Inl status \<Rightarrow> deny_with (acl_failure status) d1
                       | Inr (allowed, reason) \<Rightarrow> membership_revision inst (d1\<lparr>Allowed := allowed, Reason := reason\<rparr>)) in
          if Exposure service = ExposureDisabled then deny_with ''service_disabled'' d1
          else if q_Partition req = ''permissionless'' \<and> Exposure service = ExposureTrustedRegion then deny_with ''trusted_route_required'' d1
          else if q_Partition req = ''trusted_region'' \<and> Exposure service = ExposurePermissionless then deny_with ''partition_mismatch'' d1
          else if Exposure service = ExposureTrustedRegion then
            (case evaluateTrustedBinding s now inst obs (q_Region req) of
               Inl reason \<Rightarrow> membership_revision inst (deny_with reason d1)
             | Inr _ \<Rightarrow>
                 if q_RouteKind req = ''worker'' \<and> \<not> workerUpstreamAllowed then deny_with ''untrusted_upstream'' d1
                 else if \<not> (case Membership inst of None \<Rightarrow> False | Some m \<Rightarrow> trustedTargetRoleAllowed (NodeRole m)) then deny_with ''wrong_role'' d1
                 else final)
          else final)"

text \<open>\<open>None\<close> is success. In the worker route every branch about the upstream peer answers success, so they are one.\<close>

definition authorizeTrustedRequester :: "acl_service \<Rightarrow> instant \<Rightarrow> (string \<Rightarrow> InstanceInfo option) \<Rightarrow> (string \<Rightarrow> PeerObservation option) \<Rightarrow> evaluateV2Request \<Rightarrow> NodeClaims option \<Rightarrow>
    (int \<times> string) option" where
  "authorizeTrustedRequester s now peers observations req claims =
     (case claims of
        None \<Rightarrow> Some unauthorized
      | Some c \<Rightarrow>
          case peers (cl_Subject c) of
            None \<Rightarrow> Some unavailable
          | Some subject \<Rightarrow>
              (case Membership subject of
                 None \<Rightarrow> Some unavailable
               | Some m \<Rightarrow>
                   if cl_Region c \<noteq> q_Region req \<or> ms_RegionSlug m \<noteq> q_Region req \<or> \<not> membershipActive (Some m) now then Some unavailable
                   else if MembershipRevision m \<noteq> cl_MembershipRevision c then Some unavailable
                   else if cl_Role c \<noteq> NodeRole m then Some (403, ''role mismatch'')
                   else
                     let obs = obs_at observations (cl_Subject c) in
                     if \<not> acl_observationFresh s now obs \<or> ob_Wallet obs \<noteq> OwnerWallet subject then Some unavailable
                     else if q_RouteKind req = ''worker'' then
                       (if q_PeerIDs req \<noteq> [cl_Subject c] then Some unavailable
                        else if cl_Role c \<noteq> ''worker'' \<and> cl_Role c \<noteq> ''combined'' then Some unavailable
                        else None)
                     else if cl_Role c \<noteq> ''head'' \<and> cl_Role c \<noteq> ''combined'' then Some unavailable
                     else None))"

definition blank_decision :: "string \<Rightarrow> bool \<Rightarrow> string \<Rightarrow> instant \<Rightarrow> peerDecision" where
  "blank_decision peerID allowed reason now = \<lparr>pd_PeerID = peerID, Allowed = allowed, Reason = reason, pd_PolicyScope = [], ServiceExposure = [], pd_PolicyRevision = 0,
     pd_ServicePolicyRevision = 0, pd_MembershipRevision = 0, EvaluatedAt = now\<rparr>"

definition decide_peer :: "acl_service \<Rightarrow> backend \<Rightarrow> instant \<Rightarrow> ActiveKey \<Rightarrow> evaluateV2Request \<Rightarrow> (string \<Rightarrow> InstanceInfo option) \<Rightarrow> (string \<Rightarrow> PeerObservation option) \<Rightarrow> bool \<Rightarrow>
    string \<Rightarrow> peerDecision" where
  "decide_peer s b now key req peers observations workerUpstreamAllowed peerID =
     (case peers peerID of
        None \<Rightarrow> blank_decision peerID (q_Partition req = ''permissionless'') ''unmanaged'' now
      | Some inst \<Rightarrow>
          let obs = obs_at observations peerID;
              d = (blank_decision peerID False [] now)\<lparr>pd_PolicyScope := PolicyScope inst, pd_PolicyRevision := PolicyRevision inst\<rparr> in
          if PolicyScope inst = PolicyScopeService then evaluateServiceScopedDecision s b now key req inst obs d workerUpstreamAllowed
          else evaluatePeerScopedDecision s b now key req inst obs d workerUpstreamAllowed)"

definition scope_revision :: "(string \<Rightarrow> InstanceInfo option) \<Rightarrow> string list \<Rightarrow> int64" where
  "scope_revision peers peerIDs =
     fold (\<lambda>p rev. case peers p of None \<Rightarrow> rev | Some inst \<Rightarrow> (case Membership inst of None \<Rightarrow> rev | Some m \<Rightarrow> if rev = 0 then ms_RegionRevision m else rev)) peerIDs 0"

definition worker_upstream :: "evaluateV2Request \<Rightarrow> (string \<Rightarrow> InstanceInfo option) \<Rightarrow> (string \<Rightarrow> PeerObservation option) \<Rightarrow> instant \<Rightarrow> bool" where
  "worker_upstream req peers observations now \<longleftrightarrow>
     \<not> (q_Partition req = ''trusted_region'' \<and> q_RouteKind req = ''worker'') \<or>
     trustedUpstreamAllowed (peers (q_UpstreamPeerID req)) (obs_at observations (q_UpstreamPeerID req)) (q_Region req) now"

definition evaluateV2 :: "acl_service \<Rightarrow> backend \<Rightarrow> instant \<Rightarrow> evaluateV2Request \<Rightarrow> NodeClaims option \<Rightarrow> evaluateV2Response http" where
  "evaluateV2 s b now req claims =
     rbind (loadEvaluationState b (q_KeyHash req) (q_PeerIDs req) claims) (\<lambda>(key, peers, observations).
     case (if q_Partition req = ''trusted_region'' then authorizeTrustedRequester s now peers observations req claims else None) of
       Some failure \<Rightarrow> Inl failure
     | None \<Rightarrow>
         let up = worker_upstream req peers observations now in
         Inr \<lparr>r2_KeyID = itoa (ak_KeyID key), r2_PrimaryWallet = primaryWalletValue b key,
              DecisionScope = \<lparr>ds_Partition = q_Partition req, ds_Region = q_Region req, ds_RouteKind = q_RouteKind req, ds_Service = q_Service req,
                               ds_RegionRevision = scope_revision peers (q_PeerIDs req)\<rparr>,
              Decisions = map (decide_peer s b now key req peers observations up) (q_PeerIDs req)\<rparr>)"

text \<open>The handler validates normalised copies of the partition, the route kind and the peers; the evaluation gets the request itself.\<close>

definition HandlerV2 :: "(string \<Rightarrow> string) \<Rightarrow> (string \<Rightarrow> NodeClaims option) option \<Rightarrow> (string \<Rightarrow> int option) \<Rightarrow> acl_service \<Rightarrow> backend \<Rightarrow> instant \<Rightarrow> string \<Rightarrow> string \<Rightarrow>
    evaluateV2Request option \<Rightarrow> evaluateV2Response http" where
  "HandlerV2 sha nodeVerifier limiter s b now httpMethod authz body =
     (if httpMethod \<noteq> ''POST'' then Inl (405, ''method not allowed'')
      else case body of
        None \<Rightarrow> Inl (400, ''invalid JSON body'')
      | Some req0 \<Rightarrow>
          let part = ToLower (TrimSpace (q_Partition req0)); routeKind = ToLower (TrimSpace (q_RouteKind req0)) in
          if \<not> validKeyHash (q_KeyHash req0) then Inl (400, ''invalid key hash'')
          else if part \<noteq> ''permissionless'' \<and> part \<noteq> ''trusted_region'' then Inl (400, ''invalid partition'')
          else if routeKind \<noteq> ''service_ingress'' \<and> routeKind \<noteq> ''p2p_ingress'' \<and> routeKind \<noteq> ''worker'' then Inl (400, ''invalid route_kind'')
          else if \<not> validServiceName (q_Service req0) then Inl (400, ''invalid service'')
          else if part = ''trusted_region'' \<and> TrimSpace (q_Region req0) = [] then Inl (400, ''invalid region'')
          else
            let req = (if part = ''permissionless'' then req0\<lparr>q_Region := []\<rparr> else req0); peerIDs = dedupePeers (q_PeerIDs req) in
            if routeKind = ''worker'' \<and> TrimSpace (q_UpstreamPeerID req) = [] then Inl (400, ''invalid upstream_peer_id'')
            else if peerIDs = [] \<or> length peerIDs > maxPeerBatch then Inl (400, ''invalid peer_ids'')
            else
              let rawAuth = TrimSpace (if prefix ''Bearer '' authz then drop 7 authz else authz) in
              rbind (if part = ''permissionless'' then (if authorized sha s authz then Inr None else Inl unauthorized)
                     else case nodeVerifier of
                       None \<Rightarrow> Inl unavailable
                     | Some Verify \<Rightarrow> (case Verify rawAuth of None \<Rightarrow> Inl unauthorized | Some c \<Rightarrow> Inr (Some c))) (\<lambda>claims.
              let rateKey = (case claims of Some c \<Rightarrow> ''peer:'' @ cl_Subject c | None \<Rightarrow> q_KeyHash req) in
              case limiter rateKey of
                Some retryAfter \<Rightarrow> Inl (429, ''rate limit exceeded'')
              | None \<Rightarrow> evaluateV2 s b now req claims))"

section \<open>Specification\<close>

text \<open>What a rule, an access mode and a policy grant, read off the tables.\<close>

definition rule_grants :: "acl_service \<Rightarrow> policy \<Rightarrow> db \<Rightarrow> instant \<Rightarrow> ActiveKey \<Rightarrow> ACLRule \<Rightarrow> bool" where
  "rule_grants s p db now key r \<longleftrightarrow>
     rule_kind r = ''api_key'' \<and> rule_value r \<noteq> [] \<and> rule_value r = ak_KeyPrefix key \<or>
     rule_kind r = ''wallet'' \<and> (\<exists>a. ak_UserID key = Some a \<and> (a, rule_value r) \<in> wallet_links (user_wallets db)) \<or>
     rule_kind r = ''email_domain'' \<and> (\<exists>a i. ak_UserID key = Some a \<and> find_row idn_AccountID a (identities p) = Some i \<and> domain_matches s now (Some i) (rule_value r))"

definition access_granted :: "acl_service \<Rightarrow> policy \<Rightarrow> db \<Rightarrow> instant \<Rightarrow> ActiveKey \<Rightarrow> string \<Rightarrow> string \<Rightarrow> ACLRule list \<Rightarrow> bool" where
  "access_granted s p db now key mode owner rules \<longleftrightarrow>
     mode = ''public'' \<or> mode = ''restricted'' \<and> (ak_UserID key = Some owner \<or> (\<exists>r\<in>set rules. rule_grants s p db now key r))"

definition service_granted :: "acl_service \<Rightarrow> policy \<Rightarrow> db \<Rightarrow> instant \<Rightarrow> ActiveKey \<Rightarrow> InstanceInfo \<Rightarrow> InstanceService \<Rightarrow> bool" where
  "service_granted s p db now key inst svc \<longleftrightarrow>
     (if svc_AccessMode svc = ''inherit'' then access_granted s p db now key (in_AccessMode inst) (in_AccountID inst) (in_Rules inst)
      else access_granted s p db now key (svc_AccessMode svc) (in_AccountID inst) (svc_Rules svc))"

definition owner_verified :: "acl_service \<Rightarrow> instant \<Rightarrow> InstanceInfo \<Rightarrow> PeerObservation \<Rightarrow> bool" where
  "owner_verified s now inst obs \<longleftrightarrow> acl_observationFresh s now obs \<and> ob_Wallet obs = OwnerWallet inst"

definition trusted_target :: "acl_service \<Rightarrow> instant \<Rightarrow> evaluateV2Request \<Rightarrow> InstanceInfo \<Rightarrow> PeerObservation \<Rightarrow> bool \<Rightarrow> bool" where
  "trusted_target s now req inst obs up \<longleftrightarrow> owner_verified s now inst obs \<and> in_region inst (q_Region req) \<and> membershipActive (Membership inst) now \<and>
     has_role inst [''worker'', ''combined''] \<and> (q_RouteKind req = ''worker'' \<longrightarrow> up)"

definition permitted :: "acl_service \<Rightarrow> policy \<Rightarrow> db \<Rightarrow> instant \<Rightarrow> ActiveKey \<Rightarrow> evaluateV2Request \<Rightarrow> InstanceInfo \<Rightarrow> PeerObservation \<Rightarrow> bool \<Rightarrow> bool" where
  "permitted s p db now key req inst obs up \<longleftrightarrow>
     (if PolicyScope inst = PolicyScopeService then
        q_Service req \<noteq> [] \<and> countService obs (q_Service req) \<le> 1 \<and>
        (case findServicePolicy (Services inst) (q_Service req) of
           None \<Rightarrow> False
         | Some svc \<Rightarrow>
             (if q_Partition req = ''permissionless'' then Exposure svc = ExposurePermissionless
              else Exposure svc = ExposureTrustedRegion \<and> trusted_target s now req inst obs up) \<and>
             service_granted s p db now key inst svc)
      else
        (if q_Partition req = ''permissionless'' then owner_verified s now inst obs \<and> Membership inst = None else trusted_target s now req inst obs up) \<and>
        access_granted s p db now key (in_AccessMode inst) (in_AccountID inst) (in_Rules inst))"

text \<open>A membership of the tables that counts: active, in an active region of that name, not expired, in one of the roles.\<close>

definition region_member :: "policy \<Rightarrow> instant \<Rightarrow> string \<Rightarrow> string list \<Rightarrow> InstanceInfo \<Rightarrow> bool" where
  "region_member p now slug roles i \<longleftrightarrow>
     (\<exists>m\<in>set (memberships p). \<exists>r\<in>set (regions p). ms_InstanceID m = in_ID i \<and> rg_ID r = ms_RegionID m \<and> Slug r = slug \<and> rg_Status r = ''active'' \<and> ms_Status m = ''active'' \<and>
        (case ms_ExpiresAt m of None \<Rightarrow> True | Some e \<Rightarrow> now < e) \<and> NodeRole m \<in> set roles)"

text \<open>The backend of the service on the tables that a history of transactions leaves.\<close>

definition live_policy :: "(string \<Rightarrow> string) \<Rightarrow> bool \<Rightarrow> policy_op list \<Rightarrow> policy" where
  "live_policy h gap ops = fst (run_ops (exec_policy h gap) ops (empty_policy, empty_db))"

definition live_wallets :: "(string \<Rightarrow> string) \<Rightarrow> bool \<Rightarrow> policy_op list \<Rightarrow> db" where
  "live_wallets h gap ops = snd (run_ops (exec_policy h gap) ops (empty_policy, empty_db))"

definition live_backend :: "(string \<Rightarrow> string) \<Rightarrow> bool \<Rightarrow> policy_op list \<Rightarrow> key_table \<Rightarrow> (string list \<Rightarrow> mesh_error + (string \<Rightarrow> PeerObservation option)) \<Rightarrow> backend" where
  "live_backend h gap ops t lookup = store_backend t (live_policy h gap ops) (live_wallets h gap ops) lookup"

text \<open>The decisions the tables call for, peer by peer.\<close>

definition expected_decisions :: "acl_service \<Rightarrow> backend \<Rightarrow> policy \<Rightarrow> db \<Rightarrow> instant \<Rightarrow> evaluateV2Request \<Rightarrow> NodeClaims option \<Rightarrow> bool list" where
  "expected_decisions s b p db now req claims =
     (case loadEvaluationState b (q_KeyHash req) (q_PeerIDs req) claims of
        Inl _ \<Rightarrow> []
      | Inr (key, peers, observations) \<Rightarrow>
          map (\<lambda>q. case peers q of
                 None \<Rightarrow> q_Partition req = ''permissionless''
               | Some inst \<Rightarrow> permitted s p db now key req inst (obs_at observations q) (worker_upstream req peers observations now)) (q_PeerIDs req))"

text \<open>An example: the history of \<^verbatim>\<open>Trusted_Regions\<close>, a key of the owner, and a peer observed with its wallet.\<close>

definition demo_acl_service :: acl_service where
  "demo_acl_service = \<lparr>internalDigest = ''token'', identityMaxAge = 100, ownershipMaxAge = 100, cacheTTL = 60000000000\<rparr>"

definition demo_hash :: string where
  "demo_hash = replicate 64 (CHR ''a'')"

definition demo_keys :: key_table where
  "demo_keys = \<lparr>api_keys = [\<lparr>k_ID = 7, KeyHash = demo_hash, k_UserID = Some ''acct'', k_Name = None, k_Prefix = Some ''sk-aaaaaaaa'', Active = True, k_CreatedAt = 0, RevokedAt = None\<rparr>], next_id = 8\<rparr>"

definition demo_lookup :: "string list \<Rightarrow> mesh_error + (string \<Rightarrow> PeerObservation option)" where
  "demo_lookup ids = Inr (\<lambda>q. if q = ''peer1'' then Some \<lparr>ob_PeerID = ''peer1'', ob_Wallet = ''wallet1'', ob_ObservedAt = 6, ob_Online = True,
     ob_Services = [\<lparr>so_Name = ''llm'', IdentityGroups = []\<rparr>], ob_Capabilities = []\<rparr> else None)"

definition demo_backend :: backend where
  "demo_backend = live_backend (\<lambda>x. x) False demo_policy_ops demo_keys demo_lookup"

definition demo_claims :: NodeClaims where
  "demo_claims = \<lparr>cl_Subject = ''peer1'', cl_Role = ''combined'', cl_Region = ''eu-1'', cl_MembershipRevision = 1\<rparr>"

definition demo_request :: evaluateV2Request where
  "demo_request = \<lparr>q_KeyHash = demo_hash, q_Partition = ''trusted_region'', q_Region = ''eu-1'', q_RouteKind = ''service_ingress'', q_Service = ''llm'', q_PeerIDs = [''peer1''],
     q_UpstreamPeerID = []\<rparr>"

definition demo_worker_request :: evaluateV2Request where
  "demo_worker_request = demo_request\<lparr>q_RouteKind := ''worker'', q_UpstreamPeerID := ''head1''\<rparr>"

definition stranger_claims :: NodeClaims where
  "stranger_claims = \<lparr>cl_Subject = ''peer9'', cl_Role = ''worker'', cl_Region = ''us-1'', cl_MembershipRevision = 3\<rparr>"

definition demo_handler :: "evaluateV2Request \<Rightarrow> bool list http" where
  "demo_handler req = map_sum id (\<lambda>r. map Allowed (Decisions r))
     (HandlerV2 (\<lambda>x. x) (Some (\<lambda>_. Some stranger_claims)) (\<lambda>_. None) demo_acl_service demo_backend 7 ''POST'' ''Bearer credential'' (Some req))"

section \<open>The rules\<close>

lemma key_pass_iff: "key_pass k rules \<longleftrightarrow> (\<exists>r\<in>set rules. rule_kind r = ''api_key'' \<and> k \<noteq> [] \<and> rule_value r = k)"
  by (induction rules) auto

lemma wallet_pass_loaded: "wallet_pass (Inr ws) rules = Some (\<exists>r\<in>set rules. rule_kind r = ''wallet'' \<and> rule_value r \<in> set ws)"
  by (induction rules) auto

lemma domain_pass_loaded: "domain_pass s now (Inr i) rules = Some (\<exists>r\<in>set rules. rule_kind r = ''email_domain'' \<and> domain_matches s now i (rule_value r))"
  by (induction rules) auto

lemma wallets_loaded: "\<exists>ws. walletSetValue (store_backend t p db lookup) key = Inr ws \<and> (\<forall>w. w \<in> set ws \<longleftrightarrow> (\<exists>a. ak_UserID key = Some a \<and> (a, w) \<in> wallet_links (user_wallets db)))"
  by (cases "ak_UserID key") (auto simp: walletSetValue_def store_backend_def GetUserWalletSet_def wallet_links_def)

lemma identity_loaded:
  "\<exists>i. identityValue (store_backend t p db lookup) key = Inr i \<and>
     (\<forall>v. domain_matches s now i v \<longleftrightarrow> (\<exists>a j. ak_UserID key = Some a \<and> find_row idn_AccountID a (identities p) = Some j \<and> domain_matches s now (Some j) v))"
  by (cases "ak_UserID key") (auto simp: identityValue_def store_backend_def GetIdentity_def domain_matches_def split: option.splits)

lemma applyRules_store:
  "\<exists>reason. applyRules s (store_backend t p db lookup) now key rules = Inr (\<exists>r\<in>set rules. rule_grants s p db now key r, reason)"
proof -
  obtain ws where ws: "walletSetValue (store_backend t p db lookup) key = Inr ws"
    "\<And>w. w \<in> set ws \<longleftrightarrow> (\<exists>a. ak_UserID key = Some a \<and> (a, w) \<in> wallet_links (user_wallets db))" using wallets_loaded by metis
  obtain i where i: "identityValue (store_backend t p db lookup) key = Inr i"
    "\<And>v. domain_matches s now i v \<longleftrightarrow> (\<exists>a j. ak_UserID key = Some a \<and> find_row idn_AccountID a (identities p) = Some j \<and> domain_matches s now (Some j) v)"
    using identity_loaded by metis
  have "(\<exists>r\<in>set rules. rule_grants s p db now key r) \<longleftrightarrow> key_pass (ak_KeyPrefix key) rules \<or>
      (\<exists>r\<in>set rules. rule_kind r = ''wallet'' \<and> rule_value r \<in> set ws) \<or> (\<exists>r\<in>set rules. rule_kind r = ''email_domain'' \<and> domain_matches s now i (rule_value r))"
    unfolding rule_grants_def key_pass_iff ws(2) i(2) by (auto 4 4)
  then show ?thesis by (auto simp: applyRules_def Let_def ws(1) i(1) wallet_pass_loaded domain_pass_loaded)
qed

lemma applyInstanceACL_store:
  "\<exists>reason. applyInstanceACL s (store_backend t p db lookup) now key mode owner rules = Inr (access_granted s p db now key mode owner rules, reason)"
  using applyRules_store [of s t p db lookup now key rules] by (auto simp: applyInstanceACL_def access_granted_def)

lemma applyServiceACL_store:
  "\<exists>reason. applyServiceACL s (store_backend t p db lookup) now key inst svc = Inr (service_granted s p db now key inst svc, reason)"
  using applyInstanceACL_store [of s t p db lookup now key "in_AccessMode inst" "in_AccountID inst" "in_Rules inst"] applyRules_store [of s t p db lookup now key "svc_Rules svc"]
  by (auto simp: applyServiceACL_def service_granted_def access_granted_def)

section \<open>Decisions\<close>

lemma evaluatePeerScoped_iff:
  "evaluatePeerScoped s now inst obs part region routeKind = Inr () \<longleftrightarrow>
     owner_verified s now inst obs \<and> (if part = ''permissionless'' then Membership inst = None else in_region inst region \<and> membershipActive (Membership inst) now)"
  by (auto simp: evaluatePeerScoped_def owner_verified_def)

lemma evaluateTrustedBinding_iff:
  "evaluateTrustedBinding s now inst obs region = Inr () \<longleftrightarrow> owner_verified s now inst obs \<and> in_region inst region \<and> membershipActive (Membership inst) now"
  by (auto simp: evaluateTrustedBinding_def owner_verified_def)

lemma target_role: "(case Membership inst of None \<Rightarrow> False | Some m \<Rightarrow> trustedTargetRoleAllowed (NodeRole m)) = has_role inst [''worker'', ''combined'']"
  by (auto simp: has_role_def trustedTargetRoleAllowed_def split: option.splits)

lemma decision_fields: "Allowed (deny_with reason d) = False" "Allowed (membership_revision inst d) = Allowed d"
  by (simp_all add: deny_with_def membership_revision_def split: option.splits)

lemma peer_decision_iff:
  assumes "PolicyScope inst \<noteq> PolicyScopeService" and "q_Partition req \<in> {''permissionless'', ''trusted_region''}"
  shows "Allowed (evaluatePeerScopedDecision s (store_backend t p db lookup) now key req inst obs d up) = permitted s p db now key req inst obs up"
proof -
  obtain reason where acl: "applyInstanceACL s (store_backend t p db lookup) now key (in_AccessMode inst) (in_AccountID inst) (in_Rules inst) =
      Inr (access_granted s p db now key (in_AccessMode inst) (in_AccountID inst) (in_Rules inst), reason)" using applyInstanceACL_store by blast
  show ?thesis
  proof (cases "evaluatePeerScoped s now inst obs (q_Partition req) (q_Region req) (q_RouteKind req)")
    case (Inl e)
    then have "evaluatePeerScoped s now inst obs (q_Partition req) (q_Region req) (q_RouteKind req) \<noteq> Inr ()" by simp
    then show ?thesis using Inl assms unfolding evaluatePeerScoped_iff
      by (auto simp: evaluatePeerScopedDecision_def decision_fields permitted_def trusted_target_def)
  next
    case (Inr u)
    then have "evaluatePeerScoped s now inst obs (q_Partition req) (q_Region req) (q_RouteKind req) = Inr ()" by simp
    then show ?thesis using Inr assms unfolding evaluatePeerScoped_iff
      by (auto simp: evaluatePeerScopedDecision_def decision_fields permitted_def trusted_target_def target_role acl split: if_splits)
  qed
qed

lemmas exposures = ExposureDisabled_def ExposureTrustedRegion_def ExposurePermissionless_def

lemma service_decision_iff:
  assumes scope: "PolicyScope inst = PolicyScopeService" and part: "q_Partition req \<in> {''permissionless'', ''trusted_region''}"
    and checked: "\<And>svc. svc \<in> set (Services inst) \<Longrightarrow> Exposure svc \<in> {''permissionless'', ''trusted_region'', ''disabled''}"
  shows "Allowed (evaluateServiceScopedDecision s (store_backend t p db lookup) now key req inst obs d up) = permitted s p db now key req inst obs up"
proof (cases "findServicePolicy (Services inst) (q_Service req)")
  case None
  then show ?thesis using scope by (simp add: evaluateServiceScopedDecision_def decision_fields permitted_def Let_def)
next
  case (Some svc)
  obtain reason where acl: "applyServiceACL s (store_backend t p db lookup) now key inst svc = Inr (service_granted s p db now key inst svc, reason)" using applyServiceACL_store by blast
  have ex: "Exposure svc \<in> {''permissionless'', ''trusted_region'', ''disabled''}" using checked find_Some_mem [OF Some [unfolded findServicePolicy_def]] by blast
  have bind: "(case evaluateTrustedBinding s now inst obs (q_Region req) of Inl reason \<Rightarrow> A reason | Inr _ \<Rightarrow> B) =
      (if owner_verified s now inst obs \<and> in_region inst (q_Region req) \<and> membershipActive (Membership inst) now then B else A (projl (evaluateTrustedBinding s now inst obs (q_Region req))))"
    for A :: "string \<Rightarrow> peerDecision" and B
    using evaluateTrustedBinding_iff [of s now inst obs "q_Region req"] by (cases "evaluateTrustedBinding s now inst obs (q_Region req)") auto
  consider "Exposure svc = ''permissionless''" | "Exposure svc = ''trusted_region''" | "Exposure svc = ''disabled''" using ex by blast
  then show ?thesis
  proof cases
    case 2
    then show ?thesis using part scope unfolding evaluateServiceScopedDecision_def permitted_def trusted_target_def bind target_role Some Let_def acl
      by (elim insertE) (simp_all add: if_distrib [of Allowed] decision_fields exposures acl, blast?)
  qed (use part scope in \<open>unfold evaluateServiceScopedDecision_def permitted_def bind target_role Some Let_def acl;
      elim insertE; simp add: if_distrib [of Allowed] decision_fields exposures acl; blast?\<close>)+
qed

section \<open>What is loaded\<close>

lemma set_dedupe_loop: "set (dedupe_loop ps out) = set out \<union> (TrimSpace ` set ps - {[]})"
  by (induction ps arbitrary: out) (auto simp: Let_def)

lemma set_dedupePeers: "set (dedupePeers ps) = TrimSpace ` set ps - {[]}"
  by (simp add: dedupePeers_def set_dedupe_loop)

lemma fold_map_Some: "fold (\<lambda>inst m. m(in_PeerID inst \<mapsto> inst)) is m0 q = Some i \<Longrightarrow> m0 q = Some i \<or> (i \<in> set is \<and> in_PeerID i = q)"
  by (induction "is" arbitrary: m0) (fastforce split: if_splits)+

text \<open>What the evaluation relies on of its store: it answers with instances that were asked for, whose services have one of the three exposures.\<close>

locale acl_backend =
  fixes b :: backend
  assumes managed_requested: "b_ListManaged b ids = Inr managed \<Longrightarrow> i \<in> set managed \<Longrightarrow> in_PeerID i \<in> set ids"
    and managed_exposure: "b_ListManaged b ids = Inr managed \<Longrightarrow> i \<in> set managed \<Longrightarrow> svc \<in> set (Services i) \<Longrightarrow> Exposure svc \<in> {''permissionless'', ''trusted_region'', ''disabled''}"
begin

lemma loaded_managed:
  assumes "loadEvaluationState b keyHash ids claims = Inr (key, peers, observations)" and "peers q = Some i"
  obtains managed where "b_ListManaged b (dedupePeers (query_ids ids claims)) = Inr managed" and "i \<in> set managed" and "in_PeerID i = q"
  using assms unfolding loadEvaluationState_def
  by (auto simp: Let_def split: sum.splits policy_error.splits if_splits dest!: fold_map_Some)

lemma loaded_peer:
  assumes "loadEvaluationState b keyHash ids claims = Inr (key, peers, observations)" and "peers q = Some i"
  shows "in_PeerID i = q" and "q \<in> TrimSpace ` set (query_ids ids claims)"
    and "svc \<in> set (Services i) \<Longrightarrow> Exposure svc \<in> {''permissionless'', ''trusted_region'', ''disabled''}"
proof -
  obtain managed where m: "b_ListManaged b (dedupePeers (query_ids ids claims)) = Inr managed" "i \<in> set managed" "in_PeerID i = q"
    using loaded_managed [OF assms] by blast
  show "in_PeerID i = q" by (rule m(3))
  show "q \<in> TrimSpace ` set (query_ids ids claims)" using managed_requested [OF m(1,2)] m(3) by (simp add: set_dedupePeers)
  show "svc \<in> set (Services i) \<Longrightarrow> Exposure svc \<in> {''permissionless'', ''trusted_region'', ''disabled''}" by (rule managed_exposure [OF m(1,2)])
qed

text \<open>The upstream peer of a worker route is loaded only where it is the requester itself.\<close>

lemma upstream_is_requester:
  assumes load: "loadEvaluationState b (q_KeyHash req) (q_PeerIDs req) (Some c) = Inr (key, peers, observations)"
    and auth: "authorizeTrustedRequester s now peers observations req (Some c) = None" and worker: "q_RouteKind req = ''worker''"
    and up: "peers (q_UpstreamPeerID req) = Some i"
  shows "q_UpstreamPeerID req = cl_Subject c"
proof -
  obtain subject where ids: "q_PeerIDs req = [cl_Subject c]" and subject: "peers (cl_Subject c) = Some subject"
    using auth worker by (auto simp: authorizeTrustedRequester_def Let_def split: option.splits if_splits)
  have "set (query_ids (q_PeerIDs req) (Some c)) = {cl_Subject c}" using ids by (auto simp: query_ids_def)
  then show ?thesis using loaded_peer(2) [OF load up] loaded_peer(2) [OF load subject] by simp
qed

lemma worker_upstream_denied:
  assumes "loadEvaluationState b (q_KeyHash req) (q_PeerIDs req) (Some c) = Inr (key, peers, observations)"
    and "authorizeTrustedRequester s now peers observations req (Some c) = None" and "q_Partition req = ''trusted_region''" and "q_RouteKind req = ''worker''"
    and "q_UpstreamPeerID req \<noteq> cl_Subject c"
  shows "\<not> worker_upstream req peers observations now"
  using upstream_is_requester [OF assms(1,2,4)] assms(3-5) by (auto simp: worker_upstream_def trustedUpstreamAllowed_def split: option.splits)

lemma evaluateV2_parts:
  assumes "evaluateV2 s b now req claims = Inr resp"
  obtains key peers observations where "loadEvaluationState b (q_KeyHash req) (q_PeerIDs req) claims = Inr (key, peers, observations)"
    and "q_Partition req = ''trusted_region'' \<Longrightarrow> authorizeTrustedRequester s now peers observations req claims = None"
    and "Decisions resp = map (decide_peer s b now key req peers observations (worker_upstream req peers observations now)) (q_PeerIDs req)"
  using assms unfolding evaluateV2_def by (auto simp: Let_def elim!: rbind_InrE split: if_splits option.splits)

end

lemma live_inv: "policy_inv (live_policy h gap ops, live_wallets h gap ops)"
  using demo_run_inv [of h gap ops] by (simp add: live_policy_def live_wallets_def)

lemma listed_services: "svc \<in> set (Services (full_instance p i)) \<Longrightarrow> \<exists>s\<in>set (services p). Exposure svc = Exposure s"
  by (auto simp: full_instance_def enrichInstance_def listInstanceServices_def)

lemma service_exposures:
  assumes "policy_inv (p, db)" and "s \<in> set (services p)"
  shows "Exposure s \<in> {''permissionless'', ''trusted_region'', ''disabled''}"
proof -
  have "service_check s" using assms by (simp add: policy_inv_def access_ok_def services_ok_def)
  then show ?thesis unfolding service_check_def by blast
qed

interpretation live: acl_backend "live_backend h gap ops t lookup"
proof
  fix ids managed i
  assume m: "b_ListManaged (live_backend h gap ops t lookup) ids = Inr managed" "i \<in> set managed"
  then obtain j where j: "i = full_instance (live_policy h gap ops) j" "in_PeerID j \<in> set ids"
    by (auto simp: live_backend_def store_backend_def ListManagedInstancesByPeerIDs_def)
  then show "in_PeerID i \<in> set ids" by (simp add: full_instance_def enrichInstance_def)
  show "Exposure svc \<in> {''permissionless'', ''trusted_region'', ''disabled''}" if "svc \<in> set (Services i)" for svc
    using listed_services that service_exposures [OF live_inv] unfolding j(1) by metis
qed

section \<open>Memberships behind a decision\<close>

lemma listed_membership:
  assumes "m' \<in> set (listMemberships p sel)"
  shows "\<exists>m\<in>set (memberships p). \<exists>r\<in>set (regions p). sel m \<and> rg_ID r = ms_RegionID m \<and> ms_InstanceID m' = ms_InstanceID m \<and> ms_RegionSlug m' = Slug r \<and> ms_RegionStatus m' = rg_Status r \<and>
    ms_Status m' = ms_Status m \<and> ms_ExpiresAt m' = ms_ExpiresAt m \<and> NodeRole m' = NodeRole m"
proof -
  obtain m where m: "m \<in> set (memberships p)" "sel m" "join_membership p m = Some m'"
    using assms by (auto simp: listMemberships_def List.map_filter_def)
  then obtain r where r: "find_row rg_ID (ms_RegionID m) (regions p) = Some r"
    and "ms_InstanceID m' = ms_InstanceID m" "ms_RegionSlug m' = Slug r" "ms_RegionStatus m' = rg_Status r" "ms_Status m' = ms_Status m" "ms_ExpiresAt m' = ms_ExpiresAt m" "NodeRole m' = NodeRole m"
    by (auto simp: join_membership_def split: option.splits)
  then show ?thesis using m find_row_mem [OF r] find_row_key [OF r] by (intro bexI [of _ m] bexI [of _ r]) simp_all
qed

lemma active_member:
  assumes "in_region (full_instance p i) slug" and "membershipActive (Membership (full_instance p i)) now" and "has_role (full_instance p i) roles"
  shows "region_member p now slug roles i"
proof -
  obtain m' where m': "Membership (full_instance p i) = Some m'" using assms(1) by (auto simp: in_region_def split: option.splits)
  then have "find_row ms_InstanceID (in_ID i) (rev (listMemberships p (\<lambda>m. ms_InstanceID m = in_ID i))) = Some m'" by (simp add: full_instance_def enrichInstance_def)
  from find_row_mem [OF this] have "m' \<in> set (listMemberships p (\<lambda>m. ms_InstanceID m = in_ID i))" by simp
  from listed_membership [OF this] obtain m r where m: "m \<in> set (memberships p)" "r \<in> set (regions p)" "ms_InstanceID m = in_ID i" "rg_ID r = ms_RegionID m"
      "ms_RegionSlug m' = Slug r" "ms_RegionStatus m' = rg_Status r" "ms_Status m' = ms_Status m" "ms_ExpiresAt m' = ms_ExpiresAt m" "NodeRole m' = NodeRole m"
    by blast
  have "Slug r = slug" "rg_Status r = ''active''" "ms_Status m = ''active''" "case ms_ExpiresAt m of None \<Rightarrow> True | Some e \<Rightarrow> now < e" "NodeRole m \<in> set roles"
    using assms m' m(5-9) by (simp_all add: in_region_def membershipActive_def has_role_def)
  then show ?thesis using m(1-4) unfolding region_member_def by blast
qed

lemma live_loaded:
  assumes "loadEvaluationState (live_backend h gap ops t lookup) keyHash ids claims = Inr (key, peers, observations)" and "peers q = Some inst"
  obtains i where "i \<in> set (instances (live_policy h gap ops))" and "in_PeerID i = q" and "inst = full_instance (live_policy h gap ops) i"
proof -
  obtain managed where m: "b_ListManaged (live_backend h gap ops t lookup) (dedupePeers (query_ids ids claims)) = Inr managed" "inst \<in> set managed" "in_PeerID inst = q"
    using live.loaded_managed [OF assms] by blast
  then show thesis using that by (auto simp: live_backend_def store_backend_def ListManagedInstancesByPeerIDs_def full_instance_def enrichInstance_def)
qed

lemma decision_ids: "pd_PeerID (deny_with reason d) = pd_PeerID d" "pd_PeerID (membership_revision inst d) = pd_PeerID d"
  by (simp_all add: deny_with_def membership_revision_def split: option.splits)

lemma scoped_decision_ids:
  "pd_PeerID (evaluatePeerScopedDecision s b now key req inst obs d up) = pd_PeerID d"
  "pd_PeerID (evaluateServiceScopedDecision s b now key req inst obs d up) = pd_PeerID d"
proof -
  have acl: "pd_PeerID (case r of Inl status \<Rightarrow> deny_with (acl_failure status) e | Inr (allowed, reason) \<Rightarrow> membership_revision inst (e\<lparr>Allowed := allowed, Reason := reason\<rparr>)) = pd_PeerID e"
    for r :: acl_result and e by (simp add: decision_ids split: sum.splits prod.splits)
  show "pd_PeerID (evaluatePeerScopedDecision s b now key req inst obs d up) = pd_PeerID d"
    unfolding evaluatePeerScopedDecision_def
    by (cases "evaluatePeerScoped s now inst obs (q_Partition req) (q_Region req) (q_RouteKind req)") (simp_all add: if_distrib [of pd_PeerID] decision_ids acl)
  show "pd_PeerID (evaluateServiceScopedDecision s b now key req inst obs d up) = pd_PeerID d"
    unfolding evaluateServiceScopedDecision_def Let_def
    by (cases "findServicePolicy (Services inst) (q_Service req)"; cases "evaluateTrustedBinding s now inst obs (q_Region req)") (simp_all add: if_distrib [of pd_PeerID] decision_ids acl)
qed

lemma decide_peer_id: "pd_PeerID (decide_peer s b now key req peers observations up q) = q"
  by (cases "peers q") (simp_all add: decide_peer_def blank_decision_def scoped_decision_ids Let_def)

lemma decide_peer_iff:
  assumes "q_Partition req \<in> {''permissionless'', ''trusted_region''}" and "\<And>inst svc. peers q = Some inst \<Longrightarrow> svc \<in> set (Services inst) \<Longrightarrow> Exposure svc \<in> {''permissionless'', ''trusted_region'', ''disabled''}"
  shows "Allowed (decide_peer s (store_backend t p db lookup) now key req peers observations up q) =
    (case peers q of None \<Rightarrow> q_Partition req = ''permissionless'' | Some inst \<Rightarrow> permitted s p db now key req inst (obs_at observations q) up)"
proof (cases "peers q")
  case None
  then show ?thesis by (simp add: decide_peer_def blank_decision_def)
next
  case (Some inst)
  then show ?thesis using assms(1) peer_decision_iff [of inst req] service_decision_iff [of inst req] assms(2) [OF Some]
    by (auto simp: decide_peer_def Let_def)
qed

lemma live_decision:
  assumes load: "loadEvaluationState (live_backend h gap ops t lookup) (q_KeyHash req) (q_PeerIDs req) claims = Inr (key, peers, observations)"
    and part: "q_Partition req \<in> {''permissionless'', ''trusted_region''}"
  shows "Allowed (decide_peer s (live_backend h gap ops t lookup) now key req peers observations up q) =
    (case peers q of None \<Rightarrow> q_Partition req = ''permissionless''
     | Some inst \<Rightarrow> permitted s (live_policy h gap ops) (live_wallets h gap ops) now key req inst (obs_at observations q) up)"
  using decide_peer_iff [OF part live.loaded_peer(3) [OF load]] unfolding live_backend_def .

lemma permitted_member:
  assumes "permitted s p db now key req inst obs up" and "q_Partition req = ''trusted_region''"
  shows "trusted_target s now req inst obs up"
  using assms by (auto simp: permitted_def split: if_splits option.splits)

section \<open>Properties\<close>

text \<open>
  C18 (equivalence): the evaluator decides what the tables say. On the tables of any history of transactions, and for a request whose partition is spelled as the evaluator spells it, a peer is
  allowed exactly when the specification permits it: an unmanaged peer only on the permissionless network; a managed one when its owner is verified, its exposure and its region membership fit the
  partition, and its access mode or a rule admits the caller.
\<close>

theorem decisions_meet_spec:
  assumes part: "q_Partition req \<in> {''permissionless'', ''trusted_region''}" and ok: "evaluateV2 s (live_backend h gap ops t lookup) now req claims = Inr resp"
  shows "map Allowed (Decisions resp) = expected_decisions s (live_backend h gap ops t lookup) (live_policy h gap ops) (live_wallets h gap ops) now req claims"
proof -
  let ?b = "live_backend h gap ops t lookup"
  obtain key peers observations where load: "loadEvaluationState ?b (q_KeyHash req) (q_PeerIDs req) claims = Inr (key, peers, observations)"
    and d: "Decisions resp = map (decide_peer s ?b now key req peers observations (worker_upstream req peers observations now)) (q_PeerIDs req)"
    using live.evaluateV2_parts [OF ok] by metis
  show ?thesis unfolding expected_decisions_def load d using live_decision [OF load part] by simp
qed

text \<open>
  C19 (safety): trust is backed by the tables. Where the evaluator allows a peer for a trusted region, the tables hold an active, unexpired membership of that peer's instance in an active region of
  that name, as worker or combined node; and the node that asked is itself such a member, in the role its credential states.
\<close>

theorem trusted_decision_backed:
  assumes part: "q_Partition req = ''trusted_region''" and ok: "evaluateV2 s (live_backend h gap ops t lookup) now req (Some c) = Inr resp"
    and d: "d \<in> set (Decisions resp)" "Allowed d"
  shows "(\<exists>i\<in>set (instances (live_policy h gap ops)). in_PeerID i = pd_PeerID d \<and> region_member (live_policy h gap ops) now (q_Region req) [''worker'', ''combined''] i) \<and>
    (\<exists>i\<in>set (instances (live_policy h gap ops)). in_PeerID i = cl_Subject c \<and> region_member (live_policy h gap ops) now (q_Region req) [cl_Role c] i)"
proof
  let ?b = "live_backend h gap ops t lookup" and ?p = "live_policy h gap ops"
  obtain key peers observations where load: "loadEvaluationState ?b (q_KeyHash req) (q_PeerIDs req) (Some c) = Inr (key, peers, observations)"
    and auth: "authorizeTrustedRequester s now peers observations req (Some c) = None"
    and ds: "Decisions resp = map (decide_peer s ?b now key req peers observations (worker_upstream req peers observations now)) (q_PeerIDs req)"
    using live.evaluateV2_parts [OF ok] part by metis
  obtain q where q: "d = decide_peer s ?b now key req peers observations (worker_upstream req peers observations now) q" using d(1) ds by auto
  have "case peers q of None \<Rightarrow> q_Partition req = ''permissionless''
       | Some inst \<Rightarrow> permitted s ?p (live_wallets h gap ops) now key req inst (obs_at observations q) (worker_upstream req peers observations now)"
    using live_decision [OF load] d(2) part unfolding q by simp
  then obtain inst where inst: "peers q = Some inst" "trusted_target s now req inst (obs_at observations q) (worker_upstream req peers observations now)"
    using part permitted_member by (auto split: option.splits)
  obtain i where "i \<in> set (instances ?p)" "in_PeerID i = q" "inst = full_instance ?p i" using live_loaded [OF load inst(1)] .
  then show "\<exists>i\<in>set (instances ?p). in_PeerID i = pd_PeerID d \<and> region_member ?p now (q_Region req) [''worker'', ''combined''] i"
    using inst(2) active_member unfolding q decide_peer_id trusted_target_def by metis
  obtain subject m where subject: "peers (cl_Subject c) = Some subject" "Membership subject = Some m" "ms_RegionSlug m = q_Region req" "membershipActive (Some m) now" "cl_Role c = NodeRole m"
    using auth by (auto simp: authorizeTrustedRequester_def Let_def split: option.splits if_splits)
  obtain j where j: "j \<in> set (instances ?p)" "in_PeerID j = cl_Subject c" "subject = full_instance ?p j" using live_loaded [OF load subject(1)] .
  have "region_member ?p now (q_Region req) [cl_Role c] j"
    by (rule active_member) (use subject(2-5) j(3) in \<open>simp_all add: in_region_def has_role_def\<close>)
  then show "\<exists>i\<in>set (instances ?p). in_PeerID i = cl_Subject c \<and> region_member ?p now (q_Region req) [cl_Role c] i" using j by blast
qed

text \<open>
  C25 (functional): no worker route is ever allowed. A worker asks about itself and names the head that sent the request, but only the peers asked about and the requester are loaded: unless the worker
  names itself as its upstream, every decision of the answer is a denial.
\<close>

theorem worker_route_denied:
  assumes part: "q_Partition req = ''trusted_region''" "q_RouteKind req = ''worker''" and up: "q_UpstreamPeerID req \<noteq> cl_Subject c"
    and ok: "evaluateV2 s (live_backend h gap ops t lookup) now req (Some c) = Inr resp"
  shows "map Allowed (Decisions resp) = [False]"
proof -
  let ?b = "live_backend h gap ops t lookup"
  obtain key peers observations where load: "loadEvaluationState ?b (q_KeyHash req) (q_PeerIDs req) (Some c) = Inr (key, peers, observations)"
    and auth: "authorizeTrustedRequester s now peers observations req (Some c) = None"
    and ds: "Decisions resp = map (decide_peer s ?b now key req peers observations (worker_upstream req peers observations now)) (q_PeerIDs req)"
    using live.evaluateV2_parts [OF ok] part(1) by metis
  have no: "\<not> worker_upstream req peers observations now" using live.worker_upstream_denied [OF load auth part up] .
  have "\<not> trusted_target s now req inst obs (worker_upstream req peers observations now)" for inst obs using no part(2) by (simp add: trusted_target_def)
  then have "\<not> Allowed (decide_peer s ?b now key req peers observations (worker_upstream req peers observations now) q)" for q
    using live_decision [OF load, of s now "worker_upstream req peers observations now" q] part(1) permitted_member by (fastforce split: option.splits)
  moreover have "q_PeerIDs req = [cl_Subject c]" using auth part(2) by (auto simp: authorizeTrustedRequester_def Let_def split: option.splits if_splits)
  ultimately show ?thesis using ds by simp
qed

section \<open>Witnesses\<close>

lemma demo_allowed: "map_sum id (\<lambda>r. map (\<lambda>d. (pd_PeerID d, Allowed d)) (Decisions r)) (evaluateV2 demo_acl_service demo_backend 7 demo_request (Some demo_claims)) = Inr [(''peer1'', True)]"
  by code_simp

lemma demo_resp_allowed:
  obtains resp d where "evaluateV2 demo_acl_service demo_backend 7 demo_request (Some demo_claims) = Inr resp" "Decisions resp = [d]" "pd_PeerID d = ''peer1''" "Allowed d"
  using demo_allowed by (cases "evaluateV2 demo_acl_service demo_backend 7 demo_request (Some demo_claims)") auto

theorem decisions_meet_spec_witness:
  "expected_decisions demo_acl_service demo_backend (live_policy (\<lambda>x. x) False demo_policy_ops) (live_wallets (\<lambda>x. x) False demo_policy_ops) 7 demo_request (Some demo_claims) = [True]"
proof -
  obtain resp d where "evaluateV2 demo_acl_service demo_backend 7 demo_request (Some demo_claims) = Inr resp" "Decisions resp = [d]" "Allowed d" using demo_resp_allowed by metis
  then show ?thesis using decisions_meet_spec [of demo_request demo_acl_service "\<lambda>x. x" False demo_policy_ops demo_keys demo_lookup 7 "Some demo_claims" resp]
    unfolding demo_backend_def [symmetric] by (simp add: demo_request_def)
qed

theorem trusted_decision_backed_witness:
  "\<exists>i\<in>set (instances (live_policy (\<lambda>x. x) False demo_policy_ops)). in_PeerID i = ''peer1'' \<and> region_member (live_policy (\<lambda>x. x) False demo_policy_ops) 7 ''eu-1'' [''worker'', ''combined''] i"
proof -
  obtain resp d where r: "evaluateV2 demo_acl_service demo_backend 7 demo_request (Some demo_claims) = Inr resp" "Decisions resp = [d]" "pd_PeerID d = ''peer1''" "Allowed d"
    using demo_resp_allowed .
  have "q_Partition demo_request = ''trusted_region''" "q_Region demo_request = ''eu-1''" by (simp_all add: demo_request_def)
  then show ?thesis using trusted_decision_backed [of demo_request demo_acl_service "\<lambda>x. x" False demo_policy_ops demo_keys demo_lookup 7 demo_claims resp d] r
    unfolding demo_backend_def [symmetric] by simp
qed

lemma demo_worker_answered: "isl (evaluateV2 demo_acl_service demo_backend 7 demo_worker_request (Some demo_claims)) = False"
  by code_simp

theorem worker_route_denied_witness: "\<exists>resp. evaluateV2 demo_acl_service demo_backend 7 demo_worker_request (Some demo_claims) = Inr resp \<and> map Allowed (Decisions resp) = [False]"
proof -
  obtain resp where r: "evaluateV2 demo_acl_service demo_backend 7 demo_worker_request (Some demo_claims) = Inr resp"
    using demo_worker_answered by (cases "evaluateV2 demo_acl_service demo_backend 7 demo_worker_request (Some demo_claims)") auto
  then show ?thesis using worker_route_denied [of demo_worker_request demo_claims demo_acl_service "\<lambda>x. x" False demo_policy_ops demo_keys demo_lookup 7 resp]
    unfolding demo_backend_def [symmetric] by (simp add: demo_worker_request_def demo_request_def demo_claims_def)
qed

text \<open>
  The handler checks a normalised partition but hands the evaluator the raw one. A node with a credential for another region is refused when it asks about the region, and served when it writes the
  partition with a capital letter: the requester's own membership, its region, revision and role are then not checked at all.
\<close>

lemma demo_checks:
  "validKeyHash demo_hash" "validServiceName ''llm''" "TrimSpace ''eu-1'' = ''eu-1''" "dedupePeers [''peer1''] = [''peer1'']"
  "ToLower (TrimSpace ''trusted_region'') = ''trusted_region''" "ToLower (TrimSpace ''Trusted_region'') = ''trusted_region''" "ToLower (TrimSpace ''service_ingress'') = ''service_ingress''"
  by code_simp+

lemma demo_handler_evaluates:
  assumes "q_Partition req = ''trusted_region'' \<or> q_Partition req = ''Trusted_region''" "q_KeyHash req = demo_hash" "q_RouteKind req = ''service_ingress''" "q_Service req = ''llm''"
    "q_Region req = ''eu-1''" "q_PeerIDs req = [''peer1'']"
  shows "demo_handler req = map_sum id (\<lambda>r. map Allowed (Decisions r)) (evaluateV2 demo_acl_service demo_backend 7 req (Some stranger_claims))"
  using assms by (auto simp: demo_handler_def HandlerV2_def demo_checks maxPeerBatch_def Let_def)

lemma demo_stranger: "evaluateV2 demo_acl_service demo_backend 7 demo_request (Some stranger_claims) = Inl (503, ''service unavailable'')"
  by code_simp

lemma demo_stranger_capital:
  "map_sum id (\<lambda>r. map Allowed (Decisions r)) (evaluateV2 demo_acl_service demo_backend 7 (demo_request\<lparr>q_Partition := ''Trusted_region''\<rparr>) (Some stranger_claims)) = Inr [True]"
  by code_simp

lemma capitalised_partition_unchecked:
  "demo_handler demo_request = Inl (503, ''service unavailable'')" "demo_handler (demo_request\<lparr>q_Partition := ''Trusted_region''\<rparr>) = Inr [True]"
  using demo_handler_evaluates [of demo_request] demo_handler_evaluates [of "demo_request\<lparr>q_Partition := ''Trusted_region''\<rparr>"] demo_stranger demo_stranger_capital
  by (simp_all add: demo_request_def)

text \<open>The names the API accepts for a service are those the table accepts.\<close>

lemma service_chars_later: "service_chars (Suc i) v \<longleftrightarrow> list_all (\<lambda>c. alnum c \<or> c = CHR ''.'' \<or> c = CHR ''_'' \<or> c = CHR ''-'') v"
  by (induction v arbitrary: i) auto

lemma validServiceName_check: "validServiceName v \<longleftrightarrow> service_name_check v"
  by (cases v) (auto simp: validServiceName_def service_name_check_def service_chars_later)

end
