(* ===== verification/Deploy_Keys.thy ===== *)
theory Deploy_Keys
  imports Trusted_Regions Mesh Api_Keys
begin

text \<open>
  Deploy keys and the linking of instances: the table (\<^verbatim>\<open>internal/store/deploykey.go\<close>, migrations 0015 and 0016), the service that mints and revokes keys (\<^verbatim>\<open>internal/deploykeys/svc.go\<close>)
  and the HTTP handlers (\<^verbatim>\<open>internal/deploykeys/api.go\<close>).

  A statement outside a transaction commits before its answer is scanned, so an operation here returns the table it leaves together with its result. The digest is the argument \<open>hash\<close>, the libp2p
  key operations are the record \<open>peer_crypto\<close>, \<open>ft\<close> formats a time, random strings and decoded bodies are arguments.

  The lemmas show that a key is used at most as often as its budget says, that a revoked key stays refused, what a successful link changes, and that a key minted without a name makes the listing
  of its account fail.
\<close>

section \<open>The table\<close>

text \<open>The name is nullable in the table and a plain string in the struct.\<close>

record DeployKeyInfo =
  dk_ID :: int64
  dk_UserID :: string
  dk_KeyHash :: string
  dk_KeyPrefix :: string
  dk_Name :: "string option"
  MaxUses :: int
  UseCount :: int
  dk_ExpiresAt :: "instant option"
  dk_LastUsedAt :: "instant option"
  dk_Active :: bool
  dk_CreatedAt :: instant
  dk_RevokedAt :: "instant option"

record deploy_table =
  deploy_keys :: "DeployKeyInfo list"
  next_deploy :: int64

definition empty_deploy :: deploy_table where
  "empty_deploy = \<lparr>deploy_keys = [], next_deploy = 1\<rparr>"

definition UsesLeft :: "DeployKeyInfo \<Rightarrow> int" where
  "UsesLeft k = (if MaxUses k = 0 then -1 else MaxUses k - UseCount k)"

definition Expired :: "DeployKeyInfo \<Rightarrow> instant \<Rightarrow> bool" where
  "Expired k now \<longleftrightarrow> (case dk_ExpiresAt k of None \<Rightarrow> False | Some e \<Rightarrow> now > e)"

definition Usable :: "DeployKeyInfo \<Rightarrow> instant \<Rightarrow> bool" where
  "Usable k now \<longleftrightarrow> dk_Active k \<and> dk_RevokedAt k = None \<and> \<not> Expired k now \<and> (MaxUses k = 0 \<or> UseCount k < MaxUses k)"

definition scanDeployKey :: "DeployKeyInfo \<Rightarrow> DeployKeyInfo pres" where
  "scanDeployKey k = (if dk_Name k = None then Inl (Failure ''store: scan deploy key'') else Inr k)"

definition InsertDeployKey :: "deploy_table \<Rightarrow> string \<Rightarrow> string \<Rightarrow> string \<Rightarrow> string \<Rightarrow> int \<Rightarrow> instant option \<Rightarrow> instant \<Rightarrow> deploy_table \<times> DeployKeyInfo pres" where
  "InsertDeployKey t userID keyHash keyPrefix name maxUses expires now =
     (if maxUses < 0 \<or> has_row dk_KeyHash keyHash (deploy_keys t) then (t, Inl (Failure ''store: insert deploy key''))
      else
        let k = \<lparr>dk_ID = next_deploy t, dk_UserID = userID, dk_KeyHash = keyHash, dk_KeyPrefix = keyPrefix, dk_Name = (if name = [] then None else Some name), MaxUses = maxUses,
                 UseCount = 0, dk_ExpiresAt = expires, dk_LastUsedAt = None, dk_Active = True, dk_CreatedAt = now, dk_RevokedAt = None\<rparr> in
        (t\<lparr>deploy_keys := deploy_keys t @ [k], next_deploy := next_deploy t + 1\<rparr>, scanDeployKey k))"

fun scan_all :: "DeployKeyInfo list \<Rightarrow> DeployKeyInfo list pres" where
  "scan_all [] = Inr []"
| "scan_all (k # ks) = rbind (scanDeployKey k) (\<lambda>k'. rbind (scan_all ks) (\<lambda>ks'. Inr (k' # ks')))"

definition ListDeployKeysByUser :: "deploy_table \<Rightarrow> string \<Rightarrow> DeployKeyInfo list pres" where
  "ListDeployKeysByUser t userID = scan_all (rev (sort_key dk_CreatedAt (sort_key dk_ID (filter (\<lambda>k. dk_UserID k = userID) (deploy_keys t)))))"

definition CountActiveDeployKeysByUser :: "deploy_table \<Rightarrow> string \<Rightarrow> nat" where
  "CountActiveDeployKeysByUser t userID = length (filter (\<lambda>k. dk_UserID k = userID \<and> dk_RevokedAt k = None) (deploy_keys t))"

definition deploy_revoke_mark :: "string \<Rightarrow> instant \<Rightarrow> DeployKeyInfo \<Rightarrow> DeployKeyInfo" where
  "deploy_revoke_mark userID now k = (if dk_UserID k = userID \<and> dk_RevokedAt k = None then k\<lparr>dk_RevokedAt := Some now, dk_Active := False\<rparr> else k)"

definition RevokeDeployKeyByIDForUser :: "deploy_table \<Rightarrow> string \<Rightarrow> int64 \<Rightarrow> instant \<Rightarrow> deploy_table \<times> string option" where
  "RevokeDeployKeyByIDForUser t userID kid now =
     (case List.find (\<lambda>k. dk_ID k = kid \<and> dk_UserID k = userID \<and> dk_RevokedAt k = None) (deploy_keys t) of
        None \<Rightarrow> (t, None)
      | Some k \<Rightarrow> (t\<lparr>deploy_keys := update_row dk_ID kid (deploy_revoke_mark userID now) (deploy_keys t)\<rparr>, Some (dk_KeyHash k)))"

definition FindActiveDeployKey :: "deploy_table \<Rightarrow> string \<Rightarrow> instant \<Rightarrow> DeployKeyInfo pres" where
  "FindActiveDeployKey t keyHash now =
     (case find_row dk_KeyHash keyHash (deploy_keys t) of
        None \<Rightarrow> Inl StoreNotFound
      | Some row \<Rightarrow> rbind (scanDeployKey row) (\<lambda>k. if \<not> dk_Active k \<or> dk_RevokedAt k \<noteq> None \<or> Expired k now then Inl StoreNotFound else Inr k))"

text \<open>The condition of the UPDATE, and the bound of its INT column.\<close>

definition spendable :: "DeployKeyInfo \<Rightarrow> instant \<Rightarrow> bool" where
  "spendable k now \<longleftrightarrow> dk_Active k \<and> dk_RevokedAt k = None \<and> (case dk_ExpiresAt k of None \<Rightarrow> True | Some e \<Rightarrow> e > now) \<and> (MaxUses k = 0 \<or> UseCount k < MaxUses k)"

definition spend :: "instant \<Rightarrow> DeployKeyInfo \<Rightarrow> DeployKeyInfo" where
  "spend now k = k\<lparr>UseCount := UseCount k + 1, dk_LastUsedAt := Some now\<rparr>"

definition ConsumeDeployKeyUse :: "deploy_table \<Rightarrow> string \<Rightarrow> instant \<Rightarrow> (deploy_table \<times> string) pres" where
  "ConsumeDeployKeyUse t keyHash now =
     (case find_row dk_KeyHash keyHash (deploy_keys t) of
        None \<Rightarrow> Inl StoreNotFound
      | Some k \<Rightarrow>
          if \<not> spendable k now then Inl StoreNotFound
          else if UseCount k \<ge> 2147483647 then Inl (Failure ''store: consume deploy key use'')
          else Inr (t\<lparr>deploy_keys := update_row dk_KeyHash keyHash (spend now) (deploy_keys t)\<rparr>, dk_UserID k))"

definition link_audience :: string where
  "link_audience = ''api.opentela.ai/internal/instances/link''"

definition CreateInstanceLinkChallenge :: "policy \<Rightarrow> NodeCredentialChallenge \<Rightarrow> policy pres" where
  "CreateInstanceLinkChallenge p ch =
     (let audience = (if nc_Audience ch = [] then link_audience else nc_Audience ch);
          mine = (\<lambda>c. nc_PeerID c = nc_PeerID ch \<and> nc_Audience c = audience);
          kept = filter (\<lambda>c. \<not> (mine c \<and> (nc_ConsumedAt c \<noteq> None \<or> nc_ExpiresAt c \<le> nc_IssuedAt ch))) (node_challenges p);
          waiting = length (filter (\<lambda>c. mine c \<and> nc_ConsumedAt c = None \<and> nc_ExpiresAt c > nc_IssuedAt ch) kept) in
      if waiting \<ge> 5 then Inl StoreConflict
      else if has_row nc_ID (nc_ID ch) kept then Inl (Failure ''store: create link challenge'')
      else Inr (p\<lparr>node_challenges := kept @ [ch\<lparr>nc_Audience := audience, nc_ConsumedAt := None\<rparr>]\<rparr>))"

section \<open>The service\<close>

datatype deploy_error = ErrTooManyKeys | ErrInvalidTTL | ErrInvalidMaxUses | NoRandom | StoreFailed policy_error

definition MinTTL :: int where
  "MinTTL = 5 * 60 * 1000000000"

definition MaxTTL :: int where
  "MaxTTL = 90 * 24 * 3600 * 1000000000"

definition MinMaxUses :: int where
  "MinMaxUses = 1"

definition MaxMaxUses :: int where
  "MaxMaxUses = 100"

definition deploy_GenerateToken :: "nat list option \<Rightarrow> string option" where
  "deploy_GenerateToken random = map_option (\<lambda>b. ''otd-'' @ EncodeHex b) random"

definition deploy_Prefix :: "string \<Rightarrow> string" where
  "deploy_Prefix token = (if length token < 12 then token else take 12 token)"

definition deploy_Create :: "(string \<Rightarrow> string) \<Rightarrow> nat \<Rightarrow> nat list option \<Rightarrow> deploy_table \<Rightarrow> string \<Rightarrow> string \<Rightarrow> int \<Rightarrow> int \<Rightarrow> instant \<Rightarrow>
    deploy_table \<times> (deploy_error + (string \<times> DeployKeyInfo))" where
  "deploy_Create hash maxPerUser random t userID name maxUses ttl now =
     (if maxUses < 0 \<or> (maxUses > 0 \<and> (maxUses < MinMaxUses \<or> maxUses > MaxMaxUses)) then (t, Inl ErrInvalidMaxUses)
      else if ttl < 0 \<or> (ttl \<noteq> 0 \<and> ttl < MinTTL) \<or> ttl > MaxTTL then (t, Inl ErrInvalidTTL)
      else if CountActiveDeployKeysByUser t userID \<ge> maxPerUser then (t, Inl ErrTooManyKeys)
      else case deploy_GenerateToken random of
        None \<Rightarrow> (t, Inl NoRandom)
      | Some token \<Rightarrow>
          (case InsertDeployKey t userID (HashKey hash token) (deploy_Prefix token) name maxUses (if ttl > 0 then Some (now + ttl) else None) now of
             (t', Inl e) \<Rightarrow> (t', Inl (StoreFailed e))
           | (t', Inr info) \<Rightarrow> (t', Inr (token, info))))"

definition deploy_Revoke :: "deploy_table \<Rightarrow> string \<Rightarrow> int64 \<Rightarrow> instant \<Rightarrow> deploy_table \<times> bool" where
  "deploy_Revoke t userID kid now = (case RevokeDeployKeyByIDForUser t userID kid now of (t', r) \<Rightarrow> (t', r \<noteq> None))"

section \<open>The management routes\<close>

definition deploy_maxNameLen :: nat where
  "deploy_maxNameLen = 100"

definition defaultMaxUses :: int where
  "defaultMaxUses = 1"

record createRequest =
  cr_Name :: string
  cr_MaxUses :: "int option"
  TTLSeconds :: int64

text \<open>The duration is an int64 product that wraps.\<close>

definition post_deploy_key :: "(string \<Rightarrow> string) \<Rightarrow> nat \<Rightarrow> nat list option \<Rightarrow> deploy_table \<Rightarrow> string \<Rightarrow> createRequest option \<Rightarrow> instant \<Rightarrow>
    deploy_table \<times> ((int \<times> string) + (string \<times> DeployKeyInfo))" where
  "post_deploy_key hash maxPerUser random t userID body now =
     (case body of
        None \<Rightarrow> (t, Inl (400, ''invalid JSON body''))
      | Some req \<Rightarrow>
          if length (cr_Name req) > deploy_maxNameLen then (t, Inl (400, ''name too long''))
          else
            let maxUses = (case cr_MaxUses req of None \<Rightarrow> defaultMaxUses | Some n \<Rightarrow> n);
                ttl = (if TTLSeconds req \<noteq> 0 then wrap64 (TTLSeconds req * 1000000000) else 0) in
            case deploy_Create hash maxPerUser random t userID (cr_Name req) maxUses ttl now of
              (t', Inr out) \<Rightarrow> (t', Inr out)
            | (t', Inl ErrTooManyKeys) \<Rightarrow> (t', Inl (409, ''deploy key limit reached''))
            | (t', Inl ErrInvalidTTL) \<Rightarrow> (t', Inl (400, ''deploykeys: invalid ttl''))
            | (t', Inl ErrInvalidMaxUses) \<Rightarrow> (t', Inl (400, ''deploykeys: invalid max_uses''))
            | (t', Inl _) \<Rightarrow> (t', Inl (503, ''service unavailable'')))"

definition get_deploy_keys :: "deploy_table \<Rightarrow> string \<Rightarrow> (int \<times> string) + (DeployKeyInfo \<times> int) list" where
  "get_deploy_keys t userID = (case ListDeployKeysByUser t userID of Inl _ \<Rightarrow> Inl (503, ''service unavailable'') | Inr ks \<Rightarrow> Inr (map (\<lambda>k. (k, UsesLeft k)) ks))"

definition delete_deploy_key :: "deploy_table \<Rightarrow> string \<Rightarrow> string \<Rightarrow> instant \<Rightarrow> deploy_table \<times> ((int \<times> string) + unit)" where
  "delete_deploy_key t userID path now =
     (case ParseInt path of
        None \<Rightarrow> (t, Inl (400, ''invalid key id''))
      | Some kid \<Rightarrow> (case deploy_Revoke t userID kid now of (t', changed) \<Rightarrow> (t', if changed then Inr () else Inl (404, ''not found''))))"

section \<open>Peer identifiers and proofs\<close>

text \<open>\<^verbatim>\<open>binary.Uvarint\<close>: the value and the number of bytes read, not positive where the bytes do not hold a value of 64 bits.\<close>

fun uvarint_loop :: "nat \<Rightarrow> nat \<Rightarrow> bytes \<Rightarrow> nat \<times> int" where
  "uvarint_loop i x [] = (0, 0)"
| "uvarint_loop i x (b # bs) =
     (if i = 10 then (0, - (int i + 1))
      else if unat b < 128 then (if i = 9 \<and> unat b > 1 then (0, - (int i + 1)) else (x + unat b * 2 ^ (7 * i), int i + 1))
      else uvarint_loop (Suc i) (x + (unat b mod 128) * 2 ^ (7 * i)) bs)"

definition Uvarint :: "bytes \<Rightarrow> nat \<times> int" where
  "Uvarint buf = uvarint_loop 0 0 buf"

definition maxPeerIDLen :: nat where
  "maxPeerIDLen = 128"

definition ValidPeerID :: "string \<Rightarrow> bool" where
  "ValidPeerID v \<longleftrightarrow>
     (if v = [] \<or> length v > maxPeerIDLen then False
      else case DecodeBase58 v maxPeerIDLen of
        Inl _ \<Rightarrow> False
      | Inr raw \<Rightarrow>
          let codeBytes = snd (Uvarint raw) in
          if codeBytes \<le> 0 \<or> codeBytes \<ge> int (length raw) then False
          else case Uvarint (drop (nat codeBytes) raw) of
            (digestLen, lengthBytes) \<Rightarrow>
              if lengthBytes \<le> 0 \<or> digestLen = 0 then False else wrap64 (int digestLen) = int (length raw) - codeBytes - lengthBytes)"

record 'k peer_crypto =
  UnmarshalPublicKey :: "bytes \<Rightarrow> 'k option"
  IDFromPublicKey :: "'k \<Rightarrow> string option"
  pub_Verify :: "'k \<Rightarrow> string \<Rightarrow> bytes \<Rightarrow> bool"

text \<open>The unpadded URL alphabet, decoded as the padded standard one.\<close>

definition url_char :: "char \<Rightarrow> char option" where
  "url_char c = (if c = CHR ''-'' then Some (CHR ''+'') else if c = CHR ''_'' then Some (CHR ''/'') else if c \<in> {CHR ''+'', CHR ''/'', CHR ''=''} then None else Some c)"

definition RawURLDecode :: "string \<Rightarrow> bytes option" where
  "RawURLDecode s =
     (let cs = filter (\<lambda>c. (of_char c :: nat) \<noteq> 10 \<and> (of_char c :: nat) \<noteq> 13) s in
      if list_ex (\<lambda>c. url_char c = None) cs \<or> length cs mod 4 = 1 then None
      else DecodeString (map (\<lambda>c. the (url_char c)) cs @ replicate ((4 - length cs mod 4) mod 4) (CHR ''='')))"

definition decodeRawBase64 :: "string \<Rightarrow> bytes option" where
  "decodeRawBase64 v = (case RawURLDecode v of Some raw \<Rightarrow> Some raw | None \<Rightarrow> DecodeString v)"

definition verifyPeerProof :: "'k peer_crypto \<Rightarrow> string \<Rightarrow> string \<Rightarrow> string \<Rightarrow> string \<Rightarrow> bool" where
  "verifyPeerProof crypt publicKeyB64 signatureB64 peerID message \<longleftrightarrow>
     (case decodeRawBase64 publicKeyB64 of
        None \<Rightarrow> False
      | Some pubRaw \<Rightarrow>
          (case UnmarshalPublicKey crypt pubRaw of
             None \<Rightarrow> False
           | Some pub \<Rightarrow>
               (case decodeRawBase64 signatureB64 of
                  None \<Rightarrow> False
                | Some sigRaw \<Rightarrow> IDFromPublicKey crypt pub = Some peerID \<and> pub_Verify crypt pub message sigRaw)))"

definition canonicalChallengeMessage :: "(instant \<Rightarrow> string) \<Rightarrow> string \<Rightarrow> string \<Rightarrow> string \<Rightarrow> string \<Rightarrow> instant \<Rightarrow> instant \<Rightarrow> string" where
  "canonicalChallengeMessage ft audience challengeID peerID nonce issued expires =
     concat (map (\<lambda>l. l @ [CHR 0x0A]) [''opentela-instance-link-challenge'', ''challenge_id='' @ challengeID, ''peer_id='' @ peerID, ''region='', ''role='', ''audience='' @ audience,
       ''nonce='' @ nonce, ''issued_at='' @ ft issued, ''expires_at='' @ ft expires])"

section \<open>The link handlers\<close>

record link_state =
  ls_keys :: deploy_table
  ls_policy :: policy
  ls_wallets :: db

definition challengeTTL :: int where
  "challengeTTL = 2 * 60 * 1000000000"

definition maxLabelLen :: nat where
  "maxLabelLen = 200"

definition link_authorized :: "(string \<Rightarrow> string) \<Rightarrow> deploy_table \<Rightarrow> instant \<Rightarrow> string \<Rightarrow> DeployKeyInfo option" where
  "link_authorized hash t now authz =
     (let token = TrimSpace (if prefix ''Bearer '' authz then drop 7 authz else authz) in
      if token = [] \<or> \<not> prefix ''otd-'' token then None
      else case FindActiveDeployKey t (HashKey hash token) now of Inl _ \<Rightarrow> None | Inr k \<Rightarrow> Some k)"

text \<open>\<open>nonce\<close> and \<open>challengeID\<close> are the two random strings. The answer is the challenge with its nonce.\<close>

definition LinkChallengeHandler :: "(string \<Rightarrow> string) \<Rightarrow> (instant \<Rightarrow> string) \<Rightarrow> string option \<Rightarrow> string option \<Rightarrow> link_state \<Rightarrow> instant \<Rightarrow> string \<Rightarrow> string \<Rightarrow> string option \<Rightarrow>
    link_state \<times> ((int \<times> string) + (NodeCredentialChallenge \<times> string))" where
  "LinkChallengeHandler hash ft nonce challengeID s now httpMethod authz body =
     (if httpMethod \<noteq> ''POST'' then (s, Inl (405, ''method not allowed''))
      else if link_authorized hash (ls_keys s) now authz = None then (s, Inl (401, ''unauthorized''))
      else case body of
        None \<Rightarrow> (s, Inl (400, ''invalid JSON body''))
      | Some reqPeer \<Rightarrow>
          let peerID = TrimSpace reqPeer in
          if \<not> ValidPeerID peerID then (s, Inl (400, ''invalid peer_id''))
          else case (nonce, challengeID) of
            (Some n, Some cid) \<Rightarrow>
              let expires = now + challengeTTL;
                  ch = \<lparr>nc_ID = cid, nc_PeerID = peerID, nc_RegionSlug = [], nc_NodeRole = [], nc_Audience = link_audience, NonceHash = HashKey hash n,
                        nc_Message = canonicalChallengeMessage ft link_audience cid peerID n now expires, nc_IssuedAt = now, nc_ExpiresAt = expires, nc_ConsumedAt = None\<rparr> in
              (case CreateInstanceLinkChallenge (ls_policy s) ch of
                 Inl StoreConflict \<Rightarrow> (s, Inl (429, ''too many pending challenges''))
               | Inl _ \<Rightarrow> (s, Inl (503, ''service unavailable''))
               | Inr p \<Rightarrow> (s\<lparr>ls_policy := p\<rparr>, Inr (ch, n)))
          | _ \<Rightarrow> (s, Inl (503, ''service unavailable'')))"

record linkRequest =
  lr_PeerID :: string
  lr_ChallengeID :: string
  lr_Nonce :: string
  lr_PublicKey :: string
  lr_Signature :: string
  lr_Label :: string

text \<open>The answer: the instance, and whether it was linked before.\<close>

type_synonym link_answer = "(int \<times> string) + (InstanceInfo \<times> bool)"

definition link_fresh :: "int \<Rightarrow> instant \<Rightarrow> PeerObservation \<Rightarrow> bool" where
  "link_fresh maxAge now obs \<longleftrightarrow> maxAge \<le> 0 \<or> now - ob_ObservedAt obs \<le> maxAge"

definition new_link :: "string \<Rightarrow> string \<Rightarrow> string \<Rightarrow> string \<Rightarrow> InstanceInfo" where
  "new_link userID peerID label wallet = \<lparr>in_ID = 0, in_AccountID = userID, in_PeerID = peerID, in_Label = label, OwnerWallet = wallet, in_AccessMode = ''restricted'', PolicyScope = [],
     PolicyRevision = 0, OwnershipStatus = ''active'', ObservedWallet = None, OwnershipObservedAt = None, in_CreatedAt = 0, in_UpdatedAt = 0, in_Rules = [], Membership = None, Services = []\<rparr>"

text \<open>The part after the proof of the peer's key. A use is spent before the instance is inserted, in a statement of its own.\<close>

definition link_proven :: "int \<Rightarrow> (string \<Rightarrow> mesh_error + PeerObservation) \<Rightarrow> link_state \<Rightarrow> instant \<Rightarrow> DeployKeyInfo \<Rightarrow> string \<Rightarrow> string \<Rightarrow> link_state \<times> link_answer" where
  "link_proven maxAge lookup s now key peerID label =
     (case GetInstanceByPeerID (ls_policy s) peerID of
        Inr existing \<Rightarrow> (s, if in_AccountID existing = dk_UserID key then Inr (existing, True) else Inl (409, ''peer already claimed''))
      | Inl e \<Rightarrow>
          if e \<noteq> StoreNotFound then (s, Inl (503, ''service unavailable''))
          else if \<not> Usable key now then (s, Inl (403, ''deploy key exhausted or expired''))
          else case GetUserWalletSet (ls_wallets s) (dk_UserID key) of
            [] \<Rightarrow> (s, Inl (422, ''link a wallet to your account first (billing requires one)''))
          | ownerWallet # _ \<Rightarrow>
              if (case lookup peerID of Inl _ \<Rightarrow> False | Inr obs \<Rightarrow> link_fresh maxAge now obs \<and> ob_Wallet obs \<noteq> ownerWallet)
              then (s, Inl (409, ''peer belongs to a different wallet''))
              else case ConsumeDeployKeyUse (ls_keys s) (dk_KeyHash key) now of
                Inl StoreNotFound \<Rightarrow> (s, Inl (403, ''deploy key exhausted or expired''))
              | Inl _ \<Rightarrow> (s, Inl (503, ''service unavailable''))
              | Inr (t', userID) \<Rightarrow>
                  (let s1 = s\<lparr>ls_keys := t'\<rparr> in
                   case CreateInstance (ls_policy s1) (ls_wallets s1) (new_link userID peerID label ownerWallet) now of
                     Inl StoreConflict \<Rightarrow> (s1, Inl (409, ''peer already claimed''))
                   | Inl _ \<Rightarrow> (s1, Inl (503, ''service unavailable''))
                   | Inr (p', created) \<Rightarrow> (s1\<lparr>ls_policy := p'\<rparr>, Inr (created, False))))"

definition LinkHandler :: "(string \<Rightarrow> string) \<Rightarrow> 'k peer_crypto \<Rightarrow> int \<Rightarrow> (string \<Rightarrow> mesh_error + PeerObservation) \<Rightarrow> link_state \<Rightarrow> instant \<Rightarrow> string \<Rightarrow> string \<Rightarrow> linkRequest option \<Rightarrow>
    link_state \<times> link_answer" where
  "LinkHandler hash crypt maxAge lookup s now httpMethod authz body =
     (if httpMethod \<noteq> ''POST'' then (s, Inl (405, ''method not allowed''))
      else case link_authorized hash (ls_keys s) now authz of
        None \<Rightarrow> (s, Inl (401, ''unauthorized''))
      | Some key \<Rightarrow>
          case body of
            None \<Rightarrow> (s, Inl (400, ''invalid JSON body''))
          | Some req \<Rightarrow>
              let peerID = TrimSpace (lr_PeerID req) in
              if \<not> ValidPeerID peerID then (s, Inl (400, ''invalid peer_id''))
              else if length (lr_Label req) > maxLabelLen then (s, Inl (400, ''label too long''))
              else case ConsumeNodeCredentialChallenge (HashKey hash) (ls_policy s) (lr_ChallengeID req) peerID (lr_Nonce req) link_audience now of
                Inl StoreNotFound \<Rightarrow> (s, Inl (404, ''challenge not found''))
              | Inl ErrChallengeExpired \<Rightarrow> (s, Inl (409, ''challenge unavailable''))
              | Inl ErrChallengeConsumed \<Rightarrow> (s, Inl (409, ''challenge unavailable''))
              | Inl _ \<Rightarrow> (s, Inl (503, ''service unavailable''))
              | Inr (p', challenge) \<Rightarrow>
                  (let s1 = s\<lparr>ls_policy := p'\<rparr> in
                   if \<not> verifyPeerProof crypt (lr_PublicKey req) (lr_Signature req) peerID (nc_Message challenge) then (s1, Inl (400, ''invalid proof''))
                   else link_proven maxAge lookup s1 now key peerID (lr_Label req)))"

section \<open>Runs of the table\<close>

datatype deploy_op =
    MintOp string string string string int "instant option" instant
  | RevokeOp string int64 instant
  | SpendOp string instant

fun exec_deploy :: "deploy_op \<Rightarrow> deploy_table \<Rightarrow> policy_error + (deploy_table \<times> unit)" where
  "exec_deploy (MintOp userID keyHash keyPrefix name maxUses expires now) t = Inr (fst (InsertDeployKey t userID keyHash keyPrefix name maxUses expires now), ())"
| "exec_deploy (RevokeOp userID kid now) t = Inr (fst (RevokeDeployKeyByIDForUser t userID kid now), ())"
| "exec_deploy (SpendOp keyHash now) t = rbind (ConsumeDeployKeyUse t keyHash now) (\<lambda>(t', _). Inr (t', ()))"

text \<open>How many of the operations spend a use of a key.\<close>

fun spends :: "string \<Rightarrow> deploy_op \<Rightarrow> deploy_table \<Rightarrow> bool" where
  "spends h (SpendOp keyHash now) t = (keyHash = h \<and> \<not> isl (ConsumeDeployKeyUse t keyHash now))"
| "spends h op t = False"

fun uses_of :: "string \<Rightarrow> deploy_op list \<Rightarrow> deploy_table \<Rightarrow> int" where
  "uses_of h [] t = 0"
| "uses_of h (op # ops) t = (if spends h op t then 1 else 0) + uses_of h ops (run_ops exec_deploy [op] t)"

definition deploy_key_ok :: "DeployKeyInfo \<Rightarrow> bool" where
  "deploy_key_ok k \<longleftrightarrow> 0 \<le> UseCount k \<and> 0 \<le> MaxUses k \<and> (MaxUses k = 0 \<or> UseCount k \<le> MaxUses k)"

definition deploy_inv :: "deploy_table \<Rightarrow> bool" where
  "deploy_inv t \<longleftrightarrow> keys_distinct dk_ID (deploy_keys t) \<and> keys_distinct dk_KeyHash (deploy_keys t) \<and> (\<forall>k\<in>set (deploy_keys t). deploy_key_ok k \<and> dk_ID k < next_deploy t)"

text \<open>A key keeps its identity, its name and its budget; once revoked it does not change any more.\<close>

definition key_later :: "DeployKeyInfo \<Rightarrow> DeployKeyInfo \<Rightarrow> bool" where
  "key_later k k' \<longleftrightarrow> dk_ID k' = dk_ID k \<and> dk_UserID k' = dk_UserID k \<and> dk_KeyHash k' = dk_KeyHash k \<and> dk_Name k' = dk_Name k \<and> MaxUses k' = MaxUses k \<and>
     UseCount k \<le> UseCount k' \<and> (dk_RevokedAt k \<noteq> None \<longrightarrow> k' = k)"

definition deploy_later :: "deploy_table \<Rightarrow> deploy_table \<Rightarrow> bool" where
  "deploy_later t t' \<longleftrightarrow> (\<forall>k\<in>set (deploy_keys t). \<exists>k'\<in>set (deploy_keys t'). key_later k k')"

text \<open>What a link leaves behind: a use of the key is spent and the instance added, or neither.\<close>

definition linked :: "link_state \<Rightarrow> link_state \<Rightarrow> instant \<Rightarrow> DeployKeyInfo \<Rightarrow> string \<Rightarrow> InstanceInfo \<Rightarrow> bool" where
  "linked s s' now key peerID row \<longleftrightarrow> Usable key now \<and>
     ls_keys s' = (ls_keys s)\<lparr>deploy_keys := update_row dk_KeyHash (dk_KeyHash key) (spend now) (deploy_keys (ls_keys s))\<rparr> \<and>
     instances (ls_policy s') = instances (ls_policy s) @ [row] \<and> in_AccountID row = dk_UserID key \<and> in_PeerID row = peerID \<and>
     owns_wallet (ls_wallets s) (dk_UserID key) (OwnerWallet row) \<and> in_AccessMode row = ''restricted''"

definition not_linked :: "link_state \<Rightarrow> link_state \<Rightarrow> bool" where
  "not_linked s s' \<longleftrightarrow> ls_keys s' = ls_keys s \<and> instances (ls_policy s') = instances (ls_policy s)"

definition demo_deploy :: deploy_table where
  "demo_deploy = fst (InsertDeployKey empty_deploy ''acct'' ''h1'' ''otd-0000'' ''node'' 2 None 0)"

text \<open>A node with the peer identifier \<^verbatim>\<open>15W\<close> links with a key of the account: the challenge was issued at 0, and the stand-in for the signature scheme accepts the empty signature.\<close>

definition demo_crypto :: "unit peer_crypto" where
  "demo_crypto = \<lparr>UnmarshalPublicKey = (\<lambda>_. Some ()), IDFromPublicKey = (\<lambda>_. Some ''15W''), pub_Verify = (\<lambda>_ _ sg. sg = [])\<rparr>"

definition demo_link_state :: link_state where
  "demo_link_state = \<lparr>ls_keys = fst (InsertDeployKey empty_deploy ''acct'' ''otd-1'' ''otd-1'' ''node'' 1 None 0),
     ls_policy = empty_policy\<lparr>node_challenges := [\<lparr>nc_ID = ''c'', nc_PeerID = ''15W'', nc_RegionSlug = [], nc_NodeRole = [], nc_Audience = link_audience, NonceHash = ''n'', nc_Message = ''m'',
       nc_IssuedAt = 0, nc_ExpiresAt = challengeTTL, nc_ConsumedAt = None\<rparr>]\<rparr>,
     ls_wallets = snd demo_invited\<rparr>"

definition demo_link_request :: linkRequest where
  "demo_link_request = \<lparr>lr_PeerID = ''15W'', lr_ChallengeID = ''c'', lr_Nonce = ''n'', lr_PublicKey = [], lr_Signature = [], lr_Label = ''box''\<rparr>"

definition demo_link :: "link_state \<times> link_answer" where
  "demo_link = LinkHandler (\<lambda>x. x) demo_crypto 0 (\<lambda>_. Inl ErrPeerUnavailable) demo_link_state 5 ''POST'' ''Bearer otd-1'' (Some demo_link_request)"

section \<open>Every operation keeps the table\<close>

lemma update_later:
  assumes "\<And>k. k \<in> set rows \<Longrightarrow> key k = i \<Longrightarrow> key_later k (f k)"
  shows "\<forall>k\<in>set rows. \<exists>k'\<in>set (update_row key i f rows). key_later k k'"
proof
  fix k
  assume k: "k \<in> set rows"
  have "(if key k = i then f k else k) \<in> set (update_row key i f rows)" using k by (auto simp: update_row_def)
  moreover have "key_later k (if key k = i then f k else k)" using assms k by (simp add: key_later_def)
  ultimately show "\<exists>k'\<in>set (update_row key i f rows). key_later k k'" by blast
qed

lemma update_deploy_inv:
  assumes inv: "deploy_inv t" and f: "\<And>k. dk_ID (f k) = dk_ID k" "\<And>k. dk_KeyHash (f k) = dk_KeyHash k"
    and ok: "\<And>k. k \<in> set (deploy_keys t) \<Longrightarrow> key k = i \<Longrightarrow> deploy_key_ok (f k)"
  shows "deploy_inv (t\<lparr>deploy_keys := update_row key i f (deploy_keys t)\<rparr>)"
proof -
  have "map dk_ID (update_row key i f (deploy_keys t)) = map dk_ID (deploy_keys t)" "map dk_KeyHash (update_row key i f (deploy_keys t)) = map dk_KeyHash (deploy_keys t)"
    using f by (simp_all add: update_row_def)
  then show ?thesis using inv ok f(1) by (auto simp: deploy_inv_def keys_distinct_def dest!: set_update_row)
qed

lemma later_refl: "key_later k k"
  by (simp add: key_later_def)

lemma later_trans: "key_later a b \<Longrightarrow> key_later b c \<Longrightarrow> key_later a c"
  by (auto simp: key_later_def)

lemma InsertDeployKey_keeps:
  assumes "deploy_inv t"
  shows "deploy_inv (fst (InsertDeployKey t userID keyHash keyPrefix name maxUses expires now))" and "deploy_later t (fst (InsertDeployKey t userID keyHash keyPrefix name maxUses expires now))"
  using assms by (auto simp: InsertDeployKey_def Let_def deploy_inv_def deploy_later_def deploy_key_ok_def row_simps intro: later_refl)

lemma Revoke_keeps:
  assumes "deploy_inv t"
  shows "deploy_inv (fst (RevokeDeployKeyByIDForUser t userID kid now))" and "deploy_later t (fst (RevokeDeployKeyByIDForUser t userID kid now))"
proof -
  let ?t = "t\<lparr>deploy_keys := update_row dk_ID kid (deploy_revoke_mark userID now) (deploy_keys t)\<rparr>"
  have "deploy_inv ?t" using assms by (intro update_deploy_inv) (auto simp: deploy_revoke_mark_def deploy_inv_def deploy_key_ok_def)
  moreover have "deploy_later t ?t" using update_later [of "deploy_keys t" dk_ID kid "deploy_revoke_mark userID now"]
    by (simp add: deploy_later_def deploy_revoke_mark_def key_later_def)
  moreover have "deploy_later t t" by (auto simp: deploy_later_def intro: later_refl)
  ultimately show "deploy_inv (fst (RevokeDeployKeyByIDForUser t userID kid now))" "deploy_later t (fst (RevokeDeployKeyByIDForUser t userID kid now))"
    using assms by (auto simp: RevokeDeployKeyByIDForUser_def split: option.splits)
qed

lemma ConsumeDeployKeyUse_Inr:
  assumes "ConsumeDeployKeyUse t keyHash now = Inr (t', a)"
  obtains k where "find_row dk_KeyHash keyHash (deploy_keys t) = Some k" "spendable k now" "a = dk_UserID k" "t' = t\<lparr>deploy_keys := update_row dk_KeyHash keyHash (spend now) (deploy_keys t)\<rparr>"
  using assms by (auto simp: ConsumeDeployKeyUse_def split: option.splits if_splits)

lemma Consume_keeps:
  assumes inv: "deploy_inv t" and ok: "ConsumeDeployKeyUse t keyHash now = Inr (t', a)"
  shows "deploy_inv t'" and "deploy_later t t'"
proof -
  obtain k where k: "find_row dk_KeyHash keyHash (deploy_keys t) = Some k" "spendable k now" "t' = t\<lparr>deploy_keys := update_row dk_KeyHash keyHash (spend now) (deploy_keys t)\<rparr>"
    using ConsumeDeployKeyUse_Inr [OF ok] by metis
  have kd: "keys_distinct dk_KeyHash (deploy_keys t)" using inv by (simp add: deploy_inv_def)
  have only: "x = k" if "x \<in> set (deploy_keys t)" "dk_KeyHash x = keyHash" for x using find_row_distinct [OF kd that(1)] that(2) k(1) by simp
  have "deploy_key_ok k" using inv find_row_mem [OF k(1)] by (simp add: deploy_inv_def)
  then have "deploy_key_ok (spend now k)" using k(2) by (auto simp: deploy_key_ok_def spend_def spendable_def)
  then show "deploy_inv t'" unfolding k(3) using only by (intro update_deploy_inv [OF inv]) (auto simp: spend_def)
  have "key_later x (spend now x)" if "x \<in> set (deploy_keys t)" "dk_KeyHash x = keyHash" for x
    using only [OF that] k(2) by (simp add: key_later_def spend_def spendable_def)
  then show "deploy_later t t'" using update_later [of "deploy_keys t" dk_KeyHash keyHash "spend now"] by (simp add: deploy_later_def k(3))
qed

interpretation deploy: tx_store exec_deploy deploy_inv deploy_later
proof
  fix s op s' r
  assume inv: "deploy_inv s" and ok: "exec_deploy op s = Inr (s', r)"
  show "deploy_inv s'" using ok InsertDeployKey_keeps(1) [OF inv] Revoke_keeps(1) [OF inv] Consume_keeps(1) [OF inv] by (cases op) (auto simp: res_simps)
  show "deploy_later s s'" using ok InsertDeployKey_keeps(2) [OF inv] Revoke_keeps(2) [OF inv] Consume_keeps(2) [OF inv] by (cases op) (auto simp: res_simps)
next
  show "deploy_later s s" for s by (auto simp: deploy_later_def intro: later_refl)
  show "deploy_later s u" if "deploy_later s t" "deploy_later t u" for s t u using that by (meson deploy_later_def later_trans)
qed

section \<open>The budget of a key\<close>

lemma step_use:
  assumes inv: "deploy_inv t" and k: "k \<in> set (deploy_keys t)"
  shows "\<exists>k'\<in>set (deploy_keys (run_ops exec_deploy [op] t)). key_later k k' \<and> UseCount k' = UseCount k + (if spends (dk_KeyHash k) op t then 1 else 0)"
proof (cases op)
  case (MintOp userID keyHash keyPrefix name maxUses expires now)
  then have "k \<in> set (deploy_keys (run_ops exec_deploy [op] t))" using k by (simp add: InsertDeployKey_def Let_def)
  then show ?thesis using MintOp by (intro bexI [of _ k]) (simp_all add: later_refl)
next
  case (RevokeOp userID kid now)
  let ?k = "if dk_ID k = kid then deploy_revoke_mark userID now k else k"
  have "k \<in> set (deploy_keys t)" "?k \<in> set (update_row dk_ID kid (deploy_revoke_mark userID now) (deploy_keys t))" using k by (auto simp: update_row_def)
  moreover have "key_later k ?k" "UseCount ?k = UseCount k" "key_later k k" by (simp_all add: key_later_def deploy_revoke_mark_def)
  ultimately have "\<exists>k'\<in>set (deploy_keys (fst (RevokeDeployKeyByIDForUser t userID kid now))). key_later k k' \<and> UseCount k' = UseCount k"
    unfolding RevokeDeployKeyByIDForUser_def by (cases "List.find (\<lambda>k. dk_ID k = kid \<and> dk_UserID k = userID \<and> dk_RevokedAt k = None) (deploy_keys t)") fastforce+
  then show ?thesis using RevokeOp by simp
next
  case (SpendOp keyHash now)
  show ?thesis
  proof (cases "ConsumeDeployKeyUse t keyHash now")
    case (Inl e)
    then show ?thesis using SpendOp k by (auto simp: res_simps intro: later_refl)
  next
    case (Inr r)
    obtain t' a where r: "r = (t', a)" by (cases r)
    obtain x where x: "find_row dk_KeyHash keyHash (deploy_keys t) = Some x" "spendable x now" "t' = t\<lparr>deploy_keys := update_row dk_KeyHash keyHash (spend now) (deploy_keys t)\<rparr>"
      using ConsumeDeployKeyUse_Inr [OF Inr [unfolded r]] by metis
    let ?k = "if dk_KeyHash k = keyHash then spend now k else k"
    have "spendable k now" if "dk_KeyHash k = keyHash" using find_row_distinct [of dk_KeyHash "deploy_keys t" k] inv k x that by (simp add: deploy_inv_def)
    then have "key_later k ?k" by (auto simp: key_later_def spend_def spendable_def)
    moreover have "?k \<in> set (deploy_keys (run_ops exec_deploy [op] t))" using SpendOp k Inr r x(3) by (auto simp: res_simps update_row_def)
    moreover have "UseCount ?k = UseCount k + (if spends (dk_KeyHash k) op t then 1 else 0)" using SpendOp Inr r by (auto simp: spend_def)
    ultimately show ?thesis by blast
  qed
qed

lemma run_uses:
  "deploy_inv t \<Longrightarrow> k \<in> set (deploy_keys t) \<Longrightarrow>
    \<exists>k'\<in>set (deploy_keys (run_ops exec_deploy ops t)). key_later k k' \<and> UseCount k' = UseCount k + uses_of (dk_KeyHash k) ops t"
proof (induction ops arbitrary: t k)
  case Nil
  then show ?case by (auto intro: later_refl)
next
  case (Cons op ops)
  let ?t = "run_ops exec_deploy [op] t"
  obtain k1 where k1: "k1 \<in> set (deploy_keys ?t)" "key_later k k1" "UseCount k1 = UseCount k + (if spends (dk_KeyHash k) op t then 1 else 0)"
    using step_use [OF Cons.prems] by metis
  have inv: "deploy_inv ?t" using deploy.run_keeps [OF Cons.prems(1), of "[op]"] by (rule conjunct1)
  obtain k2 where k2: "k2 \<in> set (deploy_keys (run_ops exec_deploy ops ?t))" "key_later k1 k2" "UseCount k2 = UseCount k1 + uses_of (dk_KeyHash k1) ops ?t"
    using Cons.IH [OF inv k1(1)] by blast
  have "dk_KeyHash k1 = dk_KeyHash k" using k1(2) by (simp add: key_later_def)
  then have "UseCount k2 = UseCount k + uses_of (dk_KeyHash k) (op # ops) t" using k1(3) k2(3) by simp
  moreover have "key_later k k2" using later_trans [OF k1(2) k2(2)] .
  ultimately show ?case using k2(1) by (intro bexI [of _ k2]) simp_all
qed

lemma empty_deploy_inv: "deploy_inv empty_deploy"
  by (simp add: deploy_inv_def empty_deploy_def keys_distinct_def)

lemma demo_deploy_inv: "deploy_inv demo_deploy"
  using InsertDeployKey_keeps(1) [OF empty_deploy_inv] by (simp add: demo_deploy_def)

lemma deploy_key_spent:
  assumes "deploy_inv t" and "k \<in> set (deploy_keys t)" and "MaxUses k > 0"
  shows "UseCount k + uses_of (dk_KeyHash k) ops t \<le> MaxUses k"
proof -
  obtain k' where k': "k' \<in> set (deploy_keys (run_ops exec_deploy ops t))" "key_later k k'" "UseCount k' = UseCount k + uses_of (dk_KeyHash k) ops t"
    using run_uses [OF assms(1,2)] by blast
  have "deploy_key_ok k'" using deploy.run_keeps [OF assms(1)] k'(1) by (simp add: deploy_inv_def)
  then show ?thesis using k'(2,3) assms(3) by (simp add: deploy_key_ok_def key_later_def)
qed

text \<open>C23 (bounds): whatever operations run on the table, interleaved in any order, a key with a finite budget is used successfully at most as often as its budget still allows.\<close>

theorem deploy_key_bounded:
  assumes "deploy_inv t" and "k \<in> set (deploy_keys t)" and "MaxUses k > 0"
  shows "uses_of (dk_KeyHash k) ops t \<le> UsesLeft k"
  using deploy_key_spent [OF assms, of ops] assms(3) by (simp add: UsesLeft_def)

lemma demo_deploy_key: "deploy_keys demo_deploy = [\<lparr>dk_ID = 1, dk_UserID = ''acct'', dk_KeyHash = ''h1'', dk_KeyPrefix = ''otd-0000'', dk_Name = Some ''node'', MaxUses = 2, UseCount = 0,
    dk_ExpiresAt = None, dk_LastUsedAt = None, dk_Active = True, dk_CreatedAt = 0, dk_RevokedAt = None\<rparr>]"
  by (simp add: demo_deploy_def InsertDeployKey_def empty_deploy_def row_simps Let_def)

lemma demo_uses: "uses_of ''h1'' [SpendOp ''h1'' 1, SpendOp ''h1'' 2, SpendOp ''h1'' 3] demo_deploy = 2"
  by code_simp

theorem deploy_key_bounded_witness:
  "uses_of ''h1'' [SpendOp ''h1'' 1, SpendOp ''h1'' 2, SpendOp ''h1'' 3] demo_deploy = 2 \<and>
   uses_of ''h1'' [SpendOp ''h1'' 1, SpendOp ''h1'' 2, SpendOp ''h1'' 3] demo_deploy \<le> UsesLeft (hd (deploy_keys demo_deploy))"
  using deploy_key_bounded [OF demo_deploy_inv, of "hd (deploy_keys demo_deploy)" "[SpendOp ''h1'' 1, SpendOp ''h1'' 2, SpendOp ''h1'' 3]"] demo_uses by (simp add: demo_deploy_key)

section \<open>Revocation\<close>

text \<open>After a revocation the key with that digest is neither found nor spent, whatever runs later.\<close>

lemma revoked_deploy_key_refused:
  assumes inv: "deploy_inv t" and rev: "RevokeDeployKeyByIDForUser t userID kid now = (t', Some h)"
  shows "isl (FindActiveDeployKey (run_ops exec_deploy ops t') h now') \<and> ConsumeDeployKeyUse (run_ops exec_deploy ops t') h now' = Inl StoreNotFound"
proof -
  obtain k where k: "List.find (\<lambda>k. dk_ID k = kid \<and> dk_UserID k = userID \<and> dk_RevokedAt k = None) (deploy_keys t) = Some k" "h = dk_KeyHash k"
    and t': "t' = t\<lparr>deploy_keys := update_row dk_ID kid (deploy_revoke_mark userID now) (deploy_keys t)\<rparr>"
    using rev by (auto simp: RevokeDeployKeyByIDForUser_def split: option.splits)
  have mem: "k \<in> set (deploy_keys t)" "dk_ID k = kid \<and> dk_UserID k = userID \<and> dk_RevokedAt k = None" using k(1) by (auto simp: find_Some_iff)
  let ?k = "k\<lparr>dk_RevokedAt := Some now, dk_Active := False\<rparr>" and ?u = "run_ops exec_deploy ops t'"
  have "?k \<in> set (deploy_keys t')" using mem by (force simp: t' update_row_def deploy_revoke_mark_def)
  moreover have inv': "deploy_inv t'" using Revoke_keeps(1) [OF inv, of userID kid now] by (simp add: rev)
  ultimately obtain k' where k': "k' \<in> set (deploy_keys ?u)" "key_later ?k k'" using run_uses by blast
  have "k' = ?k" using k'(2) by (simp add: key_later_def)
  moreover have "keys_distinct dk_KeyHash (deploy_keys ?u)" using deploy.run_keeps [OF inv', of ops] by (simp add: deploy_inv_def)
  ultimately have "find_row dk_KeyHash h (deploy_keys ?u) = Some ?k" using find_row_distinct [OF _ k'(1)] k(2) by fastforce
  then show ?thesis by (simp add: FindActiveDeployKey_def ConsumeDeployKeyUse_def spendable_def scanDeployKey_def res_simps)
qed

section \<open>Linking\<close>

lemma unclaimed_peer: "GetInstanceByPeerID p peer = Inl e \<Longrightarrow> \<not> has_row in_PeerID peer (instances p)"
  by (auto simp: GetInstanceByPeerID_def getInstance_def res_simps has_row_find find_row_def split: option.splits)

lemma wallet_set_owned:
  assumes "GetUserWalletSet db a = w # ws"
  shows "owns_wallet db a w"
proof -
  have "w \<in> set (GetUserWalletSet db a)" using assms by simp
  then show ?thesis by (auto simp: GetUserWalletSet_def owns_wallet_def list_ex_iff)
qed

lemma new_link_created:
  assumes "\<not> has_row in_PeerID peer (instances p)" and "owns_wallet db a w"
  obtains row where "CreateInstance p db (new_link a peer label w) now = Inr (p\<lparr>instances := instances p @ [row], next_instance := next_instance p + 1\<rparr>, row)"
    "in_AccountID row = a" "in_PeerID row = peer" "OwnerWallet row = w" "in_AccessMode row = ''restricted''"
  using assms by (simp add: CreateInstance_def new_link_def bare_def instance_check_def Let_def)

lemma link_proven_outcome:
  assumes key: "find_row dk_KeyHash (dk_KeyHash key) (deploy_keys (ls_keys s)) = Some key"
    and run: "link_proven maxAge lookup s now key peerID label = (s', ans)"
  shows "(\<exists>row. ans = Inr (row, False) \<and> linked s s' now key peerID row) \<or> (s' = s \<and> (\<forall>row. ans \<noteq> Inr (row, False)))"
proof (cases "GetInstanceByPeerID (ls_policy s) peerID")
  case (Inr existing)
  then show ?thesis using run by (auto simp: link_proven_def split: if_splits)
next
  case (Inl e)
  note new = unclaimed_peer [OF Inl]
  show ?thesis
  proof (cases "GetUserWalletSet (ls_wallets s) (dk_UserID key)")
    case Nil
    then show ?thesis using run Inl by (auto simp: link_proven_def split: if_splits)
  next
    case (Cons w ws)
    obtain row where row: "CreateInstance (ls_policy s) (ls_wallets s) (new_link (dk_UserID key) peerID label w) now =
        Inr ((ls_policy s)\<lparr>instances := instances (ls_policy s) @ [row], next_instance := next_instance (ls_policy s) + 1\<rparr>, row)"
      "in_AccountID row = dk_UserID key" "in_PeerID row = peerID" "OwnerWallet row = w" "in_AccessMode row = ''restricted''"
      using new_link_created [OF new wallet_set_owned [OF Cons]] by metis
    show ?thesis using run Inl Cons row key wallet_set_owned [OF Cons]
      by (auto simp: link_proven_def linked_def ConsumeDeployKeyUse_def Let_def split: if_splits policy_error.splits)
  qed
qed

lemma authorized_row:
  assumes "link_authorized hash t now authz = Some key"
  shows "find_row dk_KeyHash (dk_KeyHash key) (deploy_keys t) = Some key"
proof -
  obtain h where "FindActiveDeployKey t h now = Inr key" using assms by (auto simp: link_authorized_def Let_def split: if_splits sum.splits)
  then have h: "find_row dk_KeyHash h (deploy_keys t) = Some key" by (auto simp: FindActiveDeployKey_def scanDeployKey_def res_simps split: option.splits if_splits)
  then show ?thesis using find_row_key [OF h] by simp
qed

lemma Consume_challenge_tables:
  "ConsumeNodeCredentialChallenge h p cid peer nonce audience now = Inr (p', c) \<Longrightarrow> instances p' = instances p"
  by (auto simp: ConsumeNodeCredentialChallenge_def split: option.splits if_splits)

lemma link_refused: "not_linked s s"
  by (simp add: not_linked_def)

text \<open>What an answered link request has passed before the last part of the handler runs.\<close>

lemma LinkHandler_cases:
  assumes "LinkHandler hash crypt maxAge lookup s now httpMethod authz body = (s', ans)"
  obtains (early) "not_linked s s'" "isl ans"
  | (proven) key req p ch where "link_authorized hash (ls_keys s) now authz = Some key" "body = Some req" "ValidPeerID (TrimSpace (lr_PeerID req))"
      "ConsumeNodeCredentialChallenge (HashKey hash) (ls_policy s) (lr_ChallengeID req) (TrimSpace (lr_PeerID req)) (lr_Nonce req) link_audience now = Inr (p, ch)"
      "verifyPeerProof crypt (lr_PublicKey req) (lr_Signature req) (TrimSpace (lr_PeerID req)) (nc_Message ch)"
      "link_proven maxAge lookup (s\<lparr>ls_policy := p\<rparr>) now key (TrimSpace (lr_PeerID req)) (lr_Label req) = (s', ans)"
proof (cases "link_authorized hash (ls_keys s) now authz")
  case None
  then show ?thesis using assms early by (auto simp: LinkHandler_def link_refused split: if_splits)
next
  case (Some key)
  note key = Some
  show ?thesis
  proof (cases body)
    case None
    then show ?thesis using assms key early by (auto simp: LinkHandler_def link_refused split: if_splits)
  next
    case (Some req)
    show ?thesis
    proof (cases "ConsumeNodeCredentialChallenge (HashKey hash) (ls_policy s) (lr_ChallengeID req) (TrimSpace (lr_PeerID req)) (lr_Nonce req) link_audience now")
      case (Inl e)
      then show ?thesis using assms key Some early by (auto simp: LinkHandler_def link_refused Let_def split: if_splits policy_error.splits)
    next
      case (Inr r)
      obtain p ch where r: "r = (p, ch)" by (cases r)
      have "not_linked s (s\<lparr>ls_policy := p\<rparr>)" using Consume_challenge_tables [OF Inr [unfolded r]] by (simp add: not_linked_def)
      then show ?thesis using assms key Some Inr r early proven [OF key Some] by (auto simp: LinkHandler_def link_refused Let_def split: if_splits)
    qed
  qed
qed

text \<open>C24 (functional): a link request that is answered with a new instance came with a usable key and a peer identifier proven by a signature over a pending challenge; it spends exactly one use of
  that key and appends one restricted instance of the key's account, owned by a wallet linked to that account. Every other answer leaves the keys and the instances as they were.\<close>

theorem link_spends_one_use:
  assumes "LinkHandler hash crypt maxAge lookup s now httpMethod authz body = (s', ans)"
  shows "case ans of
      Inr (row, False) \<Rightarrow> \<exists>key req p ch. link_authorized hash (ls_keys s) now authz = Some key \<and> body = Some req \<and>
        ConsumeNodeCredentialChallenge (HashKey hash) (ls_policy s) (lr_ChallengeID req) (in_PeerID row) (lr_Nonce req) link_audience now = Inr (p, ch) \<and>
        verifyPeerProof crypt (lr_PublicKey req) (lr_Signature req) (in_PeerID row) (nc_Message ch) \<and> linked s s' now key (TrimSpace (lr_PeerID req)) row
    | _ \<Rightarrow> not_linked s s'"
  using assms
proof (cases rule: LinkHandler_cases)
  case early
  then show ?thesis by (cases ans) simp_all
next
  case (proven key req p ch)
  let ?s = "s\<lparr>ls_policy := p\<rparr>"
  have key: "find_row dk_KeyHash (dk_KeyHash key) (deploy_keys (ls_keys ?s)) = Some key" using authorized_row [OF proven(1)] by simp
  have same: "instances p = instances (ls_policy s)" using Consume_challenge_tables [OF proven(4)] .
  consider (new) row where "ans = Inr (row, False)" "linked ?s s' now key (TrimSpace (lr_PeerID req)) row" | (kept) "s' = ?s" "\<forall>row. ans \<noteq> Inr (row, False)"
    using link_proven_outcome [OF key proven(6)] by blast
  then show ?thesis
  proof cases
    case new
    then have "linked s s' now key (TrimSpace (lr_PeerID req)) row" "in_PeerID row = TrimSpace (lr_PeerID req)" by (simp_all add: linked_def same)
    then show ?thesis using new(1) proven by auto
  next
    case kept
    then have "not_linked s s'" by (simp add: not_linked_def same)
    then show ?thesis using kept(2) by (auto split: sum.splits prod.splits bool.splits)
  qed
qed

lemma demo_link_new: "(case snd demo_link of Inr (row, False) \<Rightarrow> (in_AccountID row, OwnerWallet row, UseCount (hd (deploy_keys (ls_keys (fst demo_link))))) = (''acct'', ''wallet1'', 1) | _ \<Rightarrow> False)"
  by code_simp

theorem link_spends_one_use_witness:
  "\<exists>row key. snd demo_link = Inr (row, False) \<and> in_AccountID row = ''acct'' \<and> linked demo_link_state (fst demo_link) 5 key ''15W'' row"
proof -
  obtain row where row: "snd demo_link = Inr (row, False)" "in_AccountID row = ''acct''" using demo_link_new by (auto split: sum.splits prod.splits bool.splits)
  have "LinkHandler (\<lambda>x. x) demo_crypto 0 (\<lambda>_. Inl ErrPeerUnavailable) demo_link_state 5 ''POST'' ''Bearer otd-1'' (Some demo_link_request) = (fst demo_link, snd demo_link)"
    by (simp add: demo_link_def)
  then obtain key where "linked demo_link_state (fst demo_link) 5 key (TrimSpace (lr_PeerID demo_link_request)) row" using link_spends_one_use row(1) by fastforce
  moreover have "TrimSpace (lr_PeerID demo_link_request) = ''15W''" by code_simp
  ultimately show ?thesis using row by auto
qed

section \<open>What the routes do not do\<close>

lemma scan_all_isl: "isl (scan_all ks) \<longleftrightarrow> (\<exists>k\<in>set ks. dk_Name k = None)"
proof (induction ks)
  case (Cons k ks)
  then show ?case by (cases "scan_all ks") (auto simp: scanDeployKey_def res_simps)
qed simp

text \<open>A key without a name is stored, although its creation is answered with an error, and from then on the keys of its account cannot be listed any more: the empty name becomes NULL, which does not
  scan into a string. Revoking the key does not help, since revoked keys are listed too.\<close>

lemma unnamed_key_breaks_listing:
  assumes inv: "deploy_inv t" and new: "0 \<le> maxUses" "\<not> has_row dk_KeyHash keyHash (deploy_keys t)"
    and ins: "InsertDeployKey t userID keyHash keyPrefix [] maxUses expires now = (t', r)"
  shows "isl r \<and> isl (ListDeployKeysByUser (run_ops exec_deploy ops t') userID)"
proof -
  obtain k where k: "t' = t\<lparr>deploy_keys := deploy_keys t @ [k], next_deploy := next_deploy t + 1\<rparr>" "r = scanDeployKey k" "dk_Name k = None" "dk_UserID k = userID"
    using ins new by (auto simp: InsertDeployKey_def Let_def)
  have "deploy_inv t'" using InsertDeployKey_keeps(1) [OF inv, of userID keyHash keyPrefix "[]" maxUses expires now] by (simp add: ins)
  moreover have "k \<in> set (deploy_keys t')" using k(1) by simp
  ultimately obtain k' where "k' \<in> set (deploy_keys (run_ops exec_deploy ops t'))" "key_later k k'" using run_uses by blast
  then have "isl (ListDeployKeysByUser (run_ops exec_deploy ops t') userID)" using k(3,4) by (auto simp: ListDeployKeysByUser_def scan_all_isl key_later_def)
  then show ?thesis using k(2,3) by (simp add: scanDeployKey_def)
qed

text \<open>A lifetime of \<open>2 ^ 55\<close> seconds is far above the bound of 90 days; its product with a second wraps to zero, and the key never expires.\<close>

lemma long_lifetime_never_expires:
  "(case snd (post_deploy_key (\<lambda>x. x) 5 (Some [1, 2]) empty_deploy ''acct'' (Some \<lparr>cr_Name = ''node'', cr_MaxUses = None, TTLSeconds = 2 ^ 55\<rparr>) 0) of
      Inr (token, k) \<Rightarrow> dk_ExpiresAt k = None | Inl _ \<Rightarrow> False)"
  by code_simp

end
