(* ===== verification/Market.thy ===== *)
theory Market
  imports Policy_Store Mesh Go_Text "HOL-Library.Multiset"
begin

text \<open>
  The market: asks and price sheets in the store (\<^verbatim>\<open>store/billing.go\<close>, \<^verbatim>\<open>store/model_pricing.go\<close>), the refresher that republishes configured asks
  (\<^verbatim>\<open>internal/askrefresh\<close>), the peer snapshot filtered by instance policy (\<^verbatim>\<open>internal/peers\<close>), and the part of the billing gate that turns them into quotes
  (\<^verbatim>\<open>internal/billinggate\<close>: caps, \<^verbatim>\<open>resolveQuotes\<close>, \<^verbatim>\<open>sortQuotes\<close>).

  Go maps are association lists with distinct keys, in the order an iteration happens to visit them. The fetch of the node table, the mesh observations and
  the policy store are arguments.

  The lemmas show that the published rates stay within their bounds, that a trusted service never reaches the snapshot, that the in-place insertion sort is
  the stable sort by rate and peer id, and that the quotes of a request do not depend on the order of any map.
\<close>

section \<open>Tables\<close>

record model_cap_row =
  mcr_account :: string
  mcr_caps :: ModelCaps

record market =
  peer_asks :: "Ask list"
  account_model_caps :: "model_cap_row list"
  peer_ask_config :: "Ask list"

definition ask_key :: "Ask \<Rightarrow> string \<times> string \<times> string" where
  "ask_key a = (ask_peer_id a, ask_service a, ask_model a)"

definition rate_ok :: "int64 \<Rightarrow> bool" where
  "rate_ok r \<longleftrightarrow> 0 \<le> r \<and> r < MaxBaseRate"

text \<open>The CHECK constraints of \<^verbatim>\<open>peer_asks\<close> and \<^verbatim>\<open>peer_ask_config\<close>.\<close>

definition ask_check :: "Ask \<Rightarrow> bool" where
  "ask_check a \<longleftrightarrow> rate_ok (ask_in a) \<and> rate_ok (ask_cached a) \<and> rate_ok (ask_out a)"

fun insert_asks :: "Ask list \<Rightarrow> Ask list \<Rightarrow> Ask list res" where
  "insert_asks rows [] = Inr rows"
| "insert_asks rows (a # as) =
     (if has_row ask_key (ask_key a) rows then Inl (ErrPg UniqueViolation)
      else if \<not> ask_check a then Inl (ErrPg CheckViolation)
      else insert_asks (rows @ [a]) as)"

section \<open>Asks\<close>

definition maxAsksPerReplacement :: nat where
  "maxAsksPerReplacement = 256"

definition seen_key :: "Ask \<Rightarrow> string" where
  "seen_key a = ask_service a @ CHR 0x00 # ask_model a"

fun validate_loop :: "string list \<Rightarrow> Ask list \<Rightarrow> unit res" where
  "validate_loop seen [] = Inr ()"
| "validate_loop seen (a # as) =
     (if ask_service a = [] \<or> ask_model a = [] then Inl ErrConflict
      else if seen_key a \<in> set seen then Inl ErrConflict
      else if ask_in a < 0 \<or> ask_cached a < 0 \<or> ask_out a < 0 then Inl ErrConflict
      else if ask_in a \<ge> MaxBaseRate \<or> ask_cached a \<ge> MaxBaseRate \<or> ask_out a \<ge> MaxBaseRate then Inl ErrConflict
      else validate_loop (seen_key a # seen) as)"

definition validateAsks :: "Ask list \<Rightarrow> unit res" where
  "validateAsks asks = (if length asks > maxAsksPerReplacement then Inl ErrConflict else validate_loop [] asks)"

text \<open>\<^verbatim>\<open>COALESCE(MAX(revision), 0) + 1\<close>, a BIGINT.\<close>

definition next_revision :: "string \<Rightarrow> Ask list \<Rightarrow> int64 res" where
  "next_revision peerID rows =
     (let m = fold max (map ask_revision (filter (\<lambda>a. ask_peer_id a = peerID) rows)) 0 in
      if m + 1 > max_int64 then Inl (ErrPg NumericOutOfRange) else Inr (m + 1))"

definition ReplaceAsks :: "market \<Rightarrow> string \<Rightarrow> Ask list \<Rightarrow> int \<Rightarrow> instant \<Rightarrow> (market \<times> int64) res" where
  "ReplaceAsks mk peerID asks ttl now =
     (if peerID = [] then Inl ErrConflict
      else if ttl \<le> 0 then Inl ErrConflict
      else rbind (validateAsks asks) (\<lambda>_.
        let others = filter (\<lambda>a. ask_peer_id a \<noteq> peerID) (peer_asks mk) in
        if asks = [] then Inr (mk\<lparr>peer_asks := others\<rparr>, 0)
        else
          rbind (next_revision peerID (peer_asks mk)) (\<lambda>newRev.
          rbind (insert_asks others (map (\<lambda>a. a\<lparr>ask_peer_id := peerID, ask_revision := newRev, ask_expires_at := now + ttl,
                    ask_updated_at := now\<rparr>) asks)) (\<lambda>rows.
            Inr (mk\<lparr>peer_asks := rows\<rparr>, newRev)))))"

definition LiveAsks :: "market \<Rightarrow> string \<Rightarrow> string \<Rightarrow> instant \<Rightarrow> Ask list" where
  "LiveAsks mk service model now =
     sort_key (\<lambda>a. (ask_in a, ask_peer_id a))
       (filter (\<lambda>a. ask_service a = service \<and> ask_model a = model \<and> ask_expires_at a > now) (peer_asks mk))"

definition LiveAsksByPeers :: "market \<Rightarrow> string list \<Rightarrow> instant \<Rightarrow> Ask list" where
  "LiveAsksByPeers mk peerIDs now =
     (if peerIDs = [] then []
      else sort_key ask_key (filter (\<lambda>a. ask_peer_id a \<in> set peerIDs \<and> ask_expires_at a > now) (peer_asks mk)))"

section \<open>Price sheets\<close>

definition ModelCapsForAccount :: "market \<Rightarrow> string \<Rightarrow> ModelCaps list" where
  "ModelCapsForAccount mk accountID =
     sort_key (\<lambda>r. (mc_service r, mc_model r))
       (map mcr_caps (filter (\<lambda>r. mcr_account r = accountID) (account_model_caps mk)))"

fun cap_ok :: "int64 option \<Rightarrow> bool" where
  "cap_ok None \<longleftrightarrow> True"
| "cap_ok (Some c) \<longleftrightarrow> rate_ok c"

definition model_caps_check :: "ModelCaps \<Rightarrow> bool" where
  "model_caps_check r \<longleftrightarrow> cap_ok (mc_in r) \<and> cap_ok (mc_cached r) \<and> cap_ok (mc_out r)"

definition model_cap_key :: "model_cap_row \<Rightarrow> string \<times> string \<times> string" where
  "model_cap_key r = (mcr_account r, mc_service (mcr_caps r), mc_model (mcr_caps r))"

fun insert_model_caps :: "model_cap_row list \<Rightarrow> model_cap_row list \<Rightarrow> model_cap_row list res" where
  "insert_model_caps rows [] = Inr rows"
| "insert_model_caps rows (r # rs) =
     (if has_row model_cap_key (model_cap_key r) rows then Inl (ErrPg UniqueViolation)
      else if \<not> model_caps_check (mcr_caps r) then Inl (ErrPg CheckViolation)
      else insert_model_caps (rows @ [r]) rs)"

definition ReplaceModelCaps :: "market \<Rightarrow> string \<Rightarrow> ModelCaps list \<Rightarrow> market res" where
  "ReplaceModelCaps mk accountID rows =
     rbind (insert_model_caps (filter (\<lambda>r. mcr_account r \<noteq> accountID) (account_model_caps mk))
              (map (\<lambda>r. \<lparr>mcr_account = accountID, mcr_caps = r\<rparr>) rows))
       (\<lambda>rs. Inr (mk\<lparr>account_model_caps := rs\<rparr>))"

text \<open>The durable configuration has no revision and no expiry; \<^verbatim>\<open>updated_at\<close> defaults to the clock.\<close>

definition ReplaceAskConfig :: "market \<Rightarrow> string \<Rightarrow> Ask list \<Rightarrow> instant \<Rightarrow> market res" where
  "ReplaceAskConfig mk peerID asks clock =
     rbind (insert_asks (filter (\<lambda>a. ask_peer_id a \<noteq> peerID) (peer_ask_config mk))
              (map (\<lambda>a. a\<lparr>ask_peer_id := peerID, ask_revision := 0, ask_expires_at := zero_time, ask_updated_at := clock\<rparr>) asks))
       (\<lambda>rows. Inr (mk\<lparr>peer_ask_config := rows\<rparr>))"

text \<open>Grouped by peer, the peers in the order of the query.\<close>

definition group_configs :: "Ask list \<Rightarrow> (string \<times> Ask list) list" where
  "group_configs rows =
     map (\<lambda>p. (p, map (\<lambda>a. a\<lparr>ask_peer_id := []\<rparr>) (filter (\<lambda>a. ask_peer_id a = p) rows))) (remdups (map ask_peer_id rows))"

definition AllAskConfigs :: "market \<Rightarrow> (string \<times> Ask list) list" where
  "AllAskConfigs mk = group_configs (sort_key ask_key (peer_ask_config mk))"

definition AskConfigForPeers :: "market \<Rightarrow> string list \<Rightarrow> (string \<times> Ask list) list" where
  "AskConfigForPeers mk peerIDs =
     (if peerIDs = [] then []
      else group_configs (sort_key ask_key (filter (\<lambda>a. ask_peer_id a \<in> set peerIDs) (peer_ask_config mk))))"

section \<open>Peers\<close>

record PeerService =
  ps_Name :: string
  IdentityGroup :: "string list"

record Peer =
  Connected :: bool
  Service_list :: "PeerService list"

record Entry =
  en_Peer :: Peer
  en_Instance :: "InstanceInfo option"

definition findPermissionlessService :: "InstanceService list \<Rightarrow> string \<Rightarrow> InstanceService option" where
  "findPermissionlessService svcs name =
     List.find (\<lambda>svc. ServiceName svc = name \<and> Exposure svc = ExposurePermissionless) svcs"

text \<open>The entry of one peer of the node table, with the instance the policy store has for it (the last one, where there are several).\<close>

definition snapshot_entry :: "InstanceInfo list \<Rightarrow> string \<Rightarrow> Peer \<Rightarrow> Entry" where
  "snapshot_entry managed peerID peer =
     (case find_row in_PeerID peerID (rev managed) of
        None \<Rightarrow> \<lparr>en_Peer = peer, en_Instance = None\<rparr>
      | Some inst \<Rightarrow>
          if PolicyScope inst = PolicyScopeService then
            \<lparr>en_Peer = peer\<lparr>Service_list := filter (\<lambda>svc. findPermissionlessService (Services inst) (ps_Name svc) \<noteq> None) (Service_list peer)\<rparr>,
             en_Instance = Some inst\<rparr>
          else if Membership inst = None then \<lparr>en_Peer = peer, en_Instance = Some inst\<rparr>
          else \<lparr>en_Peer = peer\<lparr>Service_list := []\<rparr>, en_Instance = Some inst\<rparr>)"

type_synonym snapshot = "(string \<times> Entry) list"

text \<open>
  \<^verbatim>\<open>Service.Snapshot\<close>: the cached snapshot with its fetch time, the node table (\<open>None\<close> where the fetch fails) and the policy store (\<open>None\<close> where there is none, and
  an answer \<open>None\<close> where it fails).
\<close>

definition fetch_snapshot :: "instant \<Rightarrow> (string \<times> Peer) list option \<Rightarrow> (string list \<Rightarrow> InstanceInfo list option) option \<Rightarrow>
    (snapshot \<times> instant) option \<Rightarrow> snapshot res \<times> (snapshot \<times> instant) option" where
  "fetch_snapshot now table policy cached =
     (case table of
        None \<Rightarrow> (Inl (ErrMsg ''peers: upstream''), cached)
      | Some t \<Rightarrow>
          case Option.bind policy (\<lambda>f. f (map fst t)) of
            None \<Rightarrow> (Inl (ErrMsg ''peers: policy unavailable''), cached)
          | Some managed \<Rightarrow>
              let snap = map (\<lambda>(i, p). (i, snapshot_entry managed i p)) t in (Inr snap, Some (snap, now)))"

definition peers_Snapshot :: "int \<Rightarrow> instant \<Rightarrow> (string \<times> Peer) list option \<Rightarrow> (string list \<Rightarrow> InstanceInfo list option) option \<Rightarrow>
    (snapshot \<times> instant) option \<Rightarrow> snapshot res \<times> (snapshot \<times> instant) option" where
  "peers_Snapshot ttl now table policy cached =
     (case cached of
        Some (snap, fetched) \<Rightarrow> if now - fetched < ttl then (Inr snap, cached) else fetch_snapshot now table policy cached
      | None \<Rightarrow> fetch_snapshot now table policy cached)"

section \<open>The refresher\<close>

definition observationFresh :: "int \<Rightarrow> instant \<Rightarrow> PeerObservation \<Rightarrow> bool" where
  "observationFresh maxAge now obs \<longleftrightarrow> (if maxAge \<le> 0 then True else now - ob_ObservedAt obs \<le> maxAge)"

text \<open>One peer of \<^verbatim>\<open>refreshOnce\<close>: the registered instance and the mesh observation, \<open>None\<close> where the lookup fails.\<close>

definition refresh_peer :: "(string \<Rightarrow> InstanceInfo option) \<Rightarrow> (string \<Rightarrow> PeerObservation option) \<Rightarrow> int \<Rightarrow> int \<Rightarrow> instant \<Rightarrow>
    string \<times> Ask list \<Rightarrow> market \<Rightarrow> market" where
  "refresh_peer instance_of lookup maxAge ttl now pa mk =
     (case pa of (peerID, asks) \<Rightarrow>
        if asks = [] then mk
        else case instance_of peerID of
          None \<Rightarrow> mk
        | Some inst \<Rightarrow>
            if \<not> BillableProvider (in_AccountID inst) (OwnerWallet inst) then mk
            else case lookup peerID of
              None \<Rightarrow> mk
            | Some obs \<Rightarrow>
                if \<not> observationFresh maxAge now obs \<or> ob_Wallet obs \<noteq> OwnerWallet inst then mk
                else case ReplaceAsks mk peerID asks ttl now of Inl _ \<Rightarrow> mk | Inr (mk', _) \<Rightarrow> mk')"

definition refreshOnce :: "(string \<Rightarrow> InstanceInfo option) \<Rightarrow> (string \<Rightarrow> PeerObservation option) \<Rightarrow> int \<Rightarrow> int \<Rightarrow> instant \<Rightarrow> market \<Rightarrow> market" where
  "refreshOnce instance_of lookup maxAge ttl now mk = fold (refresh_peer instance_of lookup maxAge ttl now) (AllAskConfigs mk) mk"

section \<open>Caps of a request\<close>

text \<open>A header is its value, the empty string where it is missing. The result is the error of a malformed cap or the cap, if any.\<close>

definition parseCap :: "string \<Rightarrow> int64 option res" where
  "parseCap header =
     (let v = TrimSpace header in
      if v = [] then Inr None
      else case ParseInt v of
        None \<Rightarrow> Inl (ErrMsg ''not an integer'')
      | Some n \<Rightarrow> if n < 0 then Inl (ErrMsg ''negative cap'') else Inr (Some n))"

definition parseRequestCaps :: "string \<Rightarrow> string \<Rightarrow> string \<Rightarrow> Caps res" where
  "parseRequestCaps hin hcached hout =
     rbind (parseCap hin) (\<lambda>i. rbind (parseCap hcached) (\<lambda>c. rbind (parseCap hout) (\<lambda>out.
       Inr \<lparr>cap_in = i, cap_cached = c, cap_out = out\<rparr>)))"

definition acctCaps :: "AccountCredit \<Rightarrow> Caps" where
  "acctCaps a = \<lparr>cap_in = ac_max_in a, cap_cached = ac_max_cached a, cap_out = ac_max_out a\<rparr>"

text \<open>\<open>buyer\<close> is the account of the request context, \<open>None\<close> for a legacy key.\<close>

definition resolveCaps :: "db \<Rightarrow> market \<Rightarrow> string option \<Rightarrow> string \<Rightarrow> string \<Rightarrow> Caps \<Rightarrow> instant \<Rightarrow> (db \<times> Caps) res" where
  "resolveCaps db mk buyer service model reqCaps clock =
     (case buyer of
        None \<Rightarrow> Inl ErrBillingAccountRequired
      | Some b \<Rightarrow>
          rbind (EnsureAccountCredit db b clock) (\<lambda>(db1, _).
          rbind (AccountCredit_get db1 b) (\<lambda>acct.
            Inr (db1, MergeCaps (Effective (acctCaps acct) (ModelCapsForAccount mk b) service model) reqCaps))))"

section \<open>Quotes\<close>

definition maxAllowedPeers :: nat where
  "maxAllowedPeers = 128"

definition peerServesModel :: "Peer \<Rightarrow> string \<Rightarrow> string \<Rightarrow> bool" where
  "peerServesModel p service model \<longleftrightarrow>
     list_ex (\<lambda>svc. ps_Name svc = service \<and> list_ex (\<lambda>g. g = ''model='' @ model) (IdentityGroup svc)) (Service_list p)"

text \<open>The quote of one entry, if it joins the routing set; \<open>askByPeer\<close> is the last ask of the peer.\<close>

definition entry_quote :: "Ask list \<Rightarrow> bool \<Rightarrow> string \<Rightarrow> string \<Rightarrow> string \<times> Entry \<Rightarrow> EligiblePeerQuote option" where
  "entry_quote asks requirePricedPeer service model pe =
     (case pe of (peerID, entry) \<Rightarrow>
        if \<not> peerServesModel (en_Peer entry) service model then None
        else
          let (sellerAccount, ownerWallet) =
                (case en_Instance entry of None \<Rightarrow> ([], []) | Some i \<Rightarrow> (in_AccountID i, OwnerWallet i)) in
          if \<not> BillableProvider sellerAccount ownerWallet then None
          else
            let free = \<lparr>q_peer_id = peerID, q_seller = sellerAccount, q_wallet = ownerWallet, q_revision = 0, q_in = 0, q_cached = 0, q_out = 0\<rparr> in
            case find_row ask_peer_id peerID (rev asks) of
              Some a \<Rightarrow> Some (free\<lparr>q_revision := ask_revision a, q_in := ask_in a, q_cached := ask_cached a, q_out := ask_out a\<rparr>)
            | None \<Rightarrow> if requirePricedPeer \<and> asks \<noteq> [] then None else Some free)"

definition entry_quotes :: "snapshot \<Rightarrow> Ask list \<Rightarrow> bool \<Rightarrow> string \<Rightarrow> string \<Rightarrow> EligiblePeerQuote list" where
  "entry_quotes snap asks requirePricedPeer service model =
     List.map_filter (entry_quote asks requirePricedPeer service model) snap"

definition quote_less :: "EligiblePeerQuote \<Rightarrow> EligiblePeerQuote \<Rightarrow> bool" where
  "quote_less q p \<longleftrightarrow> q_in q < q_in p \<or> (q_in q = q_in p \<and> q_peer_id q < q_peer_id p)"

text \<open>
  The in-place insertion sort: the sorted front part is held in reverse, and the next element is swapped with its left neighbour while it is smaller.
\<close>

fun sink :: "EligiblePeerQuote \<Rightarrow> EligiblePeerQuote list \<Rightarrow> EligiblePeerQuote list" where
  "sink q [] = [q]"
| "sink q (p # front) = (if quote_less q p then p # sink q front else q # p # front)"

definition sortQuotes :: "EligiblePeerQuote list \<Rightarrow> EligiblePeerQuote list" where
  "sortQuotes qs = rev (fold sink qs [])"

definition resolveQuotes :: "snapshot res \<Rightarrow> market \<Rightarrow> bool \<Rightarrow> string \<Rightarrow> string \<Rightarrow> Caps \<Rightarrow> instant \<Rightarrow> EligiblePeerQuote list res" where
  "resolveQuotes snapshot mk requirePricedPeer service model caps now =
     rbind snapshot (\<lambda>snap.
       let quotes = entry_quotes snap (LiveAsks mk service model now) requirePricedPeer service model;
           affordable = sortQuotes (filter (\<lambda>q. Affordable q caps) quotes) in
       if affordable = [] \<and> quotes \<noteq> [] then Inl ErrPriceAboveMax
       else Inr (if length affordable > maxAllowedPeers then take maxAllowedPeers affordable else affordable))"

section \<open>Invariants of the market\<close>

definition asks_ok :: "Ask list \<Rightarrow> bool" where
  "asks_ok rows \<longleftrightarrow> keys_distinct ask_key rows \<and> list_all ask_check rows"

definition market_ok :: "market \<Rightarrow> bool" where
  "market_ok mk \<longleftrightarrow> asks_ok (peer_asks mk) \<and> asks_ok (peer_ask_config mk) \<and>
     keys_distinct model_cap_key (account_model_caps mk) \<and> list_all (\<lambda>r. model_caps_check (mcr_caps r)) (account_model_caps mk)"

definition quote_key :: "EligiblePeerQuote \<Rightarrow> int64 \<times> string" where
  "quote_key q = (q_in q, q_peer_id q)"

section \<open>Lemmas on tables\<close>

lemma asks_ok_filter: "asks_ok rows \<Longrightarrow> asks_ok (filter P rows)"
  by (auto simp: asks_ok_def keys_distinct_def list_all_iff distinct_map_filter)

lemma insert_asks_ok: "insert_asks rows as = Inr rows' \<Longrightarrow> asks_ok rows \<Longrightarrow> asks_ok rows' \<and> rows' = rows @ as"
  by (induction rows as rule: insert_asks.induct)
     (auto simp: asks_ok_def row_simps has_row_def list_ex_iff image_iff split: if_splits)

lemma ReplaceAsks_ok:
  assumes "ReplaceAsks mk peerID asks ttl now = Inr (mk', r)" "market_ok mk"
  shows "market_ok mk'"
    and "peer_asks mk' = filter (\<lambda>a. ask_peer_id a \<noteq> peerID) (peer_asks mk) @
      map (\<lambda>a. a\<lparr>ask_peer_id := peerID, ask_revision := r, ask_expires_at := now + ttl, ask_updated_at := now\<rparr>) asks"
  using assms
  by (auto simp: ReplaceAsks_def res_simps Let_def market_ok_def split: if_splits dest!: insert_asks_ok dest: asks_ok_filter)

lemma insert_model_caps_ok:
  "insert_model_caps rows rs = Inr rows' \<Longrightarrow> keys_distinct model_cap_key rows \<Longrightarrow> list_all (\<lambda>r. model_caps_check (mcr_caps r)) rows \<Longrightarrow>
   keys_distinct model_cap_key rows' \<and> list_all (\<lambda>r. model_caps_check (mcr_caps r)) rows' \<and> rows' = rows @ rs"
  by (induction rows rs rule: insert_model_caps.induct)
     (auto simp: row_simps has_row_def list_ex_iff image_iff split: if_splits)

lemma ReplaceModelCaps_ok: "ReplaceModelCaps mk a rows = Inr mk' \<Longrightarrow> market_ok mk \<Longrightarrow> market_ok mk'"
  by (auto simp: ReplaceModelCaps_def res_simps market_ok_def keys_distinct_def distinct_map_filter list_all_iff
      dest!: insert_model_caps_ok [unfolded keys_distinct_def list_all_iff])

lemma ReplaceAskConfig_ok: "ReplaceAskConfig mk p asks clock = Inr mk' \<Longrightarrow> market_ok mk \<Longrightarrow> market_ok mk'"
  by (auto simp: ReplaceAskConfig_def res_simps market_ok_def dest!: insert_asks_ok dest: asks_ok_filter)

text \<open>Saving a sheet and reading it back gives the sheet, in the order of the query.\<close>

lemma ModelCaps_roundtrip:
  assumes "ReplaceModelCaps mk a rows = Inr mk'" "market_ok mk"
  shows "ModelCapsForAccount mk' a = sort_key (\<lambda>r. (mc_service r, mc_model r)) rows"
    and "b \<noteq> a \<Longrightarrow> ModelCapsForAccount mk' b = ModelCapsForAccount mk b"
proof -
  from assms(1) obtain rs where i: "insert_model_caps (filter (\<lambda>r. mcr_account r \<noteq> a) (account_model_caps mk))
      (map (\<lambda>r. \<lparr>mcr_account = a, mcr_caps = r\<rparr>) rows) = Inr rs" and mk': "mk' = mk\<lparr>account_model_caps := rs\<rparr>"
    by (auto simp: ReplaceModelCaps_def res_simps)
  have rs: "rs = filter (\<lambda>r. mcr_account r \<noteq> a) (account_model_caps mk) @ map (\<lambda>r. \<lparr>mcr_account = a, mcr_caps = r\<rparr>) rows"
    using insert_model_caps_ok [OF i] assms(2) by (auto simp: market_ok_def keys_distinct_def distinct_map_filter list_all_iff)
  show "ModelCapsForAccount mk' a = sort_key (\<lambda>r. (mc_service r, mc_model r)) rows"
    by (simp add: ModelCapsForAccount_def mk' rs filter_map comp_def)
  show "b \<noteq> a \<Longrightarrow> ModelCapsForAccount mk' b = ModelCapsForAccount mk b"
    by (auto simp: ModelCapsForAccount_def mk' rs filter_map comp_def intro!: arg_cong [where f = "sort_key _"] arg_cong [where f = "map _"] filter_cong)
qed

lemma refreshOnce_ok: "market_ok mk \<Longrightarrow> market_ok (refreshOnce inst look maxAge ttl now mk)"
proof -
  have "market_ok mk \<Longrightarrow> market_ok (refresh_peer inst look maxAge ttl now pa mk)" for pa mk
    by (auto simp: refresh_peer_def split: prod.splits option.splits sum.splits dest: ReplaceAsks_ok(1))
  then have "market_ok mk \<Longrightarrow> market_ok (fold (refresh_peer inst look maxAge ttl now) pas mk)" for pas
    by (induction pas arbitrary: mk) auto
  then show "market_ok mk \<Longrightarrow> ?thesis" by (simp add: refreshOnce_def)
qed

text \<open>After a peer's asks are cleared its next publication starts again at revision 1.\<close>

lemma revision_reused:
  assumes "ReplaceAsks mk p [] ttl t1 = Inr (mk1, r1)" "ReplaceAsks mk1 p (a # asks) ttl t2 = Inr (mk2, r2)"
  shows "r2 = 1"
proof -
  have "mk1 = mk\<lparr>peer_asks := filter (\<lambda>a. ask_peer_id a \<noteq> p) (peer_asks mk)\<rparr>"
    using assms(1) by (auto simp: ReplaceAsks_def res_simps Let_def split: if_splits)
  then have "next_revision p (peer_asks mk1) = Inr 1" by (simp add: next_revision_def Let_def)
  with assms(2) show ?thesis by (auto simp: ReplaceAsks_def res_simps Let_def split: if_splits)
qed

section \<open>The snapshot\<close>

text \<open>
  Whatever the node table says, a service the snapshot shows for a managed instance with service policy is exposed to everybody, and an instance that
  belongs to a trusted region shows none.
\<close>

lemma snapshot_entry_filtered:
  assumes "en_Instance (snapshot_entry managed i p) = Some inst" "svc \<in> set (Service_list (en_Peer (snapshot_entry managed i p)))"
  shows "if PolicyScope inst = PolicyScopeService
    then \<exists>s\<in>set (Services inst). ServiceName s = ps_Name svc \<and> Exposure s = ExposurePermissionless
    else Membership inst = None"
  using assms
  by (auto simp: snapshot_entry_def findPermissionlessService_def find_Some_iff split: option.splits if_splits dest!: nth_mem)

section \<open>Sorting\<close>

lemma quote_less_key: "quote_less q p \<longleftrightarrow> quote_key q < quote_key p"
  by (auto simp: quote_less_def quote_key_def less_prod_def)

lemma sink_mset [simp]: "mset (sink q front) = add_mset q (mset front)"
  by (induction front) auto

lemma sink_set [simp]: "set (sink q front) = insert q (set front)"
  by (induction front) auto

lemma sink_sorted: "sorted (map quote_key (rev front)) \<Longrightarrow> sorted (map quote_key (rev (sink q front)))"
  by (induction front) (auto simp: quote_less_key sorted_append)

lemma sink_stable: "sorted (map quote_key (rev front)) \<Longrightarrow>
  filter (\<lambda>x. k = quote_key x) (rev (sink q front)) = filter (\<lambda>x. k = quote_key x) (rev front) @ filter (\<lambda>x. k = quote_key x) [q]"
  by (induction front) (auto simp: quote_less_key sorted_append)

lemma fold_sink:
  "sorted (map quote_key (rev acc)) \<Longrightarrow>
   mset (fold sink qs acc) = mset qs + mset acc \<and> sorted (map quote_key (rev (fold sink qs acc))) \<and>
   filter (\<lambda>x. k = quote_key x) (rev (fold sink qs acc)) = filter (\<lambda>x. k = quote_key x) (rev acc) @ filter (\<lambda>x. k = quote_key x) qs"
proof (induction qs arbitrary: acc)
  case (Cons q qs)
  from Cons.IH [OF sink_sorted [OF Cons.prems, of q]] sink_stable [OF Cons.prems, of k q] show ?case by auto
qed simp

lemma sortQuotes_sort: "sortQuotes qs = sort_key quote_key qs"
proof (rule sym, rule properties_for_sort_key)
  show "mset (sortQuotes qs) = mset qs" using fold_sink [of "[]" qs] by (simp add: sortQuotes_def)
  show "sorted (map quote_key (sortQuotes qs))" using fold_sink [of "[]" qs] by (simp add: sortQuotes_def)
  show "filter (\<lambda>x. quote_key k = quote_key x) (sortQuotes qs) = filter (\<lambda>x. quote_key k = quote_key x) qs" for k
    using fold_sink [of "[]" qs "quote_key k"] by (simp add: sortQuotes_def)
qed

section \<open>Quotes\<close>

lemma entry_quote_peer: "entry_quote asks rp service model (i, e) = Some q \<Longrightarrow> q_peer_id q = i"
  by (auto simp: entry_quote_def Let_def split: if_splits option.splits prod.splits)

lemma entry_quotes_mem: "q \<in> set (entry_quotes snap asks rp service model) \<longleftrightarrow> (\<exists>e\<in>set snap. entry_quote asks rp service model e = Some q)"
  by (force simp: entry_quotes_def List.map_filter_def)

lemma map_filter_distinct:
  assumes "distinct (map fst xs)" "\<And>x q. f x = Some q \<Longrightarrow> g q = fst x"
  shows "distinct (map g (List.map_filter f xs))"
  using assms(1)
proof (induction xs)
  case (Cons x xs)
  have "\<And>q. q \<in> set (List.map_filter f xs) \<Longrightarrow> g q \<in> fst ` set xs"
    using assms(2) by (force simp: List.map_filter_def)
  with Cons assms(2) show ?case by (cases "f x") (fastforce simp: List.map_filter_simps)+
qed (simp add: List.map_filter_simps)

lemma entry_quotes_distinct:
  "distinct (map fst snap) \<Longrightarrow> distinct (map q_peer_id (entry_quotes snap asks rp service model))"
  unfolding entry_quotes_def by (rule map_filter_distinct) (auto dest: entry_quote_peer)

lemma map_filter_mset: "mset xs = mset ys \<Longrightarrow> mset (List.map_filter f xs) = mset (List.map_filter f ys)"
  by (simp add: List.map_filter_def mset_filter)

lemma sorted_key_perm: "inj_on f (set xs) \<Longrightarrow> mset xs = mset ys \<Longrightarrow> sort_key f xs = sort_key f ys"
  by (rule sort_key_inj_key_eq) simp_all

lemma quote_key_inj: "distinct (map q_peer_id qs) \<Longrightarrow> inj_on quote_key (set qs)"
  by (auto simp: distinct_map inj_on_def quote_key_def)

lemma take_min: "(if length xs > n then take n xs else xs) = take n xs"
  by simp

lemma take_sorted_least:
  assumes "sorted (map f xs)" "x \<in> set (take n xs)" "y \<in> set xs" "y \<notin> set (take n xs)"
  shows "f x \<le> f y"
proof -
  have "y \<in> set (drop n xs)" using assms(3,4) by (metis append_take_drop_id in_set_conv_decomp set_append Un_iff)
  moreover have "sorted (map f (take n xs @ drop n xs))" using assms(1) by simp
  ultimately show ?thesis using assms(2) by (auto simp only: map_append sorted_append set_map)
qed

lemma live_ask_rates:
  assumes "market_ok mk" "a \<in> set (LiveAsks mk service model now)"
  shows "ask_check a"
  using assms by (auto simp: market_ok_def asks_ok_def LiveAsks_def list_all_iff)

lemma entry_quote_ok:
  assumes "market_ok mk" "entry_quote (LiveAsks mk service model now) rp service model (i, e) = Some q"
  shows "peerServesModel (en_Peer e) service model" "q_seller q \<noteq> []" "q_wallet q \<noteq> []"
    "rate_ok (q_in q)" "rate_ok (q_cached q)" "rate_ok (q_out q)"
  using assms find_row_mem [of ask_peer_id i "rev (LiveAsks mk service model now)"]
  by (auto simp: entry_quote_def Let_def BillableProvider_def rate_ok_def MaxBaseRate_def ask_check_def
      split: if_splits option.splits prod.splits dest!: live_ask_rates)

lemma resolveQuotes_facts:
  assumes "market_ok mk" "distinct (map fst snap)"
    and "resolveQuotes (Inr snap) mk rp service model caps now = Inr qs"
  defines "all \<equiv> filter (\<lambda>q. Affordable q caps) (entry_quotes snap (LiveAsks mk service model now) rp service model)"
  shows "qs = take 128 (sort_key quote_key all)"
    and "\<forall>q\<in>set qs. Affordable q caps \<and> rate_ok (q_in q) \<and> rate_ok (q_cached q) \<and> rate_ok (q_out q) \<and> q_seller q \<noteq> [] \<and>
      (\<exists>e. (q_peer_id q, e) \<in> set snap \<and> peerServesModel (en_Peer e) service model)"
    and "\<forall>q\<in>set qs. \<forall>p\<in>set all - set qs. quote_key q \<le> quote_key p"
    and "mset snap' = mset snap \<Longrightarrow> resolveQuotes (Inr snap') mk rp service model caps now = Inr qs"
proof -
  let ?asks = "LiveAsks mk service model now"
  have dist: "distinct (map q_peer_id all)" using entry_quotes_distinct [OF assms(2)] by (simp add: all_def distinct_map_filter)
  show qs: "qs = take 128 (sort_key quote_key all)"
    using assms(3) by (auto simp: resolveQuotes_def Let_def all_def sortQuotes_sort maxAllowedPeers_def split: if_splits)
  then have sub: "set qs \<subseteq> set all" using set_take_subset by fastforce
  show "\<forall>q\<in>set qs. Affordable q caps \<and> rate_ok (q_in q) \<and> rate_ok (q_cached q) \<and> rate_ok (q_out q) \<and> q_seller q \<noteq> [] \<and>
      (\<exists>e. (q_peer_id q, e) \<in> set snap \<and> peerServesModel (en_Peer e) service model)"
  proof
    fix q assume "q \<in> set qs"
    with sub obtain i e where e: "(i, e) \<in> set snap" "entry_quote ?asks rp service model (i, e) = Some q" and "Affordable q caps"
      by (auto simp: all_def entry_quotes_mem)
    with entry_quote_ok [OF assms(1) e(2)] entry_quote_peer [OF e(2)]
    show "Affordable q caps \<and> rate_ok (q_in q) \<and> rate_ok (q_cached q) \<and> rate_ok (q_out q) \<and> q_seller q \<noteq> [] \<and>
        (\<exists>e. (q_peer_id q, e) \<in> set snap \<and> peerServesModel (en_Peer e) service model)" by blast
  qed
  show "\<forall>q\<in>set qs. \<forall>p\<in>set all - set qs. quote_key q \<le> quote_key p"
    using take_sorted_least [of quote_key "sort_key quote_key all" _ 128] by (auto simp: qs)
  assume m: "mset snap' = mset snap"
  let ?all' = "filter (\<lambda>q. Affordable q caps) (entry_quotes snap' ?asks rp service model)"
  have ms: "mset (entry_quotes snap' ?asks rp service model) = mset (entry_quotes snap ?asks rp service model)"
    unfolding entry_quotes_def using m by (rule map_filter_mset)
  then have "mset ?all' = mset all" by (simp add: all_def mset_filter)
  then have "sort_key quote_key ?all' = sort_key quote_key all"
    by (metis sorted_key_perm quote_key_inj [OF dist])
  moreover have "(entry_quotes snap' ?asks rp service model = []) = (entry_quotes snap ?asks rp service model = [])"
    using ms by (metis mset_zero_iff)
  ultimately show "resolveQuotes (Inr snap') mk rp service model caps now = Inr qs"
    using assms(3) unfolding resolveQuotes_def rbind.simps Let_def sortQuotes_sort all_def by (simp only:)
qed

text \<open>
  C14 (the quotes of a request). When the gate resolves quotes, they are the at most 128 cheapest of the affordable ones, by input rate and then peer id: every quote is within all
  three caps and within the rate bounds, belongs to a billable peer of the snapshot that serves the model, and no affordable quote that was left out is cheaper. Neither the
  order in which the peer map is visited nor anything else changes the result.
\<close>

theorem resolveQuotes_cheapest:
  assumes "market_ok mk" "distinct (map fst snap)"
    and "resolveQuotes (Inr snap) mk rp service model caps now = Inr qs"
    and "all = filter (\<lambda>q. Affordable q caps) (entry_quotes snap (LiveAsks mk service model now) rp service model)"
  shows "qs = take 128 (sort_key quote_key all) \<and>
    (\<forall>q\<in>set qs. Affordable q caps \<and> rate_ok (q_in q) \<and> rate_ok (q_cached q) \<and> rate_ok (q_out q) \<and> q_seller q \<noteq> [] \<and>
      (\<exists>e. (q_peer_id q, e) \<in> set snap \<and> peerServesModel (en_Peer e) service model)) \<and>
    (\<forall>q\<in>set qs. \<forall>p\<in>set all - set qs. quote_key q \<le> quote_key p) \<and>
    (\<forall>snap'. mset snap' = mset snap \<longrightarrow> resolveQuotes (Inr snap') mk rp service model caps now = Inr qs)"
  unfolding assms(4) using resolveQuotes_facts [OF assms(1-3)] by (intro conjI allI impI)

text \<open>A peer that is not connected to the mesh is quoted like any other.\<close>

lemma disconnected_peer_quoted:
  "peerServesModel (p\<lparr>Connected := False\<rparr>) service model = peerServesModel p service model"
  by (simp add: peerServesModel_def)

theorem resolveQuotes_cheapest_witness:
  "let inst = demo_instance\<lparr>in_PeerID := ''p'', in_AccountID := ''ann'', OwnerWallet := ''w'', PolicyScope := ''peer''\<rparr>;
       peer = \<lparr>Connected = True, Service_list = [\<lparr>ps_Name = ''llm'', IdentityGroup = [''model=m'']\<rparr>]\<rparr>;
       ask = \<lparr>ask_peer_id = ''p'', ask_service = ''llm'', ask_model = ''m'', ask_in = 3, ask_cached = 1, ask_out = 9, ask_revision = 4,
              ask_expires_at = 50, ask_updated_at = 1\<rparr>;
       snap = [(''p'', \<lparr>en_Peer = peer, en_Instance = Some inst\<rparr>)];
       mk = \<lparr>peer_asks = [ask], account_model_caps = [], peer_ask_config = []\<rparr>;
       q = \<lparr>q_peer_id = ''p'', q_seller = ''ann'', q_wallet = ''w'', q_revision = 4, q_in = 3, q_cached = 1, q_out = 9\<rparr> in
   resolveQuotes (Inr snap) mk False ''llm'' ''m'' \<lparr>cap_in = Some 5, cap_cached = None, cap_out = None\<rparr> 10 = Inr [q] \<and>
   Affordable q \<lparr>cap_in = Some 5, cap_cached = None, cap_out = None\<rparr>"
proof -
  let ?inst = "demo_instance\<lparr>in_PeerID := ''p'', in_AccountID := ''ann'', OwnerWallet := ''w'', PolicyScope := ''peer''\<rparr>"
  let ?peer = "\<lparr>Connected = True, Service_list = [\<lparr>ps_Name = ''llm'', IdentityGroup = [''model=m'']\<rparr>]\<rparr>"
  let ?ask = "\<lparr>ask_peer_id = ''p'', ask_service = ''llm'', ask_model = ''m'', ask_in = 3, ask_cached = 1, ask_out = 9, ask_revision = 4,
              ask_expires_at = 50, ask_updated_at = 1\<rparr>"
  let ?snap = "[(''p'', \<lparr>en_Peer = ?peer, en_Instance = Some ?inst\<rparr>)]"
  let ?mk = "\<lparr>peer_asks = [?ask], account_model_caps = [], peer_ask_config = []\<rparr>"
  let ?q = "\<lparr>q_peer_id = ''p'', q_seller = ''ann'', q_wallet = ''w'', q_revision = 4, q_in = 3, q_cached = 1, q_out = 9\<rparr>"
  let ?caps = "\<lparr>cap_in = Some 5, cap_cached = None, cap_out = None\<rparr>"
  have r: "resolveQuotes (Inr ?snap) ?mk False ''llm'' ''m'' ?caps 10 = Inr [?q]" by code_simp
  have ok: "market_ok ?mk" by code_simp
  have "distinct (map fst ?snap)" by simp
  from resolveQuotes_cheapest [OF ok this r refl] r show ?thesis unfolding Let_def by auto
qed

end
