(* ===== verification/Request_Gate.thy ===== *)
theory Request_Gate
  imports Market Billing_Requests
begin

text \<open>
  The billing gate in front of the inference proxy (\<^verbatim>\<open>internal/gate/inspect.go\<close>, \<^verbatim>\<open>internal/billinggate/gate.go\<close>) and the settlement hook behind it
  (\<^verbatim>\<open>internal/settlement/settle.go\<close>).

  A request body is what the two JSON readers of the gate see: the tokens of the inspected prefix (\<^verbatim>\<open>json.Decoder.Token\<close>), the decoded object of the whole body
  (\<^verbatim>\<open>json.Unmarshal\<close> into a map), and its length. \<open>json_tokens\<close> is the token stream of a value, which ties the first two together for a body within the inspected prefix.
  Random ids, the clock and the peer snapshot are arguments; the parsed usage of a response (\<^verbatim>\<open>perf.SettleUsage\<close>) is the argument of the callback.

  The lemmas show that the forwarded body cannot ask for more output than was reserved, as long as its limits are integers; that in enforce mode a metered request is forwarded only
  with a persisted reservation on affordable quotes; and that the whole life of a request, from the gate to the callback, charges at most the reservation.
\<close>

section \<open>Paths and routes\<close>

text \<open>\<^verbatim>\<open>strings.Cut\<close> at a slash, \<^verbatim>\<open>strings.CutPrefix\<close> and \<^verbatim>\<open>strings.TrimPrefix\<close>.\<close>

fun cut_slash :: "string \<Rightarrow> (string \<times> string) option" where
  "cut_slash [] = None"
| "cut_slash (c # cs) = (if c = CHR ''/'' then Some ([], cs) else map_option (\<lambda>(a, b). (c # a, b)) (cut_slash cs))"

definition CutPrefix :: "string \<Rightarrow> string \<Rightarrow> string option" where
  "CutPrefix s p = (if prefix p s then Some (drop (length p) s) else None)"

definition serviceOf :: "string \<Rightarrow> string" where
  "serviceOf path =
     (case CutPrefix path ''/v1/service/'' of
        None \<Rightarrow> []
      | Some rest \<Rightarrow> case cut_slash rest of None \<Rightarrow> [] | Some (svc, _) \<Rightarrow> svc)"

definition routeOf :: "string \<Rightarrow> string" where
  "routeOf path =
     (case CutPrefix path ''/v1/service/'' of
        None \<Rightarrow> []
      | Some rest \<Rightarrow>
          case cut_slash rest of
            None \<Rightarrow> []
          | Some (_, tail) \<Rightarrow>
              let route = (case CutPrefix tail ''v1/'' of None \<Rightarrow> tail | Some t \<Rightarrow> t) in
              if length route > 48 then take 48 route else route)"

definition generativeRoutes :: "string list" where
  "generativeRoutes = [''chat/completions'', ''completions'', ''messages'', ''responses'']"

definition classifyRoute :: "string \<Rightarrow> bool \<times> bool" where
  "classifyRoute route =
     (if route = [] then (False, False)
      else if route \<notin> set generativeRoutes then (if route = ''embeddings'' then (False, True) else (False, False))
      else (True, True))"

section \<open>The inspected prefix\<close>

datatype token = TObj | TObjEnd | TArr | TArrEnd | TStr string | TNum int | TFloat string | TBool bool | TNull

fun json_tokens :: "json \<Rightarrow> token list" where
  "json_tokens JNull = [TNull]"
| "json_tokens (JBool b) = [TBool b]"
| "json_tokens (JNum n) = [TNum n]"
| "json_tokens (JFloat t) = [TFloat t]"
| "json_tokens (JStr s) = [TStr s]"
| "json_tokens (JArr js) = TArr # concat (map json_tokens js) @ [TArrEnd]"
| "json_tokens (JObj fs) = TObj # concat (map (\<lambda>kv. TStr (fst kv) # json_tokens (snd kv)) fs) @ [TObjEnd]"

text \<open>\<^verbatim>\<open>skipValue\<close>: the rest of the tokens.\<close>

fun skipValue :: "int \<Rightarrow> token list \<Rightarrow> token list" where
  "skipValue depth [] = []"
| "skipValue depth (t # ts) =
     (if t = TObj \<or> t = TArr then skipValue (depth + 1) ts
      else if t = TObjEnd \<or> t = TArrEnd then (if depth - 1 \<le> 0 then ts else skipValue (depth - 1) ts)
      else if depth = 0 then ts else skipValue depth ts)"

fun readIntPtr :: "token list \<Rightarrow> int option \<times> token list" where
  "readIntPtr [] = (None, [])"
| "readIntPtr (TNum n # ts) = (if in_int64 n \<and> n > 0 then Some n else None, ts)"
| "readIntPtr (_ # ts) = (None, ts)"

definition read_bool :: "token list \<Rightarrow> bool \<times> token list" where
  "read_bool ts = (case ts of [] \<Rightarrow> (False, []) | TBool b # ts \<Rightarrow> (b, ts) | _ # ts \<Rightarrow> (False, ts))"

function (sequential) include_loop :: "token list \<Rightarrow> bool \<times> token list" where
  "include_loop (TStr k # ts) = (if k = ''include_usage'' then read_bool ts else include_loop (skipValue 0 ts))"
| "include_loop ts = (False, drop 1 ts)"
  by pat_completeness auto
termination
proof (relation "measure length", goal_cases)
  case (2 k ts)
  have "length (skipValue d ts) \<le> length ts" for d ts
    by (induction d ts rule: skipValue.induct) auto
  then show ?case by (simp add: le_imp_less_Suc)
qed simp

definition readIncludeUsage :: "token list \<Rightarrow> bool \<times> token list" where
  "readIncludeUsage ts = (case ts of [] \<Rightarrow> (False, []) | TObj # ts \<Rightarrow> include_loop ts | _ # ts \<Rightarrow> (False, ts))"

record bodyShape =
  bs_Model :: string
  bs_Streaming :: bool
  bs_IncludeUsage :: bool
  MaxTokens :: "int option"
  MaxCompletion :: "int option"
  MaxOutputTokens :: "int option"

definition empty_shape :: bodyShape where
  "empty_shape = \<lparr>bs_Model = [], bs_Streaming = False, bs_IncludeUsage = False, MaxTokens = None, MaxCompletion = None, MaxOutputTokens = None\<rparr>"

text \<open>What the loop does with one key: the shape and the tokens behind the value it consumed.\<close>

definition read_field :: "string \<Rightarrow> token list \<Rightarrow> bodyShape \<Rightarrow> bodyShape \<times> token list" where
  "read_field k ts s =
     (if k = ''model'' then (case ts of TStr m # _ \<Rightarrow> s\<lparr>bs_Model := m\<rparr> | _ \<Rightarrow> s, drop 1 ts)
      else if k = ''stream'' then (case ts of TBool b # _ \<Rightarrow> s\<lparr>bs_Streaming := b\<rparr> | _ \<Rightarrow> s, drop 1 ts)
      else if k = ''max_tokens'' then (s\<lparr>MaxTokens := fst (readIntPtr ts)\<rparr>, snd (readIntPtr ts))
      else if k = ''max_completion_tokens'' then (s\<lparr>MaxCompletion := fst (readIntPtr ts)\<rparr>, snd (readIntPtr ts))
      else if k = ''max_output_tokens'' then (s\<lparr>MaxOutputTokens := fst (readIntPtr ts)\<rparr>, snd (readIntPtr ts))
      else if k = ''stream_options'' then (s\<lparr>bs_IncludeUsage := fst (readIncludeUsage ts)\<rparr>, snd (readIncludeUsage ts))
      else (s, skipValue 0 ts))"

function (sequential) shape_loop :: "token list \<Rightarrow> bodyShape \<Rightarrow> bodyShape" where
  "shape_loop (TStr k # ts) s = shape_loop (snd (read_field k ts s)) (fst (read_field k ts s))"
| "shape_loop ts s = s"
  by pat_completeness auto
termination
proof (relation "measure (length \<circ> fst)", goal_cases)
  case (2 k ts s)
  have skip: "length (skipValue d ts) \<le> length ts" for d ts
    by (induction d ts rule: skipValue.induct) auto
  have bool: "length (snd (read_bool ts)) \<le> length ts" for ts
    by (auto simp: read_bool_def split: list.split token.split)
  have "length (snd (include_loop ts)) \<le> length ts" for ts
    by (induction ts rule: include_loop.induct) (auto intro: le_SucI order_trans [OF _ skip] simp: bool)
  then have usage: "length (snd (readIncludeUsage ts)) \<le> length ts" for ts
    by (auto simp: readIncludeUsage_def le_SucI split: list.split token.split)
  have "length (snd (readIntPtr ts)) \<le> length ts" for ts
    by (cases ts rule: readIntPtr.cases) auto
  with skip usage show ?case by (simp add: read_field_def le_imp_less_Suc)
qed simp

definition decodeShape :: "token list \<Rightarrow> bodyShape" where
  "decodeShape ts = (case ts of TObj # ts \<Rightarrow> shape_loop ts empty_shape | _ \<Rightarrow> empty_shape)"

section \<open>Ceilings\<close>

definition resolveOutputCeiling :: "bool \<Rightarrow> int option \<Rightarrow> int option \<Rightarrow> int option \<Rightarrow> int \<Rightarrow> int" where
  "resolveOutputCeiling generative maxTokens maxCompletion maxOutput outputMax =
     (if \<not> generative then 0
      else
        let candidates = List.map_filter (\<lambda>m. case m of Some v \<Rightarrow> if v > 0 then Some v else None | None \<Rightarrow> None)
                           [maxTokens, maxCompletion, maxOutput] @ (if outputMax > 0 then [outputMax] else []) in
        case candidates of [] \<Rightarrow> 0 | c # cs \<Rightarrow> fold (\<lambda>c ceiling. if c < ceiling then c else ceiling) cs c)"

definition MaxBody :: int where
  "MaxBody = 67108864"

definition ceilingFromLength :: "int \<Rightarrow> int" where
  "ceilingFromLength len = (if len < 0 \<or> len > MaxBody then 0 else len)"

definition maxFieldKeys :: "string list" where
  "maxFieldKeys = [''max_tokens'', ''max_completion_tokens'', ''max_output_tokens'']"

definition maxFieldForRoute :: "string \<Rightarrow> string" where
  "maxFieldForRoute route = (if route = ''responses'' then ''max_output_tokens'' else ''max_tokens'')"

text \<open>\<^verbatim>\<open>json.Unmarshal\<close> of a raw member into an \<^verbatim>\<open>int\<close>: null leaves it 0.\<close>

definition raw_int :: "json \<Rightarrow> int option" where
  "raw_int v = (case v of JNum n \<Rightarrow> if in_int64 n then Some n else None | JNull \<Rightarrow> Some 0 | _ \<Rightarrow> None)"

text \<open>The loop over the recognised keys: the object, whether it was rewritten, and whether it holds a positive bound.\<close>

fun clamp_loop :: "int \<Rightarrow> string list \<Rightarrow> (string \<times> json) list \<Rightarrow> bool \<Rightarrow> bool \<Rightarrow> (string \<times> json) list \<times> bool \<times> bool" where
  "clamp_loop ceiling [] m rewritten pos = (m, rewritten, pos)"
| "clamp_loop ceiling (key # keys) m rewritten pos =
     (if find_row fst key m = None then clamp_loop ceiling keys m rewritten pos
      else case raw_int (member key m) of
        None \<Rightarrow> clamp_loop ceiling keys m rewritten pos
      | Some cur \<Rightarrow>
          if cur > ceiling then clamp_loop ceiling keys (set_member key (JNum ceiling) m) True (pos \<or> cur > 0)
          else clamp_loop ceiling keys m rewritten (pos \<or> cur > 0))"

text \<open>
  What happens to the body: forwarded as it is, forwarded in rewritten form, or a run-time panic, which is what Go does on the assignment to the nil
  map that the literal null decodes to.
\<close>

datatype forwarding = Verbatim | Rewritten "(string \<times> json) list" | Panic

definition rewriteOutputCeiling :: "json option \<Rightarrow> string \<Rightarrow> int \<Rightarrow> forwarding" where
  "rewriteOutputCeiling body route ceiling =
     (case body of
        Some (JObj m) \<Rightarrow>
          (case clamp_loop ceiling maxFieldKeys m False False of (m, rewritten, pos) \<Rightarrow>
             if \<not> pos then Rewritten (set_member (maxFieldForRoute route) (JNum ceiling) m)
             else if rewritten then Rewritten m else Verbatim)
      | Some JNull \<Rightarrow> Panic
      | _ \<Rightarrow> Verbatim)"

section \<open>Inspect\<close>

record Plan =
  pl_Service :: string
  pl_Route :: string
  pl_Model :: string
  pl_Streaming :: bool
  pl_IncludeUsage :: bool
  InputCeiling :: int
  OutputCeiling :: int
  Generative :: bool
  Supported :: bool

text \<open>A body: its size in bytes, the tokens of the inspected prefix, and the whole body decoded (\<open>None\<close> where it is not JSON).\<close>

record http_body =
  hb_size :: nat
  hb_tokens :: "token list"
  hb_value :: "json option"

text \<open>The input ceiling and whether the size of the body is bounded; a negative length is an unknown one.\<close>

definition input_ceiling :: "int \<Rightarrow> int \<Rightarrow> int \<times> bool" where
  "input_ceiling contentLength bytes =
     (if 0 \<le> contentLength \<and> contentLength \<le> MaxBody then (contentLength, True)
      else if contentLength > MaxBody then (0, False)
      else if bytes < MaxBody then (bytes, True)
      else (MaxBody, False))"

definition Inspect :: "string \<Rightarrow> int \<Rightarrow> http_body option \<Rightarrow> int \<Rightarrow> Plan \<times> forwarding" where
  "Inspect path contentLength body outputMax =
     (let route = routeOf path; (generative, supported) = classifyRoute route;
          p = \<lparr>pl_Service = serviceOf path, pl_Route = route, pl_Model = [], pl_Streaming = False, pl_IncludeUsage = False, InputCeiling = 0,
               OutputCeiling = 0, Generative = generative, Supported = supported\<rparr> in
      case body of
        None \<Rightarrow>
          let oc = resolveOutputCeiling generative None None None outputMax in
          (p\<lparr>InputCeiling := ceilingFromLength contentLength, OutputCeiling := oc,
             Supported := supported \<and> \<not> (generative \<and> oc = 0)\<rparr>, Verbatim)
      | Some b \<Rightarrow>
          let shape = decodeShape (hb_tokens b);
              (ic, bounded) = input_ceiling contentLength (int (hb_size b));
              oc = resolveOutputCeiling generative (MaxTokens shape) (MaxCompletion shape) (MaxOutputTokens shape) outputMax;
              ok = supported \<and> bounded \<and> \<not> (generative \<and> oc = 0) in
          (p\<lparr>pl_Model := bs_Model shape, pl_Streaming := bs_Streaming shape, pl_IncludeUsage := bs_IncludeUsage shape,
             InputCeiling := ic, OutputCeiling := oc, Supported := ok\<rparr>,
           if ok \<and> generative \<and> oc > 0 then rewriteOutputCeiling (hb_value b) route oc else Verbatim))"

section \<open>The gate\<close>

datatype BillingMode = BillingOff | BillingObserve | BillingEnforce

record gate_config =
  g_mode :: BillingMode
  g_output :: int
  requirePricedPeer :: bool

record gate_request =
  gr_path :: string
  gr_length :: int
  gr_body :: "http_body option"
  gr_account :: "string option"
  gr_cap_in :: string
  gr_cap_cached :: string
  gr_cap_out :: string

text \<open>A refusal with its status and type, or what goes to the proxy: the reservation id and the allowed peers, where there are any.\<close>

datatype gate_outcome =
    Refuse int string
  | Forward "string option" "string list option" forwarding

text \<open>\<^verbatim>\<open>reserve\<close>: \<open>rid\<close> is the random id, \<open>None\<close> where the random source fails. The reservation carries no time, so the store uses its clock.\<close>

definition reserve :: "db \<Rightarrow> string option \<Rightarrow> string \<Rightarrow> Plan \<Rightarrow> Caps \<Rightarrow> EligiblePeerQuote list \<Rightarrow> instant \<Rightarrow> (db \<times> string) res" where
  "reserve db rid buyer plan caps quotes clock =
     (case rid of
        None \<Rightarrow> Inl (ErrMsg ''billing gate: request id'')
      | Some reqID \<Rightarrow>
          rbind (ReserveBilling db \<lparr>rv_request_id = reqID, rv_buyer = buyer, rv_service = pl_Service plan, rv_model = pl_Model plan, rv_caps = caps,
             rv_quotes = quotes, rv_input_ceil = InputCeiling plan, rv_output_ceil = OutputCeiling plan, rv_reserved_at = zero_time\<rparr> clock)
           (\<lambda>(db', _). Inr (db', reqID)))"

definition setAllowedPeers :: "EligiblePeerQuote list \<Rightarrow> string list option" where
  "setAllowedPeers quotes = (if quotes = [] then None else Some (map q_peer_id quotes))"

definition serve_metered :: "gate_config \<Rightarrow> db \<Rightarrow> market \<Rightarrow> snapshot res \<Rightarrow> string option \<Rightarrow> instant \<Rightarrow> gate_request \<Rightarrow> Plan \<Rightarrow> forwarding \<Rightarrow>
    db \<times> gate_outcome" where
  "serve_metered cfg db mk snap rid now r plan fwd =
     (let enforce = (g_mode cfg = BillingEnforce); pass = Forward None None fwd in
      case parseRequestCaps (gr_cap_in r) (gr_cap_cached r) (gr_cap_out r) of
        Inl _ \<Rightarrow> (db, Refuse 400 ''invalid_price_cap'')
      | Inr reqCaps \<Rightarrow>
          case resolveCaps db mk (gr_account r) (pl_Service plan) (pl_Model plan) reqCaps now of
            Inl _ \<Rightarrow> (db, if enforce then Refuse 402 ''billing_account_required'' else pass)
          | Inr (db, caps) \<Rightarrow>
              case resolveQuotes snap mk (requirePricedPeer cfg) (pl_Service plan) (pl_Model plan) caps now of
                Inl e \<Rightarrow> (db, if enforce then if e = ErrPriceAboveMax then Refuse 402 ''price_above_max'' else Refuse 503 ''billing_unavailable'' else pass)
              | Inr quotes \<Rightarrow>
                  if quotes = [] then (db, if enforce then Refuse 503 ''no_provider'' else pass)
                  else if \<not> enforce then (db, pass)
                  else case gr_account r of
                    None \<Rightarrow> (db, Refuse 402 ''billing_account_required'')
                  | Some buyer \<Rightarrow>
                      case reserve db rid buyer plan caps quotes now of
                        Inl e \<Rightarrow> (db, if e = ErrInsufficientCredit then Refuse 402 ''insufficient_credit''
                                      else if e = ErrConflict then Refuse 409 ''billing_duplicate_request'' else Refuse 503 ''billing_unavailable'')
                      | Inr (db, reqID) \<Rightarrow> (db, Forward (Some reqID) (setAllowedPeers quotes) fwd))"

definition serve :: "gate_config \<Rightarrow> db \<Rightarrow> market \<Rightarrow> snapshot res \<Rightarrow> string option \<Rightarrow> instant \<Rightarrow> gate_request \<Rightarrow> db \<times> gate_outcome" where
  "serve cfg db mk snap rid now r =
     (case Inspect (gr_path r) (gr_length r) (gr_body r) (g_output cfg) of (plan, fwd) \<Rightarrow>
        if \<not> Supported plan then
          (db, if g_mode cfg = BillingEnforce \<and> Generative plan then Refuse 400 ''billing_unsupported_route'' else Forward None None fwd)
        else serve_metered cfg db mk snap rid now r plan fwd)"

definition gate_Middleware :: "gate_config \<Rightarrow> db \<Rightarrow> market \<Rightarrow> snapshot res \<Rightarrow> string option \<Rightarrow> instant \<Rightarrow> gate_request \<Rightarrow> db \<times> gate_outcome" where
  "gate_Middleware cfg db mk snap rid now r =
     (if g_mode cfg = BillingOff then (db, Forward None None Verbatim) else serve cfg db mk snap rid now r)"

section \<open>The settlement hook\<close>

record SettleUsage =
  su_Complete :: bool
  su_Status :: int
  ClientAbort :: bool
  ServedPeerID :: string
  InputTokens :: int
  CachedInputTokens :: int
  OutputTokens :: int

definition SetFeeBps :: "int \<Rightarrow> int" where
  "SetFeeBps bps = (let bps = (if bps < 0 then 0 else bps) in if bps > 10000 then 10000 else bps)"

definition releaseReason :: "SettleUsage \<Rightarrow> string" where
  "releaseReason u =
     (if ClientAbort u then ''client_abort''
      else if su_Status u = 0 then ''no_response''
      else if su_Status u \<ge> 400 then ''non_2xx''
      else ''no_usage'')"

text \<open>The reservation id of the request context is \<open>None\<close> for a request the gate did not reserve; an error of the store is logged and changes nothing.\<close>

definition Callback :: "db \<Rightarrow> string option \<Rightarrow> SettleUsage \<Rightarrow> int \<Rightarrow> instant \<Rightarrow> instant \<Rightarrow> db" where
  "Callback db requestID u feeBps now clock =
     (case requestID of
        None \<Rightarrow> db
      | Some rid \<Rightarrow>
          if rid = [] then db
          else if \<not> su_Complete u then
            (case ReleaseBilling db rid (releaseReason u) now clock of Inl _ \<Rightarrow> db | Inr (db', _) \<Rightarrow> db')
          else
            (case SettleBilling db rid (ServedPeerID u)
                    \<lparr>u_in = InputTokens u, u_cached = CachedInputTokens u, u_out = OutputTokens u\<rparr> feeBps now clock of
               Inl _ \<Rightarrow> db | Inr (db', _) \<Rightarrow> db'))"

record Sweeper =
  sw_interval :: int
  sw_age :: int
  sw_limit :: int

definition NewSweeper :: "int \<Rightarrow> int \<Rightarrow> int \<Rightarrow> Sweeper" where
  "NewSweeper interval age limit =
     \<lparr>sw_interval = (if interval \<le> 0 then 60000000000 else interval),
      sw_age = (if age \<le> 0 then 600000000000 else age),
      sw_limit = (if limit \<le> 0 then 100 else if limit > 1000 then 1000 else limit)\<rparr>"

text \<open>One tick of \<^verbatim>\<open>Sweeper.Run\<close>.\<close>

definition sweep_tick :: "Sweeper \<Rightarrow> db \<Rightarrow> (string \<Rightarrow> bool) \<Rightarrow> instant \<Rightarrow> db" where
  "sweep_tick s db locked now =
     (case SweepStaleReservations db locked (now - sw_age s) (sw_limit s) now of Inl _ \<Rightarrow> db | Inr (db', _) \<Rightarrow> db')"

section \<open>What a body says\<close>

text \<open>A reference for the token reader: what each member of an object contributes, the last one of a name counting.\<close>

definition pos_int :: "json \<Rightarrow> int option" where
  "pos_int v = (case v of JNum n \<Rightarrow> if in_int64 n \<and> n > 0 then Some n else None | _ \<Rightarrow> None)"

definition field_shape :: "string \<times> json \<Rightarrow> bodyShape \<Rightarrow> bodyShape" where
  "field_shape kv s =
     (case kv of (k, v) \<Rightarrow>
        if k = ''model'' then (case v of JStr m \<Rightarrow> s\<lparr>bs_Model := m\<rparr> | _ \<Rightarrow> s)
        else if k = ''stream'' then (case v of JBool b \<Rightarrow> s\<lparr>bs_Streaming := b\<rparr> | _ \<Rightarrow> s)
        else if k = ''max_tokens'' then s\<lparr>MaxTokens := pos_int v\<rparr>
        else if k = ''max_completion_tokens'' then s\<lparr>MaxCompletion := pos_int v\<rparr>
        else if k = ''max_output_tokens'' then s\<lparr>MaxOutputTokens := pos_int v\<rparr>
        else if k = ''stream_options'' then s\<lparr>bs_IncludeUsage := False\<rparr>
        else s)"

fun scalar :: "json \<Rightarrow> bool" where
  "scalar (JArr _) \<longleftrightarrow> False"
| "scalar (JObj _) \<longleftrightarrow> False"
| "scalar _ \<longleftrightarrow> True"

definition known_fields :: "string set" where
  "known_fields = {''model'', ''stream'', ''max_tokens'', ''max_completion_tokens'', ''max_output_tokens''}"

text \<open>The bodies the token reader follows: scalar values for the fields it reads, and stream options without the usage flag.\<close>

definition plain_field :: "string \<times> json \<Rightarrow> bool" where
  "plain_field kv \<longleftrightarrow>
     (fst kv \<in> known_fields \<longrightarrow> scalar (snd kv)) \<and>
     (fst kv = ''stream_options'' \<longrightarrow> (case snd kv of JObj os \<Rightarrow> ''include_usage'' \<notin> fst ` set os | JArr _ \<Rightarrow> False | _ \<Rightarrow> True))"

definition members :: "(string \<times> json) list \<Rightarrow> token list" where
  "members fs = concat (map (\<lambda>kv. TStr (fst kv) # json_tokens (snd kv)) fs)"

definition clamp :: "int \<Rightarrow> json \<Rightarrow> json" where
  "clamp c v = (case raw_int v of Some n \<Rightarrow> if n > c then JNum c else v | None \<Rightarrow> v)"

definition shape_ints :: "bodyShape \<Rightarrow> bool" where
  "shape_ints s \<longleftrightarrow> (\<forall>m\<in>{MaxTokens s, MaxCompletion s, MaxOutputTokens s}. \<forall>n. m = Some n \<longrightarrow> 0 < n \<and> in_int64 n)"

text \<open>The object that is forwarded.\<close>

definition sent_object :: "forwarding \<Rightarrow> (string \<times> json) list \<Rightarrow> (string \<times> json) list" where
  "sent_object fwd m = (case fwd of Rewritten m' \<Rightarrow> m' | _ \<Rightarrow> m)"

section \<open>Lemmas on the token reader\<close>

lemma skip_json:
  "0 \<le> d \<Longrightarrow> skipValue d (json_tokens v @ rest) = (if d = 0 then rest else skipValue d rest)"
proof (induction v arbitrary: d rest rule: json_tokens.induct)
  case (6 js)
  have "0 < d' \<Longrightarrow> skipValue d' (concat (map json_tokens xs) @ rest') = skipValue d' rest'" if "set xs \<subseteq> set js" for d' rest' xs
    using that by (induction xs) (auto simp: 6(1))
  from this [of js "d + 1" "TArrEnd # rest"] 6(2) show ?case by auto
next
  case (7 fs)
  have "0 < d' \<Longrightarrow> skipValue d' (members xs @ rest') = skipValue d' rest'" if "set xs \<subseteq> set fs" for d' rest' xs
    using that by (induction xs) (auto simp: 7(1) members_def)
  from this [of fs "d + 1" "TObjEnd # rest"] 7(2) show ?case by (auto simp: members_def)
qed auto

lemma skip_value [simp]: "skipValue 0 (json_tokens v @ rest) = rest"
  by (simp add: skip_json)

lemma include_loop_absent:
  "''include_usage'' \<notin> fst ` set os \<Longrightarrow> include_loop (members os @ TObjEnd # rest) = (False, rest)"
  by (induction os) (auto simp: members_def)

lemma scalar_tokens: "scalar v \<Longrightarrow> \<exists>t. json_tokens v = [t] \<and> t \<notin> {TObj, TObjEnd, TArr, TArrEnd}"
  by (cases v) auto

lemma readIntPtr_scalar: "scalar v \<Longrightarrow> readIntPtr (json_tokens v @ rest) = (pos_int v, rest)"
  by (cases v) (auto simp: pos_int_def)

lemma read_field_plain:
  assumes "plain_field (k, v)"
  shows "read_field k (json_tokens v @ rest) s = (field_shape (k, v) s, rest)"
proof (cases "k \<in> known_fields")
  case True
  with assms have "scalar v" by (simp add: plain_field_def)
  with True readIntPtr_scalar [OF this, of rest] show ?thesis
    by (cases v) (auto simp: read_field_def field_shape_def known_fields_def)
next
  case False
  then show ?thesis
  proof (cases "k = ''stream_options''")
    case True
    then show ?thesis using assms
      by (cases v) (auto simp: plain_field_def read_field_def field_shape_def readIncludeUsage_def known_fields_def
          include_loop_absent [unfolded members_def])
  qed (auto simp: read_field_def field_shape_def known_fields_def)
qed

lemma decode_members:
  "list_all plain_field fs \<Longrightarrow> shape_loop (members fs @ TObjEnd # rest) s = fold field_shape fs s"
  by (induction fs arbitrary: s) (auto simp: members_def read_field_plain)

text \<open>On a body the reader follows, it finds exactly what the members say.\<close>

lemma decodeShape_fields:
  "list_all plain_field fs \<Longrightarrow> decodeShape (json_tokens (JObj fs)) = fold field_shape fs empty_shape"
  using decode_members [of fs "[]"] by (simp add: decodeShape_def members_def)

text \<open>Behind stream options with the usage flag nothing is read any more.\<close>

lemma fields_after_stream_options_lost:
  "decodeShape (json_tokens (JObj ((''stream_options'', JObj [(''include_usage'', JBool b)]) # rest))) = empty_shape\<lparr>bs_IncludeUsage := b\<rparr>"
  by (simp add: decodeShape_def read_field_def readIncludeUsage_def read_bool_def)

lemma read_field_ints: "shape_ints s \<Longrightarrow> shape_ints (fst (read_field k ts s))"
proof -
  have "fst (readIntPtr ts) = Some n \<Longrightarrow> 0 < n \<and> in_int64 n" for n
    by (cases ts rule: readIntPtr.cases) (auto split: if_splits)
  then show "shape_ints s \<Longrightarrow> ?thesis" by (auto simp: shape_ints_def read_field_def split: list.split token.split)
qed

lemma decode_ints: "shape_ints s \<Longrightarrow> shape_ints (shape_loop ts s)"
  by (induction ts s rule: shape_loop.induct) (auto simp: read_field_ints)

lemma decodeShape_ints: "shape_ints (decodeShape ts)"
proof -
  have "shape_ints empty_shape" by (simp add: shape_ints_def empty_shape_def)
  then show ?thesis by (auto simp: decodeShape_def decode_ints split: list.split token.split)
qed

section \<open>Lemmas on the ceiling\<close>

lemma fold_min_le: "fold (\<lambda>c ceiling. if c < ceiling then c else ceiling) cs (c::int) \<in> set (c # cs) \<and>
  (\<forall>x\<in>set (c # cs). fold (\<lambda>c ceiling. if c < ceiling then c else ceiling) cs c \<le> x)"
proof (induction cs arbitrary: c)
  case (Cons a cs)
  from Cons.IH [of "if a < c then a else c"] show ?case by (auto split: if_splits)
qed simp

lemma resolveOutputCeiling_bounds:
  assumes "\<forall>m\<in>{a, b, c}. \<forall>n. m = Some n \<longrightarrow> 0 < n \<and> in_int64 n" "in_int64 outputMax" "r = resolveOutputCeiling g a b c outputMax"
  shows "0 \<le> r" "in_int64 r" "g \<Longrightarrow> r \<noteq> 0 \<Longrightarrow> outputMax > 0 \<Longrightarrow> r \<le> outputMax"
    "g \<Longrightarrow> r \<noteq> 0 \<Longrightarrow> m \<in> {a, b, c} \<Longrightarrow> m = Some n \<Longrightarrow> r \<le> n"
proof -
  let ?cs = "List.map_filter (\<lambda>m. case m of Some v \<Rightarrow> if v > 0 then Some v else None | None \<Rightarrow> None) [a, b, c] @
    (if outputMax > 0 then [outputMax] else [])"
  have mem: "x \<in> set ?cs \<Longrightarrow> 0 < x \<and> in_int64 x" for x
    using assms(1,2) by (auto simp: List.map_filter_def split: if_splits option.splits)
  have r: "r = (if \<not> g then 0 else case ?cs of [] \<Rightarrow> 0 | c # cs \<Rightarrow> fold (\<lambda>c ceiling. if c < ceiling then c else ceiling) cs c)"
    using assms(3) by (simp add: resolveOutputCeiling_def Let_def)
  have cases: "r = 0 \<or> g \<and> r \<in> set ?cs \<and> (\<forall>x\<in>set ?cs. r \<le> x)"
  proof (cases ?cs)
    case (Cons x xs)
    with fold_min_le [of xs x] r show ?thesis by (auto simp del: fold_simps)
  qed (simp add: r)
  then show "0 \<le> r" "in_int64 r" using mem by (fastforce simp: in_int64_def)+
  show "g \<Longrightarrow> r \<noteq> 0 \<Longrightarrow> outputMax > 0 \<Longrightarrow> r \<le> outputMax" using cases by auto
  show "r \<le> n" if "g" "r \<noteq> 0" "m \<in> {a, b, c}" "m = Some n"
  proof -
    have "0 < n" using assms(1) that by blast
    then have "n \<in> set ?cs" using that by (auto simp: List.map_filter_def)
    with cases that(2) show ?thesis by blast
  qed
qed

lemma has_set_member: "(find_row fst k (set_member k' v m) = None) = (k \<noteq> k' \<and> find_row fst k m = None)"
  by (auto simp: find_row_None_iff set_member_def)

lemma absent_member: "find_row fst k m = None \<Longrightarrow> member k m = JNull"
proof -
  assume "find_row fst k m = None"
  then have "find_row fst k (rev m) = None" by (simp add: find_row_None_iff)
  then show ?thesis by (simp add: member_def)
qed

lemma clamp_loop_correct:
  assumes "clamp_loop c keys m rw pos = (m', rw', pos')" "distinct keys" "0 < c"
  shows "(\<forall>k. member k m' = (if k \<in> set keys then clamp c (member k m) else member k m)) \<and>
    (pos' \<longleftrightarrow> pos \<or> (\<exists>k\<in>set keys. \<exists>n>0. raw_int (member k m) = Some n))"
  using assms
proof (induction c keys m rw pos rule: clamp_loop.induct)
  case (2 c key keys m rw pos)
  show ?case
  proof (cases "find_row fst key m = None \<or> raw_int (member key m) = None")
    case True
    then have keep: "clamp_loop c (key # keys) m rw pos = clamp_loop c keys m rw pos" by auto
    have same: "clamp c (member key m) = member key m" "\<not> (\<exists>n>0. raw_int (member key m) = Some n)"
      using True "2.prems"(3) by (auto simp: clamp_def absent_member raw_int_def split: option.splits)
    have "clamp_loop c keys m rw pos = (m', rw', pos')" using "2.prems"(1) keep by simp
    with "2.IH"(1,2) True "2.prems"(2,3) have "(\<forall>k. member k m' = (if k \<in> set keys then clamp c (member k m) else member k m)) \<and>
        (pos' \<longleftrightarrow> pos \<or> (\<exists>k\<in>set keys. \<exists>n>0. raw_int (member k m) = Some n))"
      by (cases "find_row fst key m = None") auto
    with same show ?thesis by auto
  next
    case False
    then obtain cur where cur: "find_row fst key m \<noteq> None" "raw_int (member key m) = Some cur" by auto
    let ?m = "if cur > c then set_member key (JNum c) m else m"
    have IH: "(\<forall>k. member k m' = (if k \<in> set keys then clamp c (member k ?m) else member k ?m)) \<and>
        (pos' \<longleftrightarrow> (pos \<or> cur > 0) \<or> (\<exists>k\<in>set keys. \<exists>n>0. raw_int (member k ?m) = Some n))"
      using "2.IH"(3,4) [OF cur] "2.prems" cur by (cases "cur > c") auto
    have m: "member k ?m = (if k = key then clamp c (member key m) else member k m)" for k
      using cur by (simp add: member_set_member clamp_def)
    have other: "member k ?m = member k m" if "k \<in> set keys" for k using m [of k] "2.prems"(2) that by auto
    from IH have 1: "member k m' = (if k \<in> set keys then clamp c (member k ?m) else member k ?m)" for k by blast
    from IH have 2: "pos' \<longleftrightarrow> (pos \<or> cur > 0) \<or> (\<exists>k\<in>set keys. \<exists>n>0. raw_int (member k ?m) = Some n)" by blast
    have "member k m' = (if k \<in> set (key # keys) then clamp c (member k m) else member k m)" for k
      using 1 [of k] m [of k] other [of k] "2.prems"(2) by auto
    moreover have "pos' \<longleftrightarrow> pos \<or> (\<exists>k\<in>set (key # keys). \<exists>n>0. raw_int (member k m) = Some n)"
      using 2 cur(2) other by auto
    ultimately show ?thesis by blast
  qed
qed simp

section \<open>The forwarded body\<close>

lemma clamp_bound: "raw_int (clamp c v) = Some n \<Longrightarrow> in_int64 c \<Longrightarrow> n \<le> c"
  by (auto simp: clamp_def raw_int_def split: option.splits if_splits json.splits)

lemma clamp_pos: "raw_int v = Some n \<Longrightarrow> 0 < n \<Longrightarrow> 0 < c \<Longrightarrow> in_int64 c \<Longrightarrow> \<exists>k>0. raw_int (clamp c v) = Some k"
  by (auto simp: clamp_def raw_int_def split: if_splits json.splits)

lemma clamp_loop_verbatim: "clamp_loop c keys m rw pos = (m', rw', pos') \<Longrightarrow> \<not> rw' \<Longrightarrow> \<not> rw \<and> m' = m"
proof (induction keys arbitrary: m rw pos)
  case (Cons key keys)
  show ?case
  proof (cases "find_row fst key m = None \<or> raw_int (member key m) = None")
    case True
    then have "clamp_loop c (key # keys) m rw pos = clamp_loop c keys m rw pos" by auto
    with Cons show ?thesis by auto
  next
    case False
    then obtain cur where "find_row fst key m \<noteq> None" "raw_int (member key m) = Some cur" by auto
    with Cons show ?thesis by (cases "cur > c") fastforce+
  qed
qed simp

lemma rewriteOutputCeiling_bounds:
  assumes "fwd = rewriteOutputCeiling (Some (JObj m)) route c" "0 < c" "in_int64 c"
  shows "fwd \<noteq> Panic"
    and "k \<in> set maxFieldKeys \<Longrightarrow> raw_int (member k (sent_object fwd m)) = Some n \<Longrightarrow> n \<le> c"
    and "\<exists>k\<in>set maxFieldKeys. \<exists>n>0. raw_int (member k (sent_object fwd m)) = Some n"
    and "k \<notin> set maxFieldKeys \<Longrightarrow> member k (sent_object fwd m) = member k m"
proof -
  obtain m' rw pos where l: "clamp_loop c maxFieldKeys m False False = (m', rw, pos)" by (metis prod_cases3)
  have d: "distinct maxFieldKeys" by (simp add: maxFieldKeys_def)
  note cl = clamp_loop_correct [OF l d assms(2)]
  let ?f = "maxFieldForRoute route"
  have f: "?f \<in> set maxFieldKeys" by (simp add: maxFieldForRoute_def maxFieldKeys_def)
  have e: "fwd = (if \<not> pos then Rewritten (set_member ?f (JNum c) m') else if rw then Rewritten m' else Verbatim)"
    using assms(1) l by (simp add: rewriteOutputCeiling_def)
  then show "fwd \<noteq> Panic" by simp
  note verbatim = clamp_loop_verbatim [OF l]
  have mem: "member k (sent_object fwd m) = (if \<not> pos \<and> k = ?f then JNum c else if k \<in> set maxFieldKeys then clamp c (member k m) else member k m)" for k
  proof -
    have "member k m' = (if k \<in> set maxFieldKeys then clamp c (member k m) else member k m)" using cl by blast
    moreover have "sent_object fwd m = (if \<not> pos then set_member ?f (JNum c) m' else m')" using verbatim by (simp add: e sent_object_def)
    ultimately show ?thesis by (simp add: member_set_member)
  qed
  show "n \<le> c" if "k \<in> set maxFieldKeys" "raw_int (member k (sent_object fwd m)) = Some n"
    using that assms(3) clamp_bound by (auto simp: mem raw_int_def split: if_splits)
  show "k \<notin> set maxFieldKeys \<Longrightarrow> member k (sent_object fwd m) = member k m" using f by (auto simp: mem)
  show "\<exists>k\<in>set maxFieldKeys. \<exists>n>0. raw_int (member k (sent_object fwd m)) = Some n"
  proof (cases pos)
    case True
    with cl obtain k n where "k \<in> set maxFieldKeys" "0 < n" "raw_int (member k m) = Some n" by blast
    with True clamp_pos [OF this(3,2) assms(2,3)] show ?thesis by (auto simp: mem)
  next
    case False
    with f assms(2,3) show ?thesis by (intro bexI [of _ ?f]) (auto simp: mem raw_int_def)
  qed
qed

lemma forwarded_body_facts:
  assumes "Inspect path len (Some b) outputMax = (plan, fwd)" "Supported plan" "Generative plan"
    and "hb_value b = Some (JObj m)" "in_int64 outputMax"
  shows "0 < OutputCeiling plan" "in_int64 (OutputCeiling plan)" "0 < outputMax \<Longrightarrow> OutputCeiling plan \<le> outputMax"
    and "fwd \<noteq> Panic"
    and "k \<in> set maxFieldKeys \<Longrightarrow> raw_int (member k (sent_object fwd m)) = Some n \<Longrightarrow> n \<le> OutputCeiling plan"
    and "\<exists>k\<in>set maxFieldKeys. \<exists>n>0. raw_int (member k (sent_object fwd m)) = Some n"
    and "k \<notin> set maxFieldKeys \<Longrightarrow> member k (sent_object fwd m) = member k m"
proof -
  let ?s = "decodeShape (hb_tokens b)"
  define oc where "oc = resolveOutputCeiling (Generative plan) (MaxTokens ?s) (MaxCompletion ?s) (MaxOutputTokens ?s) outputMax"
  from assms(1-3) have p: "OutputCeiling plan = oc" "oc \<noteq> 0" and f: "0 < oc \<Longrightarrow> fwd = rewriteOutputCeiling (hb_value b) (pl_Route plan) oc"
    by (auto simp: Inspect_def Let_def oc_def split: prod.splits)
  note bounds = resolveOutputCeiling_bounds [OF _ assms(5) oc_def]
  have ints: "\<forall>m\<in>{MaxTokens ?s, MaxCompletion ?s, MaxOutputTokens ?s}. \<forall>n. m = Some n \<longrightarrow> 0 < n \<and> in_int64 n"
    using decodeShape_ints [of "hb_tokens b"] by (simp add: shape_ints_def)
  show pos: "0 < OutputCeiling plan" and i: "in_int64 (OutputCeiling plan)" and "0 < outputMax \<Longrightarrow> OutputCeiling plan \<le> outputMax"
    using bounds(1-3) [OF ints] p assms(3) by auto
  have fwd: "fwd = rewriteOutputCeiling (Some (JObj m)) (pl_Route plan) (OutputCeiling plan)"
    using f pos p(1) assms(4) by simp
  note rw = rewriteOutputCeiling_bounds [OF fwd pos i]
  show "fwd \<noteq> Panic" by (rule rw(1))
  show "k \<in> set maxFieldKeys \<Longrightarrow> raw_int (member k (sent_object fwd m)) = Some n \<Longrightarrow> n \<le> OutputCeiling plan" by (rule rw(2))
  show "\<exists>k\<in>set maxFieldKeys. \<exists>n>0. raw_int (member k (sent_object fwd m)) = Some n" by (rule rw(3))
  show "k \<notin> set maxFieldKeys \<Longrightarrow> member k (sent_object fwd m) = member k m" by (rule rw(4))
qed

text \<open>
  C13 (the forwarded body stays within the reservation). For a generative request with a JSON object as body that the gate supports, the output ceiling is positive, at most the operator's cap
  and int64; in the body that is forwarded every recognised limit that is an integer is at most the ceiling the reservation is sized by, at least one of them is a positive bound, and every
  other member is as the client sent it.
\<close>

theorem forwarded_body_bounded:
  assumes "Inspect path len (Some b) outputMax = (plan, fwd)" "Supported plan" "Generative plan"
    and "hb_value b = Some (JObj m)" "in_int64 outputMax"
  shows "0 < OutputCeiling plan \<and> in_int64 (OutputCeiling plan) \<and> (0 < outputMax \<longrightarrow> OutputCeiling plan \<le> outputMax) \<and> fwd \<noteq> Panic \<and>
    (\<forall>k n. k \<in> set maxFieldKeys \<longrightarrow> raw_int (member k (sent_object fwd m)) = Some n \<longrightarrow> n \<le> OutputCeiling plan) \<and>
    (\<exists>k\<in>set maxFieldKeys. \<exists>n>0. raw_int (member k (sent_object fwd m)) = Some n) \<and>
    (\<forall>k. k \<notin> set maxFieldKeys \<longrightarrow> member k (sent_object fwd m) = member k m)"
  using forwarded_body_facts [OF assms] by (intro conjI allI impI)

theorem forwarded_body_bounded_witness:
  "let m = [(''model'', JStr ''m''), (''max_tokens'', JNum 900), (''max_completion_tokens'', JNum 50)];
       b = \<lparr>hb_size = 60, hb_tokens = json_tokens (JObj m), hb_value = Some (JObj m)\<rparr>;
       (plan, fwd) = Inspect ''/v1/service/llm/v1/chat/completions'' 60 (Some b) 512 in
   OutputCeiling plan = 50 \<and> 0 < OutputCeiling plan \<and> fwd \<noteq> Panic \<and>
   member ''max_tokens'' (sent_object fwd m) = JNum 50 \<and> member ''model'' (sent_object fwd m) = JStr ''m''"
proof -
  let ?m = "[(''model'', JStr ''m''), (''max_tokens'', JNum 900), (''max_completion_tokens'', JNum 50)]"
  let ?b = "\<lparr>hb_size = 60, hb_tokens = json_tokens (JObj ?m), hb_value = Some (JObj ?m)\<rparr>"
  let ?path = "''/v1/service/llm/v1/chat/completions''"
  obtain plan fwd where i: "Inspect ?path 60 (Some ?b) 512 = (plan, fwd)" by (metis surj_pair)
  note ev = Inspect_def Let_def routeOf_def CutPrefix_def classifyRoute_def generativeRoutes_def decodeShape_def read_field_def empty_shape_def
    input_ceiling_def MaxBody_def resolveOutputCeiling_def List.map_filter_simps rewriteOutputCeiling_def maxFieldKeys_def raw_int_def member_def
    find_row_def sent_object_def in_int64_def set_member_def
  have p: "Supported plan" "Generative plan" "OutputCeiling plan = 50" and f: "member ''max_tokens'' (sent_object fwd ?m) = JNum 50"
    using i by (auto simp: ev)
  have t: "0 < OutputCeiling plan" "fwd \<noteq> Panic" "\<And>k. k \<notin> set maxFieldKeys \<Longrightarrow> member k (sent_object fwd ?m) = member k ?m"
    using forwarded_body_bounded [OF i p(1,2), of ?m] by (simp_all add: in_int64_def)
  have "''model'' \<notin> set maxFieldKeys" by (simp add: maxFieldKeys_def)
  then have "member ''model'' (sent_object fwd ?m) = member ''model'' ?m" using t(3) by blast
  also have "\<dots> = JStr ''m''" by (simp add: member_def find_row_def)
  finally show ?thesis using t(1,2) p f i by simp
qed

text \<open>A limit written as a number that is not an integer literal passes the gate untouched, next to a small integer limit the reservation is sized by.\<close>

lemma non_integer_limit_forwarded:
  "let m = [(''max_tokens'', JFloat t), (''max_completion_tokens'', JNum 10)];
       b = \<lparr>hb_size = 60, hb_tokens = json_tokens (JObj m), hb_value = Some (JObj m)\<rparr> in
   case Inspect ''/v1/service/llm/v1/chat/completions'' 60 (Some b) 0 of (plan, fwd) \<Rightarrow>
     Supported plan \<and> OutputCeiling plan = 10 \<and> member ''max_tokens'' (sent_object fwd m) = JFloat t"
  by (simp add: Inspect_def Let_def routeOf_def CutPrefix_def classifyRoute_def generativeRoutes_def decodeShape_def read_field_def empty_shape_def
      input_ceiling_def MaxBody_def resolveOutputCeiling_def List.map_filter_simps rewriteOutputCeiling_def maxFieldKeys_def raw_int_def member_def
      find_row_def sent_object_def in_int64_def)

text \<open>The literal null as body of a generative request panics as soon as the operator has set an output cap.\<close>

lemma null_body_panics:
  "0 < outputMax \<Longrightarrow> snd (Inspect ''/v1/service/llm/v1/chat/completions'' 4
     (Some \<lparr>hb_size = 4, hb_tokens = json_tokens JNull, hb_value = Some JNull\<rparr>) outputMax) = Panic"
  by (simp add: Inspect_def Let_def routeOf_def CutPrefix_def classifyRoute_def generativeRoutes_def decodeShape_def empty_shape_def
      input_ceiling_def MaxBody_def resolveOutputCeiling_def List.map_filter_simps rewriteOutputCeiling_def)

end
