(* ===== verification/Request_Life.thy ===== *)
theory Request_Life
  imports Request_Gate
begin

text \<open>
  The life of a metered request across its components: the gate prices and reserves it (\<^verbatim>\<open>internal/billinggate/gate.go\<close> over the store), the proxy serves it, and the
  settlement hook charges or releases it (\<^verbatim>\<open>internal/settlement/settle.go\<close>).

  The lemmas show what a forwarded request guarantees in enforce mode, that observe mode and refusals leave the books alone, and what the callback then does.
\<close>

text \<open>The request of an admitted call: the reservation that was made, and the row of it.\<close>

definition admitted ::
  "gate_config \<Rightarrow> db \<Rightarrow> market \<Rightarrow> snapshot \<Rightarrow> instant \<Rightarrow> gate_request \<Rightarrow> Plan \<Rightarrow> db \<Rightarrow> string \<Rightarrow> string list \<Rightarrow> Request \<Rightarrow> bool" where
  "admitted cfg db mk snap now r plan db' reqID peers row \<longleftrightarrow>
     gr_account r = Some (r_buyer row) \<and> scanBillingRequest db' reqID = Inr row \<and> r_state row = StateReserved \<and>
     scanBillingRequest db reqID = Inl ErrNotFound \<and> reqID \<noteq> [] \<and>
     resolveQuotes (Inr snap) mk (requirePricedPeer cfg) (pl_Service plan) (pl_Model plan) (r_caps row) now = Inr (r_quotes row) \<and>
     (\<forall>q\<in>set (r_quotes row). Affordable q (r_caps row) \<and> rates_ok q) \<and> peers = map q_peer_id (r_quotes row) \<and> peers \<noteq> [] \<and>
     ReserveAmount (r_quotes row) (InputCeiling plan) (OutputCeiling plan) = Inr (r_reserved_raw row) \<and>
     (\<forall>a. credit_of db' a = credit_of db a \<and> reserved_of db' a = reserved_of db a + (if a = r_buyer row then r_reserved_raw row else 0))"

text \<open>Nothing of the books has changed: no request, no ledger row, no balance.\<close>

definition books_same :: "db \<Rightarrow> db \<Rightarrow> bool" where
  "books_same db db' \<longleftrightarrow> requests db' = requests db \<and> ledger db' = ledger db \<and> (\<forall>a. credit_of db' a = credit_of db a \<and> reserved_of db' a = reserved_of db a)"

text \<open>A demo: one peer that asks 3, 1 and 9 units per million tokens for a model, and a buyer with 1000 units of credit.\<close>

definition demo_snap :: snapshot where
  "demo_snap = [(''p1'', \<lparr>en_Peer = \<lparr>Connected = True, Service_list = [\<lparr>ps_Name = ''llm'', IdentityGroup = [''model=m'']\<rparr>]\<rparr>,
     en_Instance = Some (demo_instance\<lparr>in_PeerID := ''p1'', in_AccountID := ''s1'', OwnerWallet := ''w1'', PolicyScope := ''peer''\<rparr>)\<rparr>)]"

definition demo_asks :: market where
  "demo_asks = \<lparr>peer_asks = [\<lparr>ask_peer_id = ''p1'', ask_service = ''llm'', ask_model = ''m'', ask_in = 3000000, ask_cached = 1000000, ask_out = 9000000,
     ask_revision = 1, ask_expires_at = 50, ask_updated_at = 1\<rparr>], account_model_caps = [], peer_ask_config = []\<rparr>"

definition demo_body :: http_body where
  "demo_body = (let v = JObj [(''model'', JStr ''m''), (''max_tokens'', JNum 10)] in \<lparr>hb_size = 32, hb_tokens = json_tokens v, hb_value = Some v\<rparr>)"

definition demo_call :: gate_request where
  "demo_call = \<lparr>gr_path = ''/v1/service/llm/v1/chat/completions'', gr_length = 32, gr_body = Some demo_body, gr_account = Some ''b1'',
     gr_cap_in = [], gr_cap_cached = [], gr_cap_out = []\<rparr>"

definition demo_gate :: gate_config where
  "demo_gate = \<lparr>g_mode = BillingEnforce, g_output = 512, requirePricedPeer = False\<rparr>"

definition demo_plan :: Plan where
  "demo_plan = \<lparr>pl_Service = ''llm'', pl_Route = ''chat/completions'', pl_Model = ''m'', pl_Streaming = False, pl_IncludeUsage = False,
     InputCeiling = 32, OutputCeiling = 10, Generative = True, Supported = True\<rparr>"

definition demo_usage :: SettleUsage where
  "demo_usage = \<lparr>su_Complete = True, su_Status = 200, ClientAbort = False, ServedPeerID = ''p1'', InputTokens = 20, CachedInputTokens = 5, OutputTokens = 7\<rparr>"

section \<open>The gate\<close>

lemma books_same_refl [simp]: "books_same db db"
  by (simp add: books_same_def)

lemma ensure_books_same: "books_same db (ensure_account db a now)"
  by (simp add: books_same_def credit_simps)

lemma resolveCaps_db:
  assumes "resolveCaps db mk buyer service model reqCaps now = Inr (db1, caps)"
  obtains b where "buyer = Some b" "db1 = ensure_account db b now"
  using assms by (auto simp: resolveCaps_def EnsureAccountCredit_def res_simps split: option.splits if_splits)

lemma resolveQuotes_rates:
  assumes "market_ok mk" "resolveQuotes (Inr snap) mk rp service model caps now = Inr qs" "q \<in> set qs"
  shows "Affordable q caps \<and> rates_ok q"
proof -
  from assms(2,3) have "q \<in> set (sortQuotes (filter (\<lambda>q. Affordable q caps) (entry_quotes snap (LiveAsks mk service model now) rp service model)))"
    by (auto simp: resolveQuotes_def Let_def split: if_splits dest: in_set_takeD)
  then have a: "Affordable q caps" and "q \<in> set (entry_quotes snap (LiveAsks mk service model now) rp service model)"
    by (simp_all add: sortQuotes_sort)
  then obtain i e where "entry_quote (LiveAsks mk service model now) rp service model (i, e) = Some q"
    by (auto simp: entry_quotes_mem)
  from entry_quote_ok(4-6) [OF assms(1) this] a show ?thesis
    by (simp add: rates_ok_def rate_ok_def MaxBaseRate_def in_int64_def)
qed

lemma reserve_admits:
  assumes "reserve db1 rid buyer plan caps quotes now = Inr (db', reqID)" "billing_inv db1"
  obtains row where "rid = Some reqID" "reqID \<noteq> []" "scanBillingRequest db1 reqID = Inl ErrNotFound" "scanBillingRequest db' reqID = Inr row"
    "r_state row = StateReserved" "r_buyer row = buyer" "r_caps row = caps" "r_quotes row = quotes"
    "ReserveAmount quotes (InputCeiling plan) (OutputCeiling plan) = Inr (r_reserved_raw row)" "billing_inv db'"
    "\<forall>a. credit_of db' a = credit_of db1 a \<and> reserved_of db' a = reserved_of db1 a + (if a = buyer then r_reserved_raw row else 0)"
proof -
  define req where "req = \<lparr>rv_request_id = reqID, rv_buyer = buyer, rv_service = pl_Service plan, rv_model = pl_Model plan, rv_caps = caps,
             rv_quotes = quotes, rv_input_ceil = InputCeiling plan, rv_output_ceil = OutputCeiling plan, rv_reserved_at = zero_time\<rparr>"
  from assms(1) obtain c where rid: "rid = Some reqID" and rb: "ReserveBilling db1 req now = Inr (db', c)"
    by (auto simp: reserve_def res_simps req_def split: option.splits)
  from ReserveBilling_effect [OF rb assms(2)] obtain m where e: "rv_request_id req \<noteq> []" "rv_request_id req \<notin> r_request_id ` set (requests db1)"
    "ReserveAmount (rv_quotes req) (rv_input_ceil req) (rv_output_ceil req) = Inr m" "billing_inv db'"
    "requests db' = requests db1 @ [new_request req m (time_or_now now (rv_reserved_at req))]"
    "\<forall>a. credit_of db' a = credit_of db1 a \<and> reserved_of db' a = reserved_of db1 a + (if a = rv_buyer req then m else 0)" by metis
  let ?row = "new_request req m (time_or_now now (rv_reserved_at req))"
  have none: "find_row r_request_id reqID (requests db1) = None" using e(2) by (auto simp: find_row_None_iff req_def)
  then have "find_row r_request_id reqID (requests db') = Some ?row"
    by (simp add: e(5) find_row_append) (simp add: find_row_def new_request_def req_def)
  with none show ?thesis
    using that [of ?row, OF rid] e by (simp add: scanBillingRequest_def new_request_def req_def)
qed

lemma serve_enforce_forward:
  assumes "serve_metered cfg db mk (Inr snap) rid now r plan fwd = (db', Forward token peers fwd')"
    and "g_mode cfg = BillingEnforce" "billing_inv db" "market_ok mk"
  obtains reqID ps row where "token = Some reqID" "rid = Some reqID" "peers = Some ps" "fwd' = fwd" "billing_inv db'"
    "admitted cfg db mk snap now r plan db' reqID ps row"
proof -
  from assms(1,2) obtain reqCaps db1 caps quotes buyer reqID where
    caps: "resolveCaps db mk (gr_account r) (pl_Service plan) (pl_Model plan) reqCaps now = Inr (db1, caps)"
    and qs: "resolveQuotes (Inr snap) mk (requirePricedPeer cfg) (pl_Service plan) (pl_Model plan) caps now = Inr quotes" "quotes \<noteq> []"
    and b: "gr_account r = Some buyer" and res: "reserve db1 rid buyer plan caps quotes now = Inr (db', reqID)"
    and out: "token = Some reqID" "peers = setAllowedPeers quotes" "fwd' = fwd"
    unfolding serve_metered_def Let_def by (auto split: sum.splits if_splits option.splits prod.splits)
  from resolveCaps_db [OF caps] b have db1: "db1 = ensure_account db buyer now" by auto
  have same: "books_same db db1" by (simp add: db1 ensure_books_same)
  have inv: "billing_inv db1" using assms(3) by (simp add: db1 ensure_account_inv)
  obtain row where row: "rid = Some reqID" "reqID \<noteq> []" "scanBillingRequest db1 reqID = Inl ErrNotFound" "scanBillingRequest db' reqID = Inr row"
    "r_state row = StateReserved" "r_buyer row = buyer" "r_caps row = caps" "r_quotes row = quotes"
    "ReserveAmount quotes (InputCeiling plan) (OutputCeiling plan) = Inr (r_reserved_raw row)" "billing_inv db'"
    "\<forall>a. credit_of db' a = credit_of db1 a \<and> reserved_of db' a = reserved_of db1 a + (if a = buyer then r_reserved_raw row else 0)"
    using reserve_admits [OF res inv] by metis
  have "scanBillingRequest db reqID = Inl ErrNotFound" using row(3) same by (simp add: scanBillingRequest_def books_same_def)
  moreover have "\<forall>q\<in>set quotes. Affordable q caps \<and> rates_ok q" using resolveQuotes_rates [OF assms(4) qs(1)] by blast
  ultimately have "admitted cfg db mk snap now r plan db' reqID (map q_peer_id quotes) row"
    using row b qs same by (simp add: admitted_def books_same_def)
  with out row(1,10) qs(2) show ?thesis using that by (simp add: setAllowedPeers_def)
qed

lemma serve_metered_unreserved:
  assumes "serve_metered cfg db mk snap rid now r plan fwd = (db', out)" "\<nexists>reqID ps f. out = Forward (Some reqID) ps f"
  shows "books_same db db' \<and> (db' = db \<or> (\<exists>b. db' = ensure_account db b now))"
  using assms unfolding serve_metered_def Let_def
  by (auto split: sum.splits if_splits option.splits prod.splits elim!: resolveCaps_db intro: ensure_books_same)

text \<open>
  C10 (enforce mode admits only what is paid for). In enforce mode a request of a generative or metered route is forwarded only with a fresh reservation id that names an open row of the
  buyer: its quotes are the ones the market resolves under the merged caps, all affordable; the peers the request may go to are those of the quotes; the amount held is the worst case over
  the ceilings of the inspected body; no credit has moved and only the buyer's reserved balance has grown, by that amount. Otherwise the answer is a refusal, and nothing in the books has
  changed.
\<close>

theorem enforce_admits_reserved:
  assumes "g_mode cfg = BillingEnforce" "billing_inv db" "market_ok mk"
    and "Inspect (gr_path r) (gr_length r) (gr_body r) (g_output cfg) = (plan, fwd)" "Generative plan \<or> Supported plan"
    and "gate_Middleware cfg db mk (Inr snap) rid now r = (db', out)"
  shows "billing_inv db' \<and>
    ((\<exists>status why. out = Refuse status why \<and> books_same db db') \<or>
     (\<exists>reqID peers row. Supported plan \<and> rid = Some reqID \<and> out = Forward (Some reqID) (Some peers) fwd \<and>
        admitted cfg db mk snap now r plan db' reqID peers row))"
proof (cases "Supported plan")
  case False
  with assms show ?thesis by (auto simp: gate_Middleware_def serve_def)
next
  case True
  with assms(1,4,6) have s: "serve_metered cfg db mk (Inr snap) rid now r plan fwd = (db', out)" by (simp add: gate_Middleware_def serve_def)
  show ?thesis
  proof (cases out)
    case (Refuse status why)
    with serve_metered_unreserved [OF s] assms(2) show ?thesis by (auto intro: ensure_account_inv)
  next
    case (Forward token ps f)
    obtain reqID peers row where "token = Some reqID" "rid = Some reqID" "ps = Some peers" "f = fwd" "billing_inv db'"
        "admitted cfg db mk snap now r plan db' reqID peers row"
      using serve_enforce_forward [OF s [unfolded Forward] assms(1-3)] by metis
    with Forward True show ?thesis by auto
  qed
qed

text \<open>Observe mode never reserves, and the only requests it refuses are those with a malformed price cap.\<close>

lemma observe_passes:
  assumes "g_mode cfg = BillingObserve" "gate_Middleware cfg db mk snap rid now r = (db', out)"
  shows "books_same db db' \<and> (out = Refuse 400 ''invalid_price_cap'' \<or> (\<exists>f. out = Forward None None f))"
proof -
  obtain plan fwd where i: "Inspect (gr_path r) (gr_length r) (gr_body r) (g_output cfg) = (plan, fwd)" by fastforce
  show ?thesis
  proof (cases "Supported plan")
    case True
    with assms i have s: "serve_metered cfg db mk snap rid now r plan fwd = (db', out)" by (simp add: gate_Middleware_def serve_def)
    then have out: "out = Refuse 400 ''invalid_price_cap'' \<or> out = Forward None None fwd"
      using assms(1) unfolding serve_metered_def Let_def by (auto split: sum.splits if_splits option.splits prod.splits)
    with serve_metered_unreserved [OF s] show ?thesis by auto
  qed (use assms i in \<open>auto simp: gate_Middleware_def serve_def\<close>)
qed

section \<open>The callback\<close>

lemma findQuote_listed: "p \<in> set (map q_peer_id qs) \<Longrightarrow> \<exists>q. findQuote qs p = Some q \<and> q_peer_id q = p"
  by (induction qs) auto

lemma findQuote_unlisted: "p \<notin> set (map q_peer_id qs) \<Longrightarrow> findQuote qs p = None"
  by (induction qs) auto

lemma Inspect_ceilings:
  assumes "Inspect path len body outputMax = (plan, fwd)" "in_int64 outputMax"
  shows "in_int64 (InputCeiling plan)" "in_int64 (OutputCeiling plan)"
proof -
  have "in_int64 (ceilingFromLength len)" "in_int64 (fst (input_ceiling len (int n)))" for n
    by (auto simp: ceilingFromLength_def input_ceiling_def MaxBody_def in_int64_def)
  then show "in_int64 (InputCeiling plan)"
    using assms(1) by (auto simp: Inspect_def Let_def split: option.splits prod.splits) (metis fst_conv)
  have "in_int64 (resolveOutputCeiling g (MaxTokens s) (MaxCompletion s) (MaxOutputTokens s) outputMax)" if "shape_ints s" for s g
    by (rule resolveOutputCeiling_bounds(2) [OF _ assms(2) refl]) (use that in \<open>simp add: shape_ints_def\<close>)
  from this [of empty_shape] this [OF decodeShape_ints] show "in_int64 (OutputCeiling plan)"
    using assms(1) by (auto simp: Inspect_def Let_def shape_ints_def empty_shape_def split: option.splits prod.splits)
qed

lemma Inspect_input: "Inspect path len body outputMax = (plan, fwd) \<Longrightarrow> InputCeiling plan \<le> MaxBody"
  by (auto simp: Inspect_def Let_def input_ceiling_def ceilingFromLength_def MaxBody_def split: option.splits prod.splits if_splits)

text \<open>What a complete callback does to an admitted request.\<close>

lemma admitted_charged:
  assumes adm: "admitted cfg db mk snap now r plan db' reqID peers row" and inv: "billing_inv db'" "billing_inv db"
    and i: "in_int64 (InputCeiling plan)" "in_int64 (OutputCeiling plan)" "InputCeiling plan \<le> MaxBody"
    and u: "su_Complete u" "ServedPeerID u \<in> set peers" "0 \<le> InputTokens u" "0 \<le> CachedInputTokens u" "0 \<le> OutputTokens u"
      "InputTokens u + CachedInputTokens u \<le> InputCeiling plan" "OutputTokens u \<le> OutputCeiling plan" "OutputTokens u \<le> 2147483647"
    and credit: "\<And>a. credit_of db a \<le> 4611686018427387903"
  obtains q cost fee seller row' where "q \<in> set (r_quotes row)" "q_peer_id q = ServedPeerID u"
    "Cost (InputTokens u) (CachedInputTokens u) (OutputTokens u) (q_in q) (q_cached q) (q_out q) = Inr cost"
    "cost \<le> r_reserved_raw row" "fee + seller = cost"
    "let db'' = Callback db' (Some reqID) u feeBps t clock in
       billing_inv db'' \<and> scanBillingRequest db'' reqID = Inr row' \<and> r_state row' = (if cost = 0 then StateReleased else StateSettled) \<and>
       (\<forall>a. credit_of db'' a = credit_of db a + settle_move row q cost fee seller a \<and> reserved_of db'' a = reserved_of db a)"
proof -
  note a = adm [unfolded admitted_def]
  obtain q where q: "findQuote (r_quotes row) (ServedPeerID u) = Some q" "q_peer_id q = ServedPeerID u"
    using findQuote_listed u(2) a by metis
  have mem: "q \<in> set (r_quotes row)" using q(1) by (rule findQuote_mem)
  let ?u = "\<lparr>u_in = InputTokens u, u_cached = CachedInputTokens u, u_out = OutputTokens u\<rparr>"
  obtain cost where c: "Cost (InputTokens u) (CachedInputTokens u) (OutputTokens u) (q_in q) (q_cached q) (q_out q) = Inr cost"
      "0 \<le> cost" "cost \<le> r_reserved_raw row"
    using ReserveAmount_bound [of "r_quotes row" _ _ _ q, OF _ mem _ u(3-7) i(1,2)] a mem by blast
  obtain fee seller where f: "Fee cost feeBps = Inr (fee, seller)" "fee + seller = cost" "0 \<le> fee" "0 \<le> seller"
    using Fee_exact [of cost feeBps] Cost_bounds [OF c(1)] fee_share_bounds [of cost feeBps] by auto
  have fit: "tokens_fit ?u" using u i(3) by (simp add: tokens_fit_def MaxBody_def)
  have room: "credit_of db' b + r_reserved_raw row \<le> max_int64" for b
  proof -
    have "reserved_of db' (r_buyer row) \<le> credit_of db' (r_buyer row)" "0 \<le> reserved_of db (r_buyer row)"
      using inv accounts_ok_bounds by (auto simp: billing_inv_def)
    with a credit [of b] credit [of "r_buyer row"] show ?thesis by simp
  qed
  obtain db2 row' where s: "SettleBilling db' reqID (ServedPeerID u) ?u feeBps t clock = Inr (db2, row')" "scanBillingRequest db2 reqID = Inr row'"
      "r_state row' = (if cost = 0 then StateReleased else StateSettled)"
      "\<forall>a. credit_of db2 a = credit_of db' a + settle_move row q cost fee seller a \<and>
           reserved_of db2 a = reserved_of db' a - (if a = r_buyer row then r_reserved_raw row else 0)"
    using settle_covered [OF inv(1) _ _ q(1) fit _ c(2,3) f room room, of reqID t clock] a c(1) by (auto simp del: Cost_def)
  have "Callback db' (Some reqID) u feeBps t clock = db2" using s(1) u(1) a by (simp add: Callback_def)
  moreover have "billing_inv db2" using SettleBilling_inv [OF s(1) inv(1)] by blast
  ultimately show ?thesis using s a by (intro that [OF mem q(2) c(1,3) f(2), of row']) auto
qed

text \<open>A request that enforce mode forwarded is an admitted one.\<close>

lemma forwarded_admitted:
  assumes "g_mode cfg = BillingEnforce" "billing_inv db" "market_ok mk"
    and "Inspect (gr_path r) (gr_length r) (gr_body r) (g_output cfg) = (plan, fwd)" "Generative plan \<or> Supported plan"
    and "gate_Middleware cfg db mk (Inr snap) rid now r = (db', Forward token (Some peers) fwd')"
  obtains reqID row where "token = Some reqID" "billing_inv db'" "admitted cfg db mk snap now r plan db' reqID peers row"
proof -
  have sup: "Supported plan" using assms(1,4,5,6) by (auto simp: gate_Middleware_def serve_def split: if_splits)
  then have "serve_metered cfg db mk (Inr snap) rid now r plan fwd = (db', Forward token (Some peers) fwd')"
    using assms(1,4,6) by (simp add: gate_Middleware_def serve_def)
  then show ?thesis using serve_enforce_forward [OF _ assms(1-3)] that by (metis option.inject)
qed

text \<open>
  C9 (a served request pays its exact price). From the gate to the callback: when an admitted request comes back complete from one of the peers it was allowed to go to, with token counts
  within the ceilings the gate took from its body, the callback charges the buyer the exact cost at the frozen rates of that peer, at most what was reserved, pays the seller and the treasury,
  ends the reservation, and leaves all other balances as they were before the request.
\<close>

theorem served_request_charged:
  assumes "g_mode cfg = BillingEnforce" "billing_inv db" "market_ok mk" "in_int64 (g_output cfg)"
    and "Inspect (gr_path r) (gr_length r) (gr_body r) (g_output cfg) = (plan, fwd)" "Generative plan \<or> Supported plan"
    and "gate_Middleware cfg db mk (Inr snap) rid now r = (db', Forward token (Some peers) fwd')"
    and u: "su_Complete u" "ServedPeerID u \<in> set peers" "0 \<le> InputTokens u" "0 \<le> CachedInputTokens u" "0 \<le> OutputTokens u"
      "InputTokens u + CachedInputTokens u \<le> InputCeiling plan" "OutputTokens u \<le> OutputCeiling plan" "OutputTokens u \<le> 2147483647"
    and "\<And>a. credit_of db a \<le> 4611686018427387903"
  shows "\<exists>reqID row q cost fee seller row'. token = Some reqID \<and> admitted cfg db mk snap now r plan db' reqID peers row \<and>
    q \<in> set (r_quotes row) \<and> q_peer_id q = ServedPeerID u \<and>
    Cost (InputTokens u) (CachedInputTokens u) (OutputTokens u) (q_in q) (q_cached q) (q_out q) = Inr cost \<and>
    cost \<le> r_reserved_raw row \<and> fee + seller = cost \<and>
    (let db'' = Callback db' token u feeBps t clock in
       billing_inv db'' \<and> scanBillingRequest db'' reqID = Inr row' \<and> r_state row' = (if cost = 0 then StateReleased else StateSettled) \<and>
       (\<forall>a. credit_of db'' a = credit_of db a + settle_move row q cost fee seller a \<and> reserved_of db'' a = reserved_of db a))"
proof -
  obtain reqID row where t: "token = Some reqID" "billing_inv db'" and adm: "admitted cfg db mk snap now r plan db' reqID peers row"
    using forwarded_admitted [OF assms(1-3,5-7)] by metis
  note i = Inspect_ceilings [OF assms(5,4)] Inspect_input [OF assms(5)]
  show ?thesis
    by (rule admitted_charged [OF adm t(2) assms(2) i u assms(16), of feeBps t clock]) (use adm t(1) in blast)+
qed

text \<open>
  An admitted request that is aborted, refused, not answered or answered without usage costs nothing: the callback ends its reservation, and every balance is what it was before the
  request. So does one that was served by a peer it was not quoted for.
\<close>

theorem unserved_request_released:
  assumes "admitted cfg db mk snap now r plan db' reqID peers row" "billing_inv db'"
    and "\<not> su_Complete u \<or> ServedPeerID u \<notin> set peers"
  shows "\<exists>row'. let db'' = Callback db' (Some reqID) u feeBps t clock in
    billing_inv db'' \<and> scanBillingRequest db'' reqID = Inr row' \<and> r_state row' = StateReleased \<and>
    r_release_reason row' = (if su_Complete u then ''unknown_peer'' else releaseReason u) \<and>
    (\<forall>a. credit_of db'' a = credit_of db a \<and> reserved_of db'' a = reserved_of db a)"
proof -
  note a = assms(1) [unfolded admitted_def]
  define reason where "reason = (if su_Complete u then ''unknown_peer'' else releaseReason u)"
  have op: "open_row db' row" "r_request_id row = reqID" using scan_open a by blast+
  obtain db2 where rel: "releaseLocked db' row reason (time_or_now clock t) = Inr (db2, release_mark reason (time_or_now clock t) row)"
    using releaseLocked_open [OF assms(2) op(1)] by blast
  have none: "findQuote (r_quotes row) p = None" if "p \<notin> set peers" for p
    using that a findQuote_unlisted by auto
  have "Callback db' (Some reqID) u feeBps t clock = db2"
    using rel a assms(3) none
    by (auto simp: Callback_def ReleaseBilling_def SettleBilling_def release_tx_def settle_tx_def reason_def)
  moreover have "find_row r_request_id reqID (requests db2) = Some (release_mark reason (time_or_now clock t) row)"
    using op(1) by (simp add: releaseLocked_effect(5) [OF assms(2) op(1) rel] find_row_update op(2) open_row_def)
  ultimately show ?thesis
    using a releaseLocked_effect [OF assms(2) op(1) rel] releaseLocked_inv [OF assms(2) op(1) rel]
    by (auto simp: scanBillingRequest_def Let_def release_mark_def reason_def)
qed

lemma demo_inspect: "Inspect (gr_path demo_call) (gr_length demo_call) (gr_body demo_call) (g_output demo_gate) = (demo_plan, Verbatim)"
  by code_simp

lemma demo_run:
  obtains db' where "gate_Middleware demo_gate demo_funded demo_asks (Inr demo_snap) (Some ''q1'') 10 demo_call = (db', Forward (Some ''q1'') (Some [''p1'']) Verbatim)"
proof -
  let ?c = "\<lparr>cap_in = None, cap_cached = None, cap_out = None\<rparr>"
  have caps: "parseRequestCaps (gr_cap_in demo_call) (gr_cap_cached demo_call) (gr_cap_out demo_call) = Inr ?c" by code_simp
  have merged: "resolveCaps demo_funded demo_asks (gr_account demo_call) (pl_Service demo_plan) (pl_Model demo_plan) ?c 10 = Inr (demo_funded, ?c)" by code_simp
  have quotes: "resolveQuotes (Inr demo_snap) demo_asks (requirePricedPeer demo_gate) (pl_Service demo_plan) (pl_Model demo_plan) ?c 10 = Inr [demo_quote]"
    by code_simp
  have "\<not> isl (reserve demo_funded (Some ''q1'') ''b1'' demo_plan ?c [demo_quote] 10)" by code_simp
  then obtain db' rid where res: "reserve demo_funded (Some ''q1'') ''b1'' demo_plan ?c [demo_quote] 10 = Inr (db', rid)"
    by (metis isl_def old.sum.exhaust surj_pair)
  then have "rid = ''q1''" by (auto simp: reserve_def res_simps)
  with demo_inspect caps merged quotes res that show ?thesis
    by (simp add: gate_Middleware_def serve_def serve_metered_def demo_gate_def demo_plan_def demo_call_def setAllowedPeers_def demo_quote_def)
qed

lemma demo_asks_ok: "market_ok demo_asks"
  by code_simp

theorem enforce_admits_reserved_witness:
  "\<exists>db' peers row. gate_Middleware demo_gate demo_funded demo_asks (Inr demo_snap) (Some ''q1'') 10 demo_call = (db', Forward (Some ''q1'') (Some peers) Verbatim) \<and>
     admitted demo_gate demo_funded demo_asks demo_snap 10 demo_call demo_plan db' ''q1'' peers row"
proof -
  obtain db' where run: "gate_Middleware demo_gate demo_funded demo_asks (Inr demo_snap) (Some ''q1'') 10 demo_call = (db', Forward (Some ''q1'') (Some [''p1'']) Verbatim)"
    by (rule demo_run)
  have "g_mode demo_gate = BillingEnforce" "Generative demo_plan \<or> Supported demo_plan" by (simp_all add: demo_gate_def demo_plan_def)
  from enforce_admits_reserved [OF this(1) demo_inv(2) demo_asks_ok demo_inspect this(2) run] run show ?thesis by auto
qed

theorem served_request_charged_witness:
  "\<exists>db' reqID row q cost fee seller row'.
     gate_Middleware demo_gate demo_funded demo_asks (Inr demo_snap) (Some ''q1'') 10 demo_call = (db', Forward (Some ''q1'') (Some [''p1'']) Verbatim) \<and>
     Cost (InputTokens demo_usage) (CachedInputTokens demo_usage) (OutputTokens demo_usage) (q_in q) (q_cached q) (q_out q) = Inr cost \<and> cost \<le> r_reserved_raw row \<and> fee + seller = cost \<and>
     (let db'' = Callback db' (Some ''q1'') demo_usage 250 30 30 in
        billing_inv db'' \<and> scanBillingRequest db'' reqID = Inr row' \<and> r_state row' = (if cost = 0 then StateReleased else StateSettled) \<and>
        (\<forall>a. credit_of db'' a = credit_of demo_funded a + settle_move row q cost fee seller a \<and> reserved_of db'' a = reserved_of demo_funded a))"
proof -
  obtain db' where run: "gate_Middleware demo_gate demo_funded demo_asks (Inr demo_snap) (Some ''q1'') 10 demo_call = (db', Forward (Some ''q1'') (Some [''p1'']) Verbatim)"
    by (rule demo_run)
  have g: "g_mode demo_gate = BillingEnforce" "in_int64 (g_output demo_gate)" "Generative demo_plan \<or> Supported demo_plan"
    by (simp_all add: demo_gate_def demo_plan_def in_int64_def)
  have c: "credit_of demo_funded a \<le> 4611686018427387903" for a
    by (simp add: demo_funded_def credit_of_def find_row_def empty_db_def)
  note d = demo_usage_def demo_plan_def
  have "su_Complete demo_usage" "ServedPeerID demo_usage \<in> set [''p1'']" "0 \<le> InputTokens demo_usage" "0 \<le> CachedInputTokens demo_usage"
    "0 \<le> OutputTokens demo_usage" "InputTokens demo_usage + CachedInputTokens demo_usage \<le> InputCeiling demo_plan"
    "OutputTokens demo_usage \<le> OutputCeiling demo_plan" "OutputTokens demo_usage \<le> 2147483647" by (simp_all add: d)
  from served_request_charged [OF g(1) demo_inv(2) demo_asks_ok g(2) demo_inspect g(3) run this c, where feeBps = 250 and t = 30 and clock = 30]
  show ?thesis using run by blast
qed

end
