(* ===== verification/Usage_Meter.thy ===== *)
theory Usage_Meter
  imports Request_Life Go_Text
begin

text \<open>
  The meter on proxied responses (\<^verbatim>\<open>internal/perf\<close>: \<^verbatim>\<open>parser.go\<close>, \<^verbatim>\<open>body.go\<close>, \<^verbatim>\<open>hook.go\<close>): bytes flow to the client in reads of any size, the parser folds the usage records in them into
  token counts, and at the end the settlement callback of \<open>Request_Gate\<close> gets them.

  The JSON text parser is the parameter \<open>parse\<close> (\<open>None\<close> for text that is not JSON); how \<^verbatim>\<open>json.Unmarshal\<close> then fills the structs is modelled: members in order, names up to case, a value of
  the wrong type skipped, null clearing a pointer. The telemetry sample itself (floating-point timings, hashed peer id) is not modelled.

  The lemmas show that the counts do not depend on how the stream is cut into reads, what they are, and that a complete response ends in the exact charge.
\<close>

section \<open>Decoding a frame\<close>

text \<open>The name of a JSON member up to case: \<^verbatim>\<open>encoding/json\<close> also folds the long s (U+017F) and the Kelvin sign (U+212A).\<close>

fun fold_name :: "string \<Rightarrow> string" where
  "fold_name [] = []"
| "fold_name (a # s) =
     (if a = CHR 0xC5 \<and> prefix [CHR 0xBF] s then CHR ''s'' # fold_name (drop 1 s)
      else if a = CHR 0xE2 \<and> prefix [CHR 0x84, CHR 0xAA] s then CHR ''k'' # fold_name (drop 2 s)
      else lower_char a # fold_name s)"

definition dec_int :: "int \<Rightarrow> json \<Rightarrow> int" where
  "dec_int cur v = (case v of JNum n \<Rightarrow> if in_int64 n then n else cur | _ \<Rightarrow> cur)"

definition dec_str :: "string \<Rightarrow> json \<Rightarrow> string" where
  "dec_str cur v = (case v of JStr t \<Rightarrow> t | _ \<Rightarrow> cur)"

definition dec_struct :: "(string \<Rightarrow> json \<Rightarrow> 'a \<Rightarrow> 'a) \<Rightarrow> 'a \<Rightarrow> json \<Rightarrow> 'a" where
  "dec_struct fld cur v = (case v of JObj fs \<Rightarrow> fold (\<lambda>(k, v). fld (fold_name k) v) fs cur | _ \<Rightarrow> cur)"

text \<open>A pointer: null clears it, anything else allocates the zero value first.\<close>

definition dec_ptr :: "('a \<Rightarrow> json \<Rightarrow> 'a) \<Rightarrow> 'a \<Rightarrow> 'a option \<Rightarrow> json \<Rightarrow> 'a option" where
  "dec_ptr dec zero cur v = (if v = JNull then None else Some (dec (case cur of None \<Rightarrow> zero | Some x \<Rightarrow> x) v))"

record usage =
  us_input :: int
  us_output :: int
  us_prompt :: int
  us_completion :: int
  us_cache_read :: int
  us_cache_creation :: int
  us_details :: "int option"

definition zero_usage :: usage where
  "zero_usage = \<lparr>us_input = 0, us_output = 0, us_prompt = 0, us_completion = 0, us_cache_read = 0, us_cache_creation = 0, us_details = None\<rparr>"

definition details_field :: "string \<Rightarrow> json \<Rightarrow> int \<Rightarrow> int" where
  "details_field k v n = (if k = ''cached_tokens'' then dec_int n v else n)"

definition usage_field :: "string \<Rightarrow> json \<Rightarrow> usage \<Rightarrow> usage" where
  "usage_field k v u =
     (if k = ''input_tokens'' then u\<lparr>us_input := dec_int (us_input u) v\<rparr>
      else if k = ''output_tokens'' then u\<lparr>us_output := dec_int (us_output u) v\<rparr>
      else if k = ''prompt_tokens'' then u\<lparr>us_prompt := dec_int (us_prompt u) v\<rparr>
      else if k = ''completion_tokens'' then u\<lparr>us_completion := dec_int (us_completion u) v\<rparr>
      else if k = ''cache_read_input_tokens'' then u\<lparr>us_cache_read := dec_int (us_cache_read u) v\<rparr>
      else if k = ''cache_creation_input_tokens'' then u\<lparr>us_cache_creation := dec_int (us_cache_creation u) v\<rparr>
      else if k = ''prompt_tokens_details'' then u\<lparr>us_details := dec_ptr (dec_struct details_field) 0 (us_details u) v\<rparr>
      else u)"

definition dec_usage :: "usage option \<Rightarrow> json \<Rightarrow> usage option" where
  "dec_usage = dec_ptr (dec_struct usage_field) zero_usage"

text \<open>The message member: its model and its usage.\<close>

definition message_field :: "string \<Rightarrow> json \<Rightarrow> string \<times> usage option \<Rightarrow> string \<times> usage option" where
  "message_field k v m =
     (if k = ''model'' then (dec_str (fst m) v, snd m)
      else if k = ''usage'' then (fst m, dec_usage (snd m) v)
      else m)"

text \<open>A choice: content and reasoning content of its delta.\<close>

definition content_field :: "string \<Rightarrow> json \<Rightarrow> string \<times> string \<Rightarrow> string \<times> string" where
  "content_field k v c =
     (if k = ''content'' then (dec_str (fst c) v, snd c)
      else if k = ''reasoning_content'' then (fst c, dec_str (snd c) v)
      else c)"

definition choice_field :: "string \<Rightarrow> json \<Rightarrow> string \<times> string \<Rightarrow> string \<times> string" where
  "choice_field k v c = (if k = ''delta'' then dec_struct content_field c v else c)"

text \<open>The first choice, if any; a repeated array is decoded into the elements it already has.\<close>

definition dec_choices :: "(string \<times> string) option \<Rightarrow> json \<Rightarrow> (string \<times> string) option" where
  "dec_choices cur v =
     (case v of
        JNull \<Rightarrow> None
      | JArr [] \<Rightarrow> None
      | JArr (c # _) \<Rightarrow> Some (dec_struct choice_field (case cur of None \<Rightarrow> ([], []) | Some x \<Rightarrow> x) c)
      | _ \<Rightarrow> cur)"

record probe =
  pr_model :: string
  pr_type :: string
  pr_usage :: "usage option"
  pr_message :: "(string \<times> usage option) option"
  pr_choice :: "(string \<times> string) option"
  pr_delta_type :: string

definition zero_probe :: probe where
  "zero_probe = \<lparr>pr_model = [], pr_type = [], pr_usage = None, pr_message = None, pr_choice = None, pr_delta_type = []\<rparr>"

definition delta_field :: "string \<Rightarrow> json \<Rightarrow> string \<Rightarrow> string" where
  "delta_field k v t = (if k = ''type'' then dec_str t v else t)"

definition probe_field :: "string \<Rightarrow> json \<Rightarrow> probe \<Rightarrow> probe" where
  "probe_field k v p =
     (if k = ''model'' then p\<lparr>pr_model := dec_str (pr_model p) v\<rparr>
      else if k = ''type'' then p\<lparr>pr_type := dec_str (pr_type p) v\<rparr>
      else if k = ''usage'' then p\<lparr>pr_usage := dec_usage (pr_usage p) v\<rparr>
      else if k = ''message'' then p\<lparr>pr_message := dec_ptr (dec_struct message_field) ([], None) (pr_message p) v\<rparr>
      else if k = ''choices'' then p\<lparr>pr_choice := dec_choices (pr_choice p) v\<rparr>
      else if k = ''delta'' then p\<lparr>pr_delta_type := dec_struct delta_field (pr_delta_type p) v\<rparr>
      else p)"

definition payloadProbe :: "(string \<Rightarrow> json option) \<Rightarrow> string \<Rightarrow> probe" where
  "payloadProbe parse payload = (case parse payload of None \<Rightarrow> zero_probe | Some v \<Rightarrow> dec_struct probe_field zero_probe v)"

section \<open>The parser\<close>

definition jsonCaptureCap :: nat where
  "jsonCaptureCap = 262144"

definition sseLineCap :: nat where
  "sseLineCap = 1048576"

datatype parserKind = parserNone | parserSSE | parserJSON

record streamParser =
  sp_kind :: parserKind
  sp_line :: string
  skipLine :: bool
  sp_body :: string
  sp_parsed :: bool
  sp_model :: string
  inputTokens :: int
  cachedInputTokens :: int
  outputTokens :: int
  sawToken :: bool
  openAIAggregateInput :: bool

definition newStreamParser :: "string \<Rightarrow> streamParser" where
  "newStreamParser contentType =
     \<lparr>sp_kind = (if prefix ''text/event-stream'' contentType then parserSSE
                 else if prefix ''application/json'' contentType then parserJSON else parserNone),
      sp_line = [], skipLine = False, sp_body = [], sp_parsed = False, sp_model = [], inputTokens = 0, cachedInputTokens = 0, outputTokens = 0,
      sawToken = False, openAIAggregateInput = False\<rparr>"

definition observeUsage :: "usage option \<Rightarrow> streamParser \<Rightarrow> streamParser" where
  "observeUsage u p =
     (case u of
        None \<Rightarrow> p
      | Some u \<Rightarrow>
          let p = (if us_prompt u > 0
                   then (let p = p\<lparr>inputTokens := max (inputTokens p) (us_prompt u), openAIAggregateInput := True\<rparr> in
                         case us_details u of None \<Rightarrow> p | Some c \<Rightarrow> p\<lparr>cachedInputTokens := max (cachedInputTokens p) c\<rparr>)
                   else p\<lparr>inputTokens := max (inputTokens p) (wrap64 (us_input u + us_cache_creation u)),
                          cachedInputTokens := max (cachedInputTokens p) (us_cache_read u)\<rparr>) in
          p\<lparr>outputTokens := max (max (outputTokens p) (us_output u)) (us_completion u)\<rparr>)"

definition saw_content :: "probe \<Rightarrow> streamParser \<Rightarrow> bool" where
  "saw_content pr p \<longleftrightarrow>
     (case pr_choice pr of None \<Rightarrow> False | Some (c, r) \<Rightarrow> c \<noteq> [] \<or> r \<noteq> []) \<or>
     (pr_type pr = ''content_block_delta'' \<and> (pr_delta_type pr = ''text_delta'' \<or> pr_delta_type pr = ''thinking_delta'')) \<or>
     (sp_kind p = parserJSON \<and> outputTokens p > 0)"

definition set_model :: "string \<Rightarrow> streamParser \<Rightarrow> streamParser" where
  "set_model model p = (if model \<noteq> [] then p\<lparr>sp_model := model\<rparr> else p)"

definition mark_token :: "probe \<Rightarrow> streamParser \<Rightarrow> streamParser" where
  "mark_token pr p = (if saw_content pr p then p\<lparr>sawToken := True\<rparr> else p)"

definition observe :: "probe \<Rightarrow> streamParser \<Rightarrow> streamParser" where
  "observe pr p =
     (let p = (case pr_message pr of None \<Rightarrow> p | Some (model, u) \<Rightarrow> observeUsage u (set_model model p)) in
      mark_token pr (observeUsage (pr_usage pr) (set_model (pr_model pr) p)))"

definition observeLine :: "(string \<Rightarrow> json option) \<Rightarrow> string \<Rightarrow> streamParser \<Rightarrow> streamParser" where
  "observeLine parse line p =
     (if \<not> prefix ''data:'' line then p
      else let payload = TrimSpace (drop 5 line) in
        if payload = [] \<or> payload = ''[DONE]'' then p else observe (payloadProbe parse payload) p)"

text \<open>The first newline of a byte string splits off a chunk that ends with it.\<close>

fun cut_line :: "string \<Rightarrow> string \<times> bool \<times> string" where
  "cut_line [] = ([], False, [])"
| "cut_line (c # cs) = (if c = nl then ([c], True, cs) else case cut_line cs of (chunk, found, rest) \<Rightarrow> (c # chunk, found, rest))"

function feedSSE :: "(string \<Rightarrow> json option) \<Rightarrow> string \<Rightarrow> streamParser \<Rightarrow> streamParser" where
  "feedSSE parse b p =
     (if b = [] then p
      else case cut_line b of (chunk, found, rest) \<Rightarrow>
        feedSSE parse rest
          (if skipLine p then (if found then p\<lparr>skipLine := False, sp_line := []\<rparr> else p)
           else if length (sp_line p) + length chunk > sseLineCap then p\<lparr>skipLine := \<not> found, sp_line := []\<rparr>
           else (let p = p\<lparr>sp_line := sp_line p @ chunk\<rparr> in
                 if found then (observeLine parse (sp_line p) p)\<lparr>sp_line := []\<rparr> else p)))"
  by pat_completeness auto
termination
proof -
  have "length rest \<le> length b \<and> (b \<noteq> [] \<longrightarrow> length rest < length b)" if "(chunk, found, rest) = cut_line b" for b chunk found rest
    using that by (induction b arbitrary: chunk found rest) (auto split: if_splits prod.splits)
  then show ?thesis by (relation "measure (\<lambda>(parse, b, p). length b)") auto
qed

declare feedSSE.simps [simp del]

definition feedJSON :: "string \<Rightarrow> streamParser \<Rightarrow> streamParser" where
  "feedJSON b p = (if length (sp_body p) < jsonCaptureCap then p\<lparr>sp_body := sp_body p @ take (jsonCaptureCap - length (sp_body p)) b\<rparr> else p)"

definition meter_feed :: "(string \<Rightarrow> json option) \<Rightarrow> string \<Rightarrow> streamParser \<Rightarrow> streamParser" where
  "meter_feed parse b p =
     (case sp_kind p of parserSSE \<Rightarrow> feedSSE parse b p | parserJSON \<Rightarrow> feedJSON b p | parserNone \<Rightarrow> p)"

definition finish :: "(string \<Rightarrow> json option) \<Rightarrow> streamParser \<Rightarrow> streamParser" where
  "finish parse p =
     (if sp_parsed p then p
      else let p = p\<lparr>sp_parsed := True\<rparr>; body = TrimSpace (sp_body p) in
        if sp_kind p = parserJSON \<and> body \<noteq> [] \<and> last body = CHR ''}'' then observe (payloadProbe parse body) p else p)"

definition settleInputTokens :: "streamParser \<Rightarrow> int" where
  "settleInputTokens p = (if openAIAggregateInput p then max 0 (wrap64 (inputTokens p - cachedInputTokens p)) else inputTokens p)"

section \<open>The body and the hook\<close>

text \<open>A read of the proxied body: the bytes and whether it reported the end; a close without it is an abort.\<close>

datatype body_op = BodyRead string bool | BodyClose

record measureBody =
  mb_parser :: streamParser
  mb_eof :: bool
  mb_finished :: bool
  mb_bytes :: int
  mb_done :: "(streamParser \<times> bool) option"

definition wrapBody :: "string \<Rightarrow> measureBody" where
  "wrapBody contentType = \<lparr>mb_parser = newStreamParser contentType, mb_eof = False, mb_finished = False, mb_bytes = 0, mb_done = None\<rparr>"

text \<open>\<open>mb_done\<close> is what the done callback saw: the parser and the end-of-file flag.\<close>

definition finalize :: "(string \<Rightarrow> json option) \<Rightarrow> measureBody \<Rightarrow> measureBody" where
  "finalize parse m =
     (if mb_finished m then m
      else let p = finish parse (mb_parser m) in m\<lparr>mb_parser := p, mb_finished := True, mb_done := Some (p, mb_eof m)\<rparr>)"

fun body_step :: "(string \<Rightarrow> json option) \<Rightarrow> body_op \<Rightarrow> measureBody \<Rightarrow> measureBody" where
  "body_step parse (BodyRead b eof) m =
     (let m = (if b \<noteq> [] then m\<lparr>mb_bytes := mb_bytes m + int (length b), mb_parser := meter_feed parse b (mb_parser m)\<rparr> else m) in
      if eof then finalize parse (m\<lparr>mb_eof := True, mb_parser := finish parse (mb_parser m)\<rparr>) else m)"
| "body_step parse BodyClose m = finalize parse m"

record http_response =
  rs_peer :: string
  rs_path :: string
  rs_status :: int
  rs_body :: bool
  rs_content_type :: string
  rs_encoding :: string

definition splitServiceRoute :: "string \<Rightarrow> string \<times> string" where
  "splitServiceRoute path =
     (case CutPrefix path ''/v1/service/'' of
        None \<Rightarrow> ([], [])
      | Some rest \<Rightarrow>
          case cut_slash rest of
            None \<Rightarrow> ([], [])
          | Some (svc, tail) \<Rightarrow>
              if svc = [] then ([], [])
              else let route = (case CutPrefix tail ''v1/'' of None \<Rightarrow> tail | Some t \<Rightarrow> t) in
                (svc, if length route > 48 then take 48 route else route))"

definition settle_usage :: "http_response \<Rightarrow> streamParser \<Rightarrow> bool \<Rightarrow> SettleUsage" where
  "settle_usage resp p eof =
     \<lparr>su_Complete = (rs_status resp \<ge> 200 \<and> rs_status resp < 300 \<and> eof \<and> (inputTokens p > 0 \<or> cachedInputTokens p > 0 \<or> outputTokens p > 0)),
      su_Status = rs_status resp, ClientAbort = (\<not> eof), ServedPeerID = rs_peer resp, InputTokens = settleInputTokens p,
      CachedInputTokens = cachedInputTokens p, OutputTokens = outputTokens p\<rparr>"

text \<open>The settlement callbacks of a response whose body sees the given operations; \<open>None\<close> where it is not called.\<close>

definition HookWithSettle :: "(string \<Rightarrow> json option) \<Rightarrow> http_response \<Rightarrow> body_op list \<Rightarrow> SettleUsage option" where
  "HookWithSettle parse resp ops =
     (if rs_peer resp = [] \<or> fst (splitServiceRoute (rs_path resp)) = [] \<or> \<not> rs_body resp then None
      else let contentType = (if rs_encoding resp \<noteq> [] \<and> rs_encoding resp \<noteq> ''identity'' then [] else rs_content_type resp) in
        map_option (\<lambda>(p, eof). settle_usage resp p eof) (mb_done (fold (body_step parse) ops (wrapBody contentType))))"

definition respond :: "(string \<Rightarrow> json option) \<Rightarrow> db \<Rightarrow> string option \<Rightarrow> http_response \<Rightarrow> body_op list \<Rightarrow> int \<Rightarrow> instant \<Rightarrow> instant \<Rightarrow> db" where
  "respond parse db requestID resp ops feeBps now clock =
     (case HookWithSettle parse resp ops of None \<Rightarrow> db | Some u \<Rightarrow> Callback db requestID u feeBps now clock)"

section \<open>What the meter should see\<close>

text \<open>The complete lines of a stream, newline included; an unterminated rest is not a line.\<close>

fun complete_lines :: "string \<Rightarrow> string \<Rightarrow> string list" where
  "complete_lines line [] = []"
| "complete_lines line (c # cs) = (if c = nl then (line @ [c]) # complete_lines [] cs else complete_lines (line @ [c]) cs)"

definition lines_of :: "string \<Rightarrow> string list" where
  "lines_of text = complete_lines [] text"

definition short_line :: "string \<Rightarrow> bool" where
  "short_line l \<longleftrightarrow> length l \<le> sseLineCap"

text \<open>The counts and the model, without the incremental state.\<close>

definition observed :: "streamParser \<Rightarrow> string \<times> int \<times> int \<times> int \<times> bool \<times> bool" where
  "observed p = (sp_model p, inputTokens p, cachedInputTokens p, outputTokens p, sawToken p, openAIAggregateInput p)"

definition byte_step :: "(string \<Rightarrow> json option) \<Rightarrow> char \<Rightarrow> streamParser \<Rightarrow> streamParser" where
  "byte_step parse c p =
     (if skipLine p then (if c = nl then p\<lparr>skipLine := False, sp_line := []\<rparr> else p)
      else if length (sp_line p) + 1 > sseLineCap then p\<lparr>skipLine := c \<noteq> nl, sp_line := []\<rparr>
      else if c = nl then (observeLine parse (sp_line p @ [c]) (p\<lparr>sp_line := sp_line p @ [c]\<rparr>))\<lparr>sp_line := []\<rparr>
      else p\<lparr>sp_line := sp_line p @ [c]\<rparr>)"

definition counts_ok :: "streamParser \<Rightarrow> bool" where
  "counts_ok p \<longleftrightarrow> 0 \<le> inputTokens p \<and> 0 \<le> cachedInputTokens p \<and> 0 \<le> outputTokens p \<and>
     in_int64 (inputTokens p) \<and> in_int64 (cachedInputTokens p) \<and> in_int64 (outputTokens p)"

definition usage_ok :: "usage \<Rightarrow> bool" where
  "usage_ok u \<longleftrightarrow> list_all in_int64 [us_input u, us_output u, us_prompt u, us_completion u, us_cache_read u, us_cache_creation u] \<and>
     (\<forall>c. us_details u = Some c \<longrightarrow> in_int64 c)"

definition opt_ok :: "usage option \<Rightarrow> bool" where
  "opt_ok u \<longleftrightarrow> (\<forall>x. u = Some x \<longrightarrow> usage_ok x)"

definition probe_ok :: "probe \<Rightarrow> bool" where
  "probe_ok pr \<longleftrightarrow> opt_ok (pr_usage pr) \<and> (\<forall>m. pr_message pr = Some m \<longrightarrow> opt_ok (snd m))"

text \<open>A demo: a parser that knows one frame, whose usage is 20 prompt tokens, 5 of them cached, and 7 completion tokens.\<close>

definition demo_parse :: "string \<Rightarrow> json option" where
  "demo_parse t =
     (if t = ''{u}'' then Some (JObj [(''usage'', JObj [(''prompt_tokens'', JNum 20), (''completion_tokens'', JNum 7),
        (''prompt_tokens_details'', JObj [(''cached_tokens'', JNum 5)])])]) else None)"

definition demo_response :: http_response where
  "demo_response = \<lparr>rs_peer = ''p1'', rs_path = ''/v1/service/llm/v1/chat/completions'', rs_status = 200, rs_body = True,
     rs_content_type = ''text/event-stream'', rs_encoding = []\<rparr>"

definition demo_reads :: "body_op list" where
  "demo_reads = [BodyRead ''dat'' False, BodyRead (''a: {u}'' @ [nl]) False, BodyRead [] True, BodyClose]"

section \<open>Feeding in pieces\<close>

text \<open>A consumer of bytes that takes a text in pieces as it takes the whole.\<close>

locale chunk_consumer =
  fixes feed :: "string \<Rightarrow> 's \<Rightarrow> 's"
  assumes feed_nil: "feed [] s = s"
    and feed_append: "feed (a @ b) s = feed b (feed a s)"
begin

lemma feed_chunks: "fold feed chunks s = feed (concat chunks) s"
  by (induction chunks arbitrary: s) (simp_all add: feed_nil feed_append)

lemma same_text: "concat xs = concat ys \<Longrightarrow> fold feed xs s = fold feed ys s"
  by (simp add: feed_chunks)

end

lemma cut_line_found:
  "cut_line b = (chunk, True, rest) \<Longrightarrow> \<exists>w. chunk = w @ [nl] \<and> nl \<notin> set w \<and> b = w @ nl # rest"
proof (induction b arbitrary: chunk)
  case (Cons c b)
  then show ?case
  proof (cases "c = nl")
    case False
    with Cons.prems obtain ch where "cut_line b = (ch, True, rest)" "chunk = c # ch" by (auto split: prod.splits)
    with Cons.IH [of ch] False show ?thesis by (metis append_Cons set_ConsD)
  qed auto
qed simp

lemma cut_line_end: "cut_line b = (chunk, False, rest) \<Longrightarrow> chunk = b \<and> nl \<notin> set b \<and> rest = []"
  by (induction b arbitrary: chunk) (auto split: prod.splits if_splits)

lemma bytes_skip: "nl \<notin> set w \<Longrightarrow> skipLine p \<Longrightarrow> fold (byte_step parse) w p = p"
  by (induction w) (auto simp: byte_step_def)

lemma bytes_run:
  "nl \<notin> set w \<Longrightarrow> w \<noteq> [] \<Longrightarrow> \<not> skipLine p \<Longrightarrow> fold (byte_step parse) w p =
    (if length (sp_line p) + length w > sseLineCap then p\<lparr>skipLine := True, sp_line := []\<rparr> else p\<lparr>sp_line := sp_line p @ w\<rparr>)"
proof (induction w arbitrary: p)
  case (Cons c w)
  have c: "c \<noteq> nl" using Cons.prems(1) by auto
  show ?case
  proof (cases "length (sp_line p) + 1 > sseLineCap")
    case True
    then have "byte_step parse c p = p\<lparr>skipLine := True, sp_line := []\<rparr>" using Cons.prems c by (simp add: byte_step_def)
    with True Cons.prems show ?thesis by (simp add: bytes_skip)
  next
    case False
    show ?thesis
    proof (cases "w = []")
      case True
      with False c Cons.prems show ?thesis by (simp add: byte_step_def)
    next
      case w: False
      have "byte_step parse c p = p\<lparr>sp_line := sp_line p @ [c]\<rparr>" using False c Cons.prems by (simp add: byte_step_def)
      with Cons.IH [of "p\<lparr>sp_line := sp_line p @ [c]\<rparr>"] Cons.prems w show ?thesis by simp
    qed
  qed
qed simp

text \<open>Feeding by chunks is feeding byte by byte.\<close>

lemma feedSSE_bytes: "feedSSE parse b p = fold (byte_step parse) b p"
proof (induction parse b p rule: feedSSE.induct)
  case (1 parse b p)
  show ?case
  proof (cases "b = []")
    case False
    obtain chunk found rest where cut: "cut_line b = (chunk, found, rest)" by (metis prod_cases3)
    let ?p = "if skipLine p then (if found then p\<lparr>skipLine := False, sp_line := []\<rparr> else p)
           else if length (sp_line p) + length chunk > sseLineCap then p\<lparr>skipLine := \<not> found, sp_line := []\<rparr>
           else (let p = p\<lparr>sp_line := sp_line p @ chunk\<rparr> in
                 if found then (observeLine parse (sp_line p) p)\<lparr>sp_line := []\<rparr> else p)"
    have unfold: "feedSSE parse b p = feedSSE parse rest ?p" using False cut by (subst feedSSE.simps) simp
    have IH: "feedSSE parse rest ?p = fold (byte_step parse) rest ?p" using "1.IH" [OF False cut [symmetric]] by simp
    have "fold (byte_step parse) b p = fold (byte_step parse) rest ?p"
    proof (cases found)
      case True
      with cut_line_found [of b chunk rest] cut obtain w where w: "chunk = w @ [nl]" "nl \<notin> set w" "b = w @ nl # rest" by auto
      have "byte_step parse nl (fold (byte_step parse) w p) = ?p"
        by (cases "w = []"; cases "skipLine p") (use w True bytes_run [OF w(2)] bytes_skip [OF w(2)] in \<open>auto simp: byte_step_def Let_def\<close>)
      with w show ?thesis by simp
    next
      case ff: False
      with cut_line_end cut have w: "chunk = b" "nl \<notin> set b" "rest = []" by auto
      have "fold (byte_step parse) b p = ?p"
        by (cases "skipLine p") (use w ff False bytes_run [OF w(2)] bytes_skip [OF w(2)] in \<open>auto simp: Let_def\<close>)
      with w show ?thesis by simp
    qed
    with unfold IH show ?thesis by simp
  qed (simp add: feedSSE.simps)
qed

interpretation sse: chunk_consumer "feedSSE parse" for parse
  by unfold_locales (simp_all add: feedSSE_bytes)

interpretation captured: chunk_consumer feedJSON
proof
  show "feedJSON [] s = s" for s by (simp add: feedJSON_def)
  show "feedJSON (a @ b) s = feedJSON b (feedJSON a s)" for a b s
    by (cases "length (sp_body s) < jsonCaptureCap") (auto simp: feedJSON_def min_def)
qed

section \<open>The lines of a stream\<close>

text \<open>The counters and the incremental state do not touch each other.\<close>

lemma usage_frame [simp]:
  "observeUsage u (p\<lparr>sp_line := l\<rparr>) = (observeUsage u p)\<lparr>sp_line := l\<rparr>"
  "observeUsage u (p\<lparr>skipLine := b\<rparr>) = (observeUsage u p)\<lparr>skipLine := b\<rparr>"
  "sp_line (observeUsage u p) = sp_line p" "skipLine (observeUsage u p) = skipLine p"
  "sp_kind (observeUsage u p) = sp_kind p" "sp_body (observeUsage u p) = sp_body p" "sp_parsed (observeUsage u p) = sp_parsed p"
  by (simp_all add: observeUsage_def Let_def split: option.splits)

lemma model_frame [simp]:
  "set_model m (p\<lparr>sp_line := l\<rparr>) = (set_model m p)\<lparr>sp_line := l\<rparr>" "set_model m (p\<lparr>skipLine := b\<rparr>) = (set_model m p)\<lparr>skipLine := b\<rparr>"
  "sp_line (set_model m p) = sp_line p" "skipLine (set_model m p) = skipLine p" "sp_kind (set_model m p) = sp_kind p"
  "sp_body (set_model m p) = sp_body p" "sp_parsed (set_model m p) = sp_parsed p"
  "inputTokens (set_model m p) = inputTokens p" "cachedInputTokens (set_model m p) = cachedInputTokens p" "outputTokens (set_model m p) = outputTokens p"
  by (simp_all add: set_model_def)

lemma saw_frame [simp]:
  "saw_content pr (p\<lparr>sp_line := l\<rparr>) = saw_content pr p" "saw_content pr (p\<lparr>skipLine := b\<rparr>) = saw_content pr p"
  by (simp_all add: saw_content_def)

lemma token_frame [simp]:
  "mark_token pr (p\<lparr>sp_line := l\<rparr>) = (mark_token pr p)\<lparr>sp_line := l\<rparr>" "mark_token pr (p\<lparr>skipLine := b\<rparr>) = (mark_token pr p)\<lparr>skipLine := b\<rparr>"
  "sp_line (mark_token pr p) = sp_line p" "skipLine (mark_token pr p) = skipLine p" "sp_kind (mark_token pr p) = sp_kind p"
  "sp_body (mark_token pr p) = sp_body p" "sp_parsed (mark_token pr p) = sp_parsed p"
  "inputTokens (mark_token pr p) = inputTokens p" "cachedInputTokens (mark_token pr p) = cachedInputTokens p" "outputTokens (mark_token pr p) = outputTokens p"
  by (simp_all add: mark_token_def)

lemma observe_frame [simp]:
  "observe pr (p\<lparr>sp_line := l\<rparr>) = (observe pr p)\<lparr>sp_line := l\<rparr>"
  "observe pr (p\<lparr>skipLine := b\<rparr>) = (observe pr p)\<lparr>skipLine := b\<rparr>"
  "sp_line (observe pr p) = sp_line p" "skipLine (observe pr p) = skipLine p" "sp_kind (observe pr p) = sp_kind p"
  "sp_body (observe pr p) = sp_body p" "sp_parsed (observe pr p) = sp_parsed p"
  by (cases "pr_message pr"; simp add: observe_def split: prod.splits)+

lemma observeLine_frame [simp]:
  "observeLine parse t (p\<lparr>sp_line := l\<rparr>) = (observeLine parse t p)\<lparr>sp_line := l\<rparr>"
  "observeLine parse t (p\<lparr>skipLine := b\<rparr>) = (observeLine parse t p)\<lparr>skipLine := b\<rparr>"
  "sp_line (observeLine parse t p) = sp_line p" "skipLine (observeLine parse t p) = skipLine p" "sp_kind (observeLine parse t p) = sp_kind p"
  "sp_body (observeLine parse t p) = sp_body p" "sp_parsed (observeLine parse t p) = sp_parsed p"
  by (auto simp: observeLine_def Let_def)

lemma bytes_lines:
  assumes "(\<not> skipLine p \<and> sp_line p = l \<and> length l \<le> sseLineCap) \<or> (skipLine p \<and> length l > sseLineCap)"
  shows "(fold (byte_step parse) t p)\<lparr>sp_line := [], skipLine := False\<rparr> =
    fold (observeLine parse) (filter short_line (complete_lines l t)) (p\<lparr>sp_line := [], skipLine := False\<rparr>)"
  using assms
proof (induction t arbitrary: p l)
  case (Cons c t)
  let ?v = "\<lambda>p :: streamParser. p\<lparr>sp_line := [], skipLine := False\<rparr>"
  let ?p = "byte_step parse c p"
  let ?l = "if c = nl then [] else l @ [c]"
  have inv: "(\<not> skipLine ?p \<and> sp_line ?p = ?l \<and> length ?l \<le> sseLineCap) \<or> (skipLine ?p \<and> length ?l > sseLineCap)"
    using Cons.prems by (auto simp: byte_step_def)
  have view: "?v ?p = (if c = nl \<and> short_line (l @ [c]) then observeLine parse (l @ [c]) (?v p) else ?v p)"
    using Cons.prems by (auto simp: byte_step_def short_line_def)
  from Cons.IH [OF inv] view show ?case by auto
qed simp

text \<open>The reads of a body that ends.\<close>

lemma body_reads:
  assumes "\<not> mb_finished m"
  shows "\<exists>n. fold (body_step parse) (map (\<lambda>b. BodyRead b False) chunks) m = m\<lparr>mb_bytes := n, mb_parser := fold (meter_feed parse) (filter (\<lambda>b. b \<noteq> []) chunks) (mb_parser m)\<rparr>"
  using assms
proof (induction chunks arbitrary: m)
  case (Cons b bs)
  show ?case
  proof (cases "b = []")
    case False
    let ?m = "m\<lparr>mb_bytes := mb_bytes m + int (length b), mb_parser := meter_feed parse b (mb_parser m)\<rparr>"
    have "body_step parse (BodyRead b False) m = ?m" using False by simp
    moreover obtain n where "fold (body_step parse) (map (\<lambda>b. BodyRead b False) bs) ?m =
        ?m\<lparr>mb_bytes := n, mb_parser := fold (meter_feed parse) (filter (\<lambda>b. b \<noteq> []) bs) (mb_parser ?m)\<rparr>"
      using Cons.IH [of ?m] Cons.prems by auto
    ultimately show ?thesis using False by (intro exI [of _ n]) simp
  qed (use Cons in simp)
next
  case Nil
  show ?case by (intro exI [of _ "mb_bytes m"]) simp
qed

lemma concat_filter_nonempty: "concat (filter (\<lambda>b. b \<noteq> []) chunks) = concat chunks"
  by (induction chunks) auto

lemma meter_feed_sse: "sp_kind p = parserSSE \<Longrightarrow> fold (meter_feed parse) chunks p = feedSSE parse (concat chunks) p"
proof -
  have kind: "sp_kind (byte_step parse c p) = sp_kind p" for c and p :: streamParser by (simp add: byte_step_def)
  then have keep: "sp_kind (fold (byte_step parse) b p) = sp_kind p" for b and p :: streamParser by (induction b arbitrary: p) simp_all
  show "sp_kind p = parserSSE \<Longrightarrow> ?thesis"
    by (induction chunks arbitrary: p) (simp_all add: meter_feed_def sse.feed_nil sse.feed_append feedSSE_bytes keep)
qed

lemma settle_usage_frame: "settle_usage resp (p\<lparr>sp_parsed := b\<rparr>) eof = settle_usage resp p eof"
  "settle_usage resp (p\<lparr>sp_line := l, skipLine := k\<rparr>) eof = settle_usage resp p eof"
  by (simp_all add: settle_usage_def settleInputTokens_def)

text \<open>What the done callback sees of an event stream that ends.\<close>

lemma stream_done:
  assumes "sp_kind (newStreamParser ct) = parserSSE" "rest = [] \<or> rest = [BodyClose]"
  shows "mb_done (fold (body_step parse) (map (\<lambda>b. BodyRead b False) chunks @ BodyRead b True # rest) (wrapBody ct)) =
    Some ((fold (byte_step parse) (concat chunks @ b) (newStreamParser ct))\<lparr>sp_parsed := True\<rparr>, True)"
proof -
  let ?m = "wrapBody ct" and ?p = "newStreamParser ct"
  have np: "\<not> sp_parsed ?p" by (simp add: newStreamParser_def)
  obtain n where reads: "fold (body_step parse) (map (\<lambda>b. BodyRead b False) chunks) ?m =
      ?m\<lparr>mb_bytes := n, mb_parser := fold (meter_feed parse) (filter (\<lambda>b. b \<noteq> []) chunks) ?p\<rparr>"
    using body_reads [of ?m parse chunks] by (auto simp: wrapBody_def)
  define q where "q = fold (meter_feed parse) (filter (\<lambda>b. b \<noteq> []) chunks @ (if b = [] then [] else [b])) ?p"
  have q: "q = fold (byte_step parse) (concat chunks @ b) ?p"
    unfolding q_def by (subst meter_feed_sse [OF assms(1)]) (simp add: feedSSE_bytes concat_filter_nonempty)
  have "sp_kind (byte_step parse c p) = sp_kind p \<and> sp_parsed (byte_step parse c p) = sp_parsed p" for c and p :: streamParser by (simp add: byte_step_def)
  then have "sp_kind (fold (byte_step parse) t p) = sp_kind p \<and> sp_parsed (fold (byte_step parse) t p) = sp_parsed p" for t and p :: streamParser
    by (induction t arbitrary: p) simp_all
  with assms(1) np have fin: "finish parse q = q\<lparr>sp_parsed := True\<rparr>" by (simp add: q finish_def)
  have "\<exists>n. body_step parse (BodyRead b True) (?m\<lparr>mb_bytes := n', mb_parser := fold (meter_feed parse) (filter (\<lambda>b. b \<noteq> []) chunks) ?p\<rparr>) =
      finalize parse (?m\<lparr>mb_bytes := n, mb_eof := True, mb_parser := finish parse q\<rparr>)" for n'
    by (cases "b = []") (auto simp: q_def Let_def)
  then obtain n' where "fold (body_step parse) (map (\<lambda>b. BodyRead b False) chunks @ [BodyRead b True]) ?m =
      finalize parse (?m\<lparr>mb_bytes := n', mb_eof := True, mb_parser := finish parse q\<rparr>)"
    using reads by (metis fold_append fold_simps comp_apply)
  moreover have "mb_done (finalize parse (?m\<lparr>mb_bytes := n', mb_eof := True, mb_parser := finish parse q\<rparr>)) = Some (q\<lparr>sp_parsed := True\<rparr>, True)"
    "mb_finished (finalize parse (?m\<lparr>mb_bytes := n', mb_eof := True, mb_parser := finish parse q\<rparr>))"
    by (simp_all add: finalize_def wrapBody_def fin Let_def) (simp add: finish_def)
  moreover have "mb_finished m \<Longrightarrow> fold (body_step parse) rest m = m" for m using assms(2) by (auto simp: finalize_def)
  ultimately show ?thesis by (simp add: q)
qed

text \<open>The counts of a whole stream.\<close>

lemma stream_counts:
  assumes "prefix ''text/event-stream'' ct"
  shows "settle_usage resp (fold (byte_step parse) t (newStreamParser ct)) True =
    settle_usage resp (fold (observeLine parse) (filter short_line (lines_of t)) (newStreamParser ct)) True"
proof -
  let ?p = "newStreamParser ct"
  let ?q = "fold (byte_step parse) t ?p"
  have "settle_usage resp ?q True = settle_usage resp (?q\<lparr>sp_line := [], skipLine := False\<rparr>) True" by (simp add: settle_usage_frame)
  also have "?q\<lparr>sp_line := [], skipLine := False\<rparr> = fold (observeLine parse) (filter short_line (lines_of t)) (?p\<lparr>sp_line := [], skipLine := False\<rparr>)"
    unfolding lines_of_def by (rule bytes_lines) (simp add: newStreamParser_def)
  also have "?p\<lparr>sp_line := [], skipLine := False\<rparr> = ?p" by (simp add: newStreamParser_def)
  finally show ?thesis .
qed

lemma HookWithSettle_stream:
  assumes "rs_peer resp \<noteq> []" "fst (splitServiceRoute (rs_path resp)) \<noteq> []" "rs_body resp"
    and "rs_encoding resp = [] \<or> rs_encoding resp = ''identity''" "prefix ''text/event-stream'' (rs_content_type resp)"
    and "ops = map (\<lambda>b. BodyRead b False) chunks @ BodyRead b True # rest" "rest = [] \<or> rest = [BodyClose]"
  shows "HookWithSettle parse resp ops =
    Some (settle_usage resp (fold (observeLine parse) (filter short_line (lines_of (concat chunks @ b))) (newStreamParser (rs_content_type resp))) True)"
proof -
  have "sp_kind (newStreamParser (rs_content_type resp)) = parserSSE" using assms(5) by (simp add: newStreamParser_def)
  note d = stream_done [OF this assms(7), of parse chunks b]
  have "HookWithSettle parse resp ops = map_option (\<lambda>(p, eof). settle_usage resp p eof) (mb_done (fold (body_step parse) ops (wrapBody (rs_content_type resp))))"
    using assms(1-4) by (auto simp: HookWithSettle_def)
  with d show ?thesis unfolding assms(6) by (simp only: settle_usage_frame stream_counts [OF assms(5)] option.map prod.case)
qed

text \<open>
  C12 (the meter of a stream). An event stream that reaches its end, delivered in reads of any sizes, gives the settlement callback exactly once the counts that its complete lines within the
  line limit say, folded in their order: where the reads were cut does not matter.
\<close>

theorem stream_metered:
  assumes "rs_peer resp \<noteq> []" "fst (splitServiceRoute (rs_path resp)) \<noteq> []" "rs_body resp"
    and "rs_encoding resp = [] \<or> rs_encoding resp = ''identity''" "prefix ''text/event-stream'' (rs_content_type resp)"
    and "ops = map (\<lambda>b. BodyRead b False) chunks @ BodyRead b True # rest"
    and "rest = [] \<or> rest = [BodyClose]"
  shows "HookWithSettle parse resp ops =
    Some (settle_usage resp (fold (observeLine parse) (filter short_line (lines_of (concat chunks @ b))) (newStreamParser (rs_content_type resp))) True)"
  by (rule HookWithSettle_stream [OF assms])

section \<open>Counts\<close>

lemma dec_int_ok: "in_int64 n \<Longrightarrow> in_int64 (dec_int n v)"
  by (simp add: dec_int_def split: json.split)

lemma dec_struct_ok:
  assumes "\<And>k v x. P x \<Longrightarrow> P (fld k v x)" "P x"
  shows "P (dec_struct fld x v)"
proof -
  have "P (fold (\<lambda>(k, v). fld (fold_name k) v) fs x)" for fs
    using assms(2) by (induction fs arbitrary: x) (auto simp: assms(1))
  with assms(2) show ?thesis by (simp add: dec_struct_def split: json.split)
qed

lemma dec_usage_ok: "opt_ok u \<Longrightarrow> opt_ok (dec_usage u v)"
proof -
  have zero: "in_int64 0" by (simp add: in_int64_def)
  have details: "in_int64 n \<Longrightarrow> in_int64 (dec_struct details_field n v)" for n v
    by (rule dec_struct_ok) (simp_all add: details_field_def dec_int_ok)
  have "usage_ok x \<Longrightarrow> usage_ok (usage_field k v x)" for k v x
    by (auto simp: usage_field_def usage_ok_def dec_int_ok dec_ptr_def details zero split: option.splits)
  then have "usage_ok x \<Longrightarrow> usage_ok (dec_struct usage_field x v)" for x by (rule dec_struct_ok)
  moreover have "usage_ok zero_usage" by (simp add: usage_ok_def zero_usage_def zero)
  ultimately show "opt_ok u \<Longrightarrow> ?thesis" by (auto simp: opt_ok_def dec_usage_def dec_ptr_def split: option.splits)
qed

lemma payloadProbe_ok: "probe_ok (payloadProbe parse payload)"
proof -
  have zero: "probe_ok zero_probe" by (simp add: probe_ok_def zero_probe_def opt_ok_def)
  have "opt_ok (snd m) \<Longrightarrow> opt_ok (snd (message_field k v m))" for k v m by (simp add: message_field_def dec_usage_ok)
  then have dm: "opt_ok (snd m) \<Longrightarrow> opt_ok (snd (dec_struct message_field m v))" for m v
    by (rule dec_struct_ok [where P = "\<lambda>m. opt_ok (snd m)"])
  have none: "opt_ok None" by (simp add: opt_ok_def)
  define M where "M = (\<lambda>m :: (string \<times> usage option) option. \<forall>x. m = Some x \<longrightarrow> opt_ok (snd x))"
  have msg: "M m \<Longrightarrow> M (dec_ptr (dec_struct message_field) ([], None) m v)" for m v
    unfolding M_def using dm [of "([], None)" v] dm [of "the m" v] none by (cases m) (auto simp: dec_ptr_def simp del: split_paired_All)
  have ok: "probe_ok pr \<longleftrightarrow> opt_ok (pr_usage pr) \<and> M (pr_message pr)" for pr by (simp only: probe_ok_def M_def)
  have "probe_ok pr \<Longrightarrow> probe_ok (probe_field k v pr)" for k v pr
    unfolding ok by (simp add: probe_field_def msg dec_usage_ok)
  then have "probe_ok pr \<Longrightarrow> probe_ok (dec_struct probe_field pr v)" for pr v by (rule dec_struct_ok)
  with zero show ?thesis by (simp add: payloadProbe_def split: option.split)
qed

lemma counts_usage: "counts_ok p \<Longrightarrow> opt_ok u \<Longrightarrow> counts_ok (observeUsage u p)"
  by (auto simp: observeUsage_def counts_ok_def Let_def max_def opt_ok_def usage_ok_def wrap64_range split: option.splits)

lemma counts_observe: "counts_ok p \<Longrightarrow> probe_ok pr \<Longrightarrow> counts_ok (observe pr p)"
proof -
  assume p: "counts_ok p" and pr: "probe_ok pr"
  have sm: "counts_ok (set_model m q) = counts_ok q" "counts_ok (mark_token pr q) = counts_ok q" for m q by (simp_all add: counts_ok_def)
  show ?thesis
  proof (cases "pr_message pr")
    case (Some m)
    obtain model u where m: "m = (model, u)" by (cases m)
    have "opt_ok u" "opt_ok (pr_usage pr)" using pr Some m by (auto simp: probe_ok_def)
    with p Some m show ?thesis by (simp add: observe_def sm counts_usage)
  qed (use p pr in \<open>simp add: observe_def sm counts_usage probe_ok_def\<close>)
qed

lemma counts_line: "counts_ok p \<Longrightarrow> counts_ok (observeLine parse l p)"
  by (simp add: observeLine_def Let_def counts_observe payloadProbe_ok)

lemma counts_stream: "counts_ok (fold (observeLine parse) ls (newStreamParser ct))"
proof -
  have "counts_ok p \<Longrightarrow> counts_ok (fold (observeLine parse) ls p)" for p by (induction ls arbitrary: p) (simp_all add: counts_line)
  then show ?thesis by (simp add: counts_ok_def newStreamParser_def in_int64_def)
qed

lemma settle_input_ok:
  "counts_ok p \<Longrightarrow> settleInputTokens p = (if openAIAggregateInput p then max 0 (inputTokens p - cachedInputTokens p) else inputTokens p) \<and> 0 \<le> settleInputTokens p"
proof -
  assume "counts_ok p"
  then have "wrap64 (inputTokens p - cachedInputTokens p) = inputTokens p - cachedInputTokens p"
    by (intro wrap64_id) (auto simp: counts_ok_def in_int64_def)
  with \<open>counts_ok p\<close> show ?thesis by (simp add: settleInputTokens_def counts_ok_def)
qed

section \<open>From the stream to the charge\<close>

text \<open>
  C11 (a metered stream is charged as it says). In enforce mode, when a forwarded request is answered by one of its peers with an event stream that reaches its end, in reads of any sizes, and the
  usage in the lines of that stream is positive and within the ceilings the gate took from the request, the buyer pays the exact cost of that usage at the frozen rates, at most the
  reservation, and every other balance is as before the request.
\<close>

theorem metered_request_charged:
  assumes "g_mode cfg = BillingEnforce" "billing_inv db" "market_ok mk" "in_int64 (g_output cfg)"
    and insp: "Inspect (gr_path r) (gr_length r) (gr_body r) (g_output cfg) = (plan, fwd)" "Generative plan \<or> Supported plan"
    and "gate_Middleware cfg db mk (Inr snap) rid now r = (db', Forward token (Some peers) fwd')"
    and resp: "rs_peer resp \<in> set peers" "rs_peer resp \<noteq> []" "fst (splitServiceRoute (rs_path resp)) \<noteq> []" "rs_body resp"
      "rs_encoding resp = [] \<or> rs_encoding resp = ''identity''" "prefix ''text/event-stream'' (rs_content_type resp)" "200 \<le> rs_status resp" "rs_status resp < 300"
    and ops: "ops = map (\<lambda>b. BodyRead b False) chunks @ BodyRead b True # rest" "rest = [] \<or> rest = [BodyClose]"
    and "p = fold (observeLine parse) (filter short_line (lines_of (concat chunks @ b))) (newStreamParser (rs_content_type resp))"
    and u: "0 < inputTokens p \<or> 0 < cachedInputTokens p \<or> 0 < outputTokens p"
      "settleInputTokens p + cachedInputTokens p \<le> InputCeiling plan" "outputTokens p \<le> OutputCeiling plan" "outputTokens p \<le> 2147483647"
    and "\<And>a. credit_of db a \<le> 4611686018427387903"
  shows "\<exists>reqID row q cost fee seller row'. token = Some reqID \<and> admitted cfg db mk snap now r plan db' reqID peers row \<and>
    q \<in> set (r_quotes row) \<and> q_peer_id q = rs_peer resp \<and>
    Cost (settleInputTokens p) (cachedInputTokens p) (outputTokens p) (q_in q) (q_cached q) (q_out q) = Inr cost \<and>
    cost \<le> r_reserved_raw row \<and> fee + seller = cost \<and>
    (let db'' = respond parse db' token resp ops feeBps t clock in
       billing_inv db'' \<and> scanBillingRequest db'' reqID = Inr row' \<and> r_state row' = (if cost = 0 then StateReleased else StateSettled) \<and>
       (\<forall>a. credit_of db'' a = credit_of db a + settle_move row q cost fee seller a \<and> reserved_of db'' a = reserved_of db a))"
proof -
  define su where "su = settle_usage resp p True"
  have hook: "HookWithSettle parse resp ops = Some su"
    using HookWithSettle_stream [OF resp(2-6) ops] assms(18) by (simp add: su_def)
  have counts: "counts_ok p" by (simp add: assms(18) counts_stream)
  have su: "su_Complete su" "ServedPeerID su \<in> set peers" "0 \<le> InputTokens su" "0 \<le> CachedInputTokens su" "0 \<le> OutputTokens su"
      "InputTokens su + CachedInputTokens su \<le> InputCeiling plan" "OutputTokens su \<le> OutputCeiling plan" "OutputTokens su \<le> 2147483647"
    using u resp counts settle_input_ok [OF counts] by (auto simp: su_def settle_usage_def counts_ok_def)
  obtain reqID row where t: "token = Some reqID" "billing_inv db'" and adm: "admitted cfg db mk snap now r plan db' reqID peers row"
    using forwarded_admitted [OF assms(1-3,5-7)] by metis
  note i = Inspect_ceilings [OF insp(1) assms(4)] Inspect_input [OF insp(1)]
  have fields: "InputTokens su = settleInputTokens p" "CachedInputTokens su = cachedInputTokens p" "OutputTokens su = outputTokens p" "ServedPeerID su = rs_peer resp"
    by (simp_all add: su_def settle_usage_def)
  have "respond parse db' token resp ops feeBps t clock = Callback db' (Some reqID) su feeBps t clock" using hook t by (simp add: respond_def)
  then show ?thesis
    unfolding fields [symmetric]
    by (simp only:) (rule admitted_charged [OF adm t(2) assms(2) i su assms(23), of feeBps t clock], use t(1) adm in blast)
qed

lemma demo_lines: "lines_of (concat [''dat'', ''a: {u}'' @ [nl]] @ []) = [''data: {u}'' @ [nl]]"
  by (simp add: lines_of_def nl_def)

lemma demo_counts:
  "fold (observeLine demo_parse) (filter short_line [''data: {u}'' @ [nl]]) (newStreamParser ''text/event-stream'') =
    (newStreamParser ''text/event-stream'')\<lparr>inputTokens := 20, cachedInputTokens := 5, outputTokens := 7, openAIAggregateInput := True\<rparr>"
proof -
  have t: "TrimSpace (drop 5 (''data: {u}'' @ [nl])) = ''{u}''" by code_simp
  have "payloadProbe demo_parse ''{u}'' = zero_probe\<lparr>pr_usage := Some (zero_usage\<lparr>us_prompt := 20, us_completion := 7, us_details := Some 5\<rparr>)\<rparr>"
    by code_simp
  then have "observeLine demo_parse (''data: {u}'' @ [nl]) (newStreamParser ''text/event-stream'') =
      observe (zero_probe\<lparr>pr_usage := Some (zero_usage\<lparr>us_prompt := 20, us_completion := 7, us_details := Some 5\<rparr>)\<rparr>) (newStreamParser ''text/event-stream'')"
    unfolding observeLine_def t Let_def by simp
  also have "\<dots> = (newStreamParser ''text/event-stream'')\<lparr>inputTokens := 20, cachedInputTokens := 5, outputTokens := 7, openAIAggregateInput := True\<rparr>"
    by (simp add: observe_def observeUsage_def set_model_def mark_token_def saw_content_def zero_probe_def zero_usage_def newStreamParser_def)
  finally show ?thesis by (simp add: short_line_def sseLineCap_def)
qed

lemma demo_resp: "rs_peer demo_response \<noteq> []" "fst (splitServiceRoute (rs_path demo_response)) \<noteq> []" "rs_body demo_response"
  "rs_encoding demo_response = [] \<or> rs_encoding demo_response = ''identity''" "prefix ''text/event-stream'' (rs_content_type demo_response)"
  "demo_reads = map (\<lambda>b. BodyRead b False) [''dat'', ''a: {u}'' @ [nl]] @ BodyRead [] True # [BodyClose]"
  "[BodyClose] = [] \<or> [BodyClose] = [BodyClose]" "200 \<le> rs_status demo_response" "rs_status demo_response < 300"
  by (simp_all add: demo_response_def demo_reads_def splitServiceRoute_def CutPrefix_def)

theorem stream_metered_witness:
  "\<exists>u. HookWithSettle demo_parse demo_response demo_reads = Some u \<and> su_Complete u \<and> InputTokens u = 15 \<and> CachedInputTokens u = 5 \<and> OutputTokens u = 7"
proof -
  have ct: "rs_content_type demo_response = ''text/event-stream''" by (simp add: demo_response_def)
  show ?thesis
    using stream_metered [OF demo_resp(1-7), of demo_parse]
    unfolding demo_lines ct demo_counts by (simp add: settle_usage_def settleInputTokens_def demo_response_def wrap64_def)
qed

theorem metered_request_charged_witness:
  "\<exists>db' reqID row q cost fee seller row'.
     gate_Middleware demo_gate demo_funded demo_asks (Inr demo_snap) (Some ''q1'') 10 demo_call = (db', Forward (Some ''q1'') (Some [''p1'']) Verbatim) \<and>
     Cost 15 5 7 (q_in q) (q_cached q) (q_out q) = Inr cost \<and> cost \<le> r_reserved_raw row \<and> fee + seller = cost \<and>
     (let db'' = respond demo_parse db' (Some ''q1'') demo_response demo_reads 250 30 30 in
        billing_inv db'' \<and> scanBillingRequest db'' reqID = Inr row' \<and> r_state row' = (if cost = 0 then StateReleased else StateSettled) \<and>
        (\<forall>a. credit_of db'' a = credit_of demo_funded a + settle_move row q cost fee seller a \<and> reserved_of db'' a = reserved_of demo_funded a))"
proof -
  obtain db' where run: "gate_Middleware demo_gate demo_funded demo_asks (Inr demo_snap) (Some ''q1'') 10 demo_call = (db', Forward (Some ''q1'') (Some [''p1'']) Verbatim)"
    by (rule demo_run)
  have g: "g_mode demo_gate = BillingEnforce" "in_int64 (g_output demo_gate)" "Generative demo_plan \<or> Supported demo_plan"
    by (simp_all add: demo_gate_def demo_plan_def in_int64_def)
  have c: "credit_of demo_funded a \<le> 4611686018427387903" for a
    by (simp add: demo_funded_def credit_of_def find_row_def empty_db_def)
  define p where "p = (newStreamParser ''text/event-stream'')\<lparr>inputTokens := 20, cachedInputTokens := 5, outputTokens := 7, openAIAggregateInput := True\<rparr>"
  have ct: "rs_content_type demo_response = ''text/event-stream''" by (simp add: demo_response_def)
  have p: "p = fold (observeLine demo_parse) (filter short_line (lines_of (concat [''dat'', ''a: {u}'' @ [nl]] @ []))) (newStreamParser (rs_content_type demo_response))"
    unfolding demo_lines ct demo_counts p_def by (rule refl)
  have n: "settleInputTokens p = 15" "cachedInputTokens p = 5" "outputTokens p = 7" by (simp_all add: p_def settleInputTokens_def wrap64_def)
  have u: "0 < inputTokens p \<or> 0 < cachedInputTokens p \<or> 0 < outputTokens p" "settleInputTokens p + cachedInputTokens p \<le> InputCeiling demo_plan"
    "outputTokens p \<le> OutputCeiling demo_plan" "outputTokens p \<le> 2147483647" by (simp_all add: n demo_plan_def)
  have mem: "rs_peer demo_response \<in> set [''p1'']" by (simp add: demo_response_def)
  from metered_request_charged [OF g(1) demo_inv(2) demo_asks_ok g(2) demo_inspect g(3) run mem demo_resp(1-5,8,9,6,7) p u c, where feeBps = 250 and t = 30 and clock = 30]
  show ?thesis unfolding n using run by blast
qed

section \<open>What the meter misses\<close>

text \<open>A last line without its newline is not read: the usage in it is not counted.\<close>

lemma unterminated_usage_lost: "nl \<notin> set l \<Longrightarrow> lines_of (t @ nl # l) = lines_of (t @ [nl])"
proof -
  have "nl \<notin> set l \<Longrightarrow> complete_lines w l = []" for w by (induction l arbitrary: w) auto
  then have "nl \<notin> set l \<Longrightarrow> complete_lines w (t @ nl # l) = complete_lines w (t @ [nl])" for w by (induction t arbitrary: w) auto
  then show "nl \<notin> set l \<Longrightarrow> ?thesis" by (simp add: lines_of_def)
qed

text \<open>A response that no peer has signed, such as an error of the gateway, never reaches the callback: the reservation stays open until the sweep.\<close>

lemma unsigned_response_unsettled: "rs_peer resp = [] \<Longrightarrow> respond parse db requestID resp ops feeBps now clock = db"
  by (simp add: respond_def HookWithSettle_def)

end
