(* ===== verification/Spec2Isabelle.thy ===== *)
theory Spec2Isabelle
  imports Otela_Prelude Billing_Core Merkle Credit_Store Billing_Requests Billing_Overlap Deposits Deposit_Watcher Withdrawals Allowances Solana_Keys Solana_Message Settlements Solana_RPC Withdraw_Worker
    Reconciliation Delegation_Worker Store_Runs Go_Text Think_Scanner Think_Stream Api_Keys Policy_Store Trusted_Regions Mesh Access_Control Deploy_Keys Market Request_Gate Request_Life Usage_Meter
begin

text \<open>
  A verification development of api.opentela.ai, the control plane of a market for inference. Buyers send requests with an API key, the billing gate quotes and reserves credit, the proxy forwards to a
  peer, the usage meter reads the answer, settlement charges it; credit comes from on-chain deposits or delegations and leaves through withdrawals; access decisions say which peers a key may reach.
  The sources are under \<^verbatim>\<open>src/\<close>; file names below are relative to \<^verbatim>\<open>src/internal\<close>.

  \<^bold>\<open>How the code is modelled.\<close> A struct is a record and an enumeration a datatype with the names of the code. The database is a record of tables (lists of rows), a store operation a function
  that returns the new tables or an error: an error rolls the transaction back, a UNIQUE, CHECK or FOREIGN KEY constraint of the migrations is a branch. \<^verbatim>\<open>int64\<close> is \<open>int\<close> with \<open>wrap64\<close>
  written where the code may overflow; bytes are 8-bit words. Go maps are partial functions or association lists. Clocks, random bytes, digests, signatures, HTTP transports and the chain are
  arguments. Loops without a structural bound carry a termination proof; the only loop with fuel is the paging loop of the deposit watcher, whose
  bound is the length of the history (theorem \<open>collect_complete\<close> shows that it is enough).

  \<^bold>\<open>Theories and what they show.\<close>

  \<^item> \<^verbatim>\<open>Otela_Prelude\<close>: machine integers, decimal text, tables, JSON values, runs of transactions. Its locales are the interfaces of the stores and workers: \<open>tx_store\<close> (a transaction keeps
    an invariant and a preorder, hence every run does), \<open>pass_worker\<close> (a worker pass is a run), guarded state machines. \<^verbatim>\<open>Go_Text\<close>: the string functions of Go that the code uses.
  \<^item> \<^verbatim>\<open>Billing_Core\<close> (\<^verbatim>\<open>billing/\<close>): caps, quotes, checked arithmetic, cost, fee, reservation size; the cost is the exact ceiling and the reservation covers every quoted peer.
  \<^item> \<^verbatim>\<open>Credit_Store\<close>, \<^verbatim>\<open>Billing_Requests\<close>, \<^verbatim>\<open>Billing_Overlap\<close> (\<^verbatim>\<open>store/billing.go\<close>): accounts, ledger, reservation, settlement, release, sweep; credit equals the ledger and reservations
    are backed; what overlapping transactions do with and without the row lock.
  \<^item> \<^verbatim>\<open>Deposits\<close>, \<^verbatim>\<open>Deposit_Watcher\<close> (\<^verbatim>\<open>store/deposit.go\<close>, \<^verbatim>\<open>deposits/\<close>): a deposit is credited once; a watcher pass is safe whatever the node answers; paging is complete.
  \<^item> \<^verbatim>\<open>Withdrawals\<close>, \<^verbatim>\<open>Withdraw_Worker\<close> (\<^verbatim>\<open>store/withdrawal.go\<close>, \<^verbatim>\<open>withdraw/\<close>): the withdrawal state machine, its worker, progress to finalized on a serving chain.
  \<^item> \<^verbatim>\<open>Allowances\<close>, \<^verbatim>\<open>Settlements\<close>, \<^verbatim>\<open>Delegation_Worker\<close> (\<^verbatim>\<open>store/allowance.go\<close>, \<^verbatim>\<open>store/delegation_settlement.go\<close>, \<^verbatim>\<open>delegations/\<close>): the registry mirrors the chain, batches stay within
    the delegated authority, a refund happens once, the poller and the worker keep this.
  \<^item> \<^verbatim>\<open>Merkle\<close>, \<^verbatim>\<open>Reconciliation\<close> (\<^verbatim>\<open>billing/merkle.go\<close>, \<^verbatim>\<open>store/reconciliation.go\<close>, \<^verbatim>\<open>delegations/reconcile.go\<close>): audit paths are complete and sound, every ledger row has a proof.
  \<^item> \<^verbatim>\<open>Solana_Keys\<close>, \<^verbatim>\<open>Solana_Message\<close>, \<^verbatim>\<open>Solana_RPC\<close> (\<^verbatim>\<open>solana/\<close>): base58, derived addresses, the wire format against a parser, base64, decoding of the node's answers.
  \<^item> \<^verbatim>\<open>Store_Runs\<close>: all money operations together; every run keeps all invariants and the books.
  \<^item> \<^verbatim>\<open>Market\<close>, \<^verbatim>\<open>Request_Gate\<close>, \<^verbatim>\<open>Request_Life\<close>, \<^verbatim>\<open>Usage_Meter\<close> (\<^verbatim>\<open>store/model_pricing.go\<close>, \<^verbatim>\<open>askrefresh/\<close>, \<^verbatim>\<open>peers/\<close>, \<^verbatim>\<open>gate/\<close>, \<^verbatim>\<open>billinggate/\<close>, \<^verbatim>\<open>settlement/\<close>,
    \<^verbatim>\<open>perf/\<close>): quotes are the cheapest, the forwarded body is bounded, a request in enforce mode is forwarded only with a reservation, and is charged for what the meter counted, however the stream is cut.
  \<^item> \<^verbatim>\<open>Think_Scanner\<close>, \<^verbatim>\<open>Think_Stream\<close> (\<^verbatim>\<open>thinkfix/\<close>): the scanner is independent of the cut into chunks; rewritten streams follow the block protocol (a refinement).
  \<^item> \<^verbatim>\<open>Api_Keys\<close> (\<^verbatim>\<open>store/postgres.go\<close>, \<^verbatim>\<open>cache/\<close>, \<^verbatim>\<open>auth/\<close>, \<^verbatim>\<open>keysvc/\<close>, \<^verbatim>\<open>keysapi/\<close>, \<^verbatim>\<open>principal/\<close>, \<^verbatim>\<open>identity/\<close>): accepted tokens are owned, revoked keys are refused.
  \<^item> \<^verbatim>\<open>Policy_Store\<close>, \<^verbatim>\<open>Trusted_Regions\<close> (\<^verbatim>\<open>store/acl.go\<close>, \<^verbatim>\<open>store/policy.go\<close>, the migrations): every transaction keeps the tables well formed, a challenge is used once, the migration guard is complete.
  \<^item> \<^verbatim>\<open>Mesh\<close>, \<^verbatim>\<open>Access_Control\<close> (\<^verbatim>\<open>mesh/\<close>, \<^verbatim>\<open>aclapi/\<close>): observations come from attested rows; the evaluator decides exactly what the tables permit, and trust is backed by memberships.
  \<^item> \<^verbatim>\<open>Deploy_Keys\<close> (\<^verbatim>\<open>store/deploykey.go\<close>, \<^verbatim>\<open>deploykeys/\<close>): a key is used within its budget, a revoked key stays refused, a link spends one use and adds one instance of the account, or changes nothing.

  \<^bold>\<open>Concurrency.\<close> A transaction is atomic in the runs. Where the code reads without a lock, \<^verbatim>\<open>Billing_Overlap\<close>, \<^verbatim>\<open>Settlements\<close> and \<^verbatim>\<open>Api_Keys\<close> split it into its read and its write and show what an
  interleaving does.

  \<^bold>\<open>Bounds of the model.\<close> Serial ids and revisions are unbounded integers. A timestamp is an integer of nanoseconds; differences saturate only where the zero time can occur. Telemetry values, log
  lines, metrics and HTTP headers without effect on state are left out.

  \<^bold>\<open>Not modelled.\<close> HTTP routing, encoding and configuration; node credential tokens and the faucet (third-party signature primitives around modelled messages); the catalog and the
  leaderboard, which only read; the token bucket of the access evaluator and all sampling, which compute in floating point; the ticker loops around the passes of the workers. The
  manifest lists each with its reason.
\<close>

end
